(* ===== verification/FixPrelude.thy ===== *)
theory FixPrelude
  imports Main "HOL-Library.Word" "HOL-Library.Sublist" "HOL-Library.Char_ord"
    "HOL-Library.List_Lexorder"
begin

text \<open>
  Shared vocabulary of the development: the machine types of the engine, bytes of a
  string, the searches of \<open>std::string\<close>, \<open>std::map\<close> as an association list in
  ascending key order, and the simp collections the component theories extend.
  The relational operators of \<open>std::string\<close> are the lexicographic order on unsigned
  bytes, which is the order the two library theories on characters and lists install.
\<close>

named_theorems conv_simps \<open>unfolding rules of the convertors\<close>
named_theorems date_simps \<open>unfolding rules of the calendar arithmetic\<close>
named_theorems frame_simps \<open>components an operation leaves alone\<close>
named_theorems store_simps \<open>effects of store operations\<close>

section \<open>Machine types\<close>

text \<open>\<open>SEQNUM\<close> is \<open>uint64_t\<close> (FieldTypes.h); sequence arithmetic wraps.\<close>

type_synonym SEQNUM = "64 word"

definition byte :: "char \<Rightarrow> nat" where
  "byte c = of_char c"

lemma byte_less_256 [simp]: "byte c < 256"
proof -
  have "of_char c \<in> {0 ..< 256 :: nat}"
    using range_nat_of_char by blast
  then show ?thesis by (simp add: byte_def)
qed

lemma byte_char_of [simp]: "n < 256 \<Longrightarrow> byte (char_of n) = n"
  by (simp add: byte_def)

lemma byte_inject [simp]: "byte c = byte d \<longleftrightarrow> c = d"
  by (simp add: byte_def)

text \<open>The value C++ computes by adding the bytes of a string as \<open>unsigned char\<close>.\<close>

definition byte_sum :: "string \<Rightarrow> nat" where
  "byte_sum s = sum_list (map byte s)"

lemma byte_sum_simps [simp]:
  "byte_sum [] = 0"
  "byte_sum (c # s) = byte c + byte_sum s"
  "byte_sum (s @ t) = byte_sum s + byte_sum t"
  by (simp_all add: byte_sum_def)

abbreviation SOH :: char where
  "SOH \<equiv> CHR 0x01"

abbreviation NUL :: char where
  "NUL \<equiv> CHR 0x00"

section \<open>Searches of std::string\<close>

text \<open>\<open>find_sub p s\<close> is the first offset at which \<open>p\<close> occurs in \<open>s\<close>;
  \<open>str_find p s i\<close> is \<open>s.find(p, i)\<close> with \<open>None\<close> for \<open>npos\<close>.\<close>

primrec find_sub :: "'a list \<Rightarrow> 'a list \<Rightarrow> nat option" where
  "find_sub p [] = (if p = [] then Some 0 else None)"
| "find_sub p (x # xs) =
     (if prefix p (x # xs) then Some 0 else map_option Suc (find_sub p xs))"

definition str_find :: "string \<Rightarrow> string \<Rightarrow> nat \<Rightarrow> nat option" where
  "str_find p s i =
     (if i \<le> length s then map_option (\<lambda>k. i + k) (find_sub p (drop i s)) else None)"

lemma find_sub_SomeD:
  "find_sub p s = Some i \<Longrightarrow> prefix p (drop i s) \<and> i \<le> length s"
proof (induction s arbitrary: i)
  case (Cons x xs)
  then show ?case by (cases i) (auto split: if_splits)
qed (auto split: if_splits)

lemma find_sub_minimal:
  "find_sub p s = Some i \<Longrightarrow> j < i \<Longrightarrow> \<not> prefix p (drop j s)"
proof (induction s arbitrary: i j)
  case (Cons x xs)
  then show ?case by (cases j) (auto split: if_splits)
qed (auto split: if_splits)

lemma find_sub_None: "find_sub p s = None \<longleftrightarrow> (\<forall>j. \<not> prefix p (drop j s))"
proof (induction s)
  case (Cons x xs)
  have "(\<forall>j. \<not> prefix p (drop j (x # xs))) \<longleftrightarrow>
      \<not> prefix p (x # xs) \<and> (\<forall>j. \<not> prefix p (drop j xs))"
    by (metis drop0 drop_Suc_Cons not0_implies_Suc)
  with Cons show ?case by simp
qed simp

lemma find_sub_bound: "find_sub p s = Some i \<Longrightarrow> i + length p \<le> length s"
  using find_sub_SomeD [of p s i] prefix_length_le [of p "drop i s"] by auto

lemma str_find_bound: "str_find p s i = Some k \<Longrightarrow> i \<le> k \<and> k + length p \<le> length s"
  by (auto simp: str_find_def split: if_splits dest: find_sub_bound)

lemma str_find_prefix: "str_find p s i = Some k \<Longrightarrow> prefix p (drop k s)"
  by (auto simp: str_find_def add.commute split: if_splits dest!: find_sub_SomeD)

lemma str_find_minimal:
  assumes "str_find p s i = Some k" "i \<le> j" "j < k"
  shows "\<not> prefix p (drop j s)"
proof -
  from assms obtain k' where k': "find_sub p (drop i s) = Some k'" "k = i + k'"
    by (auto simp: str_find_def split: if_splits)
  with assms have "\<not> prefix p (drop (j - i) (drop i s))"
    by (intro find_sub_minimal [OF k'(1)]) auto
  with assms show ?thesis by simp
qed

lemma str_find_None:
  "i \<le> length s \<Longrightarrow> str_find p s i = None \<longleftrightarrow> (\<forall>j\<ge>i. \<not> prefix p (drop j s))"
  by (auto simp: str_find_def find_sub_None) (metis add.commute drop_drop le_add_diff_inverse2)

lemma str_find_eqI:
  "i \<le> k \<Longrightarrow> k \<le> length s \<Longrightarrow> prefix p (drop k s) \<Longrightarrow> (\<And>j. i \<le> j \<Longrightarrow> j < k \<Longrightarrow> \<not> prefix p (drop j s)) \<Longrightarrow>
   str_find p s i = Some k"
proof (cases "str_find p s i")
  case None
  then show "i \<le> k \<Longrightarrow> k \<le> length s \<Longrightarrow> prefix p (drop k s) \<Longrightarrow> str_find p s i = Some k"
    using str_find_None [of i s p] by simp
next
  case (Some l)
  then show "i \<le> k \<Longrightarrow> prefix p (drop k s) \<Longrightarrow> (\<And>j. i \<le> j \<Longrightarrow> j < k \<Longrightarrow> \<not> prefix p (drop j s)) \<Longrightarrow> str_find p s i = Some k"
    using str_find_bound [OF Some] str_find_prefix [OF Some] str_find_minimal [OF Some, of k]
    by (metis linorder_neqE_nat)
qed

lemma str_find_here: "i \<le> length s \<Longrightarrow> prefix p (drop i s) \<Longrightarrow> str_find p s i = Some i"
  by (rule str_find_eqI) auto

text \<open>A search for text that starts with \<open>c\<close> passes over everything without \<open>c\<close>.\<close>

lemma no_prefix_before:
  assumes "c \<notin> set (take k (drop i s))" "i \<le> j" "j < i + k"
  shows "\<not> prefix (c # q) (drop j s)"
proof
  assume "prefix (c # q) (drop j s)"
  then obtain t where t: "drop j s = c # t" by (auto simp: prefix_def)
  then have j: "j < length s" "s ! j = c" by (metis drop_all list.distinct(1) not_le, metis nth_via_drop)
  then have "take k (drop i s) ! (j - i) = c" using assms(2,3) by simp
  moreover have "j - i < length (take k (drop i s))" using assms(2,3) j by auto
  ultimately show False using assms(1) nth_mem by metis
qed

lemma str_find_after:
  assumes "c \<notin> set (take k (drop i s))" "prefix (c # q) (drop (i + k) s)"
  shows "str_find (c # q) s i = Some (i + k)"
proof (rule str_find_eqI)
  show "i + k \<le> length s" using assms(2) prefix_length_le [OF assms(2)] by simp
qed (use assms no_prefix_before [OF assms(1)] in auto)

lemma str_find_absent:
  assumes "c \<notin> set (take k (drop i s))" "length s < i + k + length (c # q)" "i \<le> length s"
  shows "str_find (c # q) s i = None"
  unfolding str_find_None [OF assms(3)]
proof (intro allI impI)
  fix j assume "i \<le> j"
  show "\<not> prefix (c # q) (drop j s)"
  proof (cases "j < i + k")
    case True
    with no_prefix_before [OF assms(1) \<open>i \<le> j\<close>] show ?thesis by simp
  next
    case False
    with assms(2) show ?thesis using prefix_length_le [of "c # q" "drop j s"] by auto
  qed
qed

lemma str_find_seg:
  assumes "s = X @ Y @ (c # q) @ Z" "c \<notin> set Y" "i = length X"
  shows "str_find (c # q) s i = Some (length X + length Y)"
  unfolding assms(3) by (rule str_find_after) (use assms in auto)

lemma str_find_seg_absent:
  assumes "s = X @ Y" "c \<notin> set Y" "i = length X"
  shows "str_find (c # q) s i = None"
  unfolding assms(3) by (rule str_find_absent [where k = "length Y"]) (use assms in auto)

text \<open>\<open>std::find(begin, end, c)\<close>: the length of the part before the first \<open>c\<close>.\<close>

definition find_char :: "char \<Rightarrow> string \<Rightarrow> nat" where
  "find_char c s = length (takeWhile (\<lambda>d. d \<noteq> c) s)"

lemma find_char_le [simp]: "find_char c s \<le> length s"
  by (simp add: find_char_def length_takeWhile_le)

lemma find_char_found: "find_char c s < length s \<Longrightarrow> s ! find_char c s = c"
  unfolding find_char_def using nth_length_takeWhile by blast

lemma find_char_take: "c \<notin> set (take (find_char c s) s)"
  unfolding find_char_def by (metis (full_types) set_takeWhileD takeWhile_eq_take)

lemma find_char_append [simp]: "c \<notin> set s \<Longrightarrow> find_char c (s @ c # t) = length s"
  unfolding find_char_def by (induction s) auto

lemma find_char_absent [simp]: "c \<notin> set s \<Longrightarrow> find_char c s = length s"
  unfolding find_char_def by (induction s) auto

text \<open>\<open>c_str()\<close> read as a C string stops at the first NUL byte.\<close>

definition c_str :: "string \<Rightarrow> string" where
  "c_str s = takeWhile (\<lambda>c. c \<noteq> NUL) s"

lemma c_str_id [simp]: "NUL \<notin> set s \<Longrightarrow> c_str s = s"
  unfolding c_str_def by (induction s) auto

section \<open>std::map\<close>

text \<open>Keys are unique and iteration is in ascending key order, so a map is an
  association list whose keys increase strictly.\<close>

type_synonym ('k, 'v) smap = "('k \<times> 'v) list"

definition smap_ok :: "('k :: linorder, 'v) smap \<Rightarrow> bool" where
  "smap_ok m = sorted_wrt (<) (map fst m)"

abbreviation smap_find :: "('k, 'v) smap \<Rightarrow> 'k \<Rightarrow> 'v option" where
  "smap_find m k \<equiv> map_of m k"

fun smap_put :: "'k :: linorder \<Rightarrow> 'v \<Rightarrow> ('k, 'v) smap \<Rightarrow> ('k, 'v) smap" where
  "smap_put k v [] = [(k, v)]"
| "smap_put k v (p # m) =
     (if fst p < k then p # smap_put k v m
      else if fst p = k then (k, v) # m
      else (k, v) # p # m)"

definition smap_erase :: "'k \<Rightarrow> ('k, 'v) smap \<Rightarrow> ('k, 'v) smap" where
  "smap_erase k m = filter (\<lambda>p. fst p \<noteq> k) m"

text \<open>\<open>m.erase(m.begin(), m.lower_bound(k))\<close>.\<close>

definition smap_erase_below :: "'k :: linorder \<Rightarrow> ('k, 'v) smap \<Rightarrow> ('k, 'v) smap" where
  "smap_erase_below k m = dropWhile (\<lambda>p. fst p < k) m"

lemma smap_ok_Nil [simp]: "smap_ok []"
  by (simp add: smap_ok_def)

lemma smap_ok_Cons [simp]:
  "smap_ok (p # m) \<longleftrightarrow> (\<forall>q\<in>set m. fst p < fst q) \<and> smap_ok m"
  by (simp add: smap_ok_def)

lemma smap_put_set: "set (smap_put k v m) \<subseteq> insert (k, v) (set m)"
  by (induction k v m rule: smap_put.induct) auto

lemma smap_ok_put [simp]: "smap_ok m \<Longrightarrow> smap_ok (smap_put k v m)"
  by (induction k v m rule: smap_put.induct) (use smap_put_set in fastforce)+

lemma smap_find_put [simp]:
  "smap_ok m \<Longrightarrow> smap_find (smap_put k v m) i = (if i = k then Some v else smap_find m i)"
proof (induction k v m rule: smap_put.induct)
  case (2 k v p m)
  then show ?case by (cases p) auto
qed auto

lemma smap_find_below:
  fixes k :: "'k :: linorder"
  shows "\<forall>q\<in>set m. k < fst q \<Longrightarrow> smap_find m k = None"
  by (induction m) auto

lemma smap_ok_erase [simp]: "smap_ok m \<Longrightarrow> smap_ok (smap_erase k m)"
  by (induction m) (auto simp: smap_erase_def)

lemma smap_find_erase [simp]:
  "smap_find (smap_erase k m) i = (if i = k then None else smap_find m i)"
  by (induction m) (auto simp: smap_erase_def)

lemma smap_erase_below_filter:
  "smap_ok m \<Longrightarrow> smap_erase_below k m = filter (\<lambda>p. k \<le> fst p) m"
proof (induction m)
  case (Cons p m)
  show ?case
  proof (cases "fst p < k")
    case True
    with Cons show ?thesis by (auto simp: smap_erase_below_def)
  next
    case False
    with Cons.prems have "filter (\<lambda>p. k \<le> fst p) m = m"
      by (auto simp: filter_id_conv)
    with False show ?thesis by (simp add: smap_erase_below_def)
  qed
qed (simp add: smap_erase_below_def)

lemma smap_ok_erase_below [simp]: "smap_ok m \<Longrightarrow> smap_ok (smap_erase_below k m)"
  by (induction m) (auto simp: smap_erase_below_def)

lemma smap_find_erase_below [simp]:
  "smap_ok m \<Longrightarrow> smap_find (smap_erase_below k m) i = (if i < k then None else smap_find m i)"
proof (induction m)
  case (Cons p m)
  have "smap_find m i = None" if "i < k" "\<not> fst p < k"
    using Cons.prems that by (intro smap_find_below) force
  with Cons show ?case by (auto simp: smap_erase_below_def)
qed (simp add: smap_erase_below_def)

lemma smap_length_put: "length (smap_put k v m) \<le> Suc (length m)"
  by (induction k v m rule: smap_put.induct) auto

lemma smap_length_erase:
  "smap_find m k = Some v \<Longrightarrow> length (smap_erase k m) < length m"
proof (induction m)
  case (Cons p m)
  have "length (smap_erase k m) \<le> length m"
    by (simp add: smap_erase_def)
  with Cons show ?case by (auto simp: smap_erase_def less_Suc_eq_le split: if_splits)
qed simp

text \<open>Two maps in key order with the same entries are the same list.\<close>

lemma smap_ext:
  "smap_ok m \<Longrightarrow> smap_ok m' \<Longrightarrow> smap_find m = smap_find m' \<Longrightarrow> m = m'"
proof (induction m arbitrary: m')
  case Nil
  then show ?case by (cases m') (auto simp: fun_eq_iff split: if_splits dest: spec)
next
  case (Cons p m)
  show ?case
  proof (cases m')
    case Nil
    with Cons.prems(3) show ?thesis by (cases p) (auto simp: fun_eq_iff split: if_splits dest: spec)
  next
    case m': (Cons q n)
    have below: "smap_find (q # n) k = None" if "k < fst q" for k
      using that Cons.prems(2) m' by (intro smap_find_below) auto
    have below': "smap_find (p # m) k = None" if "k < fst p" for k
      using that Cons.prems(1) by (intro smap_find_below) auto
    have at: "smap_find (p # m) (fst p) = Some (snd p)" "smap_find (q # n) (fst q) = Some (snd q)"
      by (cases p, simp, cases q, simp)
    have fst: "fst p = fst q"
      using below [of "fst p"] below' [of "fst q"] at Cons.prems(3) unfolding m'
      by (metis linorder_neqE option.distinct(1))
    with at Cons.prems(3) have pq: "p = q" unfolding m' by (metis option.inject prod_eqI)
    have "smap_find m k = smap_find n k" for k
    proof (cases "k = fst p")
      case True
      then show ?thesis using smap_find_below [of m k] smap_find_below [of n k] Cons.prems(1,2) m' pq by simp
    next
      case False
      then show ?thesis using fun_cong [OF Cons.prems(3), of k] m' pq by (cases q) simp
    qed
    with Cons.IH [of n] Cons.prems(1,2) m' pq show ?thesis by auto
  qed
qed

lemma smap_ok_filter [simp]: "smap_ok m \<Longrightarrow> smap_ok (filter P m)"
  by (induction m) auto

lemma smap_find_filter:
  "smap_ok m \<Longrightarrow> smap_find (filter P m) k = (case smap_find m k of None \<Rightarrow> None | Some v \<Rightarrow> if P (k, v) then Some v else None)"
proof (induction m)
  case (Cons p m)
  have "smap_find (filter P m) (fst p) = None"
    by (rule smap_find_below) (use Cons.prems in auto)
  with Cons show ?case by (cases p) (auto split: option.split)
qed simp

lemma smap_put_all: "list_all P m \<Longrightarrow> P (k, v) \<Longrightarrow> list_all P (smap_put k v m)"
  using smap_put_set [of k v m] by (auto simp: list_all_iff)

lemma length_smap_put_new: "smap_find m k = None \<Longrightarrow> length (smap_put k v m) = Suc (length m)"
  by (induction k v m rule: smap_put.induct) (auto split: if_splits)

lemma smap_put_above: "\<forall>q\<in>set m. fst q < k \<Longrightarrow> smap_put k v m = m @ [(k, v)]"
  by (induction m) auto

lemma smap_put_sorted: "smap_ok (m @ ps) \<Longrightarrow> foldl (\<lambda>m p. smap_put (fst p) (snd p) m) m ps = m @ ps"
proof (induction ps arbitrary: m)
  case (Cons p ps)
  have "\<forall>q\<in>set m. fst q < fst p" using Cons.prems by (auto simp: smap_ok_def sorted_wrt_append)
  then show ?case using Cons smap_put_above [of m "fst p" "snd p"] by simp
qed simp

end
