(* ===== verification/Convertors.thy ===== *)
theory Convertors
  imports FixPrelude
begin

text \<open>
  The text convertors of FieldConvertors.h: decimal output without division by ten
  (\<open>number_of_symbols_in\<close>, \<open>integer_to_string\<close>), the checked integer parser
  \<open>IntTConvertor\<close> at its three instances, and the CheckSum, Char, Bool and Double
  convertors. C++ integers of type \<open>T\<close> are HOL integers in the range of \<open>T\<close>; the
  unsigned accumulator of the parser keeps its width. A \<open>FieldConvertError\<close> is \<open>None\<close>.
  The lemmas relate every routine to the plain decimal notation \<open>dec\<close>.
\<close>

section \<open>Decimal output\<close>

definition digit :: "nat \<Rightarrow> char" where
  "digit n = char_of (48 + n)"

text \<open>\<open>digit_pairs\<close>: the 200 characters 00 01 .. 99.\<close>

definition digit_pairs :: string where
  "digit_pairs = concat (map (\<lambda>n. [digit (n div 10), digit (n mod 10)]) [0..<100])"

fun number_of_symbols_loop :: "nat \<Rightarrow> nat \<Rightarrow> nat" where
  "number_of_symbols_loop number symbols =
     (if number > 9999 then number_of_symbols_loop (number div 10000) (symbols + 4)
      else if number > 99 then (if number > 999 then symbols + 4 else symbols + 3)
      else (if number > 9 then symbols + 2 else symbols + 1))"

declare number_of_symbols_loop.simps [simp del]

definition number_of_symbols_in :: "int \<Rightarrow> nat" where
  "number_of_symbols_in value' =
     number_of_symbols_loop (nat \<bar>value'\<bar>) 0 + (if value' < 0 then 1 else 0)"

text \<open>The digits are written backwards from the end of the buffer: \<open>acc\<close> is what
  stands between \<open>p\<close> and the end.\<close>

fun integer_to_string_loop :: "nat \<Rightarrow> string \<Rightarrow> string" where
  "integer_to_string_loop number acc =
     (if number > 99
      then (let pos = number mod 100 in
            integer_to_string_loop (number div 100)
              (digit_pairs ! (2 * pos) # digit_pairs ! (2 * pos + 1) # acc))
      else if number > 9
      then digit_pairs ! (2 * number) # digit_pairs ! (2 * number + 1) # acc
      else digit number # acc)"

declare integer_to_string_loop.simps [simp del]

definition integer_to_string :: "int \<Rightarrow> string" where
  "integer_to_string t =
     (let s = integer_to_string_loop (nat \<bar>t\<bar>) [] in if t < 0 then CHR ''-'' # s else s)"

text \<open>Writing more characters than the buffer has would start before \<open>buf\<close>: \<open>None\<close>.\<close>

definition integer_to_string_padded :: "nat \<Rightarrow> int \<Rightarrow> char \<Rightarrow> string option" where
  "integer_to_string_padded len t paddingChar =
     (let s = integer_to_string t in
      if length s \<le> len then Some (replicate (len - length s) paddingChar @ s) else None)"

definition size_to_string :: "nat \<Rightarrow> string" where
  "size_to_string t = integer_to_string_loop t []"

definition clamp_of :: "int \<Rightarrow> int \<Rightarrow> int \<Rightarrow> int" where
  "clamp_of value' lowerBound upperBound =
     (if value' < lowerBound then lowerBound
      else if value' > upperBound then upperBound else value')"

section \<open>The checked integer parser\<close>

text \<open>A template instance: its range, the width of its unsigned companion type, and
  \<open>numeric_limits<T>::digits10\<close>.\<close>

record int_type =
  VALUE_MIN :: int
  VALUE_MAX :: int
  UBITS :: nat
  DIGITS10 :: nat

definition signed_int :: int_type where
  "signed_int = \<lparr>VALUE_MIN = - (2 ^ 31), VALUE_MAX = 2 ^ 31 - 1, UBITS = 32, DIGITS10 = 9\<rparr>"

definition signed_int64 :: int_type where
  "signed_int64 = \<lparr>VALUE_MIN = - (2 ^ 63), VALUE_MAX = 2 ^ 63 - 1, UBITS = 64, DIGITS10 = 18\<rparr>"

definition unsigned_int64 :: int_type where
  "unsigned_int64 = \<lparr>VALUE_MIN = 0, VALUE_MAX = 2 ^ 64 - 1, UBITS = 64, DIGITS10 = 19\<rparr>"

definition OVERFLOW_MAX :: "int_type \<Rightarrow> int" where
  "OVERFLOW_MAX T = VALUE_MAX T div 10"

fun int_convert_loop :: "int_type \<Rightarrow> nat \<Rightarrow> string \<Rightarrow> nat option" where
  "int_convert_loop T x [] = Some x"
| "int_convert_loop T x (ch # str) =
     (if int x > OVERFLOW_MAX T then None
      else let c = (byte ch + 256 - 48) mod 256 in
        if c > 9 then None
        else let nx = (10 * x + c) mod 2 ^ UBITS T in
          if nx < x then None else int_convert_loop T nx str)"

text \<open>\<open>IntTConvertor<T>::convert(begin, end, result)\<close>. The do-while loop runs at least
  once, so the empty ranges are excluded before it.\<close>

definition int_convert :: "int_type \<Rightarrow> string \<Rightarrow> int option" where
  "int_convert T str =
     (if str = [] then None
      else if hd str = CHR ''-'' \<and> VALUE_MIN T = 0 then None
      else if hd str = CHR ''-''
      then (if tl str = [] then None
            else case int_convert_loop T 0 (tl str) of
                None \<Rightarrow> None
              | Some nx \<Rightarrow> if int nx > \<bar>VALUE_MIN T\<bar> then None else Some (- int nx))
      else case int_convert_loop T 0 str of
                None \<Rightarrow> None
              | Some nx \<Rightarrow> if int nx > VALUE_MAX T then None else Some (int nx))"

abbreviation IntConvertor :: "string \<Rightarrow> int option" where
  "IntConvertor \<equiv> int_convert signed_int"

definition int_buffer_size :: "int_type \<Rightarrow> nat" where
  "int_buffer_size T = DIGITS10 T + 2"

definition UInt64Convertor :: "string \<Rightarrow> SEQNUM option" where
  "UInt64Convertor s = map_option word_of_int (int_convert unsigned_int64 s)"

definition SEQNUM_string :: "SEQNUM \<Rightarrow> string" where
  "SEQNUM_string n = integer_to_string (uint n)"

section \<open>The other convertors\<close>

definition CheckSumConvertor_string :: "int \<Rightarrow> string option" where
  "CheckSumConvertor_string value' =
     (if value' > 255 \<or> value' < 0 then None
      else integer_to_string_padded 3 value' (CHR ''0''))"

definition CheckSumConvertor_convert :: "string \<Rightarrow> int option" where
  "CheckSumConvertor_convert value' = IntConvertor value'"

definition CharConvertor_string :: "char \<Rightarrow> string" where
  "CharConvertor_string value' = (if value' = NUL then [] else [value'])"

definition CharConvertor_convert :: "string \<Rightarrow> char option" where
  "CharConvertor_convert value' = (if length value' \<noteq> 1 then None else Some (value' ! 0))"

definition BoolConvertor_string :: "bool \<Rightarrow> string" where
  "BoolConvertor_string value' = [if value' then CHR ''Y'' else CHR ''N'']"

definition BoolConvertor_convert :: "string \<Rightarrow> bool option" where
  "BoolConvertor_convert value' =
     (if length value' \<noteq> 1 then None
      else if value' ! 0 = CHR ''Y'' then Some True
      else if value' ! 0 = CHR ''N'' then Some False else None)"

definition is_digit :: "char \<Rightarrow> bool" where
  "is_digit c = (48 \<le> byte c \<and> byte c < 58)"

text \<open>The syntax check of \<open>DoubleConvertor::convert\<close>. It runs over \<open>c_str()\<close>; the
  pointer moves past a point even when no digit follows it. The conversion itself is the
  vendored double-conversion library and cannot fail after the check.\<close>

definition DoubleConvertor_valid :: "string \<Rightarrow> bool" where
  "DoubleConvertor_valid value' =
     (let i0 = c_str value' in
      if i0 = [] then False
      else let i1 = (if hd i0 = CHR ''-'' then tl i0 else i0) in
      if i1 = [] then False
      else let i2 = dropWhile is_digit i1;
               haveDigit = (i1 \<noteq> i2);
               afterPoint = (if i2 \<noteq> [] \<and> hd i2 = CHR ''.'' then tl i2 else i2);
               fractionDigit = (afterPoint \<noteq> [] \<and> i2 \<noteq> afterPoint \<and> is_digit (hd afterPoint));
               i3 = (if fractionDigit then dropWhile is_digit afterPoint else afterPoint)
           in i3 = [] \<and> (haveDigit \<or> fractionDigit))"

section \<open>Plain decimal notation\<close>

fun dec :: "nat \<Rightarrow> string" where
  "dec n = (if n < 10 then [digit n] else dec (n div 10) @ [digit (n mod 10)])"

declare dec.simps [simp del]

definition undec :: "string \<Rightarrow> nat" where
  "undec s = foldl (\<lambda>a c. 10 * a + (byte c - 48)) 0 s"

definition decimal :: "int \<Rightarrow> string" where
  "decimal v = (if v < 0 then CHR ''-'' # dec (nat (- v)) else dec (nat v))"

lemma byte_digit [simp]: "n < 10 \<Longrightarrow> byte (digit n) = 48 + n"
  by (simp add: digit_def)

lemma is_digit_digit [simp]: "n < 10 \<Longrightarrow> is_digit (digit n)"
  by (simp add: is_digit_def)

lemma digit_pairs_pair:
  assumes "n < 100"
  shows "digit_pairs ! (2 * n) = digit (n div 10)"
    and "digit_pairs ! (2 * n + 1) = digit (n mod 10)"
proof -
  have nth: "concat (map (\<lambda>n. [f n, g n]) [a..<a + k]) ! (2 * i) = f (a + i) \<and>
      concat (map (\<lambda>n. [f n, g n]) [a..<a + k]) ! (2 * i + 1) = g (a + i)"
    if "i < k" for f g :: "nat \<Rightarrow> char" and a k i
    using that
  proof (induction k arbitrary: a i)
    case (Suc k)
    have upt: "[a..<Suc (a + k)] = a # [Suc a..<Suc (a + k)]"
      by (simp add: upt_conv_Cons)
    show ?case
    proof (cases i)
      case 0
      then show ?thesis by (simp add: upt del: upt_Suc)
    next
      case (Suc j)
      with Suc.IH [of j "Suc a"] Suc.prems show ?thesis
        by (simp add: upt del: upt_Suc)
    qed
  qed simp
  show "digit_pairs ! (2 * n) = digit (n div 10)"
    and "digit_pairs ! (2 * n + 1) = digit (n mod 10)"
    using nth [of n 100 "\<lambda>n. digit (n div 10)" "\<lambda>n. digit (n mod 10)" 0] assms
    by (simp_all add: digit_pairs_def)
qed

lemma dec_nonempty [simp]: "dec n \<noteq> []"
  by (subst dec.simps) simp

lemma dec_two: "n > 9 \<Longrightarrow> n < 100 \<Longrightarrow> dec n = [digit (n div 10), digit (n mod 10)]"
  by (simp add: dec.simps [of n] dec.simps [of "n div 10"])

lemma dec_step100:
  assumes "n > 99"
  shows "dec n = dec (n div 100) @ [digit (n mod 100 div 10), digit (n mod 100 mod 10)]"
proof -
  have "n div 10 div 10 = n div 100" by (simp add: div_mult2_eq [symmetric])
  moreover have "n div 10 mod 10 = n mod 100 div 10"
    by (simp add: mod_mult2_eq [of n 10 10, simplified])
  moreover have "n mod 10 = n mod 100 mod 10" by (simp add: mod_mod_cancel)
  moreover have "\<not> n div 10 < 10" using assms by linarith
  ultimately show ?thesis
    using assms by (simp add: dec.simps [of n] dec.simps [of "n div 10"])
qed

lemma integer_to_string_loop_dec: "integer_to_string_loop n acc = dec n @ acc"
proof (induction n acc rule: integer_to_string_loop.induct)
  case (1 n acc)
  have pos: "n mod 100 < 100" by simp
  consider "n > 99" | "9 < n" "n < 100" | "n < 10" by linarith
  then show ?case
  proof cases
    case 1
    then show ?thesis
      using "1.IH" digit_pairs_pair [OF pos]
      by (simp add: integer_to_string_loop.simps [of n acc] Let_def dec_step100 [of n])
  next
    case 2
    then show ?thesis
      using digit_pairs_pair [of n]
      by (simp add: integer_to_string_loop.simps [of n acc] dec_two)
  next
    case 3
    then show ?thesis
      by (simp add: integer_to_string_loop.simps [of n acc] dec.simps [of n])
  qed
qed

lemma integer_to_string_decimal [conv_simps]: "integer_to_string t = decimal t"
  by (simp add: integer_to_string_def decimal_def integer_to_string_loop_dec Let_def nat_abs_int_diff)

lemma number_of_symbols_loop_dec: "number_of_symbols_loop n s = s + length (dec n)"
proof (induction n s rule: number_of_symbols_loop.induct)
  case (1 n s)
  show ?case
  proof (cases "n > 9999")
    case True
    have "n div 100 > 99" and "n div 100 div 100 = n div 10000"
      using True by (linarith, simp add: div_mult2_eq [symmetric])
    with True 1 show ?thesis
      by (simp add: number_of_symbols_loop.simps [of n s] dec_step100 [of n]
          dec_step100 [of "n div 100"])
  next
    case False
    consider "n > 999" | "99 < n" "n \<le> 999" | "9 < n" "n \<le> 99" | "n \<le> 9" by linarith
    then show ?thesis
    proof cases
      case 1
      have "9 < n div 100" "n div 100 < 100" using 1 False by linarith+
      with 1 False show ?thesis
        by (simp add: number_of_symbols_loop.simps [of n s] dec_step100 [of n] dec_two)
    next
      case 2
      have "n div 100 < 10" using 2 by linarith
      with 2 show ?thesis
        by (simp add: number_of_symbols_loop.simps [of n s] dec_step100 [of n]
            dec.simps [of "n div 100"])
    next
      case 3
      then show ?thesis by (simp add: number_of_symbols_loop.simps [of n s] dec_two)
    next
      case 4
      then show ?thesis by (simp add: number_of_symbols_loop.simps [of n s] dec.simps [of n])
    qed
  qed
qed

lemma number_of_symbols_decimal [conv_simps]:
  "number_of_symbols_in v = length (decimal v)"
  by (simp add: number_of_symbols_in_def number_of_symbols_loop_dec decimal_def)

lemma size_to_string_dec [conv_simps]: "size_to_string n = dec n"
  by (simp add: size_to_string_def integer_to_string_loop_dec)

lemma set_dec: "c \<in> set (dec n) \<Longrightarrow> is_digit c"
proof (induction n rule: dec.induct)
  case (1 n)
  then show ?case by (cases "n < 10") (auto simp: dec.simps [of n])
qed

lemma undec_snoc: "undec (s @ [c]) = 10 * undec s + (byte c - 48)"
  by (simp add: undec_def)

lemma undec_dec [simp]: "undec (dec n) = n"
proof (induction n rule: dec.induct)
  case (1 n)
  show ?case
  proof (cases "n < 10")
    case True
    then show ?thesis by (simp add: dec.simps [of n] undec_def)
  next
    case False
    with 1 show ?thesis by (simp add: dec.simps [of n] undec_snoc)
  qed
qed

lemma dec_less_length: "n < 10 ^ k \<Longrightarrow> 0 < k \<Longrightarrow> length (dec n) \<le> k"
proof (induction k arbitrary: n)
  case (Suc k)
  show ?case
  proof (cases "n < 10")
    case True
    then show ?thesis by (simp add: dec.simps [of n])
  next
    case False
    with Suc.prems have "k > 0" by (cases k) auto
    moreover have "n div 10 < 10 ^ k" using Suc.prems by (simp add: less_mult_imp_div_less mult.commute)
    ultimately show ?thesis using Suc.IH False by (simp add: dec.simps [of n])
  qed
qed simp

section \<open>The parser against the notation\<close>

text \<open>The loop accepts exactly the digit strings whose value fits. It relies on a few
  facts of the range and the width, which the three instances have.\<close>

definition int_type_ok :: "int_type \<Rightarrow> bool" where
  "int_type_ok T = (100 < VALUE_MAX T \<and> VALUE_MAX T < 2 ^ UBITS T \<and> VALUE_MAX T mod 10 \<noteq> 9 \<and>
     (VALUE_MIN T = 0 \<or> VALUE_MIN T = - VALUE_MAX T - 1 \<and> VALUE_MAX T + 1 < 2 ^ UBITS T))"

lemma int_types_ok [simp]:
  "int_type_ok signed_int" "int_type_ok signed_int64" "int_type_ok unsigned_int64"
  by (simp_all add: int_type_ok_def signed_int_def signed_int64_def unsigned_int64_def)

definition undec_from :: "nat \<Rightarrow> string \<Rightarrow> nat" where
  "undec_from x s = foldl (\<lambda>a c. 10 * a + (byte c - 48)) x s"

lemma undec_from_simps [simp]:
  "undec_from x [] = x"
  "undec_from x (c # s) = undec_from (10 * x + (byte c - 48)) s"
  by (simp_all add: undec_from_def)

lemma undec_from_0: "undec_from 0 s = undec s"
  by (simp add: undec_from_def undec_def)

lemma undec_from_ge: "x \<le> undec_from x s"
proof (induction s arbitrary: x)
  case (Cons c s)
  have "x \<le> 10 * x + (byte c - 48)" by simp
  also have "\<dots> \<le> undec_from x (c # s)" using Cons by simp
  finally show ?case .
qed simp

lemma digit_offset:
  "(byte ch + 256 - 48) mod 256 > 9 \<longleftrightarrow> \<not> is_digit ch"
  "is_digit ch \<Longrightarrow> (byte ch + 256 - 48) mod 256 = byte ch - 48"
proof -
  have lt: "byte ch < 256" by simp
  have shift: "(byte ch + 256 - 48) mod 256 = byte ch - 48" if "48 \<le> byte ch"
  proof -
    from that obtain n where n: "byte ch = 48 + n" by (auto simp: le_iff_add)
    then have "byte ch + 256 - 48 = n + 256" "n < 256" using lt by simp_all
    then have "(byte ch + 256 - 48) mod 256 = n" by simp
    with n show ?thesis by simp
  qed
  show "(byte ch + 256 - 48) mod 256 > 9 \<longleftrightarrow> \<not> is_digit ch"
  proof (cases "byte ch < 48")
    case True
    then have "(byte ch + 256 - 48) mod 256 = byte ch + 208" by simp
    with True show ?thesis by (simp add: is_digit_def)
  next
    case False
    with shift show ?thesis by (auto simp: is_digit_def)
  qed
  show "(byte ch + 256 - 48) mod 256 = byte ch - 48" if "is_digit ch"
    using that shift by (simp add: is_digit_def)
qed

lemma is_digit_offset_le: "is_digit ch \<Longrightarrow> byte ch - 48 \<le> 9"
  by (auto simp: is_digit_def)

text \<open>One step: the comparison with the previous accumulator detects the wrap-around.\<close>

lemma int_step_wrap:
  assumes "int_type_ok T" "int x \<le> OVERFLOW_MAX T" "c \<le> 9"
  shows "(10 * x + c) mod 2 ^ UBITS T < x \<longleftrightarrow> 2 ^ UBITS T \<le> 10 * x + c"
proof -
  let ?M = "2 ^ UBITS T :: nat"
  have M: "VALUE_MAX T < int ?M" "100 < VALUE_MAX T"
    using assms(1) by (auto simp: int_type_ok_def)
  have x: "10 * int x \<le> VALUE_MAX T" using assms(2) by (simp add: OVERFLOW_MAX_def)
  show ?thesis
  proof (cases "?M \<le> 10 * x + c")
    case True
    have "10 * x + c - ?M < ?M" using M x assms(3) by linarith
    then have "(10 * x + c) mod ?M = 10 * x + c - ?M"
      using True by (simp add: le_mod_geq)
    moreover have "10 * x + c - ?M < x" using M x assms(3) True by linarith
    ultimately show ?thesis using True by simp
  next
    case False
    then show ?thesis by simp
  qed
qed

lemma int_convert_loop_sound:
  assumes "int_type_ok T"
  shows "int_convert_loop T x s = Some v \<Longrightarrow> list_all is_digit s \<and> v = undec_from x s"
  using assms
proof (induction T x s rule: int_convert_loop.induct)
  case (2 T x ch str)
  let ?c = "(byte ch + 256 - 48) mod 256"
  from "2.prems" have le: "int x \<le> OVERFLOW_MAX T" and c: "\<not> ?c > 9"
    and nw: "\<not> (10 * x + ?c) mod 2 ^ UBITS T < x"
    and rec: "int_convert_loop T ((10 * x + ?c) mod 2 ^ UBITS T) str = Some v"
    by (auto simp: Let_def not_less split: if_splits)
  from c have d: "is_digit ch" using digit_offset(1) by blast
  have "(10 * x + ?c) mod 2 ^ UBITS T = 10 * x + ?c"
    using nw int_step_wrap [OF \<open>int_type_ok T\<close> le, of ?c] c by simp
  with "2.IH" [OF _ refl c refl nw] le rec \<open>int_type_ok T\<close> d digit_offset(2) [OF d]
  show ?case by simp
qed simp

lemma int_convert_loop_complete:
  assumes "int_type_ok T" "list_all is_digit s"
    "int (undec_from x s) \<le> max (VALUE_MAX T) (- VALUE_MIN T)"
  shows "int_convert_loop T x s = Some (undec_from x s)"
  using assms
proof (induction s arbitrary: x)
  case (Cons ch s)
  let ?c = "byte ch - 48"
  have d: "is_digit ch" and c9: "?c \<le> 9" using Cons.prems is_digit_offset_le by auto
  have bound: "int (10 * x + ?c) \<le> max (VALUE_MAX T) (- VALUE_MIN T)"
    using Cons.prems(3) undec_from_ge [of "10 * x + ?c" s] by simp
  have le: "int x \<le> OVERFLOW_MAX T"
    using bound Cons.prems(1) unfolding OVERFLOW_MAX_def int_type_ok_def by auto presburger+
  have "10 * x + ?c < 2 ^ UBITS T"
  proof -
    have "int (10 * x + ?c) < 2 ^ UBITS T"
      using bound Cons.prems(1) by (auto simp: int_type_ok_def max_def split: if_splits)
    then show ?thesis by (metis of_nat_less_iff of_nat_numeral of_nat_power)
  qed
  with Cons d le c9 show ?case
    using digit_offset [of ch] int_step_wrap [OF Cons.prems(1) le c9] by (simp add: Let_def)
qed simp

lemma digit_not_minus: "is_digit c \<Longrightarrow> c \<noteq> CHR ''-''"
  by (auto simp: is_digit_def byte_def)

lemma decimal_no_minus_tail: "dec n = c # s \<Longrightarrow> c \<noteq> CHR ''-''"
  using set_dec [of c n] digit_not_minus by auto

text \<open>What the parser accepts, and what it returns: an optional minus sign for a signed
  type, at least one digit, nothing else, and a value in the range of the type.\<close>

definition int_literal :: "int_type \<Rightarrow> string \<Rightarrow> int \<Rightarrow> bool" where
  "int_literal T s v =
     ((s \<noteq> [] \<and> list_all is_digit s \<and> v = int (undec s) \<and> v \<le> VALUE_MAX T) \<or>
      (\<exists>ds. s = CHR ''-'' # ds \<and> ds \<noteq> [] \<and> list_all is_digit ds \<and> v = - int (undec ds) \<and>
         VALUE_MIN T \<noteq> 0 \<and> VALUE_MIN T \<le> v))"

lemma int_convert_loop_range:
  assumes T: "int_type_ok T" and B: "B = VALUE_MAX T \<or> B = - VALUE_MIN T"
  shows "(\<exists>n. int_convert_loop T 0 s = Some n \<and> \<not> int n > B \<and> v = n) \<longleftrightarrow>
    list_all is_digit s \<and> v = undec s \<and> int v \<le> B"
proof -
  have "B \<le> max (VALUE_MAX T) (- VALUE_MIN T)" using B by auto
  then show ?thesis
    using int_convert_loop_sound [OF T, of 0 s] int_convert_loop_complete [OF T, of s 0]
    unfolding undec_from_0 by (metis linorder_not_le order_trans)
qed

lemma int_convert_iff:
  assumes T: "int_type_ok T"
  shows "int_convert T s = Some v \<longleftrightarrow> int_literal T s v"
proof (cases s)
  case (Cons a ds)
  have "VALUE_MIN T \<le> 0" using T by (auto simp: int_type_ok_def)
  then have min: "\<bar>VALUE_MIN T\<bar> = - VALUE_MIN T" by simp
  show ?thesis
  proof (cases "a = CHR ''-''")
    case True
    then have nd: "\<not> list_all is_digit s" using Cons digit_not_minus by auto
    have "int_convert T s = Some v \<longleftrightarrow> VALUE_MIN T \<noteq> 0 \<and> ds \<noteq> [] \<and>
        (\<exists>m. (\<exists>n. int_convert_loop T 0 ds = Some n \<and> \<not> int n > - VALUE_MIN T \<and> m = n) \<and> v = - int m)"
      using True Cons min by (auto simp: int_convert_def split: option.splits)
    also have "\<dots> \<longleftrightarrow> int_literal T s v"
      unfolding int_convert_loop_range [OF T disjI2 [OF refl]] using True Cons nd
      by (auto simp: int_literal_def)
    finally show ?thesis .
  next
    case False
    have "int_convert T s = Some v \<longleftrightarrow>
        (\<exists>m. (\<exists>n. int_convert_loop T 0 s = Some n \<and> \<not> int n > VALUE_MAX T \<and> m = n) \<and> v = int m)"
      using False Cons by (auto simp: int_convert_def split: option.splits)
    also have "\<dots> \<longleftrightarrow> int_literal T s v"
      unfolding int_convert_loop_range [OF T disjI1 [OF refl]] using False Cons
      by (auto simp: int_literal_def)
    finally show ?thesis .
  qed
qed (simp add: int_convert_def int_literal_def)

lemma int_convert_decimal:
  assumes "int_type_ok T" "VALUE_MIN T \<le> v" "v \<le> VALUE_MAX T"
  shows "int_convert T (decimal v) = Some v"
proof -
  have ds: "list_all is_digit (dec n)" for n using set_dec by (auto simp: list_all_iff)
  show ?thesis
    unfolding int_convert_iff [OF assms(1)] using assms ds
    by (auto simp: int_literal_def decimal_def)
qed

lemma UInt64_roundtrip [simp]: "UInt64Convertor (SEQNUM_string n) = Some n"
proof -
  have "int_convert unsigned_int64 (decimal (uint n)) = Some (uint n)"
    using uint_lt2p [of n]
    by (intro int_convert_decimal [OF int_types_ok(3)]) (simp_all add: unsigned_int64_def)
  then show ?thesis
    by (simp add: UInt64Convertor_def SEQNUM_string_def integer_to_string_decimal)
qed

lemma Bool_roundtrip [simp]: "BoolConvertor_convert (BoolConvertor_string b) = Some b"
  by (simp add: BoolConvertor_convert_def BoolConvertor_string_def)

lemma Char_roundtrip: "c \<noteq> NUL \<Longrightarrow> CharConvertor_convert (CharConvertor_string c) = Some c"
  by (simp add: CharConvertor_convert_def CharConvertor_string_def)

lemma decimal_chars: "c \<in> set (decimal v) \<Longrightarrow> is_digit c \<or> c = CHR ''-''"
  using set_dec by (auto simp: decimal_def split: if_splits)

lemma decimal_nonempty [simp]: "decimal v \<noteq> []"
  by (simp add: decimal_def)

lemma decimal_no_special [simp]:
  "SOH \<notin> set (decimal v)" "CHR ''='' \<notin> set (decimal v)" "NUL \<notin> set (decimal v)"
proof -
  have "\<not> is_digit SOH" "\<not> is_digit (CHR ''='')" "\<not> is_digit NUL"
    by (simp_all add: is_digit_def byte_def)
  then show "SOH \<notin> set (decimal v)" "CHR ''='' \<notin> set (decimal v)" "NUL \<notin> set (decimal v)"
    using decimal_chars by fastforce+
qed

lemma CheckSum_string_Some:
  assumes "0 \<le> v" "v < 256"
  shows "\<exists>s. CheckSumConvertor_string v = Some s \<and> length s = 3 \<and> CheckSumConvertor_convert s = Some v"
proof -
  have len: "length (dec (nat v)) \<le> 3"
    using assms by (intro dec_less_length) auto
  let ?s = "replicate (3 - length (dec (nat v))) (CHR ''0'') @ dec (nat v)"
  have zeros: "undec (replicate k (CHR ''0'') @ t) = undec t" for k t
    by (induction k) (simp_all add: undec_def byte_def)
  have "is_digit (CHR ''0'')" by (simp add: is_digit_def byte_def)
  then have "list_all is_digit ?s"
    using set_dec by (auto simp: list_all_iff)
  then have "int_convert signed_int ?s = Some v"
    unfolding int_convert_iff [OF int_types_ok(1)] int_literal_def
    using assms by (simp add: zeros signed_int_def)
  then show ?thesis
    using assms len
    by (simp add: CheckSumConvertor_string_def CheckSumConvertor_convert_def
        integer_to_string_padded_def integer_to_string_decimal decimal_def Let_def)
qed

section \<open>Properties\<close>

text \<open>C33: the checked integer parser accepts exactly the decimal literals of its type, for
  \<open>int\<close>, \<open>int64_t\<close> and \<open>uint64_t\<close>: at least one digit, a minus sign only for the signed
  types, no other character, and a value inside the range of the type; the result is that
  value. The overflow tests inside the loop neither accept a wrapped value nor refuse a
  value that fits.\<close>

theorem IntTConvertor_exact:
  "(int_convert signed_int s = Some v \<longleftrightarrow> int_literal signed_int s v) \<and>
   (int_convert signed_int64 s = Some v \<longleftrightarrow> int_literal signed_int64 s v) \<and>
   (int_convert unsigned_int64 s = Some v \<longleftrightarrow> int_literal unsigned_int64 s v)"
  by (simp add: int_convert_iff)

text \<open>An integer written by \<open>integer_to_string\<close> is read back unchanged by the parser of
  its type, its text fits the conversion buffer of \<open>digits10 + 2\<close> characters, and it
  has exactly the length \<open>number_of_symbols_in\<close> computes, which is the length
  \<open>FieldBase::appendTo\<close> reserves for a tag.\<close>

theorem integer_string_roundtrip:
  assumes "T = signed_int \<or> T = signed_int64 \<or> T = unsigned_int64"
    and "VALUE_MIN T \<le> v" and "v \<le> VALUE_MAX T"
  shows "int_convert T (integer_to_string v) = Some v \<and>
    length (integer_to_string v) \<le> int_buffer_size T \<and>
    length (integer_to_string v) = number_of_symbols_in v"
proof -
  have ok: "int_type_ok T" using assms(1) by auto
  have "nat \<bar>v\<bar> < 10 ^ (int_buffer_size T - 1)" "v < 0 \<or> nat v < 10 ^ int_buffer_size T"
    using assms
    by (auto simp: int_buffer_size_def signed_int_def signed_int64_def unsigned_int64_def)
  then have "length (decimal v) \<le> int_buffer_size T"
    using dec_less_length [of "nat (- v)" "int_buffer_size T - 1"]
      dec_less_length [of "nat v" "int_buffer_size T"]
    by (auto simp: decimal_def int_buffer_size_def)
  with int_convert_decimal [OF ok assms(2,3)] show ?thesis
    by (simp add: conv_simps)
qed

theorem integer_string_roundtrip_witness:
  "int_convert signed_int (integer_to_string (- 2147483648)) = Some (- 2147483648) \<and>
   length (integer_to_string (- 2147483648)) \<le> int_buffer_size signed_int \<and>
   length (integer_to_string (- 2147483648)) = number_of_symbols_in (- 2147483648)"
  by (rule integer_string_roundtrip) (simp_all add: signed_int_def)

end
