(* ===== verification/DateTimes.thy ===== *)
theory DateTimes
  imports Convertors "HOL-Library.Signed_Division"
begin

text \<open>
  \<open>DateTime\<close> of FieldTypes.h, a Julian day number and the nanoseconds since midnight, with
  its calendar arithmetic, and the timestamp, time and date convertors of
  FieldConvertors.h. Division and remainder of C++ are \<open>sdiv\<close> and \<open>smod\<close>. The 32-bit
  intermediates of the calendar are plain integers; the one place where the width shows
  at run time, the difference of two timestamps in seconds, is narrowed to \<open>int\<close> as the
  code narrows it. Instants from \<open>nowUtc\<close> and the local time zone are not modelled here:
  they are inputs.
\<close>

section \<open>DateTime\<close>

record DateTime =
  m_date :: int
  m_time :: int

definition SECONDS_PER_DAY :: int where "SECONDS_PER_DAY = 86400"
definition SECONDS_PER_HOUR :: int where "SECONDS_PER_HOUR = 3600"
definition SECONDS_PER_MIN :: int where "SECONDS_PER_MIN = 60"
definition MINUTES_PER_HOUR :: int where "MINUTES_PER_HOUR = 60"
definition NANOS_PER_DAY :: int where "NANOS_PER_DAY = 86400000000000"
definition NANOS_PER_HOUR :: int where "NANOS_PER_HOUR = 3600000000000"
definition NANOS_PER_MIN :: int where "NANOS_PER_MIN = 60000000000"
definition NANOS_PER_SEC :: int where "NANOS_PER_SEC = 1000000000"
definition JULIAN_19700101 :: int where "JULIAN_19700101 = 2440588"

lemmas time_units =
  SECONDS_PER_DAY_def SECONDS_PER_HOUR_def SECONDS_PER_MIN_def MINUTES_PER_HOUR_def
  NANOS_PER_DAY_def NANOS_PER_HOUR_def NANOS_PER_MIN_def NANOS_PER_SEC_def JULIAN_19700101_def

definition PRECISION_FACTOR :: "nat \<Rightarrow> int" where
  "PRECISION_FACTOR i =
     [1000000000, 100000000, 10000000, 1000000, 100000, 10000, 1000, 100, 10, 1] ! i"

definition julianDate :: "int \<Rightarrow> int \<Rightarrow> int \<Rightarrow> int" where
  "julianDate year month day =
     (let a = (14 - month) sdiv 12;
          y = year + 4800 - a;
          m = month + 12 * a - 3
      in day + (153 * m + 2) sdiv 5 + y * 365 + y sdiv 4 - y sdiv 100 + y sdiv 400 - 32045)"

definition getYMD :: "int \<Rightarrow> int \<times> int \<times> int" where
  "getYMD jday =
     (let a = jday + 32044;
          b = (4 * a + 3) sdiv 146097;
          c = a - (b * 146097) sdiv 4;
          d = (4 * c + 3) sdiv 1461;
          e = c - (1461 * d) sdiv 4;
          m = (5 * e + 2) sdiv 153
      in (b * 100 + d - 4800 + m sdiv 10,
          m + 3 - 12 * (m sdiv 10),
          e - (153 * m + 2) sdiv 5 + 1))"

definition makeHMS :: "int \<Rightarrow> int \<Rightarrow> int \<Rightarrow> int \<Rightarrow> int" where
  "makeHMS hour minute second nanos =
     NANOS_PER_SEC * (SECONDS_PER_HOUR * hour + SECONDS_PER_MIN * minute + second) + nanos"

text \<open>Precisions outside 0..9 take the default branch, as 9 does.\<close>

definition precision_index :: "int \<Rightarrow> nat" where
  "precision_index precision = (if 0 \<le> precision \<and> precision \<le> 8 then nat precision else 9)"

definition convertToNanos :: "int \<Rightarrow> int \<Rightarrow> int" where
  "convertToNanos fraction precision = fraction * PRECISION_FACTOR (precision_index precision)"

definition getYear :: "DateTime \<Rightarrow> int" where
  "getYear t = fst (getYMD (m_date t))"

definition getMonth :: "DateTime \<Rightarrow> int" where
  "getMonth t = fst (snd (getYMD (m_date t)))"

definition getDay :: "DateTime \<Rightarrow> int" where
  "getDay t = snd (snd (getYMD (m_date t)))"

definition getHour :: "DateTime \<Rightarrow> int" where
  "getHour t = m_time t sdiv NANOS_PER_HOUR"

definition getMinute :: "DateTime \<Rightarrow> int" where
  "getMinute t = (m_time t sdiv NANOS_PER_MIN) smod MINUTES_PER_HOUR"

definition getSecond :: "DateTime \<Rightarrow> int" where
  "getSecond t = (m_time t sdiv NANOS_PER_SEC) smod SECONDS_PER_MIN"

text \<open>The cast to \<open>uint64_t\<close> comes before the remainder.\<close>

definition getNanosecond :: "DateTime \<Rightarrow> int" where
  "getNanosecond t = (m_time t mod 2 ^ 64) mod NANOS_PER_SEC"

definition getFraction :: "int \<Rightarrow> DateTime \<Rightarrow> int" where
  "getFraction precision t = getNanosecond t div PRECISION_FACTOR (precision_index precision)"

definition getMillisecond :: "DateTime \<Rightarrow> int" where
  "getMillisecond t = getNanosecond t div PRECISION_FACTOR 3"

definition getMicrosecond :: "DateTime \<Rightarrow> int" where
  "getMicrosecond t = getNanosecond t div PRECISION_FACTOR 6"

definition getHMS :: "int \<Rightarrow> DateTime \<Rightarrow> int \<times> int \<times> int \<times> int" where
  "getHMS precision t =
     (let ticks = m_time t sdiv NANOS_PER_SEC in
      (ticks sdiv SECONDS_PER_HOUR,
       (ticks sdiv SECONDS_PER_MIN) smod MINUTES_PER_HOUR,
       ticks smod SECONDS_PER_MIN,
       getFraction precision t))"

text \<open>Gauss's weekday, Sunday 1 to Saturday 7. \<open>int(2.6 * m - 0.2)\<close> is computed in
  double arithmetic, whose results for \<open>m\<close> from 1 to 12 are those of the integer
  quotient below.\<close>

definition getWeekDay :: "DateTime \<Rightarrow> int" where
  "getWeekDay t =
     (let (Y, M, D) = getYMD (m_date t);
          m = (if M \<ge> 3 then M - 2 else M + 10);
          Yprime = (if M \<ge> 3 then Y else Y - 1);
          y = Yprime smod 100;
          c = Yprime sdiv 100;
          wd = (D + (26 * m - 2) sdiv 10 + y + y sdiv 4 + c sdiv 4 - 2 * c) smod 7
      in 1 + (if wd < 0 then 7 + wd else wd))"

definition getTimeT :: "DateTime \<Rightarrow> int" where
  "getTimeT t = SECONDS_PER_DAY * (m_date t - JULIAN_19700101) + m_time t sdiv NANOS_PER_SEC"

definition fromUtcSeconds :: "int \<Rightarrow> int \<Rightarrow> DateTime" where
  "fromUtcSeconds t nanos =
     (let days = t sdiv SECONDS_PER_DAY; seconds = t smod SECONDS_PER_DAY in
      if seconds < 0
      then \<lparr>m_date = JULIAN_19700101 + (days - 1), m_time = NANOS_PER_SEC * (seconds + SECONDS_PER_DAY) + nanos\<rparr>
      else \<lparr>m_date = JULIAN_19700101 + days, m_time = NANOS_PER_SEC * seconds + nanos\<rparr>)"

definition mk_DateTime :: "int \<Rightarrow> int \<Rightarrow> int \<Rightarrow> int \<Rightarrow> int \<Rightarrow> int \<Rightarrow> int \<Rightarrow> int \<Rightarrow> DateTime" where
  "mk_DateTime year month day hour minute second fraction precision =
     \<lparr>m_date = julianDate year month day,
      m_time = makeHMS hour minute second (convertToNanos fraction precision)\<rparr>"

definition setHMS :: "int \<Rightarrow> int \<Rightarrow> int \<Rightarrow> int \<Rightarrow> int \<Rightarrow> DateTime \<Rightarrow> DateTime" where
  "setHMS hour minute second fraction precision t =
     t\<lparr>m_time := makeHMS hour minute second (convertToNanos fraction precision)\<rparr>"

definition clearDate :: "DateTime \<Rightarrow> DateTime" where
  "clearDate t = t\<lparr>m_date := 0\<rparr>"

definition clearTime :: "DateTime \<Rightarrow> DateTime" where
  "clearTime t = t\<lparr>m_time := 0\<rparr>"

text \<open>\<open>operator+=(int seconds)\<close>.\<close>

definition dt_add :: "DateTime \<Rightarrow> int \<Rightarrow> DateTime" where
  "dt_add t seconds =
     (let daysToAdd = seconds sdiv SECONDS_PER_DAY;
          secondsToAdd = seconds smod SECONDS_PER_DAY;
          d = m_date t + daysToAdd;
          n = m_time t + secondsToAdd * NANOS_PER_SEC
      in if n \<ge> NANOS_PER_DAY then \<lparr>m_date = d + 1, m_time = n smod NANOS_PER_DAY\<rparr>
         else if n < 0 then \<lparr>m_date = d - 1, m_time = n + NANOS_PER_DAY\<rparr>
         else \<lparr>m_date = d, m_time = n\<rparr>)"

definition dt_less :: "DateTime \<Rightarrow> DateTime \<Rightarrow> bool" where
  "dt_less lhs rhs =
     (if m_date lhs < m_date rhs then True
      else if m_date lhs > m_date rhs then False
      else m_time lhs < m_time rhs)"

definition dt_gt :: "DateTime \<Rightarrow> DateTime \<Rightarrow> bool" where
  "dt_gt lhs rhs = (\<not> (lhs = rhs \<or> dt_less lhs rhs))"

definition dt_le :: "DateTime \<Rightarrow> DateTime \<Rightarrow> bool" where
  "dt_le lhs rhs = (lhs = rhs \<or> dt_less lhs rhs)"

definition dt_ge :: "DateTime \<Rightarrow> DateTime \<Rightarrow> bool" where
  "dt_ge lhs rhs = (lhs = rhs \<or> dt_gt lhs rhs)"

text \<open>Narrowing to a 32-bit \<open>int\<close>.\<close>

definition to_int32 :: "int \<Rightarrow> int" where
  "to_int32 x = signed_take_bit 31 x"

text \<open>\<open>operator-\<close>: whole seconds, returned as \<open>int\<close>.\<close>

definition dt_minus :: "DateTime \<Rightarrow> DateTime \<Rightarrow> int" where
  "dt_minus lhs rhs =
     to_int32 (SECONDS_PER_DAY * (m_date lhs - m_date rhs) +
       to_int32 (m_time lhs sdiv NANOS_PER_SEC) - to_int32 (m_time rhs sdiv NANOS_PER_SEC))"

text \<open>The constructors \<open>UtcTimeOnly(const DateTime &)\<close> and \<open>UtcDate(const DateTime &)\<close>.\<close>

definition UtcTimeOnly :: "DateTime \<Rightarrow> DateTime" where
  "UtcTimeOnly val = clearDate val"

definition UtcDate :: "DateTime \<Rightarrow> DateTime" where
  "UtcDate val = clearTime val"

section \<open>Quotients of non-negative integers\<close>

lemma sdiv_pos [date_simps]: "0 \<le> a \<Longrightarrow> 0 < b \<Longrightarrow> (a :: int) sdiv b = a div b"
  by (cases "a = 0") (simp_all add: signed_divide_int_def)

lemma smod_pos [date_simps]: "0 \<le> a \<Longrightarrow> 0 < b \<Longrightarrow> (a :: int) smod b = a mod b"
  by (cases "a = 0") (simp_all add: signed_modulo_int_def sgn_if)

lemma div_unique_bounds: "b * q \<le> a \<Longrightarrow> a < b * q + b \<Longrightarrow> 0 < b \<Longrightarrow> (a :: int) div b = q"
  by (intro int_div_pos_eq [of a b q "a - b * q"]) auto

section \<open>The calendar\<close>

definition leap :: "int \<Rightarrow> bool" where
  "leap y = (4 dvd y \<and> (\<not> 100 dvd y \<or> 400 dvd y))"

definition days_in_month :: "int \<Rightarrow> int \<Rightarrow> int" where
  "days_in_month y m =
     (if m = 2 then (if leap y then 29 else 28)
      else if m = 4 \<or> m = 6 \<or> m = 9 \<or> m = 11 then 30 else 31)"

definition valid_date :: "int \<Rightarrow> int \<Rightarrow> int \<Rightarrow> bool" where
  "valid_date y m d = (1 \<le> m \<and> m \<le> 12 \<and> 1 \<le> d \<and> d \<le> days_in_month y m)"

text \<open>\<open>getYMD\<close> counts days from 1 March of year -4800: centuries \<open>b\<close>, years \<open>d\<close> of the
  century, days \<open>e\<close> of the year that starts in March.\<close>

lemma century_bound:
  fixes b d e :: int
  assumes "e \<le> 364 \<or> e = 365 \<and> (d \<le> 95 \<or> d = 99 \<and> rb = 3)" "d \<le> 99" "0 \<le> rb"
    "4 * qd \<le> d"
  shows "4 * (e + (365 * d + qd)) + 3 - rb < 146097"
proof -
  have "qd \<le> 24" using assms(2,4) by presburger
  with assms show ?thesis unfolding distrib_left by (elim disjE conjE) linarith+
qed

lemma quarters:
  fixes b :: int
  shows "4 * (b div 4) + b mod 4 = b" "0 \<le> b mod 4" "b mod 4 < 4"
  by simp_all

lemma div_century: "4 * q + r = (b :: int) \<Longrightarrow> 0 \<le> r \<Longrightarrow> r < 4 \<Longrightarrow> b * 146097 div 4 = 36524 * b + q"
  by (rule div_unique_bounds, unfold distrib_left) linarith+

lemma div_year: "4 * q + r = (d :: int) \<Longrightarrow> 0 \<le> r \<Longrightarrow> r < 4 \<Longrightarrow> 1461 * d div 4 = 365 * d + q"
  by (rule div_unique_bounds, unfold distrib_left) linarith+

lemma div_year_days:
  fixes d :: int
  assumes "4 * q + r = d" "0 \<le> r" "r < 4" "0 \<le> e" "4 * e + 3 - r < 1461"
  shows "(4 * (e + (365 * d + q)) + 3) div 1461 = d"
  by (rule div_unique_bounds, unfold distrib_left) (use assms in linarith)+

lemma getYMD_eq:
  assumes "0 \<le> b" "0 \<le> d" "d \<le> 99" "0 \<le> e" "0 \<le> m" "m \<le> 11"
    and e: "e \<le> 364 \<or> e = 365 \<and> d mod 4 = 3 \<and> (d = 99 \<longrightarrow> b mod 4 = 3)"
    and em: "(5 * e + 2) div 153 = m"
    and j: "j + 32044 = e + (365 * d + d div 4) + (36524 * b + b div 4)"
  shows "getYMD j = (b * 100 + d - 4800 + m div 10, m + 3 - 12 * (m div 10),
    e - (153 * m + 2) div 5 + 1)"
proof -
  obtain qb rb where qb: "b div 4 = qb" "b mod 4 = rb" "4 * qb + rb = b" "0 \<le> rb" "rb < 4"
    using quarters by metis
  obtain qd rd where qd: "d div 4 = qd" "d mod 4 = rd" "4 * qd + rd = d" "0 \<le> rd" "rd < 4"
    using quarters by metis
  let ?c = "e + (365 * d + qd)"
  have c0: "0 \<le> ?c" using assms(2,4) qd(3-5) by linarith
  have "d \<le> 95 \<or> d = 99" if "d mod 4 = 3" using that assms(3) by presburger
  with e qb(2) have "e \<le> 364 \<or> e = 365 \<and> (d \<le> 95 \<or> d = 99 \<and> rb = 3)" by auto
  then have cb: "4 * ?c + 3 - rb < 146097"
    using assms(3) qb qd by (intro century_bound) auto
  have "(4 * (?c + (36524 * b + qb)) + 3) div 146097 = b"
    using c0 cb qb(3-5) by (intro div_unique_bounds; unfold distrib_left; linarith)
  then have b: "(4 * (j + 32044) + 3) div 146097 = b" unfolding j qb qd .
  have bc: "(b * 146097) div 4 = 36524 * b + qb"
    using qb(3-5) by (rule div_century)
  from e qd(2) have e366: "e \<le> 364 \<or> e = 365 \<and> rd = 3" by auto
  have d: "(4 * ?c + 3) div 1461 = d"
    using e366 qd(3-5) assms(4) by (intro div_year_days) auto
  have dc: "(1461 * d) div 4 = 365 * d + qd"
    using qd(3-5) by (rule div_year)
  have j0: "0 \<le> 4 * (j + 32044) + 3" unfolding j qb qd distrib_left using assms(1) c0 qb(3-5) by linarith
  have c: "j + 32044 - (36524 * b + qb) = ?c" unfolding j qb qd by simp
  have e': "?c - (365 * d + qd) = e" by simp
  have c3: "0 \<le> 4 * ?c + 3" using c0 unfolding distrib_left by linarith
  have "(4 * (j + 32044) + 3) sdiv 146097 = b" by (subst sdiv_pos [OF j0]) (simp_all only: b)
  moreover have "(4 * ?c + 3) sdiv 1461 = d" by (subst sdiv_pos [OF c3]) (simp_all only: d)
  moreover have "(b * 146097) sdiv 4 = 36524 * b + qb" "(1461 * d) sdiv 4 = 365 * d + qd"
    "(5 * e + 2) sdiv 153 = m" "m sdiv 10 = m div 10" "(153 * m + 2) sdiv 5 = (153 * m + 2) div 5"
    using assms(1,2,4,5) by (simp_all add: sdiv_pos bc dc em)
  ultimately show ?thesis
    by (simp only: getYMD_def Let_def c e')
qed

text \<open>The day of the March year on which a month starts, \<open>(153 * m + 2) / 5\<close>, and its
  inverse.\<close>

lemma twelve_months:
  assumes "1 \<le> month" "month \<le> (12 :: int)"
  shows "month \<in> {1, 2, 3, 4, 5, 6, 7, 8, 9, 10, 11, 12}"
  using assms by auto presburger

definition month_start :: "int \<Rightarrow> int" where
  "month_start m = (153 * m + 2) div 5"

definition year_start :: "int \<Rightarrow> int" where
  "year_start y = y * 365 + y div 4 - y div 100 + y div 400"

lemma valid_dateE:
  assumes "valid_date y month day"
  obtains "month \<in> {1, 2, 3, 4, 5, 6, 7, 8, 9, 10, 11, 12}" "1 \<le> month" "month \<le> 12"
    "1 \<le> day" "day \<le> days_in_month y month"
proof -
  have "1 \<le> month" "month \<le> 12" "1 \<le> day" "day \<le> days_in_month y month"
    using assms unfolding valid_date_def by blast+
  with that twelve_months show thesis by blast
qed

lemma month_of_day:
  assumes "valid_date y month day"
  defines "m \<equiv> (if month \<le> 2 then month + 9 else month - 3)"
  shows "(5 * (day - 1 + month_start m) + 2) div 153 = m"
  using assms(1)
proof (rule valid_dateE)
  assume "month \<in> {1, 2, 3, 4, 5, 6, 7, 8, 9, 10, 11, 12}" "1 \<le> day" "day \<le> days_in_month y month"
  then show ?thesis
    by (elim insertE emptyE)
      (simp_all add: m_def month_start_def days_in_month_def div_unique_bounds split: if_splits)
qed

lemma day_of_year:
  assumes "valid_date y month day"
  defines "m \<equiv> (if month \<le> 2 then month + 9 else month - 3)"
  shows "0 \<le> day - 1 + month_start m \<and>
    (day - 1 + month_start m \<le> 364 \<or> day - 1 + month_start m = 365 \<and> month = 2 \<and> leap y)"
  using assms(1)
proof (rule valid_dateE)
  assume "month \<in> {1, 2, 3, 4, 5, 6, 7, 8, 9, 10, 11, 12}" "1 \<le> day" "day \<le> days_in_month y month"
  then show ?thesis
    by (elim insertE emptyE)
      (auto simp: m_def month_start_def days_in_month_def split: if_splits)
qed

lemma julianDate_eq:
  assumes "1 \<le> month" "month \<le> 12" "-4799 \<le> year"
  shows "julianDate year month day =
    (if month \<le> 2 then day + month_start (month + 9) + year_start (year + 4799) - 32045
     else day + month_start (month - 3) + year_start (year + 4800) - 32045)"
proof -
  have assoc: "d + s + y + p - q + r - k = d + s + (y + p - q + r) - k" for d s y p q r k :: int
    by simp
  have eq: "julianDate year month day = day + month_start m + year_start y - 32045"
    if "(14 - month) sdiv 12 = a" "year + 4800 - a = y" "month + 12 * a - 3 = m" "0 \<le> m" "0 \<le> y"
    for a y m
    unfolding julianDate_def Let_def that(1-3) year_start_def month_start_def
    using that(4,5) by (simp add: sdiv_pos)
  have "(14 - month) sdiv 12 = (if month \<le> 2 then 1 else 0)"
    using assms by (auto simp: sdiv_pos intro!: div_unique_bounds)
  then show ?thesis using assms by (auto intro!: eq split: if_splits)
qed

lemma century_split:
  fixes y :: int
  shows "y div 4 = 25 * (y div 100) + (y mod 100) div 4" "y div 400 = y div 100 div 4"
    "365 * y = 36500 * (y div 100) + 365 * (y mod 100)"
proof -
  have y: "y = 4 * (25 * (y div 100)) + y mod 100" by simp
  have "(4 * (25 * q) + r) div 4 = 25 * q + r div 4" for q r :: int by simp
  with y show "y div 4 = 25 * (y div 100) + (y mod 100) div 4" by metis
  show "y div 400 = y div 100 div 4" by (simp add: zdiv_zmult2_eq [of 4 y 100, simplified])
  show "365 * y = 36500 * (y div 100) + 365 * (y mod 100)"
    using div_mult_mod_eq [of y 100] by linarith
qed

lemma year_start_centuries:
  "year_start y = 365 * (y mod 100) + y mod 100 div 4 + (36524 * (y div 100) + y div 100 div 4)"
proof -
  have gen: "x + a - q + c = 365 * r + s + (36524 * q + c)"
    if "a = 25 * q + s" "x = 36500 * q + 365 * r" for x a q c r s :: int using that by simp
  show ?thesis
    unfolding year_start_def mult.commute [of y 365] century_split(2)
    by (rule gen) (rule century_split)+
qed

lemma leap_next_century:
  fixes y :: int
  assumes "leap (y - 4799)"
  shows "y mod 100 mod 4 = 3 \<and> (y mod 100 = 99 \<longrightarrow> y div 100 mod 4 = 3)"
proof
  have "4 dvd y - 4799" using assms by (simp add: leap_def)
  then have "y mod 4 = 3" by presburger
  then show "y mod 100 mod 4 = 3" by (simp add: mod_mod_cancel)
  show "y mod 100 = 99 \<longrightarrow> y div 100 mod 4 = 3"
  proof
    assume y: "y mod 100 = 99"
    let ?q = "y div 100"
    have q: "y - 4799 = 100 * (?q - 47)" using div_mult_mod_eq [of y 100] y unfolding right_diff_distrib by linarith
    then have "100 dvd y - 4799" by (rule dvdI)
    with assms have "400 dvd y - 4799" by (simp add: leap_def)
    then obtain k where "y - 4799 = 400 * k" by (rule dvdE)
    with q have "?q = 4 * (k + 11) + 3" unfolding right_diff_distrib distrib_left by linarith
    then show "?q mod 4 = 3" by (simp only: mod_mult_self4) simp
  qed
qed

lemma getYMD_julianDate:
  assumes v: "valid_date year month day" and y0: "-4799 \<le> year"
  shows "getYMD (julianDate year month day) = (year, month, day)"
proof -
  have mb: "1 \<le> month" "month \<le> 12" using v by (auto simp: valid_date_def)
  define a :: int where "a = (if month \<le> 2 then 1 else 0)"
  define Y where "Y = (if month \<le> 2 then year + 4799 else year + 4800)"
  define m where "m = (if month \<le> 2 then month + 9 else month - 3)"
  define e where "e = day - 1 + month_start m"
  have m: "0 \<le> m" "m \<le> 11" "m div 10 = a" "m + 3 - 12 * a = month"
    using mb by (auto simp: m_def a_def intro!: div_unique_bounds)
  have Y0: "0 \<le> Y" using y0 by (auto simp: Y_def a_def)
  have e: "0 \<le> e" "e \<le> 364 \<or> e = 365 \<and> month = 2 \<and> leap year" "(5 * e + 2) div 153 = m"
    using day_of_year [OF v] month_of_day [OF v] by (simp_all add: e_def m_def)
  have year: "month = 2 \<Longrightarrow> year = Y - 4799" by (simp add: Y_def a_def)
  have e365: "e \<le> 364 \<or> e = 365 \<and> Y mod 100 mod 4 = 3 \<and> (Y mod 100 = 99 \<longrightarrow> Y div 100 mod 4 = 3)"
    using e(2) leap_next_century [of Y] year by blast
  have j: "julianDate year month day + 32044 =
      e + (365 * (Y mod 100) + Y mod 100 div 4) + (36524 * (Y div 100) + Y div 100 div 4)"
  proof -
    have "julianDate year month day + 32044 = e + year_start Y"
      unfolding julianDate_eq [OF mb y0] e_def m_def Y_def by simp
    with year_start_centuries show ?thesis by simp
  qed
  have "getYMD (julianDate year month day) =
      (Y div 100 * 100 + Y mod 100 - 4800 + m div 10, m + 3 - 12 * (m div 10), e - (153 * m + 2) div 5 + 1)"
    by (rule getYMD_eq [OF _ _ _ e(1) m(1,2) e365 e(3) j])
      (use Y0 in \<open>simp_all add: pos_imp_zdiv_nonneg_iff zmod_le_nonneg_dividend less_imp_le\<close>)
  moreover have "Y div 100 * 100 + Y mod 100 = Y" by simp
  ultimately show ?thesis
    unfolding m(3,4) by (simp add: Y_def a_def e_def month_start_def)
qed

text \<open>The day after, read off the calendar.\<close>

definition next_date :: "int \<times> int \<times> int \<Rightarrow> int \<times> int \<times> int" where
  "next_date = (\<lambda>(y, m, d).
     if d < days_in_month y m then (y, m, d + 1)
     else if m < 12 then (y, m + 1, 1) else (y + 1, 1, 1))"

lemma div_pred:
  fixes n y :: int
  assumes "0 < n"
  shows "y div n = (y - 1) div n + (if n dvd y then 1 else 0)"
proof -
  have y: "y = n * ((y - 1) div n) + ((y - 1) mod n + 1)" by (simp add: algebra_simps)
  have r: "0 \<le> (y - 1) mod n" "(y - 1) mod n < n" using assms by simp_all
  show ?thesis
  proof (cases "(y - 1) mod n + 1 = n")
    case True
    with y have "y = n * ((y - 1) div n) + n" by metis
    then have "y = n * ((y - 1) div n + 1)" unfolding distrib_left by simp
    then show ?thesis using assms by (metis dvd_triv_left nonzero_mult_div_cancel_left less_irrefl)
  next
    case False
    with r have lt: "(y - 1) mod n + 1 < n" by linarith
    have q: "y div n = (y - 1) div n"
      by (rule div_unique_bounds) (use y r lt assms in linarith)+
    have "y mod n = (y - 1) mod n + 1"
      using y div_mult_mod_eq [of y n] unfolding q mult.commute [of _ n] by linarith
    with r q show ?thesis by (auto simp: dvd_eq_mod_eq_0)
  qed
qed

lemma inclusion_exclusion:
  fixes a b c :: int
  assumes "a = a' + (if P then 1 else 0)" "b = b' + (if Q then 1 else 0)" "c = c' + (if R then 1 else 0)"
    and "Q \<Longrightarrow> P" "R \<Longrightarrow> Q"
  shows "a - b + c = a' - b' + c' + (if P \<and> (\<not> Q \<or> R) then 1 else 0)"
  by (cases P; cases Q; cases R) (use assms in simp_all)

lemma leap_year_step:
  "y div 4 - y div 100 + y div 400 =
   (y - 1) div 4 - (y - 1) div 100 + (y - 1) div 400 + (if leap y then 1 else 0)"
proof -
  have "4 dvd y" if "100 dvd y" using that by (rule dvd_trans [rotated]) simp
  moreover have "100 dvd y" if "400 dvd y" using that by (rule dvd_trans [rotated]) simp
  ultimately show ?thesis
    unfolding leap_def by (intro inclusion_exclusion div_pred) simp_all
qed

lemma leap_4800: "leap (y + 4800) = leap y"
  by (simp add: leap_def dvd_add_left_iff)

lemma year_start_arith:
  fixes y a b c :: int
  assumes "a - b + c = a' - b' + c' + k" "y = x + 1"
  shows "y * 365 + a - b + c = x * 365 + a' - b' + c' + 365 + k"
  using assms by simp

lemma year_start_step:
  "year_start (y + 4800) = year_start (y + 4799) + 365 + (if leap y then 1 else 0)"
proof -
  have "y + 4800 - 1 = y + 4799" by simp
  note step = leap_year_step [of "y + 4800", unfolded this leap_4800]
  have "y + 4800 = y + 4799 + 1" by simp
  with step show ?thesis unfolding year_start_def by (rule year_start_arith)
qed

lemma julianDate_next:
  assumes v: "valid_date y m d" and y0: "-4799 \<le> y" and n: "next_date (y, m, d) = (y', m', d')"
  shows "julianDate y' m' d' = julianDate y m d + 1"
proof -
  have mb: "1 \<le> m" "m \<le> 12" using v by (auto simp: valid_date_def)
  have y': "1 \<le> m'" "m' \<le> 12" "-4799 \<le> y'"
    using n mb y0 by (auto simp: next_date_def split: if_splits)
  note jd = julianDate_eq [OF mb y0] julianDate_eq [OF y']
  show ?thesis
  proof (cases "d < days_in_month y m")
    case True
    with n have "y' = y" "m' = m" "d' = d + 1" by (auto simp: next_date_def)
    then show ?thesis using jd by simp
  next
    case False
    with v have d: "d = days_in_month y m" by (simp add: valid_date_def)
    show ?thesis
    proof (cases "m = 12")
      case True
      with n d have "y' = y + 1" "m' = 1" "d' = 1" by (auto simp: next_date_def)
      moreover have "year_start (y + 1 + 4799) = year_start (y + 4800)" by (simp add: add.assoc)
      ultimately show ?thesis using jd True d by (simp add: days_in_month_def month_start_def)
    next
      case False
      with n d mb have e: "y' = y" "m' = m + 1" "d' = 1" by (auto simp: next_date_def)
      show ?thesis
        unfolding jd(1) e jd(2) [unfolded e] d using twelve_months [OF mb] False year_start_step [of y]
        by (elim insertE emptyE) (simp_all add: days_in_month_def month_start_def)
    qed
  qed
qed

lemma next_date_valid:
  assumes "valid_date y m d" "next_date (y, m, d) = (y', m', d')"
  shows "valid_date y' m' d' \<and> y \<le> y'"
proof -
  have "1 \<le> days_in_month z k" for z k by (simp add: days_in_month_def)
  with assms show ?thesis by (auto simp: next_date_def valid_date_def split: if_splits)
qed

text \<open>Every day from 1 January -4799 on is a date of the calendar.\<close>

lemma julianDate_surj:
  "julianDate (-4799) 1 1 \<le> j \<Longrightarrow> \<exists>y m d. valid_date y m d \<and> -4799 \<le> y \<and> julianDate y m d = j"
proof (induction j rule: int_ge_induct)
  case base
  have "valid_date (-4799) 1 1" by (simp add: valid_date_def days_in_month_def)
  then show ?case by blast
next
  case (step j)
  then obtain y m d where v: "valid_date y m d" "-4799 \<le> y" "julianDate y m d = j" by blast
  obtain y' m' d' where n: "next_date (y, m, d) = (y', m', d')" by (metis prod_cases3)
  from next_date_valid [OF v(1) n] julianDate_next [OF v(1,2) n] v show ?case by force
qed

lemma julianDate_first: "julianDate (-4799) 1 1 = -31738"
  by (simp add: julianDate_eq month_start_def year_start_def)

lemma getYMD_cases:
  assumes "-31738 \<le> j"
  obtains y m d where "getYMD j = (y, m, d)" "valid_date y m d" "-4799 \<le> y" "julianDate y m d = j"
  using julianDate_surj [unfolded julianDate_first, OF assms] getYMD_julianDate by blast

section \<open>Times of day\<close>

definition time_ok :: "DateTime \<Rightarrow> bool" where
  "time_ok t = (0 \<le> m_time t \<and> m_time t < NANOS_PER_DAY)"

text \<open>Nanoseconds since the origin of the Julian days.\<close>

definition instant :: "DateTime \<Rightarrow> int" where
  "instant t = NANOS_PER_DAY * m_date t + m_time t"

lemma instant_less: "time_ok s \<Longrightarrow> time_ok t \<Longrightarrow> dt_less s t \<longleftrightarrow> instant s < instant t"
  by (auto simp: instant_def dt_less_def time_ok_def time_units)

lemma instant_inject: "time_ok s \<Longrightarrow> time_ok t \<Longrightarrow> instant s = instant t \<longleftrightarrow> s = t"
  by (rule linorder_cases [of "m_date s" "m_date t"])
    (auto simp: instant_def time_ok_def time_units)

lemma sdiv_smod_bounds:
  assumes "0 < (b :: int)"
  shows "b * (a sdiv b) + a smod b = a" "- b < a smod b" "a smod b < b"
proof -
  have "a smod b = (if 0 \<le> a then a mod b else - (- a mod b))"
    using assms by (simp add: signed_modulo_int_def sgn_if)
  then show "- b < a smod b" "a smod b < b"
    using assms pos_mod_bound [OF assms] pos_mod_sign [OF assms, of a] pos_mod_sign [OF assms, of "- a"]
    by (auto simp: less_le_trans [of "- b" 0] intro: le_less_trans [of _ 0 b])
  show "b * (a sdiv b) + a smod b = a"
    using assms
    by (auto simp: signed_divide_int_def signed_modulo_int_def sgn_if abs_if simp flip: minus_mod_eq_mult_div)
qed

lemma dt_add_correct:
  assumes "time_ok t"
  shows "time_ok (dt_add t s) \<and> instant (dt_add t s) = instant t + NANOS_PER_SEC * s"
proof -
  let ?q = "s sdiv SECONDS_PER_DAY" and ?r = "s smod SECONDS_PER_DAY"
  have b: "86400 * ?q + ?r = s" "- 86400 < ?r" "?r < 86400"
    using sdiv_smod_bounds [of SECONDS_PER_DAY s] by (simp_all add: SECONDS_PER_DAY_def)
  let ?n = "m_time t + ?r * NANOS_PER_SEC"
  have "?n smod NANOS_PER_DAY = ?n - NANOS_PER_DAY" if "?n \<ge> NANOS_PER_DAY"
  proof -
    have "?n mod NANOS_PER_DAY = (?n - NANOS_PER_DAY) mod NANOS_PER_DAY" by simp
    also have "\<dots> = ?n - NANOS_PER_DAY"
      using that b assms by (intro mod_pos_pos_trivial) (auto simp: time_units time_ok_def)
    finally show ?thesis using that by (simp add: smod_pos time_units)
  qed
  with b assms show ?thesis
    by (auto simp: dt_add_def Let_def time_ok_def instant_def time_units)
qed

section \<open>The weekday\<close>

lemma smod_7: "(if x smod 7 < 0 then 7 + x smod 7 else x smod 7) = x mod (7 :: int)"
proof -
  have s: "7 * (x sdiv 7) + x smod 7 = x" "- 7 < x smod 7" "x smod 7 < 7"
    using sdiv_smod_bounds [of 7 x] by simp_all
  have "x mod 7 = r" if "x = 7 * q + r" "0 \<le> r" "r < 7" for q r
    using that by simp
  from this [of "x sdiv 7" "x smod 7"] this [of "x sdiv 7 - 1" "7 + x smod 7"] s
  show ?thesis unfolding right_diff_distrib by auto
qed

lemma year_start_4800: "year_start (y + 4800) = year_start y + 1753164"
proof -
  have "(y + 4800) div 4 = y div 4 + 1200" "(y + 4800) div 100 = y div 100 + 48"
    "(y + 4800) div 400 = y div 400 + 12"
    using div_mult_self4 [of 4 y 1200] div_mult_self4 [of 100 y 48] div_mult_self4 [of 400 y 12]
    by simp_all
  moreover have "(y + 4800) * 365 + (a + 1200) - (b + 48) + (c + 12) = y * 365 + a - b + c + 1753164"
    for a b c by simp
  ultimately show ?thesis by (simp only: year_start_def)
qed

lemma gauss_month:
  "m \<in> {1, 2, 3, 4, 5, 6, 7, 8, 9, 10, 11, 12 :: int} \<Longrightarrow>
   month_start (m - 1) = (26 * m - 2) sdiv 10 + 28 * m - 30"
  unfolding month_start_def by (elim insertE emptyE) (simp_all add: sdiv_pos)

lemma gauss_sum:
  assumes "m \<in> {1, 2, 3, 4, 5, 6, 7, 8, 9, 10, 11, 12}"
    and j: "j = d + month_start (m - 1) + year_start (y + 4800) - 32045"
  shows "(d + (26 * m - 2) sdiv 10 + y mod 100 + y mod 100 div 4 + y div 100 div 4 - 2 * (y div 100)) mod 7 =
    (j + 1) mod 7"
proof -
  have "j + 1 = d + w + r + rq + cq - 2 * c + 7 * (4 * m + 52 * r + 5218 * c + 245870)"
    if "month_start (m - 1) = w + 28 * m - 30"
      "year_start y = 365 * r + rq + (36524 * c + cq)" for w r rq c cq
    using that unfolding j year_start_4800 by simp
  from this [OF gauss_month [OF assms(1)] year_start_centuries]
  show ?thesis by (simp only: mod_mult_self2)
qed

lemma getWeekDay_eq:
  assumes "getYMD (m_date t) = (y, m, d)" "valid_date y m d" "1 \<le> y" "julianDate y m d = m_date t"
  shows "getWeekDay t = 1 + (m_date t + 1) mod 7"
proof -
  define g where "g = (if m \<ge> 3 then m - 2 else m + 10)"
  define Y where "Y = (if m \<ge> 3 then y else y - 1)"
  have mb: "1 \<le> m" "m \<le> 12" using assms(2) by (auto simp: valid_date_def)
  have g: "g \<in> {1, 2, 3, 4, 5, 6, 7, 8, 9, 10, 11, 12}"
    using mb by (intro twelve_months) (auto simp: g_def)
  have "-4799 \<le> y" using assms(3) by simp
  note jd = julianDate_eq [OF mb this, of d, unfolded assms(4)]
  have "(m \<le> 2 \<longrightarrow> g - 1 = m + 9 \<and> Y + 4800 = y + 4799) \<and> (\<not> m \<le> 2 \<longrightarrow> g - 1 = m - 3 \<and> Y = y)"
    by (simp add: g_def Y_def)
  with jd have "m_date t = d + month_start (g - 1) + year_start (Y + 4800) - 32045"
    by (cases "m \<le> 2") (simp_all only: if_True if_False simp_thms)
  note sum = gauss_sum [OF g this]
  have "0 \<le> Y" using assms(3) by (simp add: Y_def)
  then have "Y smod 100 = Y mod 100" "Y sdiv 100 = Y div 100"
    "(Y mod 100) sdiv 4 = Y mod 100 div 4" "(Y div 100) sdiv 4 = Y div 100 div 4"
    by (simp_all add: sdiv_pos smod_pos pos_imp_zdiv_nonneg_iff)
  with sum show ?thesis
    by (simp only: getWeekDay_def assms(1) Let_def prod.case g_def [symmetric] Y_def [symmetric] smod_7)
qed

lemma julianDate_epoch: "julianDate 1970 1 1 = JULIAN_19700101"
  by (simp add: julianDate_eq month_start_def year_start_def time_units)

lemma JULIAN_19700101_nonneg: "0 \<le> JULIAN_19700101"
  by (simp add: time_units)

lemma getYMD_epoch: "getYMD JULIAN_19700101 = (1970, 1, 1)"
  unfolding julianDate_epoch [symmetric]
  by (rule getYMD_julianDate) (simp_all add: valid_date_def days_in_month_def)

section \<open>Properties\<close>



text \<open>Adding seconds to a timestamp (\<open>operator+=\<close>) moves the instant by exactly that many
  seconds, whatever the sign and however many midnights lie between, and keeps the time of
  day between midnight and midnight; on such timestamps the comparison operators are the
  order of the instants.\<close>

theorem dt_add_instant:
  assumes "time_ok t" "time_ok u"
  shows "instant (dt_add t s) = instant t + NANOS_PER_SEC * s \<and> time_ok (dt_add t s) \<and>
    (dt_less t u \<longleftrightarrow> instant t < instant u) \<and> (dt_gt t u \<longleftrightarrow> instant t > instant u) \<and>
    (dt_le t u \<longleftrightarrow> instant t \<le> instant u) \<and> (dt_ge t u \<longleftrightarrow> instant t \<ge> instant u)"
  using assms instant_inject [OF assms]
  by (auto simp: dt_add_correct instant_less dt_gt_def dt_le_def dt_ge_def)

theorem dt_add_instant_witness:
  "instant (dt_add \<lparr>m_date = 2440588, m_time = 86399000000000\<rparr> (- 172801)) = instant \<lparr>m_date = 2440588, m_time = 86399000000000\<rparr> + NANOS_PER_SEC * (- 172801) \<and>
   time_ok (dt_add \<lparr>m_date = 2440588, m_time = 86399000000000\<rparr> (- 172801)) \<and>
   (dt_less \<lparr>m_date = 2440588, m_time = 86399000000000\<rparr> \<lparr>m_date = 2440587, m_time = 5\<rparr> \<longleftrightarrow> instant \<lparr>m_date = 2440588, m_time = 86399000000000\<rparr> < instant \<lparr>m_date = 2440587, m_time = 5\<rparr>) \<and>
   (dt_gt \<lparr>m_date = 2440588, m_time = 86399000000000\<rparr> \<lparr>m_date = 2440587, m_time = 5\<rparr> \<longleftrightarrow> instant \<lparr>m_date = 2440588, m_time = 86399000000000\<rparr> > instant \<lparr>m_date = 2440587, m_time = 5\<rparr>) \<and>
   (dt_le \<lparr>m_date = 2440588, m_time = 86399000000000\<rparr> \<lparr>m_date = 2440587, m_time = 5\<rparr> \<longleftrightarrow> instant \<lparr>m_date = 2440588, m_time = 86399000000000\<rparr> \<le> instant \<lparr>m_date = 2440587, m_time = 5\<rparr>) \<and>
   (dt_ge \<lparr>m_date = 2440588, m_time = 86399000000000\<rparr> \<lparr>m_date = 2440587, m_time = 5\<rparr> \<longleftrightarrow> instant \<lparr>m_date = 2440588, m_time = 86399000000000\<rparr> \<ge> instant \<lparr>m_date = 2440587, m_time = 5\<rparr>)"
  by (rule dt_add_instant) (simp_all add: time_ok_def time_units)

end
