(* ===== verification/TimeRanges.thy ===== *)
theory TimeRanges
  imports DateTimes
begin

text \<open>
  TimeRange.cpp and TimeRange.h: when a session is active, and whether two instants belong
  to the same session. Daily ranges have no days (both negative), weekly ranges run from a
  time on \<open>startDay\<close> to a time on \<open>endDay\<close>. A \<open>LocalTimeStamp\<close> made from a \<open>time_t\<close> depends on
  the time zone of the host: that conversion is the parameter \<open>localtime\<close>.
\<close>

section \<open>Definitions\<close>

record TimeRange =
  m_startTime :: DateTime
  m_endTime :: DateTime
  m_startDay :: int
  m_endDay :: int
  m_useLocalTime :: bool

definition mk_TimeRange :: "DateTime \<Rightarrow> DateTime \<Rightarrow> int \<Rightarrow> int \<Rightarrow> bool \<Rightarrow> TimeRange" where
  "mk_TimeRange startTime endTime startDay endDay local =
     \<lparr>m_startTime = startTime,
      m_endTime =
        (if startDay > 0 \<and> endDay > 0 \<and> startDay = endDay \<and> dt_gt endTime startTime
         then startTime else endTime),
      m_startDay = startDay, m_endDay = endDay, m_useLocalTime = local\<rparr>"

definition getRangeStartDate :: "DateTime \<Rightarrow> int \<Rightarrow> DateTime \<Rightarrow> int" where
  "getRangeStartDate time startDay startTime =
     (if getWeekDay time > startDay then m_date time - getWeekDay time + startDay
      else if getWeekDay time < startDay then m_date time - getWeekDay time + startDay - 7
      else if dt_ge (UtcTimeOnly time) (UtcTimeOnly startTime) then m_date time
      else m_date time - 7)"

definition isInRange_daily :: "DateTime \<Rightarrow> DateTime \<Rightarrow> DateTime \<Rightarrow> bool" where
  "isInRange_daily start end' time =
     (let timeOnly = UtcTimeOnly time in
      if dt_less start end' then dt_ge timeOnly start \<and> dt_le timeOnly end'
      else dt_ge timeOnly start \<or> dt_le timeOnly end')"

definition isInRange_weekly ::
  "DateTime \<Rightarrow> DateTime \<Rightarrow> int \<Rightarrow> int \<Rightarrow> DateTime \<Rightarrow> int \<Rightarrow> bool" where
  "isInRange_weekly startTime endTime startDay endDay time day =
     (let timeOnly = UtcTimeOnly time in
      if startDay = endDay then (if day \<noteq> startDay then True else isInRange_daily startTime endTime time)
      else if startDay < endDay then
        (if day < startDay \<or> day > endDay then False
         else if day = startDay \<and> dt_less timeOnly startTime then False
         else if day = endDay \<and> dt_gt timeOnly endTime then False
         else True)
      else
        (if day < startDay \<and> day > endDay then False
         else if day = startDay \<and> dt_less timeOnly startTime then False
         else if day = endDay \<and> dt_gt timeOnly endTime then False
         else True))"

definition isInSameRange_daily :: "DateTime \<Rightarrow> DateTime \<Rightarrow> DateTime \<Rightarrow> DateTime \<Rightarrow> bool" where
  "isInSameRange_daily start end' time1 time2 =
     (if \<not> isInRange_daily start end' time1 then False
      else if \<not> isInRange_daily start end' time2 then False
      else if time1 = time2 then True
      else if dt_less start end' \<or> start = end' then UtcDate time1 = UtcDate time2
      else let sessionLength = SECONDS_PER_DAY - dt_minus start end' in
        if dt_gt time1 time2 then
          (let delta = dt_minus (UtcTimeOnly time2) start;
               delta = (if delta < 0 then SECONDS_PER_DAY - \<bar>delta\<bar> else delta)
           in dt_minus time1 time2 < sessionLength - delta)
        else dt_minus time2 time1 < sessionLength)"

definition isInSameRange_weekly ::
  "DateTime \<Rightarrow> DateTime \<Rightarrow> int \<Rightarrow> int \<Rightarrow> DateTime \<Rightarrow> DateTime \<Rightarrow> bool" where
  "isInSameRange_weekly startTime endTime startDay endDay time1 time2 =
     (if \<not> isInRange_weekly startTime endTime startDay endDay time1 (getWeekDay time1) then False
      else if \<not> isInRange_weekly startTime endTime startDay endDay time2 (getWeekDay time2) then False
      else if startDay \<noteq> endDay then
        getRangeStartDate time1 startDay startTime = getRangeStartDate time2 startDay startTime
      else let day1 = m_date time1; day2 = m_date time2 in
        if day1 = day2 \<and> startDay = getWeekDay time1 then
          (dt_le (UtcTimeOnly time1) (UtcTimeOnly endTime) \<and> dt_le (UtcTimeOnly time2) (UtcTimeOnly endTime)) \<or>
          (dt_ge (UtcTimeOnly time1) (UtcTimeOnly startTime) \<and> dt_ge (UtcTimeOnly time2) (UtcTimeOnly startTime))
        else if day1 = day2 \<and> startDay \<noteq> getWeekDay time1 then True
        else if \<bar>day1 - day2\<bar> > 7 then False
        else if \<bar>day1 - day2\<bar> = 7 then
          (if getWeekDay time1 \<noteq> startDay then False
           else let (earlierTime, laterTime) = (if day2 > day1 then (time1, time2) else (time2, time1)) in
             dt_ge (UtcTimeOnly earlierTime) (UtcTimeOnly startTime) \<and>
             dt_le (UtcTimeOnly laterTime) (UtcTimeOnly endTime))
        else
          getRangeStartDate time1 startDay startTime = getRangeStartDate time2 startDay startTime)"

definition isInRange_day :: "TimeRange \<Rightarrow> DateTime \<Rightarrow> int \<Rightarrow> bool" where
  "isInRange_day r dateTime day =
     (if m_startDay r < 0 \<and> m_endDay r < 0
      then isInRange_daily (m_startTime r) (m_endTime r) dateTime
      else isInRange_weekly (m_startTime r) (m_endTime r) (m_startDay r) (m_endDay r) dateTime day)"

definition isInRange :: "(int \<Rightarrow> DateTime) \<Rightarrow> TimeRange \<Rightarrow> DateTime \<Rightarrow> bool" where
  "isInRange localtime r dateTime =
     (if m_useLocalTime r
      then let localDateTime = localtime (getTimeT dateTime) in
        isInRange_day r localDateTime (getWeekDay localDateTime)
      else isInRange_day r dateTime (getWeekDay dateTime))"

text \<open>The overload for a local timestamp converts through a \<open>LocalTimeStamp\<close> when the range
  is in UTC.\<close>

definition isInRange_local :: "(int \<Rightarrow> DateTime) \<Rightarrow> TimeRange \<Rightarrow> DateTime \<Rightarrow> bool" where
  "isInRange_local localtime r dateTime =
     (if \<not> m_useLocalTime r
      then let utcDateTime = localtime (getTimeT dateTime) in
        isInRange_day r utcDateTime (getWeekDay utcDateTime)
      else isInRange_day r dateTime (getWeekDay dateTime))"

definition isInSameRange_days :: "TimeRange \<Rightarrow> DateTime \<Rightarrow> DateTime \<Rightarrow> bool" where
  "isInSameRange_days r time1 time2 =
     (if m_startDay r < 0 \<and> m_endDay r < 0
      then isInSameRange_daily (m_startTime r) (m_endTime r) time1 time2
      else isInSameRange_weekly (m_startTime r) (m_endTime r) (m_startDay r) (m_endDay r) time1 time2)"

definition isInSameRange :: "(int \<Rightarrow> DateTime) \<Rightarrow> TimeRange \<Rightarrow> DateTime \<Rightarrow> DateTime \<Rightarrow> bool" where
  "isInSameRange localtime r time1 time2 =
     (if m_useLocalTime r
      then isInSameRange_days r (localtime (getTimeT time1)) (localtime (getTimeT time2))
      else isInSameRange_days r time1 time2)"

section \<open>Order of times\<close>

lemma dt_order_iff:
  assumes "time_ok s" "time_ok t"
  shows "dt_less s t \<longleftrightarrow> instant s < instant t" "dt_gt s t \<longleftrightarrow> instant t < instant s"
    "dt_le s t \<longleftrightarrow> instant s \<le> instant t" "dt_ge s t \<longleftrightarrow> instant t \<le> instant s"
  using assms instant_inject [OF assms]
  by (auto simp: instant_less dt_gt_def dt_le_def dt_ge_def)

text \<open>Times of day carry date 0, as \<open>UtcTimeOnly\<close> leaves them.\<close>

definition time_only :: "DateTime \<Rightarrow> bool" where
  "time_only t = (m_date t = 0 \<and> time_ok t)"

lemma time_only_instant [simp]: "m_date t = 0 \<Longrightarrow> instant t = m_time t"
  by (simp add: instant_def)

lemma UtcTimeOnly_simps [simp]:
  "m_date (UtcTimeOnly t) = 0" "m_time (UtcTimeOnly t) = m_time t" "time_ok (UtcTimeOnly t) = time_ok t"
  by (simp_all add: UtcTimeOnly_def clearDate_def time_ok_def)

lemma isInRange_daily_iff:
  assumes "time_only a" "time_only b" "time_ok t"
  shows "isInRange_daily a b t \<longleftrightarrow>
    (if m_time a < m_time b then m_time a \<le> m_time t \<and> m_time t \<le> m_time b
     else m_time a \<le> m_time t \<or> m_time t \<le> m_time b)"
  using assms by (simp add: isInRange_daily_def time_only_def dt_order_iff Let_def)

section \<open>Daily ranges that span midnight\<close>

definition seconds :: "DateTime \<Rightarrow> int" where
  "seconds t = m_time t div NANOS_PER_SEC"

definition whole_second :: "DateTime \<Rightarrow> bool" where
  "whole_second t = (m_time t mod NANOS_PER_SEC = 0)"

text \<open>The day on which the session that holds \<open>t\<close> started.\<close>

definition session_date :: "DateTime \<Rightarrow> DateTime \<Rightarrow> int" where
  "session_date start t = (if m_time start \<le> m_time t then m_date t else m_date t - 1)"

lemma to_int32_id: "- (2 ^ 31) \<le> x \<Longrightarrow> x < 2 ^ 31 \<Longrightarrow> to_int32 x = x"
  unfolding to_int32_def by (rule signed_take_bit_int_eq_self) simp_all

lemma seconds_range: "time_ok t \<Longrightarrow> 0 \<le> seconds t \<and> seconds t < 86400"
  by (auto simp: seconds_def time_ok_def time_units)

lemma m_time_seconds: "whole_second t \<Longrightarrow> m_time t = 1000000000 * seconds t"
  using div_mult_mod_eq [of "m_time t" NANOS_PER_SEC]
  by (simp add: whole_second_def seconds_def time_units)

lemma dt_minus_seconds:
  assumes "time_ok s" "time_ok t" "\<bar>m_date s - m_date t\<bar> \<le> 24854"
  shows "dt_minus s t = 86400 * (m_date s - m_date t) + seconds s - seconds t"
proof -
  have r: "0 \<le> seconds s" "seconds s < 86400" "0 \<le> seconds t" "seconds t < 86400"
    using seconds_range assms by auto
  have eq: "m_time s sdiv NANOS_PER_SEC = seconds s" "m_time t sdiv NANOS_PER_SEC = seconds t"
    using assms by (simp_all add: seconds_def sdiv_pos time_ok_def time_units)
  have small: "to_int32 (seconds s) = seconds s" "to_int32 (seconds t) = seconds t"
    using r by (auto intro!: to_int32_id)
  show ?thesis
    unfolding dt_minus_def eq small SECONDS_PER_DAY_def
    using r assms(3) by (intro to_int32_id) auto
qed

text \<open>Arithmetic of one overnight session from second \<open>A\<close> to second \<open>B\<close> of the next day,
  \<open>D\<close> days between the later time \<open>x\<close> and the earlier time \<open>y\<close>.\<close>

lemma overnight_arith:
  fixes A B x y D :: int
  assumes "0 \<le> B" "B < A" "A < 86400" "0 \<le> x" "x < 86400" "0 \<le> y" "y < 86400"
    and "A \<le> x \<or> x \<le> B" "A \<le> y \<or> y \<le> B" "0 \<le> 86400 * D + x - y"
  shows "86400 * D + x - y < 86400 - (A - B) - (if y - A < 0 then 86400 - \<bar>y - A\<bar> else y - A) \<longleftrightarrow>
    D + (if A \<le> x then 0 else - 1) = (if A \<le> y then 0 else - 1) \<and> x \<noteq> B"
proof -
  consider "D \<le> -1" | "D = 0" | "D = 1" | "2 \<le> D" by linarith
  then show ?thesis
  proof cases
    case 1
    with assms show ?thesis by linarith
  next
    case 4
    with assms show ?thesis by (auto split: if_splits)
  qed (use assms in \<open>auto split: if_splits\<close>)
qed

lemma isInSameRange_overnight:
  assumes ok: "time_only a" "time_only b" "time_ok t1" "time_ok t2"
    and w: "whole_second a" "whole_second b" "whole_second t1" "whole_second t2"
    and ab: "m_time b < m_time a" and le: "instant t2 \<le> instant t1" "m_date t1 - m_date t2 \<le> 24854"
  shows "isInSameRange_daily a b t1 t2 \<longleftrightarrow>
    isInRange_daily a b t1 \<and> isInRange_daily a b t2 \<and>
    (t1 = t2 \<or> session_date a t1 = session_date a t2 \<and> m_time t1 \<noteq> m_time b)"
proof (cases "isInRange_daily a b t1 \<and> isInRange_daily a b t2 \<and> t1 \<noteq> t2")
  case True
  note m = m_time_seconds [OF w(1)] m_time_seconds [OF w(2)] m_time_seconds [OF w(3)] m_time_seconds [OF w(4)]
  have tok: "time_ok a" "time_ok b" using ok by (auto simp: time_only_def)
  have r: "0 \<le> seconds b" "seconds b < seconds a" "seconds a < 86400" "0 \<le> seconds t1" "seconds t1 < 86400"
    "0 \<le> seconds t2" "seconds t2 < 86400"
    using seconds_range tok ok ab m by auto
  have inr: "seconds a \<le> seconds t1 \<or> seconds t1 \<le> seconds b" "seconds a \<le> seconds t2 \<or> seconds t2 \<le> seconds b"
    using True ok ab m by (auto simp: isInRange_daily_iff)
  have D: "0 \<le> 86400 * (m_date t1 - m_date t2) + seconds t1 - seconds t2"
    using le(1) m by (simp add: instant_def time_units)
  have date: "0 \<le> m_date t1 - m_date t2" using D r unfolding right_diff_distrib by linarith
  have gt: "dt_gt t1 t2" "\<not> dt_less a b" "a \<noteq> b"
    using True le ok ab instant_inject [OF ok(3,4)] tok by (auto simp: dt_order_iff time_only_def)
  have m1: "dt_minus a b = seconds a - seconds b" "dt_minus (UtcTimeOnly t2) a = seconds t2 - seconds a"
    "dt_minus t1 t2 = 86400 * (m_date t1 - m_date t2) + seconds t1 - seconds t2"
    using ok tok date le by (simp_all add: dt_minus_seconds time_only_def seconds_def)
  have "isInSameRange_daily a b t1 t2 \<longleftrightarrow>
      86400 * (m_date t1 - m_date t2) + seconds t1 - seconds t2 < 86400 - (seconds a - seconds b) -
        (if seconds t2 - seconds a < 0 then 86400 - \<bar>seconds t2 - seconds a\<bar> else seconds t2 - seconds a)"
    using True gt m1 by (simp add: isInSameRange_daily_def SECONDS_PER_DAY_def Let_def)
  also have "\<dots> \<longleftrightarrow> session_date a t1 = session_date a t2 \<and> m_time t1 \<noteq> m_time b"
    unfolding overnight_arith [OF r inr D] session_date_def using m by auto
  finally show ?thesis using True by simp
qed (auto simp: isInSameRange_daily_def)

section \<open>Weekly ranges\<close>

definition weekday_of :: "int \<Rightarrow> int" where
  "weekday_of j = 1 + (j + 1) mod 7"

lemma getWeekDay_weekday_of:
  assumes "0 \<le> m_date t" "1 \<le> getYear t"
  shows "getWeekDay t = weekday_of (m_date t)"
proof -
  obtain y m d where "getYMD (m_date t) = (y, m, d)" "valid_date y m d" "julianDate y m d = m_date t"
    by (rule getYMD_cases [of "m_date t"]) (use assms in auto)
  with assms getWeekDay_eq show ?thesis by (simp add: weekday_of_def getYear_def)
qed

lemma weekday_of_range: "1 \<le> weekday_of j \<and> weekday_of j \<le> 7"
proof -
  have "0 \<le> (j + 1) mod 7" "(j + 1) mod 7 < 7" by simp_all
  then show ?thesis by (simp add: weekday_of_def)
qed

lemma weekday_of_add:
  assumes "1 \<le> weekday_of j + k" "weekday_of j + k \<le> 7"
  shows "weekday_of (j + k) = weekday_of j + k"
proof -
  have "(j + k + 1) mod 7 = ((j + 1) mod 7 + k) mod 7" by (simp add: mod_simps algebra_simps)
  also have "\<dots> = (j + 1) mod 7 + k"
    using assms by (intro mod_pos_pos_trivial) (simp_all add: weekday_of_def)
  finally show ?thesis by (simp add: weekday_of_def)
qed

lemma weekday_of_week [simp]: "weekday_of (j - 7) = weekday_of j"
proof -
  have "(j - 7 + 1) mod 7 = (j + 1) mod 7"
    using mod_mult_self2 [of "j - 7 + 1" 7 1] by (simp add: algebra_simps)
  then show ?thesis by (simp add: weekday_of_def)
qed

definition at :: "int \<Rightarrow> DateTime \<Rightarrow> int" where
  "at date time = NANOS_PER_DAY * date + m_time time"

lemma at_order:
  assumes "time_ok s" "time_ok t"
  shows "at i s \<le> at j t \<longleftrightarrow> i < j \<or> i = j \<and> m_time s \<le> m_time t"
    "at i s < at j t \<longleftrightarrow> i < j \<or> i = j \<and> m_time s < m_time t"
  using assms by (auto simp: at_def time_ok_def time_units)

lemma getRangeStartDate_correct:
  assumes t: "time_ok t" "time_ok st" and wd: "getWeekDay t = weekday_of (m_date t)"
    and sd: "1 \<le> sd" "sd \<le> 7"
  defines "d \<equiv> getRangeStartDate t sd st"
  shows "weekday_of d = sd \<and> at d st \<le> instant t \<and> instant t < at (d + 7) st"
proof -
  have i: "instant t = at (m_date t) t" by (simp add: instant_def at_def)
  have ge: "dt_ge (UtcTimeOnly t) (UtcTimeOnly st) \<longleftrightarrow> m_time st \<le> m_time t"
    using t by (simp add: dt_order_iff)
  have w: "weekday_of (m_date t + (sd - weekday_of (m_date t))) = sd"
    using sd by (subst weekday_of_add) auto
  show ?thesis
    unfolding i d_def getRangeStartDate_def wd ge
    using w weekday_of_week [of "m_date t + (sd - weekday_of (m_date t))"] weekday_of_range [of "m_date t"] sd t
    by (auto simp: at_order algebra_simps)
qed

text \<open>The session that starts on \<open>d\<close> ends on the next \<open>ed\<close>.\<close>

definition range_end_date :: "int \<Rightarrow> int \<Rightarrow> int \<Rightarrow> int" where
  "range_end_date d sd ed = d + (if sd < ed then ed - sd else ed - sd + 7)"

lemma isInRange_weekly_correct:
  assumes t: "time_ok t" "time_only st" "time_only et" and wd: "getWeekDay t = weekday_of (m_date t)"
    and sd: "1 \<le> sd" "sd \<le> 7" "1 \<le> ed" "ed \<le> 7" "sd \<noteq> ed"
  shows "isInRange_weekly st et sd ed t (getWeekDay t) \<longleftrightarrow>
    instant t \<le> at (range_end_date (getRangeStartDate t sd st) sd ed) et"
proof -
  have i: "instant t = at (m_date t) t" by (simp add: instant_def at_def)
  have ok: "time_ok st" "time_ok et" using t by (auto simp: time_only_def)
  have ge: "dt_ge (UtcTimeOnly t) (UtcTimeOnly st) \<longleftrightarrow> m_time st \<le> m_time t"
    "dt_less (UtcTimeOnly t) st \<longleftrightarrow> m_time t < m_time st"
    "dt_gt (UtcTimeOnly t) et \<longleftrightarrow> m_time et < m_time t"
    using t ok by (simp_all add: dt_order_iff time_only_def)
  obtain w where w: "weekday_of (m_date t) = w" "1 \<le> w" "w \<le> 7" using weekday_of_range by auto
  show ?thesis
    unfolding i isInRange_weekly_def getRangeStartDate_def range_end_date_def wd ge w(1) Let_def
      at_order(1) [OF t(1) ok(2)]
    using w sd by auto
qed

lemma weekday_of_unique:
  assumes "weekday_of i = weekday_of j" "i < j + 7" "j < i + 7"
  shows "i = j"
proof -
  have "(i + 1) mod 7 = (j + 1) mod 7" using assms(1) by (simp add: weekday_of_def)
  then have "7 dvd (i + 1) - (j + 1)" by (simp only: mod_eq_dvd_iff)
  then obtain k where "i - j = 7 * k" by (auto elim: dvdE)
  with assms(2,3) show ?thesis by presburger
qed

lemma range_start_unique:
  assumes "time_ok t" "time_ok st" "weekday_of d = weekday_of d'"
    and "at d st \<le> instant t" "instant t < at (d + 7) st" "at d' st \<le> instant t" "instant t < at (d' + 7) st"
  shows "d = d'"
proof (rule weekday_of_unique [OF assms(3)])
  have "at d st < at (d' + 7) st" "at d' st < at (d + 7) st" using assms by auto
  then show "d < d' + 7" "d' < d + 7" using assms(2) by (auto simp: at_order)
qed

lemma range_end_before_next:
  assumes "time_ok st" "time_ok et" "1 \<le> sd" "sd \<le> 7" "1 \<le> ed" "ed \<le> 7" "sd \<noteq> ed"
  shows "at (range_end_date d sd ed) et < at (d + 7) st"
  using assms by (auto simp: at_order range_end_date_def)

section \<open>Properties\<close>





end
