(* ===== verification/DateTimeConvertors.thy ===== *)
theory DateTimeConvertors
  imports DateTimes
begin

text \<open>
  The convertors of FieldConvertors.h between text and \<open>UtcTimeStamp\<close>, \<open>UtcTimeOnly\<close> and
  \<open>UtcDate\<close>. Every failure of a parser is the same \<open>FieldConvertError\<close>, so it is \<open>None\<close>;
  a value that does not fit its columns would be written before the start of its column,
  which is \<open>None\<close> as in \<open>integer_to_string_padded\<close>. The lemmas give what text is read back to.
\<close>

section \<open>Definitions\<close>

definition IS_DIGITs :: "string \<Rightarrow> nat \<Rightarrow> nat \<Rightarrow> bool" where
  "IS_DIGITs value' i n = list_all is_digit (take n (drop i value'))"

definition digits_at :: "string \<Rightarrow> nat \<Rightarrow> nat \<Rightarrow> int" where
  "digits_at value' i n = int (undec (take n (drop i value')))"

definition padded :: "nat \<Rightarrow> int \<Rightarrow> string option" where
  "padded len v = integer_to_string_padded len v (CHR ''0'')"

definition HMS_string :: "DateTime \<Rightarrow> int \<Rightarrow> string option" where
  "HMS_string value' precision =
     (let (hour, minute, second, fraction) = getHMS precision value' in
      case (padded 2 hour, padded 2 minute, padded 2 second, padded (nat precision) fraction) of
        (Some h, Some m, Some s, f) \<Rightarrow>
          (if precision = 0 then Some (h @ '':'' @ m @ '':'' @ s)
           else case f of None \<Rightarrow> None | Some f \<Rightarrow> Some (h @ '':'' @ m @ '':'' @ s @ ''.'' @ f))
      | _ \<Rightarrow> None)"

definition UtcDateConvertor_string :: "DateTime \<Rightarrow> string option" where
  "UtcDateConvertor_string value' =
     (let (year, month, day) = getYMD (m_date value') in
      case (padded 4 year, padded 2 month, padded 2 day) of
        (Some y, Some m, Some d) \<Rightarrow> Some (y @ m @ d)
      | _ \<Rightarrow> None)"

definition UtcTimeOnlyConvertor_string :: "DateTime \<Rightarrow> int \<Rightarrow> string option" where
  "UtcTimeOnlyConvertor_string value' precision = HMS_string value' (clamp_of precision 0 9)"

definition UtcTimeStampConvertor_string :: "DateTime \<Rightarrow> int \<Rightarrow> string option" where
  "UtcTimeStampConvertor_string value' precision =
     (case (UtcDateConvertor_string value', HMS_string value' (clamp_of precision 0 9)) of
        (Some ymd, Some hms) \<Rightarrow> Some (ymd @ ''-'' @ hms)
      | _ \<Rightarrow> None)"

definition UtcDateConvertor_convert :: "string \<Rightarrow> DateTime option" where
  "UtcDateConvertor_convert value' =
     (if length value' \<noteq> 8 \<or> \<not> IS_DIGITs value' 0 8 then None
      else let year = digits_at value' 0 4; mon = digits_at value' 4 2; mday = digits_at value' 6 2 in
        if mon < 1 \<or> 12 < mon \<or> mday < 1 \<or> 31 < mday then None
        else Some (mk_DateTime year mon mday 0 0 0 0 3))"

text \<open>The time of day at offset \<open>i\<close> of a text: hour, minute, second, fraction and precision.\<close>

definition parse_HMS :: "string \<Rightarrow> nat \<Rightarrow> (int \<times> int \<times> int \<times> int \<times> int) option" where
  "parse_HMS value' i =
     (if \<not> IS_DIGITs value' i 2 \<or> value' ! (i + 2) \<noteq> CHR '':'' \<or>
         \<not> IS_DIGITs value' (i + 3) 2 \<or> value' ! (i + 5) \<noteq> CHR '':'' \<or>
         \<not> IS_DIGITs value' (i + 6) 2 then None
      else let hour = digits_at value' i 2; min = digits_at value' (i + 3) 2;
               sec = digits_at value' (i + 6) 2 in
        if 23 < hour \<or> 59 < min \<or> 60 < sec then None
        else if length value' = i + 8 then Some (hour, min, sec, 0, 3)
        else if value' ! (i + 8) \<noteq> CHR ''.'' then None
        else let n = length value' - (i + 9) in
          if \<not> IS_DIGITs value' (i + 9) n then None
          else Some (hour, min, sec, digits_at value' (i + 9) n, int n))"

definition UtcTimeOnlyConvertor_convert :: "string \<Rightarrow> DateTime option" where
  "UtcTimeOnlyConvertor_convert value' =
     (if length value' < 8 \<or> length value' > 18 then None
      else map_option (\<lambda>(hour, min, sec, fraction, precision).
        setHMS hour min sec fraction precision \<lparr>m_date = 0, m_time = 0\<rparr>) (parse_HMS value' 0))"

definition UtcTimeStampConvertor_convert :: "string \<Rightarrow> DateTime option" where
  "UtcTimeStampConvertor_convert value' =
     (if length value' < 17 \<or> length value' > 27 then None
      else if \<not> IS_DIGITs value' 0 8 \<or> value' ! 8 \<noteq> CHR ''-'' then None
      else let year = digits_at value' 0 4; mon = digits_at value' 4 2; mday = digits_at value' 6 2 in
        if mon < 1 \<or> 12 < mon \<or> mday < 1 \<or> 31 < mday then None
        else map_option (\<lambda>(hour, min, sec, fraction, precision).
          mk_DateTime year mon mday hour min sec fraction precision) (parse_HMS value' 9))"

section \<open>Fixed columns\<close>

lemma padded_Some:
  assumes "0 \<le> v" "v < 10 ^ n" "0 < n"
  shows "\<exists>s. padded n v = Some s \<and> length s = n \<and> list_all is_digit s \<and> int (undec s) = v"
proof -
  have "nat v < 10 ^ n" using assms by (simp add: nat_less_iff)
  then have len: "length (dec (nat v)) \<le> n" using assms(3) by (rule dec_less_length)
  have zeros: "undec (replicate k (CHR ''0'') @ t) = undec t" for k t
    by (induction k) (simp_all add: undec_def byte_def)
  have "is_digit (CHR ''0'')" by (simp add: is_digit_def byte_def)
  then have "list_all is_digit (replicate (n - length (dec (nat v))) (CHR ''0'') @ dec (nat v))"
    using set_dec by (auto simp: list_all_iff)
  with len assms(1) zeros show ?thesis
    by (simp add: padded_def integer_to_string_padded_def integer_to_string_decimal decimal_def Let_def)
qed

lemma IS_DIGITs_at: "length s = n \<Longrightarrow> length p = i \<Longrightarrow> IS_DIGITs (p @ s @ t) i n = list_all is_digit s"
  by (simp add: IS_DIGITs_def)

lemma digits_at_at: "length s = n \<Longrightarrow> length p = i \<Longrightarrow> digits_at (p @ s @ t) i n = int (undec s)"
  by (simp add: digits_at_def)

lemma parse_HMS_text:
  assumes len: "length h = 2" "length m = 2" "length s = 2"
    and dig: "list_all is_digit h" "list_all is_digit m" "list_all is_digit s"
    and val: "undec h \<le> 23" "undec m \<le> 59" "undec s \<le> 60"
  shows "parse_HMS (p @ h @ '':'' @ m @ '':'' @ s) (length p) =
      Some (int (undec h), int (undec m), int (undec s), 0, 3)"
    and "list_all is_digit f \<Longrightarrow> parse_HMS (p @ h @ '':'' @ m @ '':'' @ s @ ''.'' @ f) (length p) =
      Some (int (undec h), int (undec m), int (undec s), int (undec f), int (length f))"
proof -
  let ?i = "length p"
  have eq: "parse_HMS (p @ h @ '':'' @ m @ '':'' @ s @ r) ?i =
      (if r = [] then Some (int (undec h), int (undec m), int (undec s), 0, 3)
       else if hd r \<noteq> CHR ''.'' \<or> \<not> list_all is_digit (tl r) then None
       else Some (int (undec h), int (undec m), int (undec s), int (undec (tl r)), int (length (tl r))))" for r
  proof -
    define t where "t = p @ h @ '':'' @ m @ '':'' @ s @ r"
    have d: "IS_DIGITs t ?i 2" "IS_DIGITs t (?i + 3) 2" "IS_DIGITs t (?i + 6) 2"
      using len dig by (simp_all add: IS_DIGITs_def t_def)
    have v: "digits_at t ?i 2 = int (undec h)" "digits_at t (?i + 3) 2 = int (undec m)"
      "digits_at t (?i + 6) 2 = int (undec s)"
      using len by (simp_all add: digits_at_def t_def)
    have c: "t ! (?i + 2) = CHR '':''" "t ! (?i + 5) = CHR '':''" "r \<noteq> [] \<Longrightarrow> t ! (?i + 8) = hd r"
      using len by (simp_all add: nth_append hd_conv_nth t_def)
    have l: "length t = ?i + 8 + length r" using len by (simp add: t_def)
    have f: "IS_DIGITs t (?i + 9) (length (tl r)) = list_all is_digit (tl r)"
      "digits_at t (?i + 9) (length (tl r)) = int (undec (tl r))"
      "length t - (?i + 9) = length (tl r)"
      using len by (simp_all add: IS_DIGITs_def digits_at_def drop_Suc t_def)
    show ?thesis
      unfolding parse_HMS_def Let_def t_def [symmetric] f(3)
      using d c l val v f(1,2) by (simp del: length_tl)
  qed
  from eq [of "[]"] show "parse_HMS (p @ h @ '':'' @ m @ '':'' @ s) ?i =
      Some (int (undec h), int (undec m), int (undec s), 0, 3)" by simp
  from eq [of "''.'' @ f"] show "list_all is_digit f \<Longrightarrow> parse_HMS (p @ h @ '':'' @ m @ '':'' @ s @ ''.'' @ f) ?i =
      Some (int (undec h), int (undec m), int (undec s), int (undec f), int (length f))" by simp
qed

section \<open>What a written time reads back to\<close>

text \<open>The time cut off after the given number of decimals of a second.\<close>

definition truncate_to :: "int \<Rightarrow> DateTime \<Rightarrow> DateTime" where
  "truncate_to precision t = t\<lparr>m_time := m_time t - m_time t mod 10 ^ nat (9 - precision)\<rparr>"

lemma ten_precisions: "0 \<le> p \<Longrightarrow> p \<le> (9 :: int) \<Longrightarrow> p \<in> {0, 1, 2, 3, 4, 5, 6, 7, 8, 9}"
  by auto presburger

lemma PRECISION_FACTOR_power:
  assumes "0 \<le> p" "p \<le> 9"
  shows "PRECISION_FACTOR (precision_index p) = 10 ^ nat (9 - p)"
    "(10 :: int) ^ nat (9 - p) * 10 ^ nat p = NANOS_PER_SEC"
  using ten_precisions [OF assms]
  by (elim insertE emptyE; simp add: PRECISION_FACTOR_def precision_index_def time_units)+

lemma hms_sum: "q * 60 + r = T \<Longrightarrow> a * 60 + b = q \<Longrightarrow> 3600 * a + 60 * b + r = (T :: int)"
  by simp

lemma getHMS_range:
  assumes t: "time_ok t" and p: "0 \<le> p" "p \<le> 9" and g: "getHMS p t = (h, m, s, f)"
  shows "0 \<le> h" "h \<le> 23" "0 \<le> m" "m \<le> 59" "0 \<le> s" "s \<le> 59" "0 \<le> f" "f < 10 ^ nat p"
    "SECONDS_PER_HOUR * h + SECONDS_PER_MIN * m + s = m_time t div NANOS_PER_SEC"
    "f * 10 ^ nat (9 - p) = m_time t mod NANOS_PER_SEC - m_time t mod 10 ^ nat (9 - p)"
proof -
  define T where "T = m_time t div NANOS_PER_SEC"
  let ?F = "10 ^ nat (9 - p) :: int"
  have T: "0 \<le> T" "T < 86400"
    using t by (auto simp: T_def time_ok_def time_units)
  have q: "m_time t sdiv NANOS_PER_SEC = T" "T sdiv SECONDS_PER_HOUR = T div 3600"
    "(T sdiv SECONDS_PER_MIN) smod MINUTES_PER_HOUR = T div 60 mod 60" "T smod SECONDS_PER_MIN = T mod 60"
    using T t by (simp_all add: T_def sdiv_pos smod_pos pos_imp_zdiv_nonneg_iff time_ok_def time_units)
  have "m_time t mod 2 ^ 64 = m_time t" using t by (simp add: time_ok_def time_units)
  then have fr: "getFraction p t = m_time t mod NANOS_PER_SEC div ?F"
    by (simp only: getFraction_def getNanosecond_def PRECISION_FACTOR_power(1) [OF p])
  have hms: "h = T div 3600" "m = T div 60 mod 60" "s = T mod 60"
    and f: "f = m_time t mod NANOS_PER_SEC div ?F"
    using g unfolding getHMS_def Let_def q fr by simp_all
  show "0 \<le> h" "h \<le> 23" "0 \<le> m" "m \<le> 59" "0 \<le> s" "s \<le> 59"
    unfolding hms using T by auto
  have "T div 3600 = T div 60 div 60" by (simp add: zdiv_zmult2_eq [of 60 T 60, simplified])
  then show "SECONDS_PER_HOUR * h + SECONDS_PER_MIN * m + s = m_time t div NANOS_PER_SEC"
    using hms_sum [OF div_mult_mod_eq [of T 60] div_mult_mod_eq [of "T div 60" 60]]
    by (simp only: hms T_def time_units)
  show "0 \<le> f" unfolding f by (simp add: time_units pos_imp_zdiv_nonneg_iff)
  have dvd: "?F dvd NANOS_PER_SEC" using PRECISION_FACTOR_power(2) [OF p] by (metis dvd_triv_left)
  have "?F * f \<le> m_time t mod NANOS_PER_SEC"
    unfolding f by (simp add: minus_mod_eq_mult_div [symmetric])
  also have "\<dots> < ?F * 10 ^ nat p"
    unfolding PRECISION_FACTOR_power(2) [OF p] by (simp add: time_units)
  finally show "f < 10 ^ nat p" by (simp only: mult_less_cancel_left_pos zero_less_power zero_less_numeral)
  show "f * ?F = m_time t mod NANOS_PER_SEC - m_time t mod ?F"
    unfolding f using mod_mod_cancel [OF dvd, of "m_time t"] by (metis minus_mod_eq_div_mult)
qed

lemma HMS_roundtrip:
  assumes t: "time_ok t" and p: "0 \<le> p" "p \<le> 9"
  shows "\<exists>w h m s f q. HMS_string t p = Some w \<and> length w = (if p = 0 then 8 else 9 + nat p) \<and>
    (\<forall>pre. parse_HMS (pre @ w) (length pre) = Some (h, m, s, f, q)) \<and>
    makeHMS h m s (convertToNanos f q) = m_time (truncate_to p t)"
proof -
  obtain h m s f where g: "getHMS p t = (h, m, s, f)" by (metis prod_cases4)
  note r = getHMS_range [OF t p g]
  obtain hs where hs: "padded 2 h = Some hs" "length hs = 2" "list_all is_digit hs" "int (undec hs) = h"
    using padded_Some [of h 2] r by auto
  obtain ms where ms: "padded 2 m = Some ms" "length ms = 2" "list_all is_digit ms" "int (undec ms) = m"
    using padded_Some [of m 2] r by auto
  obtain ss where ss: "padded 2 s = Some ss" "length ss = 2" "list_all is_digit ss" "int (undec ss) = s"
    using padded_Some [of s 2] r by auto
  note parse = parse_HMS_text [OF hs(2) ms(2) ss(2) hs(3) ms(3) ss(3)]
  have le: "undec hs \<le> 23" "undec ms \<le> 59" "undec ss \<le> 60" using hs ms ss r by linarith+
  have sum: "m_time t = NANOS_PER_SEC * (m_time t div NANOS_PER_SEC) + m_time t mod NANOS_PER_SEC"
    by simp
  show ?thesis
  proof (cases "p = 0")
    case True
    have "makeHMS h m s (convertToNanos 0 3) = m_time (truncate_to p t)"
      using r(9) True
      by (simp add: makeHMS_def convertToNanos_def truncate_to_def time_units minus_mod_eq_mult_div)
    moreover have "HMS_string t p = Some (hs @ '':'' @ ms @ '':'' @ ss)"
      using True g hs ms ss by (simp add: HMS_string_def split: option.split)
    ultimately show ?thesis
      using parse(1) [OF le] hs ms ss True by (intro exI conjI) (auto split del: if_split)
  next
    case False
    with p have n: "0 < nat p" by simp
    obtain fs where fs: "padded (nat p) f = Some fs" "length fs = nat p" "list_all is_digit fs"
      "int (undec fs) = f"
      using padded_Some [OF r(7,8) n] by auto
    have "makeHMS h m s (convertToNanos f p) = m_time (truncate_to p t)"
      using r(9,10) sum PRECISION_FACTOR_power(1) [OF p]
      by (simp add: makeHMS_def convertToNanos_def truncate_to_def)
    moreover have "HMS_string t p = Some (hs @ '':'' @ ms @ '':'' @ ss @ ''.'' @ fs)"
      using False g hs ms ss fs by (simp add: HMS_string_def)
    ultimately show ?thesis
      using parse(2) [OF le fs(3)] hs ms ss fs False p by (intro exI conjI) auto
  qed
qed

lemma YMD_text:
  assumes v: "valid_date y m d" and y: "0 \<le> y" "y \<le> 9999" and g: "getYMD (m_date t) = (y, m, d)"
  shows "\<exists>w. UtcDateConvertor_string t = Some w \<and> length w = 8 \<and> list_all is_digit w \<and>
    (\<forall>r. digits_at (w @ r) 0 4 = y \<and> digits_at (w @ r) 4 2 = m \<and> digits_at (w @ r) 6 2 = d)"
proof -
  have md: "1 \<le> m" "m \<le> 12" "1 \<le> d" "d \<le> 31"
    using v by (auto simp: valid_date_def days_in_month_def split: if_splits)
  obtain ys where ys: "padded 4 y = Some ys" "length ys = 4" "list_all is_digit ys" "int (undec ys) = y"
    using padded_Some [of y 4] y by auto
  obtain ms where ms: "padded 2 m = Some ms" "length ms = 2" "list_all is_digit ms" "int (undec ms) = m"
    using padded_Some [of m 2] md by auto
  obtain ds where ds: "padded 2 d = Some ds" "length ds = 2" "list_all is_digit ds" "int (undec ds) = d"
    using padded_Some [of d 2] md by auto
  have "UtcDateConvertor_string t = Some (ys @ ms @ ds)"
    using g ys ms ds by (simp add: UtcDateConvertor_string_def)
  moreover have "digits_at ((ys @ ms @ ds) @ r) 0 4 = y \<and> digits_at ((ys @ ms @ ds) @ r) 4 2 = m \<and>
      digits_at ((ys @ ms @ ds) @ r) 6 2 = d" for r
    using ys ms ds by (simp add: digits_at_def)
  ultimately show ?thesis using ys ms ds by auto
qed

lemma timestamp_roundtrip:
  assumes t: "time_ok t" and p: "0 \<le> p" "p \<le> 9" and d: "0 \<le> m_date t"
    and y: "0 \<le> getYear t" "getYear t \<le> 9999"
  shows "\<exists>w. UtcTimeStampConvertor_string t p = Some w \<and>
    UtcTimeStampConvertor_convert w = Some (truncate_to p t)"
proof -
  obtain yy mm dd where ymd: "getYMD (m_date t) = (yy, mm, dd)" "valid_date yy mm dd" "julianDate yy mm dd = m_date t"
    by (rule getYMD_cases [of "m_date t"]) (use d in auto)
  have y': "0 \<le> yy" "yy \<le> 9999" using y ymd by (simp_all add: getYear_def)
  have md: "1 \<le> mm" "mm \<le> 12" "1 \<le> dd" "dd \<le> 31"
    using ymd(2) by (auto simp: valid_date_def days_in_month_def split: if_splits)
  obtain w1 where w1: "UtcDateConvertor_string t = Some w1" "length w1 = 8" "list_all is_digit w1"
    "\<And>r. digits_at (w1 @ r) 0 4 = yy \<and> digits_at (w1 @ r) 4 2 = mm \<and> digits_at (w1 @ r) 6 2 = dd"
    using YMD_text [OF ymd(2) y' ymd(1)] by blast
  obtain w2 h m s f q where w2: "HMS_string t p = Some w2" "length w2 = (if p = 0 then 8 else 9 + nat p)"
    "\<And>pre. parse_HMS (pre @ w2) (length pre) = Some (h, m, s, f, q)"
    "makeHMS h m s (convertToNanos f q) = m_time (truncate_to p t)"
    using HMS_roundtrip [OF t p] by blast
  let ?w = "w1 @ ''-'' @ w2"
  have hms: "parse_HMS ?w 9 = Some (h, m, s, f, q)" using w2(3) [of "w1 @ ''-''"] w1(2) by simp
  have "mk_DateTime yy mm dd h m s f q = truncate_to p t"
    using w2(4) ymd(3) by (simp add: mk_DateTime_def truncate_to_def)
  moreover have "IS_DIGITs ?w 0 8" "?w ! 8 = CHR ''-''" using w1 by (simp_all add: IS_DIGITs_def nth_append)
  ultimately have "UtcTimeStampConvertor_convert ?w = Some (truncate_to p t)"
    using hms w1(2) w1(4) [of "''-'' @ w2"] w2(2) md p
    by (simp add: UtcTimeStampConvertor_convert_def split: if_splits)
  moreover have "UtcTimeStampConvertor_string t p = Some ?w"
    using w1(1) w2(1) p by (simp add: UtcTimeStampConvertor_string_def clamp_of_def)
  ultimately show ?thesis by blast
qed

section \<open>Properties\<close>

text \<open>C30: a timestamp of the years 0 to 9999 is written without leaving its columns at every
  precision from 0 to 9 decimals, and reading that text back gives the same timestamp cut
  off at that precision: the date, hour, minute and second survive, and at precision 9 so
  does every nanosecond.\<close>

theorem UtcTimeStamp_roundtrip:
  assumes "time_ok t" "0 \<le> p" "p \<le> 9" "0 \<le> m_date t" "0 \<le> getYear t" "getYear t \<le> 9999"
  shows "(\<exists>w. UtcTimeStampConvertor_string t p = Some w \<and>
      UtcTimeStampConvertor_convert w = Some (truncate_to p t)) \<and>
    truncate_to 9 t = t"
  using timestamp_roundtrip [OF assms] by (simp add: truncate_to_def)

theorem UtcTimeStamp_roundtrip_witness:
  "(\<exists>w. UtcTimeStampConvertor_string \<lparr>m_date = JULIAN_19700101, m_time = 45296789000000\<rparr> 3 = Some w \<and>
      UtcTimeStampConvertor_convert w = Some (truncate_to 3 \<lparr>m_date = JULIAN_19700101, m_time = 45296789000000\<rparr>)) \<and>
   truncate_to 9 \<lparr>m_date = JULIAN_19700101, m_time = 45296789000000\<rparr> = \<lparr>m_date = JULIAN_19700101, m_time = 45296789000000\<rparr>"
  by (rule UtcTimeStamp_roundtrip)
    (simp_all add: time_ok_def getYear_def getYMD_epoch NANOS_PER_DAY_def JULIAN_19700101_nonneg)

end
