(* ===== verification/FixFields.thy ===== *)
theory FixFields
  imports DateTimeConvertors
begin

text \<open>
  Exceptions.h and Field.h: the exceptions the engine throws, a field as tag, text and cached
  metrics, the encoding of a field and its length and byte sum, and the typed readings
  \<open>valueOf\<close> of the field classes. The message text of an exception is kept where the engine
  shows it to a counterparty. Lengths and byte sums are C++ \<open>int\<close>s; they are unbounded
  here, a message would have to exceed 2 GB for the difference to show.
\<close>

section \<open>Exceptions\<close>

datatype exn =
    DataDictionaryNotFound string
  | FieldNotFound int
  | FieldConvertError
  | MessageParseError
  | InvalidMessage
  | ConfigError
  | RuntimeError
  | InvalidTagNumber int
  | RequiredTagMissing int
  | TagNotDefinedForMessage int
  | NoTagValue int
  | IncorrectTagValue int
  | IncorrectDataFormat int
  | IncorrectMessageStructure
  | DuplicateFieldNumber
  | InvalidMessageType
  | UnsupportedMessageType
  | UnsupportedVersion
  | TagOutOfOrder int
  | EmbeddedSOH int
  | OutOfOrderGroupMembers int
  | RepeatedTag int
  | RepeatingGroupCountMismatch int
  | DoNotSend
  | RejectLogon string
  | SessionNotFound
  | IOException
  | StdException

type_synonym 'a result = "exn + 'a"

abbreviation Ok :: "'a \<Rightarrow> 'a result" where "Ok \<equiv> Inr"
abbreviation Throw :: "exn \<Rightarrow> 'a result" where "Throw \<equiv> Inl"

fun rbind :: "'a result \<Rightarrow> ('a \<Rightarrow> 'b result) \<Rightarrow> 'b result" where
  "rbind (Inl e) f = Inl e"
| "rbind (Inr x) f = f x"

lemma rbind_Inr [simp]: "rbind r f = Inr y \<longleftrightarrow> (\<exists>x. r = Inr x \<and> f x = Inr y)"
  by (cases r) auto

lemma rbind_split: "P (rbind r f) \<longleftrightarrow> (\<forall>e. r = Inl e \<longrightarrow> P (Inl e)) \<and> (\<forall>x. r = Inr x \<longrightarrow> P (f x))"
  by (cases r) auto

fun of_option :: "exn \<Rightarrow> 'a option \<Rightarrow> 'a result" where
  "of_option e None = Inl e"
| "of_option e (Some x) = Inr x"

lemma of_option_Inr [simp]: "of_option e x = Inr y \<longleftrightarrow> x = Some y"
  by (cases x) auto

lemma of_option_Inl [simp]: "of_option e x = Inl e' \<longleftrightarrow> x = None \<and> e' = e"
  by (cases x) auto

section \<open>FieldBase\<close>

record field_metrics =
  m_length :: int
  m_checksum :: int

definition metrics_isValid :: "field_metrics \<Rightarrow> bool" where
  "metrics_isValid m = (m_length m > 0)"

record FieldBase =
  m_tag :: int
  m_string :: string
  m_metrics :: field_metrics

definition no_metrics :: field_metrics where
  "no_metrics = \<lparr>m_length = 0, m_checksum = 0\<rparr>"

definition calculateMetrics_text :: "string \<Rightarrow> field_metrics" where
  "calculateMetrics_text s = \<lparr>m_length = int (length s), m_checksum = int (byte_sum s)\<rparr>"

definition calculateMetrics :: "int \<Rightarrow> string \<Rightarrow> field_metrics" where
  "calculateMetrics tag value' =
     (let tagLength = number_of_symbols_in tag; tagBuffer = integer_to_string tag in
      \<lparr>m_length = int (tagLength + length value' + 2),
       m_checksum = 61 + 1 + int (byte_sum (take tagLength tagBuffer)) + int (byte_sum value')\<rparr>)"

definition mk_FieldBase :: "int \<Rightarrow> string \<Rightarrow> FieldBase" where
  "mk_FieldBase tag string' = \<lparr>m_tag = tag, m_string = string', m_metrics = no_metrics\<rparr>"

text \<open>The constructor of the decoder: the metrics are those of the raw text of the field.\<close>

definition mk_FieldBase_raw :: "int \<Rightarrow> string \<Rightarrow> string \<Rightarrow> FieldBase" where
  "mk_FieldBase_raw tag value' raw =
     \<lparr>m_tag = tag, m_string = value', m_metrics = calculateMetrics_text raw\<rparr>"

definition field_setTag :: "int \<Rightarrow> FieldBase \<Rightarrow> FieldBase" where
  "field_setTag tag f = f\<lparr>m_tag := tag, m_metrics := no_metrics\<rparr>"

definition field_setString :: "string \<Rightarrow> FieldBase \<Rightarrow> FieldBase" where
  "field_setString s f = f\<lparr>m_string := s, m_metrics := no_metrics\<rparr>"

text \<open>\<open>appendTo\<close> reserves \<open>number_of_symbols_in\<close> bytes for the tag and writes it into them.\<close>

definition appendTo :: "FieldBase \<Rightarrow> string \<Rightarrow> string" where
  "appendTo f result' =
     result' @ take (number_of_symbols_in (m_tag f)) (integer_to_string (m_tag f)) @
       ''='' @ m_string f @ [SOH]"

definition getFixString :: "FieldBase \<Rightarrow> string" where
  "getFixString f = appendTo f []"

definition calculate :: "FieldBase \<Rightarrow> field_metrics" where
  "calculate f = (if metrics_isValid (m_metrics f) then m_metrics f
     else calculateMetrics (m_tag f) (m_string f))"

definition getLength :: "FieldBase \<Rightarrow> int" where
  "getLength f = m_length (calculate f)"

definition getTotal :: "FieldBase \<Rightarrow> int" where
  "getTotal f = m_checksum (calculate f)"

section \<open>Typed fields\<close>

definition valueOf :: "(string \<Rightarrow> 'a option) \<Rightarrow> FieldBase \<Rightarrow> 'a result" where
  "valueOf convert f = of_option (IncorrectDataFormat (m_tag f)) (convert (m_string f))"

definition IntField_valueOf :: "FieldBase \<Rightarrow> int result" where
  "IntField_valueOf = valueOf (int_convert signed_int)"

definition Int64Field_valueOf :: "FieldBase \<Rightarrow> int result" where
  "Int64Field_valueOf = valueOf (int_convert signed_int64)"

definition UInt64Field_valueOf :: "FieldBase \<Rightarrow> SEQNUM result" where
  "UInt64Field_valueOf = valueOf UInt64Convertor"

definition CharField_valueOf :: "FieldBase \<Rightarrow> char result" where
  "CharField_valueOf = valueOf CharConvertor_convert"

definition BoolField_valueOf :: "FieldBase \<Rightarrow> bool result" where
  "BoolField_valueOf = valueOf BoolConvertor_convert"

definition UtcTimeStampField_valueOf :: "FieldBase \<Rightarrow> DateTime result" where
  "UtcTimeStampField_valueOf = valueOf UtcTimeStampConvertor_convert"

definition UtcDateField_valueOf :: "FieldBase \<Rightarrow> DateTime result" where
  "UtcDateField_valueOf = valueOf UtcDateConvertor_convert"

definition UtcTimeOnlyField_valueOf :: "FieldBase \<Rightarrow> DateTime result" where
  "UtcTimeOnlyField_valueOf = valueOf UtcTimeOnlyConvertor_convert"

definition CheckSumField_valueOf :: "FieldBase \<Rightarrow> int result" where
  "CheckSumField_valueOf = valueOf CheckSumConvertor_convert"

definition IntField :: "int \<Rightarrow> int \<Rightarrow> FieldBase" where
  "IntField field data' = mk_FieldBase field (integer_to_string data')"

definition UInt64Field :: "int \<Rightarrow> SEQNUM \<Rightarrow> FieldBase" where
  "UInt64Field field data' = mk_FieldBase field (SEQNUM_string data')"

definition BoolField :: "int \<Rightarrow> bool \<Rightarrow> FieldBase" where
  "BoolField field data' = mk_FieldBase field (BoolConvertor_string data')"

section \<open>Encoding and metrics\<close>

lemma take_symbols [simp]: "take (number_of_symbols_in t) (integer_to_string t) = decimal t"
  by (simp add: conv_simps)

lemma appendTo_eq: "appendTo f r = r @ getFixString f"
  by (simp add: appendTo_def getFixString_def)

lemma getFixString_eq [conv_simps]: "getFixString f = decimal (m_tag f) @ ''='' @ m_string f @ [SOH]"
  by (simp add: getFixString_def appendTo_def)

text \<open>Cached metrics, where present, are those of the encoding.\<close>

definition metrics_ok :: "FieldBase \<Rightarrow> bool" where
  "metrics_ok f = (metrics_isValid (m_metrics f) \<longrightarrow>
     m_metrics f = calculateMetrics_text (getFixString f))"

lemma calculateMetrics_encoding: "calculateMetrics (m_tag f) (m_string f) = calculateMetrics_text (getFixString f)"
  by (simp add: calculateMetrics_def calculateMetrics_text_def getFixString_eq Let_def conv_simps byte_def
      integer_to_string_decimal number_of_symbols_decimal)

lemma metrics_of_encoding:
  assumes "metrics_ok f"
  shows "getLength f = int (length (getFixString f))" "getTotal f = int (byte_sum (getFixString f))"
  using assms calculateMetrics_encoding [of f]
  by (auto simp: getLength_def getTotal_def calculate_def metrics_ok_def calculateMetrics_text_def)

lemma metrics_ok_fresh [simp]:
  "metrics_ok (mk_FieldBase t s)" "metrics_ok (field_setString s f)" "metrics_ok (field_setTag t f)"
  "metrics_ok (IntField t v)" "metrics_ok (UInt64Field t n)" "metrics_ok (BoolField t b)"
  by (simp_all add: metrics_ok_def mk_FieldBase_def field_setString_def field_setTag_def no_metrics_def
      metrics_isValid_def IntField_def UInt64Field_def BoolField_def)

end
