(* ===== verification/Sorters.thy ===== *)
theory Sorters
  imports FixPrelude
begin

text \<open>
  MessageSorters.h and MessageSorters.cpp: the orders in which the fields of a header, a
  trailer, a body and a repeating group are kept. A group order is stored either as an
  array indexed by field number or, when field numbers are large, as an open-addressed hash
  table; probing is a loop, modelled with fuel, and it is shown never to run out and to
  give the position in the order in both forms. The locale \<open>tag_order\<close> is what the field
  maps need of a comparator, and every comparator of the code is an instance.
\<close>

unbundle bit_operations_syntax

section \<open>Definitions\<close>

abbreviation TAG_BeginString :: int where "TAG_BeginString \<equiv> 8"
abbreviation TAG_BodyLength :: int where "TAG_BodyLength \<equiv> 9"
abbreviation TAG_CheckSum :: int where "TAG_CheckSum \<equiv> 10"
abbreviation TAG_MsgType :: int where "TAG_MsgType \<equiv> 35"
abbreviation TAG_Signature :: int where "TAG_Signature \<equiv> 89"
abbreviation TAG_SignatureLength :: int where "TAG_SignatureLength \<equiv> 93"

definition header_getOrderedPosition :: "int \<Rightarrow> int" where
  "header_getOrderedPosition field =
     (if field = TAG_BeginString then 1 else if field = TAG_BodyLength then 2
      else if field = TAG_MsgType then 3 else 0)"

text \<open>The comparison the three orders share: positioned fields first, by position, then
  the rest by number.\<close>

definition compare_positions :: "int \<Rightarrow> int \<Rightarrow> int \<Rightarrow> int \<Rightarrow> bool" where
  "compare_positions orderedX orderedY x y =
     (if orderedX \<noteq> 0 \<and> orderedY \<noteq> 0 then orderedX < orderedY
      else if orderedX \<noteq> 0 then True
      else if orderedY \<noteq> 0 then False
      else x < y)"

definition header_order_compare :: "int \<Rightarrow> int \<Rightarrow> bool" where
  "header_order_compare x y =
     compare_positions (header_getOrderedPosition x) (header_getOrderedPosition y) x y"

definition trailer_getOrderedPosition :: "int \<Rightarrow> int" where
  "trailer_getOrderedPosition field =
     (if field = TAG_SignatureLength then 1 else if field = TAG_Signature then 2 else 0)"

definition trailer_order_compare :: "int \<Rightarrow> int \<Rightarrow> bool" where
  "trailer_order_compare x y =
     (if x = TAG_CheckSum then False
      else if y = TAG_CheckSum then True
      else compare_positions (trailer_getOrderedPosition x) (trailer_getOrderedPosition y) x y)"

datatype cmp_mode = mode_header | mode_trailer | mode_normal | mode_group

record message_order =
  m_mode :: cmp_mode
  m_delim :: int
  m_groupOrder :: "int list"
  m_mask :: int

definition message_order_mode :: "cmp_mode \<Rightarrow> message_order" where
  "message_order_mode mode =
     \<lparr>m_mode = (if mode = mode_group then mode_normal else mode), m_delim = 0,
      m_groupOrder = [], m_mask = 0\<rparr>"

text \<open>Fibonacci hashing: a 64-bit product, its upper half.\<close>

definition slotOf :: "int \<Rightarrow> nat" where
  "slotOf field = (nat (field mod 2 ^ 32) * 0x9E3779B97F4A7C15 mod 2 ^ 64) div 2 ^ 32"

function slots_loop :: "nat \<Rightarrow> nat \<Rightarrow> nat" where
  "slots_loop size' slots =
     (if 0 < slots \<and> slots < 2 * size' then slots_loop size' (slots * 2) else slots)"
  by auto
termination by (relation "measure (\<lambda>(size', slots). 2 * size' - slots)") auto

declare slots_loop.simps [simp del]

primrec fill_array :: "nat \<Rightarrow> int list \<Rightarrow> int list \<Rightarrow> int list" where
  "fill_array i [] positions = positions"
| "fill_array i (field # order) positions =
     fill_array (i + 1) order
       (if field > 0 then positions[nat field := int (i + 1)] else positions)"

text \<open>The slot where the probe for \<open>field\<close> stops: the first that is empty or holds it.\<close>

primrec find_slot :: "nat \<Rightarrow> int list \<Rightarrow> nat \<Rightarrow> int \<Rightarrow> nat \<Rightarrow> nat option" where
  "find_slot 0 table mask' field slot = None"
| "find_slot (Suc fuel) table mask' field slot =
     (if table ! (2 * slot) \<noteq> 0 \<and> table ! (2 * slot) \<noteq> field
      then find_slot fuel table mask' field ((slot + 1) AND mask')
      else Some slot)"

primrec fill_table :: "nat \<Rightarrow> int list \<Rightarrow> nat \<Rightarrow> int list \<Rightarrow> int list option" where
  "fill_table i [] mask' table = Some table"
| "fill_table i (field # order) mask' table =
     (if field \<le> 0 then fill_table (i + 1) order mask' table
      else case find_slot (mask' + 1) table mask' field (slotOf field AND mask') of
        None \<Rightarrow> None
      | Some slot \<Rightarrow>
          fill_table (i + 1) order mask' (table[2 * slot := field, 2 * slot + 1 := int (i + 1)]))"

definition setOrder :: "int list \<Rightarrow> message_order option" where
  "setOrder order =
     (if length order < 1
      then Some \<lparr>m_mode = mode_normal, m_delim = 0, m_groupOrder = [], m_mask = 0\<rparr>
      else let slots = slots_loop (length order) 4;
               largest = fold max order 0
           in
        if nat largest + 1 \<le> 16 * slots
        then Some \<lparr>m_mode = mode_group, m_delim = hd order,
               m_groupOrder = fill_array 0 order (replicate (nat largest + 1) 0),
               m_mask = - largest - 1\<rparr>
        else map_option (\<lambda>table. \<lparr>m_mode = mode_group, m_delim = hd order,
               m_groupOrder = table, m_mask = int (slots - 1)\<rparr>)
             (fill_table 0 order (slots - 1) (replicate (2 * slots) 0)))"

definition probe :: "message_order \<Rightarrow> int \<Rightarrow> int option" where
  "probe mo field =
     (let table = m_groupOrder mo; mask' = nat (m_mask mo) in
      map_option (\<lambda>slot. if table ! (2 * slot) = field then table ! (2 * slot + 1) else 0)
        (find_slot (mask' + 1) table mask' field (slotOf field AND mask')))"

definition position :: "message_order \<Rightarrow> int \<Rightarrow> int option" where
  "position mo field =
     (if m_mask mo < 0
      then Some (if field mod 2 ^ 32 \<le> - m_mask mo - 1 then m_groupOrder mo ! nat field else 0)
      else probe mo field)"

definition groupCompare :: "message_order \<Rightarrow> int \<Rightarrow> int \<Rightarrow> bool" where
  "groupCompare mo x y =
     (case (position mo x, position mo y) of
        (Some positionX, Some positionY) \<Rightarrow> compare_positions positionX positionY x y
      | _ \<Rightarrow> False)"

definition order_compare :: "message_order \<Rightarrow> int \<Rightarrow> int \<Rightarrow> bool" where
  "order_compare mo x y =
     (case m_mode mo of
        mode_header \<Rightarrow> header_order_compare x y
      | mode_trailer \<Rightarrow> trailer_order_compare x y
      | mode_group \<Rightarrow> groupCompare mo x y
      | mode_normal \<Rightarrow> x < y)"

section \<open>The order a list of fields stands for\<close>

text \<open>The position of a field, counting from 1, at its last occurrence; 0 for a field the
  list does not name and for numbers that are no field numbers.\<close>

definition order_position :: "int list \<Rightarrow> int \<Rightarrow> int" where
  "order_position order field =
     (if field \<le> 0 \<or> field \<notin> set order then 0
      else int (length order - length (takeWhile (\<lambda>g. g \<noteq> field) (rev order))))"

lemma order_position_Nil [simp]: "order_position [] f = 0"
  by (simp add: order_position_def)

lemma order_position_snoc [simp]:
  "order_position (order @ [g]) f =
     (if f = g \<and> 0 < f then int (length order) + 1 else order_position order f)"
  by (simp add: order_position_def)

lemma order_position_range: "0 \<le> order_position order f \<and> order_position order f \<le> int (length order)"
  by (induction order rule: rev_induct) auto

lemma order_position_pos: "order_position order f > 0 \<longleftrightarrow> 0 < f \<and> f \<in> set order"
  by (induction order rule: rev_induct) auto

lemma order_position_inj:
  "order_position order f = order_position order g \<Longrightarrow> order_position order f \<noteq> 0 \<Longrightarrow> f = g"
proof (induction order rule: rev_induct)
  case (snoc x xs)
  have "order_position xs h \<noteq> int (length xs) + 1" for h using order_position_range [of xs h] by linarith
  with snoc show ?case by (auto split: if_splits)
qed simp

section \<open>The array\<close>

lemma fill_array_snoc:
  "fill_array i (xs @ [g]) ps =
     (let qs = fill_array i xs ps in if g > 0 then qs[nat g := int (i + length xs + 1)] else qs)"
  by (induction xs arbitrary: i ps) (auto simp: Let_def)

lemma length_fill_array [simp]: "length (fill_array i xs ps) = length ps"
  by (induction xs arbitrary: i ps) auto

lemma fill_array_position:
  assumes "0 \<le> f" "f < int n"
  shows "fill_array 0 xs (replicate n 0) ! nat f = order_position xs f"
proof (induction xs rule: rev_induct)
  case (snoc g xs)
  have "nat f < n" using assms by linarith
  with snoc assms show ?case
    by (auto simp: fill_array_snoc Let_def nth_list_update eq_nat_nat_iff)
qed (use assms in \<open>simp add: nat_less_iff\<close>)

section \<open>The hash table\<close>

text \<open>A table of \<open>S\<close> slots; the probe for a field visits \<open>(h + j) mod S\<close> for \<open>j = 0, 1, ..\<close>.\<close>

definition key :: "int list \<Rightarrow> nat \<Rightarrow> int" where "key table s = table ! (2 * s)"
definition val :: "int list \<Rightarrow> nat \<Rightarrow> int" where "val table s = table ! (2 * s + 1)"

definition stops :: "int list \<Rightarrow> int \<Rightarrow> nat \<Rightarrow> bool" where
  "stops table f s = (key table s = 0 \<or> key table s = f)"

lemma AND_slots: "(x :: nat) AND (2 ^ k - 1) = x mod 2 ^ k"
proof -
  have "(2 :: nat) ^ k - 1 = mask k" by (simp add: mask_eq_exp_minus_1)
  then show ?thesis by (simp only: take_bit_eq_mod flip: take_bit_eq_mask)
qed

lemma find_slot_first:
  assumes "S = 2 ^ k" "h < S" "stops table f ((h + j) mod S)"
    "\<And>i. i < j \<Longrightarrow> \<not> stops table f ((h + i) mod S)" "j < fuel"
  shows "find_slot fuel table (S - 1) f h = Some ((h + j) mod S)"
  using assms
proof (induction fuel arbitrary: h j)
  case (Suc fuel)
  show ?case
  proof (cases j)
    case 0
    with Suc.prems show ?thesis by (auto simp: stops_def key_def)
  next
    case (Suc j')
    have step: "((h + 1) mod S + i) mod S = (h + Suc i) mod S" for i
      by (simp add: mod_simps)
    have "\<not> stops table f h" using Suc.prems(4) [of 0] Suc Suc.prems(2) by simp
    moreover have "find_slot fuel table (S - 1) f ((h + 1) mod S) = Some (((h + 1) mod S + j') mod S)"
    proof (rule Suc.IH [OF Suc.prems(1)])
      show "(h + 1) mod S < S" using Suc.prems(2) by simp
      show "stops table f (((h + 1) mod S + j') mod S)" unfolding step using Suc.prems(3) Suc by simp
      show "\<not> stops table f (((h + 1) mod S + i) mod S)" if "i < j'" for i
        unfolding step using Suc.prems(4) [of "Suc i"] Suc that by simp
      show "j' < fuel" using Suc.prems(5) Suc by simp
    qed
    ultimately show ?thesis
      using Suc.prems(1) Suc AND_slots [of "h + 1" k] unfolding step by (simp add: stops_def key_def)
  qed
qed simp

lemma probe_reaches:
  assumes "h < S" "s < S"
  shows "\<exists>j<S. (h + j) mod S = (s :: nat)"
proof (cases "h \<le> s")
  case True
  with assms show ?thesis by (intro exI [of _ "s - h"]) auto
next
  case False
  with assms show ?thesis by (intro exI [of _ "S + s - h"]) auto
qed

text \<open>The first stop of a probe exists as soon as one slot is empty.\<close>

lemma first_stop:
  assumes "S = 2 ^ k" "h < S" "z < S" "key table z = 0"
  obtains j where "j < S" "stops table f ((h + j) mod S)"
    "\<And>i. i < j \<Longrightarrow> \<not> stops table f ((h + i) mod S)"
    "find_slot S table (S - 1) f h = Some ((h + j) mod S)"
proof -
  obtain j0 where j0: "j0 < S" "stops table f ((h + j0) mod S)"
    using probe_reaches [OF assms(2,3)] assms(4) by (auto simp: stops_def)
  define j where "j = (LEAST j. stops table f ((h + j) mod S))"
  have j: "stops table f ((h + j) mod S)" "j \<le> j0" "\<And>i. i < j \<Longrightarrow> \<not> stops table f ((h + i) mod S)"
    unfolding j_def using LeastI [of "\<lambda>j. stops table f ((h + j) mod S)", OF j0(2)]
      Least_le [of "\<lambda>j. stops table f ((h + j) mod S)", OF j0(2)] not_less_Least by auto
  from that [of j] find_slot_first [OF assms(1,2) j(1,3)] j j0(1) show thesis by auto
qed

text \<open>What the table holds for a position function \<open>m\<close>: every positioned field is found before
  any empty slot of its probe, no other field is stored, at most \<open>n\<close> slots are taken.\<close>

definition reaches :: "nat \<Rightarrow> int list \<Rightarrow> int \<Rightarrow> nat \<Rightarrow> bool" where
  "reaches S table f s = (\<exists>j<S. s = (slotOf f mod S + j) mod S \<and>
     (\<forall>i<j. \<not> stops table f ((slotOf f mod S + i) mod S)))"

definition table_inv :: "nat \<Rightarrow> int list \<Rightarrow> (int \<Rightarrow> int) \<Rightarrow> nat \<Rightarrow> bool" where
  "table_inv S table m n =
     (length table = 2 * S \<and> card {s. s < S \<and> key table s \<noteq> 0} \<le> n \<and>
      (\<forall>f. m f > 0 \<longrightarrow> (\<exists>s<S. reaches S table f s \<and> key table s = f \<and> val table s = m f)) \<and>
      (\<forall>s<S. key table s \<noteq> 0 \<longrightarrow> m (key table s) > 0) \<and>
      (\<forall>s<S. key table s = 0 \<longrightarrow> val table s = 0))"

lemma key_val_update:
  assumes "length table = 2 * S" "s < S" "t < S"
  shows "key (table[2 * s := f, 2 * s + 1 := p]) t = (if t = s then f else key table t)"
    "val (table[2 * s := f, 2 * s + 1 := p]) t = (if t = s then p else val table t)"
proof -
  have "2 * s \<noteq> 2 * t + 1" "2 * s + 1 \<noteq> 2 * t" by presburger+
  with assms show "key (table[2 * s := f, 2 * s + 1 := p]) t = (if t = s then f else key table t)"
    "val (table[2 * s := f, 2 * s + 1 := p]) t = (if t = s then p else val table t)"
    by (simp_all add: key_def val_def nth_list_update)
qed

lemma table_has_empty:
  assumes "table_inv S table m n" "n < S"
  obtains z where "z < S" "key table z = 0"
proof -
  have "card {s. s < S \<and> key table s \<noteq> 0} < card {..<S}"
    using assms by (simp add: table_inv_def)
  then have "{s. s < S \<and> key table s \<noteq> 0} \<noteq> {..<S}" by force
  with that show thesis by auto
qed

lemma table_find:
  assumes inv: "table_inv S table m n" "n < S" "S = 2 ^ k"
  obtains s where "find_slot S table (S - 1) f (slotOf f AND (S - 1)) = Some s" "s < S"
    "reaches S table f s" "stops table f s"
proof -
  obtain z where z: "z < S" "key table z = 0" using table_has_empty [OF inv(1,2)] .
  have h: "slotOf f mod S < S" using z by simp
  have eq: "slotOf f AND (S - 1) = slotOf f mod S" using inv(3) AND_slots by simp
  from first_stop [OF inv(3) h z, of f] that h show thesis
    unfolding reaches_def eq by (metis mod_less_divisor not_less_zero neq0_conv)
qed

lemma reaches_unique:
  assumes "reaches S table f s" "reaches S table f t" "stops table f s" "stops table f t"
  shows "s = t"
  using assms unfolding reaches_def by (metis linorder_neqE_nat)

text \<open>A probe that passes \<open>s\<close> is not disturbed when \<open>s\<close> is taken by another field.\<close>

lemma reaches_update:
  assumes len: "length table = 2 * S" "s < S" and r: "reaches S table f t" and g: "g \<noteq> 0" "f = g \<longrightarrow> t = s"
    and st: "stops table g s"
  shows "reaches S (table[2 * s := g, 2 * s + 1 := p]) f t"
proof -
  from r obtain j where j: "j < S" "t = (slotOf f mod S + j) mod S"
    "\<And>i. i < j \<Longrightarrow> \<not> stops table f ((slotOf f mod S + i) mod S)"
    by (auto simp: reaches_def)
  have lt: "(slotOf f mod S + i) mod S < S" for i using len(2) by simp
  have "\<not> stops (table[2 * s := g, 2 * s + 1 := p]) f ((slotOf f mod S + i) mod S)" if "i < j" for i
    using j(3) [OF that] key_val_update(1) [OF len lt] g st by (auto simp: stops_def)
  with j show ?thesis by (auto simp: reaches_def)
qed

lemma table_inv_insert:
  assumes inv: "table_inv S table m n" and s: "s < S" "reaches S table f s" "stops table f s"
    and f: "0 < f" "0 < p"
  shows "table_inv S (table[2 * s := f, 2 * s + 1 := p]) (m(f := p)) (Suc n)"
proof -
  let ?t = "table[2 * s := f, 2 * s + 1 := p]"
  have len: "length table = 2 * S" using inv by (simp add: table_inv_def)
  note kv = key_val_update [OF len s(1), of _ f p]
  have "{x. x < S \<and> key ?t x \<noteq> 0} \<subseteq> insert s {x. x < S \<and> key table x \<noteq> 0}"
    using kv(1) by (auto split: if_splits)
  then have "card {x. x < S \<and> key ?t x \<noteq> 0} \<le> card (insert s {x. x < S \<and> key table x \<noteq> 0})"
    by (rule card_mono [rotated]) simp
  also have "\<dots> \<le> Suc (card {x. x < S \<and> key table x \<noteq> 0})" by (rule card_insert_le_m1) simp_all
  finally have "card {x. x < S \<and> key ?t x \<noteq> 0} \<le> Suc n" using inv by (simp add: table_inv_def)
  moreover have "\<exists>x<S. reaches S ?t g x \<and> key ?t x = g \<and> val ?t x = (m(f := p)) g" if "(m(f := p)) g > 0" for g
  proof (cases "g = f")
    case True
    with s f kv reaches_update [OF len s(1,2)] show ?thesis by (intro exI [of _ s]) auto
  next
    case False
    with that inv obtain x where x: "x < S" "reaches S table g x" "key table x = g" "val table x = m g"
      by (auto simp: table_inv_def)
    have "g \<noteq> 0" using x inv that False by (auto simp: table_inv_def)
    with x s f False have "x \<noteq> s" by (auto simp: stops_def)
    with x kv False f s reaches_update [OF len s(1) x(2), of f] show ?thesis
      by (intro exI [of _ x]) auto
  qed
  moreover have "\<forall>x<S. key ?t x \<noteq> 0 \<longrightarrow> (m(f := p)) (key ?t x) > 0" "\<forall>x<S. key ?t x = 0 \<longrightarrow> val ?t x = 0"
    using inv kv f by (auto simp: table_inv_def)
  ultimately show ?thesis using len by (simp add: table_inv_def)
qed

lemma fill_table_snoc:
  "fill_table i (xs @ [g]) mask' table =
     (case fill_table i xs mask' table of None \<Rightarrow> None
      | Some t \<Rightarrow>
         if g \<le> 0 then Some t
         else map_option (\<lambda>slot. t[2 * slot := g, 2 * slot + 1 := int (i + length xs + 1)])
           (find_slot (mask' + 1) t mask' g (slotOf g AND mask')))"
  by (induction xs arbitrary: i table) (auto simp del: find_slot.simps split: option.split)

lemma fill_table_inv:
  assumes S: "S = 2 ^ k" and n: "length xs < S"
  shows "\<exists>t. fill_table 0 xs (S - 1) (replicate (2 * S) 0) = Some t \<and> table_inv S t (order_position xs) (length xs)"
  using n
proof (induction xs rule: rev_induct)
  case Nil
  have "key (replicate (2 * S) 0) s = 0" "val (replicate (2 * S) 0) s = 0" if "s < S" for s
    using that by (simp_all add: key_def val_def)
  then have "{s. s < S \<and> key (replicate (2 * S) 0) s \<noteq> 0} = {}" by auto
  then show ?case by (auto simp: table_inv_def key_def val_def)
next
  case (snoc g xs)
  then obtain t where t: "fill_table 0 xs (S - 1) (replicate (2 * S) 0) = Some t"
    "table_inv S t (order_position xs) (length xs)" by auto
  have lt: "length xs < S" using snoc.prems by simp
  have S1: "S - 1 + 1 = S" using lt by simp
  show ?case
  proof (cases "g \<le> 0")
    case True
    have "order_position (xs @ [g]) = order_position xs" using True by auto
    moreover have "table_inv S t (order_position xs) (Suc (length xs))" using t(2) by (simp add: table_inv_def)
    ultimately show ?thesis using t(1) True by (simp add: fill_table_snoc)
  next
    case False
    obtain s where s: "find_slot S t (S - 1) g (slotOf g AND (S - 1)) = Some s" "s < S"
      "reaches S t g s" "stops t g s"
      by (rule table_find [OF t(2) lt S])
    have op: "(order_position xs)(g := int (length xs + 1)) = order_position (xs @ [g])" using False by auto
    have "table_inv S (t[2 * s := g, 2 * s + 1 := int (length xs + 1)]) (order_position (xs @ [g])) (Suc (length xs))"
      unfolding op [symmetric] using False by (intro table_inv_insert [OF t(2) s(2-4)]) auto
    then show ?thesis using t(1) s(1) False by (simp only: fill_table_snoc S1 option.case) (simp del: order_position_snoc)
  qed
qed

lemma slots_loop_power: "\<exists>k. slots_loop n (2 ^ j) = 2 ^ k \<and> 2 * n \<le> slots_loop n (2 ^ j)"
proof (induction n "2 ^ j :: nat" arbitrary: j rule: slots_loop.induct)
  case (1 n)
  show ?case
  proof (cases "2 ^ j < 2 * n")
    case True
    with 1 [of "Suc j"] show ?thesis by (simp add: slots_loop.simps [of n "2 ^ j"] mult.commute)
  next
    case False
    then show ?thesis by (auto simp: slots_loop.simps [of n "2 ^ j"])
  qed
qed

lemma fold_max_ge: "m \<le> fold max xs m \<and> (\<forall>x\<in>set xs. (x :: int) \<le> fold max xs m)"
  by (induction xs arbitrary: m) (auto, (meson max.cobounded1 max.cobounded2 order_trans)+)

lemma fold_max_less: "\<forall>x\<in>set xs. x < b \<Longrightarrow> m < b \<Longrightarrow> fold max xs m < (b :: int)"
  by (induction xs arbitrary: m) auto

lemma order_position_zero: "f \<le> 0 \<Longrightarrow> order_position xs f = 0"
  by (simp add: order_position_def)

text \<open>Field numbers are 32-bit.\<close>

definition int32 :: "int \<Rightarrow> bool" where
  "int32 f = (- (2 ^ 31) \<le> f \<and> f < 2 ^ 31)"

lemma table_position:
  assumes inv: "table_inv S t m n" "n < S" "S = 2 ^ k" and m0: "\<And>g. 0 \<le> m g" "m 0 = 0"
  shows "map_option (\<lambda>slot. if t ! (2 * slot) = f then t ! (2 * slot + 1) else 0)
    (find_slot (S - 1 + 1) t (S - 1) f (slotOf f AND (S - 1))) = Some (m f)"
proof -
  have S1: "S - 1 + 1 = S" using inv(2) by simp
  obtain s where s: "find_slot S t (S - 1) f (slotOf f AND (S - 1)) = Some s" "s < S"
    "reaches S t f s" "stops t f s"
    by (rule table_find [OF inv])
  have "(if key t s = f then val t s else 0) = m f"
  proof (cases "m f > 0")
    case True
    with inv obtain x where x: "x < S" "reaches S t f x" "key t x = f" "val t x = m f"
      by (auto simp: table_inv_def)
    then have "x = s" using s by (intro reaches_unique [of S t f]) (auto simp: stops_def)
    with x show ?thesis by simp
  next
    case False
    with m0(1) [of f] have "m f = 0" by simp
    with inv(1) s(2,4) m0(2) show ?thesis by (force simp: table_inv_def stops_def)
  qed
  then show ?thesis unfolding S1 s(1) key_def val_def by simp
qed

lemma setOrder_position:
  assumes ne: "order \<noteq> []" and f: "int32 f" and o32: "\<forall>g\<in>set order. int32 g"
  shows "\<exists>mo. setOrder order = Some mo \<and> m_mode mo = mode_group \<and> m_delim mo = hd order \<and>
    position mo f = Some (order_position order f)"
proof -
  define S where "S = slots_loop (length order) 4"
  define L where "L = fold max order 0"
  have L0: "0 \<le> L" and Lge: "\<And>g. g \<in> set order \<Longrightarrow> g \<le> L" using fold_max_ge [of 0 order] by (auto simp: L_def)
  obtain k where k: "S = 2 ^ k" "2 * length order \<le> S"
    using slots_loop_power [of "length order" 2] by (auto simp: S_def)
  have n: "length order < S" using k(2) ne by (cases order) auto
  show ?thesis
  proof (cases "nat L + 1 \<le> 16 * S")
    case True
    have Lb: "L < 2 ^ 31" unfolding L_def using o32 by (intro fold_max_less) (auto simp: int32_def)
    let ?mo = "\<lparr>m_mode = mode_group, m_delim = hd order,
       m_groupOrder = fill_array 0 order (replicate (nat L + 1) 0), m_mask = - L - 1\<rparr>"
    have "setOrder order = Some ?mo"
      using ne True by (simp add: setOrder_def S_def [symmetric] L_def [symmetric] Let_def)
    moreover have "position ?mo f = Some (order_position order f)"
    proof (cases "0 \<le> f \<and> f \<le> L")
      case True
      then have "f mod 2 ^ 32 = f" using Lb by simp
      with True L0 fill_array_position [of f "nat L + 1" order] show ?thesis
        by (simp add: position_def)
    next
      case False
      have "\<not> f mod 2 ^ 32 \<le> L"
      proof (cases "f < 0")
        case True
        have "f mod 2 ^ 32 = (f + 2 ^ 32) mod 2 ^ 32" by simp
        also have "\<dots> = f + 2 ^ 32" using True f by (intro mod_pos_pos_trivial) (auto simp: int32_def)
        finally show ?thesis using Lb f by (simp add: int32_def)
      next
        case f0: False
        then have "f mod 2 ^ 32 = f" using f by (simp add: int32_def)
        with f0 False show ?thesis by simp
      qed
      moreover have "order_position order f = 0" using False Lge by (auto simp: order_position_def)
      ultimately show ?thesis using L0 by (simp add: position_def)
    qed
    ultimately show ?thesis by simp
  next
    case False
    obtain t where t: "fill_table 0 order (S - 1) (replicate (2 * S) 0) = Some t"
      "table_inv S t (order_position order) (length order)"
      using fill_table_inv [OF k(1) n] by blast
    let ?mo = "\<lparr>m_mode = mode_group, m_delim = hd order, m_groupOrder = t, m_mask = int (S - 1)\<rparr>"
    have "setOrder order = Some ?mo"
      using ne False t(1) by (simp add: setOrder_def S_def [symmetric] L_def [symmetric] Let_def)
    moreover have "position ?mo f = Some (order_position order f)"
      using table_position [OF t(2) n k(1), of f] order_position_range [of order] order_position_zero [of 0 order]
      by (simp only: position_def probe_def message_order.simps Let_def nat_int) simp
    ultimately show ?thesis by simp
  qed
qed

section \<open>What a comparator promises\<close>

text \<open>A strict total order on field numbers: a field map sorted by it has one order, and a
  binary search over it is sound.\<close>

locale tag_order =
  fixes less :: "int \<Rightarrow> int \<Rightarrow> bool"
  assumes less_irrefl: "int32 x \<Longrightarrow> \<not> less x x"
    and less_trans: "int32 x \<Longrightarrow> int32 y \<Longrightarrow> int32 z \<Longrightarrow> less x y \<Longrightarrow> less y z \<Longrightarrow> less x z"
    and less_total: "int32 x \<Longrightarrow> int32 y \<Longrightarrow> x \<noteq> y \<Longrightarrow> less x y \<or> less y x"
begin

lemma less_asym: "int32 x \<Longrightarrow> int32 y \<Longrightarrow> less x y \<Longrightarrow> \<not> less y x"
  using less_irrefl less_trans by blast

lemma not_less_trans:
  "int32 x \<Longrightarrow> int32 y \<Longrightarrow> int32 z \<Longrightarrow> \<not> less y x \<Longrightarrow> \<not> less z y \<Longrightarrow> \<not> less z x"
  using less_trans less_total less_irrefl by metis

lemma not_less_cases: "int32 x \<Longrightarrow> int32 y \<Longrightarrow> \<not> less y x \<longleftrightarrow> less x y \<or> x = y"
  using less_total less_asym less_irrefl by blast

end

text \<open>Any comparison by positions that are distinct where they are not zero is such an order.\<close>

lemma compare_positions_tag_order:
  assumes inj: "\<And>x y. int32 x \<Longrightarrow> int32 y \<Longrightarrow> pos x = pos y \<Longrightarrow> pos x \<noteq> 0 \<Longrightarrow> x = y"
  shows "tag_order (\<lambda>x y. compare_positions (pos x) (pos y) x y)"
proof
  fix x y z
  assume i: "int32 x" "int32 y"
  show "\<not> compare_positions (pos x) (pos x) x x" by (simp add: compare_positions_def)
  show "compare_positions (pos x) (pos y) x y \<or> compare_positions (pos y) (pos x) y x" if "x \<noteq> y"
    using that inj [OF i] linorder_less_linear [of "pos x" "pos y"] by (auto simp: compare_positions_def)
  show "compare_positions (pos x) (pos z) x z"
    if "int32 z" "compare_positions (pos x) (pos y) x y" "compare_positions (pos y) (pos z) y z"
    using that by (auto simp: compare_positions_def split: if_splits)
qed

text \<open>Putting one field last keeps the laws.\<close>

lemma tag_order_last:
  assumes "tag_order before"
  shows "tag_order (\<lambda>x y. if x = c then False else if y = c then True else before x y)"
proof -
  from assms have l: "int32 x \<Longrightarrow> \<not> before x x" "int32 x \<Longrightarrow> int32 y \<Longrightarrow> x \<noteq> y \<Longrightarrow> before x y \<or> before y x"
    "int32 x \<Longrightarrow> int32 y \<Longrightarrow> int32 z \<Longrightarrow> before x y \<Longrightarrow> before y z \<Longrightarrow> before x z" for x y z
    unfolding tag_order_def by blast+
  show ?thesis
  proof
    fix x y z assume i: "int32 x" "int32 y"
    let ?less = "\<lambda>x y. if x = c then False else if y = c then True else before x y"
    show "\<not> ?less x x" using l(1) [OF i(1)] by simp
    show "?less x y \<or> ?less y x" if "x \<noteq> y" using l(2) [OF i that] that by simp
    show "?less x z" if "int32 z" "?less x y" "?less y z"
      using l(3) [OF i that(1)] that(2,3) by (simp split: if_splits)
  qed
qed

interpretation header_order: tag_order header_order_compare
  unfolding header_order_compare_def
  by (rule compare_positions_tag_order) (auto simp: header_getOrderedPosition_def split: if_splits)

interpretation trailer_order: tag_order trailer_order_compare
proof -
  have "tag_order (\<lambda>x y. compare_positions (trailer_getOrderedPosition x) (trailer_getOrderedPosition y) x y)"
    by (rule compare_positions_tag_order) (auto simp: trailer_getOrderedPosition_def split: if_splits)
  from tag_order_last [OF this, of TAG_CheckSum] show "tag_order trailer_order_compare"
    by (simp only: trailer_order_compare_def [abs_def])
qed

interpretation normal_order: tag_order "(<)"
  by unfold_locales auto

text \<open>The message orders the constructors can build; the field numbers of an order are \<open>int\<close>s.\<close>

definition order_wf :: "message_order \<Rightarrow> bool" where
  "order_wf mo = ((\<exists>mode. mo = message_order_mode mode) \<or>
     (\<exists>order. (\<forall>g\<in>set order. int32 g) \<and> setOrder order = Some mo))"

lemma tag_order_cong:
  assumes "tag_order f" "\<And>x y. int32 x \<Longrightarrow> int32 y \<Longrightarrow> g x y = f x y"
  shows "tag_order g"
  using assms unfolding tag_order_def by (metis (full_types))

lemma order_wf_tag_order:
  assumes "order_wf mo"
  shows "tag_order (order_compare mo)"
  using assms unfolding order_wf_def
proof (elim disjE exE conjE)
  fix mode assume "mo = message_order_mode mode"
  then have "order_compare mo \<in> {header_order_compare, trailer_order_compare, (<)}"
    by (cases mode) (auto simp: order_compare_def message_order_mode_def fun_eq_iff)
  then show ?thesis
    using header_order.tag_order_axioms trailer_order.tag_order_axioms normal_order.tag_order_axioms by auto
next
  fix order assume o: "\<forall>g\<in>set order. int32 g" "setOrder order = Some mo"
  show ?thesis
  proof (cases "order = []")
    case True
    with o(2) have "order_compare mo = (<)" by (auto simp: setOrder_def order_compare_def fun_eq_iff)
    then show ?thesis using normal_order.tag_order_axioms by simp
  next
    case False
    have pos: "m_mode mo = mode_group \<and> position mo f = Some (order_position order f)" if "int32 f" for f
      using setOrder_position [OF False that o(1)] o(2) by simp
    have "tag_order (\<lambda>x y. compare_positions (order_position order x) (order_position order y) x y)"
      by (rule compare_positions_tag_order) (rule order_position_inj)
    then show ?thesis
      by (rule tag_order_cong) (simp add: order_compare_def groupCompare_def pos)
  qed
qed

text \<open>The order built from an array of C++ integers.\<close>

definition group_order_of :: "32 word list \<Rightarrow> message_order" where
  "group_order_of ws = the (setOrder (map sint ws))"

lemma int32_sint: "int32 (sint (w :: 32 word))"
  using sint_range_size [of w] by (simp add: int32_def word_size)

lemma group_order_of_wf: "order_wf (group_order_of ws)"
proof -
  have i: "\<forall>g\<in>set (map sint ws). int32 g" by (simp add: int32_sint)
  have "int32 0" by (simp add: int32_def)
  then have "\<exists>mo. setOrder (map sint ws) = Some mo"
    using setOrder_position [of "map sint ws" 0] i by (cases "ws = []") (auto simp: setOrder_def)
  with i show ?thesis unfolding order_wf_def group_order_of_def by (metis option.sel)
qed

interpretation group_order: tag_order "order_compare (group_order_of ws)" for ws
  by (rule order_wf_tag_order) (rule group_order_of_wf)

section \<open>Properties\<close>

text \<open>C25: a group order finds every field's position in both of its forms, the array indexed by
  field number and the open-addressed hash table: building it succeeds for every list of
  fields, each probe stops within the number of slots (the table is at most half full), and
  the answer is the field's position in the list, counting from 1 at its last occurrence, or 0
  for a field the list does not name, for 0 and for negative numbers.\<close>

theorem group_order_position:
  assumes "order \<noteq> []" "\<forall>g\<in>set order. int32 g" "int32 f"
  shows "\<exists>mo. setOrder order = Some mo \<and> m_delim mo = hd order \<and>
    position mo f = Some (order_position order f)"
  using setOrder_position [OF assms(1,3,2)] by blast

theorem group_order_position_witness:
  "\<exists>mo. setOrder [50000, 7, 50000, 448] = Some mo \<and> m_delim mo = hd [50000, 7, 50000, 448] \<and>
    position mo 50000 = Some (order_position [50000, 7, 50000, 448] 50000)"
  by (rule group_order_position) (simp_all add: int32_def)

text \<open>Every order a message can be sorted by (header, trailer, body, and any repeating group
  order) is a strict total order on field numbers, so sorting and binary search are well
  defined and equal neither loses nor merges different tags. BeginString, BodyLength and MsgType
  come before every other header field in that order, and CheckSum after every other trailer field.\<close>

theorem message_order_total:
  assumes "order_wf mo" "int32 x" "int32 y" "int32 z"
  shows "\<not> order_compare mo x x \<and>
    (order_compare mo x y \<longrightarrow> order_compare mo y z \<longrightarrow> order_compare mo x z) \<and>
    (x = y \<or> order_compare mo x y \<or> order_compare mo y x) \<and>
    (x \<notin> {8, 9, 35} \<longrightarrow> header_order_compare 8 9 \<and> header_order_compare 9 35 \<and> header_order_compare 35 x) \<and>
    (x \<noteq> 10 \<longrightarrow> trailer_order_compare x 10)"
proof -
  note t = order_wf_tag_order [OF assms(1)]
  have "header_order_compare 8 9 \<and> header_order_compare 9 35 \<and> (x \<notin> {8, 9, 35} \<longrightarrow> header_order_compare 35 x)"
    by (simp add: header_order_compare_def compare_positions_def header_getOrderedPosition_def)
  moreover have "x \<noteq> 10 \<longrightarrow> trailer_order_compare x 10" by (simp add: trailer_order_compare_def)
  ultimately show ?thesis
    using tag_order.less_irrefl [OF t assms(2)] tag_order.less_trans [OF t assms(2-4)]
      tag_order.less_total [OF t assms(2,3)] by blast
qed

theorem message_order_total_witness:
  "\<not> order_compare (group_order_of [448, 447]) 448 448 \<and>
   (order_compare (group_order_of [448, 447]) 448 447 \<or> order_compare (group_order_of [448, 447]) 447 448) \<and>
   header_order_compare 8 9 \<and> header_order_compare 9 35 \<and> header_order_compare 35 448 \<and> trailer_order_compare 448 10"
  using message_order_total [OF group_order_of_wf, of 448 447 5 "[448, 447]"] by (simp add: int32_def)

end
