(* ===== verification/FieldMaps.thy ===== *)
theory FieldMaps
  imports FixFields Sorters "HOL-Library.Multiset"
begin

text \<open>
  FieldMap.h, FieldMap.cpp and Group.cpp: an ordered collection of fields with repeating
  groups, the base of header, body, trailer and group. A \<open>FieldMap\<close> owns its groups and copies
  clone them, so groups are values; the arena they are placed in is memory management and is
  not modelled. \<open>std::flat_map\<close> is the sorted association list of the prelude. The searches
  \<open>std::lower_bound\<close> and \<open>std::upper_bound\<close> are the halving loop of the library, so that their
  behaviour on unsorted fields is the program's too; \<open>std::sort\<close> is an insertion sort (the
  library leaves the order of equal tags open).
\<close>

section \<open>Definitions\<close>

datatype FieldMap = FieldMap
  (m_fields: "FieldBase list")
  (m_groups: "(int \<times> FieldMap list) list")
  (m_order: message_order)

definition set_fields :: "FieldBase list \<Rightarrow> FieldMap \<Rightarrow> FieldMap" where
  "set_fields fs m = FieldMap fs (m_groups m) (m_order m)"

definition set_groups :: "(int \<times> FieldMap list) list \<Rightarrow> FieldMap \<Rightarrow> FieldMap" where
  "set_groups gs m = FieldMap (m_fields m) gs (m_order m)"

definition mk_FieldMap :: "message_order \<Rightarrow> FieldMap" where
  "mk_FieldMap order = FieldMap [] [] order"

text \<open>The first index whose element does not satisfy \<open>p\<close>, by halving \<open>len\<close> elements from
  \<open>first\<close>.\<close>

function bound_loop :: "('a \<Rightarrow> bool) \<Rightarrow> 'a list \<Rightarrow> nat \<Rightarrow> nat \<Rightarrow> nat" where
  "bound_loop p xs first len =
     (if len = 0 then first
      else let half = len div 2; middle = first + half in
        if p (xs ! middle) then bound_loop p xs (middle + 1) (len - half - 1)
        else bound_loop p xs first half)"
  by auto
termination by (relation "measure (\<lambda>(p, xs, first, len). len)") auto

declare bound_loop.simps [simp del]

definition lower_bound :: "message_order \<Rightarrow> FieldBase list \<Rightarrow> int \<Rightarrow> nat" where
  "lower_bound order fs tag = bound_loop (\<lambda>f. order_compare order (m_tag f) tag) fs 0 (length fs)"

definition upper_bound :: "message_order \<Rightarrow> FieldBase list \<Rightarrow> int \<Rightarrow> nat" where
  "upper_bound order fs tag = bound_loop (\<lambda>f. \<not> order_compare order tag (m_tag f)) fs 0 (length fs)"

text \<open>An iterator is an index; \<open>end\<close> is \<open>None\<close>.\<close>

primrec find_if :: "('a \<Rightarrow> bool) \<Rightarrow> 'a list \<Rightarrow> nat option" where
  "find_if p [] = None"
| "find_if p (x # xs) = (if p x then Some 0 else map_option Suc (find_if p xs))"

definition lookup :: "message_order \<Rightarrow> FieldBase list \<Rightarrow> int \<Rightarrow> nat option" where
  "lookup order fs tag =
     (if length fs < 16 then find_if (\<lambda>f. m_tag f = tag) fs
      else let field = lower_bound order fs tag in
        if field \<noteq> length fs \<and> m_tag (fs ! field) = tag then Some field else None)"

definition findTag :: "FieldMap \<Rightarrow> int \<Rightarrow> nat option" where
  "findTag m tag = lookup (m_order m) (m_fields m) tag"

definition findPositionFor :: "FieldMap \<Rightarrow> int \<Rightarrow> nat" where
  "findPositionFor m tag =
     (let fs = m_fields m in
      if fs = [] then 0
      else let lastField = last fs in
        if order_compare (m_order m) (m_tag lastField) tag \<or> m_tag lastField = tag then length fs
        else upper_bound (m_order m) fs tag)"

definition insert_at :: "nat \<Rightarrow> 'a \<Rightarrow> 'a list \<Rightarrow> 'a list" where
  "insert_at i x xs = take i xs @ x # drop i xs"

definition erase_at :: "nat \<Rightarrow> 'a list \<Rightarrow> 'a list" where
  "erase_at i xs = take i xs @ drop (i + 1) xs"

definition addField :: "FieldBase \<Rightarrow> FieldMap \<Rightarrow> FieldMap" where
  "addField field m = set_fields (insert_at (findPositionFor m (m_tag field)) field (m_fields m)) m"

definition setField_overwrite :: "FieldBase \<Rightarrow> bool \<Rightarrow> FieldMap \<Rightarrow> FieldMap" where
  "setField_overwrite field overwrite m =
     (if \<not> overwrite then addField field m
      else case findTag m (m_tag field) of
          None \<Rightarrow> addField field m
        | Some i \<Rightarrow> set_fields ((m_fields m)[i := field_setString (m_string field) (m_fields m ! i)]) m)"

definition setField :: "FieldBase \<Rightarrow> FieldMap \<Rightarrow> FieldMap" where
  "setField field m = setField_overwrite field True m"

definition setField_string :: "int \<Rightarrow> string \<Rightarrow> FieldMap \<Rightarrow> FieldMap" where
  "setField_string tag value' m = setField (mk_FieldBase tag value') m"

definition getFieldIfSet :: "FieldMap \<Rightarrow> int \<Rightarrow> FieldBase option" where
  "getFieldIfSet m tag = map_option (\<lambda>i. m_fields m ! i) (findTag m tag)"

definition getFieldRef :: "FieldMap \<Rightarrow> int \<Rightarrow> FieldBase result" where
  "getFieldRef m tag = of_option (FieldNotFound tag) (getFieldIfSet m tag)"

definition getField :: "FieldMap \<Rightarrow> int \<Rightarrow> string result" where
  "getField m tag = rbind (getFieldRef m tag) (\<lambda>f. Ok (m_string f))"

definition isSetField :: "FieldMap \<Rightarrow> int \<Rightarrow> bool" where
  "isSetField m tag = (findTag m tag \<noteq> None)"

definition appendField :: "FieldBase \<Rightarrow> FieldMap \<Rightarrow> FieldMap" where
  "appendField field m = set_fields (m_fields m @ [field]) m"

definition reverse_find :: "FieldMap \<Rightarrow> int \<Rightarrow> FieldBase result" where
  "reverse_find m tag = of_option (FieldNotFound tag) (find (\<lambda>f. m_tag f = tag) (rev (m_fields m)))"

fun is_sorted :: "('a \<Rightarrow> 'a \<Rightarrow> bool) \<Rightarrow> 'a list \<Rightarrow> bool" where
  "is_sorted less' (x # y # xs) = (\<not> less' y x \<and> is_sorted less' (y # xs))"
| "is_sorted less' xs = True"

primrec insert_sorted :: "('a \<Rightarrow> 'a \<Rightarrow> bool) \<Rightarrow> 'a \<Rightarrow> 'a list \<Rightarrow> 'a list" where
  "insert_sorted less' x [] = [x]"
| "insert_sorted less' x (y # ys) = (if less' y x then y # insert_sorted less' x ys else x # y # ys)"

primrec std_sort :: "('a \<Rightarrow> 'a \<Rightarrow> bool) \<Rightarrow> 'a list \<Rightarrow> 'a list" where
  "std_sort less' [] = []"
| "std_sort less' (x # xs) = insert_sorted less' x (std_sort less' xs)"

definition field_less :: "message_order \<Rightarrow> FieldBase \<Rightarrow> FieldBase \<Rightarrow> bool" where
  "field_less order l r = order_compare order (m_tag l) (m_tag r)"

definition sortFields :: "FieldMap \<Rightarrow> FieldMap" where
  "sortFields m =
     (if is_sorted (field_less (m_order m)) (m_fields m) then m
      else set_fields (std_sort (field_less (m_order m)) (m_fields m)) m)"

text \<open>Groups. \<open>m_groups[tag]\<close> creates an empty vector when the tag is new.\<close>

definition addGroupPtr :: "int \<Rightarrow> FieldMap \<Rightarrow> bool \<Rightarrow> FieldMap \<Rightarrow> FieldMap" where
  "addGroupPtr tag grp setCount m =
     (let groups = (case smap_find (m_groups m) tag of None \<Rightarrow> [] | Some gs \<Rightarrow> gs) @ [grp];
          m' = set_groups (smap_put tag groups (m_groups m)) m
      in if setCount then setField (IntField tag (int (length groups))) m' else m')"

definition addGroup :: "int \<Rightarrow> FieldMap \<Rightarrow> bool \<Rightarrow> FieldMap \<Rightarrow> FieldMap" where
  "addGroup field grp setCount m = addGroupPtr field grp setCount m"

definition replaceGroup :: "int \<Rightarrow> int \<Rightarrow> FieldMap \<Rightarrow> FieldMap \<Rightarrow> FieldMap" where
  "replaceGroup num tag grp m =
     (case smap_find (m_groups m) tag of
        None \<Rightarrow> m
      | Some gs \<Rightarrow>
          if num \<le> 0 then m
          else if int (length gs) < num then m
          else set_groups (smap_put tag (gs[nat (num - 1) := grp]) (m_groups m)) m)"

definition getGroupRef :: "FieldMap \<Rightarrow> int \<Rightarrow> int \<Rightarrow> FieldMap result" where
  "getGroupRef m num tag =
     (case smap_find (m_groups m) tag of
        None \<Rightarrow> Throw (FieldNotFound tag)
      | Some gs \<Rightarrow>
          if num \<le> 0 then Throw (FieldNotFound tag)
          else if int (length gs) < num then Throw (FieldNotFound tag)
          else Ok (gs ! nat (num - 1)))"

lemma find_if_bound: "find_if p xs = Some i \<Longrightarrow> i < length xs"
  by (induction xs arbitrary: i) (auto split: if_splits)

lemma bound_loop_le: "first + len \<le> length xs \<Longrightarrow> bound_loop p xs first len \<le> length xs"
proof (induction p xs first len rule: bound_loop.induct)
  case (1 p xs first len)
  then show ?case by (subst bound_loop.simps) (auto simp: Let_def)
qed

lemma lookup_bound: "lookup order fs tag = Some i \<Longrightarrow> i < length fs"
  using bound_loop_le [of 0 "length fs" fs "\<lambda>f. order_compare order (m_tag f) tag"]
  by (auto simp: lookup_def lower_bound_def Let_def split: if_splits dest: find_if_bound)

lemma findTag_bound: "findTag m tag = Some i \<Longrightarrow> i < length (m_fields m)"
  by (simp add: findTag_def lookup_bound)

lemma length_erase_at: "i < length xs \<Longrightarrow> length (erase_at i xs) < length xs"
  by (simp add: erase_at_def)

text \<open>Removing a field removes its groups, and removing the groups of a tag removes its
  count field.\<close>

function removeField :: "int \<Rightarrow> FieldMap \<Rightarrow> FieldMap" and removeGroup_all :: "int \<Rightarrow> FieldMap \<Rightarrow> FieldMap" where
  "removeField tag m =
     (case findTag m tag of
        None \<Rightarrow> m
      | Some i \<Rightarrow> removeGroup_all tag (set_fields (erase_at i (m_fields m)) m))"
| "removeGroup_all tag m =
     (case smap_find (m_groups m) tag of
        None \<Rightarrow> m
      | Some gs \<Rightarrow> removeField tag (set_groups (smap_erase tag (m_groups m)) m))"
  by pat_completeness auto
termination
  by (relation "measure (\<lambda>x. case x of Inl (t, m) \<Rightarrow> length (m_fields m) + length (m_groups m)
      | Inr (t, m) \<Rightarrow> length (m_fields m) + length (m_groups m))")
    (auto simp: set_fields_def set_groups_def length_erase_at findTag_bound intro: smap_length_erase)

declare removeField.simps [simp del] removeGroup_all.simps [simp del]

definition removeGroup :: "int \<Rightarrow> int \<Rightarrow> FieldMap \<Rightarrow> FieldMap" where
  "removeGroup num tag m =
     (case smap_find (m_groups m) tag of
        None \<Rightarrow> m
      | Some gs \<Rightarrow>
          if num \<le> 0 then m
          else if int (length gs) < num then m
          else let gs' = erase_at (nat (num - 1)) gs in
            if gs' = [] then removeField tag (set_groups (smap_erase tag (m_groups m)) m)
            else setField (IntField tag (int (length gs')))
                   (set_groups (smap_put tag gs' (m_groups m)) m))"

definition groupCount :: "FieldMap \<Rightarrow> int \<Rightarrow> nat" where
  "groupCount m tag = (case smap_find (m_groups m) tag of None \<Rightarrow> 0 | Some gs \<Rightarrow> length gs)"

definition hasGroup_num :: "FieldMap \<Rightarrow> int \<Rightarrow> int \<Rightarrow> bool" where
  "hasGroup_num m num tag = (int (groupCount m tag) \<ge> num)"

definition hasGroup :: "FieldMap \<Rightarrow> int \<Rightarrow> bool" where
  "hasGroup m tag = (smap_find (m_groups m) tag \<noteq> None)"

definition clear :: "FieldMap \<Rightarrow> FieldMap" where
  "clear m = FieldMap [] [] (m_order m)"

definition isEmpty :: "FieldMap \<Rightarrow> bool" where
  "isEmpty m = (m_fields m = [])"

text \<open>The members of a map's groups.\<close>

lemma group_size: "(t, gs) \<in> set (m_groups m) \<Longrightarrow> g \<in> set gs \<Longrightarrow> size g < size m"
proof (cases m)
  case (FieldMap fs grps ord)
  assume a: "(t, gs) \<in> set (m_groups m)" "g \<in> set gs"
  then have "size g \<le> size_list size gs" by (simp add: size_list_estimation')
  also have "\<dots> \<le> size_list (size_prod (\<lambda>_. 0) (size_list size)) grps"
    using a FieldMap by (intro size_list_estimation' [of "(t, gs)"]) (auto simp: size_prod_simp)
  finally show ?thesis using FieldMap by simp
qed

lemma map_of_group_size: "smap_find (m_groups m) t = Some gs \<Longrightarrow> g \<in> set gs \<Longrightarrow> size g < size m"
  using group_size map_of_SomeD by metis

function totalFields :: "FieldMap \<Rightarrow> nat" where
  "totalFields m = length (m_fields m) +
     sum_list (map (\<lambda>(tag, gs). sum_list (map totalFields gs)) (m_groups m))"
  by auto
termination by (relation "measure size") (auto intro: group_size)

function calculateString :: "FieldMap \<Rightarrow> string" where
  "calculateString m =
     concat (map (\<lambda>field. getFixString field @
       (case smap_find (m_groups m) (m_tag field) of
          None \<Rightarrow> []
        | Some gs \<Rightarrow> concat (map calculateString gs))) (m_fields m))"
  by auto
termination by (relation "measure size") (auto intro: map_of_group_size)

text \<open>A group counts its length and total with the default field numbers.\<close>

function calculateLength :: "int \<Rightarrow> int \<Rightarrow> int \<Rightarrow> FieldMap \<Rightarrow> int" where
  "calculateLength beginStringField bodyLengthField checkSumField m =
     sum_list (map getLength (filter (\<lambda>f. m_tag f \<noteq> beginStringField \<and>
       m_tag f \<noteq> bodyLengthField \<and> m_tag f \<noteq> checkSumField) (m_fields m))) +
     sum_list (map (\<lambda>(tag, gs). sum_list (map (calculateLength TAG_BeginString TAG_BodyLength TAG_CheckSum) gs))
       (m_groups m))"
  by auto
termination by (relation "measure (\<lambda>(a, b, c, m). size m)") (auto intro: group_size)

function calculateTotal :: "int \<Rightarrow> FieldMap \<Rightarrow> int" where
  "calculateTotal checkSumField m =
     sum_list (map getTotal (filter (\<lambda>f. m_tag f \<noteq> checkSumField) (m_fields m))) +
     sum_list (map (\<lambda>(tag, gs). sum_list (map (calculateTotal TAG_CheckSum) gs)) (m_groups m))"
  by auto
termination by (relation "measure (\<lambda>(c, m). size m)") (auto intro: group_size)

declare totalFields.simps [simp del] calculateString.simps [simp del]
  calculateLength.simps [simp del] calculateTotal.simps [simp del]

section \<open>Searching and inserting in a sorted list\<close>

lemma bound_loop_partition:
  assumes "\<And>i. i < length xs \<Longrightarrow> p (xs ! i) \<longleftrightarrow> i < k" "first \<le> k" "k \<le> first + len" "first + len \<le> length xs"
  shows "bound_loop p xs first len = k"
  using assms
proof (induction p xs first len rule: bound_loop.induct)
  case (1 p xs first len)
  show ?case
  proof (cases "len = 0")
    case True
    with 1 show ?thesis by (simp add: bound_loop.simps [of p xs first])
  next
    case False
    let ?m = "first + len div 2"
    have m: "?m < length xs" using False "1.prems" by linarith
    show ?thesis
    proof (cases "p (xs ! ?m)")
      case True
      with m "1.prems"(1) have "?m < k" by simp
      with "1.IH"(1) [OF False refl refl True] "1.prems" False True show ?thesis
        by (simp add: bound_loop.simps [of p xs first len] Let_def)
    next
      case np: False
      with m "1.prems"(1) have "k \<le> ?m" by (simp add: not_less)
      with "1.IH"(2) [OF False refl refl np] "1.prems" False np show ?thesis
        by (simp add: bound_loop.simps [of p xs first len] Let_def)
    qed
  qed
qed

text \<open>A predicate that, once false along the list, stays false.\<close>

definition downward :: "('a \<Rightarrow> bool) \<Rightarrow> 'a list \<Rightarrow> bool" where
  "downward p xs = sorted_wrt (\<lambda>x y. p y \<longrightarrow> p x) xs"

lemma bound_loop_takeWhile:
  assumes "downward p xs"
  shows "bound_loop p xs 0 (length xs) = length (takeWhile p xs)"
proof (rule bound_loop_partition)
  fix i assume i: "i < length xs"
  let ?k = "length (takeWhile p xs)"
  show "p (xs ! i) \<longleftrightarrow> i < ?k"
  proof
    assume "i < ?k"
    then show "p (xs ! i)" using nth_mem set_takeWhileD takeWhile_nth by metis
  next
    assume pi: "p (xs ! i)"
    show "i < ?k"
    proof (rule ccontr)
      assume "\<not> i < ?k"
      then have k: "?k \<le> i" "?k < length xs" using i by auto
      then have "\<not> p (xs ! ?k)" by (metis nth_length_takeWhile)
      with pi k i assms show False
        unfolding downward_def sorted_wrt_iff_nth_less by (metis le_neq_implies_less)
    qed
  qed
qed (simp_all add: length_takeWhile_le)

lemma downward_last: "downward p xs \<Longrightarrow> xs \<noteq> [] \<Longrightarrow> p (last xs) \<Longrightarrow> \<forall>x\<in>set xs. p x"
  by (cases xs rule: rev_cases) (auto simp: downward_def sorted_wrt_append)

lemma length_takeWhile_all: "length (takeWhile p xs) = length xs \<longleftrightarrow> (\<forall>x\<in>set xs. p x)"
  by (induction xs) auto

lemma find_if_takeWhile:
  "find_if p xs = (let k = length (takeWhile (\<lambda>x. \<not> p x) xs) in if k = length xs then None else Some k)"
  by (induction xs) (auto simp: Let_def split: if_splits)

definition sorted_tags :: "(int \<Rightarrow> int \<Rightarrow> bool) \<Rightarrow> FieldBase list \<Rightarrow> bool" where
  "sorted_tags less' fs = (sorted_wrt (\<lambda>x y. \<not> less' (m_tag y) (m_tag x)) fs \<and> (\<forall>f\<in>set fs. int32 (m_tag f)))"

lemma sorted_tags_simps [simp]:
  "sorted_tags less' []"
  "sorted_tags less' (f # fs) \<longleftrightarrow> int32 (m_tag f) \<and> (\<forall>g\<in>set fs. \<not> less' (m_tag g) (m_tag f)) \<and> sorted_tags less' fs"
  by (auto simp: sorted_tags_def)

context tag_order
begin

lemma downward_less:
  assumes "sorted_tags less fs" "int32 t"
  shows "downward (\<lambda>f. less (m_tag f) t) fs" "downward (\<lambda>f. \<not> less t (m_tag f)) fs"
proof -
  have "less x t" if "int32 x" "int32 y" "\<not> less y x" "less y t" for x y
    using that assms(2) less_trans less_total by blast
  with assms show "downward (\<lambda>f. less (m_tag f) t) fs"
    unfolding downward_def sorted_tags_def by (auto elim!: sorted_wrt_mono_rel [rotated])
  have "\<not> less t x" if "int32 x" "int32 y" "\<not> less y x" "\<not> less t y" for x y
    using that assms(2) less_trans less_total by blast
  with assms show "downward (\<lambda>f. \<not> less t (m_tag f)) fs"
    unfolding downward_def sorted_tags_def by (auto elim!: sorted_wrt_mono_rel [rotated])
qed

text \<open>In a sorted list the lower bound is the first field with the tag, when there is one.\<close>

lemma takeWhile_less_tag:
  assumes "sorted_tags less fs" "int32 t" "t \<in> m_tag ` set fs"
  shows "takeWhile (\<lambda>f. less (m_tag f) t) fs = takeWhile (\<lambda>f. m_tag f \<noteq> t) fs"
  using assms
proof (induction fs)
  case (Cons f fs)
  show ?case
  proof (cases "m_tag f = t")
    case True
    with Cons.prems less_irrefl show ?thesis by simp
  next
    case False
    with Cons.prems have "\<not> less t (m_tag f)" "t \<in> m_tag ` set fs" by auto
    with Cons False have "less (m_tag f) t" using less_total by auto
    with Cons False \<open>t \<in> m_tag ` set fs\<close> show ?thesis by simp
  qed
qed simp

lemma insert_sorted_tags:
  assumes "sorted_tags less fs" "int32 (m_tag x)"
  shows "sorted_tags less (takeWhile (\<lambda>f. \<not> less (m_tag x) (m_tag f)) fs @ x #
    dropWhile (\<lambda>f. \<not> less (m_tag x) (m_tag f)) fs)"
  using assms
proof (induction fs)
  case (Cons f fs)
  have sub: "g \<in> set fs" if "g \<in> set (takeWhile p fs) \<or> g \<in> set (dropWhile p fs)" for g p
    using that set_takeWhileD set_dropWhileD by metis
  show ?case
  proof (cases "less (m_tag x) (m_tag f)")
    case True
    have "\<not> less (m_tag g) (m_tag x)" if "g \<in> set (f # fs)" for g
      using that True Cons.prems less_asym not_less_trans less_trans less_irrefl less_total
      unfolding sorted_tags_def by (metis list.set_intros(1) set_ConsD sorted_wrt.simps(2))
    with True Cons.prems show ?thesis by auto
  next
    case False
    with Cons sub show ?thesis by auto
  qed
qed simp

end

section \<open>Well-formed field maps\<close>

text \<open>The fields are in the map's order and the groups in tag order. Repeated tags are possible
  (\<open>setField\<close> without overwriting, and decoding, produce them).\<close>

definition map_ok :: "FieldMap \<Rightarrow> bool" where
  "map_ok m = (order_wf (m_order m) \<and> sorted_tags (order_compare (m_order m)) (m_fields m) \<and>
     smap_ok (m_groups m))"

lemma set_fields_simps [simp]:
  "m_fields (set_fields fs m) = fs" "m_groups (set_fields fs m) = m_groups m" "m_order (set_fields fs m) = m_order m"
  by (simp_all add: set_fields_def)

lemma set_groups_simps [simp]:
  "m_fields (set_groups gs m) = m_fields m" "m_groups (set_groups gs m) = gs" "m_order (set_groups gs m) = m_order m"
  by (simp_all add: set_groups_def)

lemma map_ok_new [simp]: "order_wf order \<Longrightarrow> map_ok (mk_FieldMap order)"
  by (simp add: map_ok_def mk_FieldMap_def)

lemma map_ok_tag_order: "map_ok m \<Longrightarrow> tag_order (order_compare (m_order m))"
  by (simp add: map_ok_def order_wf_tag_order)

lemma find_if_None: "find_if p xs = None \<longleftrightarrow> (\<forall>x\<in>set xs. \<not> p x)"
  by (induction xs) auto

text \<open>The binary search finds what a scan from the front finds.\<close>

lemma findTag_scan:
  assumes ok: "map_ok m" and t: "int32 tag"
  shows "findTag m tag = find_if (\<lambda>f. m_tag f = tag) (m_fields m)"
proof (cases "length (m_fields m) < 16")
  case True
  then show ?thesis by (simp add: findTag_def lookup_def)
next
  case False
  let ?fs = "m_fields m" and ?less = "order_compare (m_order m)"
  note ord = map_ok_tag_order [OF ok]
  have srt: "sorted_tags ?less ?fs" using ok by (simp add: map_ok_def)
  have lb: "lower_bound (m_order m) ?fs tag = length (takeWhile (\<lambda>f. ?less (m_tag f) tag) ?fs)"
    unfolding lower_bound_def
    by (rule bound_loop_takeWhile) (rule tag_order.downward_less [OF ord srt t])
  show ?thesis
  proof (cases "tag \<in> m_tag ` set ?fs")
    case True
    let ?k = "length (takeWhile (\<lambda>f. m_tag f \<noteq> tag) ?fs)"
    from True have "?k \<noteq> length ?fs" by (auto simp: length_takeWhile_all)
    moreover from this have "m_tag (?fs ! ?k) = tag"
      using nth_length_takeWhile [of "\<lambda>f. m_tag f \<noteq> tag" ?fs]
        length_takeWhile_le [of "\<lambda>f. m_tag f \<noteq> tag" ?fs] by linarith
    ultimately show ?thesis
      using False by (simp add: findTag_def lookup_def lb tag_order.takeWhile_less_tag [OF ord srt t True]
          find_if_takeWhile Let_def)
  next
    case absent: False
    let ?k = "lower_bound (m_order m) ?fs tag"
    have "m_tag (?fs ! ?k) \<noteq> tag" if "?k < length ?fs" using absent that by (metis image_eqI nth_mem)
    moreover have "?k \<le> length ?fs" unfolding lb by (rule length_takeWhile_le)
    moreover have "find_if (\<lambda>f. m_tag f = tag) ?fs = None" using absent by (auto simp: find_if_None)
    ultimately show ?thesis using False by (auto simp: findTag_def lookup_def Let_def)
  qed
qed

lemma find_if_Some: "find_if p xs = Some i \<Longrightarrow> i < length xs \<and> p (xs ! i)"
  by (induction xs arbitrary: i) (auto split: if_splits)

lemma find_if_nth: "map_option (\<lambda>i. xs ! i) (find_if p xs) = find p xs"
  by (induction xs) (auto simp: option.map_comp comp_def)

text \<open>A map as a function from tags to text: the first field with the tag.\<close>

definition field_value :: "FieldMap \<Rightarrow> int \<Rightarrow> string option" where
  "field_value m t = map_option m_string (find (\<lambda>f. m_tag f = t) (m_fields m))"

lemma getFieldIfSet_find: "map_ok m \<Longrightarrow> int32 t \<Longrightarrow> getFieldIfSet m t = find (\<lambda>f. m_tag f = t) (m_fields m)"
  by (simp add: getFieldIfSet_def findTag_scan find_if_nth)

lemma getField_value: "map_ok m \<Longrightarrow> int32 t \<Longrightarrow> getField m t = of_option (FieldNotFound t) (field_value m t)"
  by (cases "find (\<lambda>f. m_tag f = t) (m_fields m)")
    (simp_all add: getField_def getFieldRef_def getFieldIfSet_find field_value_def)

lemma isSetField_value: "map_ok m \<Longrightarrow> int32 t \<Longrightarrow> isSetField m t \<longleftrightarrow> field_value m t \<noteq> None"
  by (auto simp: isSetField_def findTag_scan field_value_def find_if_None find_None_iff)

lemma addField_fields:
  assumes ok: "map_ok m" and t: "int32 (m_tag x)"
  defines "p \<equiv> \<lambda>f. \<not> order_compare (m_order m) (m_tag x) (m_tag f)"
  shows "m_fields (addField x m) = takeWhile p (m_fields m) @ x # dropWhile p (m_fields m)"
proof -
  let ?fs = "m_fields m" and ?less = "order_compare (m_order m)"
  note ord = map_ok_tag_order [OF ok]
  have srt: "sorted_tags ?less ?fs" using ok by (simp add: map_ok_def)
  have dw: "downward p ?fs" unfolding p_def by (rule tag_order.downward_less(2) [OF ord srt t])
  have "findPositionFor m (m_tag x) = length (takeWhile p ?fs)"
  proof (cases "?fs \<noteq> [] \<and> (?less (m_tag (last ?fs)) (m_tag x) \<or> m_tag (last ?fs) = m_tag x)")
    case True
    have "int32 (m_tag (last ?fs))" using True srt by (simp add: sorted_tags_def)
    with True t have "p (last ?fs)"
      using tag_order.less_asym [OF ord, of "m_tag (last ?fs)" "m_tag x"] tag_order.less_irrefl [OF ord, of "m_tag x"]
      unfolding p_def by metis
    with downward_last [OF dw] True have "\<forall>f\<in>set ?fs. p f" by blast
    then have "length (takeWhile p ?fs) = length ?fs" by (simp add: length_takeWhile_all)
    with True show ?thesis by (simp add: findPositionFor_def Let_def)
  next
    case False
    then show ?thesis using bound_loop_takeWhile [OF dw]
      by (auto simp: findPositionFor_def upper_bound_def Let_def p_def)
  qed
  then show ?thesis
    by (simp add: addField_def insert_at_def takeWhile_eq_take [symmetric] dropWhile_eq_drop [symmetric])
qed

lemma map_ok_addField: "map_ok m \<Longrightarrow> int32 (m_tag x) \<Longrightarrow> map_ok (addField x m)"
  using addField_fields [of m x] tag_order.insert_sorted_tags [OF map_ok_tag_order, of m "m_fields m" x]
  by (simp add: map_ok_def addField_def)

lemma field_value_addField:
  assumes "map_ok m" "int32 (m_tag x)" "m_tag x \<notin> m_tag ` set (m_fields m)"
  shows "field_value (addField x m) t = (if t = m_tag x then Some (m_string x) else field_value m t)"
proof -
  have app: "find q (xs @ ys) = (case find q xs of None \<Rightarrow> find q ys | Some a \<Rightarrow> Some a)" for q and xs ys :: "'a list"
    by (induction xs) auto
  obtain A B where ab: "m_fields (addField x m) = A @ x # B" "m_fields m = A @ B"
    using addField_fields [OF assms(1,2)] takeWhile_dropWhile_id by metis
  then have "find (\<lambda>f. m_tag f = m_tag x) A = None"
    using assms(3) by (metis (mono_tags, lifting) Un_iff find_None_iff image_eqI set_append)
  then show ?thesis unfolding field_value_def ab by (auto simp: app split: option.split)
qed

lemma field_value_update:
  assumes "find_if (\<lambda>f. m_tag f = tag) fs = Some i"
  shows "map_option m_string (find (\<lambda>f. m_tag f = t) (fs[i := field_setString v (fs ! i)])) =
    (if t = tag then Some v else map_option m_string (find (\<lambda>f. m_tag f = t) fs))"
  using assms
proof (induction fs arbitrary: i)
  case (Cons f fs)
  then show ?case by (auto simp: field_setString_def split: if_splits)
qed simp

lemma sorted_tags_map: "sorted_tags less' fs \<longleftrightarrow> sorted_wrt (\<lambda>x y. \<not> less' y x) (map m_tag fs) \<and> (\<forall>t\<in>set (map m_tag fs). int32 t)"
  by (auto simp: sorted_tags_def sorted_wrt_map)

lemma tags_update:
  assumes "i < length fs"
  shows "map m_tag (fs[i := field_setString v (fs ! i)]) = map m_tag fs"
  using assms by (simp add: map_update field_setString_def list_update_same_conv)

lemma setField_correct:
  assumes ok: "map_ok m" and t: "int32 (m_tag x)"
  shows "map_ok (setField x m) \<and>
    field_value (setField x m) t = (if t = m_tag x then Some (m_string x) else field_value m t)"
proof (cases "findTag m (m_tag x)")
  case None
  then have "m_tag x \<notin> m_tag ` set (m_fields m)" using ok t by (auto simp: findTag_scan find_if_None)
  with None ok t show ?thesis
    by (simp add: setField_def setField_overwrite_def map_ok_addField field_value_addField)
next
  case (Some i)
  then have i: "find_if (\<lambda>f. m_tag f = m_tag x) (m_fields m) = Some i" using ok t by (simp add: findTag_scan)
  have "map_ok (setField x m)"
    using ok Some findTag_bound [OF Some]
    by (simp add: setField_def setField_overwrite_def map_ok_def sorted_tags_map tags_update)
  with Some field_value_update [OF i] show ?thesis
    by (simp add: setField_def setField_overwrite_def field_value_def)
qed

section \<open>Removing\<close>

lemma sorted_wrt_erase_at:
  assumes "sorted_wrt P xs"
  shows "sorted_wrt P (erase_at i xs)"
proof -
  have "sorted_wrt P (take i xs @ drop i xs)" using assms by simp
  moreover have "drop (i + 1) xs = drop 1 (drop i xs)" by simp
  ultimately show ?thesis
    unfolding erase_at_def by (auto simp only: sorted_wrt_append intro: sorted_wrt_drop dest: in_set_dropD)
qed

lemma set_erase_at: "set (erase_at i xs) \<subseteq> set xs"
  unfolding erase_at_def using set_take_subset set_drop_subset by fastforce

lemma map_ok_erase: "map_ok m \<Longrightarrow> map_ok (set_fields (erase_at i (m_fields m)) m)"
  using set_erase_at [of i "m_fields m"] by (auto simp: map_ok_def sorted_tags_def sorted_wrt_erase_at)

definition distinct_tags :: "FieldMap \<Rightarrow> bool" where
  "distinct_tags m = distinct (map m_tag (m_fields m))"

lemma erase_at_first:
  assumes "find_if (\<lambda>f. m_tag f = tag) fs = Some i" "distinct (map m_tag fs)"
  shows "erase_at i fs = filter (\<lambda>f. m_tag f \<noteq> tag) fs"
  using assms
proof (induction fs arbitrary: i)
  case (Cons f fs)
  show ?case
  proof (cases "m_tag f = tag")
    case True
    with Cons.prems have "filter (\<lambda>f. m_tag f \<noteq> tag) fs = fs" by (force simp: filter_id_conv image_iff)
    with True Cons.prems show ?thesis by (auto simp: erase_at_def)
  next
    case False
    with Cons.prems obtain j where "find_if (\<lambda>f. m_tag f = tag) fs = Some j" "i = Suc j" by auto
    with Cons False show ?thesis by (auto simp: erase_at_def)
  qed
qed simp

lemma find_filter_tag:
  "find (\<lambda>f. m_tag f = t) (filter (\<lambda>f. m_tag f \<noteq> tag) fs) = (if t = tag then None else find (\<lambda>f. m_tag f = t) fs)"
  by (induction fs) auto

text \<open>On a map without repeated tags, removing a field removes exactly the fields and the groups
  of that tag, when there is such a field.\<close>

definition without :: "int \<Rightarrow> FieldMap \<Rightarrow> FieldMap" where
  "without tag m = FieldMap (filter (\<lambda>f. m_tag f \<noteq> tag) (m_fields m)) (smap_erase tag (m_groups m)) (m_order m)"

lemma smap_erase_absent: "smap_find gs t = None \<Longrightarrow> smap_erase t gs = gs"
  by (auto simp: smap_erase_def map_of_eq_None_iff filter_id_conv)

lemma removeField_absent: "findTag m tag = None \<Longrightarrow> removeField tag m = m"
  by (simp add: removeField.simps)

lemma removeField_without:
  assumes ok: "map_ok m" and t: "int32 tag" and d: "distinct_tags m" and set: "isSetField m tag"
  shows "removeField tag m = without tag m"
proof -
  obtain i where i: "findTag m tag = Some i" using set by (auto simp: isSetField_def)
  then have i': "find_if (\<lambda>f. m_tag f = tag) (m_fields m) = Some i" using ok t by (simp add: findTag_scan)
  let ?m = "set_fields (erase_at i (m_fields m)) m"
  have fs: "m_fields ?m = filter (\<lambda>f. m_tag f \<noteq> tag) (m_fields m)"
    using erase_at_first [OF i'] d by (simp add: distinct_tags_def)
  have rg: "removeGroup_all tag ?m = FieldMap (m_fields ?m) (smap_erase tag (m_groups m)) (m_order m)"
  proof (cases "smap_find (m_groups m) tag")
    case None
    then show ?thesis by (simp add: removeGroup_all.simps smap_erase_absent set_fields_def)
  next
    case (Some gs)
    let ?m' = "set_groups (smap_erase tag (m_groups m)) ?m"
    have "map_ok ?m'" using map_ok_erase [OF ok, of i] by (simp add: map_ok_def)
    then have "findTag ?m' tag = None" using t fs by (simp add: findTag_scan find_if_None)
    with Some show ?thesis
      by (simp add: removeGroup_all.simps removeField_absent) (simp add: set_groups_def)
  qed
  show ?thesis unfolding removeField.simps [of tag m] i using rg fs by (simp add: without_def)
qed

lemma map_ok_without: "map_ok m \<Longrightarrow> map_ok (without tag m)"
  by (auto simp: map_ok_def without_def sorted_tags_def sorted_wrt_filter)

lemma field_value_without: "field_value (without tag m) t = (if t = tag then None else field_value m t)"
  by (simp add: field_value_def without_def find_filter_tag)

section \<open>Sorting\<close>

lemma insert_sorted_mset [simp]: "mset (insert_sorted l x xs) = add_mset x (mset xs)"
  by (induction xs) auto

lemma std_sort_mset [simp]: "mset (std_sort l xs) = mset xs"
  by (induction xs) auto

lemma insert_sorted_set [simp]: "set (insert_sorted l x xs) = insert x (set xs)"
  by (induction xs) auto

lemma std_sort_set [simp]: "set (std_sort l xs) = set xs"
  by (induction xs) auto

context tag_order
begin

lemma insert_sorted_sorted:
  assumes "sorted_tags less fs" "int32 (m_tag x)"
  shows "sorted_tags less (insert_sorted (\<lambda>l r. less (m_tag l) (m_tag r)) x fs)"
  using assms
proof (induction fs)
  case (Cons f fs)
  show ?case
  proof (cases "less (m_tag f) (m_tag x)")
    case True
    with Cons less_asym show ?thesis by auto
  next
    case False
    have "\<not> less (m_tag g) (m_tag x)" if "g \<in> set fs" for g
      using that False Cons.prems not_less_trans [of "m_tag x" "m_tag f" "m_tag g"]
      by (auto simp: sorted_tags_def)
    with False Cons.prems show ?thesis by auto
  qed
qed simp

lemma std_sort_sorted:
  "\<forall>f\<in>set fs. int32 (m_tag f) \<Longrightarrow> sorted_tags less (std_sort (\<lambda>l r. less (m_tag l) (m_tag r)) fs)"
  by (induction fs) (auto intro: insert_sorted_sorted)

lemma is_sorted_tags:
  assumes "is_sorted (\<lambda>l r. less (m_tag l) (m_tag r)) fs" "\<forall>f\<in>set fs. int32 (m_tag f)"
  shows "sorted_tags less fs"
  using assms
proof (induction "\<lambda>(l :: FieldBase) (r :: FieldBase). less (m_tag l) (m_tag r)" fs rule: is_sorted.induct)
  case (1 x y xs)
  then have s: "sorted_tags less (y # xs)" and xy: "\<not> less (m_tag y) (m_tag x)" by auto
  have "\<not> less (m_tag g) (m_tag x)" if "g \<in> set xs" for g
    using that s xy "1.prems"(2) not_less_trans [of "m_tag x" "m_tag y" "m_tag g"] by (auto simp: sorted_tags_def)
  with 1 s xy show ?case by auto
qed auto

end

lemma sortFields_correct:
  assumes "order_wf (m_order m)" "\<forall>f\<in>set (m_fields m). int32 (m_tag f)" "smap_ok (m_groups m)"
  shows "map_ok (sortFields m) \<and> mset (m_fields (sortFields m)) = mset (m_fields m) \<and>
    m_groups (sortFields m) = m_groups m"
proof -
  note ord = order_wf_tag_order [OF assms(1)]
  have fl: "field_less (m_order m) = (\<lambda>l r. order_compare (m_order m) (m_tag l) (m_tag r))"
    by (simp add: fun_eq_iff field_less_def)
  show ?thesis
    using assms tag_order.std_sort_sorted [OF ord assms(2)] tag_order.is_sorted_tags [OF ord _ assms(2)]
    by (simp add: sortFields_def map_ok_def fl)
qed

section \<open>Length and byte sum of the encoding\<close>

text \<open>What encoding relies on: cached metrics agree with the fields, no tag repeats, each group
  has its count field, and no group member is BeginString, BodyLength or CheckSum.\<close>

function encodable :: "FieldMap \<Rightarrow> bool" where
  "encodable m =
     (list_all metrics_ok (m_fields m) \<and> distinct_tags m \<and> smap_ok (m_groups m) \<and>
      list_all (\<lambda>(t, gs). t \<in> m_tag ` set (m_fields m) \<and>
        list_all (\<lambda>g. encodable g \<and> list_all (\<lambda>f. m_tag f \<notin> {8, 9, 10}) (m_fields g)) gs) (m_groups m))"
  by auto
termination by (relation "measure size") (auto intro: group_size)

declare encodable.simps [simp del]

text \<open>A sum over the groups in field order is the sum over the groups.\<close>

lemma sum_groups_by_field:
  fixes F :: "FieldMap list \<Rightarrow> nat"
  assumes d: "distinct (map m_tag fs)" and g: "distinct (map fst gs)" and sub: "set (map fst gs) \<subseteq> m_tag ` set fs"
  shows "sum_list (map (\<lambda>f. case map_of gs (m_tag f) of None \<Rightarrow> 0 | Some x \<Rightarrow> F x) fs) =
    sum_list (map (\<lambda>(t, x). F x) gs)"
proof -
  let ?h = "\<lambda>t. case map_of gs t of None \<Rightarrow> 0 | Some x \<Rightarrow> F x"
  have "sum_list (map (\<lambda>f. ?h (m_tag f)) fs) = sum_list (map ?h (map m_tag fs))" by (simp add: comp_def)
  also have "\<dots> = sum ?h (m_tag ` set fs)" using d by (simp only: sum_list_distinct_conv_sum_set set_map)
  also have "\<dots> = sum ?h (set (map fst gs))"
    using sub by (intro sum.mono_neutral_right) (auto simp: map_of_eq_None_iff [THEN iffD2])
  also have "\<dots> = sum_list (map ?h (map fst gs))" using g by (simp only: sum_list_distinct_conv_sum_set)
  also have "map ?h (map fst gs) = map (\<lambda>(t, x). F x) gs"
    using g by (auto simp: map_of_eq_Some_iff)
  finally show ?thesis .
qed

lemma smap_ok_distinct: "smap_ok gs \<Longrightarrow> distinct (map fst gs)"
  by (simp add: smap_ok_def strict_sorted_iff)

text \<open>One lemma for length and byte sum: any additive measure of text.\<close>

lemma measure_concat:
  assumes "mu [] = (0 :: nat)" "\<And>a b. mu (a @ b) = mu a + mu b"
  shows "mu (concat xss) = sum_list (map mu xss)"
  by (induction xss) (simp_all add: assms)

lemma measure_calculateString:
  assumes mu: "mu [] = (0 :: nat)" "\<And>a b. mu (a @ b) = mu a + mu b" and e: "encodable m"
  shows "mu (calculateString m) = sum_list (map (\<lambda>f. mu (getFixString f)) (m_fields m)) +
    sum_list (map (\<lambda>(t, gs). sum_list (map (\<lambda>g. mu (calculateString g)) gs)) (m_groups m))"
proof -
  let ?G = "\<lambda>gs. sum_list (map (\<lambda>g. mu (calculateString g)) gs)"
  let ?c = "\<lambda>f. case smap_find (m_groups m) (m_tag f) of None \<Rightarrow> 0 | Some gs \<Rightarrow> ?G gs"
  have "mu (getFixString f @ (case smap_find (m_groups m) (m_tag f) of None \<Rightarrow> [] | Some gs \<Rightarrow> concat (map calculateString gs))) =
      mu (getFixString f) + ?c f" for f
    by (simp add: mu measure_concat comp_def split: option.split)
  then have "mu (calculateString m) = sum_list (map (\<lambda>f. mu (getFixString f) + ?c f) (m_fields m))"
    by (subst calculateString.simps) (simp add: measure_concat mu comp_def)
  also have "\<dots> = sum_list (map (\<lambda>f. mu (getFixString f)) (m_fields m)) + sum_list (map ?c (m_fields m))"
    by (rule sum_list_addf)
  also have "sum_list (map ?c (m_fields m)) = sum_list (map (\<lambda>(t, gs). ?G gs) (m_groups m))"
    using e by (intro sum_groups_by_field)
      (auto simp: encodable.simps [of m] distinct_tags_def smap_ok_distinct list_all_iff)
  finally show ?thesis .
qed

lemma sum_list_filter_split:
  "sum_list (map h (filter p xs)) + sum_list (map h (filter (\<lambda>x. \<not> p x) xs)) = (sum_list (map h xs) :: nat)"
  by (induction xs) auto

lemma sum_list_int_cong:
  "\<forall>x\<in>set xs. F x = int (H x) \<Longrightarrow> sum_list (map F xs) = int (sum_list (map H xs))"
  by (induction xs) auto

lemma calculateLength_encoding:
  assumes "encodable m"
  shows "calculateLength b l c m + int (sum_list (map (\<lambda>f. length (getFixString f))
    (filter (\<lambda>f. m_tag f \<in> {b, l, c}) (m_fields m)))) = int (length (calculateString m))"
  using assms
proof (induction m arbitrary: b l c rule: encodable.induct)
  case (1 m)
  have g: "calculateLength 8 9 10 g = int (length (calculateString g))"
    if "(t, gs) \<in> set (m_groups m)" "g \<in> set gs" for t gs g
  proof -
    have "encodable g" and no: "list_all (\<lambda>f. m_tag f \<notin> {8, 9, 10}) (m_fields g)"
      using "1.prems" that by (auto simp: encodable.simps [of m] list_all_iff)
    moreover from no have "filter (\<lambda>f. m_tag f \<in> {8, 9, 10}) (m_fields g) = []"
      by (auto simp: filter_empty_conv list_all_iff)
    ultimately show ?thesis using "1.IH" [OF that(1) refl that(2), of 8 9 10] by simp
  qed
  have fields: "sum_list (map getLength (filter (\<lambda>f. m_tag f \<noteq> b \<and> m_tag f \<noteq> l \<and> m_tag f \<noteq> c) (m_fields m))) =
      int (sum_list (map (\<lambda>f. length (getFixString f)) (filter (\<lambda>f. \<not> m_tag f \<in> {b, l, c}) (m_fields m))))"
    using "1.prems" by (subst sum_list_int_cong [where H = "\<lambda>f. length (getFixString f)"])
      (auto simp: metrics_of_encoding encodable.simps [of m] list_all_iff)
  have groups: "sum_list (map (\<lambda>(tag, gs). sum_list (map (calculateLength 8 9 10) gs)) (m_groups m)) =
      int (sum_list (map (\<lambda>(t, gs). sum_list (map (\<lambda>g. length (calculateString g)) gs)) (m_groups m)))"
    by (rule sum_list_int_cong) (use g in \<open>auto intro!: sum_list_int_cong\<close>)
  show ?case
    using measure_calculateString [of length, OF _ _ "1.prems"] fields groups
      sum_list_filter_split [of "\<lambda>f. length (getFixString f)" "\<lambda>f. m_tag f \<in> {b, l, c}" "m_fields m"]
    by (simp add: calculateLength.simps [of b l c m] del: getFixString_eq)
qed

lemma calculateTotal_encoding:
  assumes "encodable m"
  shows "calculateTotal c m + int (sum_list (map (\<lambda>f. byte_sum (getFixString f))
    (filter (\<lambda>f. m_tag f = c) (m_fields m)))) = int (byte_sum (calculateString m))"
  using assms
proof (induction m arbitrary: c rule: encodable.induct)
  case (1 m)
  have g: "calculateTotal 10 g = int (byte_sum (calculateString g))"
    if "(t, gs) \<in> set (m_groups m)" "g \<in> set gs" for t gs g
  proof -
    have "encodable g" and no: "list_all (\<lambda>f. m_tag f \<notin> {8, 9, 10}) (m_fields g)"
      using "1.prems" that by (auto simp: encodable.simps [of m] list_all_iff)
    moreover from no have "filter (\<lambda>f. m_tag f = 10) (m_fields g) = []"
      by (auto simp: filter_empty_conv list_all_iff)
    ultimately show ?thesis using "1.IH" [OF that(1) refl that(2), of 10] by simp
  qed
  have fields: "sum_list (map getTotal (filter (\<lambda>f. m_tag f \<noteq> c) (m_fields m))) =
      int (sum_list (map (\<lambda>f. byte_sum (getFixString f)) (filter (\<lambda>f. \<not> m_tag f = c) (m_fields m))))"
    using "1.prems" by (subst sum_list_int_cong [where H = "\<lambda>f. byte_sum (getFixString f)"])
      (auto simp: metrics_of_encoding encodable.simps [of m] list_all_iff)
  have groups: "sum_list (map (\<lambda>(tag, gs). sum_list (map (calculateTotal 10) gs)) (m_groups m)) =
      int (sum_list (map (\<lambda>(t, gs). sum_list (map (\<lambda>g. byte_sum (calculateString g)) gs)) (m_groups m)))"
    by (rule sum_list_int_cong) (use g in \<open>auto intro!: sum_list_int_cong\<close>)
  show ?case
    using measure_calculateString [of byte_sum, OF _ _ "1.prems"] fields groups
      sum_list_filter_split [of "\<lambda>f. byte_sum (getFixString f)" "\<lambda>f. m_tag f = c" "m_fields m"]
    by (simp add: calculateTotal.simps [of c m])
qed

section \<open>The interface of a collection of fields\<close>

text \<open>What the code that fills and reads headers relies on: the last value put under a tag is
  the one read back, and other tags keep theirs.\<close>

locale tag_map =
  fixes get :: "'m \<Rightarrow> int \<Rightarrow> string option"
    and put :: "FieldBase \<Rightarrow> 'm \<Rightarrow> 'm"
    and ok :: "'m \<Rightarrow> bool"
  assumes ok_put: "ok m \<Longrightarrow> int32 (m_tag f) \<Longrightarrow> ok (put f m)"
    and get_put: "ok m \<Longrightarrow> int32 (m_tag f) \<Longrightarrow>
      get (put f m) t = (if t = m_tag f then Some (m_string f) else get m t)"
begin

lemma ok_puts: "ok m \<Longrightarrow> \<forall>f\<in>set fs. int32 (m_tag f) \<Longrightarrow> ok (fold put fs m)"
  by (induction fs arbitrary: m) (simp_all add: ok_put)

lemma get_puts:
  assumes "ok m" "\<forall>f\<in>set fs. int32 (m_tag f)"
  shows "get (fold put fs m) t =
    (case find (\<lambda>f. m_tag f = t) (rev fs) of None \<Rightarrow> get m t | Some f \<Rightarrow> Some (m_string f))"
  using assms
proof (induction fs rule: rev_induct)
  case (snoc f fs)
  then show ?case by (simp add: get_put ok_puts)
qed simp

lemma get_put_comm:
  "ok m \<Longrightarrow> int32 (m_tag f) \<Longrightarrow> int32 (m_tag g) \<Longrightarrow> m_tag f \<noteq> m_tag g \<Longrightarrow>
   get (put f (put g m)) t = get (put g (put f m)) t"
  by (simp add: get_put ok_put)

end

interpretation fields: tag_map field_value setField map_ok
  by unfold_locales (use setField_correct in auto)

section \<open>Groups and their count field\<close>

text \<open>Every group has an instance and a count field with the number of its instances.\<close>

definition counts_ok :: "FieldMap \<Rightarrow> bool" where
  "counts_ok m = (\<forall>t gs. smap_find (m_groups m) t = Some gs \<longrightarrow>
     int32 t \<and> gs \<noteq> [] \<and> field_value m t = Some (decimal (int (length gs))))"

lemma IntField_simps [simp]: "m_tag (IntField t v) = t" "m_string (IntField t v) = decimal v"
  by (simp_all add: IntField_def mk_FieldBase_def integer_to_string_decimal)

lemma setField_groups [simp]: "m_groups (setField f m) = m_groups m" "m_order (setField f m) = m_order m"
  by (simp_all add: setField_def setField_overwrite_def addField_def split: option.split)

lemma map_ok_set_groups: "map_ok m \<Longrightarrow> smap_ok gs \<Longrightarrow> map_ok (set_groups gs m)"
  by (simp add: map_ok_def)

lemma field_value_set_groups [simp]: "field_value (set_groups gs m) = field_value m"
  by (simp add: field_value_def fun_eq_iff)

lemma addGroup_correct:
  assumes ok: "map_ok m" "counts_ok m" and t: "int32 t"
  shows "map_ok (addGroup t g True m) \<and> counts_ok (addGroup t g True m) \<and>
    groupCount (addGroup t g True m) t = groupCount m t + 1 \<and>
    getGroupRef (addGroup t g True m) (int (groupCount m t) + 1) t = Ok g"
proof -
  define gs where "gs = (case smap_find (m_groups m) t of None \<Rightarrow> [] | Some gs \<Rightarrow> gs) @ [g]"
  define m' where "m' = set_groups (smap_put t gs (m_groups m)) m"
  have sm: "smap_ok (m_groups m)" using ok by (simp add: map_ok_def)
  have ok': "map_ok m'" using ok sm by (simp add: m'_def map_ok_set_groups)
  have eq: "addGroup t g True m = setField (IntField t (int (length gs))) m'"
    by (simp add: addGroup_def addGroupPtr_def gs_def m'_def Let_def)
  have len: "length gs = groupCount m t + 1" by (simp add: gs_def groupCount_def split: option.split)
  have grp: "smap_find (m_groups (addGroup t g True m)) s = (if s = t then Some gs else smap_find (m_groups m) s)" for s
    unfolding eq using sm by (simp add: m'_def)
  have val: "field_value (addGroup t g True m) s = (if s = t then Some (decimal (int (length gs))) else field_value m s)" for s
    unfolding eq using fields.get_put [OF ok', of "IntField t (int (length gs))"] t by (simp add: m'_def)
  have "map_ok (addGroup t g True m)" unfolding eq using fields.ok_put [OF ok'] t by simp
  moreover have "counts_ok (addGroup t g True m)"
    using ok(2) t unfolding counts_ok_def grp val by (auto simp: gs_def)
  moreover have "gs ! groupCount m t = g" by (auto simp: gs_def groupCount_def nth_append split: option.split)
  ultimately show ?thesis using len by (simp add: groupCount_def [of "addGroup t g True m"] grp getGroupRef_def)
qed

lemma removeGroup_last:
  assumes ok: "map_ok m" "counts_ok m" "distinct_tags m" and gs: "smap_find (m_groups m) t = Some gs"
  shows "removeField t (set_groups (smap_erase t (m_groups m)) m) = without t m"
proof -
  let ?m = "set_groups (smap_erase t (m_groups m)) m"
  have t: "int32 t" "field_value m t \<noteq> None" using ok(2) gs by (auto simp: counts_ok_def)
  have ok': "map_ok ?m" using ok(1) by (simp add: map_ok_def)
  then have "isSetField ?m t" using t by (simp add: isSetField_value)
  then have "removeField t ?m = without t ?m"
    using ok' t(1) ok(3) by (intro removeField_without) (simp_all add: distinct_tags_def)
  also have "\<dots> = without t m" by (simp add: without_def smap_erase_def)
  finally show ?thesis .
qed

lemma removeGroup_correct:
  assumes ok: "map_ok m" "counts_ok m" "distinct_tags m" and n: "1 \<le> num" "num \<le> int (groupCount m t)"
  shows "map_ok (removeGroup num t m) \<and> counts_ok (removeGroup num t m) \<and>
    groupCount (removeGroup num t m) t = groupCount m t - 1 \<and>
    (isSetField (removeGroup num t m) t \<longleftrightarrow> groupCount m t > 1)"
proof -
  obtain gs where gs: "smap_find (m_groups m) t = Some gs" "num \<le> int (length gs)"
    using n by (auto simp: groupCount_def split: option.splits)
  have sm: "smap_ok (m_groups m)" using ok by (simp add: map_ok_def)
  have t: "int32 t" using ok(2) gs by (auto simp: counts_ok_def)
  define gs' where "gs' = erase_at (nat (num - 1)) gs"
  have len: "length gs' = length gs - 1" "length gs = groupCount m t"
    using gs n by (auto simp: gs'_def erase_at_def groupCount_def min_def)
  show ?thesis
  proof (cases "gs' = []")
    case True
    then have eq: "removeGroup num t m = without t m"
      using removeGroup_last [OF ok gs(1)] gs n by (simp add: removeGroup_def gs'_def Let_def)
    have ok': "map_ok (without t m)" using ok(1) by (rule map_ok_without)
    have fv: "field_value (without t m) s = (if s = t then None else field_value m s)" for s
      by (rule field_value_without)
    have gr: "m_groups (without t m) = smap_erase t (m_groups m)" by (simp add: without_def)
    have "counts_ok (without t m)" using ok(2) by (auto simp: counts_ok_def fv gr)
    moreover have "groupCount (without t m) t = 0" by (simp add: groupCount_def gr)
    ultimately show ?thesis unfolding eq using ok' t len True by (simp add: isSetField_value fv)
  next
    case False
    let ?m = "set_groups (smap_put t gs' (m_groups m)) m"
    have eq: "removeGroup num t m = setField (IntField t (int (length gs'))) ?m"
      using gs n False by (simp add: removeGroup_def gs'_def Let_def)
    have ok': "map_ok ?m" using ok(1) sm by (simp add: map_ok_set_groups)
    note val = fields.get_put [OF ok', of "IntField t (int (length gs'))"]
    have okr: "map_ok (removeGroup num t m)" unfolding eq using fields.ok_put [OF ok'] t by simp
    have "counts_ok (removeGroup num t m)"
      using ok(2) t False sm unfolding counts_ok_def eq by (auto simp: val)
    moreover have "groupCount (removeGroup num t m) t = length gs'" unfolding eq using sm by (simp add: groupCount_def)
    moreover have "isSetField (removeGroup num t m) t" using okr t val by (simp add: isSetField_value eq)
    moreover have "0 < length gs'" using False by simp
    ultimately show ?thesis using okr len by auto
  qed
qed

section \<open>Setting a field keeps a map encodable\<close>

lemma setField_fields_cases:
  assumes "map_ok m" "int32 (m_tag f)"
  obtains (new) A B where "m_fields m = A @ B" "m_fields (setField f m) = A @ f # B"
      "m_tag f \<notin> m_tag ` set (m_fields m)"
    | (old) i where "i < length (m_fields m)" "m_tag (m_fields m ! i) = m_tag f"
      "m_fields (setField f m) = (m_fields m)[i := field_setString (m_string f) (m_fields m ! i)]"
proof (cases "findTag m (m_tag f)")
  case None
  then have "m_tag f \<notin> m_tag ` set (m_fields m)" using assms by (auto simp: findTag_scan find_if_None)
  moreover have "setField f m = addField f m" using None by (simp add: setField_def setField_overwrite_def)
  ultimately show thesis
    using new addField_fields [OF assms] takeWhile_dropWhile_id by metis
next
  case (Some i)
  then have "find_if (\<lambda>g. m_tag g = m_tag f) (m_fields m) = Some i" using assms by (simp add: findTag_scan)
  from find_if_Some [OF this] Some show thesis
    by (intro old [of i]) (simp_all add: setField_def setField_overwrite_def)
qed

lemma setField_tags:
  assumes "map_ok m" "int32 (m_tag f)"
  shows "m_tag ` set (m_fields (setField f m)) = insert (m_tag f) (m_tag ` set (m_fields m))"
    "distinct_tags m \<Longrightarrow> distinct_tags (setField f m)"
    "list_all metrics_ok (m_fields m) \<Longrightarrow> metrics_ok f \<Longrightarrow> list_all metrics_ok (m_fields (setField f m))"
proof -
  have eq: "m_tag ` set xs = set (map m_tag xs)" for xs :: "FieldBase list" by simp
  show "m_tag ` set (m_fields (setField f m)) = insert (m_tag f) (m_tag ` set (m_fields m))"
    using assms
  proof (cases rule: setField_fields_cases)
    case (old i)
    then show ?thesis unfolding eq using tags_update [OF old(1)] by (metis insert_absorb length_map nth_map nth_mem)
  qed simp
  show "distinct_tags (setField f m)" if "distinct_tags m"
    using assms
  proof (cases rule: setField_fields_cases)
    case (old i)
    then show ?thesis using that tags_update [OF old(1)] by (simp add: distinct_tags_def)
  qed (use that in \<open>auto simp: distinct_tags_def\<close>)
  show "list_all metrics_ok (m_fields (setField f m))" if "list_all metrics_ok (m_fields m)" "metrics_ok f"
    using assms
  proof (cases rule: setField_fields_cases)
    case (old i)
    then show ?thesis using that(1) by (auto simp: list_all_iff dest!: set_update_subset_insert [THEN subsetD])
  qed (use that in \<open>auto simp: list_all_iff\<close>)
qed

lemma encodable_setField:
  assumes "encodable m" "map_ok m" "int32 (m_tag f)" "metrics_ok f"
  shows "encodable (setField f m)"
  using assms setField_tags [OF assms(2,3)]
  by (auto simp: encodable.simps [of m] encodable.simps [of "setField f m"] list_all_iff)

section \<open>Properties\<close>

text \<open>C24: a field map is a map from tags to values. In a well-formed map (fields in the map's own
  order, header, trailer, body or group) the binary search used from 16 fields on finds
  what a scan finds; \<open>setField\<close> keeps the map well-formed, makes \<open>getField\<close> return the new value for
  its tag and the old result, value or \<open>FieldNotFound\<close>, for every other tag; and, where no tag
  repeats, \<open>removeField\<close> makes exactly its tag, and the groups under it, disappear.\<close>

theorem field_map_correct:
  assumes "map_ok m" "int32 (m_tag f)" "int32 t"
  shows "findTag m t = find_if (\<lambda>g. m_tag g = t) (m_fields m) \<and>
    map_ok (setField f m) \<and>
    getField (setField f m) t = (if t = m_tag f then Ok (m_string f) else getField m t) \<and>
    (distinct_tags m \<and> isSetField m (m_tag f) \<longrightarrow>
       map_ok (removeField (m_tag f) m) \<and>
       getField (removeField (m_tag f) m) t =
         (if t = m_tag f then Throw (FieldNotFound t) else getField m t) \<and>
       \<not> hasGroup (removeField (m_tag f) m) (m_tag f))"
proof -
  have set: "map_ok (setField f m)" using fields.ok_put assms by blast
  have rem: "map_ok (without (m_tag f) m)" using assms(1) by (rule map_ok_without)
  have "\<not> hasGroup (without (m_tag f) m) (m_tag f)" by (simp add: hasGroup_def without_def)
  with set rem assms show ?thesis
    by (auto simp: findTag_scan getField_value fields.get_put removeField_without field_value_without)
qed

theorem field_map_correct_witness:
  "findTag (mk_FieldMap (message_order_mode mode_header)) 35 = find_if (\<lambda>g. m_tag g = 35) [] \<and>
   getField (setField (mk_FieldBase 35 ''A'') (mk_FieldMap (message_order_mode mode_header))) 35 = Ok ''A''"
proof -
  have "order_wf (message_order_mode mode_header)" by (auto simp: order_wf_def)
  then have ok: "map_ok (mk_FieldMap (message_order_mode mode_header))" by simp
  have t: "int32 (m_tag (mk_FieldBase 35 ''A''))" "int32 35" by (simp_all add: mk_FieldBase_def int32_def)
  from field_map_correct [OF ok t] show ?thesis by (simp add: mk_FieldMap_def mk_FieldBase_def)
qed

text \<open>After decoding, sorting puts the fields of a map into its order without losing, adding
  or changing a field, and leaves the groups alone, so that every later search is sound.\<close>

theorem sortFields_sorted:
  assumes "order_wf (m_order m)" "\<forall>f\<in>set (m_fields m). int32 (m_tag f)" "smap_ok (m_groups m)"
  shows "map_ok (sortFields m) \<and> mset (m_fields (sortFields m)) = mset (m_fields m) \<and>
    m_groups (sortFields m) = m_groups m"
  by (rule sortFields_correct [OF assms])

theorem sortFields_sorted_witness:
  "map_ok (sortFields (FieldMap [mk_FieldBase 10 ''000'', mk_FieldBase 89 ''x''] [] (message_order_mode mode_trailer))) \<and>
   mset (m_fields (sortFields (FieldMap [mk_FieldBase 10 ''000'', mk_FieldBase 89 ''x''] [] (message_order_mode mode_trailer)))) =
     mset [mk_FieldBase 10 ''000'', mk_FieldBase 89 ''x''] \<and>
   m_groups (sortFields (FieldMap [mk_FieldBase 10 ''000'', mk_FieldBase 89 ''x''] [] (message_order_mode mode_trailer))) = []"
  using sortFields_sorted [of "FieldMap [mk_FieldBase 10 ''000'', mk_FieldBase 89 ''x''] [] (message_order_mode mode_trailer)"]
  by (auto simp: order_wf_def mk_FieldBase_def int32_def)

text \<open>C26: repeating groups and their count field stay in step. \<open>addGroup\<close> appends an instance that
  \<open>getGroup\<close> then returns, \<open>removeGroup\<close> removes one; after either the count field holds the
  number of instances, and removing the last instance removes the count field.\<close>

theorem group_counts:
  assumes "map_ok m" "counts_ok m" "int32 t"
  shows "counts_ok (addGroup t g True m) \<and> map_ok (addGroup t g True m) \<and>
    groupCount (addGroup t g True m) t = groupCount m t + 1 \<and>
    getGroupRef (addGroup t g True m) (int (groupCount m t) + 1) t = Ok g \<and>
    (distinct_tags m \<and> 1 \<le> num \<and> num \<le> int (groupCount m t) \<longrightarrow>
      counts_ok (removeGroup num t m) \<and> map_ok (removeGroup num t m) \<and>
      groupCount (removeGroup num t m) t = groupCount m t - 1 \<and>
      (isSetField (removeGroup num t m) t \<longleftrightarrow> groupCount m t > 1))"
  using addGroup_correct [OF assms, of g] removeGroup_correct [OF assms(1,2)] by auto

theorem group_counts_witness:
  "groupCount (addGroup 453 (mk_FieldMap (message_order_mode mode_normal)) True
     (mk_FieldMap (message_order_mode mode_normal))) 453 = 1"
proof -
  have wf: "order_wf (message_order_mode mode_normal)" by (auto simp: order_wf_def)
  have c: "counts_ok (mk_FieldMap (message_order_mode mode_normal))" by (simp add: counts_ok_def mk_FieldMap_def)
  have z: "groupCount (mk_FieldMap (message_order_mode mode_normal)) 453 = 0" by (simp add: groupCount_def mk_FieldMap_def)
  have t: "int32 453" by (simp add: int32_def)
  from group_counts [OF map_ok_new [OF wf] c t, of "mk_FieldMap (message_order_mode mode_normal)"] z
  show ?thesis by simp
qed

end
