(* ===== verification/DataDictionaries.thy ===== *)
theory DataDictionaries
  imports FieldMaps
begin

text \<open>
  DataDictionary.h: what a dictionary knows (fields, types, values, message types, required
  fields, groups with dictionaries of their own), the operations that fill it, its queries
  and the checks it makes on one field. \<open>std::set\<close> and \<open>std::map\<close> are the sorted lists of the
  prelude. A dictionary is built by storage functions; reading one from a document, which calls
  them, is \<open>DictionaryLoading\<close>. The memoised orders are computed on demand: storing them changes no result.
\<close>

section \<open>Definitions\<close>

datatype Type' =
    TUnknown | TString | TChar | TPrice | TInt | TAmt | TQty | TCurrency
  | TMultipleValueString | TMultipleStringValue | TMultipleCharValue | TExchange
  | TUtcTimeStamp | TBoolean | TLocalMktTime | TLocalMktDate | TData | TFloat | TPriceOffset
  | TMonthYear | TDayOfMonth | TUtcDate | TUtcTimeOnly | TNumInGroup | TPercentage | TSeqNum
  | TTagNum | TLength | TCountry | TTzTimeOnly | TTzTimeStamp | TXmlData | TLanguage | TXid | TXidRef

record dd_data =
  m_hasVersion :: bool
  m_checkFieldsOutOfOrder :: bool
  m_checkFieldsHaveValues :: bool
  m_checkUserDefinedFields :: bool
  m_allowUnknownMessageFields :: bool
  m_storeMsgFieldsOrder :: bool
  m_beginString :: string
  m_messageFields :: "(string, int list) smap"
  m_requiredFields :: "(string, int list) smap"
  m_messages :: "string list"
  m_ddFields :: "int list"
  m_orderedFields :: "int list"
  m_headerFields :: "(int, bool) smap"
  m_trailerFields :: "(int, bool) smap"
  m_fieldTypes :: "(int, Type') smap"
  m_fieldValues :: "(int, string list) smap"
  m_fieldNames :: "(int, string) smap"
  m_names :: "(string, int) smap"
  m_valueNames :: "(int \<times> string) \<Rightarrow> string option"
  m_nameValues :: "(int \<times> string) \<Rightarrow> string option"
  m_dataFields :: "int list"
  m_headerOrderedFields :: "int list"
  m_trailerOrderedFields :: "int list"
  m_messageOrderedFields :: "(string, int list) smap"

datatype DataDictionary = DataDictionary
  (dd: dd_data)
  (dd_groups: "(int \<times> (string \<times> int \<times> DataDictionary) list) list")

definition set_dd :: "(dd_data \<Rightarrow> dd_data) \<Rightarrow> DataDictionary \<Rightarrow> DataDictionary" where
  "set_dd f d = DataDictionary (f (dd d)) (dd_groups d)"

definition new_DataDictionary :: DataDictionary where
  "new_DataDictionary = DataDictionary
     \<lparr>m_hasVersion = False, m_checkFieldsOutOfOrder = True, m_checkFieldsHaveValues = True,
      m_checkUserDefinedFields = True, m_allowUnknownMessageFields = False,
      m_storeMsgFieldsOrder = False, m_beginString = [], m_messageFields = [],
      m_requiredFields = [], m_messages = [], m_ddFields = [], m_orderedFields = [],
      m_headerFields = [], m_trailerFields = [], m_fieldTypes = [], m_fieldValues = [],
      m_fieldNames = [], m_names = [], m_valueNames = Map.empty, m_nameValues = Map.empty,
      m_dataFields = [], m_headerOrderedFields = [], m_trailerOrderedFields = [],
      m_messageOrderedFields = []\<rparr> []"

text \<open>\<open>m[k]\<close> of a map of sets, default-constructed when the key is new.\<close>

definition at_or_empty :: "('k, 'v list) smap \<Rightarrow> 'k \<Rightarrow> 'v list" where
  "at_or_empty m' k = (case smap_find m' k of None \<Rightarrow> [] | Some xs \<Rightarrow> xs)"

subsection \<open>Storage functions\<close>

definition setVersion :: "string \<Rightarrow> DataDictionary \<Rightarrow> DataDictionary" where
  "setVersion beginString = set_dd (\<lambda>d. d\<lparr>m_beginString := beginString, m_hasVersion := True\<rparr>)"

definition getVersion :: "DataDictionary \<Rightarrow> string" where
  "getVersion d = m_beginString (dd d)"

definition dd_addField :: "int \<Rightarrow> DataDictionary \<Rightarrow> DataDictionary" where
  "dd_addField field = set_dd (\<lambda>d. d\<lparr>m_ddFields := insort_insert field (m_ddFields d),
     m_orderedFields := m_orderedFields d @ [field]\<rparr>)"

definition addFieldName :: "int \<Rightarrow> string \<Rightarrow> DataDictionary \<Rightarrow> DataDictionary result" where
  "addFieldName field name d =
     (if smap_find (m_names (dd d)) name \<noteq> None then Throw ConfigError
      else Ok (set_dd (\<lambda>d. d\<lparr>m_names := smap_put name field (m_names d),
        m_fieldNames := smap_put field name (m_fieldNames d)\<rparr>) d))"

definition getFieldName :: "DataDictionary \<Rightarrow> int \<Rightarrow> string option" where
  "getFieldName d field = smap_find (m_fieldNames (dd d)) field"

definition getFieldTag :: "DataDictionary \<Rightarrow> string \<Rightarrow> int option" where
  "getFieldTag d name = smap_find (m_names (dd d)) name"

definition addValueName :: "int \<Rightarrow> string \<Rightarrow> string \<Rightarrow> DataDictionary \<Rightarrow> DataDictionary" where
  "addValueName field value' name = set_dd (\<lambda>d. d\<lparr>
     m_valueNames := (m_valueNames d)((field, value') \<mapsto> name),
     m_nameValues := (m_nameValues d)((field, name) \<mapsto> value')\<rparr>)"

definition getValueName :: "DataDictionary \<Rightarrow> int \<Rightarrow> string \<Rightarrow> string option" where
  "getValueName d field value' = m_valueNames (dd d) (field, value')"

definition getNameValue :: "DataDictionary \<Rightarrow> int \<Rightarrow> string \<Rightarrow> string option" where
  "getNameValue d field name = m_nameValues (dd d) (field, name)"

definition isField :: "DataDictionary \<Rightarrow> int \<Rightarrow> bool" where
  "isField d field = (field \<in> set (m_ddFields (dd d)))"

definition addMsgType :: "string \<Rightarrow> DataDictionary \<Rightarrow> DataDictionary" where
  "addMsgType msgType = set_dd (\<lambda>d. d\<lparr>m_messages := insort_insert msgType (m_messages d)\<rparr>)"

definition isMsgType :: "DataDictionary \<Rightarrow> string \<Rightarrow> bool" where
  "isMsgType d msgType = (msgType \<in> set (m_messages (dd d)))"

definition addMsgField :: "string \<Rightarrow> int \<Rightarrow> DataDictionary \<Rightarrow> DataDictionary" where
  "addMsgField msgType field = set_dd (\<lambda>d.
     let d' = (if m_storeMsgFieldsOrder d
               then d\<lparr>m_messageOrderedFields := smap_put msgType
                 (at_or_empty (m_messageOrderedFields d) msgType @ [field]) (m_messageOrderedFields d)\<rparr>
               else d)
     in d'\<lparr>m_messageFields := smap_put msgType
          (insort_insert field (at_or_empty (m_messageFields d') msgType)) (m_messageFields d')\<rparr>)"

definition isMsgField :: "DataDictionary \<Rightarrow> string \<Rightarrow> int \<Rightarrow> bool" where
  "isMsgField d msgType field =
     (case smap_find (m_messageFields (dd d)) msgType of None \<Rightarrow> False | Some fs \<Rightarrow> field \<in> set fs)"

definition addHeaderField :: "int \<Rightarrow> bool \<Rightarrow> DataDictionary \<Rightarrow> DataDictionary" where
  "addHeaderField field required = set_dd (\<lambda>d.
     let d' = (if m_storeMsgFieldsOrder d
               then d\<lparr>m_headerOrderedFields := m_headerOrderedFields d @ [field]\<rparr> else d)
     in d'\<lparr>m_headerFields := smap_put field required (m_headerFields d')\<rparr>)"

definition dd_isHeaderField :: "DataDictionary \<Rightarrow> int \<Rightarrow> bool" where
  "dd_isHeaderField d field = (smap_find (m_headerFields (dd d)) field \<noteq> None)"

definition addTrailerField :: "int \<Rightarrow> bool \<Rightarrow> DataDictionary \<Rightarrow> DataDictionary" where
  "addTrailerField field required = set_dd (\<lambda>d.
     let d' = (if m_storeMsgFieldsOrder d
               then d\<lparr>m_trailerOrderedFields := m_trailerOrderedFields d @ [field]\<rparr> else d)
     in d'\<lparr>m_trailerFields := smap_put field required (m_trailerFields d')\<rparr>)"

definition dd_isTrailerField :: "DataDictionary \<Rightarrow> int \<Rightarrow> bool" where
  "dd_isTrailerField d field = (smap_find (m_trailerFields (dd d)) field \<noteq> None)"

definition addFieldType :: "int \<Rightarrow> Type' \<Rightarrow> DataDictionary \<Rightarrow> DataDictionary" where
  "addFieldType field type = set_dd (\<lambda>d.
     let d' = d\<lparr>m_fieldTypes := smap_put field type (m_fieldTypes d)\<rparr>
     in if type = TData then d'\<lparr>m_dataFields := insort_insert field (m_dataFields d')\<rparr> else d')"

definition getFieldType :: "DataDictionary \<Rightarrow> int \<Rightarrow> Type' option" where
  "getFieldType d field = smap_find (m_fieldTypes (dd d)) field"

definition addRequiredField :: "string \<Rightarrow> int \<Rightarrow> DataDictionary \<Rightarrow> DataDictionary" where
  "addRequiredField msgType field = set_dd (\<lambda>d. d\<lparr>m_requiredFields := smap_put msgType
     (insort_insert field (at_or_empty (m_requiredFields d) msgType)) (m_requiredFields d)\<rparr>)"

definition isRequiredField :: "DataDictionary \<Rightarrow> string \<Rightarrow> int \<Rightarrow> bool" where
  "isRequiredField d msgType field =
     (case smap_find (m_requiredFields (dd d)) msgType of None \<Rightarrow> False | Some fs \<Rightarrow> field \<in> set fs)"

definition addFieldValue :: "int \<Rightarrow> string \<Rightarrow> DataDictionary \<Rightarrow> DataDictionary" where
  "addFieldValue field value' = set_dd (\<lambda>d. d\<lparr>m_fieldValues := smap_put field
     (insort_insert value' (at_or_empty (m_fieldValues d) field)) (m_fieldValues d)\<rparr>)"

definition hasFieldValue :: "DataDictionary \<Rightarrow> int \<Rightarrow> bool" where
  "hasFieldValue d field = (smap_find (m_fieldValues (dd d)) field \<noteq> None)"

definition isMultipleValueField :: "DataDictionary \<Rightarrow> int \<Rightarrow> bool" where
  "isMultipleValueField d field =
     (case smap_find (m_fieldTypes (dd d)) field of
        None \<Rightarrow> False
      | Some t \<Rightarrow> t = TMultipleValueString \<or> t = TMultipleCharValue \<or> t = TMultipleStringValue)"

text \<open>The do-while loop over the space separated values, from \<open>startPos\<close>.\<close>

function multiple_values_loop :: "string list \<Rightarrow> string \<Rightarrow> nat \<Rightarrow> bool" where
  "multiple_values_loop values value' startPos =
     (case str_find '' '' value' startPos of
        None \<Rightarrow> drop startPos value' \<in> set values
      | Some endPos \<Rightarrow>
          if take (endPos - startPos) (drop startPos value') \<notin> set values then False
          else multiple_values_loop values value' (endPos + 1))"
  by auto
termination
  by (relation "measure (\<lambda>(vs, v, p). Suc (length v) - p)") (auto dest: str_find_bound)

declare multiple_values_loop.simps [simp del]

definition isFieldValue :: "DataDictionary \<Rightarrow> int \<Rightarrow> string \<Rightarrow> bool" where
  "isFieldValue d field value' =
     (case smap_find (m_fieldValues (dd d)) field of
        None \<Rightarrow> False
      | Some vs \<Rightarrow>
          if \<not> isMultipleValueField d field then value' \<in> set vs
          else multiple_values_loop vs value' 0)"

definition adoptGroup :: "string \<Rightarrow> int \<Rightarrow> int \<Rightarrow> DataDictionary \<Rightarrow> DataDictionary \<Rightarrow> DataDictionary" where
  "adoptGroup msg field delim g d =
     (let g' = setVersion (getVersion d) g;
          presenceMap = (case smap_find (dd_groups d) field of None \<Rightarrow> [] | Some p \<Rightarrow> p)
      in DataDictionary (dd d) (smap_put field (smap_put msg (delim, g') presenceMap) (dd_groups d)))"

definition dd_addGroup :: "string \<Rightarrow> int \<Rightarrow> int \<Rightarrow> DataDictionary \<Rightarrow> DataDictionary \<Rightarrow> DataDictionary" where
  "dd_addGroup msg field delim g d = adoptGroup msg field delim g d"

definition isGroup :: "DataDictionary \<Rightarrow> string \<Rightarrow> int \<Rightarrow> bool" where
  "isGroup d msg field =
     (case smap_find (dd_groups d) field of None \<Rightarrow> False | Some p \<Rightarrow> smap_find p msg \<noteq> None)"

definition getGroup :: "DataDictionary \<Rightarrow> string \<Rightarrow> int \<Rightarrow> (int \<times> DataDictionary) option" where
  "getGroup d msg field =
     (case smap_find (dd_groups d) field of None \<Rightarrow> None | Some p \<Rightarrow> smap_find p msg)"

definition isDataField :: "DataDictionary \<Rightarrow> int \<Rightarrow> bool" where
  "isDataField d field = (field \<in> set (m_dataFields (dd d)))"

definition getOrderedFields :: "DataDictionary \<Rightarrow> message_order" where
  "getOrderedFields d =
     (case setOrder (m_orderedFields (dd d)) of None \<Rightarrow> message_order_mode mode_normal | Some mo \<Rightarrow> mo)"

subsection \<open>Checks on one field\<close>

abbreviation UserMin :: int where "UserMin \<equiv> 5000"

definition checkMsgType :: "DataDictionary \<Rightarrow> string \<Rightarrow> unit result" where
  "checkMsgType d msgType = (if isMsgType d msgType then Ok () else Throw InvalidMessageType)"

definition shouldCheckTag :: "DataDictionary \<Rightarrow> FieldBase \<Rightarrow> bool" where
  "shouldCheckTag d field =
     (if m_allowUnknownMessageFields (dd d) \<and> m_tag field < UserMin then False
      else if \<not> m_checkUserDefinedFields (dd d) \<and> m_tag field \<ge> UserMin then False
      else True)"

definition checkValidTagNumber :: "DataDictionary \<Rightarrow> FieldBase \<Rightarrow> unit result" where
  "checkValidTagNumber d field =
     (if isField d (m_tag field) then Ok () else Throw (InvalidTagNumber (m_tag field)))"

text \<open>Whether a text converts to its type; string types always do.\<close>

fun valid_format :: "Type' \<Rightarrow> string \<Rightarrow> bool" where
  "valid_format TChar s = (CharConvertor_convert s \<noteq> None)"
| "valid_format TPrice s = DoubleConvertor_valid s"
| "valid_format TAmt s = DoubleConvertor_valid s"
| "valid_format TQty s = DoubleConvertor_valid s"
| "valid_format TFloat s = DoubleConvertor_valid s"
| "valid_format TPriceOffset s = DoubleConvertor_valid s"
| "valid_format TPercentage s = DoubleConvertor_valid s"
| "valid_format TInt s = (int_convert signed_int s \<noteq> None)"
| "valid_format TNumInGroup s = (int_convert signed_int s \<noteq> None)"
| "valid_format TTagNum s = (int_convert signed_int s \<noteq> None)"
| "valid_format TLength s = (int_convert signed_int s \<noteq> None)"
| "valid_format TSeqNum s = (UInt64Convertor s \<noteq> None)"
| "valid_format TUtcTimeStamp s = (UtcTimeStampConvertor_convert s \<noteq> None)"
| "valid_format TUtcDate s = (UtcDateConvertor_convert s \<noteq> None)"
| "valid_format TUtcTimeOnly s = (UtcTimeOnlyConvertor_convert s \<noteq> None)"
| "valid_format TBoolean s = (BoolConvertor_convert s \<noteq> None)"
| "valid_format _ s = True"

definition checkValidFormat :: "DataDictionary \<Rightarrow> FieldBase \<Rightarrow> unit result" where
  "checkValidFormat d field =
     (let type = (case getFieldType d (m_tag field) of None \<Rightarrow> TUnknown | Some t \<Rightarrow> t) in
      if valid_format type (m_string field) then Ok () else Throw (IncorrectDataFormat (m_tag field)))"

definition checkValue :: "DataDictionary \<Rightarrow> FieldBase \<Rightarrow> unit result" where
  "checkValue d field =
     (if \<not> hasFieldValue d (m_tag field) then Ok ()
      else if \<not> isFieldValue d (m_tag field) (m_string field) then Throw (IncorrectTagValue (m_tag field))
      else Ok ())"

definition checkHasValue :: "DataDictionary \<Rightarrow> FieldBase \<Rightarrow> unit result" where
  "checkHasValue d field =
     (if m_checkFieldsHaveValues (dd d) \<and> length (m_string field) = 0
      then Throw (NoTagValue (m_tag field)) else Ok ())"

definition checkIsInMessage :: "DataDictionary \<Rightarrow> FieldBase \<Rightarrow> string \<Rightarrow> unit result" where
  "checkIsInMessage d field msgType =
     (if isMsgField d msgType (m_tag field) then Ok ()
      else Throw (TagNotDefinedForMessage (m_tag field)))"

definition checkGroupCount :: "DataDictionary \<Rightarrow> FieldBase \<Rightarrow> FieldMap \<Rightarrow> string \<Rightarrow> unit result" where
  "checkGroupCount d field fieldMap msgType =
     (let fieldNum = m_tag field in
      if isGroup d msgType fieldNum then
        (case int_convert signed_int (m_string field) of
           None \<Rightarrow> Throw FieldConvertError
         | Some n \<Rightarrow>
             if int (groupCount fieldMap fieldNum) \<noteq> n then Throw (RepeatingGroupCountMismatch fieldNum)
             else Ok ())
      else Ok ())"

primrec check_all :: "('a \<Rightarrow> unit result) \<Rightarrow> 'a list \<Rightarrow> unit result" where
  "check_all f [] = Ok ()"
| "check_all f (x # xs) = rbind (f x) (\<lambda>_. check_all f xs)"

lemma check_all_Ok [simp]: "check_all f xs = Inr u \<longleftrightarrow> (\<forall>x\<in>set xs. f x = Inr ())"
  by (induction xs) auto

lemma check_all_cong [fundef_cong]:
  "xs = ys \<Longrightarrow> (\<And>x. x \<in> set ys \<Longrightarrow> f x = g x) \<Longrightarrow> check_all f xs = check_all g ys"
  by (induction ys arbitrary: xs) auto

lemma rbind_cong [fundef_cong]:
  "r = s \<Longrightarrow> (\<And>x. s = Inr x \<Longrightarrow> f x = g x) \<Longrightarrow> rbind r f = rbind s g"
  by (cases s) auto

text \<open>Required fields of header, trailer and body, and of every group instance, where the
  instance plays all three parts.\<close>

function checkHasRequired :: "DataDictionary \<Rightarrow> FieldMap \<Rightarrow> FieldMap \<Rightarrow> FieldMap \<Rightarrow> string \<Rightarrow> unit result" where
  "checkHasRequired d header body trailer msgType =
     rbind (check_all (\<lambda>(field, required).
         if required \<and> \<not> isSetField header field then Throw (RequiredTagMissing field) else Ok ())
       (m_headerFields (dd d))) (\<lambda>_.
     rbind (check_all (\<lambda>(field, required).
         if required \<and> \<not> isSetField trailer field then Throw (RequiredTagMissing field) else Ok ())
       (m_trailerFields (dd d))) (\<lambda>_.
     case smap_find (m_requiredFields (dd d)) msgType of
       None \<Rightarrow> Ok ()
     | Some flds \<Rightarrow>
         rbind (check_all (\<lambda>F. if \<not> isSetField body F then Throw (RequiredTagMissing F) else Ok ()) flds) (\<lambda>_.
         check_all (\<lambda>(field, instances).
           case getGroup d msgType field of
             None \<Rightarrow> Ok ()
           | Some (delim, DD) \<Rightarrow> check_all (\<lambda>g. checkHasRequired DD g g g msgType) instances)
           (m_groups body))))"
  by auto
termination
  by (relation "measure (\<lambda>(d, h, b, t, s). size b)") (auto intro: group_size)

declare checkHasRequired.simps [simp del]

section \<open>Multiple values\<close>

text \<open>The parts of a text between single spaces; at least one, possibly empty ones.\<close>

function tokens :: "string \<Rightarrow> string list" where
  "tokens s = (case dropWhile (\<lambda>c. c \<noteq> CHR '' '') s of
     [] \<Rightarrow> [s]
   | c # rest \<Rightarrow> takeWhile (\<lambda>c. c \<noteq> CHR '' '') s # tokens rest)"
  by auto
termination
proof (relation "measure length", goal_cases)
  case (2 s c rest)
  then have "length (c # rest) \<le> length s" by (metis length_dropWhile_le)
  then show ?case by simp
qed simp

declare tokens.simps [simp del]

lemma find_sub_single:
  "find_sub [c] s = (if c \<in> set s then Some (length (takeWhile (\<lambda>d. d \<noteq> c) s)) else None)"
  by (induction s) auto

lemma multiple_values_tokens:
  "startPos \<le> length v \<Longrightarrow>
   multiple_values_loop vs v startPos \<longleftrightarrow> (\<forall>tok\<in>set (tokens (drop startPos v)). tok \<in> set vs)"
proof (induction vs v startPos rule: multiple_values_loop.induct)
  case (1 vs v startPos)
  let ?s = "drop startPos v" and ?p = "\<lambda>c. c \<noteq> CHR '' ''"
  show ?case
  proof (cases "dropWhile ?p ?s")
    case Nil
    then have "CHR '' '' \<notin> set ?s" by (simp add: dropWhile_eq_Nil_conv) blast
    with "1.prems" have "str_find '' '' v startPos = None" by (simp add: str_find_def find_sub_single)
    then show ?thesis
      by (simp add: multiple_values_loop.simps [of vs v startPos] tokens.simps [of ?s] Nil)
  next
    case (Cons c rest)
    let ?k = "length (takeWhile ?p ?s)"
    from Cons have "CHR '' '' \<in> set ?s" using hd_dropWhile [of ?p ?s] set_dropWhileD [of c ?p ?s] by auto
    with "1.prems" have f: "str_find '' '' v startPos = Some (startPos + ?k)"
      by (simp add: str_find_def find_sub_single)
    have s: "takeWhile ?p ?s @ c # rest = ?s" using Cons takeWhile_dropWhile_id by metis
    then have rest: "drop (startPos + ?k + 1) v = rest"
      by (metis add.assoc add.commute append_eq_conv_conj drop_drop drop_Suc_Cons drop0 Suc_eq_plus1 append.assoc)
    have le: "startPos + ?k + 1 \<le> length v"
      using arg_cong [OF s, of length] "1.prems" by simp
    have tw: "take (startPos + ?k - startPos) ?s = takeWhile ?p ?s" by (simp add: takeWhile_eq_take [symmetric])
    note IH = "1.IH" [OF f _ le, unfolded tw rest]
    show ?thesis
      unfolding multiple_values_loop.simps [of vs v startPos] f tokens.simps [of ?s] Cons option.case list.case tw
      using IH by auto
  qed
qed

section \<open>Properties\<close>

text \<open>A field of a multiple value type is accepted exactly when every value between the
  single spaces of its text is one of the field's values (so an empty value, from doubled,
  leading or trailing spaces, is accepted only if the empty text is listed); a field of any
  other type is accepted exactly when its whole text is listed.\<close>

theorem isFieldValue_exact:
  "isFieldValue d field v \<longleftrightarrow>
     (\<exists>vs. smap_find (m_fieldValues (dd d)) field = Some vs \<and>
       (if isMultipleValueField d field then (\<forall>tok\<in>set (tokens v). tok \<in> set vs) else v \<in> set vs))"
  using multiple_values_tokens [of 0 v]
  by (cases "smap_find (m_fieldValues (dd d)) field") (auto simp: isFieldValue_def)

theorem isFieldValue_exact_witness:
  "isFieldValue (addFieldValue 18 ''G'' (addFieldValue 18 ''1'' (addFieldType 18 TMultipleValueString new_DataDictionary))) 18 ''1 G'' \<and>
   \<not> isFieldValue (addFieldValue 18 ''G'' (addFieldValue 18 ''1'' (addFieldType 18 TMultipleValueString new_DataDictionary))) 18 ''1 X''"
proof -
  let ?d = "addFieldValue 18 ''G'' (addFieldValue 18 ''1'' (addFieldType 18 TMultipleValueString new_DataDictionary))"
  have "smap_find (m_fieldValues (dd ?d)) 18 = Some [''1'', ''G'']" "isMultipleValueField ?d 18"
    "tokens ''1 G'' = [''1'', ''G'']" "tokens ''1 X'' = [''1'', ''X'']"
    by (code_simp, code_simp, code_simp, code_simp)
  then show ?thesis unfolding isFieldValue_exact by simp
qed

end
