(* ===== verification/Messages.thy ===== *)
theory Messages
  imports DataDictionaries
begin

text \<open>
  Message.h and Message.cpp: a message as header, body and trailer field maps with the marks
  the decoder leaves, its encoding (\<open>toString\<close>), its decoding (\<open>setString\<close>, \<open>setGroup\<close>,
  \<open>extractField\<close>, \<open>setStringHeader\<close>), the check of BodyLength and CheckSum (\<open>validate\<close>), routing and
  the classification of fields and message types. Positions in the text are offsets. The
  nested loops of the decoder are recursion with fuel; \<open>None\<close> is running out of it. A data
  field whose length reaches the end of the text makes the code read the byte after the
  last one, which for a \<open>std::string\<close> is NUL.
\<close>

section \<open>Definitions\<close>

abbreviation TAG_BeginSeqNo :: int where "TAG_BeginSeqNo \<equiv> 7"
abbreviation TAG_EndSeqNo :: int where "TAG_EndSeqNo \<equiv> 16"
abbreviation TAG_MsgSeqNum :: int where "TAG_MsgSeqNum \<equiv> 34"
abbreviation TAG_NewSeqNo :: int where "TAG_NewSeqNo \<equiv> 36"
abbreviation TAG_PossDupFlag :: int where "TAG_PossDupFlag \<equiv> 43"
abbreviation TAG_RefSeqNum :: int where "TAG_RefSeqNum \<equiv> 45"
abbreviation TAG_SenderCompID :: int where "TAG_SenderCompID \<equiv> 49"
abbreviation TAG_SenderSubID :: int where "TAG_SenderSubID \<equiv> 50"
abbreviation TAG_SendingTime :: int where "TAG_SendingTime \<equiv> 52"
abbreviation TAG_TargetCompID :: int where "TAG_TargetCompID \<equiv> 56"
abbreviation TAG_TargetSubID :: int where "TAG_TargetSubID \<equiv> 57"
abbreviation TAG_Text :: int where "TAG_Text \<equiv> 58"
abbreviation TAG_SecureDataLen :: int where "TAG_SecureDataLen \<equiv> 90"
abbreviation TAG_PossResend :: int where "TAG_PossResend \<equiv> 97"
abbreviation TAG_EncryptMethod :: int where "TAG_EncryptMethod \<equiv> 98"
abbreviation TAG_HeartBtInt :: int where "TAG_HeartBtInt \<equiv> 108"
abbreviation TAG_TestReqID :: int where "TAG_TestReqID \<equiv> 112"
abbreviation TAG_OnBehalfOfCompID :: int where "TAG_OnBehalfOfCompID \<equiv> 115"
abbreviation TAG_OnBehalfOfSubID :: int where "TAG_OnBehalfOfSubID \<equiv> 116"
abbreviation TAG_OrigSendingTime :: int where "TAG_OrigSendingTime \<equiv> 122"
abbreviation TAG_GapFillFlag :: int where "TAG_GapFillFlag \<equiv> 123"
abbreviation TAG_DeliverToCompID :: int where "TAG_DeliverToCompID \<equiv> 128"
abbreviation TAG_DeliverToSubID :: int where "TAG_DeliverToSubID \<equiv> 129"
abbreviation TAG_ResetSeqNumFlag :: int where "TAG_ResetSeqNumFlag \<equiv> 141"
abbreviation TAG_SenderLocationID :: int where "TAG_SenderLocationID \<equiv> 142"
abbreviation TAG_TargetLocationID :: int where "TAG_TargetLocationID \<equiv> 143"
abbreviation TAG_OnBehalfOfLocationID :: int where "TAG_OnBehalfOfLocationID \<equiv> 144"
abbreviation TAG_DeliverToLocationID :: int where "TAG_DeliverToLocationID \<equiv> 145"
abbreviation TAG_XmlDataLen :: int where "TAG_XmlDataLen \<equiv> 212"
abbreviation TAG_XmlData :: int where "TAG_XmlData \<equiv> 213"
abbreviation TAG_MessageEncoding :: int where "TAG_MessageEncoding \<equiv> 347"
abbreviation TAG_LastMsgSeqNumProcessed :: int where "TAG_LastMsgSeqNumProcessed \<equiv> 369"
abbreviation TAG_OnBehalfOfSendingTime :: int where "TAG_OnBehalfOfSendingTime \<equiv> 370"
abbreviation TAG_RefTagID :: int where "TAG_RefTagID \<equiv> 371"
abbreviation TAG_RefMsgType :: int where "TAG_RefMsgType \<equiv> 372"
abbreviation TAG_SessionRejectReason :: int where "TAG_SessionRejectReason \<equiv> 373"
abbreviation TAG_BusinessRejectReason :: int where "TAG_BusinessRejectReason \<equiv> 380"
abbreviation TAG_NoHops :: int where "TAG_NoHops \<equiv> 627"
abbreviation TAG_NextExpectedMsgSeqNum :: int where "TAG_NextExpectedMsgSeqNum \<equiv> 789"
abbreviation TAG_ApplVerID :: int where "TAG_ApplVerID \<equiv> 1128"
abbreviation TAG_CstmApplVerID :: int where "TAG_CstmApplVerID \<equiv> 1129"
abbreviation TAG_DefaultApplVerID :: int where "TAG_DefaultApplVerID \<equiv> 1137"

record Message =
  m_header :: FieldMap
  m_body :: FieldMap
  m_trailer :: FieldMap
  m_validStructure :: bool
  m_tagOutOfOrder :: int
  m_embeddedSOHTag :: int
  m_outOfOrderGroupTag :: int
  m_embeddedSOHSkippedLength :: int
  m_embeddedSOHSkippedChecksum :: int

definition new_Message :: Message where
  "new_Message =
     \<lparr>m_header = mk_FieldMap (message_order_mode mode_header),
      m_body = mk_FieldMap (message_order_mode mode_normal),
      m_trailer = mk_FieldMap (message_order_mode mode_trailer),
      m_validStructure = True, m_tagOutOfOrder = 0, m_embeddedSOHTag = 0,
      m_outOfOrderGroupTag = 0, m_embeddedSOHSkippedLength = 0, m_embeddedSOHSkippedChecksum = 0\<rparr>"

definition Message_clear :: "Message \<Rightarrow> Message" where
  "Message_clear msg =
     \<lparr>m_header = clear (m_header msg), m_body = clear (m_body msg), m_trailer = clear (m_trailer msg),
      m_validStructure = True, m_tagOutOfOrder = 0, m_embeddedSOHTag = 0,
      m_outOfOrderGroupTag = 0, m_embeddedSOHSkippedLength = 0, m_embeddedSOHSkippedChecksum = 0\<rparr>"

text \<open>\<open>strchr\<close> also finds the terminating NUL of its string.\<close>

definition isAdminMsgType :: "string \<Rightarrow> bool" where
  "isAdminMsgType msgType = (length msgType = 1 \<and> hd msgType \<in> set ''0A12345'' \<union> {NUL})"

definition Message_isAdmin :: "Message \<Rightarrow> bool" where
  "Message_isAdmin msg =
     (case getFieldIfSet (m_header msg) TAG_MsgType of None \<Rightarrow> False | Some f \<Rightarrow> isAdminMsgType (m_string f))"

definition Message_isApp :: "Message \<Rightarrow> bool" where
  "Message_isApp msg =
     (case getFieldIfSet (m_header msg) TAG_MsgType of None \<Rightarrow> False | Some f \<Rightarrow> \<not> isAdminMsgType (m_string f))"

definition Message_isEmpty :: "Message \<Rightarrow> bool" where
  "Message_isEmpty msg = (isEmpty (m_header msg) \<and> isEmpty (m_body msg) \<and> isEmpty (m_trailer msg))"

definition toApplVerID :: "string \<Rightarrow> string" where
  "toApplVerID value' =
     (if value' = ''FIX.4.0'' then ''2'' else if value' = ''FIX.4.1'' then ''3''
      else if value' = ''FIX.4.2'' then ''4'' else if value' = ''FIX.4.3'' then ''5''
      else if value' = ''FIX.4.4'' then ''6'' else if value' = ''FIX.5.0'' then ''7''
      else if value' = ''FIX.5.0SP1'' then ''8'' else if value' = ''FIX.5.0SP2'' then ''9''
      else value')"

definition toBeginString :: "string \<Rightarrow> string" where
  "toBeginString applVerID =
     (if applVerID = ''2'' then ''FIX.4.0'' else if applVerID = ''3'' then ''FIX.4.1''
      else if applVerID = ''4'' then ''FIX.4.2'' else if applVerID = ''5'' then ''FIX.4.3''
      else if applVerID = ''6'' then ''FIX.4.4'' else if applVerID = ''7'' then ''FIX.5.0''
      else if applVerID = ''8'' then ''FIX.5.0'' else if applVerID = ''9'' then ''FIX.5.0''
      else [])"

definition header_tags :: "int list" where
  "header_tags = [TAG_BeginString, TAG_BodyLength, TAG_MsgType, TAG_SenderCompID, TAG_TargetCompID,
     TAG_OnBehalfOfCompID, TAG_DeliverToCompID, TAG_SecureDataLen, TAG_MsgSeqNum, TAG_SenderSubID,
     TAG_SenderLocationID, TAG_TargetSubID, TAG_TargetLocationID, TAG_OnBehalfOfSubID,
     TAG_OnBehalfOfLocationID, TAG_DeliverToSubID, TAG_DeliverToLocationID, TAG_PossDupFlag,
     TAG_PossResend, TAG_SendingTime, TAG_OrigSendingTime, TAG_XmlDataLen, TAG_XmlData,
     TAG_MessageEncoding, TAG_LastMsgSeqNumProcessed, TAG_OnBehalfOfSendingTime, TAG_ApplVerID,
     TAG_CstmApplVerID, TAG_NoHops]"

definition isHeaderField_tag :: "int \<Rightarrow> bool" where
  "isHeaderField_tag field = (field \<in> set header_tags)"

definition isHeaderField :: "int \<Rightarrow> DataDictionary option \<Rightarrow> bool" where
  "isHeaderField field pD =
     (if isHeaderField_tag field then True
      else case pD of Some d \<Rightarrow> dd_isHeaderField d field | None \<Rightarrow> False)"

definition isTrailerField_tag :: "int \<Rightarrow> bool" where
  "isTrailerField_tag field = (field = TAG_SignatureLength \<or> field = TAG_Signature \<or> field = TAG_CheckSum)"

definition isTrailerField :: "int \<Rightarrow> DataDictionary option \<Rightarrow> bool" where
  "isTrailerField field pD =
     (if isTrailerField_tag field then True
      else case pD of Some d \<Rightarrow> dd_isTrailerField d field | None \<Rightarrow> False)"

subsection \<open>Encoding\<close>

definition bodyLength :: "int \<Rightarrow> int \<Rightarrow> int \<Rightarrow> Message \<Rightarrow> int" where
  "bodyLength beginStringField bodyLengthField checkSumField msg =
     calculateLength beginStringField bodyLengthField checkSumField (m_header msg) +
     calculateLength beginStringField bodyLengthField checkSumField (m_body msg) +
     calculateLength beginStringField bodyLengthField checkSumField (m_trailer msg)"

definition checkSum :: "int \<Rightarrow> Message \<Rightarrow> int" where
  "checkSum checkSumField msg =
     (calculateTotal checkSumField (m_header msg) + calculateTotal checkSumField (m_body msg) +
      calculateTotal checkSumField (m_trailer msg)) smod 256"

text \<open>\<open>toString\<close> also sets the two fields in the message (header and trailer are mutable).
  \<open>CheckSumConvertor\<close> refuses a value outside 0..255.\<close>

definition Message_toString :: "Message \<Rightarrow> (string \<times> Message) result" where
  "Message_toString msg =
     (let len = bodyLength TAG_BeginString TAG_BodyLength TAG_CheckSum msg;
          msg1 = msg\<lparr>m_header := setField (IntField TAG_BodyLength len) (m_header msg)\<rparr>
      in case CheckSumConvertor_string (checkSum TAG_CheckSum msg1) of
           None \<Rightarrow> Throw FieldConvertError
         | Some c \<Rightarrow>
             let msg2 = msg1\<lparr>m_trailer := setField (mk_FieldBase TAG_CheckSum c) (m_trailer msg1)\<rparr>
             in Ok (calculateString (m_header msg2) @ calculateString (m_body msg2) @
                    calculateString (m_trailer msg2), msg2))"

subsection \<open>Routing\<close>

text \<open>\<open>if (from.getFieldIfSet(F) && F.getValue().size()) to.setField(G(F))\<close>.\<close>

definition copy_if_set :: "FieldMap \<Rightarrow> int \<Rightarrow> int \<Rightarrow> FieldMap \<Rightarrow> FieldMap" where
  "copy_if_set from' F G to =
     (case getFieldIfSet from' F of
        None \<Rightarrow> to
      | Some f \<Rightarrow> if m_string f \<noteq> [] then setField (mk_FieldBase G (m_string f)) to else to)"

definition reverseRoute :: "FieldMap \<Rightarrow> Message \<Rightarrow> Message" where
  "reverseRoute header msg =
     (let h = fold removeField [TAG_BeginString, TAG_SenderCompID, TAG_TargetCompID] (m_header msg);
          h = (case getFieldIfSet header TAG_BeginString of
                 None \<Rightarrow> h
               | Some b \<Rightarrow>
                   let h = copy_if_set header TAG_BeginString TAG_BeginString h;
                       h = fold removeField [TAG_OnBehalfOfLocationID, TAG_DeliverToLocationID] h
                   in if m_string b \<ge> ''FIX.4.1'' then
                        copy_if_set header TAG_DeliverToLocationID TAG_OnBehalfOfLocationID
                          (copy_if_set header TAG_OnBehalfOfLocationID TAG_DeliverToLocationID h)
                      else h);
          h = copy_if_set header TAG_SenderCompID TAG_TargetCompID h;
          h = copy_if_set header TAG_TargetCompID TAG_SenderCompID h;
          h = fold removeField [TAG_OnBehalfOfCompID, TAG_OnBehalfOfSubID, TAG_DeliverToCompID, TAG_DeliverToSubID] h;
          h = copy_if_set header TAG_OnBehalfOfCompID TAG_DeliverToCompID h;
          h = copy_if_set header TAG_OnBehalfOfSubID TAG_DeliverToSubID h;
          h = copy_if_set header TAG_DeliverToCompID TAG_OnBehalfOfCompID h;
          h = copy_if_set header TAG_DeliverToSubID TAG_OnBehalfOfSubID h
      in msg\<lparr>m_header := h\<rparr>)"

subsection \<open>Decoding\<close>

definition IsDataField :: "int \<Rightarrow> DataDictionary option \<Rightarrow> DataDictionary option \<Rightarrow> bool" where
  "IsDataField field pSessionDD pAppDD =
     ((case pSessionDD of Some d \<Rightarrow> isDataField d field | None \<Rightarrow> False) \<or>
      (case pAppDD of Some d \<Rightarrow> isDataField d field | None \<Rightarrow> False))"

text \<open>Where the value of a data field ends, from the length field that precedes it.\<close>

definition data_field_end :: "string \<Rightarrow> int \<Rightarrow> nat \<Rightarrow> DataDictionary option \<Rightarrow> FieldMap option \<Rightarrow> Message \<Rightarrow> nat result" where
  "data_field_end str field valueStart pSessionDD pGroup msg =
     (let lenField = (if field = TAG_Signature then TAG_SignatureLength else field - 1);
          location = (case pGroup of
              Some g \<Rightarrow> g
            | None \<Rightarrow> if isHeaderField lenField pSessionDD then m_header msg
                      else if isTrailerField lenField pSessionDD then m_trailer msg
                      else m_body msg)
      in case reverse_find location lenField of
           Inl e \<Rightarrow> Throw InvalidMessage
         | Inr fieldLength \<Rightarrow>
             (case int_convert signed_int (m_string fieldLength) of
                None \<Rightarrow> Throw InvalidMessage
              | Some dataLen \<Rightarrow>
                  if dataLen < 0 \<or> int valueStart + dataLen > int (length str) then Throw InvalidMessage
                  else Ok (valueStart + nat dataLen)))"

definition substr :: "string \<Rightarrow> nat \<Rightarrow> nat \<Rightarrow> string" where
  "substr s i j = take (j - i) (drop i s)"

text \<open>A token without an equal sign, left over from a value with an embedded SOH.\<close>

definition skip_orphan :: "string \<Rightarrow> nat \<Rightarrow> nat \<Rightarrow> int \<Rightarrow> Message \<Rightarrow> Message" where
  "skip_orphan str pos orphanEnd precedingTag msg =
     msg\<lparr>m_embeddedSOHTag := (if m_embeddedSOHTag msg = 0 then precedingTag else m_embeddedSOHTag msg),
         m_embeddedSOHSkippedLength := m_embeddedSOHSkippedLength msg + int (orphanEnd - pos),
         m_embeddedSOHSkippedChecksum :=
           m_embeddedSOHSkippedChecksum msg + int (byte_sum (substr str pos orphanEnd))\<rparr>"

text \<open>The field at \<open>pos\<close> whose equal sign and first SOH are known.\<close>

definition extract_at ::
  "string \<Rightarrow> nat \<Rightarrow> nat \<Rightarrow> nat \<Rightarrow> DataDictionary option \<Rightarrow> DataDictionary option \<Rightarrow> FieldMap option \<Rightarrow> Message
   \<Rightarrow> (FieldBase \<times> nat \<times> Message) result" where
  "extract_at str pos equalSign fieldEnd pSessionDD pAppDD pGroup msg =
     (case int_convert signed_int (substr str pos equalSign) of
        None \<Rightarrow> Throw InvalidMessage
      | Some field \<Rightarrow>
          let valueStart = equalSign + 1 in
          rbind (if IsDataField field pSessionDD pAppDD
                 then data_field_end str field valueStart pSessionDD pGroup msg
                 else Ok fieldEnd) (\<lambda>soh.
          let tagEnd = soh + 1;
              value' = substr str valueStart soh;
              received = mk_FieldBase_raw field value' (substr (str @ [NUL]) pos tagEnd)
          in if (str ! pos = CHR ''0'' \<and> equalSign - pos > 1) \<or> str ! pos = CHR ''-''
             then let canonical = mk_FieldBase field value' in
               Ok (canonical, tagEnd, msg\<lparr>
                 m_embeddedSOHSkippedLength :=
                   m_embeddedSOHSkippedLength msg + (getLength received - getLength canonical),
                 m_embeddedSOHSkippedChecksum :=
                   m_embeddedSOHSkippedChecksum msg + (getTotal received - getTotal canonical)\<rparr>)
             else Ok (received, tagEnd, msg)))"

function extractField ::
  "string \<Rightarrow> nat \<Rightarrow> DataDictionary option \<Rightarrow> DataDictionary option \<Rightarrow> FieldMap option \<Rightarrow> int \<Rightarrow> Message
   \<Rightarrow> (FieldBase \<times> nat \<times> Message) result" where
  "extractField str pos pSessionDD pAppDD pGroup precedingTag msg =
     (let fieldEnd = pos + find_char SOH (drop pos str);
          equalSign = pos + find_char (CHR ''='') (substr str pos fieldEnd)
      in if fieldEnd \<ge> length str then Throw InvalidMessage
         else if equalSign = fieldEnd then
           (if fieldEnd + 1 \<ge> length str then Throw InvalidMessage
            else extractField str (fieldEnd + 1) pSessionDD pAppDD pGroup precedingTag
                   (skip_orphan str pos (fieldEnd + 1) precedingTag msg))
         else extract_at str pos equalSign fieldEnd pSessionDD pAppDD pGroup msg)"
  by auto
termination
  by (relation "measure (\<lambda>(str, pos, s, a, g, t, m). length str - pos)") auto

declare extractField.simps [simp del]

text \<open>One member of the group \<open>grp\<close>: either the group is over, or the member \<open>field\<close> goes into
  the instance \<open>g\<close> and the loop continues behind it. The loop state is the open instance, whether the
  first member is still to come, and the member found in the place of the delimiter.\<close>

datatype group_action =
    GroupDone nat FieldMap Message
  | GroupMember FieldBase FieldMap int nat FieldMap Message

definition group_member ::
  "int \<Rightarrow> int \<Rightarrow> DataDictionary \<Rightarrow> FieldMap option \<Rightarrow> bool \<Rightarrow> int \<Rightarrow> nat \<Rightarrow> FieldMap
   \<Rightarrow> FieldBase \<Rightarrow> nat \<Rightarrow> Message \<Rightarrow> group_action" where
  "group_member grp delim pDD pGroup firstMember candidate oldPos m field pos msg =
     (let tag = m_tag field;
          groupField = isField pDD tag;
          confirmed = (\<not> firstMember \<and> candidate \<noteq> 0 \<and> tag = delim);
          candidate' = (if firstMember then (if tag \<noteq> delim \<and> groupField then tag else candidate)
                        else if confirmed then 0 else candidate);
          msg' = (if confirmed \<and> m_outOfOrderGroupTag msg = 0
                  then msg\<lparr>m_outOfOrderGroupTag := candidate\<rparr> else msg);
          flush = (case pGroup of None \<Rightarrow> m | Some g \<Rightarrow> addGroupPtr grp g False m);
          startNew = (tag = delim \<or>
            groupField \<and> (case pGroup of None \<Rightarrow> True | Some g \<Rightarrow> isSetField g tag))
      in if startNew then GroupMember field (mk_FieldMap (getOrderedFields pDD)) candidate' pos flush msg'
         else if \<not> groupField then GroupDone oldPos flush msg'
         else case pGroup of
             None \<Rightarrow> GroupDone pos m msg'
           | Some g \<Rightarrow> GroupMember field g candidate' pos m msg')"

function (sequential) setGroup_loop ::
  "nat \<Rightarrow> string \<Rightarrow> int \<Rightarrow> int \<Rightarrow> DataDictionary \<Rightarrow> DataDictionary \<Rightarrow> string
   \<Rightarrow> FieldMap option \<Rightarrow> int \<Rightarrow> bool \<Rightarrow> int \<Rightarrow> nat \<Rightarrow> FieldMap \<Rightarrow> Message
   \<Rightarrow> (nat \<times> FieldMap \<times> Message) result option"
and setGroup ::
  "nat \<Rightarrow> string \<Rightarrow> FieldBase \<Rightarrow> string \<Rightarrow> nat \<Rightarrow> FieldMap \<Rightarrow> DataDictionary \<Rightarrow> Message
   \<Rightarrow> (nat \<times> FieldMap \<times> Message) result option" where
  "setGroup_loop fuel msgType grp delim dataDictionary pDD str pGroup precedingTag firstMember candidate pos m msg =
     (if fuel = 0 then None
      else if pos \<ge> length str
      then Some (Ok (pos, m, msg))
      else case extractField str pos (Some dataDictionary) (Some dataDictionary) pGroup precedingTag msg of
        Inl e \<Rightarrow> Some (Throw e)
      | Inr (field, pos', msg1) \<Rightarrow>
          (case group_member grp delim pDD pGroup firstMember candidate pos m field pos' msg1 of
             GroupDone p m' msg' \<Rightarrow> Some (Ok (p, m', msg'))
           | GroupMember f g candidate' p m' msg' \<Rightarrow>
               (case setGroup (fuel - 1) msgType f str p (addField f g) pDD msg' of
                  None \<Rightarrow> None
                | Some (Inl e) \<Rightarrow> Some (Throw e)
                | Some (Inr (p', g', msg'')) \<Rightarrow>
                    setGroup_loop (fuel - 1) msgType grp delim dataDictionary pDD str (Some g') (m_tag f) False
                      candidate' p' m' msg'')))"
| "setGroup fuel msgType field str pos m dataDictionary msg =
     (if fuel = 0 then None
      else case getGroup dataDictionary msgType (m_tag field) of
        None \<Rightarrow> Some (Ok (pos, m, msg))
      | Some (delim, pDD) \<Rightarrow>
          setGroup_loop (fuel - 1) msgType (m_tag field) delim dataDictionary pDD str None (m_tag field) True 0 pos m msg)"
  by pat_completeness auto
termination
  by (relation "measure (\<lambda>x. case x of
        Inl (fuel, a, b, c, d, e, f, g, h, i, j, k, l, m) \<Rightarrow> fuel
      | Inr (fuel, a, b, c, d, e, f, g) \<Rightarrow> fuel)") auto

declare setGroup_loop.simps [simp del] setGroup.simps [simp del]

text \<open>Every step of the decoder consumes text, so twice its length is fuel enough.\<close>

definition decode_fuel :: "string \<Rightarrow> nat" where
  "decode_fuel str = 2 * length str + 2"

datatype field_type = ft_header | ft_body | ft_trailer

definition headerOrder :: "int list" where
  "headerOrder = [TAG_BeginString, TAG_BodyLength, TAG_MsgType]"

text \<open>The loop state of \<open>setString\<close> besides position and message.\<close>

record decode_state =
  ds_count :: nat
  ds_type :: field_type
  ds_precedingTag :: int
  ds_msgType :: string
  ds_appDD :: "DataDictionary option"

text \<open>A field in the wrong part of the message: the first one is remembered.\<close>

definition mark_misplaced :: "int \<Rightarrow> Message \<Rightarrow> Message" where
  "mark_misplaced tag msg =
     msg\<lparr>m_tagOutOfOrder := (if m_tagOutOfOrder msg = 0 then tag else m_tagOutOfOrder msg),
         m_validStructure := False\<rparr>"

definition place_field ::
  "string \<Rightarrow> DataDictionary option \<Rightarrow> decode_state \<Rightarrow> FieldBase \<Rightarrow> nat \<Rightarrow> Message
   \<Rightarrow> (nat \<times> decode_state \<times> Message) result option" where
  "place_field str pSessionDD st field pos msg =
     (if isHeaderField (m_tag field) pSessionDD then
        (let msg1 = (if ds_type st \<noteq> ft_header then mark_misplaced (m_tag field) msg else msg);
             st1 = (if m_tag field = TAG_MsgType
                    then st\<lparr>ds_msgType := m_string field,
                            ds_appDD := (if isAdminMsgType (m_string field) then pSessionDD else ds_appDD st)\<rparr>
                    else st);
             msg2 = msg1\<lparr>m_header := appendField field (m_header msg1)\<rparr>
         in map_option (\<lambda>r. rbind r (\<lambda>(p, m, msg3). Ok (p, st1, msg3\<lparr>m_header := m\<rparr>)))
              (case pSessionDD of
                 None \<Rightarrow> Some (Ok (pos, m_header msg2, msg2))
               | Some d \<Rightarrow> setGroup (decode_fuel str) ''_header_'' field str pos (m_header msg2) d msg2))
      else if isTrailerField (m_tag field) pSessionDD then
        (let st1 = st\<lparr>ds_type := ft_trailer\<rparr>;
             msg2 = msg\<lparr>m_trailer := appendField field (m_trailer msg)\<rparr>
         in map_option (\<lambda>r. rbind r (\<lambda>(p, m, msg3). Ok (p, st1, msg3\<lparr>m_trailer := m\<rparr>)))
              (case pSessionDD of
                 None \<Rightarrow> Some (Ok (pos, m_trailer msg2, msg2))
               | Some d \<Rightarrow> setGroup (decode_fuel str) ''_trailer_'' field str pos (m_trailer msg2) d msg2))
      else
        (let msg1 = (if ds_type st = ft_trailer then mark_misplaced (m_tag field) msg else msg);
             st1 = st\<lparr>ds_type := ft_body\<rparr>;
             msg2 = msg1\<lparr>m_body := appendField field (m_body msg1)\<rparr>
         in map_option (\<lambda>r. rbind r (\<lambda>(p, m, msg3). Ok (p, st1, msg3\<lparr>m_body := m\<rparr>)))
              (case ds_appDD st of
                 None \<Rightarrow> Some (Ok (pos, m_body msg2, msg2))
               | Some d \<Rightarrow> setGroup (decode_fuel str) (ds_msgType st) field str pos (m_body msg2) d msg2)))"

function setString_loop ::
  "nat \<Rightarrow> string \<Rightarrow> bool \<Rightarrow> DataDictionary option \<Rightarrow> decode_state \<Rightarrow> nat \<Rightarrow> Message
   \<Rightarrow> Message result option" where
  "setString_loop fuel str doValidation pSessionDD st pos msg =
     (if fuel = 0 then None
      else if pos \<ge> length str then Some (Ok msg)
      else case extractField str pos pSessionDD (ds_appDD st) None (ds_precedingTag st) msg of
        Inl e \<Rightarrow> Some (Throw e)
      | Inr (field, pos', msg1) \<Rightarrow>
          let misplaced = (ds_count st < 3 \<and> headerOrder ! ds_count st \<noteq> m_tag field);
              st1 = st\<lparr>ds_precedingTag := m_tag field,
                       ds_count := (if ds_count st < 3 then ds_count st + 1 else ds_count st)\<rparr>
          in if misplaced \<and> doValidation then Some (Throw InvalidMessage)
             else case place_field str pSessionDD st1 field pos' msg1 of
               None \<Rightarrow> None
             | Some (Inl e) \<Rightarrow> Some (Throw e)
             | Some (Inr (pos'', st2, msg2)) \<Rightarrow>
                 setString_loop (fuel - 1) str doValidation pSessionDD st2 pos'' msg2)"
  by auto
termination by (relation "measure (\<lambda>(fuel, a, b, c, d, e, f). fuel)") auto

declare setString_loop.simps [simp del]

definition sort_all :: "Message \<Rightarrow> Message" where
  "sort_all msg = msg\<lparr>m_header := sortFields (m_header msg), m_body := sortFields (m_body msg),
     m_trailer := sortFields (m_trailer msg)\<rparr>"

text \<open>\<open>validate\<close> compares BodyLength (converted to \<open>size_t\<close>) and CheckSum with what was received.\<close>

definition Message_validate :: "Message \<Rightarrow> unit result" where
  "Message_validate msg =
     (case rbind (getFieldRef (m_header msg) TAG_BodyLength) IntField_valueOf of
        Inl e \<Rightarrow> Throw InvalidMessage
      | Inr expectedLength \<Rightarrow>
          if expectedLength mod 2 ^ 64 \<noteq>
             (bodyLength TAG_BeginString TAG_BodyLength TAG_CheckSum msg mod 2 ^ 64 +
              m_embeddedSOHSkippedLength msg mod 2 ^ 64) mod 2 ^ 64
          then Throw InvalidMessage
          else case rbind (getFieldRef (m_trailer msg) TAG_CheckSum) CheckSumField_valueOf of
              Inl e \<Rightarrow> Throw InvalidMessage
            | Inr expectedChecksum \<Rightarrow>
                if expectedChecksum \<noteq> (checkSum TAG_CheckSum msg + m_embeddedSOHSkippedChecksum msg) smod 256
                then Throw InvalidMessage else Ok ())"

definition setString ::
  "string \<Rightarrow> bool \<Rightarrow> DataDictionary option \<Rightarrow> DataDictionary option \<Rightarrow> Message \<Rightarrow> Message result option" where
  "setString str doValidation pSessionDD pAppDD msg =
     map_option (\<lambda>r. rbind r (\<lambda>m.
       let m' = sort_all m in
       if doValidation then rbind (Message_validate m') (\<lambda>_. Ok m') else Ok m'))
     (setString_loop (length str + 1) str doValidation pSessionDD
       \<lparr>ds_count = 0, ds_type = ft_header, ds_precedingTag = 0, ds_msgType = [], ds_appDD = pAppDD\<rparr>
       0 (Message_clear msg))"

text \<open>\<open>setStringHeader\<close>: the header fields up to the first other field; \<open>False\<close> when the first
  three are not in place (the fields read so far are then left unsorted).\<close>

function setStringHeader_loop :: "nat \<Rightarrow> string \<Rightarrow> nat \<Rightarrow> nat \<Rightarrow> Message \<Rightarrow> (bool \<times> Message) result option" where
  "setStringHeader_loop fuel str cnt pos msg =
     (if fuel = 0 then None
      else if pos \<ge> length str then Some (Ok (True, msg\<lparr>m_header := sortFields (m_header msg)\<rparr>))
      else case extractField str pos None None None 0 msg of
        Inl e \<Rightarrow> Some (Throw e)
      | Inr (field, pos', msg1) \<Rightarrow>
          if cnt < 3 \<and> headerOrder ! cnt \<noteq> m_tag field then Some (Ok (False, msg1))
          else if isHeaderField (m_tag field) None
          then setStringHeader_loop (fuel - 1) str (if cnt < 3 then cnt + 1 else cnt) pos'
                 (msg1\<lparr>m_header := appendField field (m_header msg1)\<rparr>)
          else Some (Ok (True, msg1\<lparr>m_header := sortFields (m_header msg1)\<rparr>)))"
  by auto
termination by (relation "measure (\<lambda>(fuel, a, b, c, d). fuel)") auto

declare setStringHeader_loop.simps [simp del]

definition setStringHeader :: "string \<Rightarrow> Message \<Rightarrow> (bool \<times> Message) result option" where
  "setStringHeader str msg = setStringHeader_loop (length str + 1) str 0 0 (Message_clear msg)"

definition identifyType :: "string \<Rightarrow> string result" where
  "identifyType message =
     (case str_find ([SOH] @ ''35='') message 0 of
        None \<Rightarrow> Throw MessageParseError
      | Some pos \<Rightarrow>
          let startValue = pos + 4 in
          (case str_find [SOH] message startValue of
             None \<Rightarrow> Throw MessageParseError
           | Some soh \<Rightarrow> Ok (substr message startValue soh)))"

end
