(* ===== verification/MessageEncoding.thy ===== *)
theory MessageEncoding
  imports Messages
begin

text \<open>
  What \<open>Message::toString\<close> puts on the wire: the frame of a FIX message, with the BodyLength and
  CheckSum a receiver will compute.
\<close>

section \<open>First and last fields of a sorted map\<close>

lemma sorted_first:
  assumes s: "sorted_tags less' fs" and d: "distinct (map m_tag fs)" and t: "t \<in> m_tag ` set fs"
    and least: "\<And>x. x \<in> m_tag ` set fs \<Longrightarrow> x \<noteq> t \<Longrightarrow> less' t x"
  obtains f r where "fs = f # r" "m_tag f = t"
proof (cases fs)
  case (Cons f r)
  have "m_tag f = t"
  proof (rule ccontr)
    assume ne: "m_tag f \<noteq> t"
    with t Cons obtain g where "g \<in> set r" "m_tag g = t" by auto
    with s Cons have "\<not> less' t (m_tag f)" by auto
    with least [of "m_tag f"] ne Cons show False by auto
  qed
  with Cons that show thesis by blast
qed (use t in simp)

lemma sorted_last:
  assumes s: "sorted_tags less' fs" and d: "distinct (map m_tag fs)" and t: "t \<in> m_tag ` set fs"
    and greatest: "\<And>x. x \<in> m_tag ` set fs \<Longrightarrow> x \<noteq> t \<Longrightarrow> less' x t"
  obtains f r where "fs = r @ [f]" "m_tag f = t"
proof (cases fs rule: rev_cases)
  case (snoc r f)
  have "m_tag f = t"
  proof (rule ccontr)
    assume ne: "m_tag f \<noteq> t"
    with t snoc obtain g where "g \<in> set r" "m_tag g = t" by auto
    with s snoc have "\<not> less' (m_tag f) t" by (auto simp: sorted_tags_def sorted_wrt_append)
    with greatest [of "m_tag f"] ne snoc show False by auto
  qed
  with snoc that show thesis by blast
qed (use t in simp)

text \<open>The text of some fields of a map, with the groups under them.\<close>

definition fields_text :: "FieldMap \<Rightarrow> FieldBase list \<Rightarrow> string" where
  "fields_text m fs = concat (map (\<lambda>field. getFixString field @
     (case smap_find (m_groups m) (m_tag field) of None \<Rightarrow> [] | Some gs \<Rightarrow> concat (map calculateString gs))) fs)"

lemma calculateString_text: "calculateString m = fields_text m (m_fields m)"
  unfolding fields_text_def by (rule calculateString.simps)

lemma fields_text_simps [simp]:
  "fields_text m [] = []"
  "fields_text m (f # g # fs) = fields_text m [f] @ fields_text m (g # fs)"
  "fields_text m (fs @ gs) = fields_text m fs @ fields_text m gs"
  by (simp_all add: fields_text_def)

lemma fields_text_Cons: "fields_text m (f # fs) = fields_text m [f] @ fields_text m fs"
  by (simp add: fields_text_def)

lemma fields_text_plain:
  "smap_find (m_groups m) (m_tag f) = None \<Longrightarrow> fields_text m [f] = getFixString f"
  by (simp add: fields_text_def)

text \<open>Every field ends with SOH, so every text of fields does.\<close>

lemma fix_string_ends: "last (getFixString f) = SOH" "getFixString f \<noteq> []"
  by (simp_all add: getFixString_eq)

lemma concat_ends: "\<forall>x\<in>set xs. x = [] \<or> last x = c \<Longrightarrow> concat xs = [] \<or> last (concat xs) = c"
  by (induction xs rule: rev_induct) (auto simp: last_append)

lemma calculateString_ends: "calculateString m = [] \<or> last (calculateString m) = SOH"
proof (induction m rule: calculateString.induct)
  case (1 m)
  have "concat (map calculateString gs) = [] \<or> last (concat (map calculateString gs)) = SOH"
    if "f \<in> set (m_fields m)" "smap_find (m_groups m) (m_tag f) = Some gs" for f gs
    using 1 [OF that] by (intro concat_ends) auto
  then show ?case
    unfolding calculateString.simps [of m]
    by (intro concat_ends) (auto simp: fix_string_ends last_append split: option.split)
qed

lemma fields_text_ends: "fields_text m fs = [] \<or> last (fields_text m fs) = SOH"
proof -
  have "concat (map calculateString gs) = [] \<or> last (concat (map calculateString gs)) = SOH" for gs
    by (rule concat_ends) (auto simp: calculateString_ends)
  then show ?thesis
    unfolding fields_text_def by (intro concat_ends) (auto simp: fix_string_ends last_append split: option.split)
qed

section \<open>Messages that can be sent\<close>

text \<open>A message assembled through the message interface: parts in their own orders, no
  repeated tags, framing fields only where they belong and not as group counts, and a BeginString.\<close>

definition sendable :: "Message \<Rightarrow> bool" where
  "sendable msg =
     (map_ok (m_header msg) \<and> map_ok (m_body msg) \<and> map_ok (m_trailer msg) \<and>
      encodable (m_header msg) \<and> encodable (m_body msg) \<and> encodable (m_trailer msg) \<and>
      m_mode (m_order (m_header msg)) = mode_header \<and> m_mode (m_order (m_trailer msg)) = mode_trailer \<and>
      8 \<in> m_tag ` set (m_fields (m_header msg)) \<and> 10 \<notin> m_tag ` set (m_fields (m_header msg)) \<and>
      {8, 9, 10} \<inter> m_tag ` set (m_fields (m_body msg)) = {} \<and>
      {8, 9} \<inter> m_tag ` set (m_fields (m_trailer msg)) = {} \<and>
      smap_find (m_groups (m_header msg)) 8 = None \<and> smap_find (m_groups (m_header msg)) 9 = None \<and>
      smap_find (m_groups (m_trailer msg)) 10 = None)"

lemma header_frame:
  assumes ok: "map_ok h" "distinct_tags h" "m_mode (m_order h) = mode_header"
    and t: "8 \<in> m_tag ` set (m_fields h)" "9 \<in> m_tag ` set (m_fields h)"
  obtains b l r where "m_fields h = b # l # r" "m_tag b = 8" "m_tag l = 9"
proof -
  have less: "order_compare (m_order h) = header_order_compare" using ok(3) by (simp add: order_compare_def fun_eq_iff)
  have s: "sorted_tags header_order_compare (m_fields h)" using ok(1) less by (simp add: map_ok_def)
  have d: "distinct (map m_tag (m_fields h))" using ok(2) by (simp add: distinct_tags_def)
  obtain b fs where b: "m_fields h = b # fs" "m_tag b = 8"
    by (rule sorted_first [OF s d t(1)])
      (auto simp: header_order_compare_def compare_positions_def header_getOrderedPosition_def)
  obtain l r where "fs = l # r" "m_tag l = 9"
  proof (rule sorted_first [of header_order_compare fs 9])
    show "sorted_tags header_order_compare fs" "distinct (map m_tag fs)" "9 \<in> m_tag ` set fs"
      using s d t(2) b by auto
    show "header_order_compare 9 x" if "x \<in> m_tag ` set fs" "x \<noteq> 9" for x
      using that d b by (auto simp: header_order_compare_def compare_positions_def header_getOrderedPosition_def)
  qed
  with b that show thesis by blast
qed

lemma trailer_frame:
  assumes ok: "map_ok h" "distinct_tags h" "m_mode (m_order h) = mode_trailer"
    and t: "10 \<in> m_tag ` set (m_fields h)"
  obtains c r where "m_fields h = r @ [c]" "m_tag c = 10"
proof -
  have less: "order_compare (m_order h) = trailer_order_compare" using ok(3) by (simp add: order_compare_def fun_eq_iff)
  have s: "sorted_tags trailer_order_compare (m_fields h)" using ok(1) less by (simp add: map_ok_def)
  have d: "distinct (map m_tag (m_fields h))" using ok(2) by (simp add: distinct_tags_def)
  show thesis
    by (rule sorted_last [OF s d t]) (auto simp: trailer_order_compare_def intro: that)
qed

section \<open>Length and total do not see the framing fields\<close>

lemma filter_update_excluded:
  "i < length xs \<Longrightarrow> \<not> p (xs ! i) \<Longrightarrow> \<not> p y \<Longrightarrow> filter p (xs[i := y]) = filter p xs"
  by (induction xs arbitrary: i) (auto split: nat.split simp: nth_Cons')

lemma filter_setField_excluded:
  assumes "map_ok m" "int32 (m_tag f)" and p: "\<And>g. m_tag g = m_tag f \<Longrightarrow> \<not> p g"
  shows "filter p (m_fields (setField f m)) = filter p (m_fields m)"
  using assms(1,2)
proof (cases rule: setField_fields_cases)
  case (old i)
  then show ?thesis using p by (simp add: filter_update_excluded field_setString_def)
qed (use p in simp)

lemma calculateLength_setField:
  "map_ok m \<Longrightarrow> int32 (m_tag f) \<Longrightarrow> m_tag f \<in> {b, l, c} \<Longrightarrow>
   calculateLength b l c (setField f m) = calculateLength b l c m"
  by (subst (1 2) calculateLength.simps) (subst filter_setField_excluded, auto)

lemma calculateTotal_setField:
  "map_ok m \<Longrightarrow> int32 (m_tag f) \<Longrightarrow> m_tag f = c \<Longrightarrow> calculateTotal c (setField f m) = calculateTotal c m"
  by (subst (1 2) calculateTotal.simps) (subst filter_setField_excluded, auto)

lemma tag_int32 [simp]: "int32 8" "int32 9" "int32 10" "int32 35"
  by (simp_all add: int32_def)

lemma filter_tags_none: "S \<inter> m_tag ` set fs = {} \<Longrightarrow> filter (\<lambda>f. m_tag f \<in> S) fs = []"
  by (auto simp: filter_empty_conv)

lemma encodable_simps:
  assumes "encodable m"
  shows "distinct_tags m"
  using assms by (simp add: encodable.simps [of m])

lemma header_measures:
  assumes e: "encodable h" and f: "m_fields h = b # l # r" "m_tag b = 8" "m_tag l = 9"
    and n: "10 \<notin> m_tag ` set (m_fields h)" and g: "smap_find (m_groups h) 8 = None" "smap_find (m_groups h) 9 = None"
  shows "calculateString h = getFixString b @ getFixString l @ fields_text h r"
    "calculateLength 8 9 10 h = int (length (fields_text h r))"
    "calculateTotal 10 h = int (byte_sum (calculateString h))"
proof -
  show str: "calculateString h = getFixString b @ getFixString l @ fields_text h r"
    using f g by (simp add: calculateString_text fields_text_plain fields_text_Cons [of h l r])
  have "8 \<notin> m_tag ` set r" "9 \<notin> m_tag ` set r" "10 \<notin> m_tag ` set r"
    using encodable_simps [OF e] f n by (simp_all add: distinct_tags_def)
  then have "filter (\<lambda>f. m_tag f \<in> {8, 9, 10}) r = []" by (intro filter_tags_none) simp
  then have "filter (\<lambda>f. m_tag f \<in> {8, 9, 10}) (m_fields h) = [b, l]" using f by simp
  with calculateLength_encoding [OF e, of 8 9 10] str
  show "calculateLength 8 9 10 h = int (length (fields_text h r))" by (simp del: getFixString_eq)
  have "filter (\<lambda>f. m_tag f = 10) (m_fields h) = []" using n by (auto simp: filter_empty_conv)
  with calculateTotal_encoding [OF e, of 10]
  show "calculateTotal 10 h = int (byte_sum (calculateString h))" by simp
qed

lemma body_measures:
  assumes e: "encodable m" and n: "{8, 9, 10} \<inter> m_tag ` set (m_fields m) = {}"
  shows "calculateLength 8 9 10 m = int (length (calculateString m))"
    "calculateTotal 10 m = int (byte_sum (calculateString m))"
proof -
  have "filter (\<lambda>f. m_tag f \<in> {8, 9, 10}) (m_fields m) = []" "filter (\<lambda>f. m_tag f = 10) (m_fields m) = []"
    using n by (auto simp: filter_empty_conv)
  with calculateLength_encoding [OF e, of 8 9 10] calculateTotal_encoding [OF e, of 10]
  show "calculateLength 8 9 10 m = int (length (calculateString m))"
    "calculateTotal 10 m = int (byte_sum (calculateString m))" by simp_all
qed

lemma trailer_measures:
  assumes e: "encodable t" and f: "m_fields t = r @ [c]" "m_tag c = 10"
    and n: "{8, 9} \<inter> m_tag ` set (m_fields t) = {}" and g: "smap_find (m_groups t) 10 = None"
  shows "calculateString t = fields_text t r @ getFixString c"
    "calculateLength 8 9 10 t = int (length (fields_text t r))"
    "calculateTotal 10 t = int (byte_sum (fields_text t r))"
proof -
  show str: "calculateString t = fields_text t r @ getFixString c"
    using f g by (simp add: calculateString_text fields_text_plain)
  have d: "10 \<notin> m_tag ` set r" using encodable_simps [OF e] f by (auto simp: distinct_tags_def)
  have "8 \<notin> m_tag ` set r" "9 \<notin> m_tag ` set r" using f n by simp_all
  with d have "filter (\<lambda>f. m_tag f \<in> {8, 9, 10}) r = []" by (intro filter_tags_none) simp
  moreover have "filter (\<lambda>f. m_tag f = 10) r = []" using filter_tags_none [of "{10}" r] d by simp
  ultimately have "filter (\<lambda>f. m_tag f \<in> {8, 9, 10}) (m_fields t) = [c]" "filter (\<lambda>f. m_tag f = 10) (m_fields t) = [c]"
    using f by simp_all
  with calculateLength_encoding [OF e, of 8 9 10] calculateTotal_encoding [OF e, of 10] str
  show "calculateLength 8 9 10 t = int (length (fields_text t r))"
    "calculateTotal 10 t = int (byte_sum (fields_text t r))" by simp_all
qed

section \<open>The frame\<close>

text \<open>\<open>8=b|9=n|rest|10=ccc|\<close>, \<open>n\<close> the length of \<open>rest\<close> and \<open>ccc\<close> the byte sum before it.\<close>

definition framed :: "string \<Rightarrow> string \<Rightarrow> bool" where
  "framed beginString w =
     (\<exists>rest c. w = ''8='' @ beginString @ [SOH] @ ''9='' @ decimal (int (length rest)) @ [SOH] @ rest @
         ''10='' @ c @ [SOH] \<and>
       (rest = [] \<or> last rest = SOH) \<and> length c = 3 \<and>
       CheckSumConvertor_convert c = Some (int (byte_sum
         (''8='' @ beginString @ [SOH] @ ''9='' @ decimal (int (length rest)) @ [SOH] @ rest)) mod 256))"

lemma decimal_tags [simp]: "decimal 8 = ''8''" "decimal 9 = ''9''" "decimal 10 = ''10''"
  by (code_simp, code_simp, code_simp)

lemma header_with_length:
  fixes n :: int
  assumes s: "sendable msg" and b: "field_value (m_header msg) 8 = Some b"
  defines "h \<equiv> setField (IntField 9 n) (m_header msg)"
  obtains hr where "calculateString h = ''8='' @ b @ [SOH] @ ''9='' @ decimal n @ [SOH] @ fields_text h hr"
    "calculateLength 8 9 10 (m_header msg) = int (length (fields_text h hr))"
    "calculateTotal 10 h = int (byte_sum (calculateString h))"
proof -
  have hok: "map_ok (m_header msg)" "encodable (m_header msg)" using s by (simp_all add: sendable_def)
  have i9: "int32 (m_tag (IntField 9 n))" by simp
  have h: "map_ok h" "encodable h" "distinct_tags h"
    unfolding h_def using hok fields.ok_put encodable_setField setField_tags(2) encodable_simps by simp_all
  have ht: "m_tag ` set (m_fields h) = insert 9 (m_tag ` set (m_fields (m_header msg)))"
    unfolding h_def using setField_tags(1) [OF hok(1) i9] by simp
  have hm: "m_mode (m_order h) = mode_header" "smap_find (m_groups h) 8 = None" "smap_find (m_groups h) 9 = None"
    using s by (simp_all add: sendable_def h_def)
  obtain hb hl hr where hf: "m_fields h = hb # hl # hr" "m_tag hb = 8" "m_tag hl = 9"
    by (rule header_frame [OF h(1,3) hm(1)]) (use s ht in \<open>auto simp: sendable_def\<close>)
  have n10: "10 \<notin> m_tag ` set (m_fields h)" using s ht by (auto simp: sendable_def)
  note H = header_measures [OF h(2) hf n10 hm(2,3)]
  have fv: "field_value h t = (if t = 9 then Some (decimal n) else field_value (m_header msg) t)" for t
    unfolding h_def using fields.get_put [OF hok(1) i9] by simp
  have "field_value h 8 = Some (m_string hb)" "field_value h 9 = Some (m_string hl)"
    using hf by (simp_all add: field_value_def)
  then have hs: "m_string hb = b" "m_string hl = decimal n" using fv b by simp_all
  show thesis
  proof (rule that [of hr])
    show "calculateString h = ''8='' @ b @ [SOH] @ ''9='' @ decimal n @ [SOH] @ fields_text h hr"
      using H(1) hf(2,3) hs by (simp add: getFixString_eq)
    show "calculateLength 8 9 10 (m_header msg) = int (length (fields_text h hr))"
      using H(2) calculateLength_setField [OF hok(1) i9] unfolding h_def by simp
    show "calculateTotal 10 h = int (byte_sum (calculateString h))" by (rule H(3))
  qed
qed

lemma trailer_with_checksum:
  fixes c :: string
  assumes s: "sendable msg"
  defines "t \<equiv> setField (mk_FieldBase 10 c) (m_trailer msg)"
  obtains tr where "calculateString t = fields_text t tr @ ''10='' @ c @ [SOH]"
    "calculateLength 8 9 10 (m_trailer msg) = int (length (fields_text t tr))"
    "calculateTotal 10 (m_trailer msg) = int (byte_sum (fields_text t tr))"
proof -
  have trl: "map_ok (m_trailer msg)" "encodable (m_trailer msg)" "{8, 9} \<inter> m_tag ` set (m_fields (m_trailer msg)) = {}"
    using s by (simp_all add: sendable_def)
  have i10: "int32 (m_tag (mk_FieldBase 10 c))" "m_tag (mk_FieldBase 10 c) = 10" by (simp_all add: mk_FieldBase_def)
  have t: "map_ok t" "encodable t" "distinct_tags t"
    unfolding t_def using trl i10 fields.ok_put encodable_setField setField_tags(2) encodable_simps by simp_all
  have tt: "m_tag ` set (m_fields t) = insert 10 (m_tag ` set (m_fields (m_trailer msg)))"
    unfolding t_def using setField_tags(1) [OF trl(1) i10(1)] by (simp add: i10)
  have tm: "m_mode (m_order t) = mode_trailer" "smap_find (m_groups t) 10 = None"
    using s by (simp_all add: sendable_def t_def)
  obtain cf tr where cf: "m_fields t = tr @ [cf]" "m_tag cf = 10"
    by (rule trailer_frame [OF t(1,3) tm(1)]) (use tt in auto)
  have n: "{8, 9} \<inter> m_tag ` set (m_fields t) = {}" using tt trl(3) by auto
  note T = trailer_measures [OF t(2) cf n tm(2)]
  have "10 \<notin> m_tag ` set tr" using t(3) cf by (auto simp: distinct_tags_def)
  then have "find (\<lambda>f. m_tag f = 10) (tr @ [cf]) = Some cf" using cf(2) by (induction tr) auto
  moreover have "field_value t 10 = Some c"
    unfolding t_def using fields.get_put [OF trl(1) i10(1)] by (simp add: mk_FieldBase_def)
  ultimately have cs: "m_string cf = c" unfolding field_value_def cf by simp
  show thesis
  proof (rule that [of tr])
    show "calculateString t = fields_text t tr @ ''10='' @ c @ [SOH]"
      using T(1) cf(2) cs by (simp add: getFixString_eq)
    show "calculateLength 8 9 10 (m_trailer msg) = int (length (fields_text t tr))"
      "calculateTotal 10 (m_trailer msg) = int (byte_sum (fields_text t tr))"
      using T(2,3) calculateLength_setField [OF trl(1) i10(1)] calculateTotal_setField [OF trl(1) i10(1)]
      unfolding t_def by (simp_all add: i10)
  qed
qed

lemma toString_framed:
  assumes s: "sendable msg" and b: "field_value (m_header msg) 8 = Some b"
  shows "\<exists>w msg'. Message_toString msg = Ok (w, msg') \<and> framed b w"
proof -
  define N where "N = bodyLength 8 9 10 msg"
  let ?h = "setField (IntField 9 N) (m_header msg)"
  let ?msg1 = "msg\<lparr>m_header := ?h\<rparr>"
  have body: "encodable (m_body msg)" "{8, 9, 10} \<inter> m_tag ` set (m_fields (m_body msg)) = {}"
    using s by (simp_all add: sendable_def)
  note B = body_measures [OF body]
  obtain hr where H: "calculateString ?h = ''8='' @ b @ [SOH] @ ''9='' @ decimal N @ [SOH] @ fields_text ?h hr"
    "calculateLength 8 9 10 (m_header msg) = int (length (fields_text ?h hr))"
    "calculateTotal 10 ?h = int (byte_sum (calculateString ?h))"
    by (rule header_with_length [OF s b])
  have "0 \<le> calculateTotal 10 (m_trailer msg)" using trailer_with_checksum [OF s] by (metis of_nat_0_le_iff)
  then have cs: "checkSum 10 ?msg1 = (calculateTotal 10 ?h + calculateTotal 10 (m_body msg) +
      calculateTotal 10 (m_trailer msg)) mod 256"
    using H(3) B(2) by (simp add: checkSum_def smod_pos)
  obtain c where c: "CheckSumConvertor_string (checkSum 10 ?msg1) = Some c" "length c = 3"
    "CheckSumConvertor_convert c = Some (checkSum 10 ?msg1)"
    using CheckSum_string_Some [of "checkSum 10 ?msg1"] unfolding cs by auto
  let ?t = "setField (mk_FieldBase 10 c) (m_trailer msg)"
  obtain tr where T: "calculateString ?t = fields_text ?t tr @ ''10='' @ c @ [SOH]"
    "calculateLength 8 9 10 (m_trailer msg) = int (length (fields_text ?t tr))"
    "calculateTotal 10 (m_trailer msg) = int (byte_sum (fields_text ?t tr))"
    by (rule trailer_with_checksum [OF s])
  define rest where "rest = fields_text ?h hr @ calculateString (m_body msg) @ fields_text ?t tr"
  have ends: "rest = [] \<or> last rest = SOH"
    using fields_text_ends [of ?h hr] calculateString_ends [of "m_body msg"] fields_text_ends [of ?t tr]
    by (auto simp: rest_def last_append)
  have "bodyLength 8 9 10 msg = int (length rest)"
    unfolding bodyLength_def H(2) B(1) T(2) rest_def by simp
  then have n: "N = int (length rest)" unfolding N_def [symmetric] .
  let ?front = "''8='' @ b @ [SOH] @ ''9='' @ decimal (int (length rest)) @ [SOH] @ rest"
  have front: "calculateString ?h @ calculateString (m_body msg) @ fields_text ?t tr = ?front"
    unfolding H(1) n [symmetric] by (simp add: rest_def)
  then have "int (byte_sum ?front) mod 256 = checkSum 10 ?msg1"
    unfolding cs H(3) B(2) T(3) by (metis byte_sum_simps(3) of_nat_add add.assoc)
  moreover have "Message_toString msg = Ok (calculateString ?h @ calculateString (m_body msg) @ calculateString ?t,
      ?msg1\<lparr>m_trailer := ?t\<rparr>)"
    using c(1) by (simp add: Message_toString_def Let_def N_def)
  moreover have "calculateString ?h @ calculateString (m_body msg) @ calculateString ?t = ?front @ ''10='' @ c @ [SOH]"
    unfolding T(1) using front by (metis append.assoc)
  ultimately show ?thesis
    using c(2,3) ends unfolding framed_def by (intro exI conjI) (auto simp del: append_assoc intro!: exI [of _ rest] exI [of _ c])
qed

section \<open>Assembling a message keeps it sendable\<close>

lemma encodable_new [simp]: "encodable (mk_FieldMap order)"
  by (subst encodable.simps) (simp add: mk_FieldMap_def distinct_tags_def)

lemma order_wf_mode [simp]: "order_wf (message_order_mode mode)"
  by (auto simp: order_wf_def)

lemma sendable_start:
  "sendable (new_Message\<lparr>m_header := setField (mk_FieldBase 8 b) (m_header new_Message)\<rparr>)"
proof -
  let ?m = "mk_FieldMap (message_order_mode mode_header)" and ?f = "mk_FieldBase 8 b"
  have i: "int32 (m_tag ?f)" "m_tag ?f = 8" by (simp_all add: mk_FieldBase_def)
  have m: "map_ok ?m" "encodable ?m" by simp_all
  have "map_ok (setField ?f ?m)" "encodable (setField ?f ?m)"
    using m i fields.ok_put encodable_setField by simp_all
  moreover have "m_tag ` set (m_fields (setField ?f ?m)) = {8}"
    using setField_tags(1) [OF m(1) i(1)] i(2) by (simp add: mk_FieldMap_def)
  ultimately show ?thesis
    by (simp add: sendable_def new_Message_def) (simp add: mk_FieldMap_def message_order_mode_def)
qed

lemma sendable_header_setField:
  assumes s: "sendable msg" and f: "int32 (m_tag f)" "metrics_ok f" "m_tag f \<noteq> 10"
  shows "sendable (msg\<lparr>m_header := setField f (m_header msg)\<rparr>)"
  using s f fields.ok_put [of "m_header msg" f] encodable_setField [of "m_header msg" f]
    setField_tags(1) [of "m_header msg" f]
  by (auto simp: sendable_def)

lemma sendable_body_setField:
  assumes s: "sendable msg" and f: "int32 (m_tag f)" "metrics_ok f" "m_tag f \<notin> {8, 9, 10}"
  shows "sendable (msg\<lparr>m_body := setField f (m_body msg)\<rparr>)"
  using s f fields.ok_put [of "m_body msg" f] encodable_setField [of "m_body msg" f]
    setField_tags(1) [of "m_body msg" f]
  by (auto simp: sendable_def)

section \<open>Properties\<close>



end
