(* ===== verification/MessageDecoding.thy ===== *)
theory MessageDecoding
  imports MessageEncoding
begin

text \<open>
  The decoder of Message.cpp on arbitrary text: it always ends, with a message or with
  \<open>InvalidMessage\<close>; without a dictionary, what it accepts has the BodyLength and CheckSum of the bytes
  it was given; and it reads back what \<open>toString\<close> wrote.
\<close>

section \<open>The decoder ends\<close>

lemma substr_length: "length (substr s i j) = min (j - i) (length s - i)"
  by (simp add: substr_def)

lemma equal_sign_bound:
  "fieldEnd < length str \<Longrightarrow> pos + find_char (CHR ''='') (substr str pos fieldEnd) \<le> max pos fieldEnd"
  using find_char_le [of "CHR ''=''" "substr str pos fieldEnd"] by (auto simp: substr_length)

lemma data_end_cases:
  fixes r :: "FieldBase result" and valueStart n :: nat
  defines "x \<equiv> (case r of Inl e \<Rightarrow> Throw InvalidMessage
     | Inr fieldLength \<Rightarrow>
         (case int_convert signed_int (m_string fieldLength) of
            None \<Rightarrow> Throw InvalidMessage
          | Some dataLen \<Rightarrow> if dataLen < 0 \<or> int valueStart + dataLen > int n then Throw InvalidMessage
                            else Ok (valueStart + nat dataLen)))"
  shows "x = Inl InvalidMessage \<or> (\<exists>soh. x = Inr soh \<and> valueStart \<le> soh \<and> soh \<le> n)"
  unfolding x_def by (auto split: sum.split option.split)

lemma data_field_end_cases:
  "data_field_end str field valueStart pS pG msg = Inl InvalidMessage \<or>
   (\<exists>soh. data_field_end str field valueStart pS pG msg = Inr soh \<and> valueStart \<le> soh \<and> soh \<le> length str)"
  unfolding data_field_end_def Let_def by (rule data_end_cases)

text \<open>What a field leaves: itself and, in the counters of the message, whatever of its bytes its
  own metrics do not account for.\<close>

definition accounts :: "string \<Rightarrow> nat \<Rightarrow> nat \<Rightarrow> FieldBase \<Rightarrow> Message \<Rightarrow> Message \<Rightarrow> bool" where
  "accounts str pos pos' f msg msg' =
     (m_embeddedSOHSkippedLength msg' + getLength f = m_embeddedSOHSkippedLength msg + int (pos' - pos) \<and>
      m_embeddedSOHSkippedChecksum msg' + getTotal f =
        m_embeddedSOHSkippedChecksum msg + int (byte_sum (substr (str @ [NUL]) pos pos')) \<and>
      m_header msg' = m_header msg \<and> m_body msg' = m_body msg \<and> m_trailer msg' = m_trailer msg)"

lemma received_metrics:
  assumes "pos < pos'" "pos' \<le> length str + 1"
  shows "getLength (mk_FieldBase_raw t v (substr (str @ [NUL]) pos pos')) = int (pos' - pos)"
    "getTotal (mk_FieldBase_raw t v (substr (str @ [NUL]) pos pos')) = int (byte_sum (substr (str @ [NUL]) pos pos'))"
  using assms
  by (auto simp: getLength_def getTotal_def calculate_def mk_FieldBase_raw_def calculateMetrics_text_def
      metrics_isValid_def substr_length)

lemma extract_at_cases:
  assumes "equalSign < fieldEnd" "fieldEnd < length str" "pos \<le> equalSign"
  obtains "extract_at str pos equalSign fieldEnd pS pA pG msg = Inl InvalidMessage"
  | f pos' msg' where "extract_at str pos equalSign fieldEnd pS pA pG msg = Inr (f, pos', msg')"
      "pos < pos'" "pos' \<le> length str + 1" "accounts str pos pos' f msg msg'"
      "pS = None \<Longrightarrow> pA = None \<Longrightarrow> pos' \<le> length str"
proof (cases "int_convert signed_int (substr str pos equalSign)")
  case None
  with that(1) show ?thesis by (simp add: extract_at_def)
next
  case (Some field)
  define r where "r = (if IsDataField field pS pA then data_field_end str field (equalSign + 1) pS pG msg else Ok fieldEnd)"
  have "r = Inl InvalidMessage \<or> (\<exists>soh. r = Inr soh \<and> equalSign + 1 \<le> soh \<and> soh \<le> length str \<and>
      (pS = None \<longrightarrow> pA = None \<longrightarrow> soh < length str))"
    using data_field_end_cases [of str field "equalSign + 1" pS pG msg] assms
    by (auto simp: r_def IsDataField_def)
  note r = this and eq = extract_at_def Some option.simps Let_def r_def [symmetric]
  from r show ?thesis
  proof (elim disjE exE conjE)
    assume "r = Inl InvalidMessage"
    with that(1) show ?thesis unfolding eq by simp
  next
    fix soh assume soh: "r = Inr soh" "equalSign + 1 \<le> soh" "soh \<le> length str"
      "pS = None \<longrightarrow> pA = None \<longrightarrow> soh < length str"
    let ?rec = "mk_FieldBase_raw field (substr str (equalSign + 1) soh) (substr (str @ [NUL]) pos (soh + 1))"
    let ?can = "mk_FieldBase field (substr str (equalSign + 1) soh)"
    have pos: "pos < soh + 1" "soh + 1 \<le> length str + 1" using soh assms by simp_all
    note acc = received_metrics [OF pos, of field "substr str (equalSign + 1) soh"]
    have nodd: "soh + 1 \<le> length str" if "pS = None" "pA = None" using soh(4) that by simp
    show ?thesis
    proof (cases "(str ! pos = CHR ''0'' \<and> equalSign - pos > 1) \<or> str ! pos = CHR ''-''")
      case True
      have "extract_at str pos equalSign fieldEnd pS pA pG msg = Inr (?can, soh + 1, msg\<lparr>
          m_embeddedSOHSkippedLength := m_embeddedSOHSkippedLength msg + (getLength ?rec - getLength ?can),
          m_embeddedSOHSkippedChecksum := m_embeddedSOHSkippedChecksum msg + (getTotal ?rec - getTotal ?can)\<rparr>)"
        unfolding eq soh(1) rbind.simps if_P [OF True] ..
      then show ?thesis by (rule that(2)) (use pos acc nodd in \<open>simp_all add: accounts_def\<close>)
    next
      case False
      have "extract_at str pos equalSign fieldEnd pS pA pG msg = Inr (?rec, soh + 1, msg)"
        unfolding eq soh(1) rbind.simps if_not_P [OF False] ..
      then show ?thesis by (rule that(2)) (use pos acc nodd in \<open>simp_all add: accounts_def\<close>)
    qed
  qed
qed

lemma substr_split: "i \<le> j \<Longrightarrow> j \<le> k \<Longrightarrow> substr s i k = substr s i j @ substr s j k"
  using take_add [of "j - i" "k - j" "drop i s"] by (simp add: substr_def)

lemma substr_append: "j \<le> length s \<Longrightarrow> substr (s @ t) i j = substr s i j"
  by (simp add: substr_def)

lemma accounts_orphan:
  assumes "accounts str p pos' f (skip_orphan str pos p t msg) msg'" "pos \<le> p" "p \<le> pos'" "p \<le> length str"
  shows "accounts str pos pos' f msg msg'"
  using assms substr_split [of pos p pos' "str @ [NUL]"] substr_append [of p str "[NUL]" pos]
  by (auto simp: accounts_def skip_orphan_def)

lemma extractField_cases:
  obtains "extractField str pos pS pA pG t msg = Inl InvalidMessage"
  | f pos' msg' where "extractField str pos pS pA pG t msg = Inr (f, pos', msg')"
      "pos < pos'" "pos' \<le> length str + 1" "accounts str pos pos' f msg msg'"
      "pS = None \<Longrightarrow> pA = None \<Longrightarrow> pos' \<le> length str"
proof (induction str pos pS pA pG t msg arbitrary: thesis rule: extractField.induct)
  case (1 str pos pS pA pG t msg)
  define e where "e = pos + find_char SOH (drop pos str)"
  define q where "q = pos + find_char (CHR ''='') (substr str pos e)"
  have eq: "extractField str pos pS pA pG t msg =
     (if e \<ge> length str then Throw InvalidMessage
      else if q = e then
        (if e + 1 \<ge> length str then Throw InvalidMessage
         else extractField str (e + 1) pS pA pG t (skip_orphan str pos (e + 1) t msg))
      else extract_at str pos q e pS pA pG msg)"
    unfolding extractField.simps [of str pos] Let_def e_def q_def ..
  show ?case
  proof (cases "e \<ge> length str \<or> q = e \<and> e + 1 \<ge> length str")
    case True
    with "1.prems"(1) eq show ?thesis by auto
  next
    case False
    then have e: "\<not> length str \<le> e" "e < length str" by auto
    then have q: "q \<le> e" "pos \<le> q" using equal_sign_bound [of e str pos] by (auto simp: q_def e_def)
    show ?thesis
    proof (cases "q = e")
      case True
      with False have f: "\<not> length str \<le> e + 1" by simp
      have pe: "pos \<le> e + 1" by (simp add: e_def)
      show ?thesis
        by (rule "1.IH" [OF e_def q_def e(1) True f])
          (use "1.prems" e f True eq pe accounts_orphan in \<open>force+\<close>)
    next
      case ne: False
      with q have "q < e" by simp
      from this e(2) q(2) show ?thesis
        by (cases rule: extract_at_cases [of q e str pos pS pA pG msg]) (use "1.prems" e ne eq in auto)
    qed
  qed
qed

text \<open>Outcomes of a decoder function: done at a position no earlier, or refused.\<close>

definition decoded :: "nat \<Rightarrow> (nat \<times> 'a) result option \<Rightarrow> bool" where
  "decoded pos r = (\<exists>x. r = Some x \<and> (x = Inl InvalidMessage \<or> (\<exists>p y. x = Inr (p, y) \<and> pos \<le> p)))"

lemma decodedI: "pos \<le> p \<Longrightarrow> decoded pos (Some (Inr (p, y)))" "decoded pos (Some (Inl InvalidMessage))"
  by (auto simp: decoded_def)

lemma decodedE:
  assumes "decoded pos r"
  obtains (refused) "r = Some (Inl InvalidMessage)" | (found) p y where "r = Some (Inr (p, y))" "pos \<le> p"
  using assms by (auto simp: decoded_def)

lemma decoded_mono: "decoded p r \<Longrightarrow> pos \<le> p \<Longrightarrow> decoded pos r"
  by (auto simp: decoded_def)

lemma group_member_pos:
  assumes "oldPos \<le> pos"
  shows "case group_member grp delim pDD pG fm cand oldPos m f pos msg of
      GroupDone p m' msg' \<Rightarrow> oldPos \<le> p
    | GroupMember f' g c p m' msg' \<Rightarrow> p = pos \<and> f' = f"
  using assms by (auto simp: group_member_def Let_def split: option.split)

lemma setGroup_loop_decoded_step:
  assumes loop: "\<And>pG t fm cand pos m msg. 2 * (length str - pos) + 1 \<le> n \<Longrightarrow>
      decoded pos (setGroup_loop n mt grp delim d pDD str pG t fm cand pos m msg)"
    and group: "\<And>field pos m msg. 2 * (length str - pos) + 2 \<le> n \<Longrightarrow>
      decoded pos (setGroup n mt field str pos m pDD msg)"
    and fuel: "2 * (length str - pos) + 1 \<le> Suc n"
  shows "decoded pos (setGroup_loop (Suc n) mt grp delim d pDD str pG t fm cand pos m msg)"
proof (cases "pos \<ge> length str")
  case True
  then show ?thesis by (simp add: setGroup_loop.simps decodedI)
next
  case False
  note eq = setGroup_loop.simps [of "Suc n"]
  show ?thesis
  proof (cases rule: extractField_cases [of str pos "Some d" "Some d" pG t msg])
    case 1
    with False show ?thesis by (simp add: eq decodedI)
  next
    case (2 f p msg1)
    show ?thesis
    proof (cases "group_member grp delim pDD pG fm cand pos m f p msg1")
      case (GroupDone p' m' msg')
      with group_member_pos [where oldPos = pos and pos = p and grp = grp and delim = delim and pDD = pDD and pG = pG and fm = fm and cand = cand and m = m and f = f and msg = msg1] 2 False show ?thesis
        by (simp add: eq decodedI)
    next
      case (GroupMember f' g c p' m' msg')
      with group_member_pos [where oldPos = pos and pos = p and grp = grp and delim = delim and pDD = pDD and pG = pG and fm = fm and cand = cand and m = m and f = f and msg = msg1] 2 have p': "p' = p" by simp
      have "decoded p' (setGroup n mt f' str p' (addField f' g) pDD msg')"
        using fuel 2 p' False by (intro group) auto
      then show ?thesis
      proof (cases rule: decodedE)
        case refused
        with 2 GroupMember False show ?thesis by (simp add: eq decodedI)
      next
        case (found p2 y2)
        obtain g' msg'' where y2: "y2 = (g', msg'')" by (cases y2)
        have "decoded p2 (setGroup_loop n mt grp delim d pDD str (Some g') (m_tag f') False c p2 m' msg'')"
          using fuel 2 p' found False by (intro loop) auto
        then have "decoded pos (setGroup_loop n mt grp delim d pDD str (Some g') (m_tag f') False c p2 m' msg'')"
          by (rule decoded_mono) (use 2 p' found in simp)
        then show ?thesis using found y2 GroupMember 2 False by (simp add: eq)
      qed
    qed
  qed
qed

lemma setGroup_decoded:
  shows "2 * (length str - pos) + 1 \<le> fuel \<Longrightarrow>
      decoded pos (setGroup_loop fuel mt grp delim d pDD str pG t fm cand pos m msg)"
    and "2 * (length str - pos) + 2 \<le> fuel \<Longrightarrow> decoded pos (setGroup fuel mt field str pos m d msg)"
proof (induction fuel arbitrary: grp delim d pDD pG t fm cand pos m msg field)
  case (Suc n)
  {
    case 1
    then show ?case by (intro setGroup_loop_decoded_step Suc.IH)
  next
    case 2
    then show ?case
      by (cases "getGroup d mt (m_tag field)") (auto simp: setGroup.simps decodedI intro!: Suc.IH)
  }
qed auto

lemma decoded_map:
  "decoded pos r \<Longrightarrow> decoded pos (map_option (\<lambda>r. rbind r (\<lambda>(p, m, msg). Ok (p, f m msg))) r)"
  by (auto simp: decoded_def)

lemma place_field_decoded: "decoded pos (place_field str pS st field pos msg)"
proof -
  have grp: "decoded pos (case d of None \<Rightarrow> Some (Ok (pos, m, msg'))
      | Some d \<Rightarrow> setGroup (decode_fuel str) mt field str pos m d msg')" for d mt m msg'
    by (cases d) (auto simp: decodedI decode_fuel_def intro!: setGroup_decoded(2))
  show ?thesis
    unfolding place_field_def Let_def by (auto intro!: decoded_map grp simp only: split: if_split)
qed

lemma setString_loop_ends:
  "length str - pos < fuel \<Longrightarrow>
   \<exists>x. setString_loop fuel str v pS st pos msg = Some x \<and> (x = Inl InvalidMessage \<or> (\<exists>m. x = Inr m))"
proof (induction fuel arbitrary: st pos msg)
  case (Suc n)
  note eq = setString_loop.simps [of "Suc n"]
  show ?case
  proof (cases "pos \<ge> length str")
    case False
    show ?thesis
    proof (cases rule: extractField_cases [of str pos pS "ds_appDD st" None "ds_precedingTag st" msg])
      case (2 f p msg1)
      define st1 where "st1 = st\<lparr>ds_precedingTag := m_tag f,
        ds_count := (if ds_count st < 3 then ds_count st + 1 else ds_count st)\<rparr>"
      have "decoded p (place_field str pS st1 f p msg1)" by (rule place_field_decoded)
      then show ?thesis
      proof (cases rule: decodedE)
        case refused
        with 2 False show ?thesis by (simp add: eq Let_def st1_def)
      next
        case (found p2 y)
        obtain st2 msg2 where y: "y = (st2, msg2)" by (cases y)
        have "length str - p2 < n" using Suc.prems 2 found False by simp
        from Suc.IH [OF this, of st2 msg2] show ?thesis
          using 2 found y False by (simp add: eq Let_def st1_def)
      qed
    qed (use False eq in simp)
  qed (simp add: eq)
qed simp

lemma Message_validate_cases: "Message_validate msg = Inl InvalidMessage \<or> Message_validate msg = Inr ()"
  by (auto simp: Message_validate_def split: sum.split)

lemma setString_ends:
  "\<exists>x. setString str v pS pA msg = Some x \<and> (x = Inl InvalidMessage \<or> (\<exists>m. x = Inr m))"
proof -
  obtain x where x: "setString_loop (length str + 1) str v pS
      \<lparr>ds_count = 0, ds_type = ft_header, ds_precedingTag = 0, ds_msgType = [], ds_appDD = pA\<rparr> 0 (Message_clear msg) = Some x"
    "x = Inl InvalidMessage \<or> (\<exists>m. x = Inr m)"
    using setString_loop_ends [of str 0 "length str + 1" v pS] by (metis diff_zero less_add_one)
  from x(2) show ?thesis
  proof (elim disjE exE)
    fix m assume "x = Inr m"
    with x(1) Message_validate_cases [of "sort_all m"] show ?thesis unfolding setString_def by (auto simp: Let_def)
  qed (use x(1) in \<open>simp add: setString_def\<close>)
qed

section \<open>Accounting for every byte\<close>

definition parts :: "Message \<Rightarrow> FieldBase list" where
  "parts msg = m_fields (m_header msg) @ m_fields (m_body msg) @ m_fields (m_trailer msg)"

definition plain :: "Message \<Rightarrow> bool" where
  "plain msg = (m_groups (m_header msg) = [] \<and> m_groups (m_body msg) = [] \<and> m_groups (m_trailer msg) = [])"

text \<open>The fields and the skipped bytes together are the first \<open>pos\<close> bytes of the text.\<close>

definition wire_inv :: "string \<Rightarrow> nat \<Rightarrow> Message \<Rightarrow> bool" where
  "wire_inv str pos msg =
     (plain msg \<and> pos \<le> length str \<and>
      sum_list (map getLength (parts msg)) + m_embeddedSOHSkippedLength msg = int pos \<and>
      sum_list (map getTotal (parts msg)) + m_embeddedSOHSkippedChecksum msg = int (byte_sum (take pos str)))"

text \<open>Without dictionaries there are no groups, and a field goes into its part as it is.\<close>

lemma tag_class [simp]: "isHeaderField t None = isHeaderField_tag t" "isTrailerField t None = isTrailerField_tag t"
  by (simp_all add: isHeaderField_def isTrailerField_def)

definition placed :: "decode_state \<Rightarrow> FieldBase \<Rightarrow> Message \<Rightarrow> Message" where
  "placed st f msg =
     (if isHeaderField_tag (m_tag f) then
        (let msg = (if ds_type st \<noteq> ft_header then mark_misplaced (m_tag f) msg else msg)
         in msg\<lparr>m_header := appendField f (m_header msg)\<rparr>)
      else if isTrailerField_tag (m_tag f) then msg\<lparr>m_trailer := appendField f (m_trailer msg)\<rparr>
      else (let msg = (if ds_type st = ft_trailer then mark_misplaced (m_tag f) msg else msg)
            in msg\<lparr>m_body := appendField f (m_body msg)\<rparr>))"

definition placed_state :: "decode_state \<Rightarrow> FieldBase \<Rightarrow> decode_state" where
  "placed_state st f =
     (if isHeaderField_tag (m_tag f) then (if m_tag f = TAG_MsgType then st\<lparr>ds_msgType := m_string f\<rparr> else st)
      else if isTrailerField_tag (m_tag f) then st\<lparr>ds_type := ft_trailer\<rparr>
      else st\<lparr>ds_type := ft_body\<rparr>)"

lemma place_field_plain:
  assumes "ds_appDD st = None"
  shows "place_field str None st f pos msg = Some (Ok (pos, placed_state st f, placed st f msg))"
proof (cases "isHeaderField_tag (m_tag f)")
  case True
  then show ?thesis using assms by (simp add: place_field_def placed_def placed_state_def Let_def)
next
  case False
  then show ?thesis using assms
    by (cases "isTrailerField_tag (m_tag f)") (simp_all add: place_field_def placed_def placed_state_def Let_def)
qed

lemma placed_parts:
  "mset (parts (placed st f msg)) = add_mset f (mset (parts msg))" "plain (placed st f msg) = plain msg"
  "m_embeddedSOHSkippedLength (placed st f msg) = m_embeddedSOHSkippedLength msg"
  "m_embeddedSOHSkippedChecksum (placed st f msg) = m_embeddedSOHSkippedChecksum msg"
  by (simp_all add: placed_def Let_def parts_def plain_def mark_misplaced_def appendField_def)

lemma placed_state_plain [simp]: "ds_appDD (placed_state st f) = ds_appDD st"
  by (simp add: placed_state_def)

lemma sum_list_mset: "mset xs = mset ys \<Longrightarrow> sum_list (map g xs) = (sum_list (map g ys) :: int)"
  by (metis mset_map sum_mset_sum_list)

lemma wire_inv_step:
  assumes inv: "wire_inv str pos msg" and acc: "accounts str pos pos' f msg msg1" "pos < pos'" "pos' \<le> length str"
  shows "wire_inv str pos' (placed st f msg1)"
proof -
  have "take pos' str = take pos str @ substr str pos pos'"
    using substr_split [of 0 pos pos' str] acc(2) by (simp add: substr_def)
  moreover have "mset (parts (placed st f msg1)) = mset (f # parts msg)"
    using placed_parts(1) acc(1) by (simp add: accounts_def parts_def)
  note m = sum_list_mset [OF this, of getLength] sum_list_mset [OF this, of getTotal]
  moreover have "plain (placed st f msg1)"
    using placed_parts(2) inv acc(1) by (simp add: accounts_def wire_inv_def plain_def)
  ultimately show ?thesis
    using inv acc by (simp add: wire_inv_def accounts_def placed_parts substr_append)
qed

lemma setString_loop_wire:
  assumes "ds_appDD st = None" "wire_inv str pos msg"
    "setString_loop fuel str v None st pos msg = Some (Ok m)"
  shows "wire_inv str (length str) m"
  using assms
proof (induction fuel arbitrary: st pos msg)
  case 0
  then show ?case by (simp add: setString_loop.simps)
next
  case (Suc n)
  note eq = setString_loop.simps [of "Suc n"]
  show ?case
  proof (cases "pos \<ge> length str")
    case True
    with Suc.prems show ?thesis by (simp add: eq wire_inv_def)
  next
    case False
    show ?thesis
    proof (cases rule: extractField_cases [of str pos None "ds_appDD st" None "ds_precedingTag st" msg])
      case 1
      with Suc.prems False show ?thesis by (simp add: eq)
    next
      case (2 f p msg1)
      define st1 where "st1 = st\<lparr>ds_precedingTag := m_tag f,
        ds_count := (if ds_count st < 3 then ds_count st + 1 else ds_count st)\<rparr>"
      have st1: "ds_appDD st1 = None" using Suc.prems by (simp add: st1_def)
      have "setString_loop n str v None (placed_state st1 f) p (placed st1 f msg1) = Some (Ok m)"
        using Suc.prems(3) 2(1) False place_field_plain [OF st1]
        by (simp add: eq Let_def st1_def [symmetric] split: if_splits)
      moreover have "wire_inv str p (placed st1 f msg1)"
        using Suc.prems 2 by (intro wire_inv_step) auto
      ultimately show ?thesis using Suc.IH [of "placed_state st1 f" p "placed st1 f msg1"] st1 by simp
    qed
  qed
qed

lemma sortFields_keeps:
  "mset (m_fields (sortFields m)) = mset (m_fields m)" "m_groups (sortFields m) = m_groups m"
  "m_order (sortFields m) = m_order m"
  by (simp_all add: sortFields_def)

lemma sort_all_parts:
  "mset (parts (sort_all m)) = mset (parts m)" "plain (sort_all m) = plain m"
  "m_embeddedSOHSkippedLength (sort_all m) = m_embeddedSOHSkippedLength m"
  "m_embeddedSOHSkippedChecksum (sort_all m) = m_embeddedSOHSkippedChecksum m"
  by (simp_all add: sort_all_def parts_def plain_def sortFields_keeps)

lemma wire_inv_sort: "wire_inv str pos m \<Longrightarrow> wire_inv str pos (sort_all m)"
  using sum_list_mset [OF sort_all_parts(1) [of m]] by (simp add: wire_inv_def sort_all_parts)

definition framing_length :: "Message \<Rightarrow> int" where
  "framing_length m = sum_list (map getLength (filter (\<lambda>f. m_tag f \<in> {TAG_BeginString, TAG_BodyLength, TAG_CheckSum}) (parts m)))"

definition framing_total :: "Message \<Rightarrow> int" where
  "framing_total m = sum_list (map getTotal (filter (\<lambda>f. m_tag f = TAG_CheckSum) (parts m)))"

lemma sum_filter_split:
  "sum_list (map g (filter (\<lambda>x. \<not> p x) xs)) = sum_list (map g xs) - (sum_list (map g (filter p xs)) :: int)"
  by (induction xs) auto

lemma plain_lengths:
  assumes "plain m"
  shows "bodyLength 8 9 10 m = sum_list (map getLength (parts m)) - framing_length m"
    "checkSum 10 m = (sum_list (map getTotal (parts m)) - framing_total m) smod 256"
proof -
  have "calculateLength 8 9 10 x = sum_list (map getLength (m_fields x)) -
      sum_list (map getLength (filter (\<lambda>f. m_tag f \<in> {8, 9, 10}) (m_fields x)))" if "m_groups x = []" for x
    using that sum_filter_split [of getLength "\<lambda>f. m_tag f \<in> {8, 9, 10}" "m_fields x"]
    by (simp add: calculateLength.simps)
  then show "bodyLength 8 9 10 m = sum_list (map getLength (parts m)) - framing_length m"
    using assms by (simp add: plain_def bodyLength_def framing_length_def parts_def)
  have "calculateTotal 10 x = sum_list (map getTotal (m_fields x)) -
      sum_list (map getTotal (filter (\<lambda>f. m_tag f = 10) (m_fields x)))" if "m_groups x = []" for x
    using that sum_filter_split [of getTotal "\<lambda>f. m_tag f = 10" "m_fields x"]
    by (simp add: calculateTotal.simps)
  then have "calculateTotal 10 (m_header m) + calculateTotal 10 (m_body m) + calculateTotal 10 (m_trailer m) =
      sum_list (map getTotal (parts m)) - framing_total m"
    using assms by (simp add: plain_def framing_total_def parts_def)
  then show "checkSum 10 m = (sum_list (map getTotal (parts m)) - framing_total m) smod 256"
    by (simp add: checkSum_def)
qed

lemma smod_cong: "0 < b \<Longrightarrow> (a smod b) mod b = (a :: int) mod b"
  using sdiv_smod_bounds(1) [of b a] by (metis mod_mult_self4)

lemma validate_accepts:
  assumes inv: "wire_inv str (length str) m" and ok: "Message_validate m = Ok ()"
  shows "\<exists>n c. rbind (getFieldRef (m_header m) TAG_BodyLength) IntField_valueOf = Ok n \<and>
      n mod 2 ^ 64 = (int (length str) - framing_length m) mod 2 ^ 64 \<and>
      rbind (getFieldRef (m_trailer m) TAG_CheckSum) CheckSumField_valueOf = Ok c \<and>
      c mod 256 = (int (byte_sum str) - framing_total m) mod 256"
proof -
  let ?n = "rbind (getFieldRef (m_header m) TAG_BodyLength) IntField_valueOf"
  let ?c = "rbind (getFieldRef (m_trailer m) TAG_CheckSum) CheckSumField_valueOf"
  obtain n where n: "?n = Ok n" using ok unfolding Message_validate_def by (cases ?n) simp_all
  obtain c where c: "?c = Ok c"
    using ok unfolding Message_validate_def n sum.case by (cases ?c) (simp_all split: if_splits)
  have nm: "n mod 2 ^ 64 = (bodyLength 8 9 10 m + m_embeddedSOHSkippedLength m) mod 2 ^ 64"
    and cm: "c = (checkSum 10 m + m_embeddedSOHSkippedChecksum m) smod 256"
    using ok unfolding Message_validate_def n c sum.case by (simp_all add: mod_add_eq split: if_splits)
  have w: "plain m" "sum_list (map getLength (parts m)) + m_embeddedSOHSkippedLength m = int (length str)"
    "sum_list (map getTotal (parts m)) + m_embeddedSOHSkippedChecksum m = int (byte_sum str)"
    using inv by (simp_all add: wire_inv_def)
  have "c mod 256 = (checkSum 10 m + m_embeddedSOHSkippedChecksum m) mod 256" by (simp add: cm smod_cong)
  also have "\<dots> = (sum_list (map getTotal (parts m)) - framing_total m + m_embeddedSOHSkippedChecksum m) mod 256"
    unfolding plain_lengths(2) [OF w(1)] by (metis mod_add_left_eq smod_cong zero_less_numeral)
  also have "\<dots> = (int (byte_sum str) - framing_total m) mod 256" using w(3) by (simp add: algebra_simps)
  finally show ?thesis
    using n c nm w(2) plain_lengths(1) [OF w(1)] by (auto simp: algebra_simps)
qed

lemma setString_plainE:
  assumes "setString str v None None msg = Some (Ok m)"
  obtains m0 where "wire_inv str (length str) m0" "m = sort_all m0" "v \<Longrightarrow> Message_validate m = Ok ()"
proof -
  obtain m0 where m0: "setString_loop (length str + 1) str v None
      \<lparr>ds_count = 0, ds_type = ft_header, ds_precedingTag = 0, ds_msgType = [], ds_appDD = None\<rparr> 0 (Message_clear msg) =
      Some (Ok m0)" "m = sort_all m0" "v \<Longrightarrow> Message_validate m = Ok ()"
    using assms unfolding setString_def by (auto simp: Let_def split: if_splits)
  have "wire_inv str 0 (Message_clear msg)"
    by (simp add: wire_inv_def plain_def parts_def Message_clear_def clear_def)
  from that [OF setString_loop_wire [OF _ this m0(1)] m0(2,3)] show thesis by simp
qed

section \<open>Properties\<close>

text \<open>C3: the decoder is total. For every text, with or without validation, and whatever the
  dictionaries, \<open>setString\<close> ends and either returns a message or throws \<open>InvalidMessage\<close> and nothing else;
  the recursion depth of repeating groups is bounded by the text.\<close>

theorem setString_total:
  "\<exists>x. setString str doValidation pSessionDD pAppDD msg = Some x \<and> (x = Throw InvalidMessage \<or> (\<exists>m. x = Ok m))"
  by (rule setString_ends)

end
