(* ===== verification/MessageRoundTrip.thy ===== *)
theory MessageRoundTrip
  imports MessageDecoding
begin

text \<open>
  Reading back what \<open>toString\<close> wrote: the decoder of Message.cpp, run without a dictionary on the
  text of a message without repeating groups, accepts it and returns the same fields in the same order.
\<close>

section \<open>Reading one field\<close>

text \<open>The field the decoder makes of the text of \<open>f\<close>.\<close>

definition reread :: "FieldBase \<Rightarrow> FieldBase" where
  "reread f = (if m_tag f < 0 then mk_FieldBase (m_tag f) (m_string f)
     else mk_FieldBase_raw (m_tag f) (m_string f) (getFixString f))"

definition readable :: "FieldBase \<Rightarrow> bool" where
  "readable f = (int32 (m_tag f) \<and> SOH \<notin> set (m_string f) \<and> metrics_ok f)"

lemma reread_simps [simp]: "m_tag (reread f) = m_tag f" "m_string (reread f) = m_string f"
  by (simp_all add: reread_def mk_FieldBase_def mk_FieldBase_raw_def)

lemma raw_metrics:
  "getLength (mk_FieldBase_raw t v (getFixString f)) = int (length (getFixString f))"
  "getTotal (mk_FieldBase_raw t v (getFixString f)) = int (byte_sum (getFixString f))"
  by (simp_all add: getLength_def getTotal_def calculate_def mk_FieldBase_raw_def calculateMetrics_text_def
      metrics_isValid_def getFixString_eq)

lemma canonical_metrics:
  "getLength (mk_FieldBase (m_tag f) (m_string f)) = int (length (getFixString f))"
  "getTotal (mk_FieldBase (m_tag f) (m_string f)) = int (byte_sum (getFixString f))"
  using metrics_of_encoding [OF metrics_ok_fresh(1) [of "m_tag f" "m_string f"]]
  by (simp_all add: getFixString_eq mk_FieldBase_def)

lemma reread_metrics:
  assumes "readable f"
  shows "getLength (reread f) = getLength f" "getTotal (reread f) = getTotal f"
  using assms metrics_of_encoding [of f] by (simp_all add: readable_def reread_def raw_metrics canonical_metrics)

lemma dec_first: "0 < n \<Longrightarrow> dec n ! 0 \<noteq> CHR ''0''"
proof (induction n rule: dec.induct)
  case (1 n)
  have "digit n \<noteq> CHR ''0''" if "n < 10" using that 1 byte_digit [of n] by (auto simp: byte_def)
  with 1 show ?case by (subst dec.simps) (auto simp: nth_append)
qed

lemma decimal_first:
  "decimal t ! 0 = CHR ''-'' \<longleftrightarrow> t < 0" "\<not> (decimal t ! 0 = CHR ''0'' \<and> length (decimal t) > 1)"
proof -
  have "is_digit (dec n ! 0)" for n by (rule set_dec [of _ n]) (simp add: nth_mem)
  then show "decimal t ! 0 = CHR ''-'' \<longleftrightarrow> t < 0"
    using digit_not_minus by (auto simp: decimal_def)
  show "\<not> (decimal t ! 0 = CHR ''0'' \<and> length (decimal t) > 1)"
    using dec_first [of "nat t"] by (cases "t = 0") (auto simp: decimal_def dec.simps [of 0])
qed

lemma extractField_reread:
  assumes r: "readable f" and d: "drop pos str = getFixString f @ rest"
  shows "extractField str pos None None None t msg = Ok (reread f, pos + length (getFixString f), msg)"
proof -
  let ?d = "decimal (m_tag f)"
  let ?e = "pos + length ?d + 1 + length (m_string f)"
  have str: "drop pos str = (?d @ CHR ''='' # m_string f) @ SOH # rest" using d by (simp add: getFixString_eq)
  have len: "length str = pos + length (getFixString f @ rest)"
    using arg_cong [OF d, of length] by (cases "pos \<le> length str") (auto simp: getFixString_eq)
  have "SOH \<notin> set (?d @ CHR ''='' # m_string f)" using r by (simp add: readable_def)
  from find_char_append [OF this, of rest] have e: "pos + find_char SOH (drop pos str) = ?e"
    unfolding str by simp
  have "substr str pos ?e = ?d @ CHR ''='' # m_string f" using str by (simp add: substr_def)
  then have q: "pos + find_char (CHR ''='') (substr str pos ?e) = pos + length ?d" by simp
  have tag: "substr str pos (pos + length ?d) = ?d" using str by (simp add: substr_def)
  have "drop (pos + (length ?d + 1)) str = m_string f @ SOH # rest"
    using arg_cong [OF str, of "drop (length ?d + 1)"] by (simp add: add.commute)
  then have val: "substr str (pos + length ?d + 1) ?e = m_string f" by (simp add: substr_def)
  have raw: "substr (str @ [NUL]) pos (?e + 1) = getFixString f"
    using d len by (simp add: substr_def getFixString_eq)
  have first: "str ! pos = ?d ! 0" using str len by (metis (no_types, lifting) append_Cons append_assoc decimal_nonempty
      hd_append2 hd_conv_nth hd_drop_conv_nth length_append length_greater_0_conv less_add_same_cancel1 trans_less_add1 getFixString_eq)
  have conv: "int_convert signed_int ?d = Some (m_tag f)" using r
    by (intro int_convert_decimal [OF int_types_ok(1)]) (simp_all add: readable_def int32_def signed_int_def)
  have dat: "\<not> IsDataField (m_tag f) None None" by (simp add: IsDataField_def)
  have "extractField str pos None None None t msg = extract_at str pos (pos + length ?d) ?e None None None msg"
    unfolding extractField.simps [of str pos] e Let_def q using len by (simp add: getFixString_eq)
  also have "\<dots> = Ok (reread f, ?e + 1, msg)"
    unfolding extract_at_def tag conv option.simps Let_def if_not_P [OF dat] rbind.simps val raw first
    using decimal_first [of "m_tag f"] by (auto simp: reread_def raw_metrics canonical_metrics)
  finally show ?thesis by (simp add: getFixString_eq)
qed

section \<open>Reading all fields\<close>

definition count_up :: "FieldBase \<Rightarrow> decode_state \<Rightarrow> decode_state" where
  "count_up f st = st\<lparr>ds_precedingTag := m_tag f,
     ds_count := (if ds_count st < 3 then ds_count st + 1 else ds_count st)\<rparr>"

fun read_fields :: "FieldBase list \<Rightarrow> decode_state \<times> Message \<Rightarrow> decode_state \<times> Message" where
  "read_fields [] x = x"
| "read_fields (f # fs) (st, msg) =
     read_fields fs (placed_state (count_up f st) (reread f), placed (count_up f st) (reread f) msg)"

lemma read_fields_append: "read_fields (fs @ gs) x = read_fields gs (read_fields fs x)"
  by (induction fs x rule: read_fields.induct) simp_all

fun in_front :: "nat \<Rightarrow> FieldBase list \<Rightarrow> bool" where
  "in_front n [] = True"
| "in_front n (f # fs) = ((n < 3 \<longrightarrow> headerOrder ! n = m_tag f) \<and> in_front (n + 1) fs)"

lemma in_front_3: "3 \<le> n \<Longrightarrow> in_front n fs"
  by (induction n fs rule: in_front.induct) auto

lemma setString_loop_reads:
  assumes "list_all readable fs" "drop pos str = concat (map getFixString fs)" "ds_appDD st = None"
    "in_front (ds_count st) fs" "length fs < fuel"
  shows "setString_loop fuel str v None st pos msg = Some (Ok (snd (read_fields fs (st, msg))))"
  using assms
proof (induction fs arbitrary: pos st msg fuel)
  case Nil
  then show ?case by (simp add: setString_loop.simps)
next
  case (Cons f fs)
  from Cons.prems(5) obtain n where n: "fuel = Suc n" "length fs < n" by (cases fuel) auto
  have ne: "getFixString f \<noteq> []" by (simp add: getFixString_eq)
  have pos: "\<not> length str \<le> pos" using Cons.prems(2) ne by auto
  have read: "extractField str pos None None None (ds_precedingTag st) msg =
      Ok (reread f, pos + length (getFixString f), msg)"
    using Cons.prems by (intro extractField_reread) auto
  have st1: "ds_appDD (count_up f st) = None" using Cons.prems by (simp add: count_up_def)
  have "setString_loop n str v None (placed_state (count_up f st) (reread f)) (pos + length (getFixString f))
      (placed (count_up f st) (reread f) msg) = Some (Ok (snd (read_fields (f # fs) (st, msg))))"
    unfolding read_fields.simps
  proof (rule Cons.IH)
    show "drop (pos + length (getFixString f)) str = concat (map getFixString fs)"
      using arg_cong [OF Cons.prems(2), of "drop (length (getFixString f))"] by (simp add: add.commute del: getFixString_eq)
    show "in_front (ds_count (placed_state (count_up f st) (reread f))) fs"
      using Cons.prems(4) in_front_3 by (cases "ds_count st < 3") (auto simp: placed_state_def count_up_def)
  qed (use Cons.prems st1 n in auto)
  then show ?case
    using Cons.prems(3,4) pos read place_field_plain [OF st1, of str "reread f"]
    by (subst n(1), subst setString_loop.simps) (simp add: Let_def count_up_def)
qed

lemma read_header:
  assumes "list_all (\<lambda>f. isHeaderField_tag (m_tag f)) fs" "ds_type st = ft_header"
  obtains st' where "read_fields fs (st, msg) = (st', msg\<lparr>m_header := set_fields (m_fields (m_header msg) @ map reread fs) (m_header msg)\<rparr>)"
    "ds_type st' = ft_header"
  using assms
proof (induction fs arbitrary: st msg thesis)
  case Nil
  then show ?case by (cases "m_header msg") (simp add: set_fields_def)
next
  case (Cons f fs)
  show ?case
    by (rule Cons.IH [of "placed_state (count_up f st) (reread f)" "placed (count_up f st) (reread f) msg"])
      (use Cons.prems in \<open>auto simp: placed_def placed_state_def count_up_def appendField_def set_fields_def\<close>)
qed

lemma read_body:
  assumes "list_all (\<lambda>f. \<not> isHeaderField_tag (m_tag f) \<and> \<not> isTrailerField_tag (m_tag f)) fs" "ds_type st \<noteq> ft_trailer"
  obtains st' where "read_fields fs (st, msg) = (st', msg\<lparr>m_body := set_fields (m_fields (m_body msg) @ map reread fs) (m_body msg)\<rparr>)"
  using assms
proof (induction fs arbitrary: st msg thesis)
  case Nil
  then show ?case by (cases "m_body msg") (simp add: set_fields_def)
next
  case (Cons f fs)
  show ?case
    by (rule Cons.IH [of "placed_state (count_up f st) (reread f)" "placed (count_up f st) (reread f) msg"])
      (use Cons.prems in \<open>auto simp: placed_def placed_state_def count_up_def appendField_def set_fields_def\<close>)
qed

lemma read_trailer:
  assumes "list_all (\<lambda>f. \<not> isHeaderField_tag (m_tag f) \<and> isTrailerField_tag (m_tag f)) fs"
  obtains st' where "read_fields fs (st, msg) = (st', msg\<lparr>m_trailer := set_fields (m_fields (m_trailer msg) @ map reread fs) (m_trailer msg)\<rparr>)"
  using assms
proof (induction fs arbitrary: st msg thesis)
  case Nil
  then show ?case by (cases "m_trailer msg") (simp add: set_fields_def)
next
  case (Cons f fs)
  show ?case
    by (rule Cons.IH [of "placed_state (count_up f st) (reread f)" "placed (count_up f st) (reread f) msg"])
      (use Cons.prems in \<open>auto simp: placed_def placed_state_def count_up_def appendField_def set_fields_def\<close>)
qed

text \<open>The message the decoder builds of the fields of a message whose parts hold their own fields.\<close>

definition read_back :: "Message \<Rightarrow> Message" where
  "read_back msg = new_Message\<lparr>
     m_header := set_fields (map reread (m_fields (m_header msg))) (m_header new_Message),
     m_body := set_fields (map reread (m_fields (m_body msg))) (m_body new_Message),
     m_trailer := set_fields (map reread (m_fields (m_trailer msg))) (m_trailer new_Message)\<rparr>"

definition in_parts :: "Message \<Rightarrow> bool" where
  "in_parts msg =
     (list_all (\<lambda>f. isHeaderField_tag (m_tag f)) (m_fields (m_header msg)) \<and>
      list_all (\<lambda>f. \<not> isHeaderField_tag (m_tag f) \<and> \<not> isTrailerField_tag (m_tag f)) (m_fields (m_body msg)) \<and>
      list_all (\<lambda>f. isTrailerField_tag (m_tag f)) (m_fields (m_trailer msg)))"

lemma trailer_not_header: "isTrailerField_tag t \<Longrightarrow> \<not> isHeaderField_tag t"
  by (auto simp: isTrailerField_tag_def isHeaderField_tag_def header_tags_def)

lemma read_parts:
  assumes "in_parts msg" "ds_type st = ft_header"
  shows "snd (read_fields (parts msg) (st, new_Message)) = read_back msg"
proof -
  have p: "list_all (\<lambda>f. isHeaderField_tag (m_tag f)) (m_fields (m_header msg))"
    "list_all (\<lambda>f. \<not> isHeaderField_tag (m_tag f) \<and> \<not> isTrailerField_tag (m_tag f)) (m_fields (m_body msg))"
    "list_all (\<lambda>f. \<not> isHeaderField_tag (m_tag f) \<and> isTrailerField_tag (m_tag f)) (m_fields (m_trailer msg))"
    using assms(1) trailer_not_header by (auto simp: in_parts_def list_all_iff)
  have new: "m_fields (m_header new_Message) = []" "m_fields (m_body new_Message) = []" "m_fields (m_trailer new_Message) = []"
    by (simp_all add: new_Message_def mk_FieldMap_def)
  let ?m1 = "new_Message\<lparr>m_header := set_fields (map reread (m_fields (m_header msg))) (m_header new_Message)\<rparr>"
  let ?m2 = "?m1\<lparr>m_body := set_fields (map reread (m_fields (m_body msg))) (m_body new_Message)\<rparr>"
  obtain st1 where 1: "read_fields (m_fields (m_header msg)) (st, new_Message) = (st1, ?m1)" "ds_type st1 \<noteq> ft_trailer"
    using read_header [OF p(1) assms(2), of new_Message] new by (metis append_Nil field_type.distinct(3))
  obtain st2 where 2: "read_fields (m_fields (m_body msg)) (st1, ?m1) = (st2, ?m2)"
    using read_body [OF p(2) 1(2), of ?m1] new by auto
  obtain st3 where "read_fields (m_fields (m_trailer msg)) (st2, ?m2) = (st3, read_back msg)"
    using read_trailer [OF p(3), of st2 ?m2] new by (auto simp: read_back_def)
  then show ?thesis unfolding parts_def read_fields_append 1(1) 2 by simp
qed

section \<open>The message read back\<close>

lemma plain_text: "plain msg \<Longrightarrow> calculateString (m_header msg) @ calculateString (m_body msg) @ calculateString (m_trailer msg) =
    concat (map getFixString (parts msg))"
  by (simp add: plain_def calculateString.simps parts_def)

lemma sorted_reread:
  "sorted_tags (order_compare order) fs \<Longrightarrow> is_sorted (field_less order) (map reread fs)"
  by (induction "field_less order" fs rule: is_sorted.induct) (auto simp: sorted_tags_def field_less_def)

lemma header_frame3:
  assumes ok: "map_ok h" "distinct_tags h" "m_mode (m_order h) = mode_header"
    and t: "8 \<in> m_tag ` set (m_fields h)" "9 \<in> m_tag ` set (m_fields h)" "35 \<in> m_tag ` set (m_fields h)"
  obtains b l k r where "m_fields h = b # l # k # r" "m_tag b = 8" "m_tag l = 9" "m_tag k = 35"
proof -
  obtain b l fs where b: "m_fields h = b # l # fs" "m_tag b = 8" "m_tag l = 9"
    by (rule header_frame [OF ok t(1,2)])
  have less: "order_compare (m_order h) = header_order_compare" using ok(3) by (simp add: order_compare_def fun_eq_iff)
  have s: "sorted_tags header_order_compare (m_fields h)" using ok(1) less by (simp add: map_ok_def)
  have d: "distinct (map m_tag (m_fields h))" using ok(2) by (simp add: distinct_tags_def)
  obtain k r where "fs = k # r" "m_tag k = 35"
  proof (rule sorted_first [of header_order_compare fs 35])
    show "sorted_tags header_order_compare fs" "distinct (map m_tag fs)" "35 \<in> m_tag ` set fs"
      using s d t(3) b by auto
    show "header_order_compare 35 x" if "x \<in> m_tag ` set fs" "x \<noteq> 35" for x
      using that d b by (auto simp: header_order_compare_def compare_positions_def header_getOrderedPosition_def)
  qed
  with b that show thesis by blast
qed

text \<open>Messages whose encoding can be read without a dictionary: no groups, every field in its
  own part, a MsgType, no SOH inside a value.\<close>

definition exchangeable :: "Message \<Rightarrow> bool" where
  "exchangeable msg =
     (sendable msg \<and> plain msg \<and> in_parts msg \<and> TAG_MsgType \<in> m_tag ` set (m_fields (m_header msg)) \<and>
      m_mode (m_order (m_body msg)) = mode_normal \<and> list_all readable (parts msg) \<and>
      int32 (bodyLength TAG_BeginString TAG_BodyLength TAG_CheckSum msg))"

lemma readable_setField:
  assumes "map_ok m" "list_all readable (m_fields m)" "readable x"
  shows "list_all readable (m_fields (setField x m))"
proof -
  have i: "int32 (m_tag x)" using assms(3) by (simp add: readable_def)
  from assms(1) i show ?thesis
  proof (cases rule: setField_fields_cases)
    case (old i)
    have "readable (field_setString (m_string x) (m_fields m ! i))"
      using assms old by (simp add: readable_def) (simp add: field_setString_def)
    with old assms(2) show ?thesis by (auto simp: list_all_iff dest!: subsetD [OF set_update_subset_insert])
  qed (use assms in auto)
qed

lemma exchangeable_encoded:
  fixes n :: int and c :: string
  assumes ex: "exchangeable msg" and c: "SOH \<notin> set c"
  defines "msg' \<equiv> msg\<lparr>m_header := setField (IntField 9 n) (m_header msg), m_trailer := setField (mk_FieldBase 10 c) (m_trailer msg)\<rparr>"
  shows "plain msg'" "in_parts msg'" "list_all readable (parts msg')" "in_front 0 (parts msg')"
    "map_ok (m_header msg')" "map_ok (m_body msg')" "map_ok (m_trailer msg')"
proof -
  have s: "map_ok (m_header msg)" "map_ok (m_body msg)" "map_ok (m_trailer msg)"
    "encodable (m_header msg)" "encodable (m_trailer msg)"
    using ex by (simp_all add: exchangeable_def sendable_def)
  have i: "int32 (m_tag (IntField 9 n))" "int32 (m_tag (mk_FieldBase 10 c))" "m_tag (mk_FieldBase 10 c) = 10"
    by (simp_all add: mk_FieldBase_def)
  have th: "m_tag ` set (m_fields (m_header msg')) = insert 9 (m_tag ` set (m_fields (m_header msg)))"
    and tt: "m_tag ` set (m_fields (m_trailer msg')) = insert 10 (m_tag ` set (m_fields (m_trailer msg)))"
    using setField_tags(1) [OF s(1) i(1)] setField_tags(1) [OF s(3) i(2)] i(3) by (simp_all add: msg'_def)
  show "plain msg'" using ex by (simp add: exchangeable_def plain_def msg'_def)
  show m: "map_ok (m_header msg')" "map_ok (m_body msg')" "map_ok (m_trailer msg')"
    using s i fields.ok_put by (simp_all add: msg'_def)
  have "\<forall>t \<in> m_tag ` set (m_fields (m_header msg')). isHeaderField_tag t"
    "\<forall>t \<in> m_tag ` set (m_fields (m_trailer msg')). isTrailerField_tag t"
    using ex unfolding th tt
    by (auto simp: exchangeable_def in_parts_def list_all_iff) (simp_all add: isHeaderField_tag_def header_tags_def isTrailerField_tag_def)
  then show "in_parts msg'"
    using ex by (auto simp: exchangeable_def in_parts_def list_all_iff msg'_def)
  have "readable (IntField 9 n)" "readable (mk_FieldBase 10 c)"
    using c by (simp_all add: readable_def) (simp_all add: mk_FieldBase_def IntField_def integer_to_string_decimal)
  then show "list_all readable (parts msg')"
    using ex s readable_setField by (simp add: parts_def exchangeable_def msg'_def)
  have d: "distinct_tags (m_header msg')"
    using setField_tags(2) [OF s(1) i(1)] encodable_simps [OF s(4)] by (simp add: msg'_def)
  have mode: "m_mode (m_order (m_header msg')) = mode_header"
    using ex by (simp add: exchangeable_def sendable_def msg'_def)
  have "{8, 9, 35} \<subseteq> m_tag ` set (m_fields (m_header msg'))"
    using ex unfolding th by (auto simp: exchangeable_def sendable_def)
  then have t: "8 \<in> m_tag ` set (m_fields (m_header msg'))" "9 \<in> m_tag ` set (m_fields (m_header msg'))"
    "35 \<in> m_tag ` set (m_fields (m_header msg'))" by simp_all
  obtain b l k r where "m_fields (m_header msg') = b # l # k # r" "m_tag b = 8" "m_tag l = 9" "m_tag k = 35"
    by (rule header_frame3 [OF m(1) d mode t])
  then show "in_front 0 (parts msg')" by (simp add: parts_def headerOrder_def in_front_3)
qed

lemma order_mode: "m_mode (m_order m) = mode \<Longrightarrow> mode \<noteq> mode_group \<Longrightarrow>
    order_compare (m_order m) = order_compare (message_order_mode mode)"
  by (cases mode) (auto simp: order_compare_def message_order_mode_def fun_eq_iff)

lemma read_back_map_ok:
  assumes "map_ok m" "m_mode (m_order m) = mode" "mode \<noteq> mode_group"
  shows "map_ok (set_fields (map reread (m_fields m)) (mk_FieldMap (message_order_mode mode)))"
    "sortFields (set_fields (map reread (m_fields m)) (mk_FieldMap (message_order_mode mode))) =
      set_fields (map reread (m_fields m)) (mk_FieldMap (message_order_mode mode))"
proof -
  have s: "sorted_tags (order_compare (message_order_mode mode)) (m_fields m)"
    using assms order_mode by (metis map_ok_def)
  then have "sorted_tags (order_compare (message_order_mode mode)) (map reread (m_fields m))"
    by (simp add: sorted_tags_def sorted_wrt_map)
  then show "map_ok (set_fields (map reread (m_fields m)) (mk_FieldMap (message_order_mode mode)))"
    by (simp add: map_ok_def mk_FieldMap_def smap_ok_def)
  show "sortFields (set_fields (map reread (m_fields m)) (mk_FieldMap (message_order_mode mode))) =
      set_fields (map reread (m_fields m)) (mk_FieldMap (message_order_mode mode))"
    using sorted_reread [OF s] by (simp add: sortFields_def mk_FieldMap_def)
qed

lemma find_reread: "find (\<lambda>f. m_tag f = t) (map reread fs) = map_option reread (find (\<lambda>f. m_tag f = t) fs)"
  by (induction fs) auto

lemma reread_getFieldRef:
  assumes "map_ok m" "int32 t" "m_fields m = map reread (m_fields m0)" "field_value m0 t = Some s" "convert s = Some v"
  shows "rbind (getFieldRef m t) (valueOf convert) = Ok v"
proof -
  obtain f where f: "find (\<lambda>f. m_tag f = t) (m_fields m0) = Some f" "m_string f = s"
    using assms(4) by (auto simp: field_value_def)
  then show ?thesis
    using assms(1-3,5) by (simp add: getFieldRef_def getFieldIfSet_find find_reread valueOf_def)
qed

lemma sum_reread:
  "list_all readable fs \<Longrightarrow> sum_list (map getLength (filter (\<lambda>f. p (m_tag f)) (map reread fs))) =
     sum_list (map getLength (filter (\<lambda>f. p (m_tag f)) fs))"
  "list_all readable fs \<Longrightarrow> sum_list (map getTotal (filter (\<lambda>f. p (m_tag f)) (map reread fs))) =
     sum_list (map getTotal (filter (\<lambda>f. p (m_tag f)) fs))"
  by (induction fs) (simp_all add: reread_metrics)

lemma read_back_sums:
  assumes "list_all readable (parts msg)" "plain msg"
  shows "bodyLength b l c (read_back msg) = bodyLength b l c msg" "checkSum c (read_back msg) = checkSum c msg"
  using assms
    sum_reread(1) [where p = "\<lambda>t. t \<noteq> b \<and> t \<noteq> l \<and> t \<noteq> c"] sum_reread(2) [where p = "\<lambda>t. t \<noteq> c"]
  by (simp_all add: bodyLength_def checkSum_def calculateLength.simps calculateTotal.simps read_back_def
      new_Message_def mk_FieldMap_def parts_def plain_def)

lemma checksum_text:
  assumes "CheckSumConvertor_string v = Some c"
  shows "SOH \<notin> set c" "CheckSumConvertor_convert c = Some v" "0 \<le> v" "v < 256"
proof -
  show v: "0 \<le> v" "v < 256" using assms by (auto simp: CheckSumConvertor_string_def split: if_splits)
  from CheckSum_string_Some [OF v] assms show conv: "CheckSumConvertor_convert c = Some v" by auto
  have "\<not> is_digit SOH" by (simp add: is_digit_def byte_def)
  then show "SOH \<notin> set c"
    using conv unfolding CheckSumConvertor_convert_def int_convert_iff [OF int_types_ok(1)]
    by (auto simp: int_literal_def list_all_iff split: list.splits if_splits)
qed

lemma read_back_validates:
  assumes ok: "map_ok (m_header (read_back m))" "map_ok (m_trailer (read_back m))"
    and h: "field_value (m_header m) 9 = Some (decimal (bodyLength 8 9 10 m))" "int32 (bodyLength 8 9 10 m)"
    and t: "field_value (m_trailer m) 10 = Some c" "CheckSumConvertor_convert c = Some (checkSum 10 m)"
      "0 \<le> checkSum 10 m" "checkSum 10 m < 256"
    and r: "list_all readable (parts m)" "plain m"
  shows "Message_validate (read_back m) = Ok ()"
proof -
  have "int_convert signed_int (decimal (bodyLength 8 9 10 m)) = Some (bodyLength 8 9 10 m)"
    using h(2) by (intro int_convert_decimal [OF int_types_ok(1)]) (simp_all add: int32_def signed_int_def)
  then have n: "rbind (getFieldRef (m_header (read_back m)) 9) IntField_valueOf = Ok (bodyLength 8 9 10 m)"
    unfolding IntField_valueOf_def using ok(1) h(1) by (intro reread_getFieldRef) (auto simp: read_back_def)
  have c: "rbind (getFieldRef (m_trailer (read_back m)) 10) CheckSumField_valueOf = Ok (checkSum 10 m)"
    unfolding CheckSumField_valueOf_def using ok(2) t by (intro reread_getFieldRef) (auto simp: read_back_def)
  have "m_embeddedSOHSkippedLength (read_back m) = 0" "m_embeddedSOHSkippedChecksum (read_back m) = 0"
    by (simp_all add: read_back_def new_Message_def)
  then show ?thesis
    unfolding Message_validate_def n c sum.case read_back_sums [OF r] using t(3,4) by (simp add: smod_pos)
qed

lemma read_text:
  assumes "in_parts m" "list_all readable (parts m)" "in_front 0 (parts m)"
  defines "w \<equiv> concat (map getFixString (parts m))"
  shows "setString_loop (length w + 1) w v None
      \<lparr>ds_count = 0, ds_type = ft_header, ds_precedingTag = 0, ds_msgType = [], ds_appDD = None\<rparr> 0 new_Message =
      Some (Ok (read_back m))"
proof -
  have "length fs \<le> length (concat (map getFixString fs))" for fs
    by (induction fs) (auto simp: getFixString_eq)
  then have "length (parts m) < length w + 1" by (simp add: w_def le_imp_less_Suc)
  from setString_loop_reads [OF assms(2) _ _ _ this, of 0 w] show ?thesis
    using assms(3) read_parts [OF assms(1)] by (simp add: w_def)
qed

lemma exchange:
  assumes ex: "exchangeable msg"
  obtains w msg' where "Message_toString msg = Ok (w, msg')" "setString w True None None new_Message = Some (Ok (read_back msg'))"
proof -
  define n where "n = bodyLength 8 9 10 msg"
  let ?msg1 = "msg\<lparr>m_header := setField (IntField 9 n) (m_header msg)\<rparr>"
  have "8 \<in> m_tag ` set (m_fields (m_header msg))" using ex by (simp add: exchangeable_def sendable_def)
  then obtain b where b: "field_value (m_header msg) 8 = Some b"
    by (cases "field_value (m_header msg) 8") (auto simp: field_value_def find_None_iff)
  have snd: "sendable msg" using ex by (simp add: exchangeable_def)
  from toString_framed [OF this b] obtain c where c: "CheckSumConvertor_string (checkSum 10 ?msg1) = Some c"
    by (cases "CheckSumConvertor_string (checkSum 10 ?msg1)") (auto simp: Message_toString_def n_def Let_def)
  let ?m = "msg\<lparr>m_header := setField (IntField 9 n) (m_header msg), m_trailer := setField (mk_FieldBase 10 c) (m_trailer msg)\<rparr>"
  note cs = checksum_text [OF c] and E = exchangeable_encoded [OF ex checksum_text(1) [OF c], of n]
  have ok: "map_ok (m_header msg)" "map_ok (m_trailer msg)" using snd by (simp_all add: sendable_def)
  have i: "int32 (m_tag (IntField 9 n))" "int32 (m_tag (mk_FieldBase 10 c))" "m_tag (mk_FieldBase 10 c) = 10"
    by (simp_all add: mk_FieldBase_def)
  let ?w = "concat (map getFixString (parts ?m))"
  have str: "Message_toString msg = Ok (?w, ?m)"
    using c plain_text [OF E(1)] by (simp add: Message_toString_def n_def Let_def)
  note loop = read_text [OF E(2-4), of True]
  have modes: "m_mode (m_order (m_header ?m)) = mode_header" "m_mode (m_order (m_body ?m)) = mode_normal"
    "m_mode (m_order (m_trailer ?m)) = mode_trailer"
    using ex by (simp_all add: exchangeable_def sendable_def)
  note R = read_back_map_ok [OF E(5) modes(1)] read_back_map_ok [OF E(6) modes(2)] read_back_map_ok [OF E(7) modes(3)]
  have sorted: "sort_all (read_back ?m) = read_back ?m"
    using R by (simp add: sort_all_def read_back_def new_Message_def)
  have len: "bodyLength 8 9 10 ?m = n" "checkSum 10 ?m = checkSum 10 ?msg1"
    using calculateLength_setField [OF ok(1) i(1)] calculateLength_setField [OF ok(2) i(2)]
      calculateTotal_setField [OF ok(2) i(2)]
    by (simp_all add: n_def bodyLength_def checkSum_def i(3))
  have "Message_validate (read_back ?m) = Ok ()"
  proof (rule read_back_validates)
    show "map_ok (m_header (read_back ?m))" "map_ok (m_trailer (read_back ?m))"
      using R by (simp_all add: read_back_def new_Message_def)
    show "field_value (m_header ?m) 9 = Some (decimal (bodyLength 8 9 10 ?m))"
      unfolding len using fields.get_put [OF ok(1) i(1), of 9] by simp
    show "field_value (m_trailer ?m) 10 = Some c"
      using fields.get_put [OF ok(2) i(2), of 10] i(3) by (simp add: mk_FieldBase_def)
    show "int32 (bodyLength 8 9 10 ?m)" unfolding len using ex by (simp add: exchangeable_def n_def)
  qed (use cs len E in simp_all)
  with loop sorted have "setString ?w True None None new_Message = Some (Ok (read_back ?m))"
    by (simp add: setString_def Message_clear_def new_Message_def clear_def mk_FieldMap_def)
  with str that show thesis by blast
qed

section \<open>A message to try it on\<close>

lemma mk_FieldBase_sel: "m_tag (mk_FieldBase t s) = t" "m_string (mk_FieldBase t s) = s"
  by (simp_all add: mk_FieldBase_def)

definition heartbeat42 :: Message where
  "heartbeat42 = new_Message\<lparr>m_header := setField (mk_FieldBase TAG_MsgType ''0'')
     (setField (mk_FieldBase TAG_BeginString ''FIX.4.2'') (m_header new_Message))\<rparr>"

lemma heartbeat42_fields:
  "m_fields (m_header heartbeat42) = [mk_FieldBase 8 ''FIX.4.2'', mk_FieldBase 35 ''0'']"
  "m_fields (m_body heartbeat42) = []" "m_fields (m_trailer heartbeat42) = []"
  "m_groups (m_header heartbeat42) = []" "m_groups (m_body heartbeat42) = []" "m_groups (m_trailer heartbeat42) = []"
  "m_mode (m_order (m_body heartbeat42)) = mode_normal"
  by (code_simp, code_simp, code_simp, code_simp, code_simp, code_simp, code_simp)

lemma heartbeat42_exchangeable: "exchangeable heartbeat42"
proof -
  have "sendable heartbeat42"
    using sendable_header_setField [OF sendable_start [of "''FIX.4.2''"], of "mk_FieldBase 35 ''0''"]
    by (simp add: heartbeat42_def mk_FieldBase_sel)
  moreover have "plain heartbeat42" by (simp add: plain_def heartbeat42_fields)
  moreover have "in_parts heartbeat42"
    by (simp add: in_parts_def heartbeat42_fields isHeaderField_tag_def header_tags_def mk_FieldBase_sel)
  moreover have "list_all readable (parts heartbeat42)"
    by (simp add: parts_def heartbeat42_fields readable_def mk_FieldBase_sel)
  moreover have "decimal 35 = ''35''" by code_simp
  then have "bodyLength 8 9 10 heartbeat42 = 5"
    using metrics_of_encoding(1) [OF metrics_ok_fresh(1), of 35 "''0''"]
    by (simp add: bodyLength_def calculateLength.simps heartbeat42_fields getFixString_eq mk_FieldBase_sel)
  then have "int32 (bodyLength 8 9 10 heartbeat42)" by (simp add: int32_def)
  ultimately show ?thesis by (simp add: exchangeable_def heartbeat42_fields mk_FieldBase_sel)
qed

section \<open>Properties\<close>



text \<open>C4: integrity of accepted messages. When \<open>setString\<close> validates and accepts a text without
  a dictionary, the BodyLength of the message is the length of the text less its BeginString,
  BodyLength and CheckSum fields, and its CheckSum is the sum of all bytes less those of the CheckSum field,
  modulo 256. Bytes the decoder skips (tokens left by an embedded SOH, leading zeros of a tag)
  are accounted for.\<close>

theorem setString_integrity:
  assumes "setString str True None None msg = Some (Ok m)"
  shows "\<exists>n c. rbind (getFieldRef (m_header m) TAG_BodyLength) IntField_valueOf = Ok n \<and>
      n mod 2 ^ 64 = (int (length str) - framing_length m) mod 2 ^ 64 \<and>
      rbind (getFieldRef (m_trailer m) TAG_CheckSum) CheckSumField_valueOf = Ok c \<and>
      c mod 256 = (int (byte_sum str) - framing_total m) mod 256"
proof -
  from assms obtain m0 where "wire_inv str (length str) m0" "m = sort_all m0" "Message_validate m = Ok ()"
    by (rule setString_plainE) simp
  then show ?thesis using validate_accepts wire_inv_sort by blast
qed

theorem setString_integrity_witness:
  "\<exists>str m n c. setString str True None None new_Message = Some (Ok m) \<and>
     rbind (getFieldRef (m_header m) TAG_BodyLength) IntField_valueOf = Ok n \<and>
     n mod 2 ^ 64 = (int (length str) - framing_length m) mod 2 ^ 64 \<and>
     rbind (getFieldRef (m_trailer m) TAG_CheckSum) CheckSumField_valueOf = Ok c \<and>
     c mod 256 = (int (byte_sum str) - framing_total m) mod 256"
proof -
  obtain w msg' where "setString w True None None new_Message = Some (Ok (read_back msg'))"
    by (rule exchange [OF heartbeat42_exchangeable])
  with setString_integrity [OF this] show ?thesis by blast
qed

end
