(* ===== verification/MessageRouting.thy ===== *)
theory MessageRouting
  imports MessageRoundTrip
begin

text \<open>
  \<open>Message::reverseRoute\<close>: the routing fields of a reply are those of the message it answers with
  the two sides exchanged.
\<close>

section \<open>Removing and copying fields\<close>

definition header_ok :: "FieldMap \<Rightarrow> bool" where
  "header_ok m = (map_ok m \<and> distinct_tags m)"

lemma header_ok_without: "header_ok m \<Longrightarrow> header_ok (without t m)"
  by (simp add: header_ok_def map_ok_without)
    (simp add: distinct_tags_def without_def distinct_map inj_on_def)

lemma removeField_value:
  assumes "header_ok m" "int32 t"
  shows "header_ok (removeField t m)" "field_value (removeField t m) x = (if x = t then None else field_value m x)"
proof -
  have "removeField t m = (if isSetField m t then without t m else m)"
    using assms removeField_without removeField_absent by (auto simp: header_ok_def isSetField_def)
  then show "header_ok (removeField t m)" "field_value (removeField t m) x = (if x = t then None else field_value m x)"
    using assms isSetField_value [of m t] by (auto simp: header_ok_without field_value_without) (auto simp: header_ok_def)
qed

text \<open>An empty routing field is not copied.\<close>

definition non_empty :: "string option \<Rightarrow> string option" where
  "non_empty v = (if v = Some [] then None else v)"

lemma copy_if_set_value:
  assumes "header_ok m" "int32 G" "header_ok from" "int32 F"
  shows "header_ok (copy_if_set from F G m)"
    "field_value (copy_if_set from F G m) x =
       (if x = G \<and> non_empty (field_value from F) \<noteq> None then field_value from F else field_value m x)"
proof -
  have get: "getFieldIfSet from F = find (\<lambda>f. m_tag f = F) (m_fields from)"
    using assms(3,4) by (simp add: getFieldIfSet_find header_ok_def)
  have put: "header_ok (setField (mk_FieldBase G v) m)"
    "field_value (setField (mk_FieldBase G v) m) x = (if x = G then Some v else field_value m x)" for v
    using assms(1,2) fields.ok_put [of m "mk_FieldBase G v"] fields.get_put [of m "mk_FieldBase G v" x]
      setField_tags(2) [of m "mk_FieldBase G v"]
    by (simp_all add: header_ok_def mk_FieldBase_sel)
  show "header_ok (copy_if_set from F G m)"
    "field_value (copy_if_set from F G m) x =
       (if x = G \<and> non_empty (field_value from F) \<noteq> None then field_value from F else field_value m x)"
    using assms(1) put unfolding copy_if_set_def get field_value_def [of "from" F] non_empty_def
    by (auto split: option.split)
qed

lemma removeFields_value:
  assumes "header_ok m" "list_all int32 ts"
  shows "header_ok (fold removeField ts m) \<and>
    (\<forall>x. field_value (fold removeField ts m) x = (if x \<in> set ts then None else field_value m x))"
  using assms by (induction ts arbitrary: m) (auto simp: removeField_value)

definition route_version :: "FieldMap \<Rightarrow> FieldMap \<Rightarrow> FieldMap" where
  "route_version header h =
     (case getFieldIfSet header TAG_BeginString of
        None \<Rightarrow> h
      | Some b \<Rightarrow>
          let h = copy_if_set header TAG_BeginString TAG_BeginString h;
              h = fold removeField [TAG_OnBehalfOfLocationID, TAG_DeliverToLocationID] h
          in if m_string b \<ge> ''FIX.4.1'' then
               copy_if_set header TAG_DeliverToLocationID TAG_OnBehalfOfLocationID
                 (copy_if_set header TAG_OnBehalfOfLocationID TAG_DeliverToLocationID h)
             else h)"

definition route_sides :: "FieldMap \<Rightarrow> FieldMap \<Rightarrow> FieldMap" where
  "route_sides header h =
     copy_if_set header TAG_DeliverToSubID TAG_OnBehalfOfSubID
      (copy_if_set header TAG_DeliverToCompID TAG_OnBehalfOfCompID
      (copy_if_set header TAG_OnBehalfOfSubID TAG_DeliverToSubID
      (copy_if_set header TAG_OnBehalfOfCompID TAG_DeliverToCompID
      (fold removeField [TAG_OnBehalfOfCompID, TAG_OnBehalfOfSubID, TAG_DeliverToCompID, TAG_DeliverToSubID]
      (copy_if_set header TAG_TargetCompID TAG_SenderCompID
      (copy_if_set header TAG_SenderCompID TAG_TargetCompID h))))))"

lemma reverseRoute_stages:
  "m_header (reverseRoute header msg) = route_sides header (route_version header
     (fold removeField [TAG_BeginString, TAG_SenderCompID, TAG_TargetCompID] (m_header msg)))"
  by (simp add: reverseRoute_def route_sides_def route_version_def Let_def)

lemma routing_int32 [simp]:
  "int32 49" "int32 56" "int32 115" "int32 116" "int32 128" "int32 129" "int32 144" "int32 145"
  by (simp_all add: int32_def)

lemma route_version_value:
  assumes h: "header_ok header" "header_ok m"
  shows "header_ok (route_version header m) \<and>
    (\<forall>x. x \<notin> {TAG_OnBehalfOfLocationID, TAG_DeliverToLocationID} \<longrightarrow>
      field_value (route_version header m) x =
        (if x = TAG_BeginString \<and> non_empty (field_value header TAG_BeginString) \<noteq> None
         then field_value header TAG_BeginString else field_value m x))"
proof (cases "getFieldIfSet header TAG_BeginString")
  case None
  then have "field_value header TAG_BeginString = None"
    using h(1) by (simp add: getFieldIfSet_find header_ok_def field_value_def)
  with None h show ?thesis by (auto simp: route_version_def non_empty_def)
next
  case (Some b)
  let ?h = "fold removeField [TAG_OnBehalfOfLocationID, TAG_DeliverToLocationID]
      (copy_if_set header TAG_BeginString TAG_BeginString m)"
  have 1: "header_ok (copy_if_set header TAG_BeginString TAG_BeginString m)" using h by (simp add: copy_if_set_value)
  have 2: "header_ok ?h" "field_value ?h x = (if x \<in> {TAG_OnBehalfOfLocationID, TAG_DeliverToLocationID} then None
      else field_value (copy_if_set header TAG_BeginString TAG_BeginString m) x)" for x
    using removeFields_value [OF 1, of "[TAG_OnBehalfOfLocationID, TAG_DeliverToLocationID]"] by (simp_all del: fold_simps)
  show ?thesis
    using h 2 unfolding route_version_def Some option.simps Let_def
    by (simp add: copy_if_set_value del: fold_simps)
qed

lemma route_sides_value:
  assumes h: "header_ok header" "header_ok m"
  shows "field_value (route_sides header m) x =
    (if x = TAG_SenderCompID \<and> non_empty (field_value header TAG_TargetCompID) \<noteq> None then field_value header TAG_TargetCompID
     else if x = TAG_TargetCompID \<and> non_empty (field_value header TAG_SenderCompID) \<noteq> None then field_value header TAG_SenderCompID
     else if x = TAG_OnBehalfOfCompID then non_empty (field_value header TAG_DeliverToCompID)
     else if x = TAG_DeliverToCompID then non_empty (field_value header TAG_OnBehalfOfCompID)
     else if x = TAG_OnBehalfOfSubID then non_empty (field_value header TAG_DeliverToSubID)
     else if x = TAG_DeliverToSubID then non_empty (field_value header TAG_OnBehalfOfSubID)
     else field_value m x)"
proof -
  let ?ts = "[TAG_OnBehalfOfCompID, TAG_OnBehalfOfSubID, TAG_DeliverToCompID, TAG_DeliverToSubID]"
  let ?m = "copy_if_set header TAG_TargetCompID TAG_SenderCompID (copy_if_set header TAG_SenderCompID TAG_TargetCompID m)"
  have 1: "header_ok ?m" using h by (simp add: copy_if_set_value)
  have 2: "header_ok (fold removeField ?ts ?m)"
    "field_value (fold removeField ?ts ?m) x = (if x \<in> set ?ts then None else field_value ?m x)" for x
    using removeFields_value [OF 1, of ?ts] by (simp_all del: fold_simps)
  let ?m2 = "fold removeField ?ts ?m"
  have 3: "field_value (route_sides header m) x =
      (if x = TAG_OnBehalfOfSubID \<and> non_empty (field_value header TAG_DeliverToSubID) \<noteq> None then field_value header TAG_DeliverToSubID
       else if x = TAG_OnBehalfOfCompID \<and> non_empty (field_value header TAG_DeliverToCompID) \<noteq> None then field_value header TAG_DeliverToCompID
       else if x = TAG_DeliverToSubID \<and> non_empty (field_value header TAG_OnBehalfOfSubID) \<noteq> None then field_value header TAG_OnBehalfOfSubID
       else if x = TAG_DeliverToCompID \<and> non_empty (field_value header TAG_OnBehalfOfCompID) \<noteq> None then field_value header TAG_OnBehalfOfCompID
       else field_value ?m2 x)"
    using h 2(1) by (simp only: route_sides_def copy_if_set_value routing_int32)
  have 4: "field_value ?m x = (if x = TAG_SenderCompID \<and> non_empty (field_value header TAG_TargetCompID) \<noteq> None
       then field_value header TAG_TargetCompID
       else if x = TAG_TargetCompID \<and> non_empty (field_value header TAG_SenderCompID) \<noteq> None
       then field_value header TAG_SenderCompID else field_value m x)"
    using h by (simp only: copy_if_set_value routing_int32)
  have ne: "non_empty v \<noteq> None \<Longrightarrow> non_empty v = v" for v by (simp add: non_empty_def split: if_splits)
  show ?thesis
  proof (cases "x \<in> set ?ts")
    case True
    then consider "x = TAG_OnBehalfOfCompID" | "x = TAG_OnBehalfOfSubID" | "x = TAG_DeliverToCompID" | "x = TAG_DeliverToSubID"
      by auto
    then show ?thesis unfolding 3 2(2) by cases (simp_all add: ne)
  next
    case False
    then have "x \<noteq> TAG_OnBehalfOfCompID" "x \<noteq> TAG_OnBehalfOfSubID" "x \<noteq> TAG_DeliverToCompID" "x \<noteq> TAG_DeliverToSubID"
      by simp_all
    with False show ?thesis unfolding 3 2(2) 4 by (simp only: simp_thms if_False)
  qed
qed

section \<open>Properties\<close>

text \<open>\<open>reverseRoute\<close> exchanges the two sides. Whatever routing fields the message had, afterwards its
  SenderCompID is the TargetCompID of the given header and the other way round, OnBehalfOf and
  DeliverTo (company and sub id) are exchanged the same way, a field absent or empty there is absent here, and
  fields that are not routing fields are untouched.\<close>

theorem reverseRoute_exchanges:
  assumes "header_ok header" "header_ok (m_header msg)"
  shows "field_value (m_header (reverseRoute header msg)) TAG_SenderCompID = non_empty (field_value header TAG_TargetCompID) \<and>
    field_value (m_header (reverseRoute header msg)) TAG_TargetCompID = non_empty (field_value header TAG_SenderCompID) \<and>
    field_value (m_header (reverseRoute header msg)) TAG_OnBehalfOfCompID = non_empty (field_value header TAG_DeliverToCompID) \<and>
    field_value (m_header (reverseRoute header msg)) TAG_DeliverToCompID = non_empty (field_value header TAG_OnBehalfOfCompID) \<and>
    field_value (m_header (reverseRoute header msg)) TAG_OnBehalfOfSubID = non_empty (field_value header TAG_DeliverToSubID) \<and>
    field_value (m_header (reverseRoute header msg)) TAG_DeliverToSubID = non_empty (field_value header TAG_OnBehalfOfSubID) \<and>
    field_value (m_header (reverseRoute header msg)) TAG_BeginString = non_empty (field_value header TAG_BeginString) \<and>
    (x \<in> {TAG_BeginString, TAG_SenderCompID, TAG_TargetCompID, TAG_OnBehalfOfCompID, TAG_OnBehalfOfSubID,
        TAG_DeliverToCompID, TAG_DeliverToSubID, TAG_OnBehalfOfLocationID, TAG_DeliverToLocationID} \<or>
     field_value (m_header (reverseRoute header msg)) x = field_value (m_header msg) x)"
proof -
  let ?ts = "[TAG_BeginString, TAG_SenderCompID, TAG_TargetCompID]"
  have 1: "header_ok (fold removeField ?ts (m_header msg))"
    "field_value (fold removeField ?ts (m_header msg)) x = (if x \<in> set ?ts then None else field_value (m_header msg) x)" for x
    using removeFields_value [OF assms(2), of ?ts] by (simp_all del: fold_simps)
  define h where "h = route_version header (fold removeField ?ts (m_header msg))"
  note 2 = route_version_value [OF assms(1) 1(1), folded h_def]
  have h: "header_ok h" using 2 by blast
  have val: "field_value h x =
      (if x = TAG_BeginString then non_empty (field_value header TAG_BeginString)
       else if x \<in> set ?ts then None else field_value (m_header msg) x)"
    if "x \<notin> {TAG_OnBehalfOfLocationID, TAG_DeliverToLocationID}" for x
    using 2 1(2) that by (auto simp: non_empty_def simp del: fold_simps)
  note eq = reverseRoute_stages [of header msg, folded h_def] route_sides_value [OF assms(1) h]
  have none: "field_value h TAG_SenderCompID = None" "field_value h TAG_TargetCompID = None"
    "field_value h TAG_BeginString = non_empty (field_value header TAG_BeginString)"
    using val [of TAG_SenderCompID] val [of TAG_TargetCompID] val [of TAG_BeginString] by simp_all
  have other: "field_value h x = field_value (m_header msg) x" if "x \<notin> set ?ts"
    "x \<notin> {TAG_OnBehalfOfLocationID, TAG_DeliverToLocationID}"
    using val [OF that(2)] that(1) by auto
  show ?thesis
    unfolding eq using none other by (simp add: non_empty_def) blast
qed

text \<open>The header of a message from A to B gives a reply from B to A.\<close>

theorem reverseRoute_exchanges_witness:
  "field_value (m_header (reverseRoute (m_header heartbeat42) heartbeat42)) TAG_BeginString = Some ''FIX.4.2'' \<and>
   field_value (m_header (reverseRoute (m_header heartbeat42) heartbeat42)) TAG_SenderCompID = None \<and>
   field_value (m_header (reverseRoute (m_header heartbeat42) heartbeat42)) TAG_MsgType = Some ''0''"
proof -
  have "header_ok (m_header heartbeat42)"
    using heartbeat42_exchangeable encodable_simps by (simp add: exchangeable_def sendable_def header_ok_def)
  from reverseRoute_exchanges [OF this this, of TAG_MsgType] show ?thesis
    by (simp add: field_value_def [of "m_header heartbeat42"] heartbeat42_fields mk_FieldBase_sel non_empty_def)
qed

end
