(* ===== verification/Validation.thy ===== *)
theory Validation
  imports MessageRoundTrip
begin

text \<open>
  \<open>DataDictionary::iterate\<close> and \<open>DataDictionary::validate\<close> (DataDictionary.cpp): the checks a session makes
  on a decoded message against its session and application dictionaries, and exactly which messages pass them.
\<close>

section \<open>Definitions\<close>

definition hasValidStructure :: "Message \<Rightarrow> bool \<times> int" where
  "hasValidStructure msg = (m_validStructure msg, m_tagOutOfOrder msg)"

definition hasEmbeddedSOH :: "Message \<Rightarrow> bool \<times> int" where
  "hasEmbeddedSOH msg = (m_embeddedSOHTag msg \<noteq> 0, m_embeddedSOHTag msg)"

definition hasOutOfOrderGroupMembers :: "Message \<Rightarrow> bool \<times> int" where
  "hasOutOfOrderGroupMembers msg = (m_outOfOrderGroupTag msg \<noteq> 0, m_outOfOrderGroupTag msg)"

definition iterate_field :: "DataDictionary \<Rightarrow> FieldMap \<Rightarrow> string \<Rightarrow> FieldBase \<Rightarrow> unit result" where
  "iterate_field d m msgType field =
     rbind (checkHasValue d field) (\<lambda>_.
     rbind (if m_hasVersion (dd d)
            then rbind (checkValidFormat d field) (\<lambda>_. checkValue d field) else Ok ()) (\<lambda>_.
     if m_beginString (dd d) \<noteq> [] \<and> shouldCheckTag d field then
       rbind (checkValidTagNumber d field) (\<lambda>_.
       if \<not> isHeaderField (m_tag field) (Some d) \<and> \<not> isTrailerField (m_tag field) (Some d) then
         rbind (checkIsInMessage d field msgType) (\<lambda>_. checkGroupCount d field m msgType)
       else Ok ())
     else Ok ()))"

text \<open>The loop, with the tag of the field before (none at the first).\<close>

primrec iterate_loop :: "DataDictionary \<Rightarrow> FieldMap \<Rightarrow> string \<Rightarrow> int option \<Rightarrow> FieldBase list \<Rightarrow> unit result" where
  "iterate_loop d m msgType lastField [] = Ok ()"
| "iterate_loop d m msgType lastField (field # fs) =
     (if lastField = Some (m_tag field) then Throw (RepeatedTag (m_tag field))
      else rbind (iterate_field d m msgType field) (\<lambda>_. iterate_loop d m msgType (Some (m_tag field)) fs))"

definition iterate :: "DataDictionary \<Rightarrow> FieldMap \<Rightarrow> string \<Rightarrow> unit result" where
  "iterate d m msgType = iterate_loop d m msgType None (m_fields m)"

definition when_some :: "'a option \<Rightarrow> ('a \<Rightarrow> bool) \<Rightarrow> bool" where
  "when_some x P = (case x of None \<Rightarrow> False | Some y \<Rightarrow> P y)"

definition dd_validate :: "Message \<Rightarrow> DataDictionary option \<Rightarrow> DataDictionary option \<Rightarrow> unit result" where
  "dd_validate message pSessionDD pAppDD =
     (let header = m_header message in
      rbind (getField header TAG_BeginString) (\<lambda>beginString.
      rbind (getField header TAG_MsgType) (\<lambda>msgType.
      if when_some pSessionDD (\<lambda>s. m_hasVersion (dd s) \<and> getVersion s \<noteq> beginString) then Throw UnsupportedVersion
      else if fst (hasOutOfOrderGroupMembers message)
      then Throw (OutOfOrderGroupMembers (snd (hasOutOfOrderGroupMembers message)))
      else if fst (hasEmbeddedSOH message) then Throw (EmbeddedSOH (snd (hasEmbeddedSOH message)))
      else if (when_some pSessionDD (\<lambda>s. m_checkFieldsOutOfOrder (dd s)) \<or>
               when_some pAppDD (\<lambda>a. m_checkFieldsOutOfOrder (dd a))) \<and> \<not> fst (hasValidStructure message)
      then Throw (TagOutOfOrder (snd (hasValidStructure message)))
      else
        rbind (case pAppDD of
                 None \<Rightarrow> Ok ()
               | Some a \<Rightarrow>
                   if m_hasVersion (dd a)
                   then rbind (checkMsgType a msgType) (\<lambda>_.
                          checkHasRequired a header (m_body message) (m_trailer message) msgType)
                   else Ok ()) (\<lambda>_.
        rbind (case pSessionDD of
                 None \<Rightarrow> Ok ()
               | Some s \<Rightarrow> rbind (iterate s header msgType) (\<lambda>_. iterate s (m_trailer message) msgType)) (\<lambda>_.
        case pAppDD of None \<Rightarrow> Ok () | Some a \<Rightarrow> iterate a (m_body message) msgType)))))"

definition dd_validate_message :: "DataDictionary \<Rightarrow> Message \<Rightarrow> bool \<Rightarrow> unit result" where
  "dd_validate_message d message bodyOnly = dd_validate message (if bodyOnly then None else Some d) (Some d)"

section \<open>What the checks accept\<close>

text \<open>One field is acceptable to a dictionary.\<close>

definition acceptable :: "DataDictionary \<Rightarrow> FieldMap \<Rightarrow> string \<Rightarrow> FieldBase \<Rightarrow> bool" where
  "acceptable d m msgType f =
     ((m_checkFieldsHaveValues (dd d) \<longrightarrow> m_string f \<noteq> []) \<and>
      (m_hasVersion (dd d) \<longrightarrow>
        valid_format (case getFieldType d (m_tag f) of None \<Rightarrow> TUnknown | Some t \<Rightarrow> t) (m_string f) \<and>
        (hasFieldValue d (m_tag f) \<longrightarrow> isFieldValue d (m_tag f) (m_string f))) \<and>
      (m_beginString (dd d) \<noteq> [] \<and> shouldCheckTag d f \<longrightarrow>
        isField d (m_tag f) \<and>
        (\<not> isHeaderField (m_tag f) (Some d) \<and> \<not> isTrailerField (m_tag f) (Some d) \<longrightarrow>
          isMsgField d msgType (m_tag f) \<and>
          (isGroup d msgType (m_tag f) \<longrightarrow>
            int_convert signed_int (m_string f) = Some (int (groupCount m (m_tag f)))))))"

lemma rbind_unit: "rbind (r :: unit result) (\<lambda>_. s) = Ok u \<longleftrightarrow> r = Ok () \<and> s = Ok u"
  by (cases r) auto

lemma iterate_field_ok: "iterate_field d m msgType f = Ok () \<longleftrightarrow> acceptable d m msgType f"
  by (auto simp: iterate_field_def acceptable_def checkHasValue_def checkValidFormat_def checkValue_def
      checkValidTagNumber_def checkIsInMessage_def checkGroupCount_def Let_def split: option.split if_splits)

lemma iterate_loop_ok:
  "iterate_loop d m msgType prev fs = Ok () \<longleftrightarrow>
     (\<forall>f\<in>set fs. acceptable d m msgType f) \<and> (fs \<noteq> [] \<longrightarrow> prev \<noteq> Some (m_tag (hd fs))) \<and>
     (\<forall>i. Suc i < length fs \<longrightarrow> m_tag (fs ! i) \<noteq> m_tag (fs ! Suc i))"
proof (induction fs arbitrary: prev)
  case (Cons f fs)
  have adj: "(\<forall>i. Suc i < length (f # fs) \<longrightarrow> m_tag ((f # fs) ! i) \<noteq> m_tag ((f # fs) ! Suc i)) \<longleftrightarrow>
      (fs \<noteq> [] \<longrightarrow> m_tag f \<noteq> m_tag (hd fs)) \<and> (\<forall>i. Suc i < length fs \<longrightarrow> m_tag (fs ! i) \<noteq> m_tag (fs ! Suc i))"
    by (cases fs) (auto simp: nth_Cons split: nat.split)
  show ?case unfolding adj using Cons.IH [of "Some (m_tag f)"] iterate_field_ok [of d m msgType f] by auto
qed simp

context tag_order
begin

lemma adjacent_distinct:
  assumes "sorted_tags less fs" "\<forall>i. Suc i < length fs \<longrightarrow> m_tag (fs ! i) \<noteq> m_tag (fs ! Suc i)"
  shows "distinct (map m_tag fs)"
  using assms
proof (induction fs)
  case (Cons f fs)
  have d: "distinct (map m_tag fs)"
    using Cons.prems by (intro Cons.IH) (auto dest: spec [of _ "Suc _"])
  have "m_tag f \<noteq> m_tag g" if g: "g \<in> set fs" for g
  proof
    assume eq: "m_tag f = m_tag g"
    from g obtain h r where fs: "fs = h # r" by (cases fs) auto
    have ne: "m_tag f \<noteq> m_tag h" using Cons.prems(2) fs by (auto dest: spec [of _ 0])
    then have gr: "g \<in> set r" using g fs eq by auto
    have i: "int32 (m_tag f)" "int32 (m_tag h)" using Cons.prems(1) fs by (auto simp: sorted_tags_def)
    have "\<not> less (m_tag h) (m_tag f)" "\<not> less (m_tag g) (m_tag h)"
      using Cons.prems(1) fs gr by (auto simp: sorted_tags_def)
    with eq ne less_total [OF i] show False by metis
  qed
  with d show ?case by auto
qed simp

end

lemma distinct_adjacent: "distinct (map m_tag fs) \<Longrightarrow> Suc i < length fs \<Longrightarrow> m_tag (fs ! i) \<noteq> m_tag (fs ! Suc i)"
  using nth_eq_iff_index_eq [of "map m_tag fs" i "Suc i"] by simp

lemma iterate_ok:
  assumes "map_ok m"
  shows "iterate d m msgType = Ok () \<longleftrightarrow> distinct_tags m \<and> (\<forall>f\<in>set (m_fields m). acceptable d m msgType f)"
proof -
  have s: "sorted_tags (order_compare (m_order m)) (m_fields m)" using assms by (simp add: map_ok_def)
  show ?thesis
    unfolding iterate_def iterate_loop_ok distinct_tags_def
    using tag_order.adjacent_distinct [OF map_ok_tag_order [OF assms] s] distinct_adjacent by blast
qed

text \<open>The required fields of a message: those of header and trailer, those of its type, and
  those of every instance of every group the dictionary defines.\<close>

definition required_present :: "DataDictionary \<Rightarrow> FieldMap \<Rightarrow> FieldMap \<Rightarrow> FieldMap \<Rightarrow> string \<Rightarrow> bool" where
  "required_present d header body trailer msgType =
     ((\<forall>F. (F, True) \<in> set (m_headerFields (dd d)) \<longrightarrow> isSetField header F) \<and>
      (\<forall>F. (F, True) \<in> set (m_trailerFields (dd d)) \<longrightarrow> isSetField trailer F) \<and>
      (\<forall>Fs. smap_find (m_requiredFields (dd d)) msgType = Some Fs \<longrightarrow>
        (\<forall>F\<in>set Fs. isSetField body F) \<and>
        (\<forall>(field, gs)\<in>set (m_groups body). \<forall>delim DD. getGroup d msgType field = Some (delim, DD) \<longrightarrow>
          (\<forall>g\<in>set gs. checkHasRequired DD g g g msgType = Ok ()))))"

lemma checkHasRequired_ok:
  "checkHasRequired d header body trailer msgType = Ok () \<longleftrightarrow> required_present d header body trailer msgType"
proof -
  have part: "check_all (\<lambda>(field, required).
        if required \<and> \<not> isSetField m field then Throw (RequiredTagMissing field) else Ok ()) xs = Ok () \<longleftrightarrow>
      (\<forall>F. (F, True) \<in> set xs \<longrightarrow> isSetField m F)" for m xs
    by (fastforce split: if_splits)
  have body: "check_all (\<lambda>F. if \<not> isSetField body F then Throw (RequiredTagMissing F) else Ok ()) xs = Ok () \<longleftrightarrow>
      (\<forall>F\<in>set xs. isSetField body F)" for xs
    by auto
  have grp: "check_all (\<lambda>(field, instances).
        case getGroup d msgType field of
          None \<Rightarrow> Ok ()
        | Some (delim, DD) \<Rightarrow> check_all (\<lambda>g. checkHasRequired DD g g g msgType) instances) gs = Ok () \<longleftrightarrow>
      (\<forall>(field, instances)\<in>set gs. \<forall>delim DD. getGroup d msgType field = Some (delim, DD) \<longrightarrow>
          (\<forall>g\<in>set instances. checkHasRequired DD g g g msgType = Ok ()))" for gs
    by (auto split: option.split)
  show ?thesis
    unfolding required_present_def checkHasRequired.simps [of d header]
    by (cases "smap_find (m_requiredFields (dd d)) msgType")
      (simp_all only: rbind_unit part body grp option.simps, simp_all)
qed

text \<open>What a session accepts of a message: its version, its structure, its type and required
  fields, and each field of header, trailer and body.\<close>

definition valid_message :: "Message \<Rightarrow> DataDictionary option \<Rightarrow> DataDictionary option \<Rightarrow> string \<Rightarrow> string \<Rightarrow> bool" where
  "valid_message msg pS pA b t =
     ((\<forall>s. pS = Some s \<longrightarrow> (m_hasVersion (dd s) \<longrightarrow> getVersion s = b) \<and> (m_checkFieldsOutOfOrder (dd s) \<longrightarrow> m_validStructure msg) \<and>
        distinct_tags (m_header msg) \<and> (\<forall>f\<in>set (m_fields (m_header msg)). acceptable s (m_header msg) t f) \<and>
        distinct_tags (m_trailer msg) \<and> (\<forall>f\<in>set (m_fields (m_trailer msg)). acceptable s (m_trailer msg) t f)) \<and>
      m_outOfOrderGroupTag msg = 0 \<and> m_embeddedSOHTag msg = 0 \<and>
      (\<forall>a. pA = Some a \<longrightarrow> (m_checkFieldsOutOfOrder (dd a) \<longrightarrow> m_validStructure msg) \<and>
        (m_hasVersion (dd a) \<longrightarrow> isMsgType a t \<and> required_present a (m_header msg) (m_body msg) (m_trailer msg) t) \<and>
        distinct_tags (m_body msg) \<and> (\<forall>f\<in>set (m_fields (m_body msg)). acceptable a (m_body msg) t f)))"

lemma validate_ok:
  assumes ok: "map_ok (m_header msg)" "map_ok (m_body msg)" "map_ok (m_trailer msg)"
    and f: "field_value (m_header msg) TAG_BeginString = Some b" "field_value (m_header msg) TAG_MsgType = Some t"
  shows "dd_validate msg pS pA = Ok () \<longleftrightarrow> valid_message msg pS pA b t"
proof -
  have g: "getField (m_header msg) TAG_BeginString = Ok b" "getField (m_header msg) TAG_MsgType = Ok t"
    using f by (simp_all add: getField_value [OF ok(1)])
  show ?thesis
    unfolding dd_validate_def Let_def g rbind.simps hasOutOfOrderGroupMembers_def hasEmbeddedSOH_def hasValidStructure_def fst_conv snd_conv
      valid_message_def when_some_def
    using iterate_ok [OF ok(1)] iterate_ok [OF ok(2)] iterate_ok [OF ok(3)] checkHasRequired_ok
    by (cases pS; cases pA) (auto simp: checkMsgType_def split: if_splits)
qed

section \<open>Properties\<close>

text \<open>The per-field check of a dictionary is exact. On a sorted field map \<open>iterate\<close> passes exactly when
  no tag repeats (comparing neighbours is enough) and every field has a value, a value of its type and
  one the dictionary lists, is known, and (outside header and trailer) belongs to the message type, with
  the number of group instances its count field announces.\<close>

theorem iterate_exact:
  assumes "map_ok m"
  shows "iterate d m msgType = Ok () \<longleftrightarrow> distinct_tags m \<and> (\<forall>f\<in>set (m_fields m). acceptable d m msgType f)"
  by (rule iterate_ok [OF assms])

theorem iterate_exact_witness:
  "iterate new_DataDictionary (FieldMap [mk_FieldBase 58 ''hello''] [] (message_order_mode mode_normal)) ''B'' = Ok () \<and>
   iterate new_DataDictionary (FieldMap [mk_FieldBase 58 ''y'', mk_FieldBase 58 ''x''] [] (message_order_mode mode_normal)) ''B'' \<noteq> Ok ()"
proof -
  have ok: "map_ok (FieldMap [mk_FieldBase 58 ''hello''] [] (message_order_mode mode_normal))"
    "map_ok (FieldMap [mk_FieldBase 58 ''y'', mk_FieldBase 58 ''x''] [] (message_order_mode mode_normal))"
    by (simp_all add: map_ok_def sorted_tags_def smap_ok_def mk_FieldBase_sel int32_def)
      (simp add: order_compare_def message_order_mode_def)
  show ?thesis
    unfolding iterate_exact [OF ok(1)] iterate_exact [OF ok(2)]
    by (simp add: distinct_tags_def acceptable_def mk_FieldBase_sel new_DataDictionary_def)
qed

text \<open>C20: validation is exact. A decoded message with BeginString and MsgType passes
  \<open>DataDictionary::validate\<close> exactly when its version is the session dictionary's, no value was cut short by
  an embedded SOH and no group instance misses its delimiter, its parts are in order (if either
  dictionary asks), its type is known and all its required fields are there (in group instances too), and every
  field of header, trailer and body is acceptable and appears once.\<close>

theorem validate_exact:
  assumes "map_ok (m_header msg)" "map_ok (m_body msg)" "map_ok (m_trailer msg)"
    and "field_value (m_header msg) TAG_BeginString = Some b" "field_value (m_header msg) TAG_MsgType = Some t"
  shows "dd_validate msg pS pA = Ok () \<longleftrightarrow> valid_message msg pS pA b t"
  by (rule validate_ok [OF assms])

theorem validate_exact_witness:
  "dd_validate heartbeat42 (Some (setVersion ''FIX.4.4'' new_DataDictionary)) None \<noteq> Ok () \<and>
   dd_validate heartbeat42 None None = Ok ()"
proof -
  have ok: "map_ok (m_header heartbeat42)" "map_ok (m_body heartbeat42)" "map_ok (m_trailer heartbeat42)"
    using heartbeat42_exchangeable by (simp_all add: exchangeable_def sendable_def)
  have f: "field_value (m_header heartbeat42) TAG_BeginString = Some ''FIX.4.2''"
    "field_value (m_header heartbeat42) TAG_MsgType = Some ''0''"
    by (simp_all add: field_value_def heartbeat42_fields mk_FieldBase_sel)
  have "m_outOfOrderGroupTag heartbeat42 = 0" "m_embeddedSOHTag heartbeat42 = 0"
    by (simp_all add: heartbeat42_def new_Message_def)
  with validate_exact [OF ok f, of None None] validate_exact [OF ok f, of "Some (setVersion ''FIX.4.4'' new_DataDictionary)" None]
  show ?thesis by (simp add: valid_message_def setVersion_def set_dd_def getVersion_def)
qed

end
