(* ===== verification/Parsers.thy ===== *)
theory Parsers
  imports MessageRoundTrip
begin

text \<open>
  Parser.h and Parser.cpp: cutting a byte stream into messages, and the loop of SocketConnection.cpp
  (and ThreadedSocketConnection.cpp) that hands them to the session. The parser keeps the bytes not yet
  framed and where its next search for the length field starts.
\<close>

section \<open>Definitions\<close>

definition MAX_MESSAGE_SIZE :: nat where
  "MAX_MESSAGE_SIZE = 8 * 1024 * 1024"

record Parser =
  m_buffer :: string
  m_lengthSearchFrom :: nat

definition new_Parser :: Parser where
  "new_Parser = \<lparr>m_buffer = [], m_lengthSearchFrom = 0\<rparr>"

definition addToStream :: "string \<Rightarrow> Parser \<Rightarrow> Parser result" where
  "addToStream str p =
     (if length (m_buffer p) + length str > MAX_MESSAGE_SIZE then Throw MessageParseError
      else Ok (p\<lparr>m_buffer := m_buffer p @ str\<rparr>))"

abbreviation length_header :: string where "length_header \<equiv> SOH # ''9=''"
abbreviation checksum_header :: string where "checksum_header \<equiv> SOH # ''10=''"

text \<open>The outcome with the two output parameters, which the caller also sees when it throws.\<close>

definition extractLength :: "int \<Rightarrow> nat \<Rightarrow> string \<Rightarrow> nat \<Rightarrow> bool result \<times> int \<times> nat" where
  "extractLength len pos buffer searchFrom =
     (if length buffer = 0 then (Ok False, len, pos)
      else case str_find length_header buffer searchFrom of
        None \<Rightarrow> (Ok False, len, pos)
      | Some start \<Rightarrow>
          let startPos = start + 3 in
          (case str_find [SOH] buffer startPos of
             None \<Rightarrow> (Ok False, len, pos)
           | Some endPos \<Rightarrow>
               (case int_convert signed_int (substr buffer startPos endPos) of
                  None \<Rightarrow> (Throw MessageParseError, len, pos)
                | Some n \<Rightarrow>
                    if n < 0 then (Throw MessageParseError, n, pos) else (Ok True, n, endPos + 1))))"

text \<open>The part of \<open>readFixMessage\<close> after the length is known: the message ends with the CheckSum field.\<close>

definition frame_at :: "nat \<Rightarrow> Parser \<Rightarrow> string option \<times> Parser" where
  "frame_at pos p =
     (if length (m_buffer p) < pos then (None, p)
      else case str_find checksum_header (m_buffer p) (pos - 1) of
        None \<Rightarrow> (None, p)
      | Some start \<Rightarrow>
          (case str_find [SOH] (m_buffer p) (start + 4) of
             None \<Rightarrow> (None, p)
           | Some soh \<Rightarrow> (Some (take (soh + 1) (m_buffer p)), p\<lparr>m_buffer := drop (soh + 1) (m_buffer p)\<rparr>)))"

definition resume_at :: "Parser \<Rightarrow> nat" where
  "resume_at p =
     (case str_find length_header (m_buffer p) (m_lengthSearchFrom p) of
        Some header \<Rightarrow> header
      | None \<Rightarrow> if length (m_buffer p) > 2 then length (m_buffer p) - 2 else 0)"

text \<open>\<open>Ok (Some str)\<close> is returning true with a message, \<open>Ok None\<close> returning false. \<open>read_front\<close> is the
  try block with its handler, for a buffer that starts with a message.\<close>

definition read_front :: "nat \<Rightarrow> Parser \<Rightarrow> string option result \<times> Parser" where
  "read_front pos p =
     (case extractLength 0 pos (m_buffer p) (m_lengthSearchFrom p) of
        (Inl e, len, pos') \<Rightarrow>
          (Throw e, p\<lparr>m_buffer := (if len > 0 then drop (pos' + nat len) (m_buffer p) else []),
                      m_lengthSearchFrom := 0\<rparr>)
      | (Inr True, len, pos') \<Rightarrow>
          (case frame_at (pos' + nat len) (p\<lparr>m_lengthSearchFrom := 0\<rparr>) of (r, p') \<Rightarrow> (Ok r, p'))
      | (Inr False, len, pos') \<Rightarrow> (Ok None, p\<lparr>m_lengthSearchFrom := resume_at p\<rparr>))"

definition readFixMessage :: "Parser \<Rightarrow> string option result \<times> Parser" where
  "readFixMessage p =
     (if length (m_buffer p) < 2 then (Ok None, p)
      else case str_find ''8='' (m_buffer p) 0 of
        None \<Rightarrow>
          (Ok None, p\<lparr>m_buffer := (if length (m_buffer p) > 1 then drop (length (m_buffer p) - 1) (m_buffer p)
                                   else m_buffer p), m_lengthSearchFrom := 0\<rparr>)
      | Some pos \<Rightarrow>
          read_front pos (if pos > 0 then p\<lparr>m_buffer := drop pos (m_buffer p), m_lengthSearchFrom := 0\<rparr> else p))"

text \<open>\<open>readMessage\<close> of the connections: the message is left as it was when the parser throws.\<close>

definition readMessage :: "string \<Rightarrow> Parser \<Rightarrow> bool \<times> string \<times> Parser" where
  "readMessage msg p =
     (case readFixMessage p of
        (Inl e, p') \<Rightarrow> (True, msg, p')
      | (Inr None, p') \<Rightarrow> (False, msg, p')
      | (Inr (Some str), p') \<Rightarrow> (True, str, p'))"

section \<open>Resuming the search\<close>

text \<open>No length field starts before the place where the search resumes, and none can come to
  start there when more bytes arrive.\<close>

definition parser_ok :: "Parser \<Rightarrow> bool" where
  "parser_ok p = ((\<forall>j<m_lengthSearchFrom p. \<not> prefix length_header (drop j (m_buffer p))) \<and>
     m_lengthSearchFrom p \<le> length (m_buffer p) - 2)"

lemma parser_ok_start [simp]: "m_lengthSearchFrom p = 0 \<Longrightarrow> parser_ok p"
  by (simp add: parser_ok_def)

lemma resumed_search:
  assumes "parser_ok p"
  shows "str_find length_header (m_buffer p) (m_lengthSearchFrom p) = str_find length_header (m_buffer p) 0"
proof (cases "str_find length_header (m_buffer p) 0")
  case None
  have "m_lengthSearchFrom p \<le> length (m_buffer p)" using assms by (auto simp: parser_ok_def)
  then have "str_find length_header (m_buffer p) (m_lengthSearchFrom p) = None"
    using None str_find_None [of 0 "m_buffer p"] str_find_None [of "m_lengthSearchFrom p" "m_buffer p"] by simp
  with None show ?thesis by (simp only:)
next
  case (Some k)
  note b = str_find_bound [OF Some] and pre = str_find_prefix [OF Some] and min = str_find_minimal [OF Some]
  have "m_lengthSearchFrom p \<le> k" using assms pre by (force simp: parser_ok_def not_less [symmetric])
  with Some show ?thesis using b pre min by (auto intro!: str_find_eqI)
qed

lemma parser_ok_add:
  assumes "parser_ok p"
  shows "parser_ok (p\<lparr>m_buffer := m_buffer p @ c\<rparr>)"
proof -
  have "\<not> prefix length_header (drop j (m_buffer p @ c))" if j: "j < m_lengthSearchFrom p" for j
  proof
    assume pre: "prefix length_header (drop j (m_buffer p @ c))"
    have "j + 3 \<le> length (m_buffer p)" using j assms by (auto simp: parser_ok_def)
    then have "drop j (m_buffer p @ c) = drop j (m_buffer p) @ c" "3 \<le> length (drop j (m_buffer p))" by auto
    with pre have "prefix length_header (drop j (m_buffer p))"
      by (metis append_take_drop_id length_Cons list.size(3) numeral_3_eq_3 prefix_def prefix_length_prefix prefix_order.refl)
    with assms j show False by (simp add: parser_ok_def)
  qed
  with assms show ?thesis by (auto simp: parser_ok_def)
qed

lemma parser_ok_resume:
  assumes ok: "parser_ok p"
  shows "parser_ok (p\<lparr>m_lengthSearchFrom := resume_at p\<rparr>)"
proof (cases "str_find length_header (m_buffer p) 0")
  case None
  then have "resume_at p = (if length (m_buffer p) > 2 then length (m_buffer p) - 2 else 0)"
    unfolding resume_at_def resumed_search [OF ok] by simp
  with None show ?thesis using str_find_None [of 0 "m_buffer p" length_header] by (simp add: parser_ok_def)
next
  case (Some k)
  then have "resume_at p = k" unfolding resume_at_def resumed_search [OF ok] by simp
  then show ?thesis using str_find_bound [OF Some] str_find_minimal [OF Some] by (auto simp: parser_ok_def)
qed

section \<open>Every read consumes\<close>

lemma frame_at_cases:
  assumes "0 < pos"
  shows "frame_at pos p = (None, p) \<or>
    (\<exists>n. 0 < n \<and> n \<le> length (m_buffer p) \<and>
      frame_at pos p = (Some (take n (m_buffer p)), p\<lparr>m_buffer := drop n (m_buffer p)\<rparr>))"
proof (cases "str_find checksum_header (m_buffer p) (pos - 1)")
  case (Some start)
  show ?thesis
  proof (cases "str_find [SOH] (m_buffer p) (start + 4)")
    case soh: (Some soh)
    with str_find_bound [OF soh] Some show ?thesis
      by (auto simp: frame_at_def intro!: exI [of _ "soh + 1"])
  qed (use Some in \<open>simp add: frame_at_def\<close>)
qed (simp add: frame_at_def)

lemma extractLength_cases:
  obtains (no) "extractLength len pos buffer from = (Ok False, len, pos)"
  | (bad) n where "extractLength len pos buffer from = (Throw MessageParseError, n, pos)" "n = len \<or> n < 0"
  | (ok) n pos' where "extractLength len pos buffer from = (Ok True, n, pos')" "0 \<le> n" "3 < pos'" "pos' \<le> length buffer"
proof (cases "str_find length_header buffer from")
  case (Some start)
  show thesis
  proof (cases "str_find [SOH] buffer (start + 3)")
    case soh: (Some soh)
    note b = str_find_bound [OF soh]
    have ne: "buffer \<noteq> []" using b by auto
    show thesis
    proof (cases "int_convert signed_int (substr buffer (start + 3) soh)")
      case None
      with Some soh ne show thesis by (intro bad) (auto simp: extractLength_def)
    next
      case n: (Some n)
      show thesis
      proof (cases "n < 0")
        case True
        with Some soh ne n show thesis by (intro bad [of n]) (auto simp: extractLength_def)
      next
        case False
        with Some soh ne n b show thesis by (intro ok [of n "soh + 1"]) (auto simp: extractLength_def)
      qed
    qed
  qed (use no Some in \<open>simp add: extractLength_def\<close>)
qed (use no in \<open>simp add: extractLength_def\<close>)

lemma readFixMessage_cases:
  obtains (wait) p' where "readFixMessage p = (Ok None, p')" "length (m_buffer p') \<le> length (m_buffer p)"
      "parser_ok p \<Longrightarrow> parser_ok p'"
  | (error) p' where "readFixMessage p = (Throw MessageParseError, p')" "m_buffer p' = []" "2 \<le> length (m_buffer p)"
      "m_lengthSearchFrom p' = 0"
  | (message) g w p' where "readFixMessage p = (Ok (Some w), p')" "m_buffer p = g @ w @ m_buffer p'" "w \<noteq> []"
      "m_lengthSearchFrom p' = 0"
proof (cases "length (m_buffer p) < 2")
  case True
  then show thesis using wait by (simp add: readFixMessage_def)
next
  case False
  show thesis
  proof (cases "str_find ''8='' (m_buffer p) 0")
    case None
    with False show thesis using wait by (simp add: readFixMessage_def)
  next
    case (Some pos)
    define p1 where "p1 = (if pos > 0 then p\<lparr>m_buffer := drop pos (m_buffer p), m_lengthSearchFrom := 0\<rparr> else p)"
    have b: "m_buffer p = take pos (m_buffer p) @ m_buffer p1" "length (m_buffer p1) \<le> length (m_buffer p)"
      by (auto simp: p1_def)
    have ok1: "parser_ok p \<Longrightarrow> parser_ok p1" by (simp add: p1_def)
    note eq = readFixMessage_def [of p] Some option.simps p1_def [symmetric] if_not_P [OF False] read_front_def
    show thesis
    proof (cases rule: extractLength_cases [of 0 pos "m_buffer p1" "m_lengthSearchFrom p1"])
      case no
      with b(2) show thesis by (intro wait [of "p1\<lparr>m_lengthSearchFrom := resume_at p1\<rparr>"]) (auto simp: eq ok1 parser_ok_resume)
    next
      case (bad n)
      with False show thesis by (intro error) (auto simp: eq)
    next
      case (ok n pos')
      let ?p1 = "p1\<lparr>m_lengthSearchFrom := 0\<rparr>"
      from ok have "0 < pos' + nat n" by simp
      from frame_at_cases [OF this, of ?p1] show thesis
      proof (elim disjE exE conjE)
        assume "frame_at (pos' + nat n) ?p1 = (None, ?p1)"
        with ok b(2) show thesis by (intro wait [of ?p1]) (auto simp: eq)
      next
        fix k assume k: "0 < k" "k \<le> length (m_buffer ?p1)"
          "frame_at (pos' + nat n) ?p1 = (Some (take k (m_buffer ?p1)), ?p1\<lparr>m_buffer := drop k (m_buffer ?p1)\<rparr>)"
        show thesis
          by (rule message [of "take k (m_buffer p1)" "?p1\<lparr>m_buffer := drop k (m_buffer ?p1)\<rparr>" "take pos (m_buffer p)"])
            (use ok k b(1) in \<open>auto simp: eq\<close>)
      qed
    qed
  qed
qed

lemma readMessage_shrinks:
  assumes "readMessage msg p = (True, msg', p')"
  shows "length (m_buffer p') < length (m_buffer p)"
proof (cases rule: readFixMessage_cases [of p])
  case (message g w p'')
  with assms show ?thesis by (auto simp: readMessage_def)
qed (use assms in \<open>auto simp: readMessage_def\<close>)

text \<open>The loop \<open>while (readMessage(message)) next(message)\<close>: the messages handed to the session.\<close>

function drain :: "string \<Rightarrow> Parser \<Rightarrow> string list \<times> Parser" where
  "drain msg p =
     (case readMessage msg p of
        (False, msg', p') \<Rightarrow> ([], p')
      | (True, msg', p') \<Rightarrow> (case drain msg' p' of (msgs, p'') \<Rightarrow> (msg' # msgs, p'')))"
  by auto
termination
  by (relation "measure (\<lambda>(msg, p). length (m_buffer p))") (auto dest!: readMessage_shrinks [OF sym])

declare drain.simps [simp del]

text \<open>Resuming reads what a search from the front reads.\<close>

lemma extractLength_resumed:
  "parser_ok p \<Longrightarrow> extractLength n pos (m_buffer p) (m_lengthSearchFrom p) = extractLength n pos (m_buffer p) 0"
  by (simp add: extractLength_def resumed_search)

lemma read_front_resumed:
  assumes "parser_ok p"
  shows "read_front pos p = read_front pos (p\<lparr>m_lengthSearchFrom := 0\<rparr>)"
proof -
  have r: "resume_at p = resume_at (p\<lparr>m_lengthSearchFrom := 0\<rparr>)"
    unfolding resume_at_def resumed_search [OF assms] by (simp split: option.split)
  show ?thesis
    unfolding read_front_def extractLength_resumed [OF assms] r
    by (cases rule: extractLength_cases [of 0 pos "m_buffer p" 0]) simp_all
qed

lemma readFixMessage_resumed:
  assumes "parser_ok p"
  shows "readFixMessage p = readFixMessage (p\<lparr>m_lengthSearchFrom := 0\<rparr>)"
proof -
  have "length (m_buffer p) < 2 \<Longrightarrow> p\<lparr>m_lengthSearchFrom := 0\<rparr> = p" using assms by (simp add: parser_ok_def)
  with read_front_resumed [OF assms] show ?thesis
    by (cases "str_find ''8='' (m_buffer p) 0") (simp_all add: readFixMessage_def)
qed

section \<open>Complete and incomplete messages\<close>

text \<open>A message as the encoder frames it, with a BeginString without SOH and a length the
  parser can read.\<close>

definition parseable :: "string \<Rightarrow> bool" where
  "parseable w = (\<exists>b. framed b w \<and> SOH \<notin> set b \<and> length w < 2 ^ 31)"

lemma parseableE:
  assumes "parseable w"
  obtains b rest c where "w = ''8='' @ b @ [SOH] @ ''9='' @ decimal (int (length rest)) @ [SOH] @ rest @ ''10='' @ c @ [SOH]"
    "SOH \<notin> set b" "rest = [] \<or> last rest = SOH" "length c = 3" "SOH \<notin> set c" "length w < 2 ^ 31"
proof -
  from assms obtain b rest c v where 1: "SOH \<notin> set b" "length w < 2 ^ 31"
    "w = ''8='' @ b @ [SOH] @ ''9='' @ decimal (int (length rest)) @ [SOH] @ rest @ ''10='' @ c @ [SOH]"
    "rest = [] \<or> last rest = SOH" "length c = 3" "CheckSumConvertor_convert c = Some v"
    unfolding parseable_def framed_def by blast
  have "\<not> is_digit SOH" by (simp add: is_digit_def byte_def)
  then have "SOH \<notin> set c"
    using 1(6) unfolding CheckSumConvertor_convert_def int_convert_iff [OF int_types_ok(1)]
    by (auto simp: int_literal_def list_all_iff)
  with 1 that show thesis by blast
qed

lemma prefix_split:
  assumes "prefix u (X @ Y)"
  obtains (short) "length u < length X" "prefix u X" | (long) v where "u = X @ v" "prefix v Y"
proof -
  from assms consider "prefix u X" | v where "u = X @ v" "prefix v Y" by (auto simp: prefix_append)
  then show thesis
  proof cases
    case 1
    with short long [of "[]"] show thesis by (cases "length u < length X") (auto simp: prefix_def)
  qed (rule long)
qed

lemma substr_seg: "s = X @ Y @ Z \<Longrightarrow> i = length X \<Longrightarrow> j = length X + length Y \<Longrightarrow> substr s i j = Y"
  by (simp add: substr_def)

lemma set_take_prefix: "prefix u X \<Longrightarrow> set (take n u) \<subseteq> set (take n X)"
  by (auto simp: prefix_def)

lemma frame_at_complete:
  assumes "m_buffer p = AR @ [SOH] @ ''10='' @ c @ [SOH] @ tl_bytes" "SOH \<notin> set c"
  shows "frame_at (length AR + 1) p = (Some (AR @ [SOH] @ ''10='' @ c @ [SOH]), p\<lparr>m_buffer := tl_bytes\<rparr>)"
proof -
  have "str_find checksum_header (m_buffer p) (length AR) = Some (length AR)"
    by (rule str_find_here) (simp_all add: assms(1))
  moreover have "str_find [SOH] (m_buffer p) (length AR + 4) = Some (length (AR @ [SOH] @ ''10='') + length c)"
    by (rule str_find_seg [of _ _ c SOH "[]" tl_bytes]) (use assms in simp_all)
  moreover have "length (AR @ [SOH] @ ''10='') + length c + 1 = length (AR @ [SOH] @ ''10='' @ c @ [SOH])" by simp
  moreover have "m_buffer p = (AR @ [SOH] @ ''10='' @ c @ [SOH]) @ tl_bytes" using assms(1) by simp
  then have "take (length (AR @ [SOH] @ ''10='' @ c @ [SOH])) (m_buffer p) = AR @ [SOH] @ ''10='' @ c @ [SOH]"
    "drop (length (AR @ [SOH] @ ''10='' @ c @ [SOH])) (m_buffer p) = tl_bytes" by (metis append_eq_conv_conj)+
  moreover have "\<not> length (m_buffer p) < length AR + 1" by (simp add: assms(1))
  ultimately show ?thesis unfolding frame_at_def by (simp del: length_append append_assoc)
qed

lemma frame_at_short:
  assumes u: "m_buffer p = AR @ [SOH] @ z" "strict_prefix z (''10='' @ c @ [SOH])" and c: "SOH \<notin> set c"
  shows "frame_at (length AR + 1) p = (None, p)"
proof -
  have pre: "prefix z (''10='' @ c @ [SOH])" "z \<noteq> ''10='' @ c @ [SOH]" using u(2) by (auto simp: strict_prefix_def)
  from pre(1) show ?thesis
  proof (cases rule: prefix_split)
    case short
    then have "str_find checksum_header (m_buffer p) (length AR) = None"
      by (intro str_find_absent [where k = 0]) (use u(1) in auto)
    then show ?thesis by (simp add: frame_at_def u(1))
  next
    case (long v)
    then have "prefix v c" using pre(2) by (auto simp: prefix_snoc)
    then have v: "SOH \<notin> set v" using c by (auto dest: set_mono_prefix)
    have "str_find checksum_header (m_buffer p) (length AR) = Some (length AR)"
      by (rule str_find_here) (simp_all add: u(1) long)
    moreover have "str_find [SOH] (m_buffer p) (length AR + 4) = None"
      by (rule str_find_seg_absent [of _ "AR @ [SOH] @ ''10=''" v]) (use u(1) long v in simp_all)
    ultimately show ?thesis by (simp add: frame_at_def u(1))
  qed
qed

text \<open>What the parser sees of a message up to its length field and the bytes the length covers.\<close>

lemma header_found:
  assumes "SOH \<notin> set b"
  shows "str_find length_header (''8='' @ b @ [SOH] @ ''9='' @ t) 0 = Some (length (''8='' @ b))"
  using str_find_seg [of _ "[]" "''8='' @ b" SOH "''9=''" t 0] assms by simp

lemma length_found:
  assumes b: "SOH \<notin> set b" and small: "length rest < 2 ^ 31"
  shows "extractLength 0 0 (''8='' @ b @ [SOH] @ ''9='' @ decimal (int (length rest)) @ [SOH] @ t) 0 =
     (Ok True, int (length rest), length (''8='' @ b @ [SOH] @ ''9='' @ decimal (int (length rest)) @ [SOH]))"
proof -
  let ?d = "decimal (int (length rest))"
  let ?s = "''8='' @ b @ [SOH] @ ''9='' @ ?d @ [SOH] @ t"
  have hdr: "str_find length_header ?s 0 = Some (length (''8='' @ b))"
    using header_found [OF b, of "?d @ [SOH] @ t"] by simp
  have soh: "str_find [SOH] ?s (length (''8='' @ b) + 3) = Some (length (''8='' @ b @ [SOH] @ ''9='') + length ?d)"
    by (rule str_find_seg [of _ _ ?d SOH "[]" t]) simp_all
  have num: "substr ?s (length (''8='' @ b) + 3) (length (''8='' @ b @ [SOH] @ ''9='') + length ?d) = ?d"
    by (rule substr_seg [of _ "''8='' @ b @ [SOH] @ ''9=''" _ "[SOH] @ t"]) simp_all
  have "int_convert signed_int ?d = Some (int (length rest))"
    using small by (intro int_convert_decimal [OF int_types_ok(1)]) (auto simp: signed_int_def)
  with num have "int_convert signed_int (substr ?s (length (''8='' @ b) + 3) (length (''8='' @ b @ [SOH] @ ''9='') + length ?d)) =
      Some (int (length rest))" by (simp only:)
  then show ?thesis unfolding extractLength_def hdr option.simps Let_def soh by simp
qed

text \<open>The header together with the counted bytes ends with SOH.\<close>

lemma counted_ends:
  assumes ends: "rest = [] \<or> last rest = SOH"
  obtains AR where "''8='' @ b @ [SOH] @ ''9='' @ decimal (int (length rest)) @ [SOH] @ rest = AR @ [SOH]"
proof -
  have "last (''8='' @ b @ [SOH] @ ''9='' @ decimal (int (length rest)) @ [SOH] @ rest) = SOH"
    using ends by (auto simp: last_append)
  then show thesis using that by (metis append_butlast_last_id append_is_Nil_conv list.distinct(1))
qed

lemma reads_complete:
  assumes w: "parseable w" and p: "parser_ok p" "m_buffer p = w @ tl_bytes"
  shows "readFixMessage p = (Ok (Some w), p\<lparr>m_buffer := tl_bytes, m_lengthSearchFrom := 0\<rparr>)"
proof -
  obtain b rest c where w: "w = ''8='' @ b @ [SOH] @ ''9='' @ decimal (int (length rest)) @ [SOH] @ rest @ ''10='' @ c @ [SOH]"
    "SOH \<notin> set b" "rest = [] \<or> last rest = SOH" "length c = 3" "SOH \<notin> set c" "length w < 2 ^ 31"
    using assms(1) by (rule parseableE)
  let ?A = "''8='' @ b @ [SOH] @ ''9='' @ decimal (int (length rest)) @ [SOH]" and ?p = "p\<lparr>m_lengthSearchFrom := 0\<rparr>"
  obtain AR where AR: "''8='' @ b @ [SOH] @ ''9='' @ decimal (int (length rest)) @ [SOH] @ rest = AR @ [SOH]"
    using w(3) by (rule counted_ends)
  have buf: "m_buffer p = AR @ [SOH] @ ''10='' @ c @ [SOH] @ tl_bytes" and wAR: "w = AR @ [SOH] @ ''10='' @ c @ [SOH]"
    using p(2) w(1) AR by (metis append.assoc)+
  have len: "length ?A + nat (int (length rest)) = length AR + 1" using arg_cong [OF AR, of length] by simp
  have "length rest < 2 ^ 31" using w(1,6) by simp
  from length_found [OF w(2) this] have ext: "extractLength 0 0 (m_buffer p) 0 = (Ok True, int (length rest), length ?A)"
    using p(2) w(1) by (metis append.assoc)
  have "str_find ''8='' (m_buffer p) 0 = Some 0" by (rule str_find_here) (simp_all add: p(2) w(1))
  moreover have "\<not> length (m_buffer p) < 2" by (simp add: p(2) w(1))
  moreover have "frame_at (length ?A + nat (int (length rest))) ?p = (Some w, ?p\<lparr>m_buffer := tl_bytes\<rparr>)"
    unfolding len using frame_at_complete [of ?p AR c tl_bytes] buf w(5) wAR by simp
  ultimately show ?thesis
    unfolding readFixMessage_resumed [OF p(1)] using ext by (simp add: readFixMessage_def read_front_def)
qed

text \<open>The length field of a message that is not complete.\<close>

lemma incomplete_length:
  assumes b: "SOH \<notin> set b" and small: "length rest < 2 ^ 31"
    and u: "prefix u (''8='' @ b @ [SOH] @ ''9='' @ decimal (int (length rest)) @ [SOH] @ t)"
  obtains "extractLength 0 0 u 0 = (Ok False, 0, 0)"
  | z where "u = ''8='' @ b @ [SOH] @ ''9='' @ decimal (int (length rest)) @ [SOH] @ z" "prefix z t"
      "extractLength 0 0 u 0 = (Ok True, int (length rest), length (''8='' @ b @ [SOH] @ ''9='' @ decimal (int (length rest)) @ [SOH]))"
proof -
  let ?d = "decimal (int (length rest))" and ?X = "''8='' @ b @ [SOH] @ ''9=''"
  have u': "prefix u (?X @ (?d @ [SOH] @ t))" using u by simp
  from u' show thesis
  proof (cases rule: prefix_split)
    case short
    have "SOH \<notin> set (take (2 + length b) (drop 0 u))"
      using set_take_prefix [OF short(2), of "2 + length b"] b by auto
    then have "str_find length_header u 0 = None"
      by (rule str_find_absent) (use short in simp_all)
    with that(1) show thesis by (simp add: extractLength_def)
  next
    case (long v)
    have hdr: "str_find length_header u 0 = Some (length (''8='' @ b))" using header_found [OF b, of v] long by simp
    have "prefix v ((?d @ [SOH]) @ t)" using long by simp
    then show thesis
    proof (cases rule: prefix_split)
      case short
      then have "prefix v ?d" by (auto simp: prefix_snoc)
      then have "SOH \<notin> set v" using set_mono_prefix by fastforce
      then have "str_find [SOH] u (length (''8='' @ b) + 3) = None"
        by (intro str_find_seg_absent [of _ ?X v]) (use long in simp_all)
      with hdr that(1) show thesis by (simp add: extractLength_def)
    next
      case y: (long y)
      with long have "u = ''8='' @ b @ [SOH] @ ''9='' @ ?d @ [SOH] @ y" by simp
      with y length_found [OF b small, of y] that(2) show thesis by simp
    qed
  qed
qed

lemma reads_incomplete:
  assumes w: "parseable w" and p: "parser_ok p" "strict_prefix (m_buffer p) w"
  shows "\<exists>p'. readFixMessage p = (Ok None, p') \<and> m_buffer p' = m_buffer p"
proof (cases "length (m_buffer p) < 2")
  case True
  then show ?thesis by (simp add: readFixMessage_def)
next
  case two: False
  obtain b rest c where w: "w = ''8='' @ b @ [SOH] @ ''9='' @ decimal (int (length rest)) @ [SOH] @ rest @ ''10='' @ c @ [SOH]"
    "SOH \<notin> set b" "rest = [] \<or> last rest = SOH" "length c = 3" "SOH \<notin> set c" "length w < 2 ^ 31"
    using assms(1) by (rule parseableE)
  let ?u = "m_buffer p" and ?p = "p\<lparr>m_lengthSearchFrom := 0\<rparr>"
  obtain v where v: "w = ?u @ v" "v \<noteq> []" using p(2) by (auto simp: strict_prefix_def prefix_def)
  have "take 2 ?u = ''8=''" using two arg_cong [OF v(1), of "take 2"] w(1) by simp
  then have "prefix ''8='' ?u" by (metis take_is_prefix)
  then have front: "str_find ''8='' ?u 0 = Some 0" by (intro str_find_here) auto
  have small: "length rest < 2 ^ 31" and pre: "prefix ?u (''8='' @ b @ [SOH] @ ''9='' @ decimal (int (length rest)) @ [SOH] @ rest @ ''10='' @ c @ [SOH])"
    using w(1,6) v(1) by (simp, metis prefixI)
  from w(2) small pre show ?thesis
  proof (cases rule: incomplete_length)
    case 1
    with two front show ?thesis
      unfolding readFixMessage_resumed [OF p(1)] by (simp add: readFixMessage_def read_front_def)
  next
    case (2 z)
    let ?A = "''8='' @ b @ [SOH] @ ''9='' @ decimal (int (length rest)) @ [SOH]"
    have "frame_at (length ?A + nat (int (length rest))) ?p = (None, ?p)"
    proof (cases "length z < length rest")
      case True
      with 2(1) show ?thesis by (simp add: frame_at_def)
    next
      case False
      from 2(2) False obtain y where y: "z = rest @ y" "prefix y (''10='' @ c @ [SOH])"
        by (auto elim: prefix_split)
      obtain AR where AR: "''8='' @ b @ [SOH] @ ''9='' @ decimal (int (length rest)) @ [SOH] @ rest = AR @ [SOH]"
        using w(3) by (rule counted_ends)
      have "y \<noteq> ''10='' @ c @ [SOH]" using v w(1) 2(1) y(1) by auto
      with y(2) have strict: "strict_prefix y (''10='' @ c @ [SOH])" by (simp add: strict_prefix_def)
      have "m_buffer ?p = (''8='' @ b @ [SOH] @ ''9='' @ decimal (int (length rest)) @ [SOH] @ rest) @ y"
        using 2(1) y(1) by simp
      then have "m_buffer ?p = AR @ [SOH] @ y" unfolding AR by simp
      from frame_at_short [OF this strict w(5)] show ?thesis
        using arg_cong [OF AR, of length] by (simp add: add.assoc)
    qed
    with 2(3) two front show ?thesis
      unfolding readFixMessage_resumed [OF p(1)] by (simp add: readFixMessage_def read_front_def)
  qed
qed

section \<open>Whole streams\<close>

text \<open>Feeding a parser chunk by chunk, handing over all messages after each chunk.\<close>

fun feed :: "string list \<Rightarrow> Parser \<Rightarrow> (string list \<times> Parser) result" where
  "feed [] p = Ok ([], p)"
| "feed (chunk # chunks) p =
     rbind (addToStream chunk p) (\<lambda>p1.
     case drain [] p1 of (msgs, p2) \<Rightarrow>
     rbind (feed chunks p2) (\<lambda>(msgs', p3). Ok (msgs @ msgs', p3)))"

text \<open>What is left when every message that has arrived has been read.\<close>

definition waiting :: "string list \<Rightarrow> Parser \<Rightarrow> bool" where
  "waiting ws p = (parser_ok p \<and> (case ws of [] \<Rightarrow> m_buffer p = [] | w # _ \<Rightarrow> strict_prefix (m_buffer p) w))"

lemma drain_messages:
  assumes "\<forall>w\<in>set ws. parseable w" "parser_ok p" "m_buffer p @ later = concat ws"
  obtains ws1 ws2 p' where "ws = ws1 @ ws2" "drain msg p = (ws1, p')" "m_buffer p' @ later = concat ws2" "waiting ws2 p'"
  using assms
proof (induction ws arbitrary: p msg thesis)
  case Nil
  then have "m_buffer p = []" by simp
  then have "readMessage msg p = (False, msg, p)" by (simp add: readMessage_def readFixMessage_def)
  then have "drain msg p = ([], p)" by (simp add: drain.simps)
  with Nil show ?case by (simp add: waiting_def)
next
  case (Cons w ws)
  have w: "parseable w" "\<forall>w\<in>set ws. parseable w" using Cons.prems(2) by auto
  have app: "m_buffer p @ later = w @ concat ws" using Cons.prems(4) by simp
  show ?case
  proof (cases "length w \<le> length (m_buffer p)")
    case True
    with app obtain t where t: "m_buffer p = w @ t" "t @ later = concat ws"
      by (metis append_eq_append_conv_if append_eq_conv_conj)
    let ?p = "p\<lparr>m_buffer := t, m_lengthSearchFrom := 0\<rparr>"
    have read: "readMessage msg p = (True, w, ?p)"
      using reads_complete [OF w(1) Cons.prems(3) t(1)] by (simp add: readMessage_def)
    obtain ws1 ws2 p' where "ws = ws1 @ ws2" "drain w ?p = (ws1, p')" "m_buffer p' @ later = concat ws2" "waiting ws2 p'"
      by (rule Cons.IH [where p = ?p and msg = w]) (use w(2) t(2) in auto)
    with read Cons.prems(1) [of "w # ws1" ws2 p'] show ?thesis by (simp add: drain.simps [of msg])
  next
    case False
    then have sp: "strict_prefix (m_buffer p) w"
      using app by (metis append_eq_append_conv2 le_add1 length_append not_le prefixI strict_prefixI' prefix_order.le_neq_trans nat_less_le)
    from reads_incomplete [OF w(1) Cons.prems(3) sp] obtain p' where p': "readFixMessage p = (Ok None, p')" "m_buffer p' = m_buffer p"
      by blast
    have "parser_ok p'"
      by (rule readFixMessage_cases [of p]) (use p' Cons.prems(3) in auto)
    with p' sp have "waiting (w # ws) p'" by (simp add: waiting_def)
    moreover have "drain msg p = ([], p')" using p'(1) by (simp add: drain.simps [of msg] readMessage_def)
    ultimately show ?thesis using Cons.prems(1,4) p'(2) by (metis append_Nil)
  qed
qed

lemma feed_messages:
  assumes "\<forall>w\<in>set ws. parseable w" "waiting ws p" "m_buffer p @ concat chunks = concat ws"
    "\<forall>w\<in>set ws. \<forall>chunk\<in>set chunks. length w + length chunk \<le> MAX_MESSAGE_SIZE"
  shows "\<exists>p'. feed chunks p = Ok (ws, p') \<and> m_buffer p' = []"
  using assms
proof (induction chunks arbitrary: ws p)
  case Nil
  have "ws = []"
  proof (cases ws)
    case (Cons w ws')
    with Nil show ?thesis by (auto simp: waiting_def dest!: arg_cong [of _ _ length] prefix_length_less)
  qed
  with Nil show ?case by (simp add: waiting_def)
next
  case (Cons chunk chunks)
  have size: "length (m_buffer p) + length chunk \<le> MAX_MESSAGE_SIZE"
  proof (cases ws)
    case Nil
    with Cons.prems(3) show ?thesis by simp
  next
    case (Cons w ws')
    with Cons.prems(2,4) prefix_length_less [of "m_buffer p" w] show ?thesis by (fastforce simp: waiting_def)
  qed
  let ?p = "p\<lparr>m_buffer := m_buffer p @ chunk\<rparr>"
  have add: "addToStream chunk p = Ok ?p" using size by (simp add: addToStream_def)
  have "parser_ok ?p" using Cons.prems(2) parser_ok_add by (simp add: waiting_def)
  then obtain ws1 ws2 p' where d: "ws = ws1 @ ws2" "drain [] ?p = (ws1, p')" "m_buffer p' @ concat chunks = concat ws2" "waiting ws2 p'"
    by (rule drain_messages [OF Cons.prems(1), of ?p "concat chunks" "[]"]) (use Cons.prems(3) in auto)
  have "\<exists>p''. feed chunks p' = Ok (ws2, p'') \<and> m_buffer p'' = []"
    by (rule Cons.IH) (use Cons.prems(1,4) d in auto)
  with add d show ?case by auto
qed

lemma parseable_nonempty: "parseable w \<Longrightarrow> w \<noteq> []"
  by (rule parseableE [of w]) auto

section \<open>Reachable parsers\<close>

inductive parser_reachable :: "Parser \<Rightarrow> bool" where
  start: "parser_reachable new_Parser"
| add: "parser_reachable p \<Longrightarrow> addToStream str p = Ok p' \<Longrightarrow> parser_reachable p'"
| read: "parser_reachable p \<Longrightarrow> readFixMessage p = (r, p') \<Longrightarrow> parser_reachable p'"

lemma parser_reachable_ok:
  "parser_reachable p \<Longrightarrow> parser_ok p \<and> length (m_buffer p) \<le> MAX_MESSAGE_SIZE"
proof (induction rule: parser_reachable.induct)
  case (read p r p')
  show ?case
    by (rule readFixMessage_cases [of p]) (use read in auto)
qed (auto simp: new_Parser_def addToStream_def parser_ok_add split: if_splits)

lemma encoded_parseable:
  assumes "sendable msg" "field_value (m_header msg) TAG_BeginString = Some b" "SOH \<notin> set b"
    "Message_toString msg = Ok (w, msg')" "length w < 2 ^ 31"
  shows "parseable w"
  using toString_framed [OF assms(1,2)] assms(3-5) by (auto simp: parseable_def)

section \<open>Properties\<close>

text \<open>C35: the resumed search is an optimisation only. Whatever bytes a parser was given and
  however often it was read, its buffer stays within the size limit and \<open>readFixMessage\<close> behaves exactly as
  if it searched for the length field from the front of the buffer.\<close>

theorem parser_resume_equivalence:
  assumes "parser_reachable p"
  shows "readFixMessage p = readFixMessage (p\<lparr>m_lengthSearchFrom := 0\<rparr>) \<and> length (m_buffer p) \<le> MAX_MESSAGE_SIZE"
  using parser_reachable_ok [OF assms] readFixMessage_resumed by blast

theorem parser_resume_equivalence_witness:
  "readFixMessage new_Parser = readFixMessage (new_Parser\<lparr>m_lengthSearchFrom := 0\<rparr>) \<and> length (m_buffer new_Parser) \<le> MAX_MESSAGE_SIZE"
  by (rule parser_resume_equivalence [OF parser_reachable.start])

text \<open>C34: messages arrive whole and in order. However a stream of encoded messages is cut into chunks,
  feeding the chunks to a fresh parser and reading after each hands over exactly these messages, each once, in
  order, and leaves nothing behind (as long as a message and a chunk together stay within the size limit).
  This holds for data fields with embedded SOH too.\<close>

theorem stream_delivery:
  assumes "\<forall>w\<in>set ws. parseable w" "concat chunks = concat ws"
    "\<forall>w\<in>set ws. \<forall>chunk\<in>set chunks. length w + length chunk \<le> MAX_MESSAGE_SIZE"
  shows "\<exists>p. feed chunks new_Parser = Ok (ws, p) \<and> m_buffer p = []"
proof (rule feed_messages)
  have "strict_prefix [] w" if "w \<in> set ws" for w
    using parseable_nonempty [of w] that assms(1) by (cases w) auto
  then show "waiting ws new_Parser" by (auto simp: waiting_def new_Parser_def split: list.split)
qed (use assms in \<open>simp_all add: new_Parser_def\<close>)

text \<open>What an unreadable length does to the connection. When a message is followed by one whose
  BodyLength is not a number, the parser throws and drops its whole buffer, and the loop of the
  connection, which keeps the message variable and treats the error as a read, hands the message before it to
  the session a second time.\<close>

theorem drain_after_parse_error:
  assumes "parser_ok p" "parseable w" "SOH \<notin> set b" "SOH \<notin> set n" "IntConvertor n = None"
    "m_buffer p = w @ ''8='' @ b @ [SOH] @ ''9='' @ n @ [SOH] @ tl_bytes"
  shows "fst (drain msg p) = [w, w] \<and> m_buffer (snd (drain msg p)) = []"
proof -
  let ?bad = "''8='' @ b @ [SOH] @ ''9='' @ n @ [SOH] @ tl_bytes"
  let ?p = "p\<lparr>m_buffer := ?bad, m_lengthSearchFrom := 0\<rparr>" and ?q = "p\<lparr>m_buffer := [], m_lengthSearchFrom := 0\<rparr>"
  have 1: "readMessage msg p = (True, w, ?p)"
    using reads_complete [OF assms(2,1,6)] by (simp add: readMessage_def)
  have hdr: "str_find length_header ?bad 0 = Some (length (''8='' @ b))"
    using header_found [OF assms(3), of "n @ [SOH] @ tl_bytes"] by simp
  have soh: "str_find [SOH] ?bad (length (''8='' @ b) + 3) = Some (length (''8='' @ b @ [SOH] @ ''9='') + length n)"
    by (rule str_find_seg [of _ _ n SOH "[]" tl_bytes]) (use assms(4) in simp_all)
  have "substr ?bad (length (''8='' @ b) + 3) (length (''8='' @ b @ [SOH] @ ''9='') + length n) = n"
    by (rule substr_seg [of _ "''8='' @ b @ [SOH] @ ''9=''" _ "[SOH] @ tl_bytes"]) simp_all
  then have "extractLength 0 0 ?bad 0 = (Throw MessageParseError, 0, 0)"
    unfolding extractLength_def hdr option.simps Let_def soh using assms(5) by simp
  moreover have "str_find ''8='' ?bad 0 = Some 0" by (rule str_find_here) simp_all
  ultimately have 2: "readMessage w ?p = (True, w, ?q)"
    by (simp add: readMessage_def readFixMessage_def read_front_def)
  have 3: "readMessage w ?q = (False, w, ?q)" by (simp add: readMessage_def readFixMessage_def)
  have "drain w ?q = ([], ?q)" by (simp only: drain.simps [of w ?q] 3 prod.case bool.case)
  then have "drain w ?p = ([w], ?q)" by (simp only: drain.simps [of w ?p] 2 prod.case bool.case)
  then have "drain msg p = ([w, w], ?q)" by (simp only: drain.simps [of msg p] 1 prod.case bool.case)
  then show ?thesis by simp
qed

section \<open>Witnesses\<close>

text \<open>A Heartbeat, whole and cut in two.\<close>

definition heartbeat_wire :: string where
  "heartbeat_wire = ''8=FIX.4.2'' @ [SOH] @ ''9=5'' @ [SOH] @ ''35=0'' @ [SOH] @ ''10=161'' @ [SOH]"

lemma heartbeat_wire_parseable: "parseable heartbeat_wire"
proof -
  have "decimal 5 = ''5''" "decimal 161 = ''161''" by code_simp+
  moreover have "int_convert signed_int (decimal 161) = Some 161" by (rule int_convert_decimal [OF int_types_ok(1)]) (simp_all add: signed_int_def)
  moreover have "byte_sum (''8=FIX.4.2'' @ [SOH] @ ''9=5'' @ [SOH] @ ''35=0'' @ [SOH]) = 929" by code_simp
  ultimately have "framed ''FIX.4.2'' heartbeat_wire"
    unfolding framed_def heartbeat_wire_def
    by (intro exI [of _ "''35=0'' @ [SOH]"] exI [of _ "''161''"])
      (simp add: CheckSumConvertor_convert_def del: byte_sum_def)
  then show ?thesis by (force simp: parseable_def heartbeat_wire_def)
qed

theorem stream_delivery_witness:
  "\<exists>p. feed [take 9 heartbeat_wire, drop 9 heartbeat_wire @ take 2 heartbeat_wire, drop 2 heartbeat_wire] new_Parser =
     Ok ([heartbeat_wire, heartbeat_wire], p) \<and> m_buffer p = []"
  by (rule stream_delivery) (use heartbeat_wire_parseable in \<open>auto simp: heartbeat_wire_def MAX_MESSAGE_SIZE_def\<close>)

theorem drain_after_parse_error_witness:
  "fst (drain [] (new_Parser\<lparr>m_buffer := heartbeat_wire @ ''8=FIX.4.2'' @ [SOH] @ ''9=x'' @ [SOH]\<rparr>)) = [heartbeat_wire, heartbeat_wire] \<and>
   m_buffer (snd (drain [] (new_Parser\<lparr>m_buffer := heartbeat_wire @ ''8=FIX.4.2'' @ [SOH] @ ''9=x'' @ [SOH]\<rparr>))) = []"
  by (rule drain_after_parse_error [where b = "''FIX.4.2''" and n = "''x''" and tl_bytes = "[]"])
    (simp_all add: heartbeat_wire_parseable new_Parser_def, code_simp)

end
