(* ===== verification/SessionIDs.thy ===== *)
theory SessionIDs
  imports FixPrelude
begin

text \<open>
  SessionID.h: the identity of a session and its text form, which also serves as its
  equality and order.
\<close>

section \<open>Definitions\<close>

record SessionID =
  m_beginString :: string
  m_senderCompID :: string
  m_targetCompID :: string
  m_sessionQualifier :: string
  m_isFIXT :: bool
  m_frozenString :: string

text \<open>\<open>toString(str)\<close> builds the text from the parts, \<open>toString()\<close> returns the stored one.\<close>

definition SessionID_text :: "SessionID \<Rightarrow> string" where
  "SessionID_text sid =
     m_beginString sid @ '':'' @ m_senderCompID sid @ ''->'' @ m_targetCompID sid @
     (if m_sessionQualifier sid \<noteq> [] then '':'' @ m_sessionQualifier sid else [])"

definition freeze :: "SessionID \<Rightarrow> SessionID" where
  "freeze sid = sid\<lparr>m_frozenString := SessionID_text sid\<rparr>"

definition default_SessionID :: SessionID where
  "default_SessionID =
     freeze \<lparr>m_beginString = [], m_senderCompID = [], m_targetCompID = [], m_sessionQualifier = [],
             m_isFIXT = False, m_frozenString = []\<rparr>"

definition mk_SessionID :: "string \<Rightarrow> string \<Rightarrow> string \<Rightarrow> string \<Rightarrow> SessionID" where
  "mk_SessionID beginString senderCompID targetCompID sessionQualifier =
     freeze \<lparr>m_beginString = beginString, m_senderCompID = senderCompID, m_targetCompID = targetCompID,
             m_sessionQualifier = sessionQualifier, m_isFIXT = (take 4 beginString = ''FIXT''), m_frozenString = []\<rparr>"

definition SessionID_toString :: "SessionID \<Rightarrow> string" where
  "SessionID_toString sid = m_frozenString sid"

definition getBeginString :: "SessionID \<Rightarrow> string" where "getBeginString sid = m_beginString sid"
definition getSenderCompID :: "SessionID \<Rightarrow> string" where "getSenderCompID sid = m_senderCompID sid"
definition getTargetCompID :: "SessionID \<Rightarrow> string" where "getTargetCompID sid = m_targetCompID sid"
definition getSessionQualifier :: "SessionID \<Rightarrow> string" where "getSessionQualifier sid = m_sessionQualifier sid"
definition isFIXT :: "SessionID \<Rightarrow> bool" where "isFIXT sid = m_isFIXT sid"

text \<open>\<open>find_last_of\<close> a character; \<open>str.substr(pos, n)\<close> with the unsigned difference
  \<open>j - i\<close> as its length, which runs to the end of the text when \<open>j\<close> is smaller.\<close>

definition find_last_char :: "char \<Rightarrow> string \<Rightarrow> nat option" where
  "find_last_char c s = (if c \<in> set s then Some (length s - 1 - find_char c (rev s)) else None)"

definition substr_diff :: "string \<Rightarrow> nat \<Rightarrow> nat \<Rightarrow> nat \<Rightarrow> string" where
  "substr_diff s pos i j = (if i \<le> j then take (j - i) (drop pos s) else drop pos s)"

definition fromString :: "string \<Rightarrow> SessionID \<Rightarrow> SessionID" where
  "fromString str sid =
     (case (str_find '':'' str 0, str_find ''->'' str 0, find_last_char (CHR '':'') str) of
        (Some first, Some second, Some third) \<Rightarrow>
          let sid = sid\<lparr>m_beginString := take first str,
                        m_senderCompID := substr_diff str (first + 1) (first + 1) second\<rparr> in
          freeze (if first = third
                  then sid\<lparr>m_targetCompID := drop (second + 2) str, m_sessionQualifier := []\<rparr>
                  else sid\<lparr>m_targetCompID := substr_diff str (second + 2) (second + 2) third,
                           m_sessionQualifier := drop (third + 1) str\<rparr>)
      | _ \<Rightarrow> sid)"

definition SessionID_less :: "SessionID \<Rightarrow> SessionID \<Rightarrow> bool" where
  "SessionID_less lhs rhs = (m_frozenString lhs < m_frozenString rhs)"

definition SessionID_eq :: "SessionID \<Rightarrow> SessionID \<Rightarrow> bool" where
  "SessionID_eq lhs rhs = (m_frozenString lhs = m_frozenString rhs)"

text \<open>\<open>operator~\<close>: the counterparty's view of the session.\<close>

definition SessionID_reverse :: "SessionID \<Rightarrow> SessionID" where
  "SessionID_reverse sid =
     mk_SessionID (m_beginString sid) (m_targetCompID sid) (m_senderCompID sid) (m_sessionQualifier sid)"

section \<open>Lemmas\<close>

lemma SessionID_sel [simp]:
  "m_beginString (mk_SessionID b s t q) = b" "m_senderCompID (mk_SessionID b s t q) = s"
  "m_targetCompID (mk_SessionID b s t q) = t" "m_sessionQualifier (mk_SessionID b s t q) = q"
  "m_isFIXT (mk_SessionID b s t q) = (take 4 b = ''FIXT'')"
  by (simp_all add: mk_SessionID_def freeze_def)

lemma frozen_mk: "m_frozenString (mk_SessionID b s t q) = b @ '':'' @ s @ ''->'' @ t @ (if q \<noteq> [] then '':'' @ q else [])"
  by (simp add: mk_SessionID_def freeze_def SessionID_text_def)

lemma freeze_sel [simp]:
  "m_beginString (freeze sid) = m_beginString sid" "m_senderCompID (freeze sid) = m_senderCompID sid"
  "m_targetCompID (freeze sid) = m_targetCompID sid" "m_sessionQualifier (freeze sid) = m_sessionQualifier sid"
  "m_isFIXT (freeze sid) = m_isFIXT sid" "m_frozenString (freeze sid) = SessionID_text sid"
  by (simp_all add: freeze_def SessionID_text_def)

lemma find_last_char_seg: "c \<notin> set Y \<Longrightarrow> find_last_char c (X @ c # Y) = Some (length X)"
  by (simp add: find_last_char_def)

text \<open>The parts that the text form keeps apart: no colon in the BeginString, the first arrow is
  the separator, and the last colon introduces the qualifier (or is the first one).\<close>

definition id_parts_ok :: "string \<Rightarrow> string \<Rightarrow> string \<Rightarrow> string \<Rightarrow> bool" where
  "id_parts_ok b s t q =
     (CHR '':'' \<notin> set b \<and> \<not> sublist ''->'' (b @ '':'' @ s) \<and>
      (if q = [] then CHR '':'' \<notin> set s \<and> CHR '':'' \<notin> set t else CHR '':'' \<notin> set q))"

lemma arrow_found:
  assumes "\<not> sublist ''->'' X"
  shows "str_find ''->'' (X @ ''->'' @ Y) 0 = Some (length X)"
proof (rule str_find_eqI)
  fix j assume "j < length X"
  then obtain u where "drop j X = X ! j # u" "X = take j X @ X ! j # u"
    by (metis Cons_nth_drop_Suc append_take_drop_id)
  with assms show "\<not> prefix ''->'' (drop j (X @ ''->'' @ Y))" using \<open>j < length X\<close>
    by (cases u) (auto simp: sublist_def)
qed simp_all

lemma fromString_parts:
  assumes "id_parts_ok b s t q" and sid'_def: "sid' = fromString (m_frozenString (mk_SessionID b s t q)) sid"
  shows "m_beginString sid' = b \<and> m_senderCompID sid' = s \<and> m_targetCompID sid' = t \<and> m_sessionQualifier sid' = q \<and>
    m_frozenString sid' = m_frozenString (mk_SessionID b s t q)"
proof -
  note ok = assms(1) [unfolded id_parts_ok_def]
  let ?str = "b @ '':'' @ s @ ''->'' @ t @ (if q \<noteq> [] then '':'' @ q else [])"
  have 1: "str_find '':'' ?str 0 = Some (length b)"
    using str_find_seg [of ?str "[]" b "CHR '':''" "[]"] ok by simp
  have 2: "str_find ''->'' ?str 0 = Some (length b + 1 + length s)"
    using arrow_found [of "b @ '':'' @ s" "t @ (if q \<noteq> [] then '':'' @ q else [])"] ok by simp
  have 3: "find_last_char (CHR '':'') ?str = Some (if q = [] then length b else length (b @ '':'' @ s @ ''->'' @ t))"
    using find_last_char_seg [of "CHR '':''" "s @ ''->'' @ t" b] find_last_char_seg [of "CHR '':''" q "b @ '':'' @ s @ ''->'' @ t"] ok
    by (auto split: if_splits)
  show ?thesis
    unfolding sid'_def frozen_mk fromString_def 1 2 3 prod.case option.case Let_def
    by (auto simp: substr_diff_def SessionID_text_def numeral_eq_Suc)
qed

section \<open>Properties\<close>

text \<open>The text of a session id identifies it. Reading the text back gives the same BeginString,
  CompIDs and qualifier, whatever the id held before; so equality of the texts, which is the equality of
  the class, is equality of the parts. The conditions on the parts cannot be dropped: a colon or an arrow in the wrong
  part makes two different sessions equal.\<close>

theorem session_id_roundtrip:
  assumes "id_parts_ok b s t q" "id_parts_ok b' s' t' q'"
  shows "fromString (SessionID_toString (mk_SessionID b s t q)) sid =
      (mk_SessionID b s t q)\<lparr>m_isFIXT := m_isFIXT sid\<rparr> \<and>
    (SessionID_eq (mk_SessionID b s t q) (mk_SessionID b' s' t' q') \<longleftrightarrow> b = b' \<and> s = s' \<and> t = t' \<and> q = q') \<and>
    SessionID_reverse (SessionID_reverse (mk_SessionID b s t q)) = mk_SessionID b s t q"
proof -
  have fixt: "m_isFIXT (fromString str sid) = m_isFIXT sid" for str
    by (auto simp: fromString_def Let_def split: option.split)
  have "SessionID_eq (mk_SessionID b s t q) (mk_SessionID b' s' t' q') \<longleftrightarrow> b = b' \<and> s = s' \<and> t = t' \<and> q = q'"
    using fromString_parts [OF assms(1) refl] fromString_parts [OF assms(2) refl] unfolding SessionID_eq_def by metis
  with fromString_parts [OF assms(1) refl, of sid] fixt show ?thesis
    by (auto intro!: SessionID.equality simp: SessionID_toString_def SessionID_reverse_def)
qed

theorem session_id_roundtrip_witness:
  "fromString ''FIX.4.2:A->B:q'' default_SessionID = (mk_SessionID ''FIX.4.2'' ''A'' ''B'' ''q'')\<lparr>m_isFIXT := False\<rparr> \<and>
   \<not> SessionID_eq (mk_SessionID ''FIX.4.2'' ''A'' ''B'' ''q'') (mk_SessionID ''FIX.4.2'' ''A'' ''B'' [])"
proof -
  have 1: "id_parts_ok ''FIX.4.2'' ''A'' ''B'' ''q''" "id_parts_ok ''FIX.4.2'' ''A'' ''B'' []" by code_simp+
  have 2: "SessionID_toString (mk_SessionID ''FIX.4.2'' ''A'' ''B'' ''q'') = ''FIX.4.2:A->B:q''"
    "m_isFIXT default_SessionID = False" by (simp_all add: SessionID_toString_def frozen_mk default_SessionID_def)
  show ?thesis using session_id_roundtrip [OF 1, of default_SessionID] unfolding 2 by simp
qed

text \<open>Without the conditions the text is ambiguous.\<close>

lemma session_id_collision:
  "SessionID_eq (mk_SessionID ''FIX.4.2'' ''A'' ''B:q'' []) (mk_SessionID ''FIX.4.2'' ''A'' ''B'' ''q'')"
  by (simp add: SessionID_eq_def frozen_mk)

end
