(* ===== verification/Effects.thy ===== *)
theory Effects
  imports FixFields
begin

text \<open>
  Stateful code that may throw: a computation takes the state and returns a value or an
  exception together with the state at that point. C++ keeps the changes made before an exception, so
  a throw carries the state it happened in. \<open>keeps P m\<close> says that \<open>m\<close> preserves \<open>P\<close> whether it returns or
  throws, \<open>returns P m Q\<close> that from \<open>P\<close> it returns normally with \<open>Q\<close>.
\<close>

section \<open>Computations\<close>

type_synonym ('s, 'a) eff = "'s \<Rightarrow> 'a result \<times> 's"

definition eret :: "'a \<Rightarrow> ('s, 'a) eff" where
  "eret x s = (Ok x, s)"

definition ethrow :: "exn \<Rightarrow> ('s, 'a) eff" where
  "ethrow e s = (Throw e, s)"

definition ebind :: "('s, 'a) eff \<Rightarrow> ('a \<Rightarrow> ('s, 'b) eff) \<Rightarrow> ('s, 'b) eff" where
  "ebind m f s = (case m s of (Inl e, s') \<Rightarrow> (Inl e, s') | (Inr x, s') \<Rightarrow> f x s')"

definition egets :: "('s \<Rightarrow> 'a) \<Rightarrow> ('s, 'a) eff" where
  "egets f s = (Ok (f s), s)"

definition emodify :: "('s \<Rightarrow> 's) \<Rightarrow> ('s, unit) eff" where
  "emodify f s = (Ok (), f s)"

definition elift :: "'a result \<Rightarrow> ('s, 'a) eff" where
  "elift r s = (r, s)"

definition ewhen :: "bool \<Rightarrow> ('s, unit) eff \<Rightarrow> ('s, unit) eff" where
  "ewhen b m = (if b then m else eret ())"

text \<open>Statements one after the other, and a try block with its handlers.\<close>

primrec eseq :: "('s, unit) eff list \<Rightarrow> ('s, unit) eff" where
  "eseq [] = eret ()"
| "eseq (m # ms) = ebind m (\<lambda>_. eseq ms)"

definition ecatch :: "('s, 'a) eff \<Rightarrow> (exn \<Rightarrow> ('s, 'a) eff) \<Rightarrow> ('s, 'a) eff" where
  "ecatch m handler s = (case m s of (Inl e, s') \<Rightarrow> handler e s' | (Inr x, s') \<Rightarrow> (Inr x, s'))"

text \<open>A computation on a part of the state.\<close>

definition ezoom :: "('s \<Rightarrow> 't) \<Rightarrow> ('t \<Rightarrow> 's \<Rightarrow> 's) \<Rightarrow> ('t, 'a) eff \<Rightarrow> ('s, 'a) eff" where
  "ezoom part update m s = (case m (part s) of (r, t) \<Rightarrow> (r, update t s))"

lemmas eff_defs = eret_def ethrow_def ebind_def egets_def emodify_def elift_def ewhen_def ecatch_def ezoom_def

lemma ebind_eret [simp]: "ebind (eret x) f = f x"
  by (simp add: eff_defs fun_eq_iff)

lemma ebind_egets [simp]: "ebind (egets f) k s = k (f s) s"
  by (simp add: eff_defs)

lemma ebind_emodify [simp]: "ebind (emodify f) k s = k () (f s)"
  by (simp add: eff_defs)

lemma ebind_ethrow [simp]: "ebind (ethrow e) k = ethrow e"
  by (simp add: eff_defs fun_eq_iff)

lemma ebind_assoc: "ebind (ebind m f) g = ebind m (\<lambda>x. ebind (f x) g)"
  by (auto simp: ebind_def fun_eq_iff split: prod.split sum.split)

lemma eseq_append: "eseq (ms @ ns) = ebind (eseq ms) (\<lambda>_. eseq ns)"
  by (induction ms) (simp_all add: ebind_assoc)

lemma ebind_Ok: "m s = (Ok x, s') \<Longrightarrow> ebind m f s = f x s'"
  by (simp add: ebind_def)

lemma ebind_Throw: "m s = (Throw e, s') \<Longrightarrow> ebind m f s = (Throw e, s')"
  by (simp add: ebind_def)

section \<open>Invariants of computations\<close>

definition keeps :: "('s \<Rightarrow> bool) \<Rightarrow> ('s, 'a) eff \<Rightarrow> bool" where
  "keeps P m = (\<forall>s. P s \<longrightarrow> P (snd (m s)))"

named_theorems keeps_intros

lemma keepsI: "(\<And>s. P s \<Longrightarrow> P (snd (m s))) \<Longrightarrow> keeps P m"
  by (simp add: keeps_def)

lemma keepsD: "keeps P m \<Longrightarrow> P s \<Longrightarrow> P (snd (m s))"
  by (simp add: keeps_def)

lemma keeps_basic [keeps_intros]:
  "keeps P (eret x)" "keeps P (ethrow e)" "keeps P (egets f)" "keeps P (elift r)"
  by (simp_all add: keeps_def eff_defs)

lemma keeps_modify [keeps_intros]: "(\<And>s. P s \<Longrightarrow> P (f s)) \<Longrightarrow> keeps P (emodify f)"
  by (simp add: keeps_def eff_defs)

lemma keeps_bind [keeps_intros]: "keeps P m \<Longrightarrow> (\<And>x. keeps P (f x)) \<Longrightarrow> keeps P (ebind m f)"
  by (fastforce simp: keeps_def ebind_def split: prod.split sum.split)

lemma keeps_catch [keeps_intros]: "keeps P m \<Longrightarrow> (\<And>e. keeps P (h e)) \<Longrightarrow> keeps P (ecatch m h)"
  by (fastforce simp: keeps_def ecatch_def split: prod.split sum.split)

lemma keeps_when [keeps_intros]: "(b \<Longrightarrow> keeps P m) \<Longrightarrow> keeps P (ewhen b m)"
  by (simp add: ewhen_def keeps_basic)

lemma keeps_seq [keeps_intros]: "keeps P (eseq [])" "keeps P m \<Longrightarrow> keeps P (eseq ms) \<Longrightarrow> keeps P (eseq (m # ms))"
  by (auto intro: keeps_intros)

lemma keeps_seq_map: "(\<And>x. x \<in> set xs \<Longrightarrow> keeps P (f x)) \<Longrightarrow> keeps P (eseq (map f xs))"
  by (induction xs) (auto intro: keeps_intros)

lemma keeps_if [keeps_intros]: "(b \<Longrightarrow> keeps P m) \<Longrightarrow> (\<not> b \<Longrightarrow> keeps P n) \<Longrightarrow> keeps P (if b then m else n)"
  by simp

lemma keeps_option [keeps_intros]:
  "(x = None \<Longrightarrow> keeps P m) \<Longrightarrow> (\<And>y. x = Some y \<Longrightarrow> keeps P (f y)) \<Longrightarrow> keeps P (case x of None \<Rightarrow> m | Some y \<Rightarrow> f y)"
  by (simp split: option.split)

lemma keeps_sum [keeps_intros]:
  "(\<And>e. x = Inl e \<Longrightarrow> keeps P (f e)) \<Longrightarrow> (\<And>y. x = Inr y \<Longrightarrow> keeps P (g y)) \<Longrightarrow> keeps P (case x of Inl e \<Rightarrow> f e | Inr y \<Rightarrow> g y)"
  by (simp split: sum.split)

lemma keeps_prod [keeps_intros]: "(\<And>y z. x = (y, z) \<Longrightarrow> keeps P (f y z)) \<Longrightarrow> keeps P (case x of (y, z) \<Rightarrow> f y z)"
  by (simp split: prod.split)

text \<open>\<open>leads P m Q\<close>: from a state with \<open>P\<close> the computation ends, with a value or an exception, in one with \<open>Q\<close>;
  \<open>same P m n\<close>: on the states with \<open>P\<close> the two do the same.\<close>

definition leads :: "('s \<Rightarrow> bool) \<Rightarrow> ('s, 'a) eff \<Rightarrow> ('s \<Rightarrow> bool) \<Rightarrow> bool" where
  "leads P m Q = (\<forall>s. P s \<longrightarrow> Q (snd (m s)))"

lemma leads_keeps: "keeps P m \<Longrightarrow> leads P m P"
  by (simp add: leads_def keeps_def)

lemma leads_weaken: "leads P' m Q' \<Longrightarrow> (\<And>s. P s \<Longrightarrow> P' s) \<Longrightarrow> (\<And>s. Q' s \<Longrightarrow> Q s) \<Longrightarrow> leads P m Q"
  by (simp add: leads_def)

lemma leads_bind: "leads P m R \<Longrightarrow> (\<And>s. R s \<Longrightarrow> Q s) \<Longrightarrow> (\<And>x. leads R (f x) Q) \<Longrightarrow> leads P (ebind m f) Q"
  by (fastforce simp: leads_def ebind_def split: prod.split sum.split)

lemma leads_catch: "leads P m R \<Longrightarrow> (\<And>s. R s \<Longrightarrow> Q s) \<Longrightarrow> (\<And>e. leads R (h e) Q) \<Longrightarrow> leads P (ecatch m h) Q"
  by (fastforce simp: leads_def ecatch_def split: prod.split sum.split)

definition same :: "('s \<Rightarrow> bool) \<Rightarrow> ('s, 'a) eff \<Rightarrow> ('s, 'a) eff \<Rightarrow> bool" where
  "same P m n = (\<forall>s. P s \<longrightarrow> m s = n s)"

named_theorems same_intros

lemma sameD: "same P m n \<Longrightarrow> P s \<Longrightarrow> m s = n s"
  by (simp add: same_def)

lemma same_weaken: "same P m n \<Longrightarrow> (\<And>s. Q s \<Longrightarrow> P s) \<Longrightarrow> same Q m n"
  by (simp add: same_def)

lemma same_bind: "leads P m R \<Longrightarrow> (\<And>x. same R (f x) (g x)) \<Longrightarrow> same P (ebind m f) (ebind m g)"
  by (fastforce simp: same_def leads_def ebind_def split: prod.split sum.split)

lemma same_bind_left: "same P m n \<Longrightarrow> leads P m R \<Longrightarrow> (\<And>x. same R (f x) (g x)) \<Longrightarrow> same P (ebind m f) (ebind n g)"
  by (fastforce simp: same_def leads_def ebind_def split: prod.split sum.split)

lemma same_refl [same_intros]: "same P m m"
  by (simp add: same_def)

lemma same_catch: "same P m n \<Longrightarrow> same P (ecatch m h) (ecatch n h)"
  by (simp add: same_def ecatch_def)

lemma same_if [same_intros]: "(b \<Longrightarrow> same P m m') \<Longrightarrow> (\<not> b \<Longrightarrow> same P n n') \<Longrightarrow> same P (if b then m else n) (if b then m' else n')"
  by (simp add: same_def)

lemma same_when [same_intros]: "same P m n \<Longrightarrow> same P (ewhen b m) (ewhen b n)"
  by (simp add: same_def ewhen_def)

text \<open>\<open>returns P m Q\<close>: from a state with \<open>P\<close> the computation ends without an exception in a state with \<open>Q\<close>.\<close>

definition returns :: "('s \<Rightarrow> bool) \<Rightarrow> ('s, 'a) eff \<Rightarrow> ('a \<Rightarrow> 's \<Rightarrow> bool) \<Rightarrow> bool" where
  "returns P m Q = (\<forall>s. P s \<longrightarrow> (\<exists>x s'. m s = (Ok x, s') \<and> Q x s'))"

lemma returnsD: "returns P m Q \<Longrightarrow> P s \<Longrightarrow> \<exists>x s'. m s = (Ok x, s') \<and> Q x s'"
  by (simp add: returns_def)

lemma returns_bind:
  "returns P m R \<Longrightarrow> (\<And>x. returns (R x) (f x) Q) \<Longrightarrow> returns P (ebind m f) Q"
  by (fastforce simp: returns_def ebind_def)

end
