(* ===== verification/Stores.thy ===== *)
theory Stores
  imports Effects
begin

text \<open>
  MessageStore.h and MessageStore.cpp: the interface a session keeps its outgoing messages and
  sequence numbers behind, as the locale \<open>message_store\<close> with the laws a session relies on, and the store in memory.
\<close>

section \<open>MemoryStore\<close>

record MemoryStore =
  m_messages :: "(SEQNUM, string) smap"
  m_nextSenderMsgSeqNum :: SEQNUM
  m_nextTargetMsgSeqNum :: SEQNUM
  m_creationTime :: DateTime

definition new_MemoryStore :: "DateTime \<Rightarrow> MemoryStore" where
  "new_MemoryStore now =
     \<lparr>m_messages = [], m_nextSenderMsgSeqNum = 1, m_nextTargetMsgSeqNum = 1, m_creationTime = now\<rparr>"

definition ms_set :: "SEQNUM \<Rightarrow> string \<Rightarrow> MemoryStore \<Rightarrow> MemoryStore" where
  "ms_set msgSeqNum msg s = s\<lparr>m_messages := smap_put msgSeqNum msg (m_messages s)\<rparr>"

text \<open>The iteration starts at \<open>find(begin)\<close>, which is the end of the map when \<open>begin\<close> is not stored.\<close>

definition ms_get :: "SEQNUM \<Rightarrow> SEQNUM \<Rightarrow> MemoryStore \<Rightarrow> string list" where
  "ms_get lo hi s = map snd (takeWhile (\<lambda>p. fst p \<le> hi) (dropWhile (\<lambda>p. fst p \<noteq> lo) (m_messages s)))"

definition ms_setNextSenderMsgSeqNum :: "SEQNUM \<Rightarrow> MemoryStore \<Rightarrow> MemoryStore" where
  "ms_setNextSenderMsgSeqNum value' s = s\<lparr>m_nextSenderMsgSeqNum := value'\<rparr>"

definition ms_setNextTargetMsgSeqNum :: "SEQNUM \<Rightarrow> MemoryStore \<Rightarrow> MemoryStore" where
  "ms_setNextTargetMsgSeqNum value' s = s\<lparr>m_nextTargetMsgSeqNum := value'\<rparr>"

definition ms_incrNextSenderMsgSeqNum :: "MemoryStore \<Rightarrow> MemoryStore" where
  "ms_incrNextSenderMsgSeqNum s = s\<lparr>m_nextSenderMsgSeqNum := m_nextSenderMsgSeqNum s + 1\<rparr>"

definition ms_incrNextTargetMsgSeqNum :: "MemoryStore \<Rightarrow> MemoryStore" where
  "ms_incrNextTargetMsgSeqNum s = s\<lparr>m_nextTargetMsgSeqNum := m_nextTargetMsgSeqNum s + 1\<rparr>"

definition ms_setCreationTime :: "DateTime \<Rightarrow> MemoryStore \<Rightarrow> MemoryStore" where
  "ms_setCreationTime creationTime s = s\<lparr>m_creationTime := creationTime\<rparr>"

definition ms_reset :: "DateTime \<Rightarrow> MemoryStore \<Rightarrow> MemoryStore" where
  "ms_reset now s = s\<lparr>m_nextSenderMsgSeqNum := 1, m_nextTargetMsgSeqNum := 1, m_messages := [], m_creationTime := now\<rparr>"

lemmas ms_defs = ms_set_def ms_setNextSenderMsgSeqNum_def ms_setNextTargetMsgSeqNum_def
  ms_incrNextSenderMsgSeqNum_def ms_incrNextTargetMsgSeqNum_def ms_setCreationTime_def ms_reset_def new_MemoryStore_def

section \<open>The stored messages of a range\<close>

text \<open>What a range holds, in ascending order: the reference for \<open>get\<close> of both stores.\<close>

definition in_range :: "SEQNUM \<Rightarrow> SEQNUM \<Rightarrow> (SEQNUM \<rightharpoonup> string) \<Rightarrow> string list" where
  "in_range lo hi c = map (\<lambda>n. the (c (word_of_nat n))) (filter (\<lambda>n. c (word_of_nat n) \<noteq> None) [unat lo ..< Suc (unat hi)])"

lemma SEQNUM_bound: "unat n < 2 ^ 64" for n :: SEQNUM
  using unsigned_less [of n] by simp

lemma in_range_empty: "hi < lo \<Longrightarrow> in_range lo hi c = []"
  by (simp add: in_range_def word_less_nat_alt)

lemma in_range_step:
  assumes "lo \<le> hi"
  shows "in_range lo hi c = (case c lo of None \<Rightarrow> [] | Some m \<Rightarrow> [m]) @ (if lo = hi then [] else in_range (lo + 1) hi c)"
proof -
  have le: "unat lo \<le> unat hi" using assms by (simp add: word_le_nat_alt)
  have "unat (lo + 1) = Suc (unat lo)" if "lo \<noteq> hi"
  proof -
    have "unat lo < unat hi" using that le by (metis le_neq_implies_less unsigned_word_eqI)
    then show ?thesis using SEQNUM_bound [of hi] by (simp add: unat_word_ariths(1))
  qed
  with le show ?thesis
    by (cases "lo = hi") (auto simp: in_range_def upt_conv_Cons simp del: upt_Suc split: option.split)
qed

lemma in_range_consecutive:
  assumes "\<And>i. i < length ms \<Longrightarrow> c (lo + of_nat i) = Some (ms ! i)" "unat lo + length ms < 2 ^ 64" "ms \<noteq> []"
  shows "in_range lo (lo + of_nat (length ms) - 1) c = ms"
proof -
  have u: "unat (lo + of_nat i) = unat lo + i" if "i < length ms" for i
    using that assms(2) by (simp add: unat_word_ariths(1) unsigned_of_nat take_bit_nat_eq_self)
  have hi: "lo + of_nat (length ms) - 1 = lo + of_nat (length ms - 1)"
    using assms(3) by (cases ms) simp_all
  have uhi: "unat (lo + of_nat (length ms) - 1) = unat lo + (length ms - 1)"
    unfolding hi using u [of "length ms - 1"] assms(3) by simp
  have w: "word_of_nat (unat lo + i) = lo + of_nat i" for i by simp
  have ran: "[unat lo ..< Suc (unat lo + (length ms - 1))] = map (\<lambda>i. unat lo + i) [0 ..< length ms]"
    using assms(3) by (cases ms) (simp_all add: map_add_upt add.commute [of "unat lo"] del: upt_Suc)
  have "filter (\<lambda>n. c (word_of_nat n) \<noteq> None) (map (\<lambda>i. unat lo + i) [0 ..< length ms]) = map (\<lambda>i. unat lo + i) [0 ..< length ms]"
  proof (rule filter_True, rule ballI)
    fix n assume "n \<in> set (map (\<lambda>i. unat lo + i) [0 ..< length ms])"
    then have "n - unat lo < length ms" "n = unat lo + (n - unat lo)" by auto
    then show "c (word_of_nat n) \<noteq> None" using assms(1) [of "n - unat lo"] w [of "n - unat lo"] by simp
  qed
  then show ?thesis
    unfolding in_range_def uhi ran
    by (intro nth_equalityI) (auto simp: assms(1) w simp del: of_nat_add)
qed

section \<open>The contract of a store\<close>

text \<open>\<open>stored s\<close> is the messages a store holds, \<open>storable\<close> the ones it can give back. A session asks for a
  range only when its first message is stored; the stores differ otherwise.\<close>

locale message_store =
  fixes inv :: "'s \<Rightarrow> bool"
    and stored :: "'s \<Rightarrow> SEQNUM \<rightharpoonup> string"
    and storable :: "string \<Rightarrow> bool"
    and set_msg :: "SEQNUM \<Rightarrow> string \<Rightarrow> 's \<Rightarrow> 's"
    and get_range :: "SEQNUM \<Rightarrow> SEQNUM \<Rightarrow> 's \<Rightarrow> string list result"
    and sender :: "'s \<Rightarrow> SEQNUM"
    and target :: "'s \<Rightarrow> SEQNUM"
    and set_sender :: "SEQNUM \<Rightarrow> 's \<Rightarrow> 's"
    and set_target :: "SEQNUM \<Rightarrow> 's \<Rightarrow> 's"
  assumes stored_set: "inv s \<Longrightarrow> storable msg \<Longrightarrow> stored (set_msg n msg s) = (stored s)(n \<mapsto> msg)"
    and inv_set: "inv s \<Longrightarrow> inv (set_msg n msg s)"
    and numbers_set: "sender (set_msg n msg s) = sender s" "target (set_msg n msg s) = target s"
    and get_stored: "inv s \<Longrightarrow> lo \<noteq> 0 \<Longrightarrow> stored s lo \<noteq> None \<Longrightarrow> get_range lo hi s = Ok (in_range lo hi (stored s))"
    and inv_numbers: "inv s \<Longrightarrow> inv (set_sender n s)" "inv s \<Longrightarrow> inv (set_target n s)"
    and stored_numbers: "stored (set_sender n s) = stored s" "stored (set_target n s) = stored s"
    and numbers: "sender (set_sender n s) = n" "target (set_sender n s) = target s"
      "target (set_target n s) = n" "sender (set_target n s) = sender s"
begin

text \<open>Sending: each message is stored under the next number, which then moves on.\<close>

definition send_one :: "string \<Rightarrow> 's \<Rightarrow> 's" where
  "send_one msg s = (let n = sender s in set_sender (n + 1) (set_msg n msg s))"

lemma send_one_step:
  assumes "inv s" "storable msg"
  shows "inv (send_one msg s)" "sender (send_one msg s) = sender s + 1" "target (send_one msg s) = target s"
    "stored (send_one msg s) = (stored s)(sender s \<mapsto> msg)"
  using assms by (simp_all add: send_one_def Let_def inv_set inv_numbers numbers numbers_set stored_numbers stored_set)

lemma sent_run:
  assumes "inv s" "\<forall>m\<in>set ms. storable m" "unat (sender s) + length ms < 2 ^ 64"
  shows "inv (fold send_one ms s) \<and> sender (fold send_one ms s) = sender s + of_nat (length ms) \<and>
    (\<forall>i<length ms. stored (fold send_one ms s) (sender s + of_nat i) = Some (ms ! i)) \<and>
    (\<forall>n. unat n < unat (sender s) \<longrightarrow> stored (fold send_one ms s) n = stored s n)"
  using assms
proof (induction ms arbitrary: s)
  case (Cons m ms)
  let ?s = "send_one m s"
  note st = send_one_step [OF Cons.prems(1), of m]
  have u: "unat (sender s + 1) = Suc (unat (sender s))"
    using Cons.prems(3) by (simp add: unat_word_ariths(1))
  have IH: "inv (fold send_one ms ?s)" "sender (fold send_one ms ?s) = sender s + 1 + of_nat (length ms)"
    "\<And>i. i < length ms \<Longrightarrow> stored (fold send_one ms ?s) (sender s + 1 + of_nat i) = Some (ms ! i)"
    "\<And>n. unat n < Suc (unat (sender s)) \<Longrightarrow> stored (fold send_one ms ?s) n = stored ?s n"
    using Cons.IH [of ?s] Cons.prems st u by auto
  have "stored (fold send_one ms ?s) (sender s + of_nat i) = Some ((m # ms) ! i)" if "i < Suc (length ms)" for i
    using that IH(3) [of "i - 1"] IH(4) [of "sender s"] st(4) Cons.prems(2) by (cases i) (auto simp: add.assoc)
  moreover have "stored (fold send_one ms ?s) n = stored s n" if "unat n < unat (sender s)" for n
    using that IH(4) [of n] st(4) Cons.prems(2) by auto
  ultimately show ?case using IH by (auto simp: add.assoc add.commute)
qed simp

text \<open>What was sent is what a resend request for these numbers finds.\<close>

lemma resend_run:
  assumes "inv s" "\<forall>m\<in>set ms. storable m" "0 < unat (sender s)" "unat (sender s) + length ms < 2 ^ 64" "ms \<noteq> []"
  shows "get_range (sender s) (sender s + of_nat (length ms) - 1) (fold send_one ms s) = Ok ms"
proof -
  note r = sent_run [OF assms(1,2,4)]
  have "stored (fold send_one ms s) (sender s + of_nat i) = Some (ms ! i)" if "i < length ms" for i
    using r that by blast
  moreover from this [of 0] have "stored (fold send_one ms s) (sender s) \<noteq> None" using assms(5) by simp
  moreover have "sender s \<noteq> 0" using assms(3) by auto
  ultimately show ?thesis
    using r get_stored [of "fold send_one ms s" "sender s"] in_range_consecutive [OF _ assms(4,5)] by simp
qed

end

section \<open>The memory store fulfils it\<close>

definition ms_ok :: "MemoryStore \<Rightarrow> bool" where
  "ms_ok s = smap_ok (m_messages s)"

definition ms_stored :: "MemoryStore \<Rightarrow> SEQNUM \<rightharpoonup> string" where
  "ms_stored s = smap_find (m_messages s)"

lemma smap_upto: "smap_ok m \<Longrightarrow> takeWhile (\<lambda>p. fst p \<le> hi) m = filter (\<lambda>p. fst p \<le> hi) m"
  for hi :: "'k :: linorder"
proof (induction m)
  case (Cons p m)
  then show ?case by (force simp: filter_empty_conv eq_commute [of "[]"])
qed simp

lemma smap_ok_find: "smap_ok m \<Longrightarrow> p \<in> set m \<Longrightarrow> smap_find m (fst p) = Some (snd p)"
  by (induction m) auto

lemma smap_range:
  fixes m :: "(SEQNUM, string) smap"
  assumes ok: "smap_ok m"
  shows "map snd (takeWhile (\<lambda>p. fst p \<le> hi) (filter (\<lambda>p. lo \<le> fst p) m)) = in_range lo hi (smap_find m)"
proof -
  let ?m = "filter (\<lambda>p. fst p \<le> hi) (filter (\<lambda>p. lo \<le> fst p) m)"
  let ?ks = "filter (\<lambda>n. smap_find m (word_of_nat n) \<noteq> None) [unat lo ..< Suc (unat hi)]"
  have "sorted_wrt (<) (map (unat \<circ> fst) ?m)"
    using smap_ok_filter [OF smap_ok_filter [OF ok]] by (simp add: smap_ok_def sorted_wrt_map word_less_nat_alt)
  moreover have "sorted_wrt (<) ?ks" by (intro sorted_wrt_filter sorted_wrt_upt)
  moreover have "set (map (unat \<circ> fst) ?m) = set ?ks"
  proof -
    have "n \<in> set (map (unat \<circ> fst) ?m)" if "n \<in> set ?ks" for n
    proof -
      from that obtain v where v: "(word_of_nat n, v) \<in> set m" and n: "unat lo \<le> n" "n \<le> unat hi"
        by (auto dest: map_of_SomeD)
      have "unat (word_of_nat n :: SEQNUM) = n"
        using n(2) SEQNUM_bound [of hi] by (simp add: unsigned_of_nat take_bit_nat_eq_self)
      with v n show ?thesis by (force simp: word_le_nat_alt image_iff)
    qed
    moreover have "n \<in> set ?ks" if "n \<in> set (map (unat \<circ> fst) ?m)" for n
      using that smap_ok_find [OF ok] by (force simp: word_le_nat_alt)
    ultimately show ?thesis by blast
  qed
  ultimately have ks: "map (unat \<circ> fst) ?m = ?ks"
    by (simp add: strict_sorted_equal)
  have "map snd ?m = map (\<lambda>n. the (smap_find m (word_of_nat n))) (map (unat \<circ> fst) ?m)"
    using smap_ok_find [OF ok] by simp
  then show ?thesis unfolding in_range_def ks using smap_upto [of "filter (\<lambda>p. lo \<le> fst p) m"] ok by simp
qed

lemma smap_from:
  "smap_ok m \<Longrightarrow> smap_find m lo \<noteq> None \<Longrightarrow> dropWhile (\<lambda>p. fst p \<noteq> lo) m = filter (\<lambda>p. lo \<le> fst p) m"
  for lo :: "'k :: linorder"
proof (induction m)
  case (Cons p m)
  then show ?case by (auto simp: filter_id_conv order.strict_implies_order split: if_splits) (metis map_of_SomeD fst_conv not_le order.strict_trans)+
qed simp

lemma ms_get_range: "ms_ok s \<Longrightarrow> ms_stored s lo \<noteq> None \<Longrightarrow> ms_get lo hi s = in_range lo hi (ms_stored s)"
  using smap_range [of "m_messages s"] by (simp add: ms_ok_def ms_stored_def ms_get_def smap_from)

interpretation memory: message_store ms_ok ms_stored "\<lambda>_. True" ms_set "\<lambda>lo hi s. Ok (ms_get lo hi s)"
  m_nextSenderMsgSeqNum m_nextTargetMsgSeqNum ms_setNextSenderMsgSeqNum ms_setNextTargetMsgSeqNum
  by unfold_locales (auto simp: ms_get_range, auto simp: ms_ok_def ms_stored_def ms_defs)

end
