(* ===== verification/FileStores.thy ===== *)
theory FileStores
  imports Stores
begin

text \<open>
  FileStore.h and FileStore.cpp: the store on disk. Four files hold the messages one after the
  other, an index of their offsets, the two sequence numbers and the creation time; the numbers, the time and the
  index are also cached. Reading the files back goes through \<open>fscanf\<close>, which is modelled as far as
  the formats use it. System calls are assumed to succeed, so the errors left are the ones the contents
  of the files cause.
\<close>

section \<open>fscanf\<close>

definition is_space :: "char \<Rightarrow> bool" where
  "is_space c = (byte c = 32 \<or> 9 \<le> byte c \<and> byte c \<le> 13)"

definition skip_ws :: "string \<Rightarrow> string" where
  "skip_ws s = dropWhile is_space s"

definition scan_sign :: "string \<Rightarrow> bool \<times> string" where
  "scan_sign s = (if s \<noteq> [] \<and> hd s = CHR ''-'' then (True, tl s)
                  else if s \<noteq> [] \<and> hd s = CHR ''+'' then (False, tl s) else (False, s))"

text \<open>The digits of a base at the front of a text; no digit is a matching failure.\<close>

definition digit_value :: "char \<Rightarrow> nat" where
  "digit_value c =
     (if is_digit c then byte c - 48
      else if 97 \<le> byte c \<and> byte c \<le> 102 then byte c - 87
      else if 65 \<le> byte c \<and> byte c \<le> 70 then byte c - 55 else 99)"

definition scan_digits :: "nat \<Rightarrow> string \<Rightarrow> (nat \<times> string) option" where
  "scan_digits base s =
     (let ds = takeWhile (\<lambda>c. digit_value c < base) s in
      if ds = [] then None
      else Some (foldl (\<lambda>a c. base * a + digit_value c) 0 ds, dropWhile (\<lambda>c. digit_value c < base) s))"

text \<open>\<open>%lu\<close> and \<open>%zu\<close>: saturating, a sign negates modulo the width.\<close>

definition scan_u64 :: "string \<Rightarrow> (SEQNUM \<times> string) option" where
  "scan_u64 s =
     (case scan_sign (skip_ws s) of (neg, t) \<Rightarrow>
        (case scan_digits 10 t of
           None \<Rightarrow> None
         | Some (v, rest) \<Rightarrow>
             Some (if v \<ge> 2 ^ 64 then -1 else if neg then - of_nat v else of_nat v, rest)))"

text \<open>\<open>%li\<close> detects octal and hexadecimal numbers; \<open>%d\<close> stores the low 32 bits of a \<open>long\<close>.\<close>

definition saturate64 :: "bool \<Rightarrow> nat \<Rightarrow> int" where
  "saturate64 neg v = (if neg then max (- (2 ^ 63)) (- int v) else min (2 ^ 63 - 1) (int v))"

definition scan_i64 :: "string \<Rightarrow> (int \<times> string) option" where
  "scan_i64 s =
     (case scan_sign (skip_ws s) of (neg, t) \<Rightarrow>
        let (base, u) = (if prefix ''0x'' t \<or> prefix ''0X'' t then (16, drop 2 t)
                         else if prefix ''0'' t then (8, t) else (10, t)) in
        map_option (\<lambda>(v, rest). (saturate64 neg v, rest)) (scan_digits base u))"

definition scan_int :: "string \<Rightarrow> (int \<times> string) option" where
  "scan_int s =
     (case scan_sign (skip_ws s) of (neg, t) \<Rightarrow>
        map_option (\<lambda>(v, rest). (sint (word_of_int (saturate64 neg v) :: 32 word), rest)) (scan_digits 10 t))"

definition scan_literal :: "char \<Rightarrow> string \<Rightarrow> string option" where
  "scan_literal c s = (if s \<noteq> [] \<and> hd s = c then Some (tl s) else None)"

section \<open>Definitions\<close>

text \<open>A file that does not exist is \<open>None\<close>.\<close>

record store_files =
  msgFile :: "string option"
  headerFile :: "string option"
  seqNumsFile :: "string option"
  sessionFile :: "string option"

record FileStore =
  m_cache :: MemoryStore
  m_offsets :: "(SEQNUM, int \<times> nat) smap"
  m_files :: store_files

abbreviation contents :: "string option \<Rightarrow> string" where
  "contents file \<equiv> (case file of None \<Rightarrow> [] | Some text \<Rightarrow> text)"

definition no_files :: store_files where
  "no_files = \<lparr>msgFile = None, headerFile = None, seqNumsFile = None, sessionFile = None\<rparr>"

text \<open>The two formats: \<open>%lu,%ld,%zu \<close> and \<open>%20.20lu : %20.20lu\<close>, which is 43 characters long.\<close>

definition header_entry :: "SEQNUM \<Rightarrow> int \<Rightarrow> nat \<Rightarrow> string" where
  "header_entry msgSeqNum offset size' = dec (unat msgSeqNum) @ '','' @ decimal offset @ '','' @ dec size' @ '' ''"

definition pad20 :: "nat \<Rightarrow> string" where
  "pad20 n = replicate (20 - length (dec n)) (CHR ''0'') @ dec n"

definition seqnum_record :: "SEQNUM \<Rightarrow> SEQNUM \<Rightarrow> string" where
  "seqnum_record sender target = pad20 (unat sender) @ '' : '' @ pad20 (unat target)"

definition sizeOf64BitSeqNumFile :: nat where
  "sizeOf64BitSeqNumFile = 43"

definition scan_header_entry :: "string \<Rightarrow> ((SEQNUM \<times> int \<times> nat) \<times> string) option" where
  "scan_header_entry s =
     Option.bind (scan_u64 s) (\<lambda>(msgSeqNum, s).
     Option.bind (scan_literal (CHR '','') s) (\<lambda>s.
     Option.bind (scan_i64 s) (\<lambda>(offset, s).
     Option.bind (scan_literal (CHR '','') s) (\<lambda>s.
     Option.bind (scan_u64 s) (\<lambda>(size', s).
     Some ((msgSeqNum, offset, unat size'), skip_ws s))))))"

lemma scan_digits_shrinks: "scan_digits base s = Some (v, rest) \<Longrightarrow> length rest < length s"
proof -
  assume a: "scan_digits base s = Some (v, rest)"
  then have "takeWhile (\<lambda>c. digit_value c < base) s \<noteq> []" "rest = dropWhile (\<lambda>c. digit_value c < base) s"
    by (auto simp: scan_digits_def Let_def split: if_splits)
  then show ?thesis
    by (metis (no_types, lifting) add_less_same_cancel2 append.simps(1) length_append length_greater_0_conv
        less_add_same_cancel2 takeWhile_dropWhile_id)
qed

lemma scan_sign_le: "scan_sign s = (neg, t) \<Longrightarrow> length t \<le> length s"
  by (auto simp: scan_sign_def split: if_splits)

lemma skip_ws_le [simp]: "length (skip_ws s) \<le> length s"
  by (simp add: skip_ws_def length_dropWhile_le)

lemma scan_u64_shrinks:
  assumes "scan_u64 s = Some (v, rest)"
  shows "length rest < length s"
proof -
  obtain neg t where t: "scan_sign (skip_ws s) = (neg, t)" by fastforce
  with assms obtain w where "scan_digits 10 t = Some (w, rest)" by (auto simp: scan_u64_def split: option.splits)
  with scan_sign_le [OF t] skip_ws_le [of s] show ?thesis by (meson order.strict_trans1 order.trans scan_digits_shrinks less_le_trans)
qed

lemma scan_i64_le:
  assumes "scan_i64 s = Some (v, rest)"
  shows "length rest \<le> length s"
proof -
  obtain neg t where t: "scan_sign (skip_ws s) = (neg, t)" by fastforce
  with assms obtain base u w where "scan_digits base u = Some (w, rest)" "length u \<le> length t"
    by (auto simp: scan_i64_def split: if_splits)
  with scan_sign_le [OF t] skip_ws_le [of s] show ?thesis using scan_digits_shrinks [of base u w rest] by linarith
qed

lemma scan_header_entry_shrinks: "scan_header_entry s = Some (e, rest) \<Longrightarrow> length rest < length s"
  unfolding scan_header_entry_def
  by (auto simp: scan_literal_def bind_eq_Some_conv split: prod.splits if_splits dest!: scan_u64_shrinks scan_i64_le)
    (metis (no_types, lifting) diff_le_self dual_order.strict_trans1 le_less_trans length_tl nat_less_le skip_ws_le)+

text \<open>The loop over the index: later entries replace earlier ones.\<close>

function read_header :: "string \<Rightarrow> (SEQNUM, int \<times> nat) smap \<Rightarrow> (SEQNUM, int \<times> nat) smap" where
  "read_header s offsets =
     (case scan_header_entry s of
        None \<Rightarrow> offsets
      | Some ((msgSeqNum, entry), rest) \<Rightarrow> read_header rest (smap_put msgSeqNum entry offsets))"
  by auto
termination
  by (relation "measure (length \<circ> fst)") (auto dest: scan_header_entry_shrinks)

declare read_header.simps [simp del]

definition scan_pair :: "(string \<Rightarrow> ('a \<times> string) option) \<Rightarrow> string \<Rightarrow> ('a \<times> 'a) option" where
  "scan_pair scan s =
     Option.bind (scan s) (\<lambda>(sender, s).
     Option.bind (scan_literal (CHR '':'') (skip_ws s)) (\<lambda>s.
     map_option (\<lambda>(target, _). (sender, target)) (scan (skip_ws s))))"

text \<open>The numbers in the seqnums file: 64-bit for a file of the size \<open>setSeqNum\<close> writes, else the older
  format with \<open>int\<close>s.\<close>

definition read_seqNums :: "string \<Rightarrow> (SEQNUM \<times> SEQNUM) option" where
  "read_seqNums s =
     (if length s = sizeOf64BitSeqNumFile then scan_pair scan_u64 s
      else map_option (\<lambda>(sender, target). (word_of_int sender, word_of_int target)) (scan_pair scan_int s))"

text \<open>\<open>%31s\<close>: up to 31 characters that are not white space.\<close>

definition scan_token :: "string \<Rightarrow> string option" where
  "scan_token s = (let t = take 31 (takeWhile (\<lambda>c. \<not> is_space c) (skip_ws s)) in if t = [] then None else Some t)"

definition populateCache :: "(FileStore, unit) eff" where
  "populateCache = eseq [
     emodify (\<lambda>f. case headerFile (m_files f) of
         None \<Rightarrow> f
       | Some text \<Rightarrow> f\<lparr>m_offsets := read_header text (m_offsets f)\<rparr>),
     emodify (\<lambda>f. case Option.bind (seqNumsFile (m_files f)) read_seqNums of
         None \<Rightarrow> f
       | Some (sender, target) \<Rightarrow>
           f\<lparr>m_cache := ms_setNextTargetMsgSeqNum target (ms_setNextSenderMsgSeqNum sender (m_cache f))\<rparr>),
     ebind (egets (\<lambda>f. Option.bind (sessionFile (m_files f)) scan_token)) (\<lambda>token.
       case token of
         None \<Rightarrow> eret ()
       | Some time \<Rightarrow>
           (case UtcTimeStampConvertor_convert (c_str time) of
              None \<Rightarrow> ethrow IOException
            | Some t \<Rightarrow> emodify (\<lambda>f. f\<lparr>m_cache := ms_setCreationTime t (m_cache f)\<rparr>)))]"

text \<open>Writes at the front of a file replace as many characters as they write.\<close>

definition write_front :: "string \<Rightarrow> string \<Rightarrow> string" where
  "write_front text old = text @ drop (length text) old"

definition setSeqNum :: "FileStore \<Rightarrow> FileStore" where
  "setSeqNum f =
     f\<lparr>m_files := (m_files f)\<lparr>seqNumsFile := Some (write_front
         (seqnum_record (m_nextSenderMsgSeqNum (m_cache f)) (m_nextTargetMsgSeqNum (m_cache f)))
         (contents (seqNumsFile (m_files f))))\<rparr>\<rparr>"

text \<open>A creation time whose year does not fit four columns would be written outside the buffer of the convertor;
  here it throws.\<close>

definition setSession :: "(FileStore, unit) eff" where
  "setSession = ebind (egets (\<lambda>f. UtcTimeStampConvertor_string (m_creationTime (m_cache f)) 0)) (\<lambda>text.
     case text of
       None \<Rightarrow> ethrow StdException
     | Some text \<Rightarrow> emodify (\<lambda>f. f\<lparr>m_files := (m_files f)\<lparr>sessionFile :=
         Some (write_front text (contents (sessionFile (m_files f))))\<rparr>\<rparr>))"

definition fs_setNextSenderMsgSeqNum :: "SEQNUM \<Rightarrow> FileStore \<Rightarrow> FileStore" where
  "fs_setNextSenderMsgSeqNum value' f = setSeqNum (f\<lparr>m_cache := ms_setNextSenderMsgSeqNum value' (m_cache f)\<rparr>)"

definition fs_setNextTargetMsgSeqNum :: "SEQNUM \<Rightarrow> FileStore \<Rightarrow> FileStore" where
  "fs_setNextTargetMsgSeqNum value' f = setSeqNum (f\<lparr>m_cache := ms_setNextTargetMsgSeqNum value' (m_cache f)\<rparr>)"

definition fs_incrNextSenderMsgSeqNum :: "FileStore \<Rightarrow> FileStore" where
  "fs_incrNextSenderMsgSeqNum f = setSeqNum (f\<lparr>m_cache := ms_incrNextSenderMsgSeqNum (m_cache f)\<rparr>)"

definition fs_incrNextTargetMsgSeqNum :: "FileStore \<Rightarrow> FileStore" where
  "fs_incrNextTargetMsgSeqNum f = setSeqNum (f\<lparr>m_cache := ms_incrNextTargetMsgSeqNum (m_cache f)\<rparr>)"

definition fs_getNextSenderMsgSeqNum :: "FileStore \<Rightarrow> SEQNUM" where
  "fs_getNextSenderMsgSeqNum f = m_nextSenderMsgSeqNum (m_cache f)"

definition fs_getNextTargetMsgSeqNum :: "FileStore \<Rightarrow> SEQNUM" where
  "fs_getNextTargetMsgSeqNum f = m_nextTargetMsgSeqNum (m_cache f)"

definition fs_getCreationTime :: "FileStore \<Rightarrow> DateTime" where
  "fs_getCreationTime f = m_creationTime (m_cache f)"

text \<open>Opening for reading and writing creates a file that is missing.\<close>

definition create_files :: "FileStore \<Rightarrow> FileStore" where
  "create_files f =
     f\<lparr>m_files := (m_files f)\<lparr>msgFile := Some (contents (msgFile (m_files f))),
        headerFile := Some (contents (headerFile (m_files f))),
        seqNumsFile := Some (contents (seqNumsFile (m_files f)))\<rparr>\<rparr>"

definition fs_open :: "bool \<Rightarrow> (FileStore, unit) eff" where
  "fs_open deleteFile = eseq [
     emodify (\<lambda>f. if deleteFile then f\<lparr>m_files := no_files\<rparr> else f),
     populateCache,
     emodify create_files,
     ebind (egets (\<lambda>f. sessionFile (m_files f) = None)) (\<lambda>setCreationTime. eseq [
       emodify (\<lambda>f. f\<lparr>m_files := (m_files f)\<lparr>sessionFile := Some (contents (sessionFile (m_files f)))\<rparr>\<rparr>),
       ewhen setCreationTime setSession]),
     emodify (\<lambda>f. fs_setNextSenderMsgSeqNum (fs_getNextSenderMsgSeqNum f) f),
     emodify (\<lambda>f. fs_setNextTargetMsgSeqNum (fs_getNextTargetMsgSeqNum f) f)]"

definition new_FileStore :: "DateTime \<Rightarrow> store_files \<Rightarrow> FileStore result" where
  "new_FileStore now files =
     (case fs_open False \<lparr>m_cache = new_MemoryStore now, m_offsets = [], m_files = files\<rparr> of
        (Inr _, f) \<Rightarrow> Ok f
      | (Inl IOException, f) \<Rightarrow> Throw ConfigError
      | (Inl e, f) \<Rightarrow> Throw e)"

definition fs_set :: "SEQNUM \<Rightarrow> string \<Rightarrow> FileStore \<Rightarrow> FileStore" where
  "fs_set msgSeqNum msg f =
     (let offset = int (length (contents (msgFile (m_files f)))) in
      f\<lparr>m_files := (m_files f)\<lparr>msgFile := Some (contents (msgFile (m_files f)) @ msg),
          headerFile := Some (contents (headerFile (m_files f)) @ header_entry msgSeqNum offset (length msg))\<rparr>,
        m_offsets := smap_put msgSeqNum (offset, length msg) (m_offsets f)\<rparr>)"

text \<open>The buffer becomes a string up to its first NUL.\<close>

definition fs_get_one :: "SEQNUM \<Rightarrow> FileStore \<Rightarrow> string option result" where
  "fs_get_one msgSeqNum f =
     (case smap_find (m_offsets f) msgSeqNum of
        None \<Rightarrow> Ok None
      | Some (offset, size') \<Rightarrow>
          if offset < 0 then Throw IOException
          else let buffer = take size' (drop (nat offset) (contents (msgFile (m_files f)))) in
            if length buffer \<noteq> size' then Throw IOException else Ok (Some (c_str buffer)))"

function fs_get :: "SEQNUM \<Rightarrow> SEQNUM \<Rightarrow> FileStore \<Rightarrow> string list result" where
  "fs_get i hi f =
     (if i \<le> hi \<and> i \<noteq> 0
      then rbind (fs_get_one i f) (\<lambda>r.
             rbind (fs_get (i + 1) hi f) (\<lambda>ms. Ok (case r of None \<Rightarrow> ms | Some m \<Rightarrow> m # ms)))
      else Ok [])"
  by auto
termination
proof (relation "measure (\<lambda>(i :: SEQNUM, hi :: SEQNUM, f :: FileStore). if i = 0 then 0 else 2 ^ 64 - unat i)")
  fix i hi :: SEQNUM and f :: FileStore and r :: "string option"
  assume "i \<le> hi \<and> i \<noteq> 0"
  then have "i + 1 = 0 \<or> unat (i + 1) = Suc (unat i)" by (metis unatSuc add.commute)
  then show "((i + 1, hi, f), (i, hi, f)) \<in> measure (\<lambda>(i :: SEQNUM, hi :: SEQNUM, f :: FileStore). if i = 0 then 0 else 2 ^ 64 - unat i)"
    using SEQNUM_bound [of i] \<open>i \<le> hi \<and> i \<noteq> 0\<close> by auto
qed simp

declare fs_get.simps [simp del]

definition as_IOException :: "(FileStore, unit) eff \<Rightarrow> (FileStore, unit) eff" where
  "as_IOException m = ecatch m (\<lambda>e. ethrow IOException)"

definition fs_reset :: "DateTime \<Rightarrow> (FileStore, unit) eff" where
  "fs_reset now = as_IOException (eseq [
     emodify (\<lambda>f. f\<lparr>m_cache := ms_reset now (m_cache f), m_offsets := []\<rparr>),
     fs_open True,
     setSession])"

text \<open>\<open>now\<close> is the clock at the call.\<close>

definition fs_refresh :: "DateTime \<Rightarrow> (FileStore, unit) eff" where
  "fs_refresh now = as_IOException (eseq [
     emodify (\<lambda>f. f\<lparr>m_cache := ms_reset now (m_cache f), m_offsets := []\<rparr>),
     fs_open False])"

section \<open>Reading back what was written\<close>

lemma digit_value_digit: "is_digit c \<Longrightarrow> digit_value c = byte c - 48 \<and> digit_value c < 10"
  by (auto simp: digit_value_def is_digit_def)

lemma not_space_digit: "is_digit c \<Longrightarrow> \<not> is_space c"
  by (auto simp: is_space_def is_digit_def)

lemma scan_digits_text:
  assumes "list_all is_digit ds" "ds \<noteq> []" "rest = [] \<or> \<not> digit_value (hd rest) < 10"
  shows "scan_digits 10 (ds @ rest) = Some (undec ds, rest)"
proof -
  have d: "digit_value c < 10" if "c \<in> set ds" for c using assms(1) that digit_value_digit [of c] by (simp add: list_all_iff)
  have "takeWhile (\<lambda>c. digit_value c < 10) rest = []" "dropWhile (\<lambda>c. digit_value c < 10) rest = rest"
    using assms(3) by (cases rest; simp)+
  moreover have "foldl (\<lambda>a c. 10 * a + digit_value c) 0 ds = foldl (\<lambda>a c. 10 * a + (byte c - 48)) 0 ds"
    using assms(1) by (intro foldl_cong) (auto simp: list_all_iff digit_value_digit)
  ultimately show ?thesis using d assms(2) by (simp add: scan_digits_def undec_def)
qed

lemma skip_sign:
  assumes "ds \<noteq> []" "list_all is_digit ds"
  shows "scan_sign (skip_ws (ds @ rest)) = (False, ds @ rest)"
  using assms not_space_digit by (cases ds) (auto simp: skip_ws_def scan_sign_def is_digit_def byte_def)

lemma scan_u64_text:
  assumes "list_all is_digit ds" "ds \<noteq> []" "rest = [] \<or> \<not> digit_value (hd rest) < 10" "undec ds < 2 ^ 64"
  shows "scan_u64 (ds @ rest) = Some (of_nat (undec ds), rest)"
  using assms by (simp add: scan_u64_def skip_sign scan_digits_text)

lemma all_digits_dec [simp]: "list_all is_digit (dec n)"
  using set_dec by (auto simp: list_all_iff)

lemma hd_dec: "0 < n \<Longrightarrow> hd (dec n) \<noteq> CHR ''0''"
proof (induction n rule: dec.induct)
  case (1 n)
  show ?case
  proof (cases "n < 10")
    case True
    then have "dec n = [digit n]" by (simp add: dec.simps)
    moreover have "byte (digit n) \<noteq> byte (CHR ''0'')" using "1.prems" True by (simp add: byte_def [of "CHR ''0''"])
    ultimately show ?thesis by (metis list.sel(1))
  next
    case False
    then have "dec n = dec (n div 10) @ [digit (n mod 10)]" by (simp add: dec.simps [of n])
    with False 1 show ?thesis by simp
  qed
qed

lemma scan_i64_text:
  assumes "n < 2 ^ 63" "rest \<noteq> []" "\<not> digit_value (hd rest) < 16" "hd rest \<noteq> CHR ''x''" "hd rest \<noteq> CHR ''X''"
  shows "scan_i64 (dec n @ rest) = Some (int n, rest)"
proof (cases "n = 0")
  case True
  have "dec 0 = ''0''" by code_simp
  moreover have "scan_digits 8 (''0'' @ rest) = Some (0, rest)"
    using assms(2,3) by (cases rest) (simp_all add: scan_digits_def digit_value_def is_digit_def byte_def)
  moreover have "scan_sign (skip_ws (''0'' @ rest)) = (False, ''0'' @ rest)"
    by (rule skip_sign) (simp_all add: is_digit_def byte_def)
  ultimately show ?thesis using True assms(2,4,5) by (cases rest) (simp_all add: scan_i64_def saturate64_def)
next
  case False
  then have "\<not> prefix ''0'' (dec n @ rest)" using hd_dec [of n] by (cases "dec n") auto
  moreover from this have "\<not> prefix ''0x'' (dec n @ rest)" "\<not> prefix ''0X'' (dec n @ rest)" by (auto simp: prefix_def)
  moreover have "scan_digits 10 (dec n @ rest) = Some (n, rest)"
    using scan_digits_text [of "dec n" rest] assms(3) by simp
  ultimately show ?thesis using assms(1) by (simp add: scan_i64_def skip_sign saturate64_def)
qed

lemma not_digit_sep: "digit_value (CHR '','') = 99" "digit_value (CHR '' '') = 99" "digit_value (CHR '':'') = 99"
  by (simp_all add: digit_value_def is_digit_def byte_def)

lemma scan_header_entry_text:
  assumes "0 \<le> offset" "offset < 2 ^ 63" "size' < 2 ^ 64" "skip_ws rest = rest"
  shows "scan_header_entry (header_entry n offset size' @ rest) = Some ((n, offset, size'), rest)"
proof -
  have 1: "scan_u64 (dec (unat n) @ t) = Some (n, t)" if "t \<noteq> []" "hd t = CHR '',''" for t
    using scan_u64_text [of "dec (unat n)" t] that SEQNUM_bound [of n] by (simp add: not_digit_sep)
  have 2: "scan_i64 (dec (nat offset) @ t) = Some (offset, t)" if "t \<noteq> []" "hd t = CHR '',''" for t
    using scan_i64_text [of "nat offset" t] that assms(1,2) by (simp add: not_digit_sep nat_less_iff)
  have 3: "scan_u64 (dec size' @ t) = Some (of_nat size', t)" if "t \<noteq> []" "hd t = CHR '' ''" for t
    using scan_u64_text [of "dec size'" t] that assms(3) by (simp add: not_digit_sep)
  have 4: "skip_ws (CHR '' '' # rest) = rest" using assms(4) by (simp add: skip_ws_def is_space_def byte_def)
  have 5: "unat (of_nat size' :: SEQNUM) = size'" using assms(3) by (simp add: unsigned_of_nat take_bit_nat_eq_self)
  show ?thesis
    using assms(1) by (simp add: scan_header_entry_def header_entry_def decimal_def scan_literal_def 1 2 3 4 5)
qed

section \<open>The invariant\<close>

abbreviation header_text :: "(SEQNUM \<times> int \<times> nat) list \<Rightarrow> string" where
  "header_text es \<equiv> concat (map (\<lambda>(n, offset, size'). header_entry n offset size') es)"

lemma skip_ws_header_text: "skip_ws (header_text es) = header_text es"
proof (cases es)
  case (Cons e es')
  obtain n offset size' where e: "e = (n, offset, size')" by (cases e)
  obtain c cs where c: "dec (unat n) = c # cs" by (meson dec_nonempty neq_Nil_conv)
  then have "\<not> is_space c" using set_dec [of c "unat n"] not_space_digit by simp
  with Cons e c show ?thesis by (simp add: skip_ws_def header_entry_def)
qed (simp add: skip_ws_def)

lemma read_header_text:
  "\<forall>(n, offset, size') \<in> set es. 0 \<le> offset \<and> offset < 2 ^ 63 \<and> size' < 2 ^ 64 \<Longrightarrow>
   read_header (header_text es) offsets = fold (\<lambda>(n, entry). smap_put n entry) es offsets"
proof (induction es arbitrary: offsets)
  case Nil
  have "scan_header_entry [] = None" by (simp add: scan_header_entry_def scan_u64_def skip_ws_def scan_sign_def scan_digits_def)
  then show ?case by (simp add: read_header.simps)
next
  case (Cons e es)
  obtain n offset size' where e: "e = (n, offset, size')" by (cases e)
  have "scan_header_entry (header_entry n offset size' @ header_text es) = Some ((n, offset, size'), header_text es)"
    by (rule scan_header_entry_text) (use Cons.prems e skip_ws_header_text in auto)
  with Cons e show ?case by (simp add: read_header.simps [of "header_entry n offset size' @ header_text es"])
qed

lemma undec_zeros: "undec (replicate k (CHR ''0'') @ t) = undec t"
  by (induction k) (simp_all add: undec_def byte_def)

lemma pad20_digits:
  assumes "n < 2 ^ 64"
  shows "length (pad20 n) = 20" "list_all is_digit (pad20 n)" "undec (pad20 n) = n" "pad20 n \<noteq> []"
proof -
  have "length (dec n) \<le> 20" by (rule dec_less_length) (use assms in simp_all)
  then show "length (pad20 n) = 20" by (simp add: pad20_def)
  then show "pad20 n \<noteq> []" by auto
  have "is_digit (CHR ''0'')" by (simp add: is_digit_def byte_def)
  then show "list_all is_digit (pad20 n)" "undec (pad20 n) = n"
    by (auto simp: pad20_def undec_zeros list_all_iff set_dec)
qed

lemma read_seqnum_record: "read_seqNums (seqnum_record sender target) = Some (sender, target)"
proof -
  note p = pad20_digits [OF SEQNUM_bound]
  have "scan_u64 (pad20 (unat sender) @ '' : '' @ pad20 (unat target)) = Some (sender, '' : '' @ pad20 (unat target))"
    using scan_u64_text [OF p(2,4), of "'' : '' @ pad20 (unat target)" sender] p(3) [of sender] SEQNUM_bound [of sender]
    by (simp add: not_digit_sep)
  moreover have "scan_u64 (pad20 (unat target)) = Some (target, [])"
    using scan_u64_text [OF p(2,4), of "[]" target] p(3) [of target] SEQNUM_bound [of target] by simp
  moreover have "skip_ws (pad20 (unat target)) = pad20 (unat target)"
    using p(2,4) [of target] not_space_digit by (cases "pad20 (unat target)") (auto simp: skip_ws_def)
  moreover have "skip_ws ('' : '' @ pad20 (unat target)) = '': '' @ pad20 (unat target)" "skip_ws (CHR '' '' # t) = skip_ws t" for t
    by (simp_all add: skip_ws_def is_space_def byte_def)
  ultimately have "scan_pair scan_u64 (seqnum_record sender target) = Some (sender, target)"
    by (simp add: scan_pair_def seqnum_record_def scan_literal_def)
  then show ?thesis using p(1) by (simp add: read_seqNums_def sizeOf64BitSeqNumFile_def seqnum_record_def)
qed

text \<open>A creation time the session file can hold, and the text that holds it.\<close>

definition time_storable :: "DateTime \<Rightarrow> bool" where
  "time_storable t = (time_ok t \<and> 0 \<le> m_date t \<and> 0 \<le> getYear t \<and> getYear t \<le> 9999)"

lemma padded_chars: "padded n v = Some s \<Longrightarrow> c \<in> set s \<Longrightarrow> is_digit c \<or> c = CHR ''-''"
  by (auto simp: padded_def integer_to_string_padded_def integer_to_string_decimal Let_def is_digit_def byte_def
      split: if_splits dest!: decimal_chars)

lemma timestamp_chars:
  assumes "UtcTimeStampConvertor_string t 0 = Some w" "c \<in> set w"
  shows "is_digit c \<or> c \<in> {CHR ''-'', CHR '':''}"
  using assms padded_chars
  by (fastforce simp: UtcTimeStampConvertor_string_def UtcDateConvertor_string_def HMS_string_def clamp_of_def Let_def
      split: option.splits prod.splits if_splits)

lemma timestamp_token:
  assumes "time_storable t"
  obtains w where "UtcTimeStampConvertor_string t 0 = Some w" "scan_token w = Some w" "c_str w = w"
    "UtcTimeStampConvertor_convert w = Some (truncate_to 0 t)"
proof -
  from timestamp_roundtrip [of t 0] assms obtain w where w: "UtcTimeStampConvertor_string t 0 = Some w"
    "UtcTimeStampConvertor_convert w = Some (truncate_to 0 t)" by (auto simp: time_storable_def)
  have c: "\<not> is_space c" "c \<noteq> NUL" if "c \<in> set w" for c
    using timestamp_chars [OF w(1) that] not_space_digit by (auto simp: is_space_def is_digit_def byte_def)
  have len: "17 \<le> length w" "length w \<le> 27" using w(2) by (auto simp: UtcTimeStampConvertor_convert_def split: if_splits)
  have "skip_ws w = w" using c(1) by (cases w) (auto simp: skip_ws_def)
  then have "scan_token w = Some w" using c(1) len by (auto simp: scan_token_def takeWhile_eq_all_conv [THEN iffD2])
  moreover have "c_str w = w" using c(2) by (intro c_str_id) auto
  ultimately show thesis using that w by blast
qed

text \<open>What the files say is what the store holds: the index lists the offsets, all inside the body; the
  numbers and the creation time, to the second, are the cached ones.\<close>

definition fs_ok :: "FileStore \<Rightarrow> bool" where
  "fs_ok f =
     ((\<exists>es body. headerFile (m_files f) = Some (header_text es) \<and> msgFile (m_files f) = Some body \<and>
         m_offsets f = fold (\<lambda>(n, entry). smap_put n entry) es [] \<and>
         (\<forall>(n, offset, size') \<in> set es. 0 \<le> offset \<and> nat offset + size' \<le> length body)) \<and>
      seqNumsFile (m_files f) = Some (seqnum_record (fs_getNextSenderMsgSeqNum f) (fs_getNextTargetMsgSeqNum f)) \<and>
      m_messages (m_cache f) = [] \<and>
      (\<exists>t. time_storable t \<and> sessionFile (m_files f) = UtcTimeStampConvertor_string t 0 \<and>
         truncate_to 0 (fs_getCreationTime f) = truncate_to 0 t))"

lemma fs_okE:
  assumes "fs_ok f"
  obtains (files) es body w where "headerFile (m_files f) = Some (header_text es)" "msgFile (m_files f) = Some body"
    "m_offsets f = fold (\<lambda>(n, entry). smap_put n entry) es []"
    "\<forall>(n, offset, size') \<in> set es. 0 \<le> offset \<and> nat offset + size' \<le> length body"
    "seqNumsFile (m_files f) = Some (seqnum_record (fs_getNextSenderMsgSeqNum f) (fs_getNextTargetMsgSeqNum f))"
    "m_messages (m_cache f) = []" "sessionFile (m_files f) = Some w" "scan_token w = Some w" "c_str w = w"
    "UtcTimeStampConvertor_convert w = Some (truncate_to 0 (fs_getCreationTime f))"
proof -
  from assms obtain es body t where f: "headerFile (m_files f) = Some (header_text es)" "msgFile (m_files f) = Some body"
    "m_offsets f = fold (\<lambda>(n, entry). smap_put n entry) es []"
    "\<forall>(n, offset, size') \<in> set es. 0 \<le> offset \<and> nat offset + size' \<le> length body"
    "seqNumsFile (m_files f) = Some (seqnum_record (fs_getNextSenderMsgSeqNum f) (fs_getNextTargetMsgSeqNum f))"
    "m_messages (m_cache f) = []" and t: "time_storable t" "sessionFile (m_files f) = UtcTimeStampConvertor_string t 0"
      "truncate_to 0 (fs_getCreationTime f) = truncate_to 0 t"
    unfolding fs_ok_def by blast
  from timestamp_token [OF t(1)] obtain w where w: "UtcTimeStampConvertor_string t 0 = Some w" "scan_token w = Some w"
    "c_str w = w" "UtcTimeStampConvertor_convert w = Some (truncate_to 0 t)" by blast
  show thesis by (rule files [OF f]) (use t w in simp_all)
qed

lemma write_front_same [simp]: "length text = length old \<Longrightarrow> write_front text old = text"
  by (simp add: write_front_def)

lemma length_seqnum_record [simp]: "length (seqnum_record a b) = 43"
  using pad20_digits [OF SEQNUM_bound] by (simp add: seqnum_record_def)

lemma setSeqNum_files:
  assumes "seqNumsFile (m_files f) = Some old" "length old = 43"
  shows "setSeqNum f = f\<lparr>m_files := (m_files f)\<lparr>seqNumsFile :=
      Some (seqnum_record (m_nextSenderMsgSeqNum (m_cache f)) (m_nextTargetMsgSeqNum (m_cache f)))\<rparr>\<rparr>"
  using assms by (simp add: setSeqNum_def)

lemmas fs_number_defs = fs_setNextSenderMsgSeqNum_def fs_setNextTargetMsgSeqNum_def fs_incrNextSenderMsgSeqNum_def
  fs_incrNextTargetMsgSeqNum_def fs_getNextSenderMsgSeqNum_def fs_getNextTargetMsgSeqNum_def fs_getCreationTime_def

lemma fs_ok_numbers [simp]:
  assumes "fs_ok f"
  shows "fs_ok (fs_setNextSenderMsgSeqNum n f)" "fs_ok (fs_setNextTargetMsgSeqNum n f)"
    "fs_ok (fs_incrNextSenderMsgSeqNum f)" "fs_ok (fs_incrNextTargetMsgSeqNum f)"
  using assms by (auto simp: fs_ok_def fs_number_defs ms_defs setSeqNum_files)

lemma fs_ok_set [simp]:
  assumes "fs_ok f"
  shows "fs_ok (fs_set n msg f)"
proof -
  from assms obtain es body t where f: "headerFile (m_files f) = Some (header_text es)" "msgFile (m_files f) = Some body"
    "m_offsets f = fold (\<lambda>(n, entry). smap_put n entry) es []"
    "\<forall>(n, offset, size') \<in> set es. 0 \<le> offset \<and> nat offset + size' \<le> length body"
    and rest: "seqNumsFile (m_files f) = Some (seqnum_record (fs_getNextSenderMsgSeqNum f) (fs_getNextTargetMsgSeqNum f))"
      "m_messages (m_cache f) = []" "time_storable t" "sessionFile (m_files f) = UtcTimeStampConvertor_string t 0"
      "truncate_to 0 (fs_getCreationTime f) = truncate_to 0 t"
    unfolding fs_ok_def by blast
  let ?es = "es @ [(n, int (length body), length msg)]"
  have 1: "headerFile (m_files (fs_set n msg f)) = Some (header_text ?es)" "msgFile (m_files (fs_set n msg f)) = Some (body @ msg)"
    "m_offsets (fs_set n msg f) = fold (\<lambda>(n, entry). smap_put n entry) ?es []"
    using f by (simp_all add: fs_set_def Let_def)
  have 2: "\<forall>(n, offset, size') \<in> set ?es. 0 \<le> offset \<and> nat offset + size' \<le> length (body @ msg)"
    using f(4) by auto
  have 3: "m_cache (fs_set n msg f) = m_cache f" "seqNumsFile (m_files (fs_set n msg f)) = seqNumsFile (m_files f)"
    "sessionFile (m_files (fs_set n msg f)) = sessionFile (m_files f)" by (simp_all add: fs_set_def Let_def)
  show ?thesis
    unfolding fs_ok_def fs_number_defs 3 using 1 2 rest unfolding fs_number_defs by blast
qed

text \<open>The offsets point at messages that are there.\<close>

lemma fold_put_entry:
  assumes "smap_find (fold (\<lambda>(n, entry). smap_put n entry) es m) n = Some e" "smap_ok m"
  shows "(n, e) \<in> set es \<or> smap_find m n = Some e"
  using assms by (induction es arbitrary: m) (fastforce split: if_splits)+

lemma fold_put_ok: "smap_ok m \<Longrightarrow> smap_ok (fold (\<lambda>(n, entry). smap_put n entry) es m)"
  by (induction es arbitrary: m) auto

definition fs_stored :: "FileStore \<Rightarrow> SEQNUM \<rightharpoonup> string" where
  "fs_stored f n = map_option (\<lambda>(offset, size'). c_str (take size' (drop (nat offset) (contents (msgFile (m_files f))))))
     (smap_find (m_offsets f) n)"

lemma fs_offset_inside:
  assumes "fs_ok f" "smap_find (m_offsets f) n = Some (offset, size')"
  shows "0 \<le> offset \<and> nat offset + size' \<le> length (contents (msgFile (m_files f)))"
  using assms(1)
proof (cases rule: fs_okE)
  case (files es body w)
  with fold_put_entry [of es "[]" n "(offset, size')"] assms(2) show ?thesis by auto
qed

lemma fs_get_one_stored: "fs_ok f \<Longrightarrow> fs_get_one n f = Ok (fs_stored f n)"
  using fs_offset_inside [of f n] by (auto simp: fs_get_one_def fs_stored_def Let_def split: option.split)

lemma fs_get_range:
  assumes "fs_ok f" "lo \<noteq> 0"
  shows "fs_get lo hi f = Ok (in_range lo hi (fs_stored f))"
  using assms
proof (induction lo hi f rule: fs_get.induct)
  case (1 i hi f)
  show ?case
  proof (cases "i \<le> hi")
    case False
    then show ?thesis by (auto simp: fs_get.simps [of i] in_range_empty)
  next
    case True
    have next': "i + 1 \<noteq> 0" if "i \<noteq> hi"
    proof -
      have "unat i < unat hi" using True that by (metis word_le_nat_alt le_neq_implies_less unsigned_word_eqI)
      then have "unat (i + 1) = Suc (unat i)" using SEQNUM_bound [of hi] by (simp add: unat_word_ariths(1))
      then show ?thesis by auto
    qed
    have end': "fs_get (hi + 1) hi f = Ok []"
      using unatSuc [of hi] by (cases "hi + 1 = 0") (auto simp: fs_get.simps [of 0] fs_get.simps [of "1 + hi"] word_le_nat_alt add.commute)
    show ?thesis
      using True "1.prems" next' end' "1.IH"
      by (cases "i = hi") (auto simp: fs_get.simps [of i] fs_get.simps [of hi] fs_get_one_stored in_range_step split: option.split)
  qed
qed

lemma fs_stored_set:
  assumes "fs_ok f" "NUL \<notin> set msg"
  shows "fs_stored (fs_set n msg f) = (fs_stored f)(n \<mapsto> msg)"
proof
  fix k
  have ok: "smap_ok (m_offsets f)"
    using assms(1) by (cases rule: fs_okE) (simp add: fold_put_ok)
  show "fs_stored (fs_set n msg f) k = ((fs_stored f)(n \<mapsto> msg)) k"
    using fs_offset_inside [OF assms(1), of k] ok assms(2)
    by (cases "smap_find (m_offsets f) k") (auto simp: fs_stored_def fs_set_def Let_def)
qed

interpretation disk: message_store fs_ok fs_stored "\<lambda>msg. NUL \<notin> set msg" fs_set fs_get
  fs_getNextSenderMsgSeqNum fs_getNextTargetMsgSeqNum fs_setNextSenderMsgSeqNum fs_setNextTargetMsgSeqNum
proof unfold_locales
  show "fs_stored (fs_setNextSenderMsgSeqNum n s) = fs_stored s" "fs_stored (fs_setNextTargetMsgSeqNum n s) = fs_stored s" for n s
    by (simp_all add: fun_eq_iff fs_stored_def fs_number_defs setSeqNum_def)
qed (auto simp: fs_stored_set fs_get_range, auto simp: fs_number_defs fs_set_def setSeqNum_def ms_defs Let_def)

section \<open>Opening the files again\<close>

lemma populateCache_restores:
  assumes "fs_ok f" "length (contents (msgFile (m_files f))) < 2 ^ 63"
  shows "populateCache \<lparr>m_cache = new_MemoryStore now, m_offsets = [], m_files = m_files f\<rparr> =
    (Ok (), f\<lparr>m_cache := (m_cache f)\<lparr>m_creationTime := truncate_to 0 (fs_getCreationTime f)\<rparr>\<rparr>)"
  using assms(1)
proof (cases rule: fs_okE)
  case (files es body w)
  have "read_header (header_text es) [] = m_offsets f"
    unfolding files(3) by (rule read_header_text) (use files(2,4) assms(2) in fastforce)
  with files read_seqnum_record show ?thesis
    by (auto simp: populateCache_def eff_defs ms_defs fs_number_defs intro!: FileStore.equality MemoryStore.equality)
qed

lemma open_restores:
  assumes "fs_ok f" "length (contents (msgFile (m_files f))) < 2 ^ 63"
  shows "fs_open False \<lparr>m_cache = new_MemoryStore now, m_offsets = [], m_files = m_files f\<rparr> =
    (Ok (), f\<lparr>m_cache := (m_cache f)\<lparr>m_creationTime := truncate_to 0 (fs_getCreationTime f)\<rparr>\<rparr>)"
  using assms(1)
proof (cases rule: fs_okE)
  case (files es body w)
  define g where "g = f\<lparr>m_cache := (m_cache f)\<lparr>m_creationTime := truncate_to 0 (fs_getCreationTime f)\<rparr>\<rparr>"
  have "create_files g = g" "fs_setNextSenderMsgSeqNum (fs_getNextSenderMsgSeqNum g) g = g"
    "fs_setNextTargetMsgSeqNum (fs_getNextTargetMsgSeqNum g) g = g" "sessionFile (m_files g) = Some w"
    and upd: "g\<lparr>m_files := (m_files g)\<lparr>sessionFile := Some w\<rparr>\<rparr> = g"
    using files by (auto simp: g_def create_files_def fs_number_defs ms_defs setSeqNum_files
        intro!: FileStore.equality MemoryStore.equality store_files.equality)
  then show ?thesis
    using populateCache_restores [OF assms, of now] unfolding g_def [symmetric] by (simp add: fs_open_def eff_defs upd)
qed

lemma truncate_idem [simp]: "truncate_to p (truncate_to p t) = truncate_to p t"
  by (simp add: truncate_to_def minus_mod_eq_mult_div)

lemma fs_ok_truncate: "fs_ok f \<Longrightarrow> fs_ok (f\<lparr>m_cache := (m_cache f)\<lparr>m_creationTime := truncate_to 0 (fs_getCreationTime f)\<rparr>\<rparr>)"
  by (auto simp: fs_ok_def fs_number_defs)

text \<open>The store a session starts with when there are no files, also after a reset.\<close>

definition fresh_FileStore :: "DateTime \<Rightarrow> FileStore" where
  "fresh_FileStore now = \<lparr>m_cache = new_MemoryStore now, m_offsets = [],
     m_files = \<lparr>msgFile = Some [], headerFile = Some [], seqNumsFile = Some (seqnum_record 1 1),
                sessionFile = UtcTimeStampConvertor_string now 0\<rparr>\<rparr>"

lemma fs_ok_fresh: "time_storable now \<Longrightarrow> fs_ok (fresh_FileStore now)"
  by (auto simp: fs_ok_def fresh_FileStore_def fs_number_defs ms_defs intro!: exI [of _ "[]"])

lemma open_fresh:
  assumes "time_storable now" "deleteFile \<or> files = no_files"
  shows "fs_open deleteFile \<lparr>m_cache = new_MemoryStore now, m_offsets = [], m_files = files\<rparr> = (Ok (), fresh_FileStore now)"
proof -
  from timestamp_token [OF assms(1)] obtain w where w: "UtcTimeStampConvertor_string now 0 = Some w" by blast
  have "write_front (seqnum_record a b) [] = seqnum_record a b" for a b by (simp add: write_front_def)
  moreover have "write_front w [] = w" by (simp add: write_front_def)
  ultimately show ?thesis
    using w assms(2) by (auto simp: fs_open_def populateCache_def create_files_def no_files_def setSession_def eff_defs
        fs_number_defs ms_defs setSeqNum_def fresh_FileStore_def)
qed

lemma ms_reset_fresh: "m_messages s = [] \<Longrightarrow> ms_reset now s = new_MemoryStore now"
  by (simp add: ms_defs)

lemma fs_reset_fresh:
  assumes "time_storable now" "fs_ok f"
  shows "fs_reset now f = (Ok (), fresh_FileStore now)"
proof -
  from timestamp_token [OF assms(1)] obtain w where w: "UtcTimeStampConvertor_string now 0 = Some w" by blast
  have "m_messages (m_cache f) = []" using assms(2) by (simp add: fs_ok_def)
  then have "f\<lparr>m_cache := ms_reset now (m_cache f), m_offsets := []\<rparr> =
      \<lparr>m_cache = new_MemoryStore now, m_offsets = [], m_files = m_files f\<rparr>"
    by (simp add: ms_reset_fresh)
  moreover have "setSession (fresh_FileStore now) = (Ok (), fresh_FileStore now)"
    using w by (simp add: setSession_def fresh_FileStore_def eff_defs ms_defs)
  ultimately show ?thesis
    using open_fresh [OF assms(1), of True] by (simp add: fs_reset_def as_IOException_def eff_defs)
qed

lemma fs_refresh_restores:
  assumes "fs_ok f" "length (contents (msgFile (m_files f))) < 2 ^ 63"
  shows "fs_refresh now f =
    (Ok (), f\<lparr>m_cache := (m_cache f)\<lparr>m_creationTime := truncate_to 0 (fs_getCreationTime f)\<rparr>\<rparr>)"
proof -
  have "m_messages (m_cache f) = []" using assms(1) by (simp add: fs_ok_def)
  then have "f\<lparr>m_cache := ms_reset now (m_cache f), m_offsets := []\<rparr> =
      \<lparr>m_cache = new_MemoryStore now, m_offsets = [], m_files = m_files f\<rparr>"
    by (simp add: ms_reset_fresh)
  then show ?thesis
    using open_restores [OF assms, of now] by (simp add: fs_refresh_def as_IOException_def eff_defs)
qed

lemma new_FileStore_restores:
  assumes "fs_ok f" "length (contents (msgFile (m_files f))) < 2 ^ 63"
  shows "new_FileStore now (m_files f) =
    Ok (f\<lparr>m_cache := (m_cache f)\<lparr>m_creationTime := truncate_to 0 (fs_getCreationTime f)\<rparr>\<rparr>)"
  using open_restores [OF assms, of now] by (simp add: new_FileStore_def)

section \<open>Reachable stores\<close>

text \<open>The stores an engine can come to, by the operations of the interface and by stopping the process
  and opening the files again.\<close>

inductive fs_reachable :: "FileStore \<Rightarrow> bool" where
  fresh: "time_storable now \<Longrightarrow> new_FileStore now no_files = Ok f \<Longrightarrow> fs_reachable f"
| store: "fs_reachable f \<Longrightarrow> fs_reachable (fs_set n msg f)"
| sender: "fs_reachable f \<Longrightarrow> fs_reachable (fs_setNextSenderMsgSeqNum n f)"
| target: "fs_reachable f \<Longrightarrow> fs_reachable (fs_setNextTargetMsgSeqNum n f)"
| incr_sender: "fs_reachable f \<Longrightarrow> fs_reachable (fs_incrNextSenderMsgSeqNum f)"
| incr_target: "fs_reachable f \<Longrightarrow> fs_reachable (fs_incrNextTargetMsgSeqNum f)"
| reset: "fs_reachable f \<Longrightarrow> time_storable now \<Longrightarrow> fs_reset now f = (r, f') \<Longrightarrow> fs_reachable f'"
| refresh: "fs_reachable f \<Longrightarrow> length (contents (msgFile (m_files f))) < 2 ^ 63 \<Longrightarrow> fs_refresh now f = (r, f') \<Longrightarrow>
    fs_reachable f'"
| restart: "fs_reachable f \<Longrightarrow> length (contents (msgFile (m_files f))) < 2 ^ 63 \<Longrightarrow> new_FileStore now (m_files f) = Ok f' \<Longrightarrow>
    fs_reachable f'"

lemma fs_reachable_ok: "fs_reachable f \<Longrightarrow> fs_ok f"
proof (induction rule: fs_reachable.induct)
  case (fresh now f)
  then show ?case using open_fresh [of now False no_files] fs_ok_fresh [of now] by (simp add: new_FileStore_def)
next
  case (reset f now r f')
  then show ?case using fs_reset_fresh fs_ok_fresh by auto
next
  case (refresh f now r f')
  then show ?case using fs_refresh_restores fs_ok_truncate by auto
next
  case (restart f now f')
  then show ?case using new_FileStore_restores fs_ok_truncate by auto
qed simp_all

section \<open>Properties\<close>

text \<open>C36: nothing is lost by stopping the process. Whatever was done to a store since it was created, opening
  its four files again gives a store with the same messages under the same numbers, the same
  sequence numbers and the creation time to the second; \<open>refresh\<close> does the same in place. (The body
  must be shorter than the largest file offset.)\<close>

theorem file_store_recovery:
  assumes "fs_reachable f" "length (contents (msgFile (m_files f))) < 2 ^ 63"
  shows "\<exists>f'. new_FileStore now (m_files f) = Ok f' \<and> fs_refresh now f = (Ok (), f') \<and>
    fs_getNextSenderMsgSeqNum f' = fs_getNextSenderMsgSeqNum f \<and> fs_getNextTargetMsgSeqNum f' = fs_getNextTargetMsgSeqNum f \<and>
    fs_get lo hi f' = fs_get lo hi f \<and> fs_getCreationTime f' = truncate_to 0 (fs_getCreationTime f)"
proof -
  note ok = fs_reachable_ok [OF assms(1)]
  let ?f = "f\<lparr>m_cache := (m_cache f)\<lparr>m_creationTime := truncate_to 0 (fs_getCreationTime f)\<rparr>\<rparr>"
  have "fs_stored ?f = fs_stored f" by (simp add: fs_stored_def fun_eq_iff)
  then have "fs_get lo hi ?f = fs_get lo hi f"
    using fs_get_range [OF ok, of lo hi] fs_get_range [OF fs_ok_truncate [OF ok], of lo hi]
    by (cases "lo = 0") (simp_all add: fs_get.simps [of 0])
  then show ?thesis
    using new_FileStore_restores [OF ok assms(2), of now] fs_refresh_restores [OF ok assms(2), of now]
    by (simp add: fs_number_defs)
qed

text \<open>A reset store is as good as new. After \<open>reset\<close> both numbers are 1, no message is left and the store
  holds exactly what creating it without files gives.\<close>

theorem file_store_reset:
  assumes "fs_reachable f" "time_storable now"
  shows "\<exists>f'. fs_reset now f = (Ok (), f') \<and> new_FileStore now no_files = Ok f' \<and>
    fs_getNextSenderMsgSeqNum f' = 1 \<and> fs_getNextTargetMsgSeqNum f' = 1 \<and> fs_get lo hi f' = Ok [] \<and>
    fs_getCreationTime f' = now"
proof -
  have ok: "fs_ok (fresh_FileStore now)" by (rule fs_ok_fresh [OF assms(2)])
  have "fs_stored (fresh_FileStore now) = (\<lambda>_. None)" by (simp add: fs_stored_def fresh_FileStore_def fun_eq_iff)
  then have "fs_get lo hi (fresh_FileStore now) = Ok []"
    using fs_get_range [OF ok, of lo hi] by (cases "lo = 0") (simp_all add: fs_get.simps [of 0] in_range_def)
  then show ?thesis
    using fs_reset_fresh [OF assms(2) fs_reachable_ok [OF assms(1)]] open_fresh [OF assms(2), of False no_files]
    by (simp add: new_FileStore_def fresh_FileStore_def fs_number_defs ms_defs)
qed

section \<open>Witnesses\<close>

definition epoch :: DateTime where
  "epoch = \<lparr>m_date = JULIAN_19700101, m_time = 45296789000000\<rparr>"

lemma epoch_storable: "time_storable epoch"
  by (simp add: time_storable_def epoch_def time_ok_def getYear_def getYMD_epoch NANOS_PER_DAY_def JULIAN_19700101_nonneg)

lemma fresh_reachable: "fs_reachable (fresh_FileStore epoch)"
  using open_fresh [OF epoch_storable, of False no_files]
  by (intro fs_reachable.fresh [OF epoch_storable]) (simp add: new_FileStore_def)

theorem file_store_recovery_witness:
  "\<exists>f'. new_FileStore epoch (m_files (fs_set 1 ''abc'' (fresh_FileStore epoch))) = Ok f' \<and>
     fs_get 1 1 f' = fs_get 1 1 (fs_set 1 ''abc'' (fresh_FileStore epoch))"
  using file_store_recovery [OF fs_reachable.store [OF fresh_reachable], of 1 "''abc''" epoch 1 1]
  by (auto simp: fs_set_def fresh_FileStore_def)

theorem file_store_reset_witness:
  "\<exists>f'. fs_reset epoch (fs_set 1 ''abc'' (fresh_FileStore epoch)) = (Ok (), f') \<and> fs_getNextSenderMsgSeqNum f' = 1 \<and>
     fs_get 1 5 f' = Ok []"
  using file_store_reset [OF fs_reachable.store [OF fresh_reachable] epoch_storable, of 1 "''abc''" 1 5] by auto

end
