(* ===== verification/MessageStores.thy ===== *)
theory MessageStores
  imports FileStores
begin

text \<open>
  The virtual calls of MessageStore.h: a session holds some store, in memory or on disk, and each call
  goes to the operation of its class. The union fulfils the contract \<open>message_store\<close> because both do.
\<close>

section \<open>Definitions\<close>

datatype MessageStore = InMemory MemoryStore | OnDisk FileStore

fun store_set :: "SEQNUM \<Rightarrow> string \<Rightarrow> MessageStore \<Rightarrow> MessageStore" where
  "store_set n msg (InMemory s) = InMemory (ms_set n msg s)"
| "store_set n msg (OnDisk f) = OnDisk (fs_set n msg f)"

fun store_get :: "SEQNUM \<Rightarrow> SEQNUM \<Rightarrow> MessageStore \<Rightarrow> string list result" where
  "store_get lo hi (InMemory s) = Ok (ms_get lo hi s)"
| "store_get lo hi (OnDisk f) = fs_get lo hi f"

fun store_nextSender :: "MessageStore \<Rightarrow> SEQNUM" where
  "store_nextSender (InMemory s) = m_nextSenderMsgSeqNum s"
| "store_nextSender (OnDisk f) = fs_getNextSenderMsgSeqNum f"

fun store_nextTarget :: "MessageStore \<Rightarrow> SEQNUM" where
  "store_nextTarget (InMemory s) = m_nextTargetMsgSeqNum s"
| "store_nextTarget (OnDisk f) = fs_getNextTargetMsgSeqNum f"

fun store_setNextSender :: "SEQNUM \<Rightarrow> MessageStore \<Rightarrow> MessageStore" where
  "store_setNextSender n (InMemory s) = InMemory (ms_setNextSenderMsgSeqNum n s)"
| "store_setNextSender n (OnDisk f) = OnDisk (fs_setNextSenderMsgSeqNum n f)"

fun store_setNextTarget :: "SEQNUM \<Rightarrow> MessageStore \<Rightarrow> MessageStore" where
  "store_setNextTarget n (InMemory s) = InMemory (ms_setNextTargetMsgSeqNum n s)"
| "store_setNextTarget n (OnDisk f) = OnDisk (fs_setNextTargetMsgSeqNum n f)"

fun store_incrNextSender :: "MessageStore \<Rightarrow> MessageStore" where
  "store_incrNextSender (InMemory s) = InMemory (ms_incrNextSenderMsgSeqNum s)"
| "store_incrNextSender (OnDisk f) = OnDisk (fs_incrNextSenderMsgSeqNum f)"

fun store_incrNextTarget :: "MessageStore \<Rightarrow> MessageStore" where
  "store_incrNextTarget (InMemory s) = InMemory (ms_incrNextTargetMsgSeqNum s)"
| "store_incrNextTarget (OnDisk f) = OnDisk (fs_incrNextTargetMsgSeqNum f)"

fun store_creationTime :: "MessageStore \<Rightarrow> DateTime" where
  "store_creationTime (InMemory s) = m_creationTime s"
| "store_creationTime (OnDisk f) = fs_getCreationTime f"

fun store_reset :: "DateTime \<Rightarrow> (MessageStore, unit) eff" where
  "store_reset now (InMemory s) = (Ok (), InMemory (ms_reset now s))"
| "store_reset now (OnDisk f) = (case fs_reset now f of (r, f') \<Rightarrow> (r, OnDisk f'))"

fun store_refresh :: "DateTime \<Rightarrow> (MessageStore, unit) eff" where
  "store_refresh now (InMemory s) = (Ok (), InMemory s)"
| "store_refresh now (OnDisk f) = (case fs_refresh now f of (r, f') \<Rightarrow> (r, OnDisk f'))"

section \<open>The contract\<close>

fun store_ok :: "MessageStore \<Rightarrow> bool" where
  "store_ok (InMemory s) = ms_ok s"
| "store_ok (OnDisk f) = fs_ok f"

fun stored_in :: "MessageStore \<Rightarrow> SEQNUM \<rightharpoonup> string" where
  "stored_in (InMemory s) = ms_stored s"
| "stored_in (OnDisk f) = fs_stored f"

interpretation store: message_store store_ok stored_in "\<lambda>msg. NUL \<notin> set msg" store_set store_get
  store_nextSender store_nextTarget store_setNextSender store_setNextTarget
proof (unfold_locales, goal_cases)
  case (1 s msg n) then show ?case by (cases s) (simp_all add: memory.stored_set disk.stored_set)
next
  case (2 s n msg) then show ?case by (cases s) (simp_all add: memory.inv_set disk.inv_set)
next
  case (3 n msg s) then show ?case by (cases s) (simp_all add: memory.numbers_set disk.numbers_set)
next
  case (4 n msg s) then show ?case by (cases s) (simp_all add: memory.numbers_set disk.numbers_set)
next
  case (5 s lo hi) then show ?case by (cases s) (simp_all add: memory.get_stored disk.get_stored)
next
  case (6 s n) then show ?case by (cases s) (simp_all add: memory.inv_numbers disk.inv_numbers)
next
  case (7 s n) then show ?case by (cases s) (simp_all add: memory.inv_numbers disk.inv_numbers)
next
  case (8 n s) then show ?case by (cases s) (simp_all add: memory.stored_numbers disk.stored_numbers)
next
  case (9 n s) then show ?case by (cases s) (simp_all add: memory.stored_numbers disk.stored_numbers)
next
  case (10 n s) then show ?case by (cases s) (simp_all add: memory.numbers disk.numbers)
next
  case (11 n s) then show ?case by (cases s) (simp_all add: memory.numbers disk.numbers)
next
  case (12 n s) then show ?case by (cases s) (simp_all add: memory.numbers disk.numbers)
next
  case (13 n s) then show ?case by (cases s) (simp_all add: memory.numbers disk.numbers)
qed

lemma store_incr:
  "store_incrNextSender s = store_setNextSender (store_nextSender s + 1) s"
  "store_incrNextTarget s = store_setNextTarget (store_nextTarget s + 1) s"
  by (cases s; simp add: ms_defs fs_number_defs)+

lemma store_reset_ok:
  assumes "store_ok s" "time_storable now"
  shows "\<exists>s'. store_reset now s = (Ok (), s') \<and> store_ok s' \<and> store_nextSender s' = 1 \<and> store_nextTarget s' = 1 \<and>
    store_creationTime s' = now \<and> stored_in s' = (\<lambda>_. None)"
proof (cases s)
  case (InMemory m)
  with assms show ?thesis by (simp add: ms_defs ms_ok_def ms_stored_def fun_eq_iff)
next
  case (OnDisk f)
  with assms fs_reset_fresh [of now f] fs_ok_fresh [of now] show ?thesis
    by (simp add: fresh_FileStore_def fs_stored_def fun_eq_iff fs_number_defs ms_defs)
qed

section \<open>Properties\<close>

text \<open>A store gives back what was sent. When a run of messages without NUL is stored, each under the
  next sender number, which is then incremented, asking for exactly these numbers returns the messages, all of them, in
  order; from the store in memory and from the one on disk.\<close>

theorem store_returns_sent:
  assumes "store_ok s" "\<forall>m\<in>set ms. NUL \<notin> set m" "0 < unat (store_nextSender s)"
    "unat (store_nextSender s) + length ms < 2 ^ 64" "ms \<noteq> []"
  shows "store_get (store_nextSender s) (store_nextSender s + of_nat (length ms) - 1)
      (fold (\<lambda>m s. store_incrNextSender (store_set (store_nextSender s) m s)) ms s) = Ok ms"
proof -
  have "(\<lambda>m s. store_incrNextSender (store_set (store_nextSender s) m s)) = store.send_one"
    by (simp add: fun_eq_iff store.send_one_def store_incr Let_def store.numbers_set)
  with store.resend_run [OF assms] show ?thesis by simp
qed

theorem store_returns_sent_witness:
  "store_get 1 2 (fold (\<lambda>m s. store_incrNextSender (store_set (store_nextSender s) m s)) [''a'', ''b'']
     (OnDisk (fresh_FileStore epoch))) = Ok [''a'', ''b'']"
  using store_returns_sent [of "OnDisk (fresh_FileStore epoch)" "[''a'', ''b'']"] fs_ok_fresh [OF epoch_storable]
  by (simp add: fresh_FileStore_def fs_number_defs ms_defs)

text \<open>The stores differ on a range whose first message is missing. The one on disk returns the
  stored messages of the range, the one in memory none at all.\<close>

theorem stores_differ_on_gap:
  assumes "ms_ok m" "ms_stored m lo = None" "fs_ok f" "lo \<noteq> 0"
  shows "store_get lo hi (InMemory m) = Ok [] \<and> store_get lo hi (OnDisk f) = Ok (in_range lo hi (fs_stored f))"
proof -
  have none: "dropWhile (\<lambda>p. fst p \<noteq> lo) (m_messages m) = []"
    using assms(2) by (force simp: ms_stored_def map_of_eq_None_iff)
  with assms(3,4) show ?thesis by (simp add: ms_get_def fs_get_range none)
qed

theorem stores_differ_on_gap_witness:
  "store_get 1 2 (InMemory (ms_set 2 ''b'' (new_MemoryStore epoch))) = Ok [] \<and>
   store_get 1 2 (OnDisk (fs_set 2 ''b'' (fresh_FileStore epoch))) = Ok [''b'']"
proof -
  have "in_range 1 2 (fs_stored (fs_set 2 ''b'' (fresh_FileStore epoch))) = [''b'']"
    by (simp add: in_range_step fs_stored_def fs_set_def fresh_FileStore_def)
  then show ?thesis
    using stores_differ_on_gap [of "ms_set 2 ''b'' (new_MemoryStore epoch)" 1 "fs_set 2 ''b'' (fresh_FileStore epoch)" 2]
      fs_ok_set [OF fs_ok_fresh [OF epoch_storable], of 2 "''b''"]
    by (simp add: ms_ok_def ms_stored_def ms_defs)
qed

end
