(* ===== verification/SessionStates.thy ===== *)
theory SessionStates
  imports MessageStores Messages
begin

text \<open>
  SessionState.h: the state a session keeps, its timers, the queue of messages that arrived too early and the
  store behind it. The heartbeat interval stays the field it was read into, so its conversion
  can fail where the code reads it. The two timers with a factor compare with \<open>double\<close>s; their products are
  rounded to 53 bits here as there.
\<close>

section \<open>Products of doubles\<close>

text \<open>A double is given by its multiple of \<open>2 ^ -52\<close>. A product with a whole number is rounded
  to 53 significant bits, half to even.\<close>

fun bit_length :: "nat \<Rightarrow> nat" where
  "bit_length n = (if n = 0 then 0 else Suc (bit_length (n div 2)))"

declare bit_length.simps [simp del]

definition round53 :: "nat \<Rightarrow> nat" where
  "round53 n =
     (let k = bit_length n - 53; q = n div 2 ^ k; r = n mod 2 ^ k in
      (if 2 * r > 2 ^ k \<or> 2 * r = 2 ^ k \<and> odd q then q + 1 else q) * 2 ^ k)"

definition times_double :: "int \<Rightarrow> int \<Rightarrow> int" where
  "times_double x n = sgn (x * n) * int (round53 (nat \<bar>x * n\<bar>))"

definition double_1_2 :: int where "double_1_2 = 5404319552844595"
definition double_2_4 :: int where "double_2_4 = 10808639105689190"

section \<open>Definitions\<close>

record SessionState =
  m_enabled :: bool
  m_receivedLogon :: bool
  m_sentLogout :: bool
  m_sentLogon :: bool
  m_sentReset :: bool
  m_receivedReset :: bool
  m_initiate :: bool
  m_logonTimeout :: int
  m_logoutTimeout :: int
  m_testRequest :: int
  m_resendRange :: "SEQNUM \<times> SEQNUM"
  m_heartBtInt :: FieldBase
  m_lastSentTime :: DateTime
  m_lastReceivedTime :: DateTime
  m_logoutReason :: string
  m_queue :: "(SEQNUM, Message) smap"
  m_pStore :: MessageStore

definition new_SessionState :: "DateTime \<Rightarrow> MessageStore \<Rightarrow> SessionState" where
  "new_SessionState now store =
     \<lparr>m_enabled = True, m_receivedLogon = False, m_sentLogout = False, m_sentLogon = False, m_sentReset = False,
      m_receivedReset = False, m_initiate = False, m_logonTimeout = 10, m_logoutTimeout = 2, m_testRequest = 0,
      m_resendRange = (0, 0), m_heartBtInt = mk_FieldBase TAG_HeartBtInt [], m_lastSentTime = now,
      m_lastReceivedTime = now, m_logoutReason = [], m_queue = [], m_pStore = store\<rparr>"

definition resendRequested :: "SessionState \<Rightarrow> bool" where
  "resendRequested st = (\<not> (fst (m_resendRange st) = 0 \<and> snd (m_resendRange st) = 0))"

definition heartBtInt_value :: "SessionState \<Rightarrow> int result" where
  "heartBtInt_value st = IntField_valueOf (m_heartBtInt st)"

definition shouldSendLogon :: "SessionState \<Rightarrow> bool" where
  "shouldSendLogon st = (m_initiate st \<and> \<not> m_sentLogon st)"

definition alreadySentLogon :: "SessionState \<Rightarrow> bool" where
  "alreadySentLogon st = (m_initiate st \<and> m_sentLogon st)"

definition logonTimedOut :: "SessionState \<Rightarrow> DateTime \<Rightarrow> bool" where
  "logonTimedOut st now = (dt_minus now (m_lastReceivedTime st) \<ge> m_logonTimeout st)"

definition logoutTimedOut :: "SessionState \<Rightarrow> DateTime \<Rightarrow> bool" where
  "logoutTimedOut st now = (m_sentLogout st \<and> dt_minus now (m_lastSentTime st) \<ge> m_logoutTimeout st)"

definition withinHeartBeat :: "SessionState \<Rightarrow> DateTime \<Rightarrow> bool result" where
  "withinHeartBeat st now = rbind (heartBtInt_value st) (\<lambda>hb.
     Ok (dt_minus now (m_lastSentTime st) < hb \<and> dt_minus now (m_lastReceivedTime st) < hb))"

definition timedOut :: "SessionState \<Rightarrow> DateTime \<Rightarrow> bool result" where
  "timedOut st now = rbind (heartBtInt_value st) (\<lambda>hb.
     Ok (dt_minus now (m_lastReceivedTime st) * 2 ^ 52 \<ge> times_double double_2_4 hb))"

definition needHeartbeat :: "SessionState \<Rightarrow> DateTime \<Rightarrow> bool result" where
  "needHeartbeat st now = rbind (heartBtInt_value st) (\<lambda>hb.
     Ok (dt_minus now (m_lastSentTime st) \<ge> hb \<and> m_testRequest st = 0))"

definition needTestRequest :: "SessionState \<Rightarrow> DateTime \<Rightarrow> bool result" where
  "needTestRequest st now = rbind (heartBtInt_value st) (\<lambda>hb.
     Ok (dt_minus now (m_lastReceivedTime st) * 2 ^ 52 \<ge>
         times_double (times_double double_1_2 (m_testRequest st + 1)) hb))"

definition queue_message :: "SEQNUM \<Rightarrow> Message \<Rightarrow> SessionState \<Rightarrow> SessionState" where
  "queue_message msgSeqNum message st = st\<lparr>m_queue := smap_put msgSeqNum message (m_queue st)\<rparr>"

definition retrieve :: "SEQNUM \<Rightarrow> (SessionState, Message option) eff" where
  "retrieve msgSeqNum st =
     (case smap_find (m_queue st) msgSeqNum of
        None \<Rightarrow> (Ok None, st)
      | Some message \<Rightarrow> (Ok (Some message), st\<lparr>m_queue := smap_erase msgSeqNum (m_queue st)\<rparr>))"

definition clearQueue :: "SessionState \<Rightarrow> SessionState" where
  "clearQueue st = st\<lparr>m_queue := []\<rparr>"

definition clearQueueUpTo :: "SEQNUM \<Rightarrow> SessionState \<Rightarrow> SessionState" where
  "clearQueueUpTo msgSeqNum st = st\<lparr>m_queue := smap_erase_below msgSeqNum (m_queue st)\<rparr>"

definition state_set :: "SEQNUM \<Rightarrow> string \<Rightarrow> SessionState \<Rightarrow> SessionState" where
  "state_set n msg st = st\<lparr>m_pStore := store_set n msg (m_pStore st)\<rparr>"

definition state_get :: "SEQNUM \<Rightarrow> SEQNUM \<Rightarrow> SessionState \<Rightarrow> string list result" where
  "state_get lo hi st = store_get lo hi (m_pStore st)"

definition state_nextSender :: "SessionState \<Rightarrow> SEQNUM" where
  "state_nextSender st = store_nextSender (m_pStore st)"

definition state_nextTarget :: "SessionState \<Rightarrow> SEQNUM" where
  "state_nextTarget st = store_nextTarget (m_pStore st)"

definition state_setNextSender :: "SEQNUM \<Rightarrow> SessionState \<Rightarrow> SessionState" where
  "state_setNextSender n st = st\<lparr>m_pStore := store_setNextSender n (m_pStore st)\<rparr>"

definition state_setNextTarget :: "SEQNUM \<Rightarrow> SessionState \<Rightarrow> SessionState" where
  "state_setNextTarget n st = st\<lparr>m_pStore := store_setNextTarget n (m_pStore st)\<rparr>"

definition state_incrNextSender :: "SessionState \<Rightarrow> SessionState" where
  "state_incrNextSender st = st\<lparr>m_pStore := store_incrNextSender (m_pStore st)\<rparr>"

definition state_incrNextTarget :: "SessionState \<Rightarrow> SessionState" where
  "state_incrNextTarget st = st\<lparr>m_pStore := store_incrNextTarget (m_pStore st)\<rparr>"

definition state_creationTime :: "SessionState \<Rightarrow> DateTime" where
  "state_creationTime st = store_creationTime (m_pStore st)"

abbreviation on_store :: "(MessageStore, 'a) eff \<Rightarrow> (SessionState, 'a) eff" where
  "on_store \<equiv> ezoom m_pStore (\<lambda>store st. st\<lparr>m_pStore := store\<rparr>)"

definition state_reset :: "DateTime \<Rightarrow> (SessionState, unit) eff" where
  "state_reset now = eseq [
     on_store (store_reset now),
     emodify (\<lambda>st. st\<lparr>m_queue := [], m_resendRange := (0, 0)\<rparr>)]"

definition state_refresh :: "DateTime \<Rightarrow> (SessionState, unit) eff" where
  "state_refresh now = on_store (store_refresh now)"

lemmas state_defs = queue_message_def clearQueue_def clearQueueUpTo_def state_set_def state_get_def state_nextSender_def
  state_nextTarget_def state_setNextSender_def state_setNextTarget_def state_incrNextSender_def state_incrNextTarget_def
  state_creationTime_def

end
