(* ===== verification/Sessions.thy ===== *)
theory Sessions
  imports SessionStates SessionIDs TimeRanges Validation
begin

text \<open>
  Session.h and Session.cpp, first part: the state of a session, its environment, and everything that sends.

  The environment is the clock (\<open>m_timestamper\<close>, read once per call, so each read has its own index), the
  callbacks of the application (any functions of the number of the call and the message; they may change a
  message on its way out, and throw) and the responder. What a session does to its environment is the list \<open>s_out\<close>.
  Log texts are left out. One thread: the locks of the class and the callbacks calling the session
  again are not modelled.
\<close>

section \<open>State and environment\<close>

datatype event =
    Sent string
  | FromApp Message
  | FromAdmin Message
  | LoggedOn
  | LoggedOut
  | Closed

record Application =
  toAdmin :: "nat \<Rightarrow> Message \<Rightarrow> Message result"
  toApp :: "nat \<Rightarrow> Message \<Rightarrow> Message result"
  fromAdmin :: "nat \<Rightarrow> Message \<Rightarrow> unit result"
  fromApp :: "nat \<Rightarrow> Message \<Rightarrow> unit result"

text \<open>DataDictionaryProvider.h and .cpp; an unknown version has the empty dictionary.\<close>

record DataDictionaryProvider =
  m_transportDictionaries :: "(string, DataDictionary) smap"
  m_applicationDictionaries :: "(string, DataDictionary) smap"

definition getSessionDataDictionary :: "DataDictionaryProvider \<Rightarrow> string \<Rightarrow> DataDictionary" where
  "getSessionDataDictionary p beginString =
     (case smap_find (m_transportDictionaries p) beginString of None \<Rightarrow> new_DataDictionary | Some d \<Rightarrow> d)"

definition getApplicationDataDictionary :: "DataDictionaryProvider \<Rightarrow> string \<Rightarrow> DataDictionary" where
  "getApplicationDataDictionary p applVerID =
     (case smap_find (m_applicationDictionaries p) applVerID of None \<Rightarrow> new_DataDictionary | Some d \<Rightarrow> d)"

definition addTransportDataDictionary :: "string \<Rightarrow> DataDictionary \<Rightarrow> DataDictionaryProvider \<Rightarrow> DataDictionaryProvider" where
  "addTransportDataDictionary beginString d p =
     p\<lparr>m_transportDictionaries := smap_put beginString d (m_transportDictionaries p)\<rparr>"

definition addApplicationDataDictionary :: "string \<Rightarrow> DataDictionary \<Rightarrow> DataDictionaryProvider \<Rightarrow> DataDictionaryProvider" where
  "addApplicationDataDictionary applVerID d p =
     p\<lparr>m_applicationDictionaries := smap_put applVerID d (m_applicationDictionaries p)\<rparr>"

record Session =
  m_timestamper :: "nat \<Rightarrow> DateTime"
  m_application :: Application
  m_localtime :: "int \<Rightarrow> DateTime"
  m_sessionID :: SessionID
  m_sessionTime :: TimeRange
  m_logonTime :: TimeRange
  m_senderDefaultApplVerID :: string
  m_targetDefaultApplVerID :: string
  m_sendRedundantResendRequests :: bool
  m_checkCompId :: bool
  m_checkLatency :: bool
  m_maxLatency :: int
  m_resetOnLogon :: bool
  m_resetOnLogout :: bool
  m_resetOnDisconnect :: bool
  m_refreshOnLogon :: bool
  m_timestampPrecision :: int
  m_persistMessages :: bool
  m_validateLengthAndChecksum :: bool
  m_sendNextExpectedMsgSeqNum :: bool
  m_isNonStopSession :: bool
  m_allowedRemoteAddresses :: "string list"
  m_state :: SessionState
  m_dataDictionaryProvider :: DataDictionaryProvider
  m_pResponder :: bool
  s_ticks :: nat
  s_calls :: nat
  s_out :: "event list"

type_synonym 'a action = "(Session, 'a) eff"

definition modify_state :: "(SessionState \<Rightarrow> SessionState) \<Rightarrow> unit action" where
  "modify_state f = emodify (\<lambda>s. s\<lparr>m_state := f (m_state s)\<rparr>)"

definition gets_state :: "(SessionState \<Rightarrow> 'a) \<Rightarrow> 'a action" where
  "gets_state f = egets (\<lambda>s. f (m_state s))"

definition on_state :: "(SessionState, 'a) eff \<Rightarrow> 'a action" where
  "on_state = ezoom m_state (\<lambda>st s. s\<lparr>m_state := st\<rparr>)"

definition emit :: "event \<Rightarrow> unit action" where
  "emit e = emodify (\<lambda>s. s\<lparr>s_out := s_out s @ [e]\<rparr>)"

definition timestamper :: "DateTime action" where
  "timestamper s = (Ok (m_timestamper s (s_ticks s)), s\<lparr>s_ticks := s_ticks s + 1\<rparr>)"

text \<open>A callback of the application.\<close>

definition callback :: "(Application \<Rightarrow> nat \<Rightarrow> Message \<Rightarrow> 'a result) \<Rightarrow> Message \<Rightarrow> 'a action" where
  "callback f message s = (f (m_application s) (s_calls s) message, s\<lparr>s_calls := s_calls s + 1\<rparr>)"

section \<open>Queries\<close>

definition BeginString_FIX41 :: string where "BeginString_FIX41 = ''FIX.4.1''"
definition BeginString_FIX42 :: string where "BeginString_FIX42 = ''FIX.4.2''"
definition BeginString_FIXT11 :: string where "BeginString_FIXT11 = ''FIXT.1.1''"

definition isLoggedOn :: "Session \<Rightarrow> bool" where
  "isLoggedOn s = (m_receivedLogon (m_state s) \<and> m_sentLogon (m_state s))"

definition isEnabled :: "Session \<Rightarrow> bool" where
  "isEnabled s = m_enabled (m_state s)"

definition isSessionTime :: "Session \<Rightarrow> DateTime \<Rightarrow> bool" where
  "isSessionTime s now = isInRange (m_localtime s) (m_sessionTime s) now"

definition isLogonTime :: "Session \<Rightarrow> DateTime \<Rightarrow> bool" where
  "isLogonTime s now = isInRange (m_localtime s) (m_logonTime s) now"

definition getExpectedSenderNum :: "Session \<Rightarrow> SEQNUM" where
  "getExpectedSenderNum s = state_nextSender (m_state s)"

definition getExpectedTargetNum :: "Session \<Rightarrow> SEQNUM" where
  "getExpectedTargetNum s = state_nextTarget (m_state s)"

definition supportsSubSecondTimestamps :: "string \<Rightarrow> bool" where
  "supportsSubSecondTimestamps beginString = (if beginString = BeginString_FIXT11 then True else beginString \<ge> BeginString_FIX42)"

definition getSupportedTimestampPrecision :: "Session \<Rightarrow> int" where
  "getSupportedTimestampPrecision s =
     (if supportsSubSecondTimestamps (getBeginString (m_sessionID s)) then m_timestampPrecision s else 0)"

definition setTimestampPrecision :: "int \<Rightarrow> Session \<Rightarrow> Session" where
  "setTimestampPrecision precision s =
     (if precision < 0 \<or> precision > 9 then s else s\<lparr>m_timestampPrecision := precision\<rparr>)"

definition setMillisecondsInTimeStamp :: "bool \<Rightarrow> Session \<Rightarrow> Session" where
  "setMillisecondsInTimeStamp value' s = s\<lparr>m_timestampPrecision := (if value' then 3 else 0)\<rparr>"

definition checkSessionTime :: "Session \<Rightarrow> DateTime \<Rightarrow> bool" where
  "checkSessionTime s now =
     (if m_isNonStopSession s then True
      else isInSameRange (m_localtime s) (m_sessionTime s) now (state_creationTime (m_state s)))"

definition isTargetTooHigh :: "Session \<Rightarrow> SEQNUM \<Rightarrow> bool" where
  "isTargetTooHigh s msgSeqNum = (msgSeqNum > getExpectedTargetNum s)"

definition isTargetTooLow :: "Session \<Rightarrow> SEQNUM \<Rightarrow> bool" where
  "isTargetTooLow s msgSeqNum = (msgSeqNum < getExpectedTargetNum s)"

definition isCorrectCompID :: "Session \<Rightarrow> string \<Rightarrow> string \<Rightarrow> bool" where
  "isCorrectCompID s senderCompID targetCompID =
     (if \<not> m_checkCompId s then True
      else getSenderCompID (m_sessionID s) = targetCompID \<and> getTargetCompID (m_sessionID s) = senderCompID)"

definition shouldSendReset :: "Session \<Rightarrow> bool" where
  "shouldSendReset s =
     (getBeginString (m_sessionID s) \<ge> BeginString_FIX41 \<and>
      (m_resetOnLogon s \<or> m_resetOnLogout s \<or> m_resetOnDisconnect s) \<and>
      getExpectedSenderNum s = 1 \<and> getExpectedTargetNum s = 1)"

definition validLogonState :: "Session \<Rightarrow> string \<Rightarrow> bool" where
  "validLogonState s msgType =
     (let st = m_state s in
      if msgType = ''A'' \<and> m_sentReset st \<or> m_receivedReset st then True
      else if msgType = ''A'' \<and> \<not> m_receivedLogon st \<or> msgType \<noteq> ''A'' \<and> m_receivedLogon st then True
      else if msgType = ''5'' \<and> m_sentLogon st then True
      else if msgType \<noteq> ''5'' \<and> m_sentLogout st then True
      else if msgType = ''4'' then True
      else msgType = ''3'')"

section \<open>Reading and changing messages\<close>

definition set_header :: "FieldBase \<Rightarrow> Message \<Rightarrow> Message" where
  "set_header field message = message\<lparr>m_header := setField field (m_header message)\<rparr>"

definition set_body :: "FieldBase \<Rightarrow> Message \<Rightarrow> Message" where
  "set_body field message = message\<lparr>m_body := setField field (m_body message)\<rparr>"

definition remove_header :: "int \<Rightarrow> Message \<Rightarrow> Message" where
  "remove_header tag message = message\<lparr>m_header := removeField tag (m_header message)\<rparr>"

text \<open>\<open>getField<T>().getValue()\<close>, and \<open>getFieldIfSet\<close> into a field with a default.\<close>

definition field_of :: "(FieldBase \<Rightarrow> 'a result) \<Rightarrow> FieldMap \<Rightarrow> int \<Rightarrow> 'a result" where
  "field_of read m tag = rbind (getFieldRef m tag) read"

definition field_or :: "(FieldBase \<Rightarrow> 'a result) \<Rightarrow> 'a \<Rightarrow> FieldMap \<Rightarrow> int \<Rightarrow> 'a result" where
  "field_or read otherwise m tag = (case getFieldIfSet m tag of None \<Rightarrow> Ok otherwise | Some f \<Rightarrow> read f)"

abbreviation StringField_valueOf :: "FieldBase \<Rightarrow> string result" where
  "StringField_valueOf f \<equiv> Ok (m_string f)"

definition msg_type :: "Message \<Rightarrow> string result" where
  "msg_type message = field_of StringField_valueOf (m_header message) TAG_MsgType"

definition msg_seq_num :: "Message \<Rightarrow> SEQNUM result" where
  "msg_seq_num message = field_of UInt64Field_valueOf (m_header message) TAG_MsgSeqNum"

text \<open>The text of a time stamp field. A year of more than four digits would be written outside
  the buffer of the convertor; here it throws.\<close>

definition time_field :: "int \<Rightarrow> DateTime \<Rightarrow> int \<Rightarrow> FieldBase result" where
  "time_field tag t precision =
     rbind (of_option StdException (UtcTimeStampConvertor_string t precision)) (\<lambda>text. Ok (mk_FieldBase tag text))"

section \<open>Filling the header\<close>

definition insertSendingTime :: "Message \<Rightarrow> Message action" where
  "insertSendingTime message =
     ebind timestamper (\<lambda>now.
     ebind (egets getSupportedTimestampPrecision) (\<lambda>precision.
     ebind (elift (time_field TAG_SendingTime now precision)) (\<lambda>field.
     eret (set_header field message))))"

definition insertOrigSendingTime :: "DateTime \<Rightarrow> Message \<Rightarrow> Message action" where
  "insertOrigSendingTime now message =
     ebind (egets getSupportedTimestampPrecision) (\<lambda>precision.
     ebind (elift (time_field TAG_OrigSendingTime now precision)) (\<lambda>field.
     eret (set_header field message)))"

definition set_routing :: "SessionID \<Rightarrow> Message \<Rightarrow> Message" where
  "set_routing sid message =
     set_header (mk_FieldBase TAG_TargetCompID (getTargetCompID sid))
       (set_header (mk_FieldBase TAG_SenderCompID (getSenderCompID sid))
         (set_header (mk_FieldBase TAG_BeginString (getBeginString sid)) message))"

definition set_lastSentTime :: "unit action" where
  "set_lastSentTime = ebind timestamper (\<lambda>now. modify_state (\<lambda>st. st\<lparr>m_lastSentTime := now\<rparr>))"

definition fill :: "Message \<Rightarrow> Message action" where
  "fill message =
     ebind set_lastSentTime (\<lambda>_.
     ebind (egets (\<lambda>s. set_header (UInt64Field TAG_MsgSeqNum (getExpectedSenderNum s)) (set_routing (m_sessionID s) message)))
       insertSendingTime)"

text \<open>\<open>Message(headerOrder, trailerOrder, order)\<close>, and the orders a dictionary stores.\<close>

definition new_Message_orders :: "message_order \<Rightarrow> message_order \<Rightarrow> message_order \<Rightarrow> Message" where
  "new_Message_orders headerOrder' trailerOrder order =
     new_Message\<lparr>m_header := mk_FieldMap headerOrder', m_body := mk_FieldMap order, m_trailer := mk_FieldMap trailerOrder\<rparr>"

definition order_of :: "int list \<Rightarrow> message_order" where
  "order_of fs = (case setOrder fs of None \<Rightarrow> message_order_mode mode_normal | Some mo \<Rightarrow> mo)"

definition getHeaderOrderedFields :: "DataDictionary \<Rightarrow> message_order result" where
  "getHeaderOrderedFields d =
     (if m_headerOrderedFields (dd d) = [] then Throw ConfigError else Ok (order_of (m_headerOrderedFields (dd d))))"

definition getTrailerOrderedFields :: "DataDictionary \<Rightarrow> message_order result" where
  "getTrailerOrderedFields d =
     (if m_trailerOrderedFields (dd d) = [] then Throw ConfigError else Ok (order_of (m_trailerOrderedFields (dd d))))"

definition getMessageOrderedFields :: "DataDictionary \<Rightarrow> string \<Rightarrow> message_order result" where
  "getMessageOrderedFields d msgType =
     (case smap_find (m_messageOrderedFields (dd d)) msgType of
        None \<Rightarrow> Throw ConfigError
      | Some fs \<Rightarrow> Ok (order_of fs))"

definition ordered_message :: "DataDictionary \<Rightarrow> DataDictionary \<Rightarrow> string \<Rightarrow> Message result" where
  "ordered_message sessionDD messageDD msgType =
     rbind (getHeaderOrderedFields sessionDD) (\<lambda>headerOrder'.
     rbind (getTrailerOrderedFields sessionDD) (\<lambda>trailerOrder.
     rbind (getMessageOrderedFields messageDD msgType) (\<lambda>messageOrder.
     Ok (new_Message_orders headerOrder' trailerOrder messageOrder))))"

definition session_dd :: "Session \<Rightarrow> DataDictionary" where
  "session_dd s = getSessionDataDictionary (m_dataDictionaryProvider s) (getBeginString (m_sessionID s))"

definition application_dd :: "Session \<Rightarrow> string \<Rightarrow> DataDictionary" where
  "application_dd s applVerID = getApplicationDataDictionary (m_dataDictionaryProvider s) applVerID"

definition newMessage :: "string \<Rightarrow> Message action" where
  "newMessage msgType =
     ebind (egets (\<lambda>s.
       if \<not> m_storeMsgFieldsOrder (dd (session_dd s)) then Ok new_Message
       else if \<not> isFIXT (m_sessionID s) \<or> isAdminMsgType msgType
       then ordered_message (session_dd s) (session_dd s) msgType
       else ordered_message (session_dd s) (application_dd s (m_senderDefaultApplVerID s)) msgType)) (\<lambda>r.
     ebind (elift r) (\<lambda>message.
     eret (set_header (mk_FieldBase TAG_MsgType msgType) message)))"

section \<open>Sending\<close>

definition send_string :: "string \<Rightarrow> bool action" where
  "send_string text =
     ebind (egets m_pResponder) (\<lambda>responder.
     if \<not> responder then eret False else ebind (emit (Sent text)) (\<lambda>_. eret True))"

definition persist :: "Message \<Rightarrow> string \<Rightarrow> unit action" where
  "persist message messageString =
     ebind (elift (msg_seq_num message)) (\<lambda>msgSeqNum.
     ebind (egets m_persistMessages) (\<lambda>persistMessages. eseq [
       ewhen persistMessages (modify_state (state_set msgSeqNum messageString)),
       modify_state state_incrNextSender]))"

definition catch_IOException :: "'a action \<Rightarrow> 'a action \<Rightarrow> 'a action" where
  "catch_IOException m handler = ecatch m (\<lambda>e. if e = IOException then handler else ethrow e)"

text \<open>The message as the application left it, and whether it is to be sent.\<close>

definition prepareToSend :: "Message \<Rightarrow> SEQNUM \<Rightarrow> bool \<Rightarrow> (bool \<times> Message) action" where
  "prepareToSend message num admin =
     ebind (egets (\<lambda>s. set_routing (m_sessionID s) message)) (\<lambda>message.
     ebind (insertSendingTime (if num \<noteq> 0 then set_header (UInt64Field TAG_MsgSeqNum num) message
                               else remove_header TAG_MsgSeqNum message)) (\<lambda>message.
     catch_IOException
       (if admin then ebind (callback toAdmin message) (\<lambda>message. eret (True, message))
        else ebind (egets (\<lambda>s. \<not> isLoggedOn s \<and> shouldSendReset s)) (\<lambda>cleared.
          if cleared then eret (False, message)
          else ecatch (ebind (callback toApp message) (\<lambda>message. eret (True, message)))
                 (\<lambda>e. if e = DoNotSend then eret (False, message) else ethrow e)))
       (eret (False, message))))"

definition reset_state :: "unit action" where
  "reset_state = ebind timestamper (\<lambda>now. on_state (state_reset now))"

text \<open>A Logon with ResetSeqNumFlag resets the store before it is sent, unless it answers such a Logon.\<close>

definition logon_reset :: "string \<Rightarrow> Message \<Rightarrow> Message action" where
  "logon_reset msgType message =
     ebind (gets_state m_receivedReset) (\<lambda>receivedReset.
     if msgType = ''A'' \<and> \<not> receivedReset
     then ebind (elift (field_or BoolField_valueOf False (m_body message) TAG_ResetSeqNumFlag)) (\<lambda>flag.
       ebind (if flag
              then ebind reset_state (\<lambda>_. egets (\<lambda>s. set_header (UInt64Field TAG_MsgSeqNum (getExpectedSenderNum s)) message))
              else eret message) (\<lambda>message.
       ebind (modify_state (\<lambda>st. st\<lparr>m_sentReset := flag\<rparr>)) (\<lambda>_. eret message)))
     else eret message)"

definition sequence_out :: "Message \<Rightarrow> SEQNUM \<Rightarrow> string action" where
  "sequence_out message num =
     ebind (elift (Message_toString message)) (\<lambda>(text, message).
     ebind (ewhen (num = 0) (persist message text)) (\<lambda>_. eret text))"

definition sendSequenced :: "Message \<Rightarrow> SEQNUM \<Rightarrow> bool \<Rightarrow> bool action" where
  "sendSequenced message num admin =
     catch_IOException
      (ebind set_lastSentTime (\<lambda>_.
       ebind (egets (\<lambda>s. set_header (UInt64Field TAG_MsgSeqNum (if num \<noteq> 0 then num else getExpectedSenderNum s)) message)) (\<lambda>message.
       let msgType = (case getFieldIfSet (m_header message) TAG_MsgType of None \<Rightarrow> [] | Some f \<Rightarrow> m_string f) in
       if admin
       then ebind (logon_reset msgType message) (\<lambda>message.
         ebind (sequence_out message num) (\<lambda>text.
         ebind (egets isLoggedOn) (\<lambda>loggedOn.
         ebind (if msgType \<in> {''A'', ''5'', ''2'', ''4''} \<or> loggedOn then send_string text else eret False) (\<lambda>_.
         eret True))))
       else ebind (egets (\<lambda>s. \<not> isLoggedOn s \<and> shouldSendReset s)) (\<lambda>cleared.
         if cleared then eret False
         else ebind (sequence_out message num) (\<lambda>text.
           ebind (egets isLoggedOn) (\<lambda>loggedOn.
           ebind (if loggedOn then send_string text else eret False) (\<lambda>_. eret True)))))))
      (eret False)"

definition sendRaw :: "Message \<Rightarrow> SEQNUM \<Rightarrow> bool action" where
  "sendRaw message num =
     (let msgType = (case getFieldIfSet (m_header message) TAG_MsgType of None \<Rightarrow> [] | Some f \<Rightarrow> m_string f);
          admin = isAdminMsgType msgType in
      ebind (prepareToSend message num admin) (\<lambda>(ok, message).
      if \<not> ok then eret False else sendSequenced message num admin))"

definition Session_send :: "Message \<Rightarrow> bool action" where
  "Session_send message = sendRaw (remove_header TAG_OrigSendingTime (remove_header TAG_PossDupFlag message)) 0"

abbreviation send_ignoring :: "Message \<Rightarrow> SEQNUM \<Rightarrow> unit action" where
  "send_ignoring message num \<equiv> ebind (sendRaw message num) (\<lambda>_. eret ())"

section \<open>Disconnecting and resetting\<close>

definition disconnect :: "unit action" where
  "disconnect = eseq [
     ebind (egets m_pResponder) (\<lambda>responder.
       ewhen responder (eseq [emit Closed, emodify (\<lambda>s. s\<lparr>m_pResponder := False\<rparr>)])),
     ebind (gets_state (\<lambda>st. m_receivedLogon st \<or> m_sentLogon st)) (\<lambda>loggedOut.
       ewhen loggedOut (eseq [
         modify_state (\<lambda>st. st\<lparr>m_receivedLogon := False, m_sentLogon := False\<rparr>),
         emit LoggedOut])),
     modify_state (\<lambda>st. clearQueue (st\<lparr>m_sentLogout := False, m_receivedReset := False, m_sentReset := False\<rparr>)),
     ebind (egets m_resetOnDisconnect) (\<lambda>resetOnDisconnect. ewhen resetOnDisconnect reset_state),
     modify_state (\<lambda>st. st\<lparr>m_resendRange := (0, 0)\<rparr>)]"

definition refresh :: "unit action" where
  "refresh = ebind timestamper (\<lambda>now. on_state (state_refresh now))"

definition refresh_on_logon :: "unit action" where
  "refresh_on_logon = ebind (egets m_refreshOnLogon) (\<lambda>refreshOnLogon. ewhen refreshOnLogon refresh)"

end
