(* ===== verification/SessionMessages.thy ===== *)
theory SessionMessages
  imports Sessions
begin

text \<open>
  Session.cpp, second part: the messages a session generates.
\<close>

section \<open>Generated messages\<close>

abbreviation TAG_RefApplVerID :: int where "TAG_RefApplVerID \<equiv> 1130"

definition incrNextTarget :: "unit action" where
  "incrNextTarget = modify_state state_incrNextTarget"

definition generateLogon :: "unit action" where
  "generateLogon =
     ebind (newMessage ''A'') (\<lambda>logon.
     ebind (egets (\<lambda>s. set_body (m_heartBtInt (m_state s)) (set_body (IntField TAG_EncryptMethod 0) logon))) (\<lambda>logon.
     ebind (egets (\<lambda>s. if isFIXT (m_sessionID s)
         then set_body (mk_FieldBase TAG_DefaultApplVerID (m_senderDefaultApplVerID s)) logon else logon)) (\<lambda>logon.
     ebind refresh_on_logon (\<lambda>_.
     ebind (ebind (egets m_resetOnLogon) (\<lambda>b. ewhen b reset_state)) (\<lambda>_.
     ebind (egets (\<lambda>s. if shouldSendReset s then set_body (BoolField TAG_ResetSeqNumFlag True) logon else logon)) (\<lambda>logon.
     ebind (egets (\<lambda>s. if m_sendNextExpectedMsgSeqNum s
         then set_body (UInt64Field TAG_NextExpectedMsgSeqNum (getExpectedTargetNum s)) logon else logon)) (\<lambda>logon.
     ebind (fill logon) (\<lambda>logon.
     ebind timestamper (\<lambda>now.
     ebind (modify_state (\<lambda>st. st\<lparr>m_lastReceivedTime := now, m_testRequest := 0, m_sentLogon := True\<rparr>)) (\<lambda>_.
     send_ignoring logon 0))))))))))"

definition generateLogon_reply :: "Message \<Rightarrow> unit action" where
  "generateLogon_reply aLogon =
     ebind (newMessage ''A'') (\<lambda>logon.
     ebind (egets (\<lambda>s. if isFIXT (m_sessionID s)
         then set_body (mk_FieldBase TAG_DefaultApplVerID (m_senderDefaultApplVerID s)) (set_body (IntField TAG_EncryptMethod 0) logon)
         else set_body (IntField TAG_EncryptMethod 0) logon)) (\<lambda>logon.
     ebind (egets (\<lambda>s. if m_receivedReset (m_state s) then set_body (BoolField TAG_ResetSeqNumFlag True) logon else logon)) (\<lambda>logon.
     ebind (elift (getFieldRef (m_body aLogon) TAG_HeartBtInt)) (\<lambda>heartBtInt.
     ebind (egets (\<lambda>s. if m_sendNextExpectedMsgSeqNum s
         then set_body (UInt64Field TAG_NextExpectedMsgSeqNum (getExpectedTargetNum s + 1)) (set_body heartBtInt logon)
         else set_body heartBtInt logon)) (\<lambda>logon.
     ebind (fill logon) (\<lambda>logon.
     ebind (send_ignoring logon 0) (\<lambda>_.
     modify_state (\<lambda>st. st\<lparr>m_sentLogon := True\<rparr>))))))))"

text \<open>\<open>BeginSeqNo((int)getExpectedTargetNum())\<close>: the low 32 bits, sign extended.\<close>

definition narrowed :: "SEQNUM \<Rightarrow> SEQNUM" where
  "narrowed n = word_of_int (to_int32 (uint n))"

definition generateResendRequest :: "string \<Rightarrow> SEQNUM \<Rightarrow> unit action" where
  "generateResendRequest beginString msgSeqNum =
     ebind (newMessage ''2'') (\<lambda>resendRequest.
     ebind (egets (\<lambda>s. narrowed (getExpectedTargetNum s))) (\<lambda>beginSeqNo.
     let endSeqNo = (if beginString \<ge> BeginString_FIX42 then 0
                     else if beginString \<le> BeginString_FIX41 then 999999 else msgSeqNum - 1) in
     ebind (fill (set_body (UInt64Field TAG_EndSeqNo endSeqNo) (set_body (UInt64Field TAG_BeginSeqNo beginSeqNo) resendRequest)))
       (\<lambda>resendRequest. ebind (send_ignoring resendRequest 0) (\<lambda>_.
     modify_state (\<lambda>st. st\<lparr>m_resendRange := (beginSeqNo, msgSeqNum - 1)\<rparr>)))))"

definition newSequenceReset :: "SEQNUM \<Rightarrow> SEQNUM \<Rightarrow> Message action" where
  "newSequenceReset beginSeqNo endSeqNo =
     ebind (newMessage ''4'') (\<lambda>sequenceReset.
     ebind (fill (set_body (UInt64Field TAG_NewSeqNo endSeqNo) (set_header (BoolField TAG_PossDupFlag True) sequenceReset)))
       (\<lambda>sequenceReset.
     ebind (elift (field_of UtcTimeStampField_valueOf (m_header sequenceReset) TAG_SendingTime)) (\<lambda>sendingTime.
     ebind (insertOrigSendingTime sendingTime sequenceReset) (\<lambda>sequenceReset.
     eret (set_body (BoolField TAG_GapFillFlag True) (set_header (UInt64Field TAG_MsgSeqNum beginSeqNo) sequenceReset))))))"

definition generateSequenceReset :: "SEQNUM \<Rightarrow> SEQNUM \<Rightarrow> unit action" where
  "generateSequenceReset beginSeqNo endSeqNo =
     ebind (newSequenceReset beginSeqNo endSeqNo) (\<lambda>sequenceReset. send_ignoring sequenceReset beginSeqNo)"

definition generateHeartbeat :: "unit action" where
  "generateHeartbeat = ebind (newMessage ''0'') (\<lambda>heartbeat. ebind (fill heartbeat) (\<lambda>heartbeat. send_ignoring heartbeat 0))"

definition generateHeartbeat_reply :: "Message \<Rightarrow> unit action" where
  "generateHeartbeat_reply testRequest =
     ebind (newMessage ''0'') (\<lambda>heartbeat.
     ebind (fill heartbeat) (\<lambda>heartbeat.
     send_ignoring (case getFieldIfSet (m_body testRequest) TAG_TestReqID of
         None \<Rightarrow> heartbeat
       | Some f \<Rightarrow> set_body f heartbeat) 0))"

definition generateTestRequest :: "string \<Rightarrow> unit action" where
  "generateTestRequest id' =
     ebind (newMessage ''1'') (\<lambda>testRequest.
     ebind (fill testRequest) (\<lambda>testRequest.
     send_ignoring (set_body (mk_FieldBase TAG_TestReqID id') testRequest) 0))"

definition session_reject_text :: "int \<Rightarrow> string option" where
  "session_reject_text err =
     (if err = 0 then Some ''Invalid tag number'' else if err = 1 then Some ''Required tag missing''
      else if err = 2 then Some ''Tag not defined for this message type''
      else if err = 4 then Some ''Tag specified without a value''
      else if err = 5 then Some ''Value is incorrect (out of range) for this tag''
      else if err = 6 then Some ''Incorrect data format for value''
      else if err = 9 then Some ''CompID problem'' else if err = 10 then Some ''SendingTime accuracy problem''
      else if err = 11 then Some ''Invalid MsgType'' else if err = 13 then Some ''Tag appears more than once''
      else if err = 14 then Some ''Tag specified out of required order''
      else if err = 16 then Some ''Incorrect NumInGroup count for repeating group'' else None)"

definition business_reject_text :: "int \<Rightarrow> string option" where
  "business_reject_text err =
     (if err = 0 then Some ''Other'' else if err = 1 then Some ''Unknown ID''
      else if err = 2 then Some ''Unknown Security'' else if err = 3 then Some ''Unsupported Message Type''
      else if err = 4 then Some ''Application Not Available''
      else if err = 5 then Some ''Conditionally Required Field Missing''
      else if err = 6 then Some ''Not Authorized''
      else if err = 7 then Some ''Deliver to firm not available at this time'' else None)"

definition populateRejectReason :: "Session \<Rightarrow> int \<Rightarrow> string \<Rightarrow> Message \<Rightarrow> Message result" where
  "populateRejectReason s field text reject =
     rbind (msg_type reject) (\<lambda>msgType.
     if msgType = ''3'' \<and> getBeginString (m_sessionID s) \<ge> BeginString_FIX42
     then Ok (set_body (mk_FieldBase TAG_Text text) (set_body (IntField TAG_RefTagID field) reject))
     else Ok (set_body (mk_FieldBase TAG_Text (text @ '' ('' @ integer_to_string field @ '')'')) reject))"

definition reject_reason :: "string option \<Rightarrow> bool \<Rightarrow> int \<Rightarrow> Message \<Rightarrow> Message action" where
  "reject_reason reason named field reject =
     (case reason of
        None \<Rightarrow> eret reject
      | Some text \<Rightarrow>
          if named then ebind (egets (\<lambda>s. populateRejectReason s field text reject)) elift
          else eret (set_body (mk_FieldBase TAG_Text text) reject))"

text \<open>The number of a rejected message counts as received when it is the expected one.\<close>

definition count_rejected :: "string \<Rightarrow> SEQNUM result \<Rightarrow> unit action" where
  "count_rejected msgType msgSeqNum =
     (if msgType \<noteq> ''A'' \<and> msgType \<noteq> ''4''
      then ebind (elift msgSeqNum) (\<lambda>n.
        ebind (egets getExpectedTargetNum) (\<lambda>expected. ewhen (n = expected) incrNextTarget))
      else eret ())"

definition require_logon :: "unit action" where
  "require_logon = ebind (gets_state m_receivedLogon) (\<lambda>b. ewhen (\<not> b) (ethrow RuntimeError))"

definition generateReject :: "Message \<Rightarrow> int \<Rightarrow> int \<Rightarrow> unit action" where
  "generateReject message err field =
     ebind (egets (\<lambda>s. getBeginString (m_sessionID s))) (\<lambda>beginString.
     ebind (newMessage ''3'') (\<lambda>reject.
     ebind (fill (reverseRoute (m_header message) reject)) (\<lambda>reject.
     ebind (elift (msg_type message)) (\<lambda>msgType.
     let seqField = getFieldIfSet (m_header message) TAG_MsgSeqNum;
         msgSeqNum = UInt64Field_valueOf (case seqField of None \<Rightarrow> mk_FieldBase TAG_MsgSeqNum [] | Some f \<Rightarrow> f) in
     ebind (case seqField of
         None \<Rightarrow> eret reject
       | Some f \<Rightarrow> if m_string f = [] then eret reject
           else ebind (elift msgSeqNum) (\<lambda>n. eret (set_body (UInt64Field TAG_RefSeqNum n) reject))) (\<lambda>reject.
     let reject = (if beginString \<ge> BeginString_FIX42 \<and> msgType \<noteq> [] then set_body (mk_FieldBase TAG_RefMsgType msgType) reject
                   else reject);
         reject = (if beginString = BeginString_FIX42 \<and> err \<le> 11 \<or> beginString > BeginString_FIX42
                   then set_body (IntField TAG_SessionRejectReason err) reject else reject) in
     ebind (count_rejected msgType msgSeqNum) (\<lambda>_.
     ebind (reject_reason (session_reject_text err) (field \<noteq> 0 \<or> err = 0) field reject) (\<lambda>reject.
     ebind require_logon (\<lambda>_.
     send_ignoring reject 0))))))))"

definition generateReject_text :: "Message \<Rightarrow> string \<Rightarrow> int \<Rightarrow> unit action" where
  "generateReject_text message text field =
     ebind (egets (\<lambda>s. getBeginString (m_sessionID s))) (\<lambda>beginString.
     ebind (newMessage ''3'') (\<lambda>reject.
     ebind (fill (reverseRoute (m_header message) reject)) (\<lambda>reject.
     ebind (elift (msg_type message)) (\<lambda>msgType.
     ebind (elift (getFieldRef (m_header message) TAG_MsgSeqNum)) (\<lambda>seqField.
     let reject = (if beginString \<ge> BeginString_FIX42 then set_body (mk_FieldBase TAG_RefMsgType msgType) reject else reject) in
     ebind (elift (UInt64Field_valueOf seqField)) (\<lambda>n.
     ebind (count_rejected msgType (Ok n)) (\<lambda>_.
     ebind (reject_reason (Some text) (field \<noteq> 0) field (set_body (UInt64Field TAG_RefSeqNum n) reject)) (\<lambda>reject.
     ebind require_logon (\<lambda>_.
     send_ignoring reject 0)))))))))"

definition rejectDefinesRefApplVerID :: "string \<Rightarrow> bool" where
  "rejectDefinesRefApplVerID applVerID = (case IntConvertor applVerID of None \<Rightarrow> False | Some version \<Rightarrow> version \<ge> 8)"

definition generateBusinessReject :: "Message \<Rightarrow> int \<Rightarrow> int \<Rightarrow> unit action" where
  "generateBusinessReject message err field =
     ebind (newMessage ''j'') (\<lambda>reject.
     ebind (elift (getFieldRef (m_header message) TAG_MsgSeqNum)) (\<lambda>seqField.
     ebind (egets (\<lambda>s. if isFIXT (m_sessionID s) \<and> rejectDefinesRefApplVerID (m_senderDefaultApplVerID s)
         then set_body (mk_FieldBase TAG_RefApplVerID
           (case getFieldIfSet (m_header message) TAG_ApplVerID of None \<Rightarrow> m_targetDefaultApplVerID s | Some f \<Rightarrow> m_string f)) reject
         else reject)) (\<lambda>reject.
     ebind (fill reject) (\<lambda>reject.
     ebind (elift (msg_type message)) (\<lambda>msgType.
     ebind (elift (UInt64Field_valueOf seqField)) (\<lambda>n.
     ebind incrNextTarget (\<lambda>_.
     ebind (reject_reason (business_reject_text err) (field \<noteq> 0) field
         (set_body (IntField TAG_BusinessRejectReason err) (set_body (UInt64Field TAG_RefSeqNum n)
           (set_body (mk_FieldBase TAG_RefMsgType msgType) reject)))) (\<lambda>reject.
     send_ignoring reject 0))))))))"

definition generateLogout :: "string \<Rightarrow> unit action" where
  "generateLogout text =
     ebind (newMessage ''5'') (\<lambda>logout.
     ebind (fill logout) (\<lambda>logout.
     ebind (send_ignoring (if text \<noteq> [] then set_body (mk_FieldBase TAG_Text text) logout else logout) 0) (\<lambda>_.
     modify_state (\<lambda>st. st\<lparr>m_sentLogout := True\<rparr>))))"

definition Session_reset :: "unit action" where
  "Session_reset = eseq [generateLogout [], disconnect, reset_state]"

end
