(* ===== verification/SessionHandlers.thy ===== *)
theory SessionHandlers
  imports SessionMessages
begin

text \<open>
  Session.cpp, third part: the checks on incoming messages, retransmission, the handlers and the timer.

  A handler processes queued messages, each of which goes through \<open>next\<close> again. The handlers take this step
  as the argument \<open>drain_queue\<close>, and \<open>nextQueued\<close> closes the loop with fuel; every round removes a message from the
  queue, so fuel above its length is never used up (\<open>SessionTermination\<close>).
\<close>

section \<open>Checks on incoming messages\<close>

definition doBadTime :: "Message \<Rightarrow> unit action" where
  "doBadTime msg = eseq [generateReject msg 10 0, generateLogout []]"

definition doBadCompID :: "Message \<Rightarrow> unit action" where
  "doBadCompID msg = eseq [generateReject msg 9 0, generateLogout []]"

definition doPossDup :: "Message \<Rightarrow> bool action" where
  "doPossDup msg =
     ebind timestamper (\<lambda>_.
     ebind (elift (msg_type msg)) (\<lambda>msgType.
     ebind (elift (getFieldRef (m_header msg) TAG_SendingTime)) (\<lambda>sendingField.
     if msgType \<noteq> ''4''
     then (case getFieldIfSet (m_header msg) TAG_OrigSendingTime of
         None \<Rightarrow> ebind (generateReject msg 1 TAG_OrigSendingTime) (\<lambda>_. eret False)
       | Some origField \<Rightarrow>
           ebind (elift (UtcTimeStampField_valueOf origField)) (\<lambda>origSendingTime.
           ebind (elift (UtcTimeStampField_valueOf sendingField)) (\<lambda>sendingTime.
           if dt_gt origSendingTime sendingTime
           then ebind (generateReject msg 10 0) (\<lambda>_. ebind (generateLogout []) (\<lambda>_. eret False))
           else eret True)))
     else eret True)))"

text \<open>A field is printed as its text.\<close>

definition too_low_text :: "SEQNUM \<Rightarrow> string \<Rightarrow> string" where
  "too_low_text expected received =
     ''MsgSeqNum too low, expecting '' @ SEQNUM_string expected @ '' but received '' @ received"

definition doTargetTooLow :: "Message \<Rightarrow> bool action" where
  "doTargetTooLow msg =
     ebind (elift (getFieldRef (m_header msg) TAG_MsgSeqNum)) (\<lambda>seqField.
     ebind (elift (field_or BoolField_valueOf False (m_header msg) TAG_PossDupFlag)) (\<lambda>possDupFlag.
     if \<not> possDupFlag
     then ebind (egets getExpectedTargetNum) (\<lambda>expected.
       ebind (generateLogout (too_low_text expected (m_string seqField))) (\<lambda>_. ethrow StdException))
     else doPossDup msg))"

definition doTargetTooHigh :: "Message \<Rightarrow> unit action" where
  "doTargetTooHigh msg =
     ebind (elift (field_of StringField_valueOf (m_header msg) TAG_BeginString)) (\<lambda>beginString.
     ebind (elift (msg_seq_num msg)) (\<lambda>msgSeqNum.
     ebind (modify_state (queue_message msgSeqNum msg)) (\<lambda>_.
     ebind (egets (\<lambda>s. resendRequested (m_state s) \<and> \<not> m_sendRedundantResendRequests s \<and>
         msgSeqNum \<ge> fst (m_resendRange (m_state s)))) (\<lambda>alreadySent.
     if alreadySent then eret () else generateResendRequest beginString msgSeqNum))))"

definition isGoodTime :: "FieldBase \<Rightarrow> bool action" where
  "isGoodTime sendingTime =
     ebind (egets m_checkLatency) (\<lambda>checkLatency.
     if \<not> checkLatency then eret True
     else ebind timestamper (\<lambda>now.
       ebind (elift (UtcTimeStampField_valueOf sendingTime)) (\<lambda>t.
       egets (\<lambda>s. \<bar>dt_minus now t\<bar> \<le> m_maxLatency s))))"

definition fromCallback :: "string \<Rightarrow> Message \<Rightarrow> unit action" where
  "fromCallback msgType msg =
     (if isAdminMsgType msgType then ebind (emit (FromAdmin msg)) (\<lambda>_. callback fromAdmin msg)
      else ebind (emit (FromApp msg)) (\<lambda>_. callback fromApp msg))"

text \<open>A resend request is satisfied when a message at or past the end of its range arrives.\<close>

definition satisfy_resend :: "SEQNUM \<Rightarrow> SessionState \<Rightarrow> SessionState" where
  "satisfy_resend msgSeqNum st =
     (if resendRequested st \<and> msgSeqNum \<ge> snd (m_resendRange st) then st\<lparr>m_resendRange := (0, 0)\<rparr> else st)"

definition verify_number :: "Message \<Rightarrow> bool \<Rightarrow> bool \<Rightarrow> SEQNUM \<Rightarrow> bool action" where
  "verify_number msg checkTooHigh checkTooLow msgSeqNum =
     ebind (egets (\<lambda>s. (isTargetTooHigh s msgSeqNum, isTargetTooLow s msgSeqNum))) (\<lambda>(tooHigh, tooLow).
     if checkTooHigh \<and> tooHigh then ebind (doTargetTooHigh msg) (\<lambda>_. eret False)
     else if checkTooLow \<and> tooLow then ebind (doTargetTooLow msg) (\<lambda>_. eret False)
     else ebind (ewhen (checkTooHigh \<or> checkTooLow) (modify_state (satisfy_resend msgSeqNum))) (\<lambda>_. eret True))"

definition verify_checks :: "Message \<Rightarrow> bool \<Rightarrow> bool \<Rightarrow> bool action" where
  "verify_checks msg checkTooHigh checkTooLow =
     ebind (elift (msg_type msg)) (\<lambda>msgType.
     ebind (elift (field_of StringField_valueOf (m_header msg) TAG_SenderCompID)) (\<lambda>senderCompID.
     ebind (elift (field_of StringField_valueOf (m_header msg) TAG_TargetCompID)) (\<lambda>targetCompID.
     ebind (elift (getFieldRef (m_header msg) TAG_SendingTime)) (\<lambda>sendingTime.
     ebind (if checkTooHigh \<or> checkTooLow then elift (msg_seq_num msg) else eret 0) (\<lambda>msgSeqNum.
     ebind (egets (\<lambda>s. validLogonState s msgType)) (\<lambda>valid.
     if \<not> valid then ethrow StdException
     else ebind (isGoodTime sendingTime) (\<lambda>good.
       if \<not> good then ebind (doBadTime msg) (\<lambda>_. eret False)
       else ebind (egets (\<lambda>s. isCorrectCompID s senderCompID targetCompID)) (\<lambda>correct.
         if \<not> correct then ebind (doBadCompID msg) (\<lambda>_. eret False)
         else verify_number msg checkTooHigh checkTooLow msgSeqNum))))))))"

definition verify :: "Message \<Rightarrow> bool \<Rightarrow> bool \<Rightarrow> bool action" where
  "verify msg checkTooHigh checkTooLow =
     ebind (ecatch (verify_checks msg checkTooHigh checkTooLow) (\<lambda>e. ebind disconnect (\<lambda>_. eret False))) (\<lambda>ok.
     if \<not> ok then eret False
     else ebind timestamper (\<lambda>now.
       ebind (modify_state (\<lambda>st. st\<lparr>m_lastReceivedTime := now, m_testRequest := 0\<rparr>)) (\<lambda>_.
       ebind (elift (msg_type msg)) (\<lambda>msgType.
       ebind (fromCallback msgType msg) (\<lambda>_. eret True)))))"

section \<open>Retransmission\<close>

definition Session_resend :: "Message \<Rightarrow> (bool \<times> Message) action" where
  "Session_resend message =
     ebind (elift (getFieldRef (m_header message) TAG_SendingTime)) (\<lambda>sendingField.
     ebind (elift (getFieldRef (m_header message) TAG_MsgSeqNum)) (\<lambda>_.
     ebind (elift (UtcTimeStampField_valueOf sendingField)) (\<lambda>sendingTime.
     ebind (insertOrigSendingTime sendingTime message) (\<lambda>message.
     ebind (insertSendingTime (set_header (BoolField TAG_PossDupFlag True) message)) (\<lambda>message.
     ecatch (ebind (callback toApp message) (\<lambda>message. eret (True, message)))
       (\<lambda>e. if e = DoNotSend then eret (False, message) else ethrow e))))))"

text \<open>The decoder returns on every text (\<open>setString_total\<close>), so the case of no result does not arise.\<close>

definition decoded :: "'a result option \<Rightarrow> 'a result" where
  "decoded r = (case r of None \<Rightarrow> Throw InvalidMessage | Some x \<Rightarrow> x)"

text \<open>The MsgType in the text of a stored message: \<open>npos + 4\<close> wraps to 3 when there is none.\<close>

definition stored_type :: "string \<Rightarrow> string result" where
  "stored_type text =
     (let equalSign = (case str_find ([SOH] @ ''35='') text 0 of None \<Rightarrow> 3 | Some p \<Rightarrow> p + 4) in
      if equalSign > length text then Throw StdException
      else case str_find [SOH] text equalSign of
        None \<Rightarrow> Ok (drop equalSign text)
      | Some soh \<Rightarrow> Ok (substr text equalSign soh))"

definition decode_stored :: "Session \<Rightarrow> string \<Rightarrow> Message result" where
  "decode_stored s text =
     (let sessionDD = session_dd s; check = m_validateLengthAndChecksum s in
      rbind (if m_storeMsgFieldsOrder (dd sessionDD) then stored_type text else Ok []) (\<lambda>strMsgType.
      if isFIXT (m_sessionID s)
      then rbind (decoded (setStringHeader text new_Message)) (\<lambda>(_, hdr).
        let applVerID = (case getFieldIfSet (m_header hdr) TAG_ApplVerID of
                None \<Rightarrow> m_senderDefaultApplVerID s | Some f \<Rightarrow> m_string f);
            applicationDD = application_dd s applVerID in
        if strMsgType = [] then decoded (setString text check (Some sessionDD) (Some applicationDD) new_Message)
        else rbind (ordered_message sessionDD applicationDD strMsgType) (\<lambda>m.
          rbind (decoded (setStringHeader text m)) (\<lambda>(_, m).
          decoded (setString text check (Some sessionDD)
            (Some (if Message_isAdmin m then sessionDD else applicationDD)) m))))
      else if strMsgType = [] then decoded (setString text check (Some sessionDD) (Some sessionDD) new_Message)
      else rbind (ordered_message sessionDD sessionDD strMsgType) (\<lambda>m.
        decoded (setString text check (Some sessionDD) (Some sessionDD) m))))"

record Retransmit =
  rt_message :: Message
  rt_gapFillSeqNum :: SEQNUM

record retransmit_state =
  rs_begin :: SEQNUM
  rs_current :: SEQNUM
  rs_msgSeqNum :: SEQNUM
  rs_appMessageJustSent :: bool
  rs_retransmits :: "Retransmit list"

definition addSequenceReset :: "SEQNUM \<Rightarrow> SEQNUM \<Rightarrow> retransmit_state \<Rightarrow> retransmit_state action" where
  "addSequenceReset gapBegin gapEnd rs =
     ebind (newSequenceReset gapBegin gapEnd) (\<lambda>sequenceReset.
     ebind (prepareToSend sequenceReset gapBegin True) (\<lambda>(ok, sequenceReset).
     eret (if ok then rs\<lparr>rs_retransmits := rs_retransmits rs @ [\<lparr>rt_message = sequenceReset, rt_gapFillSeqNum = gapBegin\<rparr>]\<rparr>
           else rs)))"

text \<open>One stored message: admin messages and those the application withholds extend the gap, others
  end it.\<close>

definition retransmit_one :: "string \<Rightarrow> retransmit_state \<Rightarrow> retransmit_state action" where
  "retransmit_one text rs =
     ebind (egets (\<lambda>s. decode_stored s text)) (\<lambda>r. ebind (elift r) (\<lambda>msg.
     ebind (elift (getFieldRef (m_header msg) TAG_MsgSeqNum)) (\<lambda>seqField.
     ebind (elift (msg_type msg)) (\<lambda>msgType.
     ebind (elift (UInt64Field_valueOf seqField)) (\<lambda>n.
     let gap = (if rs_current rs \<noteq> n \<and> rs_begin rs = 0 then rs_current rs else rs_begin rs);
         rs = rs\<lparr>rs_begin := gap, rs_msgSeqNum := n, rs_appMessageJustSent := False, rs_current := n + 1\<rparr>;
         extended = rs\<lparr>rs_begin := (if gap = 0 then n else gap)\<rparr> in
     if isAdminMsgType msgType then eret extended
     else ebind (Session_resend msg) (\<lambda>(ok, msg).
       if \<not> ok then eret extended
       else ebind (if gap \<noteq> 0 then addSequenceReset gap n rs else eret rs) (\<lambda>rs.
         eret (rs\<lparr>rs_retransmits := rs_retransmits rs @ [\<lparr>rt_message = msg, rt_gapFillSeqNum = 0\<rparr>],
                  rs_begin := 0, rs_appMessageJustSent := True\<rparr>))))))))"

primrec retransmit_all :: "string list \<Rightarrow> retransmit_state \<Rightarrow> retransmit_state action" where
  "retransmit_all [] rs = eret rs"
| "retransmit_all (text # texts) rs = ebind (retransmit_one text rs) (retransmit_all texts)"

definition transmit :: "Retransmit \<Rightarrow> unit action" where
  "transmit r =
     (if rt_gapFillSeqNum r \<noteq> 0 then ebind (sendSequenced (rt_message r) (rt_gapFillSeqNum r) True) (\<lambda>_. eret ())
      else ebind (elift (Message_toString (rt_message r))) (\<lambda>(text, _). ebind (send_string text) (\<lambda>_. eret ())))"

definition generateRetransmits :: "SEQNUM \<Rightarrow> SEQNUM \<Rightarrow> unit action" where
  "generateRetransmits beginSeqNo endSeqNo =
     ebind (gets_state (state_get beginSeqNo endSeqNo)) (\<lambda>r. ebind (elift r) (\<lambda>messages.
     ebind (egets getExpectedSenderNum) (\<lambda>nextSenderMsgSeqNum.
     ebind (retransmit_all messages \<lparr>rs_begin = 0, rs_current = beginSeqNo, rs_msgSeqNum = 0,
         rs_appMessageJustSent = False, rs_retransmits = []\<rparr>) (\<lambda>rs.
     ebind (if rs_begin rs \<noteq> 0 then addSequenceReset (rs_begin rs) (rs_msgSeqNum rs + 1) rs else eret rs) (\<lambda>rs.
     ebind (if endSeqNo > rs_msgSeqNum rs
            then addSequenceReset (if rs_appMessageJustSent rs then rs_msgSeqNum rs + 1 else beginSeqNo)
              (if endSeqNo + 1 > nextSenderMsgSeqNum then nextSenderMsgSeqNum else endSeqNo + 1) rs
            else eret rs) (\<lambda>rs.
     eseq (map transmit (rs_retransmits rs))))))))"

section \<open>Handlers\<close>

definition next_expected_text :: "SEQNUM \<Rightarrow> string \<Rightarrow> string" where
  "next_expected_text expected received =
     ''NextExpectedMsgSeqNum too high, expecting '' @ SEQNUM_string expected @ '' but received '' @ received"

text \<open>Without persisted messages a single gap fill answers a resend request.\<close>

definition answer_resend :: "SEQNUM \<Rightarrow> SEQNUM \<Rightarrow> unit action" where
  "answer_resend beginSeqNo endSeqNo =
     ebind (egets m_persistMessages) (\<lambda>persistMessages.
     if \<not> persistMessages
     then ebind (egets getExpectedSenderNum) (\<lambda>next'.
       generateSequenceReset beginSeqNo (if endSeqNo + 1 > next' then next' else endSeqNo + 1))
     else generateRetransmits beginSeqNo endSeqNo)"

text \<open>\<open>nextLogon\<close> from the point where the Logon is answered.\<close>

definition logon_response :: "unit action \<Rightarrow> Message \<Rightarrow> bool \<Rightarrow> SEQNUM option \<Rightarrow> unit action" where
  "logon_response drain_queue logon resetSeqNumFlag retransmitFrom = eseq [
     ebind (gets_state (\<lambda>st. \<not> m_initiate st \<or> m_receivedReset st \<and> \<not> m_sentReset st)) (\<lambda>answer.
       ewhen answer (eseq [
         modify_state (\<lambda>st. case getFieldIfSet (m_body logon) TAG_HeartBtInt of None \<Rightarrow> st | Some f \<Rightarrow> st\<lparr>m_heartBtInt := f\<rparr>),
         generateLogon_reply logon])),
     modify_state (\<lambda>st. st\<lparr>m_sentReset := False, m_receivedReset := False\<rparr>),
     ebind (elift (msg_seq_num logon)) (\<lambda>msgSeqNum.
       ebind (egets (\<lambda>s. isTargetTooHigh s msgSeqNum)) (\<lambda>tooHigh.
       if tooHigh \<and> \<not> resetSeqNumFlag
       then ebind (egets m_sendNextExpectedMsgSeqNum) (\<lambda>expectRetransmits.
         if expectRetransmits
         then modify_state (\<lambda>st. (queue_message msgSeqNum logon st)\<lparr>m_resendRange := (state_nextTarget st, msgSeqNum - 1)\<rparr>)
         else doTargetTooHigh logon)
       else eseq [incrNextTarget, drain_queue])),
     ebind (egets isLoggedOn) (\<lambda>loggedOn. ewhen loggedOn (emit LoggedOn)),
     (case retransmitFrom of
        None \<Rightarrow> eret ()
      | Some beginSeqNo \<Rightarrow> ebind (egets getExpectedSenderNum) (\<lambda>n. answer_resend beginSeqNo (n - 1)))]"

definition logon_accepted :: "unit action \<Rightarrow> Message \<Rightarrow> bool \<Rightarrow> unit action" where
  "logon_accepted drain_queue logon resetSeqNumFlag =
     ebind (modify_state (\<lambda>st. st\<lparr>m_receivedLogon := True\<rparr>)) (\<lambda>_.
     case getFieldIfSet (m_body logon) TAG_NextExpectedMsgSeqNum of
       None \<Rightarrow> logon_response drain_queue logon resetSeqNumFlag None
     | Some f \<Rightarrow>
         ebind (elift (UInt64Field_valueOf f)) (\<lambda>nextExpected.
         ebind (egets getExpectedSenderNum) (\<lambda>expected.
         if nextExpected < expected then logon_response drain_queue logon resetSeqNumFlag (Some nextExpected)
         else if nextExpected > expected then eseq [generateLogout (next_expected_text expected (m_string f)), disconnect]
         else logon_response drain_queue logon resetSeqNumFlag None)))"

definition nextLogon :: "unit action \<Rightarrow> Message \<Rightarrow> DateTime \<Rightarrow> unit action" where
  "nextLogon drain_queue logon now =
     ebind (elift (getFieldRef (m_header logon) TAG_SenderCompID)) (\<lambda>_.
     ebind (elift (getFieldRef (m_header logon) TAG_TargetCompID)) (\<lambda>_.
     ebind refresh_on_logon (\<lambda>_.
     ebind (egets (\<lambda>s. isEnabled s \<and> isLogonTime s now)) (\<lambda>allowed.
     if \<not> allowed then disconnect
     else ebind (elift (field_or BoolField_valueOf False (m_body logon) TAG_ResetSeqNumFlag)) (\<lambda>resetSeqNumFlag.
       ebind (modify_state (\<lambda>st. st\<lparr>m_receivedReset := resetSeqNumFlag\<rparr>)) (\<lambda>_.
       ebind (gets_state (\<lambda>st. shouldSendLogon st \<and> \<not> m_receivedReset st)) (\<lambda>early.
       if early then disconnect
       else ebind (egets (\<lambda>s. m_receivedReset (m_state s) \<and> \<not> m_sentReset (m_state s) \<or>
             \<not> m_initiate (m_state s) \<and> m_resetOnLogon s)) (\<lambda>resetting.
         ebind (verify logon False (\<not> resetting)) (\<lambda>ok.
         if \<not> ok then eret ()
         else if resetting
         then ebind reset_state (\<lambda>_.
           ebind (elift (msg_seq_num logon)) (\<lambda>msgSeqNum.
           ebind (egets (\<lambda>s. isTargetTooLow s msgSeqNum)) (\<lambda>tooLow.
           if tooLow then ebind (doTargetTooLow logon) (\<lambda>_. eret ())
           else logon_accepted drain_queue logon resetSeqNumFlag)))
         else logon_accepted drain_queue logon resetSeqNumFlag)))))))))"

definition nextHeartbeat :: "unit action \<Rightarrow> Message \<Rightarrow> unit action" where
  "nextHeartbeat drain_queue heartbeat =
     ebind (verify heartbeat True True) (\<lambda>ok. ewhen ok (eseq [incrNextTarget, drain_queue]))"

definition nextTestRequest :: "unit action \<Rightarrow> Message \<Rightarrow> unit action" where
  "nextTestRequest drain_queue testRequest =
     ebind (verify testRequest True True) (\<lambda>ok.
     ewhen ok (eseq [generateHeartbeat_reply testRequest, incrNextTarget, drain_queue]))"

definition nextLogout :: "Message \<Rightarrow> unit action" where
  "nextLogout logout =
     ebind (verify logout False False) (\<lambda>ok. ewhen ok (eseq [
       ebind (gets_state m_sentLogout) (\<lambda>sent. ewhen (\<not> sent) (generateLogout [])),
       incrNextTarget,
       ebind (egets m_resetOnLogout) (\<lambda>b. ewhen b reset_state),
       disconnect]))"

definition nextReject :: "unit action \<Rightarrow> Message \<Rightarrow> unit action" where
  "nextReject drain_queue reject =
     ebind (verify reject False True) (\<lambda>ok. ewhen ok (eseq [incrNextTarget, drain_queue]))"

definition nextSequenceReset :: "unit action \<Rightarrow> Message \<Rightarrow> unit action" where
  "nextSequenceReset drain_queue sequenceReset =
     ebind (elift (field_or BoolField_valueOf False (m_body sequenceReset) TAG_GapFillFlag)) (\<lambda>isGapFill.
     ebind (verify sequenceReset isGapFill isGapFill) (\<lambda>ok.
     if \<not> ok then eret ()
     else case getFieldIfSet (m_body sequenceReset) TAG_NewSeqNo of
         None \<Rightarrow> eret ()
       | Some f \<Rightarrow>
           ebind (elift (UInt64Field_valueOf f)) (\<lambda>newSeqNo.
           ebind (egets getExpectedTargetNum) (\<lambda>expected.
           if newSeqNo > expected
           then eseq [modify_state (state_setNextTarget newSeqNo), modify_state (clearQueueUpTo newSeqNo), drain_queue]
           else ewhen (newSeqNo < expected \<and> \<not> isGapFill) (generateReject sequenceReset 5 0)))))"

definition resend_end :: "string \<Rightarrow> SEQNUM \<Rightarrow> SEQNUM \<Rightarrow> SEQNUM" where
  "resend_end beginString expected endSeqNo =
     (if beginString \<ge> BeginString_FIX42 \<and> endSeqNo = 0 \<or> beginString \<le> BeginString_FIX42 \<and> endSeqNo = 999999 \<or>
         endSeqNo \<ge> expected
      then expected - 1 else endSeqNo)"

definition nextResendRequest :: "Message \<Rightarrow> unit action" where
  "nextResendRequest resendRequest =
     ebind (verify resendRequest False False) (\<lambda>ok.
     if \<not> ok then eret ()
     else ebind (elift (field_of UInt64Field_valueOf (m_body resendRequest) TAG_BeginSeqNo)) (\<lambda>beginSeqNo.
       ebind (elift (field_of UInt64Field_valueOf (m_body resendRequest) TAG_EndSeqNo)) (\<lambda>endSeqNo.
       ebind (egets (\<lambda>s. resend_end (getBeginString (m_sessionID s)) (getExpectedSenderNum s) endSeqNo)) (\<lambda>endSeqNo.
       ebind (answer_resend beginSeqNo endSeqNo) (\<lambda>_.
       ebind (elift (msg_seq_num resendRequest)) (\<lambda>msgSeqNum.
       ebind (egets (\<lambda>s. \<not> isTargetTooHigh s msgSeqNum \<and> \<not> isTargetTooLow s msgSeqNum)) (\<lambda>expected.
       ewhen expected incrNextTarget)))))))"

section \<open>Dispatch\<close>

definition logex :: "unit action \<Rightarrow> unit action" where
  "logex m = ecatch m (\<lambda>_. eret ())"

text \<open>\<open>e.what()\<close> of a RejectLogon.\<close>

definition reject_logon_what :: "string \<Rightarrow> string" where
  "reject_logon_what detail = (if detail \<noteq> [] then ''Rejected Logon Attempt: '' @ detail else ''Rejected Logon Attempt'')"

fun next_catch :: "Message \<Rightarrow> exn \<Rightarrow> unit action" where
  "next_catch message MessageParseError = eret ()"
| "next_catch message (RequiredTagMissing field) = logex (generateReject message 1 field)"
| "next_catch message (FieldNotFound field) =
     ebind (elift (getField (m_header message) TAG_BeginString)) (\<lambda>beginString.
     if beginString \<ge> BeginString_FIX42 \<and> Message_isApp message then logex (generateBusinessReject message 5 field)
     else ebind (logex (generateReject message 1 field)) (\<lambda>_.
       ebind (elift (getField (m_header message) TAG_MsgType)) (\<lambda>msgType. ewhen (msgType = ''A'') disconnect)))"
| "next_catch message (InvalidTagNumber field) = logex (generateReject message 0 field)"
| "next_catch message (NoTagValue field) = logex (generateReject message 4 field)"
| "next_catch message (TagNotDefinedForMessage field) = logex (generateReject message 2 field)"
| "next_catch message InvalidMessageType = logex (generateReject message 11 0)"
| "next_catch message UnsupportedMessageType =
     ebind (elift (getField (m_header message) TAG_BeginString)) (\<lambda>beginString.
     if beginString \<ge> BeginString_FIX42 then logex (generateBusinessReject message 3 0)
     else logex (generateReject_text message ''Unsupported message type'' 0))"
| "next_catch message (OutOfOrderGroupMembers field) = logex (generateReject_text message ''Out of order repeating group members'' field)"
| "next_catch message (EmbeddedSOH field) = logex (generateReject_text message ''Embedded SOH'' field)"
| "next_catch message (TagOutOfOrder field) = logex (generateReject message 14 field)"
| "next_catch message (IncorrectDataFormat field) = logex (generateReject message 6 field)"
| "next_catch message (IncorrectTagValue field) = logex (generateReject message 5 field)"
| "next_catch message (RepeatedTag field) = logex (generateReject message 13 field)"
| "next_catch message (RepeatingGroupCountMismatch field) = logex (generateReject message 16 field)"
| "next_catch message InvalidMessage = eret ()"
| "next_catch message (RejectLogon detail) = eseq [generateLogout (reject_logon_what detail), disconnect]"
| "next_catch message UnsupportedVersion =
     ebind (elift (getField (m_header message) TAG_MsgType)) (\<lambda>msgType.
     if msgType = ''5'' then nextLogout message
     else eseq [generateLogout ''Incorrect BeginString'', incrNextTarget])"
| "next_catch message IOException = disconnect"
| "next_catch message e = ethrow e"

definition validate_incoming :: "Message \<Rightarrow> unit action" where
  "validate_incoming message =
     ebind (egets (\<lambda>s.
       if isFIXT (m_sessionID s) \<and> Message_isApp message
       then dd_validate message (Some (session_dd s)) (Some (application_dd s
         (case getFieldIfSet (m_header message) TAG_ApplVerID of None \<Rightarrow> m_targetDefaultApplVerID s | Some f \<Rightarrow> m_string f)))
       else dd_validate_message (session_dd s) message False)) elift"

definition set_target_version :: "string \<Rightarrow> string \<Rightarrow> Message \<Rightarrow> unit action" where
  "set_target_version msgType beginString message =
     (if msgType = ''A''
      then ebind (egets (\<lambda>s. if isFIXT (m_sessionID s)
            then field_of StringField_valueOf (m_body message) TAG_DefaultApplVerID
            else Ok (toApplVerID beginString))) (\<lambda>r.
          ebind (elift r) (\<lambda>applVerID. emodify (\<lambda>s. s\<lparr>m_targetDefaultApplVerID := applVerID\<rparr>)))
      else eret ())"

definition dispatch :: "unit action \<Rightarrow> string \<Rightarrow> Message \<Rightarrow> DateTime \<Rightarrow> bool action" where
  "dispatch drain_queue msgType message now =
     (let continue = (\<lambda>m. ebind m (\<lambda>_. eret True)) in
      if msgType = ''A'' then continue (nextLogon drain_queue message now)
      else if msgType = ''0'' then continue (nextHeartbeat drain_queue message)
      else if msgType = ''1'' then continue (nextTestRequest drain_queue message)
      else if msgType = ''4'' then continue (nextSequenceReset drain_queue message)
      else if msgType = ''5'' then continue (nextLogout message)
      else if msgType = ''2'' then continue (nextResendRequest message)
      else if msgType = ''3'' then continue (nextReject drain_queue message)
      else ebind (verify message True True) (\<lambda>ok.
        if \<not> ok then eret False else continue incrNextTarget))"

text \<open>The try block; \<open>False\<close> is a return from the function.\<close>

definition process :: "unit action \<Rightarrow> Message \<Rightarrow> DateTime \<Rightarrow> bool action" where
  "process drain_queue message now =
     ebind (egets (\<lambda>s. checkSessionTime s now)) (\<lambda>inTime.
     if \<not> inTime then ebind Session_reset (\<lambda>_. eret False)
     else ebind (elift (msg_type message)) (\<lambda>msgType.
       ebind (elift (field_of StringField_valueOf (m_header message) TAG_BeginString)) (\<lambda>beginString.
       ebind (elift (getFieldRef (m_header message) TAG_SenderCompID)) (\<lambda>_.
       ebind (elift (getFieldRef (m_header message) TAG_TargetCompID)) (\<lambda>_.
       ebind (egets (\<lambda>s. beginString = getBeginString (m_sessionID s))) (\<lambda>sameVersion.
       if \<not> sameVersion then ethrow UnsupportedVersion
       else ebind (set_target_version msgType beginString message) (\<lambda>_.
         ebind (validate_incoming message) (\<lambda>_.
         dispatch drain_queue msgType message now))))))))"

section \<open>The timer\<close>

definition heartbeat_timer :: "unit action" where
  "heartbeat_timer =
     ebind timestamper (\<lambda>now. ebind (gets_state (\<lambda>st. timedOut st now)) (\<lambda>r. ebind (elift r) (\<lambda>out.
     if out then disconnect
     else ebind timestamper (\<lambda>now. ebind (gets_state (\<lambda>st. needTestRequest st now)) (\<lambda>r. ebind (elift r) (\<lambda>need.
       if need then eseq [generateTestRequest ''TEST'', modify_state (\<lambda>st. st\<lparr>m_testRequest := m_testRequest st + 1\<rparr>)]
       else ebind timestamper (\<lambda>now. ebind (gets_state (\<lambda>st. needHeartbeat st now)) (\<lambda>r. ebind (elift r) (\<lambda>need.
         ewhen need generateHeartbeat)))))))))"

definition logged_on_timer :: "unit action" where
  "logged_on_timer =
     ebind (gets_state heartBtInt_value) (\<lambda>r. ebind (elift r) (\<lambda>hb.
     if hb = 0 then eret ()
     else ebind timestamper (\<lambda>now.
       ebind (gets_state (\<lambda>st. logoutTimedOut st now)) (\<lambda>out.
       ebind (ewhen out disconnect) (\<lambda>_.
       ebind timestamper (\<lambda>now.
       ebind (gets_state (\<lambda>st. withinHeartBeat st now)) (\<lambda>r. ebind (elift r) (\<lambda>within.
       if within then eret () else heartbeat_timer))))))))"

definition logon_timer :: "DateTime \<Rightarrow> unit action" where
  "logon_timer now =
     ebind (egets (\<lambda>s. shouldSendLogon (m_state s) \<and> isLogonTime s now)) (\<lambda>should.
     if should then generateLogon
     else ebind (gets_state alreadySentLogon) (\<lambda>already.
       ewhen already (ebind timestamper (\<lambda>now. ebind (gets_state (\<lambda>st. logonTimedOut st now)) (\<lambda>out. ewhen out disconnect)))))"

definition next_timer :: "DateTime \<Rightarrow> unit action" where
  "next_timer now =
     catch_IOException
      (ebind (egets (\<lambda>s. checkSessionTime s now)) (\<lambda>inTime.
       if \<not> inTime then Session_reset
       else ebind (egets (\<lambda>s. (\<not> isEnabled s \<or> \<not> isLogonTime s now, isLoggedOn s))) (\<lambda>(closed, loggedOn).
         if closed \<and> \<not> loggedOn then eret ()
         else ebind (if closed then ebind (gets_state (\<lambda>st. (m_sentLogout st, m_logoutReason st)))
                       (\<lambda>(sent, reason). ewhen (\<not> sent) (generateLogout reason))
                     else eret ()) (\<lambda>_.
           ebind (gets_state m_receivedLogon) (\<lambda>received.
           if \<not> received then logon_timer now else logged_on_timer)))))
      disconnect"

section \<open>Incoming messages\<close>

definition next_with :: "unit action \<Rightarrow> Message \<Rightarrow> DateTime \<Rightarrow> bool \<Rightarrow> unit action" where
  "next_with drain_queue message now queued =
     ebind (ecatch (process drain_queue message now) (\<lambda>e. ebind (next_catch message e) (\<lambda>_. eret True))) (\<lambda>continue.
     if \<not> continue then eret ()
     else ebind (ewhen (\<not> queued) drain_queue) (\<lambda>_.
       ebind (egets isLoggedOn) (\<lambda>loggedOn.
       ewhen loggedOn (ebind timestamper next_timer))))"

primrec nextQueued :: "nat \<Rightarrow> DateTime \<Rightarrow> unit action" where
  "nextQueued 0 now = eret ()"
| "nextQueued (Suc fuel) now =
     ebind (egets getExpectedTargetNum) (\<lambda>num.
     ebind (on_state (retrieve num)) (\<lambda>r.
     case r of
       None \<Rightarrow> eret ()
     | Some msg \<Rightarrow>
         ebind (elift (msg_type msg)) (\<lambda>msgType.
         ebind (if msgType = ''A'' \<or> msgType = ''2'' then incrNextTarget
                else next_with (nextQueued fuel now) msg now True) (\<lambda>_.
         nextQueued fuel now))))"

text \<open>\<open>next(message, now)\<close> with fuel for every message in the queue and the one it may put there.\<close>

definition next_message :: "Message \<Rightarrow> DateTime \<Rightarrow> unit action" where
  "next_message message now s = next_with (nextQueued (length (m_queue (m_state s)) + 2) now) message now False s"

definition next_string :: "string \<Rightarrow> DateTime \<Rightarrow> unit action" where
  "next_string text now =
     ecatch
      (ebind (egets (\<lambda>s. decoded (setString text (m_validateLengthAndChecksum s) (Some (session_dd s))
         (Some (if isFIXT (m_sessionID s) then application_dd s (m_senderDefaultApplVerID s) else session_dd s)) new_Message))) (\<lambda>r.
       ebind (elift r) (\<lambda>message. next_message message now)))
      (\<lambda>e. if e = InvalidMessage
           then ebind (case identifyType text of Inr t \<Rightarrow> ewhen (t = ''A'') disconnect | Inl _ \<Rightarrow> eret ()) (\<lambda>_. ethrow InvalidMessage)
           else ethrow e)"

section \<open>Control\<close>

definition Session_logon :: "unit action" where
  "Session_logon = modify_state (\<lambda>st. st\<lparr>m_enabled := True, m_logoutReason := []\<rparr>)"

definition Session_logout :: "string \<Rightarrow> unit action" where
  "Session_logout reason = modify_state (\<lambda>st. st\<lparr>m_enabled := False, m_logoutReason := reason\<rparr>)"

definition Session_setNextSenderMsgSeqNum :: "SEQNUM \<Rightarrow> unit action" where
  "Session_setNextSenderMsgSeqNum num = modify_state (state_setNextSender num)"

definition Session_setNextTargetMsgSeqNum :: "SEQNUM \<Rightarrow> unit action" where
  "Session_setNextTargetMsgSeqNum num =
     modify_state (\<lambda>st. (clearQueue (state_setNextTarget num st))\<lparr>m_resendRange := (0, 0)\<rparr>)"

definition setResponder :: "bool \<Rightarrow> unit action" where
  "setResponder responder = eseq [
     refresh_on_logon,
     ebind timestamper (\<lambda>now. ebind (egets (\<lambda>s. checkSessionTime s now)) (\<lambda>inTime. ewhen (\<not> inTime) Session_reset)),
     emodify (\<lambda>s. s\<lparr>m_pResponder := responder\<rparr>)]"

text \<open>The constructor: \<open>create\<close> is the store factory. The registry of sessions is left out.\<close>

definition new_Session :: "(nat \<Rightarrow> DateTime) \<Rightarrow> Application \<Rightarrow> (int \<Rightarrow> DateTime) \<Rightarrow> (DateTime \<Rightarrow> MessageStore) \<Rightarrow>
    SessionID \<Rightarrow> DataDictionaryProvider \<Rightarrow> TimeRange \<Rightarrow> int \<Rightarrow> unit result \<times> Session" where
  "new_Session clock application localtime create sessionID provider sessionTime heartBtInt =
     ebind timestamper (\<lambda>now. ebind (egets (\<lambda>s. checkSessionTime s now)) (\<lambda>inTime. ewhen (\<not> inTime) reset_state))
       \<lparr>m_timestamper = clock, m_application = application, m_localtime = localtime, m_sessionID = sessionID,
        m_sessionTime = sessionTime, m_logonTime = sessionTime, m_senderDefaultApplVerID = ''7'',
        m_targetDefaultApplVerID = ''7'', m_sendRedundantResendRequests = False, m_checkCompId = True,
        m_checkLatency = True, m_maxLatency = 120, m_resetOnLogon = False, m_resetOnLogout = False,
        m_resetOnDisconnect = False, m_refreshOnLogon = False, m_timestampPrecision = 3, m_persistMessages = True,
        m_validateLengthAndChecksum = True, m_sendNextExpectedMsgSeqNum = False, m_isNonStopSession = False,
        m_allowedRemoteAddresses = [],
        m_state = (new_SessionState (clock 0) (create (clock 1)))
          \<lparr>m_heartBtInt := IntField TAG_HeartBtInt heartBtInt, m_initiate := (heartBtInt \<noteq> 0)\<rparr>,
        m_dataDictionaryProvider = provider, m_pResponder = False, s_ticks = 2, s_calls = 0, s_out = []\<rparr>"

end
