(* ===== verification/SessionInvariants.thy ===== *)
theory SessionInvariants
  imports SessionHandlers
begin

text \<open>
  What every operation of a session preserves. The locale \<open>session_frame\<close> lists the few ways in which a session
  changes its state, queueing a message apart; a property preserved by these is preserved by
  everything that sends, generates or times. \<open>session_invariant\<close> adds the queue and the delivery to the application: \<open>allowed\<close> are the numbers that may
  be queued, and then every handler and \<open>next\<close> itself preserve the property. The locales are interpreted
  for the invariant \<open>session_ok\<close> and for the bounds on the queue in \<open>SessionTermination\<close>.
\<close>

section \<open>Everything but the queue\<close>

text \<open>The events that hand a message to the application.\<close>

fun delivers :: "event \<Rightarrow> bool" where
  "delivers (FromApp m) = True"
| "delivers _ = False"

locale session_frame =
  fixes P :: "Session \<Rightarrow> bool"
  assumes keep_tick: "P s \<Longrightarrow> P (s\<lparr>s_ticks := i\<rparr>)"
    and keep_call: "P s \<Longrightarrow> P (s\<lparr>s_calls := i\<rparr>)"
    and keep_out: "P s \<Longrightarrow> \<not> delivers e \<Longrightarrow> P (s\<lparr>s_out := s_out s @ [e]\<rparr>)"
    and keep_responder: "P s \<Longrightarrow> P (s\<lparr>m_pResponder := b\<rparr>)"
    and keep_version: "P s \<Longrightarrow> P (s\<lparr>m_targetDefaultApplVerID := v\<rparr>)"
    and keep_flags: "P s \<Longrightarrow> m_pStore st = m_pStore (m_state s) \<Longrightarrow> m_queue st = m_queue (m_state s) \<Longrightarrow> P (s\<lparr>m_state := st\<rparr>)"
    and keep_clear: "P s \<Longrightarrow> P (s\<lparr>m_state := clearQueue (m_state s)\<rparr>)"
    and keep_clear_up_to: "P s \<Longrightarrow> P (s\<lparr>m_state := clearQueueUpTo n (m_state s)\<rparr>)"
    and keep_set: "P s \<Longrightarrow> P (s\<lparr>m_state := state_set n text (m_state s)\<rparr>)"
    and keep_sender: "P s \<Longrightarrow> P (s\<lparr>m_state := state_setNextSender n (m_state s)\<rparr>)"
    and keep_target: "P s \<Longrightarrow> P (s\<lparr>m_state := state_setNextTarget n (m_state s)\<rparr>)"
    and keep_reset_state: "keeps P reset_state"
    and keep_refresh: "keeps P refresh_on_logon"
begin

lemma incr_numbers:
  "state_incrNextSender st = state_setNextSender (state_nextSender st + 1) st"
  "state_incrNextTarget st = state_setNextTarget (state_nextTarget st + 1) st"
  by (simp_all add: state_defs store_incr)

lemma keeps_timestamper [keeps_intros]: "keeps P timestamper"
  by (simp add: keeps_def timestamper_def keep_tick)

lemma keeps_callback [keeps_intros]: "keeps P (callback f m)"
  by (simp add: keeps_def callback_def keep_call)

lemma keeps_emit [keeps_intros]:
  "keeps P (emit (Sent t))" "keeps P (emit (FromAdmin m))" "keeps P (emit LoggedOn)" "keeps P (emit LoggedOut)" "keeps P (emit Closed)"
  by (simp_all add: keeps_def emit_def emodify_def keep_out)

lemma keeps_gets_state [keeps_intros]: "keeps P (gets_state f)"
  by (simp add: keeps_def gets_state_def egets_def)

lemma keeps_flags [keeps_intros]:
  "(\<And>st. m_pStore (f st) = m_pStore st) \<Longrightarrow> (\<And>st. m_queue (f st) = m_queue st) \<Longrightarrow> keeps P (modify_state f)"
  by (simp add: keeps_def modify_state_def emodify_def keep_flags)

lemma keeps_store_changes [keeps_intros]:
  "keeps P (modify_state (state_set n text))" "keeps P (modify_state state_incrNextSender)" "keeps P incrNextTarget"
  "keeps P (modify_state (state_setNextSender n))" "keeps P (modify_state (state_setNextTarget n))"
  "keeps P (modify_state (clearQueueUpTo n))"
  by (simp_all add: keeps_def incrNextTarget_def modify_state_def emodify_def keep_set keep_sender keep_target
      keep_clear_up_to incr_numbers)

lemma keeps_cleared [keeps_intros]: "keeps P (modify_state (\<lambda>st. clearQueue (st\<lparr>m_sentLogout := a, m_receivedReset := b, m_sentReset := c\<rparr>)))"
proof (rule keepsI)
  fix s assume "P s"
  then have "P (s\<lparr>m_state := (m_state s)\<lparr>m_sentLogout := a, m_receivedReset := b, m_sentReset := c\<rparr>\<rparr>)" by (rule keep_flags) simp_all
  from keep_clear [OF this] show "P (snd (modify_state (\<lambda>st. clearQueue (st\<lparr>m_sentLogout := a, m_receivedReset := b, m_sentReset := c\<rparr>)) s))"
    by (simp add: modify_state_def emodify_def)
qed

lemmas [keeps_intros] = keep_reset_state keep_refresh

lemma keeps_version [keeps_intros]: "keeps P (set_target_version t b m)"
  unfolding set_target_version_def by (intro keeps_intros keep_version)

lemma keeps_filling [keeps_intros]:
  "keeps P (insertSendingTime m)" "keeps P (insertOrigSendingTime now m)" "keeps P set_lastSentTime" "keeps P (newMessage t)"
  unfolding insertSendingTime_def insertOrigSendingTime_def set_lastSentTime_def newMessage_def
  by (intro keeps_intros; simp)+

lemma keeps_fill [keeps_intros]: "keeps P (fill m)"
  unfolding fill_def by (intro keeps_intros)

lemma keeps_sending [keeps_intros]:
  "keeps P (send_string t)" "keeps P (persist m t)" "keeps P (logon_reset t m)"
  unfolding send_string_def persist_def logon_reset_def
  by (intro keeps_intros; simp)+

lemma keeps_catch_IO [keeps_intros]: "keeps P m \<Longrightarrow> keeps P h \<Longrightarrow> keeps P (catch_IOException m h)"
  unfolding catch_IOException_def by (intro keeps_intros)

lemma keeps_prepareToSend [keeps_intros]: "keeps P (prepareToSend m n a)"
  unfolding prepareToSend_def by (intro keeps_intros)

lemma keeps_sendSequenced [keeps_intros]: "keeps P (sendSequenced m n a)"
  unfolding sendSequenced_def sequence_out_def Let_def by (intro keeps_intros)

lemma keeps_sendRaw [keeps_intros]: "keeps P (sendRaw m n)" "keeps P (Session_send m)"
  unfolding Session_send_def sendRaw_def Let_def by (intro keeps_intros)+

lemma keeps_disconnect [keeps_intros]: "keeps P disconnect"
  unfolding disconnect_def by (intro keeps_intros keep_responder; simp)

lemma keeps_generated [keeps_intros]:
  "keeps P generateLogon" "keeps P (generateLogon_reply m)" "keeps P (generateResendRequest b n)"
  "keeps P (newSequenceReset n n')" "keeps P generateHeartbeat" "keeps P (generateHeartbeat_reply m)"
  "keeps P (generateTestRequest t)" "keeps P (generateLogout t)"
  unfolding generateLogon_def generateLogon_reply_def generateResendRequest_def newSequenceReset_def
    generateHeartbeat_def generateHeartbeat_reply_def generateTestRequest_def generateLogout_def Let_def
  by (intro keeps_intros; simp)+

lemma keeps_generateSequenceReset [keeps_intros]: "keeps P (generateSequenceReset n n')"
  unfolding generateSequenceReset_def by (intro keeps_intros)

lemma keeps_reject_parts [keeps_intros]:
  "keeps P (reject_reason r b f m)" "keeps P (count_rejected t k)" "keeps P require_logon"
  unfolding reject_reason_def count_rejected_def require_logon_def by (intro keeps_intros)+

lemma keeps_rejects [keeps_intros]:
  "keeps P (generateReject m e f)" "keeps P (generateReject_text m t f)" "keeps P (generateBusinessReject m e f)"
  unfolding generateReject_def generateReject_text_def generateBusinessReject_def Let_def by (intro keeps_intros)+

lemma keeps_Session_reset [keeps_intros]: "keeps P Session_reset"
  unfolding Session_reset_def by (intro keeps_intros)

lemma keeps_bad [keeps_intros]: "keeps P (doBadTime m)" "keeps P (doBadCompID m)" "keeps P (doPossDup m)"
  unfolding doBadTime_def doBadCompID_def doPossDup_def by (intro keeps_intros)+

lemma keeps_checks [keeps_intros]: "keeps P (doTargetTooLow m)" "keeps P (isGoodTime g)"
  unfolding doTargetTooLow_def isGoodTime_def by (intro keeps_intros)+

lemma keeps_satisfy [keeps_intros]: "keeps P (modify_state (satisfy_resend n))"
  by (intro keeps_intros) (simp_all add: satisfy_resend_def)

lemma keeps_resend [keeps_intros]: "keeps P (Session_resend m)" "keeps P (addSequenceReset n n' rs)" "keeps P (transmit r)"
  unfolding Session_resend_def addSequenceReset_def transmit_def by (intro keeps_intros)+

lemma keeps_retransmit_one [keeps_intros]: "keeps P (retransmit_one t rs)"
  unfolding retransmit_one_def Let_def by (intro keeps_intros)

lemma keeps_retransmit_all [keeps_intros]: "keeps P (retransmit_all ts rs)"
  by (induction ts arbitrary: rs) (auto intro!: keeps_intros)

lemma keeps_generateRetransmits [keeps_intros]: "keeps P (generateRetransmits n n')"
  unfolding generateRetransmits_def by (intro keeps_intros keeps_seq_map)

lemma keeps_answer_resend [keeps_intros]: "keeps P (answer_resend n n')"
  unfolding answer_resend_def by (intro keeps_intros)

lemma keeps_timers [keeps_intros]: "keeps P heartbeat_timer" "keeps P (logon_timer now)"
  unfolding heartbeat_timer_def logon_timer_def by (intro keeps_intros; simp)+

lemma keeps_next_timer [keeps_intros]: "keeps P (next_timer now)"
  unfolding next_timer_def logged_on_timer_def by (intro keeps_intros)

lemma keeps_heartBtInt [keeps_intros]:
  "keeps P (modify_state (\<lambda>st. case getFieldIfSet (m_body m) TAG_HeartBtInt of None \<Rightarrow> st | Some f \<Rightarrow> st\<lparr>m_heartBtInt := f\<rparr>))"
  by (cases "getFieldIfSet (m_body m) TAG_HeartBtInt") (auto intro: keeps_intros)

lemma keeps_logex [keeps_intros]: "keeps P m \<Longrightarrow> keeps P (logex m)"
  unfolding logex_def by (intro keeps_intros)

lemma keeps_validate [keeps_intros]: "keeps P (validate_incoming m)"
  unfolding validate_incoming_def by (intro keeps_intros)

lemma keeps_renumber [keeps_intros]: "keeps P (Session_setNextTargetMsgSeqNum n)"
proof (rule keepsI)
  fix s assume "P s"
  from keep_clear [OF keep_target [OF this, of n]] have "P (s\<lparr>m_state := clearQueue (state_setNextTarget n (m_state s))\<rparr>)" by simp
  from keep_flags [OF this, of "(clearQueue (state_setNextTarget n (m_state s)))\<lparr>m_resendRange := (0, 0)\<rparr>"]
  show "P (snd (Session_setNextTargetMsgSeqNum n s))"
    by (simp add: Session_setNextTargetMsgSeqNum_def modify_state_def emodify_def)
qed

lemma keeps_control [keeps_intros]:
  "keeps P Session_logon" "keeps P (Session_logout t)" "keeps P (Session_setNextSenderMsgSeqNum n)" "keeps P (setResponder b)"
  unfolding Session_logon_def Session_logout_def Session_setNextSenderMsgSeqNum_def setResponder_def
  by (intro keeps_intros keep_responder; simp)+

end

section \<open>The queue\<close>

locale session_invariant = session_frame P for P +
  fixes allowed :: "SEQNUM \<Rightarrow> bool"
  assumes keep_delivery: "P s \<Longrightarrow> P (s\<lparr>s_out := s_out s @ [FromApp m]\<rparr>)"
    and keep_queue: "P s \<Longrightarrow> msg_seq_num m = Ok n \<Longrightarrow> allowed n \<Longrightarrow> P (s\<lparr>m_state := queue_message n m (m_state s)\<rparr>)"
    and keep_retrieve: "keeps P (on_state (retrieve n))"
    and queued_allowed: "P s \<Longrightarrow> smap_find (m_queue (m_state s)) n = Some m \<Longrightarrow> msg_seq_num m = Ok k \<Longrightarrow> allowed k"
begin

lemma keeps_delivery [keeps_intros]: "keeps P (emit (FromApp m))"
  by (simp add: keeps_def emit_def emodify_def keep_delivery)

lemma keeps_fromCallback [keeps_intros]: "keeps P (fromCallback t m)"
  unfolding fromCallback_def by (intro keeps_intros)

text \<open>Without the check for numbers that are too high nothing is queued.\<close>

lemma keeps_verify_low [keeps_intros]: "keeps P (verify m False b)"
  unfolding verify_def verify_checks_def verify_number_def simp_thms if_False
  by (intro keeps_intros; simp)

lemma keeps_nextLogout [keeps_intros]: "keeps P (nextLogout m)"
  unfolding nextLogout_def by (intro keeps_intros)

lemma keeps_next_catch [keeps_intros]: "keeps P (next_catch m e)"
  by (cases e) (simp; (intro keeps_intros)?)+

definition allowed_msg :: "Message \<Rightarrow> bool" where
  "allowed_msg m = (\<forall>n. msg_seq_num m = Ok n \<longrightarrow> allowed n)"

lemma keeps_queue_message:
  assumes "msg_seq_num m = Ok n" "allowed_msg m" "\<And>st. m_pStore (f st) = m_pStore st" "\<And>st. m_queue (f st) = m_queue st"
  shows "keeps P (modify_state (\<lambda>st. f (queue_message n m st)))"
proof (rule keepsI)
  fix s assume "P s"
  with assms(1,2) have "P (s\<lparr>m_state := queue_message n m (m_state s)\<rparr>)" by (intro keep_queue) (auto simp: allowed_msg_def)
  from keep_flags [OF this, of "f (queue_message n m (m_state s))"] assms(3,4)
  show "P (snd (modify_state (\<lambda>st. f (queue_message n m st)) s))" by (simp add: modify_state_def emodify_def)
qed

lemma keeps_seq_num: "(\<And>n. msg_seq_num m = Ok n \<Longrightarrow> keeps P (f n)) \<Longrightarrow> keeps P (ebind (elift (msg_seq_num m)) f)"
  by (cases "msg_seq_num m") (auto simp: keeps_def ebind_def elift_def)

lemma keeps_too_high:
  assumes "allowed_msg m"
  shows "keeps P (doTargetTooHigh m)"
proof -
  have q: "keeps P (modify_state (queue_message n m))" if "msg_seq_num m = Ok n" for n
    using keeps_queue_message [OF that assms, of "\<lambda>st. st"] by simp
  show ?thesis
    unfolding doTargetTooHigh_def
    by (rule keeps_bind [OF keeps_basic(4)], rule keeps_seq_num) (intro keeps_bind q keeps_intros; assumption)
qed

lemma keeps_verify:
  assumes "allowed_msg m"
  shows "keeps P (verify m a b)"
  unfolding verify_def verify_checks_def verify_number_def
  by (intro keeps_intros keeps_too_high [OF assms]; simp)

lemma keeps_logon_response:
  assumes "allowed_msg m" "keeps P dq"
  shows "keeps P (logon_response dq m flag r)"
proof -
  have q: "keeps P (modify_state (\<lambda>st. (queue_message n m st)\<lparr>m_resendRange := (state_nextTarget st, n - 1)\<rparr>))" if "msg_seq_num m = Ok n" for n
    using keeps_queue_message [OF that assms(1), of "\<lambda>st. st\<lparr>m_resendRange := (state_nextTarget st, n - 1)\<rparr>"]
    by (simp add: state_nextTarget_def queue_message_def)
  show ?thesis
    unfolding logon_response_def
    by (intro keeps_seq keeps_seq_num; (intro keeps_intros q assms(2) keeps_too_high [OF assms(1)])?; simp)
qed

lemma keeps_nextLogon:
  assumes "allowed_msg m" "keeps P dq"
  shows "keeps P (nextLogon dq m now)"
  unfolding nextLogon_def logon_accepted_def
  by (intro keeps_intros keeps_verify [OF assms(1)] keeps_logon_response [OF assms]; simp)

lemma keeps_handlers:
  assumes "allowed_msg m" "keeps P dq"
  shows "keeps P (nextHeartbeat dq m)" "keeps P (nextTestRequest dq m)" "keeps P (nextReject dq m)"
    "keeps P (nextSequenceReset dq m)" "keeps P (nextResendRequest m)"
  unfolding nextHeartbeat_def nextTestRequest_def nextReject_def nextSequenceReset_def nextResendRequest_def
  by (intro keeps_intros keeps_verify [OF assms(1)] assms(2))+

lemma keeps_process:
  assumes "allowed_msg m" "keeps P dq"
  shows "keeps P (process dq m now)"
  unfolding process_def dispatch_def Let_def
  by (intro keeps_intros keeps_handlers [OF assms] keeps_nextLogon [OF assms] keeps_verify [OF assms(1)])

lemma keeps_next_with:
  assumes "allowed_msg m" "keeps P dq"
  shows "keeps P (next_with dq m now q)"
  unfolding next_with_def by (intro keeps_intros keeps_process [OF assms] assms(2))

lemma keeps_nextQueued: "keeps P (nextQueued fuel now)"
proof (induction fuel)
  case (Suc fuel)
  show ?case
  proof (rule keepsI)
    fix s assume P: "P s"
    let ?n = "getExpectedTargetNum s"
    from keepsD [OF keep_retrieve P] obtain r s' where r: "on_state (retrieve ?n) s = (r, s')" "P s'"
      by (metis prod.collapse)
    show "P (snd (nextQueued (Suc fuel) now s))"
    proof (cases "smap_find (m_queue (m_state s)) ?n")
      case None
      with r(1) have "r = Ok None" by (auto simp: on_state_def ezoom_def retrieve_def)
      with r show ?thesis by (simp add: ebind_def [of "on_state _"] eret_def)
    next
      case (Some m)
      with r(1) have "r = Ok (Some m)" by (auto simp: on_state_def ezoom_def retrieve_def)
      moreover have "allowed_msg m" using queued_allowed [OF P Some] by (simp add: allowed_msg_def)
      then have "keeps P (ebind (elift (msg_type m)) (\<lambda>msgType.
         ebind (if msgType = ''A'' \<or> msgType = ''2'' then incrNextTarget
                else next_with (nextQueued fuel now) m now True) (\<lambda>_. nextQueued fuel now)))"
        using Suc by (intro keeps_intros keeps_next_with)
      from keepsD [OF this r(2)] have "P (snd (ebind (elift (msg_type m)) (\<lambda>msgType.
         ebind (if msgType = ''A'' \<or> msgType = ''2'' then incrNextTarget
                else next_with (nextQueued fuel now) m now True) (\<lambda>_. nextQueued fuel now)) s'))" .
      ultimately show ?thesis using r by (simp add: ebind_def [of "on_state _"])
    qed
  qed
qed (simp add: keeps_intros)

lemma keeps_next_message: "allowed_msg m \<Longrightarrow> keeps P (next_message m now)"
  using keeps_next_with [OF _ keeps_nextQueued] by (simp add: keeps_def next_message_def del: nextQueued.simps)

end

section \<open>The invariant of a session\<close>

definition queue_ok :: "(SEQNUM, Message) smap \<Rightarrow> bool" where
  "queue_ok q = (smap_ok q \<and> (\<forall>p\<in>set q. msg_seq_num (snd p) = Ok (fst p)))"

lemma queue_ok_put: "queue_ok q \<Longrightarrow> msg_seq_num m = Ok n \<Longrightarrow> queue_ok (smap_put n m q)"
  using smap_put_set [of n m q] by (auto simp: queue_ok_def)

lemma queue_ok_smaller: "queue_ok q \<Longrightarrow> queue_ok []" "queue_ok q \<Longrightarrow> queue_ok (smap_erase n q)"
  "queue_ok q \<Longrightarrow> queue_ok (smap_erase_below n q)"
  by (auto simp: queue_ok_def) (force simp: smap_erase_def smap_erase_below_def dest: set_dropWhileD)+

fun in_memory :: "MessageStore \<Rightarrow> bool" where
  "in_memory (InMemory m) = True"
| "in_memory (OnDisk f) = False"

text \<open>The store is consistent, every queued message is stored under its own number, and the clock shows times
  the store can hold. Refreshing on logon reads the files back, which is covered by the recovery of the file store;
  here it is allowed for the store in memory.\<close>

definition session_ok :: "Session \<Rightarrow> bool" where
  "session_ok s =
     (store_ok (m_pStore (m_state s)) \<and> queue_ok (m_queue (m_state s)) \<and>
      (\<forall>i. time_storable (m_timestamper s i)) \<and> (m_refreshOnLogon s \<longrightarrow> in_memory (m_pStore (m_state s))))"

lemma in_memory_changes [simp]:
  "in_memory (store_set n t st) = in_memory st" "in_memory (store_setNextSender n st) = in_memory st"
  "in_memory (store_setNextTarget n st) = in_memory st" "in_memory (snd (store_reset now st)) = in_memory st"
  by (cases st; simp split: prod.split)+

lemma reset_state_run:
  assumes "store_ok (m_pStore (m_state s))" "time_storable (m_timestamper s (s_ticks s))"
  obtains store where "reset_state s = (Ok (), s\<lparr>s_ticks := s_ticks s + 1,
      m_state := (m_state s)\<lparr>m_pStore := store, m_queue := [], m_resendRange := (0, 0)\<rparr>\<rparr>)"
    "store_ok store" "store_nextSender store = 1" "store_nextTarget store = 1" "stored_in store = (\<lambda>_. None)"
    "store_creationTime store = m_timestamper s (s_ticks s)" "in_memory store = in_memory (m_pStore (m_state s))"
proof -
  from store_reset_ok [OF assms] obtain store where st: "store_reset (m_timestamper s (s_ticks s)) (m_pStore (m_state s)) = (Ok (), store)"
    "store_ok store" "store_nextSender store = 1" "store_nextTarget store = 1" "stored_in store = (\<lambda>_. None)"
    "store_creationTime store = m_timestamper s (s_ticks s)" by blast
  moreover have "in_memory store = in_memory (m_pStore (m_state s))"
    using in_memory_changes(4) [of "m_timestamper s (s_ticks s)" "m_pStore (m_state s)"] st(1) by simp
  moreover have "reset_state s = (Ok (), s\<lparr>s_ticks := s_ticks s + 1,
      m_state := (m_state s)\<lparr>m_pStore := store, m_queue := [], m_resendRange := (0, 0)\<rparr>\<rparr>)"
    using st(1) by (simp add: reset_state_def timestamper_def on_state_def state_reset_def eff_defs)
  ultimately show thesis using that by blast
qed

interpretation ok: session_invariant session_ok "\<lambda>_. True"
proof (unfold_locales, goal_cases)
  case 12
  show ?case
  proof (rule keepsI)
    fix s assume ok: "session_ok s"
    then have "store_ok (m_pStore (m_state s))" "time_storable (m_timestamper s (s_ticks s))" by (auto simp: session_ok_def)
    then show "session_ok (snd (reset_state s))"
    proof (rule reset_state_run)
      fix store assume "reset_state s = (Ok (), s\<lparr>s_ticks := s_ticks s + 1,
          m_state := (m_state s)\<lparr>m_pStore := store, m_queue := [], m_resendRange := (0, 0)\<rparr>\<rparr>)"
        "store_ok store" "in_memory store = in_memory (m_pStore (m_state s))"
      with ok show ?thesis by (simp add: session_ok_def queue_ok_def)
    qed
  qed
next
  case 13
  show ?case
  proof (rule keepsI)
    fix s assume ok: "session_ok s"
    show "session_ok (snd (refresh_on_logon s))"
    proof (cases "m_refreshOnLogon s")
      case True
      with ok obtain m where "m_pStore (m_state s) = InMemory m"
        by (cases "m_pStore (m_state s)") (auto simp: session_ok_def)
      with ok show ?thesis
        by (simp add: refresh_on_logon_def refresh_def timestamper_def on_state_def state_refresh_def eff_defs session_ok_def)
    qed (use ok in \<open>simp add: refresh_on_logon_def eff_defs\<close>)
  qed
next
  case (16 n)
  show ?case
    by (rule keepsI) (auto simp: session_ok_def on_state_def retrieve_def ezoom_def queue_ok_smaller split: option.split)
qed (auto simp: session_ok_def state_defs store.inv_set store.inv_numbers queue_ok_put queue_ok_smaller)

section \<open>Reachable sessions\<close>

text \<open>The sessions a program can come to: a new one, whatever its settings, and every call on it, those that
  end with an exception included.\<close>

inductive session_reachable :: "Session \<Rightarrow> bool" where
  create: "\<forall>i. time_storable (clock i) \<Longrightarrow> store_ok (create (clock 1)) \<Longrightarrow>
    new_Session clock application localtime create sid provider schedule hb = (r, s) \<Longrightarrow> session_reachable s"
| configure: "session_reachable s \<Longrightarrow> m_state s' = (m_state s)\<lparr>m_logonTimeout := a, m_logoutTimeout := b\<rparr> \<Longrightarrow> m_timestamper s' = m_timestamper s \<Longrightarrow>
    (m_refreshOnLogon s' \<Longrightarrow> in_memory (m_pStore (m_state s'))) \<Longrightarrow> session_reachable s'"
| received: "session_reachable s \<Longrightarrow> next_string text now s = (r, s') \<Longrightarrow> session_reachable s'"
| timer: "session_reachable s \<Longrightarrow> next_timer now s = (r, s') \<Longrightarrow> session_reachable s'"
| sending: "session_reachable s \<Longrightarrow> Session_send message s = (b, s') \<Longrightarrow> session_reachable s'"
| connect: "session_reachable s \<Longrightarrow> setResponder responder s = (r, s') \<Longrightarrow> session_reachable s'"
| disconnect: "session_reachable s \<Longrightarrow> disconnect s = (r, s') \<Longrightarrow> session_reachable s'"
| logon: "session_reachable s \<Longrightarrow> Session_logon s = (r, s') \<Longrightarrow> session_reachable s'"
| logout: "session_reachable s \<Longrightarrow> Session_logout reason s = (r, s') \<Longrightarrow> session_reachable s'"
| refresh: "session_reachable s \<Longrightarrow> in_memory (m_pStore (m_state s)) \<Longrightarrow> refresh s = (r, s') \<Longrightarrow> session_reachable s'"
| reset: "session_reachable s \<Longrightarrow> Session_reset s = (r, s') \<Longrightarrow> session_reachable s'"
| sender: "session_reachable s \<Longrightarrow> Session_setNextSenderMsgSeqNum n s = (r, s') \<Longrightarrow> session_reachable s'"
| target: "session_reachable s \<Longrightarrow> Session_setNextTargetMsgSeqNum n s = (r, s') \<Longrightarrow> session_reachable s'"

lemma keeps_next_string: "keeps session_ok (next_string text now)"
proof -
  have "keeps session_ok (next_message m now)" for m
    by (rule ok.keeps_next_message) (simp add: ok.allowed_msg_def)
  then show ?thesis
    unfolding next_string_def by (intro ok.keeps_disconnect keeps_intros)
qed

lemma keeps_run: "keeps P m \<Longrightarrow> P s \<Longrightarrow> m s = (r, s') \<Longrightarrow> P s'"
  by (metis keepsD snd_conv)

lemma session_reachable_ok: "session_reachable s \<Longrightarrow> session_ok s"
proof (induction rule: session_reachable.induct)
  case (create clock create application localtime sid provider schedule hb r s)
  have "keeps session_ok (ebind timestamper (\<lambda>now. ebind (egets (\<lambda>s. checkSessionTime s now)) (\<lambda>inTime. ewhen (\<not> inTime) reset_state)))"
    by (intro ok.keeps_timestamper ok.keep_reset_state keeps_intros)
  from keeps_run [OF this _ create(3) [unfolded new_Session_def]] show ?case
    using create(1,2) by (auto simp: session_ok_def new_SessionState_def queue_ok_def)
next
  case (configure s s')
  then show ?case by (auto simp: session_ok_def)
next
  case (refresh s r s')
  then show ?case
    by (cases "m_pStore (m_state s)")
      (auto simp: refresh_def timestamper_def on_state_def state_refresh_def eff_defs session_ok_def)
qed (auto intro: keeps_run [OF keeps_next_string] keeps_run [OF ok.keeps_next_timer] keeps_run [OF ok.keeps_sendRaw(2)]
    keeps_run [OF ok.keeps_control(4)] keeps_run [OF ok.keeps_disconnect] keeps_run [OF ok.keeps_control(1)]
    keeps_run [OF ok.keeps_control(2)] keeps_run [OF ok.keeps_Session_reset] keeps_run [OF ok.keeps_control(3)]
    keeps_run [OF ok.keeps_renumber])

text \<open>A session for examples: store in memory, clock that stands still, application that accepts everything.\<close>

definition example_application :: Application where
  "example_application = \<lparr>toAdmin = \<lambda>_ m. Ok m, toApp = \<lambda>_ m. Ok m, fromAdmin = \<lambda>_ _. Ok (), fromApp = \<lambda>_ _. Ok ()\<rparr>"

definition midnight :: DateTime where
  "midnight = \<lparr>m_date = 0, m_time = 0\<rparr>"

definition example_session :: Session where
  "example_session = snd (new_Session (\<lambda>_. epoch) example_application (\<lambda>_. epoch) (\<lambda>now. InMemory (new_MemoryStore now))
     (mk_SessionID ''FIX.4.2'' ''US'' ''THEM'' []) \<lparr>m_transportDictionaries = [], m_applicationDictionaries = []\<rparr>
     (mk_TimeRange midnight midnight (-1) (-1) False) 30)"

lemma example_reachable: "session_reachable example_session"
  unfolding example_session_def
  by (rule session_reachable.create [OF _ _ surjective_pairing]) (simp_all add: epoch_storable ms_ok_def new_MemoryStore_def)

lemma example_fields:
  "m_state example_session = (new_SessionState epoch (InMemory (new_MemoryStore epoch)))
     \<lparr>m_heartBtInt := IntField TAG_HeartBtInt 30, m_initiate := True\<rparr>"
  "m_timestamper example_session = (\<lambda>_. epoch)" "m_application example_session = example_application"
  "m_logonTime example_session = mk_TimeRange midnight midnight (-1) (-1) False" "m_refreshOnLogon example_session = False"
  "m_sessionID example_session = mk_SessionID ''FIX.4.2'' ''US'' ''THEM'' []" "s_out example_session = []"
  "m_dataDictionaryProvider example_session = \<lparr>m_transportDictionaries = [], m_applicationDictionaries = []\<rparr>"
  "m_checkCompId example_session" "m_persistMessages example_session" "\<not> m_pResponder example_session"
  by (simp_all add: example_session_def new_Session_def new_SessionState_def timestamper_def reset_state_def state_reset_def
      on_state_def eff_defs ms_reset_def new_MemoryStore_def ms_defs)

lemma example_queue: "m_queue (m_state example_session) = []"
  by (simp add: example_fields new_SessionState_def)

lemma example_logon_time: "time_storable t \<Longrightarrow> isInRange localtime (mk_TimeRange midnight midnight (-1) (-1) False) t"
  by (cases t) (auto simp: isInRange_def isInRange_day_def isInRange_daily_def mk_TimeRange_def midnight_def time_storable_def
      time_ok_def dt_ge_def dt_gt_def dt_less_def UtcTimeOnly_def clearDate_def Let_def)

text \<open>C9: the state of a session is well formed in every session a program can come to, whatever calls it made and
  whatever messages arrived: the message store is consistent, the queue of early messages is sorted by number
  without duplicates, and every queued message is filed under its own MsgSeqNum.\<close>

theorem session_well_formed:
  assumes "session_reachable s"
  shows "store_ok (m_pStore (m_state s)) \<and> sorted_wrt (<) (map fst (m_queue (m_state s))) \<and>
    (\<forall>p\<in>set (m_queue (m_state s)). msg_seq_num (snd p) = Ok (fst p))"
  using session_reachable_ok [OF assms] by (auto simp: session_ok_def queue_ok_def smap_ok_def)

theorem session_well_formed_witness:
  "store_ok (m_pStore (m_state (snd (next_string ''8=FIX.4.2'' epoch example_session)))) \<and>
   sorted_wrt (<) (map fst (m_queue (m_state (snd (next_string ''8=FIX.4.2'' epoch example_session)))))"
  using session_well_formed [OF session_reachable.received [OF example_reachable surjective_pairing]] by simp

end
