(* ===== verification/SessionTermination.thy ===== *)
theory SessionTermination
  imports SessionInvariants
begin

text \<open>
  Processing a message ends. The loop over the queue calls \<open>next\<close> for each queued message, which loops over the
  queue again; it ends because a message taken from the queue has the expected number, so that it is never
  put back. Fuel above the number of queued messages therefore makes no difference.
\<close>

section \<open>Bounds on the queue\<close>

text \<open>The numbers in the queue are among \<open>K\<close>.\<close>

definition queue_in :: "SEQNUM set \<Rightarrow> Session \<Rightarrow> bool" where
  "queue_in K s = (queue_ok (m_queue (m_state s)) \<and> fst ` set (m_queue (m_state s)) \<subseteq> K)"

lemma smap_erase_subset: "set (smap_erase n q) \<subseteq> set q"
  by (auto simp: smap_erase_def)

lemma smap_erase_below_subset: "set (smap_erase_below n q) \<subseteq> set q"
  by (auto simp: smap_erase_below_def dest: set_dropWhileD)

lemma queue_in_reset:
  assumes "queue_in K s"
  shows "queue_in K (snd (reset_state s))"
  using assms
  by (auto simp: reset_state_def timestamper_def on_state_def state_reset_def eff_defs queue_in_def queue_ok_def
      split: prod.split sum.split)

interpretation queue: session_invariant "queue_in K" "\<lambda>n. n \<in> K" for K
proof (unfold_locales, goal_cases)
  case 12 show ?case by (simp add: keeps_def queue_in_reset)
next
  case 13 show ?case
    by (auto simp: keeps_def refresh_on_logon_def refresh_def timestamper_def on_state_def state_refresh_def eff_defs queue_in_def split: prod.split)
next
  case (15 s m n)
  then show ?case using smap_put_set [of n m "m_queue (m_state s)"] by (force simp: queue_in_def queue_message_def queue_ok_put)
next
  case (16 n) show ?case
    using smap_erase_subset
    by (intro keepsI) (fastforce simp: queue_in_def on_state_def retrieve_def ezoom_def queue_ok_smaller split: option.split)
next
  case (17 s n m k)
  then show ?case by (force simp: queue_in_def queue_ok_def dest: map_of_SomeD)
qed (use smap_erase_below_subset in \<open>fastforce simp: queue_in_def state_defs queue_ok_smaller\<close>)+

text \<open>The processing of a message that is the expected one.\<close>

definition at_number :: "SEQNUM set \<Rightarrow> SEQNUM \<Rightarrow> Session \<Rightarrow> bool" where
  "at_number K n s = (queue_in K s \<and> getExpectedTargetNum s = n)"

lemma at_number_queue: "at_number K n s \<Longrightarrow> queue_in K s"
  by (simp add: at_number_def)

lemma at_number_same_store:
  "at_number K n s \<Longrightarrow> m_queue (m_state t) = m_queue (m_state s) \<Longrightarrow> m_pStore (m_state t) = m_pStore (m_state s) \<Longrightarrow> at_number K n t"
  by (simp add: at_number_def queue_in_def getExpectedTargetNum_def state_nextTarget_def)

lemma keeps_at_number:
  "keeps (at_number K n) (elift r)" "keeps (at_number K n) (egets f)" "keeps (at_number K n) timestamper"
  "keeps (at_number K n) (isGoodTime field)" "keeps (at_number K n) (set_target_version t b m)"
  "keeps (at_number K n) (validate_incoming m)"
proof -
  show ts: "keeps (at_number K n) timestamper"
    by (rule keepsI, rule at_number_same_store) (auto simp: timestamper_def)
  show "keeps (at_number K n) (isGoodTime field)" unfolding isGoodTime_def by (intro ts keeps_intros)
  have version: "keeps (at_number K n) (emodify (\<lambda>s. s\<lparr>m_targetDefaultApplVerID := v\<rparr>))" for v
    by (rule keepsI, rule at_number_same_store) (auto simp: emodify_def)
  show "keeps (at_number K n) (set_target_version t b m)" unfolding set_target_version_def by (intro version keeps_intros)
  show "keeps (at_number K n) (validate_incoming m)" unfolding validate_incoming_def by (intro keeps_intros)
qed (intro keeps_intros)+

lemma leads_queue: "keeps (queue_in K) m \<Longrightarrow> leads (at_number K n) m (queue_in K)"
  by (rule leads_weaken [OF leads_keeps]) (auto simp: at_number_queue)

lemma leads_bind_at: "keeps (at_number K n) m \<Longrightarrow> (\<And>x. leads (at_number K n) (f x) (queue_in K)) \<Longrightarrow> leads (at_number K n) (ebind m f) (queue_in K)"
  by (rule leads_bind [OF leads_keeps]) (auto simp: at_number_queue)

lemma leads_if: "(b \<Longrightarrow> leads P m Q) \<Longrightarrow> (\<not> b \<Longrightarrow> leads P n Q) \<Longrightarrow> leads P (if b then m else n) Q"
  by simp

lemma verify_number_at:
  assumes "a \<or> b \<Longrightarrow> msgSeqNum = n"
  shows "leads (at_number K n) (verify_number m a b msgSeqNum) (queue_in K)"
proof -
  have "queue_in K (snd (verify_number m a b msgSeqNum s))" if s: "at_number K n s" for s
  proof (cases "a \<or> b")
    case True
    with assms s have "\<not> isTargetTooHigh s msgSeqNum" "\<not> isTargetTooLow s msgSeqNum"
      by (auto simp: isTargetTooHigh_def isTargetTooLow_def at_number_def)
    then have "verify_number m a b msgSeqNum s =
        ebind (ewhen (a \<or> b) (modify_state (satisfy_resend msgSeqNum))) (\<lambda>_. eret True) s"
      by (simp add: verify_number_def)
    moreover have "keeps (queue_in K) (ebind (ewhen (a \<or> b) (modify_state (satisfy_resend msgSeqNum))) (\<lambda>_. eret True))"
      by (intro queue.keeps_satisfy keeps_intros)
    ultimately show ?thesis using keepsD at_number_queue [OF s] by metis
  next
    case False
    then have "verify_number m a b msgSeqNum s = (Ok True, s)" by (simp add: verify_number_def eff_defs)
    with at_number_queue [OF s] show ?thesis by simp
  qed
  then show ?thesis by (simp add: leads_def)
qed

lemma verify_at:
  assumes "msg_seq_num m = Ok n"
  shows "leads (at_number K n) (verify m a b) (queue_in K)"
proof -
  have eq: "(if a \<or> b then elift (msg_seq_num m) else eret 0) = eret (if a \<or> b then n else 0)"
    using assms by (simp add: elift_def eret_def fun_eq_iff)
  have bad: "leads (at_number K n) (ebind (doBadTime m) (\<lambda>_. eret False)) (queue_in K)"
    "leads (at_number K n) (ebind (doBadCompID m) (\<lambda>_. eret False)) (queue_in K)"
    "leads (at_number K n) (ethrow StdException) (queue_in K)"
    by (intro leads_queue queue.keeps_bad keeps_intros)+
  have "leads (at_number K n) (verify_checks m a b) (queue_in K)"
    unfolding verify_checks_def eq ebind_eret
    by (intro leads_bind_at keeps_at_number) (auto intro!: bad leads_bind_at keeps_at_number verify_number_at)
  then have "leads (at_number K n) (ecatch (verify_checks m a b) (\<lambda>e. ebind disconnect (\<lambda>_. eret False))) (queue_in K)"
    by (rule leads_catch) (auto intro!: leads_keeps keeps_bind queue.keeps_disconnect keeps_basic)
  then show ?thesis
    unfolding verify_def
  proof (rule leads_bind)
    fix ok
    have "keeps (queue_in K) (ebind timestamper (\<lambda>now.
       ebind (modify_state (\<lambda>st. st\<lparr>m_lastReceivedTime := now, m_testRequest := 0\<rparr>)) (\<lambda>_.
       ebind (elift (msg_type m)) (\<lambda>msgType. ebind (fromCallback msgType m) (\<lambda>_. eret True)))))"
      by (intro queue.keeps_timestamper queue.keeps_fromCallback queue.keeps_flags keeps_intros) simp_all
    then show "leads (queue_in K) (if \<not> ok then eret False else ebind timestamper (\<lambda>now.
       ebind (modify_state (\<lambda>st. st\<lparr>m_lastReceivedTime := now, m_testRequest := 0\<rparr>)) (\<lambda>_.
       ebind (elift (msg_type m)) (\<lambda>msgType. ebind (fromCallback msgType m) (\<lambda>_. eret True))))) (queue_in K)"
      by (simp add: leads_keeps keeps_basic)
  qed simp
qed

section \<open>Handlers that drain the queue in the same way\<close>

lemma same_head: "same P m n \<Longrightarrow> same P (ebind m f) (ebind n f)"
  by (simp add: same_def ebind_def)

lemma same_bind_keeps: "keeps P m \<Longrightarrow> (\<And>x. same P (f x) (g x)) \<Longrightarrow> same P (ebind m f) (ebind m g)"
  by (rule same_bind [OF leads_keeps])

lemma same_seq_tail: "keeps P m \<Longrightarrow> same P (eseq ms) (eseq ns) \<Longrightarrow> same P (eseq (m # ms)) (eseq (m # ns))"
  by (simp add: same_bind_keeps)

lemma same_seq_head: "same P m n \<Longrightarrow> same P (eseq (m # ms)) (eseq (n # ms))"
  by (simp add: same_head)

lemma same_option:
  "(x = None \<Longrightarrow> same P m m') \<Longrightarrow> (\<And>y. x = Some y \<Longrightarrow> same P (f y) (g y)) \<Longrightarrow>
   same P (case x of None \<Rightarrow> m | Some y \<Rightarrow> f y) (case x of None \<Rightarrow> m' | Some y \<Rightarrow> g y)"
  by (simp split: option.split)

text \<open>Two ways \<open>dq\<close> and \<open>dq'\<close> to drain the queue that do the same below the bound, and a message that
  is queued within it, if at all.\<close>

lemma dispatch_same:
  assumes v: "\<And>a b. leads P (verify m a b) (queue_in K)" and dq: "same (queue_in K) dq dq'"
    and logon: "t = ''A'' \<Longrightarrow> same P (nextLogon dq m now) (nextLogon dq' m now)"
  shows "same P (dispatch dq t m now) (dispatch dq' t m now)"
proof -
  have handlers: "same P (nextHeartbeat dq m) (nextHeartbeat dq' m)" "same P (nextReject dq m) (nextReject dq' m)"
    "same P (nextTestRequest dq m) (nextTestRequest dq' m)"
    unfolding nextHeartbeat_def nextReject_def nextTestRequest_def
    by (intro same_bind [OF v] same_when same_seq_head dq same_seq_tail queue.keeps_store_changes queue.keeps_generated)+
  have sequence: "same P (nextSequenceReset dq m) (nextSequenceReset dq' m)"
    unfolding nextSequenceReset_def
    by (rule same_bind_keeps [OF keeps_basic(4)], rule same_bind [OF v])
      (intro same_if same_option same_refl same_bind_keeps [OF keeps_basic(3)] same_bind_keeps [OF keeps_basic(4)]
        same_seq_tail queue.keeps_store_changes same_seq_head dq)
  show ?thesis
    unfolding dispatch_def Let_def by (intro same_if same_refl same_head logon handlers sequence)
qed

lemma process_same:
  assumes v: "\<And>a b. leads P (verify m a b) (queue_in K)" and dq: "same (queue_in K) dq dq'"
    and logon: "msg_type m = Ok ''A'' \<Longrightarrow> same P (nextLogon dq m now) (nextLogon dq' m now)"
    and version: "\<And>t b. keeps P (set_target_version t b m)"
  shows "same P (process dq m now) (process dq' m now)"
proof (cases "msg_type m")
  case (Inl e)
  then have eq: "elift (msg_type m) = ethrow e" by (simp add: elift_def ethrow_def fun_eq_iff)
  show ?thesis unfolding process_def eq ebind_ethrow by (rule same_refl)
next
  case (Inr t)
  then have eq: "elift (msg_type m) = eret t" by (simp add: elift_def eret_def fun_eq_iff)
  have "keeps P (validate_incoming m)" unfolding validate_incoming_def by (intro keeps_intros)
  then show ?thesis
    unfolding process_def eq ebind_eret
    by (intro same_bind_keeps [OF keeps_basic(3)] same_bind_keeps [OF keeps_basic(4)] same_if same_refl
        same_bind_keeps [OF version] same_bind_keeps dispatch_same [OF v dq])
      (use Inr logon in auto)
qed

lemma next_with_same:
  assumes v: "\<And>a b. leads P (verify m a b) (queue_in K)" and dq: "same (queue_in K) dq dq'"
    and logon: "msg_type m = Ok ''A'' \<Longrightarrow> same P (nextLogon dq m now) (nextLogon dq' m now)"
    and version: "\<And>t b. keeps P (set_target_version t b m)"
    and after: "q \<or> leads P (process dq m now) (queue_in K)"
  shows "same P (next_with dq m now q) (next_with dq' m now q)"
proof -
  let ?guarded = "\<lambda>dq. ecatch (process dq m now) (\<lambda>e. ebind (next_catch m e) (\<lambda>_. eret True))"
  have eq: "same P (?guarded dq) (?guarded dq')" by (intro same_catch process_same [OF v dq logon version])
  show ?thesis
  proof (cases q)
    case True
    then show ?thesis unfolding next_with_def ewhen_def using same_head [OF eq] by simp
  next
    case False
    with after have "leads P (process dq m now) (queue_in K)" by simp
    then have "leads P (?guarded dq) (queue_in K)"
      by (rule leads_catch) (auto intro!: leads_keeps keeps_bind queue.keeps_next_catch keeps_basic)
    with eq show ?thesis
      unfolding next_with_def by (rule same_bind_left) (intro same_intros same_head dq)
  qed
qed

section \<open>Fuel for the queue\<close>

text \<open>A message taken from the queue is the expected one.\<close>

lemma retrieved:
  assumes s: "queue_in K s" and found: "smap_find (m_queue (m_state s)) (getExpectedTargetNum s) = Some m"
  obtains s' where "on_state (retrieve (getExpectedTargetNum s)) s = (Ok (Some m), s')"
    "at_number (K - {getExpectedTargetNum s}) (getExpectedTargetNum s) s'"
    "msg_seq_num m = Ok (getExpectedTargetNum s)" "getExpectedTargetNum s \<in> K"
proof -
  let ?n = "getExpectedTargetNum s" and ?q = "m_queue (m_state s)"
  let ?s' = "s\<lparr>m_state := (m_state s)\<lparr>m_queue := smap_erase ?n ?q\<rparr>\<rparr>"
  from found have mem: "(?n, m) \<in> set ?q" by (rule map_of_SomeD)
  have "on_state (retrieve ?n) s = (Ok (Some m), ?s')"
    using found by (simp add: on_state_def ezoom_def retrieve_def)
  moreover have "at_number (K - {?n}) ?n ?s'"
    using s queue_ok_smaller(2) [of ?q ?n]
    by (auto simp: at_number_def queue_in_def getExpectedTargetNum_def state_nextTarget_def) (auto simp: smap_erase_def)
  moreover have "msg_seq_num m = Ok ?n" "?n \<in> K"
    using s mem by (auto simp: queue_in_def queue_ok_def)
  ultimately show thesis by (rule that)
qed

lemma next_with_queued:
  assumes m: "msg_seq_num m = Ok n" "msg_type m = Ok t" "t \<noteq> ''A''"
    and dq: "same (queue_in K) dq dq'"
  shows "same (at_number K n) (next_with dq m now True) (next_with dq' m now True)"
  by (rule next_with_same [OF verify_at [OF m(1)] dq]) (use m in \<open>auto intro: keeps_at_number\<close>)

lemma next_with_queued_leads:
  assumes m: "msg_seq_num m = Ok n" "msg_type m = Ok t" "t \<noteq> ''A''" "t \<noteq> ''2''" and dq: "keeps (queue_in K) dq"
  shows "leads (at_number K n) (next_with dq m now True) (queue_in K)"
proof -
  note v = leads_bind [OF verify_at [OF m(1)], where Q = "queue_in K"]
  have handlers: "leads (at_number K n) (nextHeartbeat dq m) (queue_in K)" "leads (at_number K n) (nextReject dq m) (queue_in K)"
    "leads (at_number K n) (nextTestRequest dq m) (queue_in K)" "leads (at_number K n) (nextLogout m) (queue_in K)"
    unfolding nextHeartbeat_def nextReject_def nextTestRequest_def nextLogout_def
    by (intro v leads_keeps dq queue.keeps_store_changes queue.keeps_generated queue.keep_reset_state queue.keeps_disconnect
        queue.keeps_gets_state keeps_intros; assumption)+
  have sequence: "leads (at_number K n) (nextSequenceReset dq m) (queue_in K)"
    unfolding nextSequenceReset_def
    by (intro leads_bind_at keeps_at_number v leads_keeps dq queue.keeps_store_changes queue.keeps_rejects keeps_intros; assumption)
  have app: "leads (at_number K n) (ebind (verify m True True) (\<lambda>ok. if \<not> ok then eret False else ebind incrNextTarget (\<lambda>_. eret True))) (queue_in K)"
    by (intro v leads_keeps queue.keeps_store_changes keeps_intros; assumption)
  have ret: "leads P (ebind h (\<lambda>_. eret True)) Q" if "leads P h Q" for P Q and h :: "unit action"
    using that by (rule leads_bind) (auto simp: leads_def eret_def)
  have dispatch: "leads (at_number K n) (dispatch dq t m now) (queue_in K)"
    unfolding dispatch_def Let_def using m(3,4) ret [OF handlers(1)] ret [OF handlers(2)] ret [OF handlers(3)] ret [OF handlers(4)]
      ret [OF sequence] app by simp
  have eq: "elift (msg_type m) = eret t" using m(2) by (simp add: elift_def eret_def fun_eq_iff)
  have "leads (at_number K n) (process dq m now) (queue_in K)"
    unfolding process_def eq ebind_eret
    by (intro leads_bind_at keeps_at_number leads_if dispatch leads_queue queue.keeps_Session_reset keeps_bind keeps_basic)
  then have "leads (at_number K n) (ecatch (process dq m now) (\<lambda>e. ebind (next_catch m e) (\<lambda>_. eret True))) (queue_in K)"
    by (rule leads_catch) (auto intro!: leads_keeps keeps_bind queue.keeps_next_catch keeps_basic)
  then show ?thesis
    unfolding next_with_def
    by (rule leads_bind) (auto intro!: leads_keeps keeps_intros queue.keeps_timestamper queue.keeps_next_timer)
qed

lemma queued_step_same:
  assumes m: "msg_seq_num m = Ok n" and IH: "same (queue_in K) (nextQueued f now) (nextQueued f' now)"
  shows "same (at_number K n)
    (ebind (elift (msg_type m)) (\<lambda>msgType.
     ebind (if msgType = ''A'' \<or> msgType = ''2'' then incrNextTarget else next_with (nextQueued f now) m now True) (\<lambda>_.
     nextQueued f now)))
    (ebind (elift (msg_type m)) (\<lambda>msgType.
     ebind (if msgType = ''A'' \<or> msgType = ''2'' then incrNextTarget else next_with (nextQueued f' now) m now True) (\<lambda>_.
     nextQueued f' now)))"
proof (cases "msg_type m")
  case (Inl e)
  then have eq: "elift (msg_type m) = ethrow e" by (simp add: elift_def ethrow_def fun_eq_iff)
  show ?thesis unfolding eq ebind_ethrow by (rule same_refl)
next
  case (Inr t)
  then have eq: "elift (msg_type m) = eret t" by (simp add: elift_def eret_def fun_eq_iff)
  show ?thesis
  proof (cases "t = ''A'' \<or> t = ''2''")
    case True
    have "same (at_number K n) (ebind incrNextTarget (\<lambda>_. nextQueued f now)) (ebind incrNextTarget (\<lambda>_. nextQueued f' now))"
      by (rule same_bind [OF leads_queue [OF queue.keeps_store_changes(3)] IH])
    with True show ?thesis unfolding eq ebind_eret by simp
  next
    case False
    then have "same (at_number K n) (ebind (next_with (nextQueued f now) m now True) (\<lambda>_. nextQueued f now))
        (ebind (next_with (nextQueued f' now) m now True) (\<lambda>_. nextQueued f' now))"
      by (intro same_bind_left [OF next_with_queued [OF m Inr _ IH] next_with_queued_leads [OF m Inr] IH] queue.keeps_nextQueued) auto
    with False show ?thesis unfolding eq ebind_eret by simp
  qed
qed

lemma nextQueued_fuel:
  "finite K \<Longrightarrow> card K < fuel \<Longrightarrow> card K < fuel' \<Longrightarrow> same (queue_in K) (nextQueued fuel now) (nextQueued fuel' now)"
proof (induction "card K" arbitrary: K fuel fuel' rule: less_induct)
  case less
  obtain f f' where f: "fuel = Suc f" "fuel' = Suc f'" using less.prems by (metis gr0_implies_Suc gr_implies_not0 neq0_conv)
  have "nextQueued fuel now s = nextQueued fuel' now s" if s: "queue_in K s" for s
  proof (cases "smap_find (m_queue (m_state s)) (getExpectedTargetNum s)")
    case None
    then have "on_state (retrieve (getExpectedTargetNum s)) s = (Ok None, s)"
      by (simp add: on_state_def ezoom_def retrieve_def)
    then show ?thesis by (simp add: f ebind_def [of "on_state _"])
  next
    case (Some m)
    let ?n = "getExpectedTargetNum s"
    from s Some obtain s' where s': "on_state (retrieve ?n) s = (Ok (Some m), s')" "at_number (K - {?n}) ?n s'"
      "msg_seq_num m = Ok ?n" "?n \<in> K" by (rule retrieved)
    have card: "card (K - {?n}) < card K" using s'(4) less.prems(1) by (metis card_Diff1_less)
    have "same (queue_in (K - {?n})) (nextQueued f now) (nextQueued f' now)"
      using less.prems card unfolding f by (intro less.hyps) auto
    from sameD [OF queued_step_same [OF s'(3) this] s'(2)] show ?thesis by (simp add: f ebind_def [of "on_state _"] s'(1))
  qed
  then show ?case by (simp add: same_def)
qed

section \<open>Fuel for a message\<close>

lemma nextLogon_same:
  assumes m: "queue.allowed_msg K m" and dq: "same (queue_in K) dq dq'" "keeps (queue_in K) dq"
  shows "same (queue_in K) (nextLogon dq m now) (nextLogon dq' m now)"
proof -
  have response: "same (queue_in K) (logon_response dq m flag r) (logon_response dq' m flag r)" for flag r
    unfolding logon_response_def
    by (intro same_seq_tail same_seq_head keeps_bind keeps_when keeps_seq queue.keeps_heartBtInt queue.keeps_generated
        queue.keeps_gets_state queue.keeps_flags same_bind_keeps [OF keeps_basic(3)] same_bind_keeps [OF keeps_basic(4)]
        queue.keeps_store_changes same_if same_refl dq(1)) simp_all
  have "same (queue_in K) (logon_accepted dq m flag) (logon_accepted dq' m flag)" for flag
    unfolding logon_accepted_def
    by (intro same_bind_keeps [OF keeps_basic(3)] same_bind_keeps [OF keeps_basic(4)] same_bind_keeps [OF queue.keeps_flags]
       same_option same_if same_refl response) simp_all
  then show ?thesis
    unfolding nextLogon_def
    by (intro same_bind_keeps [OF keeps_basic(3)] same_bind_keeps [OF keeps_basic(4)] same_bind_keeps [OF queue.keeps_flags]
       same_bind_keeps [OF queue.keeps_verify [OF m]] same_bind_keeps [OF queue.keep_refresh] same_bind_keeps [OF queue.keep_reset_state]
       same_bind_keeps [OF queue.keeps_gets_state] same_if same_refl) simp_all
qed

lemma next_message_fuel:
  assumes m: "queue.allowed_msg K m" and K: "finite K" "card K < fuel" "card K < fuel'"
  shows "same (queue_in K) (next_with (nextQueued fuel now) m now False) (next_with (nextQueued fuel' now) m now False)"
proof (rule next_with_same [where K = K])
  note dq = nextQueued_fuel [OF K] queue.keeps_nextQueued
  show "same (queue_in K) (nextLogon (nextQueued fuel now) m now) (nextLogon (nextQueued fuel' now) m now)"
    by (rule nextLogon_same [OF m dq])
  have "keeps (queue_in K) (process (nextQueued fuel now) m now)"
    by (rule queue.keeps_process [OF m dq(2)])
  then show "False \<or> leads (queue_in K) (process (nextQueued fuel now) m now) (queue_in K)" by (simp add: leads_keeps)
qed (use m K in \<open>auto intro!: leads_keeps queue.keeps_verify queue.keeps_version nextQueued_fuel\<close>)

section \<open>Processing a message ends\<close>

lemma next_message_fuel_enough:
  assumes q: "queue_ok (m_queue (m_state s))" and fuel: "length (m_queue (m_state s)) + 2 \<le> fuel"
  shows "next_with (nextQueued fuel now) m now False s = next_message m now s"
proof -
  let ?q = "m_queue (m_state s)"
  define K where "K = fst ` set ?q \<union> (case msg_seq_num m of Inl e \<Rightarrow> {} | Inr n \<Rightarrow> {n})"
  have "card (fst ` set ?q) \<le> length ?q" by (metis card_image_le card_length finite_set order_trans)
  moreover have "card (case msg_seq_num m of Inl e \<Rightarrow> {} | Inr n \<Rightarrow> {n}) \<le> 1" by (simp split: sum.split)
  ultimately have K: "finite K" "card K < length ?q + 2" "card K < fuel"
    using fuel card_Un_le [of "fst ` set ?q" "case msg_seq_num m of Inl e \<Rightarrow> {} | Inr n \<Rightarrow> {n}"]
    by (auto simp: K_def split: sum.split)
  have "queue.allowed_msg K m" unfolding queue.allowed_msg_def by (simp add: K_def)
  moreover have "queue_in K s" using q by (auto simp: queue_in_def K_def)
  ultimately show ?thesis
    unfolding next_message_def using sameD [OF next_message_fuel [OF _ K(1,3,2)]] by blast
qed

text \<open>C8: processing a message ends. The code works through its queue in a loop that calls \<open>next\<close> for every message
  it takes out, and \<open>next\<close> runs the loop again. In every session a program can come to, this nesting is never
  deeper than the queue is long plus two: with any larger bound on it the result and the final state are the
  same.\<close>

theorem next_message_terminates:
  assumes "session_reachable s" "length (m_queue (m_state s)) + 2 \<le> fuel"
  shows "next_with (nextQueued fuel now) message now False s = next_message message now s"
  using next_message_fuel_enough session_reachable_ok [OF assms(1)] assms(2) by (simp add: session_ok_def)

theorem next_message_terminates_witness:
  "next_with (nextQueued 7 epoch) new_Message epoch False example_session = next_message new_Message epoch example_session"
  using next_message_terminates [OF example_reachable, of 7] example_queue by simp

end
