(* ===== verification/SessionSending.thy ===== *)
theory SessionSending
  imports SessionInvariants MessageRouting
begin

text \<open>
  What sending an application message does: on success it is stored under the expected number, the number moves on and
  the text goes out; otherwise store, numbers and connection are as before. The store performs the
  \<open>send_one\<close> of its contract, so that a run of sends can be read back.
\<close>

section \<open>Before the message is sequenced\<close>

text \<open>\<open>t\<close> is \<open>s\<close> up to clock, callbacks and the time of the last message sent.\<close>

definition unsent :: "Session \<Rightarrow> Session \<Rightarrow> bool" where
  "unsent s t = (m_pStore (m_state t) = m_pStore (m_state s) \<and> s_out t = s_out s \<and> isLoggedOn t = isLoggedOn s \<and>
     m_pResponder t = m_pResponder s \<and> m_persistMessages t = m_persistMessages s \<and> m_application t = m_application s)"

lemma unsent_refl [simp]: "unsent s s"
  by (simp add: unsent_def)

lemma keeps_unsent [keeps_intros]: "keeps (unsent s) timestamper" "keeps (unsent s) (callback f m)" "keeps (unsent s) set_lastSentTime"
  by (auto simp: keeps_def unsent_def timestamper_def callback_def set_lastSentTime_def modify_state_def isLoggedOn_def eff_defs)

lemma keeps_unsent_prepare [keeps_intros]: "keeps (unsent s) (prepareToSend m n False)"
  unfolding prepareToSend_def insertSendingTime_def catch_IOException_def if_False by (intro keeps_intros)

text \<open>The callback keeps the header a map from tags to values, as every operation of \<open>FieldMap\<close> does.\<close>

definition keeps_headers :: "Application \<Rightarrow> bool" where
  "keeps_headers application = (\<forall>i m m'. header_ok (m_header m) \<longrightarrow> toApp application i m = Ok m' \<longrightarrow> header_ok (m_header m'))"

lemma header_ok_set: "header_ok (m_header m) \<Longrightarrow> int32 (m_tag f) \<Longrightarrow> header_ok (m_header (set_header f m))"
  using fields.ok_put [of "m_header m" f] setField_tags(2) [of "m_header m" f] by (simp add: set_header_def header_ok_def)

lemma header_ok_remove: "header_ok (m_header m) \<Longrightarrow> int32 t \<Longrightarrow> header_ok (m_header (remove_header t m))"
  by (simp add: remove_header_def removeField_value)

lemma prepared_header:
  assumes "keeps_headers (m_application s)" "header_ok (m_header m)" "prepareToSend m 0 False s = (Ok (ok, m'), s')"
  shows "header_ok (m_header m')"
proof -
  have time: "header_ok (m_header (set_header f m))" if "time_field TAG_SendingTime t p = Ok f" "header_ok (m_header m)" for f t p m
    using that by (auto simp: time_field_def mk_FieldBase_def int32_def intro!: header_ok_set split: option.splits sum.splits)
  define m1 where "m1 = remove_header TAG_MsgSeqNum (set_routing (m_sessionID s) m)"
  let ?t = "s\<lparr>s_ticks := Suc (s_ticks s)\<rparr>"
  have m1: "header_ok (m_header m1)"
    using assms(2) by (simp add: m1_def set_routing_def header_ok_remove header_ok_set mk_FieldBase_def int32_def)
  show ?thesis
  proof (cases "time_field TAG_SendingTime (m_timestamper s (s_ticks s)) (getSupportedTimestampPrecision ?t)")
    case (Inl e)
    with assms(3) show ?thesis by (simp add: prepareToSend_def insertSendingTime_def timestamper_def eff_defs)
  next
    case (Inr f)
    define m2 where "m2 = set_header f m1"
    have m2: "header_ok (m_header m2)" using time [OF Inr m1] by (simp add: m2_def)
    have run: "prepareToSend m 0 False s = catch_IOException (ebind (egets (\<lambda>s. \<not> isLoggedOn s \<and> shouldSendReset s)) (\<lambda>cleared.
          if cleared then eret (False, m2)
          else ecatch (ebind (callback toApp m2) (\<lambda>message. eret (True, message)))
                 (\<lambda>e. if e = DoNotSend then eret (False, m2) else ethrow e))) (eret (False, m2)) ?t"
      unfolding m2_def m1_def using Inr
      by (simp add: prepareToSend_def insertSendingTime_def timestamper_def ebind_def [of timestamper] ebind_def [of "elift _"]
          ebind_def [of "ebind _ _"] elift_def eret_def [of "set_header _ _"])
    show ?thesis
    proof (cases "toApp (m_application s) (s_calls s) m2")
      case (Inl e)
      with assms(3) m2 show ?thesis
        unfolding run by (auto simp: catch_IOException_def callback_def eff_defs split: if_splits)
    next
      case (Inr m3)
      with assms(1) m2 have "header_ok (m_header m3)" by (auto simp: keeps_headers_def)
      with assms(3) m2 Inr show ?thesis
        unfolding run by (auto simp: catch_IOException_def callback_def eff_defs split: if_splits)
    qed
  qed
qed

section \<open>The number of a message\<close>

lemma msg_seq_num_value:
  assumes "map_ok (m_header m)" "field_value (m_header m) TAG_MsgSeqNum = Some (SEQNUM_string n)"
  shows "msg_seq_num m = Ok n"
  using assms
  by (auto simp: msg_seq_num_def field_of_def getFieldRef_def getFieldIfSet_find int32_def field_value_def UInt64Field_valueOf_def valueOf_def)

lemma UInt64Field_sel [simp]: "m_tag (UInt64Field t n) = t" "m_string (UInt64Field t n) = SEQNUM_string n"
  by (simp_all add: UInt64Field_def mk_FieldBase_def)

lemma numbered_message:
  assumes "header_ok (m_header m)"
  shows "msg_seq_num (set_header (UInt64Field TAG_MsgSeqNum n) m) = Ok n"
    "Message_toString (set_header (UInt64Field TAG_MsgSeqNum n) m) = Ok (text, m3) \<Longrightarrow> msg_seq_num m3 = Ok n"
proof -
  let ?h = "m_header (set_header (UInt64Field TAG_MsgSeqNum n) m)"
  have ok: "map_ok (m_header m)" using assms by (simp add: header_ok_def)
  have h: "map_ok ?h" "field_value ?h TAG_MsgSeqNum = Some (SEQNUM_string n)"
    using fields.ok_put [OF ok, of "UInt64Field TAG_MsgSeqNum n"] fields.get_put [OF ok, of "UInt64Field TAG_MsgSeqNum n"]
    by (simp_all add: set_header_def int32_def)
  then show "msg_seq_num (set_header (UInt64Field TAG_MsgSeqNum n) m) = Ok n" by (rule msg_seq_num_value)
  assume "Message_toString (set_header (UInt64Field TAG_MsgSeqNum n) m) = Ok (text, m3)"
  then obtain len where "m_header m3 = setField (IntField TAG_BodyLength len) ?h"
    by (auto simp: Message_toString_def Let_def split: option.splits)
  then show "msg_seq_num m3 = Ok n"
    using h fields.ok_put [OF h(1), of "IntField TAG_BodyLength len"] fields.get_put [OF h(1), of "IntField TAG_BodyLength len"]
    by (intro msg_seq_num_value) (simp_all add: int32_def)
qed

section \<open>Sending\<close>

text \<open>The outcome of a send from \<open>s\<close>: \<open>text\<close> is the encoding of a message with the expected number.\<close>

definition sent_as :: "Session \<Rightarrow> string \<Rightarrow> Session \<Rightarrow> bool" where
  "sent_as s text s' =
     ((\<exists>m m'. msg_seq_num m = Ok (getExpectedSenderNum s) \<and> Message_toString m = Ok (text, m')) \<and>
      m_pStore (m_state s') =
        (if m_persistMessages s then store.send_one text (m_pStore (m_state s)) else store_incrNextSender (m_pStore (m_state s))) \<and>
      s_out s' = s_out s @ (if isLoggedOn s \<and> m_pResponder s then [Sent text] else []))"

lemma persist_run:
  assumes "msg_seq_num m = Ok n"
  shows "persist m w s = (Ok (), s\<lparr>m_state := state_incrNextSender (if m_persistMessages s then state_set n w (m_state s) else m_state s)\<rparr>)"
  using assms by (simp add: persist_def modify_state_def eff_defs)

lemma isLoggedOn_store [simp]:
  "isLoggedOn (s\<lparr>m_state := state_incrNextSender (if b then state_set n w (m_state s) else m_state s)\<rparr>) = isLoggedOn s"
  by (simp add: isLoggedOn_def state_defs)

lemma sendSequenced_outcome:
  assumes "header_ok (m_header m)" "sendSequenced m 0 False s = (r, s')"
  shows "if r = Ok True then \<exists>text. sent_as s text s' else unsent s s'"
proof -
  define s1 where "s1 = snd (set_lastSentTime s)"
  have s1: "set_lastSentTime s = (Ok (), s1)" "unsent s s1" "getExpectedSenderNum s1 = getExpectedSenderNum s"
    using keepsD [OF keeps_unsent(3) unsent_refl, of s]
    by (simp_all add: s1_def) (simp_all add: set_lastSentTime_def timestamper_def modify_state_def eff_defs getExpectedSenderNum_def state_nextSender_def)
  define m2 where "m2 = set_header (UInt64Field TAG_MsgSeqNum (getExpectedSenderNum s)) m"
  note number = numbered_message [OF assms(1), of "getExpectedSenderNum s", folded m2_def]
  show ?thesis
  proof (cases "\<not> isLoggedOn s1 \<and> shouldSendReset s1")
    case True
    with assms(2) s1 show ?thesis
      by (auto simp: sendSequenced_def catch_IOException_def ecatch_def ebind_def [of set_lastSentTime] eret_def Let_def)
  next
    case False
    show ?thesis
    proof (cases "Message_toString m2")
      case (Inl e)
      with assms(2) s1 False show ?thesis
        by (auto simp: sendSequenced_def catch_IOException_def ecatch_def ebind_def [of set_lastSentTime] sequence_out_def m2_def [symmetric]
           eff_defs Let_def split: if_splits)
    next
      case (Inr p)
      then obtain w m3 where t: "Message_toString m2 = Ok (w, m3)" by (cases p) auto
      define s2 where "s2 = s1\<lparr>m_state := state_incrNextSender (if m_persistMessages s1
        then state_set (getExpectedSenderNum s) w (m_state s1) else m_state s1)\<rparr>"
      have "sendSequenced m 0 False s = (Ok True, if isLoggedOn s \<and> m_pResponder s then s2\<lparr>s_out := s_out s @ [Sent w]\<rparr> else s2)"
      proof -
        have seq: "sequence_out m2 0 s1 = (Ok w, s2)"
          unfolding s2_def sequence_out_def using persist_run [OF number(2) [OF t], of w s1]
          by (simp add: t ebind_def elift_def eret_def ewhen_def)
        have on: "isLoggedOn s2 = isLoggedOn s" "m_pResponder s2 = m_pResponder s" "s_out s2 = s_out s"
          using s1(2) by (simp_all add: s2_def unsent_def)
        have "sendSequenced m 0 False s = catch_IOException (ebind (sequence_out m2 0) (\<lambda>text. ebind (egets isLoggedOn) (\<lambda>loggedOn.
            ebind (if loggedOn then send_string text else eret False) (\<lambda>_. eret True)))) (eret False) s1"
          using s1(1,3) False by (auto simp: sendSequenced_def catch_IOException_def ecatch_def ebind_def [of set_lastSentTime] Let_def m2_def)
        then show ?thesis
          by (cases "isLoggedOn s"; cases "m_pResponder s")
            (simp_all add: catch_IOException_def ecatch_def ebind_def [of "sequence_out _ _"] seq on send_string_def emit_def eret_def ebind_def [of "ebind _ _"])
      qed
      moreover have "sent_as s w (if isLoggedOn s \<and> m_pResponder s then s2\<lparr>s_out := s_out s @ [Sent w]\<rparr> else s2)"
        using s1 t number(1)
        by (auto simp: sent_as_def s2_def unsent_def state_defs store.send_one_def Let_def store_incr store.numbers_set getExpectedSenderNum_def)
      ultimately show ?thesis using assms(2) by auto
    qed
  qed
qed

lemma unsent_trans: "unsent s t \<Longrightarrow> unsent t u \<Longrightarrow> unsent s u"
  by (simp add: unsent_def)

lemma sent_as_unsent: "unsent s t \<Longrightarrow> sent_as t w u \<Longrightarrow> sent_as s w u"
  by (simp add: unsent_def sent_as_def getExpectedSenderNum_def state_nextSender_def)

lemma Session_send_outcome:
  assumes app: "keeps_headers (m_application s)" and m: "header_ok (m_header m)" "field_value (m_header m) TAG_MsgType = Some t" "\<not> isAdminMsgType t"
    and run: "Session_send m s = (r, s')"
  shows "if r = Ok True then \<exists>text. sent_as s text s' else unsent s s'"
proof -
  define m1 where "m1 = remove_header TAG_OrigSendingTime (remove_header TAG_PossDupFlag m)"
  have m1: "header_ok (m_header m1)" using m(1) by (simp add: m1_def header_ok_remove int32_def)
  have "field_value (m_header m1) TAG_MsgType = Some t"
    using m(1,2) by (simp add: m1_def remove_header_def removeField_value int32_def)
  with m1 obtain f where f: "getFieldIfSet (m_header m1) TAG_MsgType = Some f" "m_string f = t"
    by (auto simp: header_ok_def getFieldIfSet_find int32_def field_value_def)
  obtain q s1 where p: "prepareToSend m1 0 False s = (q, s1)" by (cases "prepareToSend m1 0 False s")
  have u: "unsent s s1" using keepsD [OF keeps_unsent_prepare unsent_refl, of s m1 0] p by simp
  have raw: "Session_send m s = ebind (prepareToSend m1 0 False) (\<lambda>(ok, m). if \<not> ok then eret False else sendSequenced m 0 False) s"
    using f m(3) by (simp add: Session_send_def sendRaw_def m1_def [symmetric])
  show ?thesis
  proof (cases q)
    case (Inr x)
    obtain ok m2 where x: "x = (ok, m2)" by (cases x)
    have m2: "header_ok (m_header m2)" using prepared_header [OF app m1] p Inr x by simp
    show ?thesis
    proof (cases ok)
      case True
      with raw p Inr x run have "sendSequenced m2 0 False s1 = (r, s')" by (simp add: ebind_def)
      from sendSequenced_outcome [OF m2 this] u show ?thesis by (auto intro: unsent_trans sent_as_unsent split: if_splits)
    qed (use raw p Inr x run u in \<open>auto simp: ebind_def eret_def\<close>)
  qed (use raw p run u in \<open>auto simp: ebind_def\<close>)
qed

text \<open>C7: sending numbers and stores exactly what goes out. Sending an application message either returns true, and
  then one text was made of a message that carries the expected sender number, it is stored under that number
  when messages are persisted, the expected number has moved on by one, and the text went to the connection exactly
  when the session is logged on and connected; or store, numbers and connection are untouched, whatever
  the application's callback did.\<close>

theorem send_numbers_and_stores:
  assumes "store_ok (m_pStore (m_state s))" "keeps_headers (m_application s)" "header_ok (m_header m)"
    "field_value (m_header m) TAG_MsgType = Some t" "\<not> isAdminMsgType t" "Session_send m s = (r, s')"
  shows "if r = Ok True
    then \<exists>w m1 m2. msg_seq_num m1 = Ok (getExpectedSenderNum s) \<and> Message_toString m1 = Ok (w, m2) \<and>
      getExpectedSenderNum s' = getExpectedSenderNum s + 1 \<and>
      (if \<not> m_persistMessages s then stored_in (m_pStore (m_state s')) = stored_in (m_pStore (m_state s))
       else NUL \<in> set w \<or> stored_in (m_pStore (m_state s')) = (stored_in (m_pStore (m_state s)))(getExpectedSenderNum s \<mapsto> w)) \<and>
      s_out s' = s_out s @ (if isLoggedOn s \<and> m_pResponder s then [Sent w] else [])
    else m_pStore (m_state s') = m_pStore (m_state s) \<and> s_out s' = s_out s"
proof (cases "r = Ok True")
  case True
  with Session_send_outcome [OF assms(2-6)] obtain w where w: "sent_as s w s'" by auto
  then obtain m1 m2 where m: "msg_seq_num m1 = Ok (getExpectedSenderNum s)" "Message_toString m1 = Ok (w, m2)" by (auto simp: sent_as_def)
  have "getExpectedSenderNum s' = getExpectedSenderNum s + 1"
    using w by (simp add: sent_as_def getExpectedSenderNum_def state_nextSender_def store.send_one_def Let_def store.numbers store_incr)
  moreover have "if \<not> m_persistMessages s then stored_in (m_pStore (m_state s')) = stored_in (m_pStore (m_state s))
      else NUL \<in> set w \<or> stored_in (m_pStore (m_state s')) = (stored_in (m_pStore (m_state s)))(getExpectedSenderNum s \<mapsto> w)"
    using w store.stored_set [OF assms(1), of w "getExpectedSenderNum s"]
    by (auto simp: sent_as_def getExpectedSenderNum_def state_nextSender_def store.send_one_def Let_def store.stored_numbers store_incr)
  moreover have "s_out s' = s_out s @ (if isLoggedOn s \<and> m_pResponder s then [Sent w] else [])"
    using w by (simp add: sent_as_def)
  ultimately show ?thesis
    using m by (intro if_P [THEN iffD2, OF True] exI [of _ w] exI [of _ m1] exI [of _ m2] conjI)
next
  case False
  with Session_send_outcome [OF assms(2-6)] show ?thesis by (simp add: unsent_def)
qed

definition order_message :: Message where
  "order_message = set_header (mk_FieldBase TAG_MsgType ''D'') new_Message"

theorem send_numbers_and_stores_witness:
  "getExpectedSenderNum (snd (Session_send order_message example_session)) = (if fst (Session_send order_message example_session) = Ok True then 2 else 1)"
proof -
  let ?s = "example_session" and ?m = "order_message"
  have h: "header_ok (m_header new_Message)" by (simp add: header_ok_def new_Message_def) (simp add: distinct_tags_def mk_FieldMap_def)
  have "header_ok (m_header ?m)" "field_value (m_header ?m) TAG_MsgType = Some ''D''"
    using header_ok_set [OF h] fields.get_put [of "m_header new_Message" "mk_FieldBase TAG_MsgType ''D''"] h
    by (simp_all add: order_message_def set_header_def header_ok_def int32_def mk_FieldBase_def)
  moreover have "keeps_headers (m_application ?s)" by (simp add: example_fields keeps_headers_def example_application_def)
  moreover have "store_ok (m_pStore (m_state ?s))" using session_reachable_ok [OF example_reachable] by (simp add: session_ok_def)
  moreover have "\<not> isAdminMsgType ''D''" by (simp add: isAdminMsgType_def)
  ultimately have "if fst (Session_send ?m ?s) = Ok True
      then getExpectedSenderNum (snd (Session_send ?m ?s)) = getExpectedSenderNum ?s + 1
      else m_pStore (m_state (snd (Session_send ?m ?s))) = m_pStore (m_state ?s)"
    using send_numbers_and_stores [of ?s ?m "''D''", OF _ _ _ _ _ surjective_pairing] by (auto split: if_splits)
  moreover have "getExpectedSenderNum ?s = 1"
    by (simp add: getExpectedSenderNum_def state_nextSender_def example_fields new_SessionState_def new_MemoryStore_def)
  ultimately show ?thesis by (auto simp: getExpectedSenderNum_def state_nextSender_def split: if_splits)
qed

end
