(* ===== verification/SessionTimers.thy ===== *)
theory SessionTimers
  imports SessionInvariants
begin

text \<open>
  When the timers of a session fire, and what disconnecting and resetting leave behind. The thresholds of the
  code are products of \<open>double\<close>s; rounding never moves them across a whole number of seconds.
\<close>

section \<open>Rounding\<close>

lemma bit_length_upper: "n < 2 ^ bit_length n"
proof (induction n rule: bit_length.induct)
  case (1 n)
  then show ?case by (cases "n = 0") (auto simp: bit_length.simps [of n])
qed

lemma bit_length_lower: "0 < n \<Longrightarrow> 2 ^ (bit_length n - 1) \<le> n"
proof (induction n rule: bit_length.induct)
  case (1 n)
  then show ?case
  proof (cases "n div 2 = 0")
    case False
    then obtain k where "bit_length (n div 2) = Suc k" using bit_length_upper [of "n div 2"] by (cases "bit_length (n div 2)") auto
    with 1 False show ?thesis by (simp add: bit_length.simps [of n])
  qed (auto simp: bit_length.simps [of n] bit_length.simps [of 0])
qed

lemma bit_length_le:
  assumes "n < 2 ^ k"
  shows "bit_length n \<le> k"
proof (rule ccontr)
  assume "\<not> bit_length n \<le> k"
  moreover from this have "0 < n" by (cases n) (simp_all add: bit_length.simps [of 0])
  ultimately have "2 ^ (bit_length n - 1) \<le> n" "(2 :: nat) ^ k \<le> 2 ^ (bit_length n - 1)"
    using bit_length_lower [of n] by (auto intro: power_increasing)
  with assms show False by simp
qed

lemma round53_small: "n < 2 ^ 53 \<Longrightarrow> round53 n = n"
  using bit_length_le [of n 53] by (simp add: round53_def)

text \<open>A whole number of seconds above the product stays above the rounded product.\<close>

lemma round53_le:
  assumes "n \<le> M" "2 ^ 52 dvd M" "n < 2 ^ 105"
  shows "round53 n \<le> M"
proof -
  define k where "k = bit_length n - 53"
  have "k \<le> 52" using bit_length_le [OF assms(3)] by (simp add: k_def)
  then have "(2 :: nat) ^ k dvd 2 ^ 52" by (rule le_imp_power_dvd)
  then obtain c where c: "M = 2 ^ k * c" using assms(2) dvd_trans by blast
  show ?thesis
  proof (cases "n mod 2 ^ k = 0")
    case True
    then have "round53 n = n" by (auto simp: round53_def Let_def k_def [symmetric])
    with assms(1) show ?thesis by simp
  next
    case False
    then have "n div 2 ^ k * 2 ^ k < c * 2 ^ k" using assms(1) c div_mult_mod_eq [of n "2 ^ k"] mult.commute [of c "2 ^ k"] by linarith
    then have "n div 2 ^ k + 1 \<le> c" by simp
    then have "(n div 2 ^ k + 1) * 2 ^ k \<le> M" unfolding c by (simp add: mult.commute [of c] del: mult_Suc_right mult_Suc)
    moreover have "round53 n \<le> (n div 2 ^ k + 1) * 2 ^ k" by (simp add: round53_def Let_def k_def)
    ultimately show ?thesis by simp
  qed
qed

lemma round53_ge: "n \<le> round53 n + n div 2 ^ 52"
proof (cases "bit_length n \<le> 53")
  case True
  then show ?thesis by (simp add: round53_def)
next
  case False
  define k where "k = bit_length n - 53"
  have "0 < n" using False by (cases n) (simp_all add: bit_length.simps [of 0])
  have "bit_length n - 1 = k + 52" using False by (simp add: k_def)
  with bit_length_lower [OF \<open>0 < n\<close>] have "2 ^ k * 2 ^ 52 \<le> n" by (simp only: power_add)
  then have "2 ^ k \<le> n div 2 ^ 52" by (simp add: less_eq_div_iff_mult_less_eq)
  moreover have "n div 2 ^ k * 2 ^ k \<le> round53 n" by (simp add: round53_def Let_def k_def)
  moreover have "n < n div 2 ^ k * 2 ^ k + 2 ^ k" by (metis div_mult_mod_eq mod_less_divisor nat_add_left_cancel_less zero_less_numeral zero_less_power)
  ultimately show ?thesis by linarith
qed

lemma round53_pos: "0 < n \<Longrightarrow> 0 < round53 n"
proof -
  assume "0 < n"
  then have "n div 2 ^ 52 < n" by (intro div_less_dividend) simp_all
  with round53_ge [of n] show ?thesis by linarith
qed

text \<open>The factor \<open>c / 2 ^ 52\<close> is \<open>a / 5\<close> rounded to a double.\<close>

lemma round53_threshold:
  fixes a c d hb :: nat
  assumes c: "5 * c \<le> a * 2 ^ 52" "a * 2 ^ 52 \<le> 5 * c + 2" "a \<le> 12" and hb: "hb < 2 ^ 31"
  shows "round53 (c * hb) \<le> d * 2 ^ 52 \<longleftrightarrow> a * hb \<le> 5 * d"
proof -
  define n y where "n = c * hb" and "y = a * hb"
  have n: "5 * n \<le> y * 4503599627370496" "y * 4503599627370496 \<le> 5 * n + 2 * hb"
    using mult_right_mono [OF c(1), of hb] mult_right_mono [OF c(2), of hb] by (simp_all add: n_def y_def algebra_simps)
  have hb': "hb < 2147483648" using hb by simp
  have y: "y \<le> 12 * hb" using c(3) by (simp add: y_def)
  have ge: "n \<le> round53 n + n div 4503599627370496" using round53_ge [of n] by simp
  have "round53 n \<le> d * 4503599627370496 \<longleftrightarrow> y \<le> 5 * d"
  proof
    assume "y \<le> 5 * d"
    with n y hb' have "n \<le> d * 4503599627370496" "n < 40564819207303340847894502572032" by linarith+
    then show "round53 n \<le> d * 4503599627370496" using round53_le [of n "d * 2 ^ 52"] by simp
  next
    assume le: "round53 n \<le> d * 4503599627370496"
    have "5 * (n div 4503599627370496) \<le> y" using n(1) by linarith
    with le n(2) ge y hb' show "y \<le> 5 * d" by linarith
  qed
  then show ?thesis by (simp add: n_def y_def)
qed

section \<open>Thresholds\<close>

lemma times_double_threshold:
  fixes d hb :: int
  assumes "5 * c \<le> a * 2 ^ 52" "a * 2 ^ 52 \<le> 5 * c + 2" "0 < c" "0 < a" "a \<le> 12" "0 < hb" "hb < 2 ^ 31"
  shows "times_double c hb \<le> d * 2 ^ 52 \<longleftrightarrow> a * hb \<le> 5 * d"
proof -
  obtain c' a' hb' :: nat where nat: "c = int c'" "a = int a'" "hb = int hb'"
    using assms by (metis zero_less_imp_eq_int)
  have td: "times_double c hb = int (round53 (c' * hb'))"
    using assms by (simp add: times_double_def nat sgn_mult nat_mult_distrib)
  have pos: "0 < a * hb" "0 < round53 (c' * hb')" using assms nat by (simp_all add: round53_pos)
  show ?thesis
  proof (cases "0 \<le> d")
    case True
    then obtain d' where d: "d = int d'" by (metis nonneg_int_cases)
    have "round53 (c' * hb') \<le> d' * 2 ^ 52 \<longleftrightarrow> a' * hb' \<le> 5 * d'"
      by (rule round53_threshold) (use assms nat in auto)
    moreover have "times_double c hb \<le> d * 2 ^ 52 \<longleftrightarrow> int (round53 (c' * hb')) \<le> int (d' * 2 ^ 52)" by (simp add: td d)
    moreover have "a * hb \<le> 5 * d \<longleftrightarrow> int (a' * hb') \<le> int (5 * d')" by (simp add: nat d)
    ultimately show ?thesis by (simp only: of_nat_le_iff)
  next
    case False
    then have "d * 2 ^ 52 < 0" "5 * d < 0" by simp_all
    with pos td show ?thesis by linarith
  qed
qed

lemma round53_2_4: "round53 10808639105689190 = 10808639105689190"
proof -
  have "bit_length 10808639105689190 \<le> 54" by (rule bit_length_le) simp
  moreover have "\<not> bit_length 10808639105689190 \<le> 53"
    using bit_length_upper [of 10808639105689190] power_increasing [of "bit_length 10808639105689190" 53 "2 :: nat"] by fastforce
  ultimately have "bit_length 10808639105689190 = 54" by simp
  then show ?thesis by (simp add: round53_def)
qed

lemma IntField_value: "- (2 ^ 31) \<le> v \<Longrightarrow> v < 2 ^ 31 \<Longrightarrow> IntField_valueOf (IntField t v) = Ok v"
  using int_convert_decimal [OF int_types_ok(1), of v] by (simp add: IntField_valueOf_def valueOf_def signed_int_def)

lemma double_1_2_twice: "times_double double_1_2 1 = double_1_2" "times_double double_1_2 2 = double_2_4"
  using round53_small [of 5404319552844595] round53_2_4 by (simp_all add: times_double_def double_1_2_def double_2_4_def)

text \<open>C37: the timers fire at the whole second they should. For every heartbeat interval of at least one second a session
  times out exactly when nothing was received for 2.4 intervals, and asks for a sign of life exactly when nothing was
  received for 1.2 intervals; a second request would be due exactly when the session times out, which is checked first,
  so that there is at most one. The rounding of the \<open>double\<close> arithmetic changes none of it.\<close>

theorem timer_thresholds:
  assumes "heartBtInt_value st = Ok hb" "0 < hb" "hb < 2 ^ 31"
  shows "timedOut st now = Ok (12 * hb \<le> 5 * dt_minus now (m_lastReceivedTime st)) \<and>
    needTestRequest (st\<lparr>m_testRequest := 0\<rparr>) now = Ok (6 * hb \<le> 5 * dt_minus now (m_lastReceivedTime st)) \<and>
    needTestRequest (st\<lparr>m_testRequest := 1\<rparr>) now = timedOut st now"
  using assms times_double_threshold [of double_2_4 12 hb] times_double_threshold [of double_1_2 6 hb] double_1_2_twice
  by (simp add: timedOut_def needTestRequest_def heartBtInt_value_def double_2_4_def double_1_2_def)

theorem timer_thresholds_witness:
  "timedOut ((new_SessionState epoch (InMemory (new_MemoryStore epoch)))\<lparr>m_heartBtInt := IntField TAG_HeartBtInt 30\<rparr>) epoch = Ok False"
  using timer_thresholds [of "(new_SessionState epoch (InMemory (new_MemoryStore epoch)))\<lparr>m_heartBtInt := IntField TAG_HeartBtInt 30\<rparr>" 30 epoch]
  by (simp add: heartBtInt_value_def IntField_value new_SessionState_def dt_minus_def to_int32_def)

section \<open>Disconnecting\<close>

text \<open>What disconnecting tells the environment.\<close>

definition closing_events :: "Session \<Rightarrow> event list" where
  "closing_events s =
     (if m_pResponder s then [Closed] else []) @
     (if m_receivedLogon (m_state s) \<or> m_sentLogon (m_state s) then [LoggedOut] else [])"

text \<open>Disconnected: no responder, logged out, nothing queued or requested.\<close>

definition disconnected :: "Session \<Rightarrow> bool" where
  "disconnected s =
     (\<not> m_pResponder s \<and> \<not> isLoggedOn s \<and> \<not> m_receivedLogon (m_state s) \<and> \<not> m_sentLogon (m_state s) \<and>
      \<not> m_sentLogout (m_state s) \<and> \<not> m_sentReset (m_state s) \<and> \<not> m_receivedReset (m_state s) \<and>
      m_queue (m_state s) = [] \<and> \<not> resendRequested (m_state s))"

lemma disconnect_run:
  assumes "session_ok s"
  obtains s' where "disconnect s = (Ok (), s')" "disconnected s'" "s_out s' = s_out s @ closing_events s"
    "m_resetOnDisconnect s \<Longrightarrow> getExpectedSenderNum s' = 1 \<and> getExpectedTargetNum s' = 1 \<and> stored_in (m_pStore (m_state s')) = (\<lambda>_. None)"
    "\<not> m_resetOnDisconnect s \<Longrightarrow> m_pStore (m_state s') = m_pStore (m_state s)"
proof -
  define s1 where "s1 = (if m_pResponder s then s\<lparr>s_out := s_out s @ [Closed], m_pResponder := False\<rparr> else s)"
  define s2 where "s2 = (if m_receivedLogon (m_state s) \<or> m_sentLogon (m_state s)
    then s1\<lparr>m_state := (m_state s)\<lparr>m_receivedLogon := False, m_sentLogon := False\<rparr>, s_out := s_out s1 @ [LoggedOut]\<rparr> else s1)"
  define t where "t = s2\<lparr>m_state := (m_state s2)\<lparr>m_sentLogout := False, m_receivedReset := False, m_sentReset := False, m_queue := []\<rparr>\<rparr>"
  note defs = s1_def s2_def t_def
  have run: "disconnect s = eseq [ewhen (m_resetOnDisconnect s) reset_state, modify_state (\<lambda>st. st\<lparr>m_resendRange := (0, 0)\<rparr>)] t"
    by (simp add: disconnect_def defs eff_defs gets_state_def modify_state_def emit_def clearQueue_def)
  have t: "s_out t = s_out s @ closing_events s" "m_pStore (m_state t) = m_pStore (m_state s)" "\<not> m_pResponder t"
    "\<not> m_receivedLogon (m_state t)" "\<not> m_sentLogon (m_state t)" "\<not> m_sentLogout (m_state t)" "\<not> m_sentReset (m_state t)"
    "\<not> m_receivedReset (m_state t)" "m_queue (m_state t) = []" "m_timestamper t = m_timestamper s"
    by (simp_all add: defs closing_events_def)
  show thesis
  proof (cases "m_resetOnDisconnect s")
    case False
    then have "disconnect s = (Ok (), t\<lparr>m_state := (m_state t)\<lparr>m_resendRange := (0, 0)\<rparr>\<rparr>)"
      unfolding run by (simp add: modify_state_def eff_defs)
    then show ?thesis
      by (rule that) (use False in \<open>simp_all add: t disconnected_def isLoggedOn_def resendRequested_def\<close>)
  next
    case True
    from assms have "store_ok (m_pStore (m_state t))" "time_storable (m_timestamper t (s_ticks t))"
      by (simp_all add: t session_ok_def)
    then show ?thesis
    proof (rule reset_state_run)
      fix store assume r: "reset_state t = (Ok (), t\<lparr>s_ticks := s_ticks t + 1,
          m_state := (m_state t)\<lparr>m_pStore := store, m_queue := [], m_resendRange := (0, 0)\<rparr>\<rparr>)"
        "store_nextSender store = 1" "store_nextTarget store = 1" "stored_in store = (\<lambda>_. None)"
      then have "disconnect s = (Ok (), t\<lparr>s_ticks := s_ticks t + 1,
          m_state := (m_state t)\<lparr>m_pStore := store, m_queue := [], m_resendRange := (0, 0)\<rparr>\<rparr>)"
        unfolding run using True by (simp add: modify_state_def eff_defs)
      then show ?thesis
        by (rule that) (use r True in \<open>simp_all add: t disconnected_def isLoggedOn_def resendRequested_def
            getExpectedSenderNum_def getExpectedTargetNum_def state_nextSender_def state_nextTarget_def\<close>)
    qed
  qed
qed

text \<open>C40: disconnecting always succeeds and leaves a session that is closed: the responder is told once and
  forgotten, the application is told once if a Logon had been sent or received, no flag of the login state
  remains, nothing stays queued or requested; the message store is reset when ResetOnDisconnect is set and
  untouched otherwise.\<close>

theorem disconnect_closes:
  assumes "session_reachable s"
  shows "\<exists>s'. disconnect s = (Ok (), s') \<and> disconnected s' \<and> s_out s' = s_out s @ closing_events s \<and>
    (if m_resetOnDisconnect s
     then getExpectedSenderNum s' = 1 \<and> getExpectedTargetNum s' = 1 \<and> stored_in (m_pStore (m_state s')) = (\<lambda>_. None)
     else m_pStore (m_state s') = m_pStore (m_state s))"
  using disconnect_run [OF session_reachable_ok [OF assms]] by (metis (full_types))

theorem disconnect_closes_witness:
  "\<exists>s'. disconnect example_session = (Ok (), s') \<and> disconnected s' \<and> s_out s' = s_out example_session @ closing_events example_session"
  using disconnect_closes [OF example_reachable] by blast

text \<open>C38: a silent peer is disconnected. When a session that is logged on has received nothing for 2.4 heartbeat
  intervals, the next tick of its timer closes the connection, tells the application once and sends nothing.\<close>

theorem silent_peer_disconnected:
  assumes ok: "session_ok s" and opened: "checkSessionTime s now" "isEnabled s" "isLogonTime s now"
    and on: "m_receivedLogon (m_state s)" "\<not> m_sentLogout (m_state s)"
    and hb: "heartBtInt_value (m_state s) = Ok hb" "0 < hb" "hb < 2 ^ 31"
    and silent: "\<And>i. 12 * hb \<le> 5 * dt_minus (m_timestamper s i) (m_lastReceivedTime (m_state s))"
  shows "\<exists>s'. next_timer now s = (Ok (), s') \<and> disconnected s' \<and> s_out s' = s_out s @ closing_events s"
proof -
  define t where "t = s\<lparr>s_ticks := s_ticks s + 3\<rparr>"
  have out: "timedOut (m_state s) (m_timestamper s i) = Ok True" for i
    using timer_thresholds [OF hb] silent by simp
  have within: "withinHeartBeat (m_state s) (m_timestamper s i) = Ok False" for i
    using hb silent [of i] by (simp add: withinHeartBeat_def)
  have "next_timer now s = catch_IOException disconnect disconnect t"
    using opened on hb out within
    by (simp add: next_timer_def logged_on_timer_def heartbeat_timer_def timestamper_def gets_state_def logoutTimedOut_def
        catch_IOException_def eff_defs t_def numeral_eq_Suc)
  moreover have "session_ok t" using ok by (simp add: t_def session_ok_def)
  from disconnect_run [OF this] obtain s' where "disconnect t = (Ok (), s')" "disconnected s'" "s_out s' = s_out t @ closing_events t"
    by blast
  ultimately show ?thesis by (auto simp: catch_IOException_def ecatch_def t_def closing_events_def)
qed

definition silent_example :: Session where
  "silent_example = example_session\<lparr>m_isNonStopSession := True, m_state := (m_state example_session)
     \<lparr>m_receivedLogon := True, m_sentLogon := True, m_lastReceivedTime := epoch\<lparr>m_date := m_date epoch - 1\<rparr>\<rparr>\<rparr>"

theorem silent_peer_disconnected_witness:
  "\<exists>s'. next_timer epoch silent_example = (Ok (), s') \<and> disconnected s'"
proof -
  let ?st = "m_state silent_example"
  have "session_ok silent_example"
    using session_reachable_ok [OF example_reachable] by (simp add: silent_example_def session_ok_def)
  moreover have "isLogonTime silent_example epoch"
    by (simp add: silent_example_def isLogonTime_def example_fields example_logon_time epoch_storable)
  moreover have "heartBtInt_value ?st = Ok 30" by (simp add: silent_example_def example_fields heartBtInt_value_def IntField_value)
  moreover have "12 * 30 \<le> 5 * dt_minus (m_timestamper silent_example i) (m_lastReceivedTime ?st)" for i
    by (simp add: silent_example_def example_fields dt_minus_def to_int32_def SECONDS_PER_DAY_def epoch_def)
  moreover have "checkSessionTime silent_example epoch" "isEnabled silent_example" "m_receivedLogon ?st" "\<not> m_sentLogout ?st"
    by (simp_all add: silent_example_def checkSessionTime_def isEnabled_def example_fields new_SessionState_def)
  ultimately have "\<exists>s'. next_timer epoch silent_example = (Ok (), s') \<and> disconnected s' \<and>
      s_out s' = s_out silent_example @ closing_events silent_example"
    by (intro silent_peer_disconnected [of silent_example epoch 30]) simp_all
  then show ?thesis by blast
qed

end
