(* ===== verification/SessionDelivery.thy ===== *)
theory SessionDelivery
  imports SessionTermination SessionSending SessionTimers
begin

text \<open>
  What the application sees. A message is handed over only when it is the expected one on a valid session, and
  a gap is closed as soon as the missing message arrives: it and the messages queued behind it are handed over in
  order.
\<close>

section \<open>Only expected messages are delivered\<close>

definition deliveries :: "Session \<Rightarrow> event list" where
  "deliveries s = filter delivers (s_out s)"

interpretation silent: session_frame "\<lambda>s. deliveries s = es" for es
  by unfold_locales
    (auto simp: deliveries_def keeps_def reset_state_def refresh_on_logon_def refresh_def timestamper_def on_state_def eff_defs split: prod.split sum.split)

lemma silent_modify: "keeps (\<lambda>s. deliveries s = es) (modify_state f)"
  by (simp add: keeps_def modify_state_def emodify_def deliveries_def)

lemma silent_checks: "keeps (\<lambda>s. deliveries s = es) (verify_checks m a b)"
  unfolding verify_checks_def verify_number_def doTargetTooHigh_def
  by (intro keeps_intros silent_modify silent.keeps_checks silent.keeps_bad silent.keeps_generated)

lemma ebind_returns: "ebind m f s = (Ok y, s') \<longleftrightarrow> (\<exists>x t. m s = (Ok x, t) \<and> f x t = (Ok y, s'))"
  by (auto simp: ebind_def split: prod.splits sum.splits)

lemma basic_returns [simp]:
  "eret x s = (Ok y, s') \<longleftrightarrow> x = y \<and> s = s'" "elift r s = (Ok y, s') \<longleftrightarrow> r = Ok y \<and> s = s'"
  "egets f s = (Ok z, s') \<longleftrightarrow> f s = z \<and> s = s'" "\<not> ethrow e s = (Ok y, s')"
  by (auto simp: eff_defs)

lemma isGoodTime_ticks:
  assumes "isGoodTime f s = (Ok b, s1)"
  shows "getExpectedTargetNum s1 = getExpectedTargetNum s" "isCorrectCompID s1 = isCorrectCompID s"
  using assms
  by (auto simp: isGoodTime_def ebind_returns timestamper_def getExpectedTargetNum_def isCorrectCompID_def fun_eq_iff split: if_splits)

lemma verify_number_passed:
  assumes "verify_number m True True n s = (Ok True, s1)"
  shows "n = getExpectedTargetNum s"
  using assms by (auto simp: verify_number_def ebind_returns isTargetTooHigh_def isTargetTooLow_def split: if_splits)

lemma verify_checks_passed:
  assumes "verify_checks m True True s = (Ok True, s1)"
  shows "msg_seq_num m = Ok (getExpectedTargetNum s) \<and> (\<exists>t. msg_type m = Ok t \<and> validLogonState s t) \<and>
    (\<exists>f g. field_of StringField_valueOf (m_header m) TAG_SenderCompID = Ok f \<and>
       field_of StringField_valueOf (m_header m) TAG_TargetCompID = Ok g \<and> isCorrectCompID s f g)"
proof -
  from assms obtain t f g h n good s2 where
    m: "msg_type m = Ok t" "field_of StringField_valueOf (m_header m) TAG_SenderCompID = Ok f"
    "field_of StringField_valueOf (m_header m) TAG_TargetCompID = Ok g" "msg_seq_num m = Ok n" "validLogonState s t"
    and good: "isGoodTime h s = (Ok good, s2)"
    and rest: "(if \<not> good then ebind (doBadTime m) (\<lambda>_. eret False)
       else ebind (egets (\<lambda>s. isCorrectCompID s f g)) (\<lambda>correct.
         if \<not> correct then ebind (doBadCompID m) (\<lambda>_. eret False) else verify_number m True True n)) s2 = (Ok True, s1)"
    by (auto simp: verify_checks_def ebind_returns split: if_splits)
  from rest have "good" "isCorrectCompID s2 f g" "verify_number m True True n s2 = (Ok True, s1)"
    by (auto simp: ebind_returns split: if_splits)
  with m isGoodTime_ticks [OF good] verify_number_passed show ?thesis by metis
qed

text \<open>The end of \<open>verify\<close> hands the message over.\<close>

lemma callback_delivers:
  assumes "msg_type m = Ok t"
  shows "deliveries (snd (fromCallback t m s)) = deliveries s @ (if isAdminMsgType t then [] else [FromApp m])"
  by (auto simp: fromCallback_def emit_def callback_def eff_defs deliveries_def split: prod.split sum.split)

lemma snd_ebind_ret: "snd (ebind m (\<lambda>_. eret x) s) = snd (m s)"
  by (simp add: ebind_def eret_def split: prod.split sum.split)

lemma verify_run:
  assumes "verify_checks m a b s = (Ok True, s1)" "msg_type m = Ok t"
  shows "verify m a b s = ebind (fromCallback t m) (\<lambda>_. eret True)
    (s1\<lparr>s_ticks := s_ticks s1 + 1, m_state := (m_state s1)\<lparr>m_lastReceivedTime := m_timestamper s1 (s_ticks s1), m_testRequest := 0\<rparr>\<rparr>)"
  using assms by (simp add: verify_def ecatch_def ebind_def [of "ecatch _ _"] ebind_def [of timestamper] ebind_def [of "elift _"]
      timestamper_def modify_state_def elift_def)

lemma verify_hands_over:
  assumes "verify_checks m True True s = (Ok True, s1)" "msg_type m = Ok t"
  shows "deliveries (snd (verify m True True s)) = deliveries s1 @ (if isAdminMsgType t then [] else [FromApp m])"
  unfolding verify_run [OF assms] snd_ebind_ret callback_delivers [OF assms(2)] by (simp add: deliveries_def)

text \<open>C6: the application receives a message only in sequence. When the full checks run on a message, it is handed to
  the application at most once, and only if its MsgSeqNum is exactly the expected number, its CompIDs are
  those of the session, the login state of the session allows its type and the type is not administrative. Nothing else is
  delivered meanwhile, whatever the checks send.\<close>

theorem delivered_in_sequence:
  "deliveries (snd (verify m True True s)) = deliveries s \<or>
   deliveries (snd (verify m True True s)) = deliveries s @ [FromApp m] \<and>
   msg_seq_num m = Ok (getExpectedTargetNum s) \<and>
   (\<exists>t. msg_type m = Ok t \<and> \<not> isAdminMsgType t \<and> validLogonState s t) \<and>
   (\<exists>f g. field_of StringField_valueOf (m_header m) TAG_SenderCompID = Ok f \<and>
      field_of StringField_valueOf (m_header m) TAG_TargetCompID = Ok g \<and> isCorrectCompID s f g)"
proof (cases "fst (verify_checks m True True s) = Ok True")
  case False
  let ?guarded = "ecatch (verify_checks m True True) (\<lambda>e. ebind disconnect (\<lambda>_. eret False))"
  have "keeps (\<lambda>t. deliveries t = deliveries s) ?guarded"
    by (intro keeps_intros silent_checks silent.keeps_disconnect)
  from keepsD [OF this] have "deliveries (snd (?guarded s)) = deliveries s" by simp
  moreover have "fst (?guarded s) \<noteq> Ok True"
    using False by (auto simp: ecatch_def ebind_def eret_def split: prod.splits sum.splits)
  ultimately have "deliveries (snd (verify m True True s)) = deliveries s"
    by (cases "?guarded s") (auto simp: verify_def ebind_def [of ?guarded] eret_def split: sum.splits)
  then show ?thesis by simp
next
  case True
  then obtain s1 where s1: "verify_checks m True True s = (Ok True, s1)" by (metis prod.collapse)
  have "deliveries s1 = deliveries s" using keepsD [OF silent_checks, of s "deliveries s" m True True] s1 by simp
  moreover obtain t where t: "msg_type m = Ok t" "validLogonState s t" using verify_checks_passed [OF s1] by blast
  moreover have "deliveries (snd (verify m True True s)) = deliveries s1 @ (if isAdminMsgType t then [] else [FromApp m])"
    using verify_hands_over [OF s1 t(1)] .
  ultimately show ?thesis using verify_checks_passed [OF s1] by (auto split: if_splits)
qed

section \<open>Messages that come too late\<close>

lemma doTargetTooLow_throws:
  assumes "field_or BoolField_valueOf False (m_header m) TAG_PossDupFlag = Ok False" "msg_seq_num m = Ok n"
  shows "\<exists>e. fst (doTargetTooLow m s) = Throw e"
proof -
  obtain f where f: "getFieldRef (m_header m) TAG_MsgSeqNum = Ok f" "UInt64Field_valueOf f = Ok n"
    using assms(2) by (auto simp: msg_seq_num_def field_of_def)
  have "\<exists>e. fst (ebind g (\<lambda>_. ethrow StdException) s) = Throw e" for g :: "unit action" and s
    by (auto simp: ebind_def ethrow_def split: prod.split sum.split)
  then show ?thesis using assms(1) f by (simp add: doTargetTooLow_def ebind_def [of "elift _"] elift_def)
qed

lemma verify_catches:
  assumes "verify_checks m a b s = (Throw e, s1)" "disconnect s1 = (Ok (), s2)"
  shows "verify m a b s = (Ok False, s2)"
  using assms by (simp add: verify_def ecatch_def ebind_def eret_def)

lemma checks_too_low:
  assumes m: "msg_type m = Ok t" "getFieldRef (m_header m) TAG_SenderCompID = Ok f" "getFieldRef (m_header m) TAG_TargetCompID = Ok g"
      "getFieldRef (m_header m) TAG_SendingTime = Ok h" "msg_seq_num m = Ok n"
      "field_or BoolField_valueOf False (m_header m) TAG_PossDupFlag = Ok False"
    and s: "isCorrectCompID s (m_string f) (m_string g)" "\<not> m_checkLatency s" "n < getExpectedTargetNum s"
  shows "\<exists>e. fst (verify_checks m a True s) = Throw e"
proof -
  obtain e where low: "fst (doTargetTooLow m s) = Throw e" using doTargetTooLow_throws [OF m(6,5)] by blast
  have good: "isGoodTime h s = (Ok True, s)" using s(2) by (simp add: isGoodTime_def eret_def)
  have "verify_number m a True n s = ebind (doTargetTooLow m) (\<lambda>_. eret False) s"
    using s(3) by (auto simp: verify_number_def isTargetTooHigh_def isTargetTooLow_def)
  moreover have "fst (ebind (doTargetTooLow m) (\<lambda>_. eret False) s) = Throw e"
    using low by (auto simp: ebind_def split: prod.splits sum.splits)
  ultimately have "fst (verify_number m a True n s) = Throw e" by simp
  then show ?thesis
    using m s(1) good
    by (cases "validLogonState s t")
      (auto simp: verify_checks_def field_of_def elift_def ebind_def [of "elift _"] ebind_def [of "isGoodTime _"] ethrow_def)
qed


section \<open>Gap recovery\<close>

text \<open>A session that is logged on and whose timers are quiet: the heartbeat interval is 0 and the schedule never ends.\<close>

definition open_session :: "Session \<Rightarrow> bool" where
  "open_session s =
     (m_isNonStopSession s \<and> isEnabled s \<and> isLoggedOn s \<and> \<not> m_checkLatency s \<and>
      heartBtInt_value (m_state s) = Ok 0 \<and> (\<forall>i. isLogonTime s (m_timestamper s i)))"

text \<open>An application message with number \<open>n\<close> that passes the checks of the session and that the application accepts.\<close>

definition deliverable :: "Session \<Rightarrow> SEQNUM \<Rightarrow> Message \<Rightarrow> bool" where
  "deliverable s n m =
     (msg_seq_num m = Ok n \<and>
      (\<exists>t f g h. msg_type m = Ok t \<and> \<not> isAdminMsgType t \<and>
         field_of StringField_valueOf (m_header m) TAG_BeginString = Ok (getBeginString (m_sessionID s)) \<and>
         getFieldRef (m_header m) TAG_SenderCompID = Ok f \<and> getFieldRef (m_header m) TAG_TargetCompID = Ok g \<and>
         getFieldRef (m_header m) TAG_SendingTime = Ok h \<and> isCorrectCompID s (m_string f) (m_string g)) \<and>
      fst (validate_incoming m s) = Ok () \<and> (\<forall>i. fromApp (m_application s) i m = Ok ()))"

text \<open>\<open>t\<close> is \<open>s\<close> after a step that changes only the clock, the callbacks, the events and the progress of the sequence.\<close>

definition progressed :: "Session \<Rightarrow> Session \<Rightarrow> bool" where
  "progressed s t =
     (m_isNonStopSession t = m_isNonStopSession s \<and> m_checkLatency t = m_checkLatency s \<and> m_logonTime t = m_logonTime s \<and>
      m_localtime t = m_localtime s \<and> m_timestamper t = m_timestamper s \<and> m_sessionID t = m_sessionID s \<and>
      m_checkCompId t = m_checkCompId s \<and> m_dataDictionaryProvider t = m_dataDictionaryProvider s \<and>
      m_targetDefaultApplVerID t = m_targetDefaultApplVerID s \<and> m_application t = m_application s \<and>
      m_enabled (m_state t) = m_enabled (m_state s) \<and> m_receivedLogon (m_state t) = m_receivedLogon (m_state s) \<and>
      m_sentLogon (m_state t) = m_sentLogon (m_state s) \<and> m_heartBtInt (m_state t) = m_heartBtInt (m_state s))"

lemma progressed_trans: "progressed s t \<Longrightarrow> progressed t u \<Longrightarrow> progressed s u"
  by (simp add: progressed_def)

lemma progressed_open:
  assumes "progressed s t"
  shows "open_session t = open_session s"
  using assms by (simp add: progressed_def open_session_def isEnabled_def isLoggedOn_def heartBtInt_value_def isLogonTime_def)

lemma progressed_deliverable:
  assumes "progressed s t"
  shows "deliverable t n m = deliverable s n m"
proof -
  have "fst (validate_incoming m t) = fst (validate_incoming m s)"
    using assms by (simp add: validate_incoming_def progressed_def session_dd_def application_dd_def elift_def cong: option.case_cong)
  moreover have "isCorrectCompID t = isCorrectCompID s"
    using assms by (simp add: isCorrectCompID_def progressed_def fun_eq_iff)
  ultimately show ?thesis using assms by (simp add: deliverable_def progressed_def)
qed

lemma not_admin: "\<not> isAdminMsgType t \<Longrightarrow> t \<notin> {''A'', ''0'', ''1'', ''2'', ''3'', ''4'', ''5''}"
  by (auto simp: isAdminMsgType_def)

lemma verify_checks_deliverable:
  assumes s: "open_session s" "deliverable s (getExpectedTargetNum s) m"
  shows "\<exists>st. verify_checks m True True s = (Ok True, s\<lparr>m_state := st\<rparr>) \<and> st = satisfy_resend (getExpectedTargetNum s) (m_state s)"
proof -
  obtain t f g h where m: "msg_type m = Ok t" "\<not> isAdminMsgType t" "getFieldRef (m_header m) TAG_SenderCompID = Ok f"
    "getFieldRef (m_header m) TAG_TargetCompID = Ok g" "getFieldRef (m_header m) TAG_SendingTime = Ok h"
    "isCorrectCompID s (m_string f) (m_string g)" "msg_seq_num m = Ok (getExpectedTargetNum s)"
    using s(2) by (auto simp: deliverable_def)
  have valid: "validLogonState s t" using s(1) not_admin [OF m(2)] by (auto simp: validLogonState_def open_session_def isLoggedOn_def Let_def)
  have good: "isGoodTime h s = (Ok True, s)" using s(1) by (simp add: isGoodTime_def open_session_def eret_def)
  show ?thesis
    using m valid good
    by (simp add: verify_checks_def verify_number_def field_of_def isTargetTooHigh_def isTargetTooLow_def modify_state_def eff_defs)
qed

text \<open>One message: it is handed over and the expected number moves on.\<close>

definition delivered :: "Session \<Rightarrow> Message list \<Rightarrow> Session \<Rightarrow> bool" where
  "delivered s ms t = (progressed s t \<and> s_out t = s_out s @ map FromApp ms \<and>
     getExpectedTargetNum t = getExpectedTargetNum s + of_nat (length ms))"

lemma process_deliverable:
  assumes s: "open_session s" "deliverable s (getExpectedTargetNum s) m"
  shows "\<exists>t. process dq m now s = (Ok True, t) \<and> delivered s [m] t \<and> m_queue (m_state t) = m_queue (m_state s)"
proof -
  obtain t f g h where m: "msg_type m = Ok t" "\<not> isAdminMsgType t" "getFieldRef (m_header m) TAG_SenderCompID = Ok f"
    "getFieldRef (m_header m) TAG_TargetCompID = Ok g" "fst (validate_incoming m s) = Ok ()"
    "field_of StringField_valueOf (m_header m) TAG_BeginString = Ok (getBeginString (m_sessionID s))"
    "fromApp (m_application s) (s_calls s) m = Ok ()"
    using s(2) by (auto simp: deliverable_def)
  let ?st = "satisfy_resend (getExpectedTargetNum s) (m_state s)"
  let ?st1 = "?st\<lparr>m_lastReceivedTime := m_timestamper s (s_ticks s), m_testRequest := 0\<rparr>"
  let ?s1 = "s\<lparr>m_state := ?st1, s_ticks := s_ticks s + 1, s_out := s_out s @ [FromApp m], s_calls := s_calls s + 1\<rparr>"
  have "verify_checks m True True s = (Ok True, s\<lparr>m_state := ?st\<rparr>)" using verify_checks_deliverable [OF s] by blast
  from verify_run [OF this m(1)] have v: "verify m True True s = (Ok True, ?s1)"
    using m(2,7) by (simp add: fromCallback_def emit_def callback_def eff_defs)
  have types: "t \<noteq> ''A''" "t \<noteq> ''0''" "t \<noteq> ''1''" "t \<noteq> ''4''" "t \<noteq> ''5''" "t \<noteq> ''2''" "t \<noteq> ''3''" using not_admin [OF m(2)] by auto
  have "dispatch dq t m now s = (Ok True, ?s1\<lparr>m_state := state_incrNextTarget ?st1\<rparr>)"
    using types v by (simp add: dispatch_def Let_def ebind_def [of "verify _ _ _"] incrNextTarget_def modify_state_def eff_defs)
  moreover have "process dq m now s = dispatch dq t m now s"
  proof -
    have "validate_incoming m s = (Ok (), s)" using m(5) by (auto simp: validate_incoming_def eff_defs)
    then show ?thesis
      using s(1) m types(1)
      by (simp add: process_def checkSessionTime_def open_session_def elift_def ebind_def [of "elift _"] ebind_def [of "validate_incoming _"] set_target_version_def)
  qed
  moreover have "delivered s [m] (?s1\<lparr>m_state := state_incrNextTarget ?st1\<rparr>)"
    "m_queue (m_state (?s1\<lparr>m_state := state_incrNextTarget ?st1\<rparr>)) = m_queue (m_state s)"
    by (simp_all add: delivered_def progressed_def state_defs satisfy_resend_def getExpectedTargetNum_def store_incr store.numbers)
  ultimately show ?thesis by auto
qed

lemma timer_quiet:
  assumes "open_session s"
  shows "ebind (egets isLoggedOn) (\<lambda>loggedOn. ewhen loggedOn (ebind timestamper next_timer)) s = (Ok (), s\<lparr>s_ticks := s_ticks s + 1\<rparr>)"
  using assms
  by (simp add: open_session_def next_timer_def catch_IOException_def checkSessionTime_def isEnabled_def isLoggedOn_def isLogonTime_def
      logged_on_timer_def gets_state_def heartBtInt_value_def timestamper_def eff_defs)

lemma tick_delivered: "delivered s ms t \<Longrightarrow> delivered s ms (t\<lparr>s_ticks := i\<rparr>)"
  by (simp add: delivered_def progressed_def getExpectedTargetNum_def)

lemma delivered_trans: "delivered s ms t \<Longrightarrow> delivered t ns u \<Longrightarrow> delivered s (ms @ ns) u"
  by (auto simp: delivered_def intro: progressed_trans)

lemma delivered_open: "delivered s ms t \<Longrightarrow> open_session t = open_session s"
  by (simp add: delivered_def progressed_open)

lemma delivered_deliverable: "delivered s ms t \<Longrightarrow> deliverable t n m = deliverable s n m"
  by (simp add: delivered_def progressed_deliverable)

lemma next_with_deliverable:
  assumes s: "open_session s" "deliverable s (getExpectedTargetNum s) m"
  shows "\<exists>t. next_with dq m now True s = (Ok (), t) \<and> delivered s [m] t \<and> m_queue (m_state t) = m_queue (m_state s)"
proof -
  obtain t where t: "process dq m now s = (Ok True, t)" "delivered s [m] t" "m_queue (m_state t) = m_queue (m_state s)"
    using process_deliverable [OF s] by blast
  have "open_session t" using s(1) delivered_open [OF t(2)] by simp
  from timer_quiet [OF this] t(1) have "next_with dq m now True s = (Ok (), t\<lparr>s_ticks := s_ticks t + 1\<rparr>)"
    by (simp add: next_with_def ecatch_def ebind_def [of "ecatch _ _"] ewhen_def)
  with t(2,3) tick_delivered show ?thesis by auto
qed

text \<open>Messages filed under consecutive numbers.\<close>

primrec consecutive :: "SEQNUM \<Rightarrow> Message list \<Rightarrow> (SEQNUM, Message) smap" where
  "consecutive n [] = []"
| "consecutive n (m # ms) = (n, m) # consecutive (n + 1) ms"

lemma unat_next: "unat n + 1 < 2 ^ 64 \<Longrightarrow> unat (n + 1 :: SEQNUM) = unat n + 1"
  by (simp add: unat_word_ariths)

lemma unat_next_le: "unat (n + 1 :: SEQNUM) \<le> unat n + 1"
  by (simp add: unat_word_ariths)

lemma consecutive_length [simp]: "length (consecutive n ms) = length ms"
  by (induction ms arbitrary: n) simp_all

lemma consecutive_keys: "unat n + length ms \<le> 2 ^ 64 \<Longrightarrow> (k, m) \<in> set (consecutive n ms) \<Longrightarrow> unat n \<le> unat k"
proof (induction ms arbitrary: n)
  case (Cons a ms)
  show ?case
  proof (cases "k = n")
    case False
    with Cons.prems(2) have k: "(k, m) \<in> set (consecutive (n + 1) ms)" by auto
    then have "ms \<noteq> []" by auto
    with Cons.prems(1) have "unat n + 1 < 2 ^ 64" by (cases ms) auto
    from unat_next [OF this] Cons.IH [OF _ k] Cons.prems(1) show ?thesis by simp
  qed simp
qed simp

lemma consecutive_erase:
  assumes "unat n + length ms + 1 < 2 ^ 64"
  shows "smap_erase n (consecutive (n + 1) ms) = consecutive (n + 1) ms"
proof -
  have "unat (n + 1) = unat n + 1" using assms by (intro unat_next) simp
  then have "fst p \<noteq> n" if "p \<in> set (consecutive (n + 1) ms)" for p
    using consecutive_keys [of "n + 1" ms "fst p" "snd p"] that assms by auto
  then show ?thesis by (simp add: smap_erase_def)
qed

lemma nextQueued_delivers:
  assumes "open_session s" "m_queue (m_state s) = consecutive (getExpectedTargetNum s) ms"
    "\<forall>p\<in>set (m_queue (m_state s)). deliverable s (fst p) (snd p)" "unat (getExpectedTargetNum s) + length ms < 2 ^ 64"
    "length ms < fuel"
  shows "\<exists>t. nextQueued fuel now s = (Ok (), t) \<and> delivered s ms t \<and> m_queue (m_state t) = []"
  using assms
proof (induction ms arbitrary: s fuel)
  case Nil
  then obtain f where "fuel = Suc f" by (cases fuel) auto
  with Nil have "nextQueued fuel now s = (Ok (), s)" by (simp add: on_state_def eff_defs retrieve_def)
  with Nil show ?case by (auto simp: delivered_def progressed_def)
next
  case (Cons m ms)
  let ?n = "getExpectedTargetNum s"
  obtain f where f: "fuel = Suc f" using Cons.prems(5) by (cases fuel) auto
  let ?s' = "s\<lparr>m_state := (m_state s)\<lparr>m_queue := consecutive (?n + 1) ms\<rparr>\<rparr>"
  have r: "on_state (retrieve ?n) s = (Ok (Some m), ?s')"
    using Cons.prems(2,4) consecutive_erase [of ?n ms] by (simp add: on_state_def ezoom_def retrieve_def smap_erase_def)
  have p: "progressed s ?s'" by (simp add: progressed_def)
  have n: "getExpectedTargetNum ?s' = ?n" by (simp add: getExpectedTargetNum_def state_nextTarget_def)
  have m: "deliverable s ?n m" using Cons.prems(2,3) by simp
  obtain t where t: "next_with (nextQueued f now) m now True ?s' = (Ok (), t)" "delivered ?s' [m] t" "m_queue (m_state t) = consecutive (?n + 1) ms"
    using next_with_deliverable [of ?s' m "nextQueued f now" now] Cons.prems(1) m p n by (auto simp: progressed_open progressed_deliverable)
  have st: "delivered s [m] t" using t(2) p n by (auto simp: delivered_def intro: progressed_trans)
  obtain ty where ty: "msg_type m = Ok ty" "ty \<noteq> ''A''" "ty \<noteq> ''2''" using m not_admin by (auto simp: deliverable_def)
  have "\<exists>u. nextQueued f now t = (Ok (), u) \<and> delivered t ms u \<and> m_queue (m_state u) = []"
  proof (rule Cons.IH)
    have e: "getExpectedTargetNum t = ?n + 1" using st by (simp add: delivered_def)
    then show "m_queue (m_state t) = consecutive (getExpectedTargetNum t) ms" using t(3) by simp
    show "\<forall>p\<in>set (m_queue (m_state t)). deliverable t (fst p) (snd p)" using Cons.prems(2,3) t(3) st by (simp add: delivered_deliverable)
    have "unat (?n + 1) \<le> unat ?n + 1" by (rule unat_next_le)
    then show "unat (getExpectedTargetNum t) + length ms < 2 ^ 64" using Cons.prems(4) e by simp
  qed (use Cons.prems(1,5) f st in \<open>simp_all add: delivered_open\<close>)
  then obtain u where u: "nextQueued f now t = (Ok (), u)" "delivered t ms u" "m_queue (m_state u) = []" by blast
  have "nextQueued fuel now s = (Ok (), u)"
    using r t(1) ty u(1) by (simp add: f ebind_def [of "on_state _"] elift_def ebind_def [of "elift _"] ebind_def [of "next_with _ _ _ _"])
  with u st delivered_trans [OF st u(2)] show ?case by simp
qed


text \<open>Orders from the peer of the example session.\<close>

definition order_from_peer :: "SEQNUM \<Rightarrow> Message" where
  "order_from_peer n = fold set_header [mk_FieldBase TAG_BeginString ''FIX.4.2'', mk_FieldBase TAG_MsgType ''D'',
     mk_FieldBase TAG_SenderCompID ''THEM'', mk_FieldBase TAG_TargetCompID ''US'', mk_FieldBase TAG_SendingTime ''now'',
     UInt64Field TAG_MsgSeqNum n] new_Message"

definition gap_example :: Session where
  "gap_example = example_session\<lparr>m_isNonStopSession := True, m_checkLatency := False, m_state := (m_state example_session)
     \<lparr>m_receivedLogon := True, m_sentLogon := True, m_heartBtInt := IntField TAG_HeartBtInt 0,
      m_queue := [(2, order_from_peer 2), (3, order_from_peer 3)]\<rparr>\<rparr>"

lemma header_ok_new: "header_ok (m_header new_Message)"
  by (simp add: header_ok_def new_Message_def) (simp add: distinct_tags_def mk_FieldMap_def)

lemma order_header:
  "header_ok (m_header (order_from_peer n))"
  "field_value (m_header (order_from_peer n)) t =
     map_of [(TAG_MsgSeqNum, SEQNUM_string n), (TAG_SendingTime, ''now''), (TAG_TargetCompID, ''US''), (TAG_SenderCompID, ''THEM''),
       (TAG_MsgType, ''D''), (TAG_BeginString, ''FIX.4.2'')] t"
proof -
  let ?fs = "[mk_FieldBase TAG_BeginString ''FIX.4.2'', mk_FieldBase TAG_MsgType ''D'',
     mk_FieldBase TAG_SenderCompID ''THEM'', mk_FieldBase TAG_TargetCompID ''US'', mk_FieldBase TAG_SendingTime ''now'',
     UInt64Field TAG_MsgSeqNum n]"
  show "header_ok (m_header (order_from_peer n))"
    by (simp add: order_from_peer_def header_ok_set header_ok_new int32_def mk_FieldBase_sel)
  have "m_header (order_from_peer n) = fold setField ?fs (m_header new_Message)"
    by (simp add: order_from_peer_def set_header_def)
  then show "field_value (m_header (order_from_peer n)) t =
     map_of [(TAG_MsgSeqNum, SEQNUM_string n), (TAG_SendingTime, ''now''), (TAG_TargetCompID, ''US''), (TAG_SenderCompID, ''THEM''),
       (TAG_MsgType, ''D''), (TAG_BeginString, ''FIX.4.2'')] t"
    using fields.get_puts [of "m_header new_Message" ?fs t] header_ok_new
    by (auto simp: header_ok_def int32_def mk_FieldBase_sel new_Message_def field_value_def mk_FieldMap_def)
qed

lemma order_number: "msg_seq_num (order_from_peer n) = Ok n"
  using order_header by (intro msg_seq_num_value) (simp_all add: header_ok_def)

lemma field_value_member: "distinct_tags m \<Longrightarrow> f \<in> set (m_fields m) \<Longrightarrow> field_value m (m_tag f) = Some (m_string f)"
proof -
  have "distinct (map m_tag fs) \<Longrightarrow> f \<in> set fs \<Longrightarrow> find (\<lambda>g. m_tag g = m_tag f) fs = Some f" for fs
    by (induction fs) auto
  then show "distinct_tags m \<Longrightarrow> f \<in> set (m_fields m) \<Longrightarrow> field_value m (m_tag f) = Some (m_string f)"
    by (simp add: distinct_tags_def field_value_def)
qed

lemma field_value_ref:
  "map_ok m \<Longrightarrow> int32 t \<Longrightarrow> field_value m t = Some v \<Longrightarrow> \<exists>f. getFieldRef m t = Ok f \<and> m_string f = v"
  by (auto simp: getFieldRef_def getFieldIfSet_find field_value_def)

lemma SEQNUM_string_not_empty: "SEQNUM_string n \<noteq> []"
  using UInt64_roundtrip [of n] by (auto simp: UInt64Convertor_def int_convert_def)

lemma order_valid: "dd_validate_message new_DataDictionary (order_from_peer n) False = Ok ()"
proof -
  let ?m = "order_from_peer n"
  have h: "map_ok (m_header ?m)" "distinct_tags (m_header ?m)" using order_header(1) by (simp_all add: header_ok_def)
  have "m_string f \<noteq> []" if "f \<in> set (m_fields (m_header ?m))" for f
    using field_value_member [OF h(2) that] SEQNUM_string_not_empty [of n] by (auto simp: order_header(2) split: if_splits)
  then have "iterate new_DataDictionary (m_header ?m) t = Ok ()" for t
    unfolding iterate_ok [OF h(1)] using h(2) by (simp add: acceptable_def new_DataDictionary_def)
  moreover have "iterate new_DataDictionary (m_trailer ?m) t = Ok ()" "iterate new_DataDictionary (m_body ?m) t = Ok ()" for t
    by (simp_all add: order_from_peer_def set_header_def new_Message_def mk_FieldMap_def iterate_def)
  moreover have "getField (m_header ?m) TAG_BeginString = Ok ''FIX.4.2''" "getField (m_header ?m) TAG_MsgType = Ok ''D''"
    using getField_value [OF h(1)] by (simp_all add: order_header(2) int32_def)
  moreover have "fst (hasValidStructure ?m)" "\<not> fst (hasEmbeddedSOH ?m)" "\<not> fst (hasOutOfOrderGroupMembers ?m)"
    by (simp_all add: order_from_peer_def set_header_def new_Message_def hasValidStructure_def hasEmbeddedSOH_def hasOutOfOrderGroupMembers_def)
  ultimately show ?thesis
    by (simp add: dd_validate_message_def dd_validate_def when_some_def) (simp add: new_DataDictionary_def)
qed

lemma gap_example_open: "open_session gap_example"
  by (simp add: open_session_def gap_example_def example_fields isEnabled_def isLoggedOn_def heartBtInt_value_def
      isLogonTime_def example_logon_time epoch_storable new_SessionState_def IntField_value)

lemma gap_example_deliverable: "deliverable gap_example n (order_from_peer n)"
proof -
  let ?m = "order_from_peer n"
  have h: "map_ok (m_header ?m)" using order_header(1) by (simp add: header_ok_def)
  have refs: "\<exists>f. getFieldRef (m_header ?m) t = Ok f \<and> m_string f = v"
    if "(t, v) \<in> {(TAG_BeginString, ''FIX.4.2''), (TAG_MsgType, ''D''), (TAG_SenderCompID, ''THEM''), (TAG_TargetCompID, ''US''), (TAG_SendingTime, ''now'')}" for t v
    by (rule field_value_ref [OF h]) (use that in \<open>auto simp: order_header(2) int32_def\<close>)
  have sid: "m_sessionID gap_example = mk_SessionID ''FIX.4.2'' ''US'' ''THEM'' []" by (simp add: gap_example_def example_fields)
  have "fst (validate_incoming ?m gap_example) = Ok ()"
    using order_valid [of n]
    by (simp add: validate_incoming_def gap_example_def session_dd_def getSessionDataDictionary_def example_fields
        mk_SessionID_def freeze_def isFIXT_def elift_def)
  moreover have "msg_seq_num ?m = Ok n" by (rule order_number)
  moreover have "fromApp (m_application gap_example) i ?m = Ok ()" for i
    by (simp add: gap_example_def example_fields example_application_def)
  moreover obtain a b c d e where "getFieldRef (m_header ?m) TAG_BeginString = Ok a" "m_string a = ''FIX.4.2''"
    "getFieldRef (m_header ?m) TAG_MsgType = Ok b" "m_string b = ''D''" "getFieldRef (m_header ?m) TAG_SenderCompID = Ok c" "m_string c = ''THEM''"
    "getFieldRef (m_header ?m) TAG_TargetCompID = Ok d" "m_string d = ''US''" "getFieldRef (m_header ?m) TAG_SendingTime = Ok e"
    using refs by (metis insert_iff)
  ultimately show ?thesis
    by (simp add: deliverable_def msg_type_def field_of_def isCorrectCompID_def sid mk_SessionID_def freeze_def isAdminMsgType_def
        getBeginString_def getSenderCompID_def getTargetCompID_def)
qed



end
