(* ===== verification/Dictionaries.thy ===== *)
theory Dictionaries
  imports FixFields
begin

text \<open>
  Dictionary.h and Dictionary.cpp, and the string helpers of Utility.cpp they use: the keys and values of
  one section of the settings. Keys are stored in upper case and stripped, values stripped. \<open>toupper\<close> and
  \<open>tolower\<close> are those of the "C" locale. Floating point values are parsed and printed by a vendored library: these
  two functions are parameters of \<open>getDouble\<close> and \<open>setDouble\<close>.
\<close>

section \<open>Strings\<close>

definition to_upper :: "char \<Rightarrow> char" where
  "to_upper c = (if 97 \<le> byte c \<and> byte c \<le> 122 then char_of (byte c - 32) else c)"

definition to_lower :: "char \<Rightarrow> char" where
  "to_lower c = (if 65 \<le> byte c \<and> byte c \<le> 90 then char_of (byte c + 32) else c)"

definition string_toUpper :: "string \<Rightarrow> string" where
  "string_toUpper value' = map to_upper value'"

definition string_toLower :: "string \<Rightarrow> string" where
  "string_toLower value' = map to_lower value'"

text \<open>\<open>find_first_not_of\<close> from a position on and \<open>find_last_not_of\<close> up to a position, for a set of characters.\<close>

definition find_first_not_of :: "(char \<Rightarrow> bool) \<Rightarrow> string \<Rightarrow> nat \<Rightarrow> nat option" where
  "find_first_not_of P s i =
     (if list_all P (drop i s) then None else Some (i + length (takeWhile P (drop i s))))"

definition find_last_not_of :: "(char \<Rightarrow> bool) \<Rightarrow> string \<Rightarrow> nat \<Rightarrow> nat option" where
  "find_last_not_of P s i =
     (let t = take (i + 1) s in
      if list_all P t then None else Some (length t - 1 - length (takeWhile P (rev t))))"

definition blank :: "char \<Rightarrow> bool" where
  "blank c = (c = CHR '' '' \<or> c = CHR 0x09 \<or> c = CHR 0x0D \<or> c = CHR 0x0A)"

definition string_strip :: "string \<Rightarrow> string" where
  "string_strip value' =
     (if value' = [] then value'
      else case (find_first_not_of blank value' 0, find_last_not_of blank value' (length value')) of
        (Some startPos, Some endPos) \<Rightarrow> take (endPos - startPos + 1) (drop startPos value')
      | _ \<Rightarrow> value')"

definition space_or_tab :: "char \<Rightarrow> bool" where
  "space_or_tab c = (c = CHR '' '' \<or> c = CHR 0x09)"

text \<open>The loop of \<open>string_split\<close> from \<open>start\<close> on.\<close>

function string_split_loop :: "string \<Rightarrow> char \<Rightarrow> nat \<Rightarrow> string list \<Rightarrow> string list" where
  "string_split_loop value' delimiter start subStrings =
     (if start \<le> length value' then
        let end' = (case str_find [delimiter] value' start of None \<Rightarrow> length value' | Some i \<Rightarrow> i);
            subStrings =
              (case find_first_not_of space_or_tab value' start of
                 None \<Rightarrow> subStrings
               | Some first \<Rightarrow>
                   if first < end' then
                     (case find_last_not_of space_or_tab value' (end' - 1) of
                        None \<Rightarrow> subStrings
                      | Some last' \<Rightarrow> insort_insert (take (last' - first + 1) (drop first value')) subStrings)
                   else subStrings)
        in string_split_loop value' delimiter (end' + 1) subStrings
      else subStrings)"
  by auto
termination
  by (relation "measure (\<lambda>(v, d, start, ss). Suc (length v) - start)")
    (auto dest: str_find_bound split: option.split)

declare string_split_loop.simps [simp del]

definition string_split :: "string \<Rightarrow> char \<Rightarrow> string list" where
  "string_split value' delimiter = string_split_loop value' delimiter 0 []"

section \<open>Dictionary\<close>

record Dictionary =
  m_data :: "(string, string) smap"
  m_name :: string

definition new_Dictionary :: "string \<Rightarrow> Dictionary" where
  "new_Dictionary name = \<lparr>m_data = [], m_name = name\<rparr>"

definition dict_getString :: "string \<Rightarrow> bool \<Rightarrow> Dictionary \<Rightarrow> string result" where
  "dict_getString key capitalize d =
     (case smap_find (m_data d) (string_toUpper key) of
        None \<Rightarrow> Throw ConfigError
      | Some result \<Rightarrow> Ok (if capitalize then map to_upper result else result))"

definition getInt :: "string \<Rightarrow> Dictionary \<Rightarrow> int result" where
  "getInt key d = rbind (dict_getString key False d) (\<lambda>v. of_option ConfigError (int_convert signed_int v))"

definition getDouble :: "(string \<Rightarrow> 'f) \<Rightarrow> string \<Rightarrow> Dictionary \<Rightarrow> 'f result" where
  "getDouble to_double key d =
     rbind (dict_getString key False d)
       (\<lambda>v. if DoubleConvertor_valid v then Ok (to_double v) else Throw ConfigError)"

definition getBool :: "string \<Rightarrow> Dictionary \<Rightarrow> bool result" where
  "getBool key d = rbind (dict_getString key False d) (\<lambda>v. of_option ConfigError (BoolConvertor_convert v))"

definition dict_getDay :: "string \<Rightarrow> Dictionary \<Rightarrow> int result" where
  "dict_getDay key d =
     rbind (dict_getString key False d) (\<lambda>v.
       if length v < 2 then Throw ConfigError
       else let abbr = map to_lower (take 2 v) in
         Ok (if abbr = ''su'' then 1 else if abbr = ''mo'' then 2 else if abbr = ''tu'' then 3
             else if abbr = ''we'' then 4 else if abbr = ''th'' then 5 else if abbr = ''fr'' then 6
             else if abbr = ''sa'' then 7 else -1))"

definition numericKeys :: "string list" where
  "numericKeys = [''HEARTBTINT'', ''MAXLATENCY'', ''LOGONTIMEOUT'', ''LOGOUTTIMEOUT'', ''RECONNECTINTERVAL'',
     ''SOCKETCONNECTPORT'']"

definition put_data :: "string \<Rightarrow> string \<Rightarrow> Dictionary \<Rightarrow> Dictionary" where
  "put_data key value' d = d\<lparr>m_data := smap_put (string_strip (string_toUpper key)) value' (m_data d)\<rparr>"

definition dict_setString :: "string \<Rightarrow> string \<Rightarrow> Dictionary \<Rightarrow> Dictionary result" where
  "dict_setString key value' d =
     (let upperKey = string_strip (string_toUpper key);
          strippedVal = string_strip value' in
      if upperKey \<in> set numericKeys \<and> \<not> list_all is_digit strippedVal then Throw ConfigError
      else Ok (d\<lparr>m_data := smap_put upperKey strippedVal (m_data d)\<rparr>))"

definition setInt :: "string \<Rightarrow> int \<Rightarrow> Dictionary \<Rightarrow> Dictionary" where
  "setInt key value' = put_data key (integer_to_string value')"

definition setDouble :: "('f \<Rightarrow> string) \<Rightarrow> string \<Rightarrow> 'f \<Rightarrow> Dictionary \<Rightarrow> Dictionary" where
  "setDouble of_double key value' = put_data key (of_double value')"

definition setBool :: "string \<Rightarrow> bool \<Rightarrow> Dictionary \<Rightarrow> Dictionary" where
  "setBool key value' = put_data key (BoolConvertor_string value')"

definition setDay :: "string \<Rightarrow> int \<Rightarrow> Dictionary \<Rightarrow> Dictionary result" where
  "setDay key value' d =
     (if value' = 1 then dict_setString key ''SU'' d
      else if value' = 2 then dict_setString key ''MO'' d
      else if value' = 3 then dict_setString key ''TU'' d
      else if value' = 4 then dict_setString key ''WE'' d
      else if value' = 5 then dict_setString key ''TH'' d
      else if value' = 6 then dict_setString key ''FR'' d
      else if value' = 7 then dict_setString key ''SA'' d
      else Ok d)"

definition dict_has :: "string \<Rightarrow> Dictionary \<Rightarrow> bool" where
  "dict_has key d = (smap_find (m_data d) (string_toUpper key) \<noteq> None)"

definition merge_entry :: "(string, string) smap \<Rightarrow> string \<times> string \<Rightarrow> (string, string) smap" where
  "merge_entry m i = (if smap_find m (fst i) = None then smap_put (fst i) (snd i) m else m)"

definition dict_merge :: "Dictionary \<Rightarrow> Dictionary \<Rightarrow> Dictionary" where
  "dict_merge toMerge d = d\<lparr>m_data := foldl merge_entry (m_data d) (m_data toMerge)\<rparr>"

text \<open>\<open>toupper\<close> on the bits of a character, for evaluation.\<close>

lemma to_upper_code [code]:
  "to_upper (Char b0 b1 b2 b3 b4 b5 b6 b7) =
     (if \<not> b7 \<and> b6 \<and> b5 \<and> (b0 \<or> b1 \<or> b2 \<or> b3 \<or> b4) \<and> \<not> (b4 \<and> b3 \<and> (b2 \<or> b1 \<and> b0))
      then Char b0 b1 b2 b3 b4 False b6 b7 else Char b0 b1 b2 b3 b4 b5 b6 b7)"
  by (cases b0; cases b1; cases b2; cases b3; cases b4; cases b5; cases b6; cases b7)
    (simp_all add: to_upper_def byte_def char_of_def of_char_def bit_iff_odd)

section \<open>Stripping and splitting\<close>

text \<open>What stripping means: the text without the leading and trailing characters of a kind. A text of
  blanks only is left as it is.\<close>

definition trim :: "(char \<Rightarrow> bool) \<Rightarrow> string \<Rightarrow> string" where
  "trim P s = rev (dropWhile P (rev (dropWhile P s)))"

lemma takeWhile_some_left: "\<not> list_all P s \<Longrightarrow> length (takeWhile P s) < length s"
  by (induction s) auto

lemma between_not_of:
  assumes "\<not> list_all P t"
  shows "take (length t - length (takeWhile P (rev t)) - length (takeWhile P t)) (drop (length (takeWhile P t)) t) = trim P t"
    and "length (takeWhile P (rev t)) + length (takeWhile P t) < length t"
proof -
  define u where "u = dropWhile P t"
  have t: "t = takeWhile P t @ u" by (simp add: u_def)
  have u: "\<not> list_all P u" using assms by (metis list_all_append list_all_iff set_takeWhileD t)
  have "rev t = rev u @ rev (takeWhile P t)" by (subst t) (rule rev_append)
  moreover have "\<exists>x\<in>set (rev u). \<not> P x" using u by (auto simp: list_all_iff)
  ultimately have tw: "takeWhile P (rev t) = takeWhile P (rev u)" by (metis takeWhile_append1)
  have d: "drop (length (takeWhile P t)) t = u" by (metis append_eq_conv_conj t)
  have len: "length t = length (takeWhile P t) + length u" by (metis length_append t)
  have "rev (dropWhile P (rev u)) = take (length u - length (takeWhile P (rev u))) u"
    by (metis dropWhile_eq_drop length_rev rev_drop rev_rev_ident)
  then show "take (length t - length (takeWhile P (rev t)) - length (takeWhile P t)) (drop (length (takeWhile P t)) t) = trim P t"
    unfolding d tw trim_def u_def [symmetric] using len by simp
  show "length (takeWhile P (rev t)) + length (takeWhile P t) < length t"
    unfolding tw len using takeWhile_some_left [of P "rev u"] u by simp
qed

lemma string_strip_trim: "string_strip s = (if list_all blank s then s else trim blank s)"
proof (cases "list_all blank s")
  case True
  then show ?thesis by (simp add: string_strip_def find_first_not_of_def)
next
  case False
  then have "length s - 1 - length (takeWhile blank (rev s)) - length (takeWhile blank s) + 1 =
      length s - length (takeWhile blank (rev s)) - length (takeWhile blank s)"
    using between_not_of(2) [OF False] by simp
  with between_not_of(1) [OF False] False show ?thesis
    by (auto simp: string_strip_def find_first_not_of_def find_last_not_of_def)
qed

text \<open>What is stripped is stripped: both ends are not blank.\<close>

definition stripped :: "string \<Rightarrow> bool" where
  "stripped s = (s = [] \<or> \<not> blank (hd s) \<and> \<not> blank (last s))"

lemma trim_sublist: "\<exists>a b. s = a @ trim P s @ b \<and> list_all P a \<and> list_all P b"
proof -
  have 1: "s = takeWhile P s @ dropWhile P s" by simp
  have 2: "dropWhile P s = trim P s @ rev (takeWhile P (rev (dropWhile P s)))"
    unfolding trim_def by (metis rev_append rev_rev_ident takeWhile_dropWhile_id)
  show ?thesis
    by (rule exI [of _ "takeWhile P s"], rule exI [of _ "rev (takeWhile P (rev (dropWhile P s)))"])
      (use 1 2 set_takeWhileD in \<open>fastforce simp: list_all_iff\<close>)
qed

lemma all_dropWhile: "list_all P (dropWhile P s) \<longleftrightarrow> list_all P s"
  by (induction s) auto

lemma trim_empty [simp]: "trim P s = [] \<longleftrightarrow> list_all P s"
  using all_dropWhile [of P s] by (simp add: trim_def list_all_iff)

lemma trim_ends: "trim P s \<noteq> [] \<Longrightarrow> \<not> P (hd (trim P s)) \<and> \<not> P (last (trim P s))"
proof -
  assume ne: "trim P s \<noteq> []"
  then have 1: "\<not> P (last (trim P s))"
    unfolding trim_def by (metis hd_dropWhile last_rev rev_is_Nil_conv)
  from ne have "hd (trim P s) = hd (dropWhile P s)" "dropWhile P s \<noteq> []"
    using trim_empty [of P s] all_dropWhile [of P s] unfolding trim_def
    by (metis hd_append2 rev_append rev_rev_ident takeWhile_dropWhile_id) (use ne trim_def in force)
  with 1 hd_dropWhile show ?thesis by metis
qed

lemma trim_id: "s = [] \<or> \<not> P (hd s) \<and> \<not> P (last s) \<Longrightarrow> trim P s = s"
proof -
  have start: "t = [] \<or> \<not> P (hd t) \<Longrightarrow> dropWhile P t = t" for t by (cases t) auto
  assume "s = [] \<or> \<not> P (hd s) \<and> \<not> P (last s)"
  then show ?thesis using start [of s] start [of "rev s"] by (auto simp: trim_def hd_rev)
qed

lemma string_strip_id [simp]: "stripped s \<Longrightarrow> string_strip s = s"
  by (simp add: string_strip_trim stripped_def trim_id)

lemma stripped_strip: "\<not> list_all blank s \<or> s = [] \<Longrightarrow> stripped (string_strip s)"
  using trim_ends [of blank s] by (auto simp: string_strip_trim stripped_def)

lemma string_strip_idem [simp]: "string_strip (string_strip s) = string_strip s"
proof (cases "list_all blank s")
  case True
  then show ?thesis by (simp add: string_strip_trim)
next
  case False
  with stripped_strip show ?thesis by simp
qed

lemma set_string_strip: "set (string_strip s) \<subseteq> set s"
proof -
  obtain a b where "s = a @ trim blank s @ b" using trim_sublist [of s blank] by blast
  then have "set (trim blank s) \<subseteq> set s" by (metis Un_upper1 Un_upper2 order_trans set_append)
  then show ?thesis by (simp add: string_strip_trim)
qed

lemma length_string_strip: "length (string_strip s) \<le> length s"
proof -
  obtain a b where "s = a @ trim blank s @ b" using trim_sublist [of s blank] by blast
  then have "length (trim blank s) \<le> length s" by (metis le_add1 le_add2 order_trans length_append)
  then show ?thesis by (simp add: string_strip_trim)
qed

text \<open>The pieces between delimiters.\<close>

fun tokens :: "char \<Rightarrow> string \<Rightarrow> string list" where
  "tokens d [] = [[]]"
| "tokens d (c # s) =
     (if c = d then [] # tokens d s
      else case tokens d s of [] \<Rightarrow> [[c]] | t # ts \<Rightarrow> (c # t) # ts)"

lemma tokens_nonempty [simp]: "tokens d s \<noteq> []"
  by (induction s) (auto split: list.split)

lemma tokens_absent: "d \<notin> set s \<Longrightarrow> tokens d s = [s]"
  by (induction s) auto

lemma tokens_append: "d \<notin> set a \<Longrightarrow> tokens d (a @ d # b) = a # tokens d b"
  by (induction a) auto

definition add_token :: "string \<Rightarrow> string list \<Rightarrow> string list" where
  "add_token a ss = (if list_all space_or_tab a then ss else insort_insert (trim space_or_tab a) ss)"

text \<open>One turn of the loop takes the next piece.\<close>

lemma split_piece:
  assumes v: "v = u @ a @ b" and "b = [] \<or> \<not> space_or_tab (hd b)"
  shows "(case find_first_not_of space_or_tab v (length u) of
      None \<Rightarrow> ss
    | Some first \<Rightarrow>
        if first < length u + length a then
          (case find_last_not_of space_or_tab v (length u + length a - 1) of
             None \<Rightarrow> ss
           | Some last' \<Rightarrow> insort_insert (take (last' - first + 1) (drop first v)) ss)
        else ss) = add_token a ss"
proof (cases "list_all space_or_tab a")
  case True
  have "takeWhile space_or_tab (a @ b) = a" using True assms(2)
    by (cases b) (auto simp: list_all_iff)
  with True show ?thesis by (simp add: find_first_not_of_def v add_token_def)
next
  case False
  let ?f = "length (takeWhile space_or_tab a)" and ?l = "length (takeWhile space_or_tab (rev a))"
  have tw: "takeWhile space_or_tab (a @ b) = takeWhile space_or_tab a"
    using False by (metis list_all_iff takeWhile_append1)
  have first: "find_first_not_of space_or_tab v (length u) = Some (length u + ?f)"
    using False by (simp add: find_first_not_of_def v tw)
  have ne: "a \<noteq> []" using False by auto
  then have "take (length u + length a - 1 + 1) v = u @ a" by (simp add: v)
  moreover have "takeWhile space_or_tab (rev (u @ a)) = takeWhile space_or_tab (rev a)"
    using False by (auto simp: list_all_iff intro: takeWhile_append1)
  ultimately have last': "find_last_not_of space_or_tab v (length u + length a - 1) = Some (length u + length a - 1 - ?l)"
    using False by (simp add: find_last_not_of_def)
  have len: "length u + length a - 1 - ?l - (length u + ?f) + 1 = length a - ?l - ?f"
    using between_not_of(2) [OF False] by simp
  have "take (length a - ?l - ?f) (drop (length u + ?f) v) = trim space_or_tab a"
    using between_not_of [OF False] by (simp add: v)
  then show ?thesis
    unfolding first last' option.case len using between_not_of(2) [OF False] False by (simp add: add_token_def)
qed

lemma string_split_tokens:
  assumes "\<not> space_or_tab d"
  shows "string_split_loop (u @ s) d (length u) ss = fold add_token (tokens d s) ss"
proof (induction "length s" arbitrary: u s ss rule: less_induct)
  case less
  show ?case
  proof (cases "d \<in> set s")
    case True
    then obtain a b where s: "s = a @ d # b" and a: "d \<notin> set a" by (meson split_list_first)
    define v where "v = u @ s"
    have found: "str_find [d] v (length u) = Some (length u + length a)"
      using str_find_seg [of v u a d "[]" b "length u"] s a by (simp add: v_def)
    have "string_split_loop v d (length u) ss = string_split_loop v d (length u + length a + 1) (add_token a ss)"
    proof -
      have v: "v = u @ a @ d # b" "length u \<le> length v" by (simp_all add: v_def s)
      show ?thesis
        using split_piece [OF v(1), of ss] assms v(2) by (subst string_split_loop.simps) (simp add: found Let_def)
    qed
    also have "\<dots> = string_split_loop ((u @ a @ [d]) @ b) d (length (u @ a @ [d])) (add_token a ss)"
      by (simp add: v_def s)
    also have "\<dots> = fold add_token (tokens d b) (add_token a ss)"
      using less [of b "u @ a @ [d]" "add_token a ss"] s by simp
    finally show ?thesis unfolding v_def by (simp add: s tokens_append [OF a])
  next
    case False
    have absent: "str_find [d] (u @ s) (length u) = None"
      using str_find_seg_absent [of "u @ s" u s d] False by simp
    have stop: "string_split_loop v d (length v + 1) ss = ss" for v ss
      by (subst string_split_loop.simps) simp
    define v where "v = u @ s"
    have v: "v = u @ s @ []" "length u \<le> length v" "length u + length s = length v" by (simp_all add: v_def)
    show ?thesis
      using split_piece [OF v(1), of ss] stop [of v] absent v(2)
      unfolding v_def [symmetric] v(3)
      by (subst string_split_loop.simps) (simp add: Let_def tokens_absent [OF False])
  qed
qed

lemma set_add_tokens:
  "set (fold add_token ts ss) = set ss \<union> trim space_or_tab ` {t \<in> set ts. \<not> list_all space_or_tab t}"
  by (induction ts arbitrary: ss) (auto simp: add_token_def set_insort_insert)

text \<open>\<open>string_split\<close> returns exactly the trimmed pieces that are not blank, each once and in order.\<close>

lemma string_split_exact:
  assumes "\<not> space_or_tab d"
  shows "set (string_split v d) = trim space_or_tab ` {t \<in> set (tokens d v). \<not> list_all space_or_tab t}"
    and "sorted (string_split v d) \<and> distinct (string_split v d)"
proof -
  have split: "string_split v d = fold add_token (tokens d v) []"
    using string_split_tokens [OF assms, of "[]" v "[]"] by (simp add: string_split_def)
  show "set (string_split v d) = trim space_or_tab ` {t \<in> set (tokens d v). \<not> list_all space_or_tab t}"
    unfolding split set_add_tokens by simp
  have "sorted ss \<and> distinct ss \<Longrightarrow> sorted (fold add_token ts ss) \<and> distinct (fold add_token ts ss)" for ts ss
    by (induction ts arbitrary: ss) (simp_all add: add_token_def sorted_insort_insert distinct_insort_insert)
  then show "sorted (string_split v d) \<and> distinct (string_split v d)" by (simp add: split)
qed

section \<open>Laws of a dictionary\<close>

definition dict_ok :: "Dictionary \<Rightarrow> bool" where
  "dict_ok d = smap_ok (m_data d)"

abbreviation dict_value :: "Dictionary \<Rightarrow> string \<rightharpoonup> string" where
  "dict_value d \<equiv> smap_find (m_data d)"

lemma dict_ok_new [simp]: "dict_ok (new_Dictionary name)"
  by (simp add: dict_ok_def new_Dictionary_def)

lemma dict_setString_Ok:
  "dict_setString key v d = Ok d' \<longleftrightarrow>
     (string_strip (string_toUpper key) \<in> set numericKeys \<longrightarrow> list_all is_digit (string_strip v)) \<and>
     d' = d\<lparr>m_data := smap_put (string_strip (string_toUpper key)) (string_strip v) (m_data d)\<rparr>"
  by (auto simp: dict_setString_def Let_def)

lemma dict_setString_value:
  "dict_setString key v d = Ok d' \<Longrightarrow> dict_ok d \<Longrightarrow>
   dict_ok d' \<and> dict_value d' = (dict_value d)(string_strip (string_toUpper key) \<mapsto> string_strip v) \<and> m_name d' = m_name d"
  by (auto simp: dict_setString_Ok dict_ok_def)

lemma merge_entries:
  "smap_ok m \<Longrightarrow> smap_ok (foldl merge_entry m es) \<and>
   (\<forall>k. smap_find (foldl merge_entry m es) k = (case smap_find m k of None \<Rightarrow> smap_find es k | Some v \<Rightarrow> Some v))"
proof (induction es arbitrary: m)
  case (Cons e es)
  have ok: "smap_ok (merge_entry m e)" using Cons.prems by (simp add: merge_entry_def)
  have "smap_find (merge_entry m e) k =
      (case smap_find m k of None \<Rightarrow> if k = fst e then Some (snd e) else None | Some v \<Rightarrow> Some v)" for k
    using Cons.prems by (auto simp: merge_entry_def split: option.split)
  with Cons.IH [OF ok] show ?case by (cases e) (auto split: option.split)
qed (auto split: option.split)

text \<open>A store of settings with a layer below it: what the upper layer does not say the lower one does.\<close>

locale layered_settings =
  fixes ok :: "'d \<Rightarrow> bool"
    and lookup :: "'d \<Rightarrow> string \<rightharpoonup> string"
    and merge :: "'d \<Rightarrow> 'd \<Rightarrow> 'd"
  assumes ok_merge: "ok d \<Longrightarrow> ok e \<Longrightarrow> ok (merge e d)"
    and lookup_merge: "ok d \<Longrightarrow> ok e \<Longrightarrow> lookup (merge e d) = lookup e ++ lookup d"
begin

lemma upper_wins: "ok d \<Longrightarrow> ok e \<Longrightarrow> lookup d k = Some v \<Longrightarrow> lookup (merge e d) k = Some v"
  by (simp add: lookup_merge)

lemma lower_fills: "ok d \<Longrightarrow> ok e \<Longrightarrow> lookup d k = None \<Longrightarrow> lookup (merge e d) k = lookup e k"
  by (simp add: lookup_merge map_add_def)

lemma merge_twice: "ok d \<Longrightarrow> ok e \<Longrightarrow> lookup (merge e (merge e d)) = lookup (merge e d)"
  by (auto simp: lookup_merge ok_merge map_add_def fun_eq_iff split: option.split)

lemma merge_covered: "ok d \<Longrightarrow> ok e \<Longrightarrow> dom (lookup e) \<subseteq> dom (lookup d) \<Longrightarrow> lookup (merge e d) = lookup d"
  by (auto simp: lookup_merge map_add_def fun_eq_iff split: option.split)

lemma dom_merge: "ok d \<Longrightarrow> ok e \<Longrightarrow> dom (lookup (merge e d)) = dom (lookup d) \<union> dom (lookup e)"
  by (simp add: lookup_merge)

end

interpretation dict: layered_settings dict_ok dict_value dict_merge
proof unfold_locales
  fix d e
  assume "dict_ok d" "dict_ok e"
  then show "dict_ok (dict_merge e d)" "dict_value (dict_merge e d) = dict_value e ++ dict_value d"
    using merge_entries [of "m_data d" "m_data e"]
    by (auto simp: dict_ok_def dict_merge_def map_add_def fun_eq_iff split: option.split)
qed

lemma dict_ext: "dict_ok d \<Longrightarrow> dict_ok d' \<Longrightarrow> dict_value d = dict_value d' \<Longrightarrow> m_name d = m_name d' \<Longrightarrow> d = d'"
  by (cases d, cases d') (simp add: dict_ok_def smap_ext)

lemma dict_merge_covered:
  "dict_ok d \<Longrightarrow> dict_ok e \<Longrightarrow> dom (dict_value e) \<subseteq> dom (dict_value d) \<Longrightarrow> dict_merge e d = d"
  using dict.merge_covered [of d e] dict.ok_merge [of d e]
  by (intro dict_ext) (simp_all add: dict_merge_def)

text \<open>Typed values read back. Reading does not strip the key, so this needs a key without blanks at its ends.\<close>

lemma typed_settings_read_back:
  assumes "dict_ok d" "string_strip (string_toUpper key) = string_toUpper key"
  shows "- (2 ^ 31) \<le> v \<Longrightarrow> v < 2 ^ 31 \<Longrightarrow> getInt key (setInt key v d) = Ok v"
    and "getBool key (setBool key b d) = Ok b"
    and "string_toUpper key \<notin> set numericKeys \<Longrightarrow> n \<in> {1 .. 7} \<Longrightarrow> rbind (setDay key n d) (dict_getDay key) = Ok n"
proof -
  have get: "dict_getString key False (put_data key v d) = Ok v" for v
    using assms by (simp add: dict_getString_def put_data_def dict_ok_def)
  show "getInt key (setInt key v d) = Ok v" if "- (2 ^ 31) \<le> v" "v < 2 ^ 31"
    using int_convert_decimal [OF int_types_ok(1), of v] that
    by (simp add: getInt_def setInt_def get integer_to_string_decimal signed_int_def)
  show "getBool key (setBool key b d) = Ok b"
    by (simp add: getBool_def setBool_def get)
  assume "string_toUpper key \<notin> set numericKeys" "n \<in> {1 .. 7}"
  then have n: "n = 1 \<or> n = 2 \<or> n = 3 \<or> n = 4 \<or> n = 5 \<or> n = 6 \<or> n = 7" by auto
  have set: "dict_setString key [a, b] d = Ok (put_data key [a, b] d)" if "\<not> blank a" "\<not> blank b" for a b
    using that assms(2) \<open>string_toUpper key \<notin> _\<close>
    by (simp add: dict_setString_def put_data_def Let_def string_strip_id stripped_def)
  have lower: "to_lower (CHR ''S'') = CHR ''s''" "to_lower (CHR ''U'') = CHR ''u''" "to_lower (CHR ''M'') = CHR ''m''"
    "to_lower (CHR ''O'') = CHR ''o''" "to_lower (CHR ''T'') = CHR ''t''" "to_lower (CHR ''W'') = CHR ''w''"
    "to_lower (CHR ''E'') = CHR ''e''" "to_lower (CHR ''H'') = CHR ''h''" "to_lower (CHR ''F'') = CHR ''f''"
    "to_lower (CHR ''R'') = CHR ''r''" "to_lower (CHR ''A'') = CHR ''a''" by code_simp+
  from n show "rbind (setDay key n d) (dict_getDay key) = Ok n"
    by (elim disjE) (simp_all add: setDay_def set blank_def dict_getDay_def get lower Let_def)
qed

end
