(* ===== verification/SettingsFiles.thy ===== *)
theory SettingsFiles
  imports Dictionaries SessionIDs Effects
begin

text \<open>
  Settings.h, Settings.cpp, SessionSettings.h and SessionSettings.cpp: reading the text of a settings file into
  sections, the substitution of environment variables, the settings of every session with the defaults merged in,
  and printing them. The environment is the parameter \<open>getenv\<close>. A stream is the text left in it.
\<close>

section \<open>Lines\<close>

definition isComment :: "string \<Rightarrow> bool" where
  "isComment line = (if length line = 0 then False else line ! 0 = CHR ''#'')"

definition isSection :: "string \<Rightarrow> bool" where
  "isSection line =
     (if length line = 0 then False else line ! 0 = CHR ''['' \<and> line ! (length line - 1) = CHR '']'')"

definition splitSection :: "string \<Rightarrow> string" where
  "splitSection line = string_strip (take (length line - 2) (drop 1 line))"

definition isKeyValue :: "string \<Rightarrow> bool" where
  "isKeyValue line = (CHR ''='' \<in> set line)"

definition splitKeyValue :: "string \<Rightarrow> string \<times> string" where
  "splitKeyValue line =
     (let equals = find_char (CHR ''='') line in (take equals line, drop (equals + 1) line))"

section \<open>Environment variables\<close>

text \<open>\<open>str[i]\<close> at the length of the string is the terminating NUL. The characters that end a
  variable name; \<open>strchr\<close> also finds the NUL that ends this list.\<close>

definition char_at :: "string \<Rightarrow> nat \<Rightarrow> char" where
  "char_at str i = (if i < length str then str ! i else NUL)"

definition ends_name :: "char \<Rightarrow> bool" where
  "ends_name c = (c \<in> set [CHR '' '', CHR ''/'', CHR '':'', CHR '';'', CHR '','', CHR ''.'', CHR ''='', CHR 0x22, CHR 0x27, CHR ''?'', CHR ''#'', CHR ''+'',
       CHR ''*'', CHR ''('', CHR '')'', CHR ''['', CHR '']'', CHR ''{'', CHR ''}'', CHR ''$'', CHR ''&'', CHR ''%'', CHR 0x09, CHR 0x0A, NUL])"

definition escaped :: "char \<Rightarrow> char" where
  "escaped c = (if c = CHR ''t'' then CHR 0x09 else if c = CHR ''r'' then CHR 0x0D
     else if c = CHR ''n'' then CHR 0x0A else c)"

text \<open>The loop that collects a name: the name, the character it stopped at and the position after it.\<close>

function name_loop :: "string \<Rightarrow> string \<Rightarrow> char \<Rightarrow> nat \<Rightarrow> string \<times> char \<times> nat" where
  "name_loop str varName c actPos =
     (if actPos \<le> length str then
        let varName = varName @ [c]; c = char_at str actPos; actPos = actPos + 1 in
        if ends_name c then (varName, c, actPos) else name_loop str varName c actPos
      else (varName, c, actPos))"
  by auto
termination
  by (relation "measure (\<lambda>(s, n, c, p). Suc (length s) - p)") auto

declare name_loop.simps [simp del]

lemma name_loop_le: "actPos \<le> snd (snd (name_loop str varName c actPos))"
proof (induction str varName c actPos rule: name_loop.induct)
  case (1 str varName c actPos)
  from 1 [OF _ refl refl refl] show ?case
    by (subst name_loop.simps) (auto simp: Let_def dest: Suc_leD)
qed

lemma name_loop_pos: "actPos \<le> length str \<Longrightarrow> actPos < snd (snd (name_loop str varName c actPos))"
  using name_loop_le [of "Suc actPos" str "varName @ [c]" "char_at str actPos"]
  by (subst name_loop.simps) (auto simp: Let_def)

function resolve_loop :: "(string \<Rightarrow> string option) \<Rightarrow> string \<Rightarrow> string \<Rightarrow> nat \<Rightarrow> string" where
  "resolve_loop getenv str resultStr actPos =
     (if actPos < length str then
        let c = char_at str actPos; actPos = actPos + 1 in
        if actPos < length str \<and> c = CHR 0x5C then
          resolve_loop getenv str (resultStr @ [escaped (char_at str actPos)]) (actPos + 1)
        else if actPos < length str \<and> c = CHR ''$'' then
          let c = char_at str actPos; actPos = actPos + 1;
              inBraces = (c = CHR ''('' \<or> c = CHR ''{'');
              (c, actPos) = (if inBraces then (char_at str actPos, actPos + 1) else (c, actPos))
          in if actPos \<ge> length str then resultStr
             else let (varName, c, actPos) = name_loop str [] c actPos;
                      actPos = (if inBraces \<and> actPos \<le> length str \<and> (c = CHR '')'' \<or> c = CHR ''}'')
                                then actPos else actPos - 1)
                  in resolve_loop getenv str
                       (resultStr @ (if varName \<noteq> [] then case getenv (c_str varName) of None \<Rightarrow> [] | Some v \<Rightarrow> v else []))
                       actPos
        else resolve_loop getenv str (resultStr @ [c]) actPos
      else resultStr)"
  by auto
termination
proof (relation "measure (\<lambda>(g, s, r, p). length s - p)", goal_cases)
  case (3 getenv str resultStr actPos c p1 c2 p2 inBraces x c3 p3 y varName z c4 p4 p5)
  have "p3 < p4" using name_loop_pos [of p3 str "[]" c3] 3 by (metis less_imp_le not_le snd_conv)
  then show ?case using 3 by (auto split: if_splits)
qed auto

declare resolve_loop.simps [simp del]

definition resolveEnvVars :: "(string \<Rightarrow> string option) \<Rightarrow> string \<Rightarrow> string" where
  "resolveEnvVars getenv str = resolve_loop getenv str [] 0"

section \<open>Settings\<close>

record Settings =
  m_sections :: "Dictionary list"
  m_resolveEnvVars :: bool

definition new_Settings :: "bool \<Rightarrow> Settings" where
  "new_Settings resolve = \<lparr>m_sections = [], m_resolveEnvVars = resolve\<rparr>"

text \<open>\<open>stream.getline(buffer, 1024)\<close>: the line and the text after it, or \<open>None\<close> when it sets the failbit,
  at the end of the stream or on a line that does not fit.\<close>

definition getline :: "string \<Rightarrow> (string \<times> string) option" where
  "getline stream =
     (let line = takeWhile (\<lambda>c. c \<noteq> CHR 0x0A) stream in
      if stream = [] \<or> length line > 1023 then None else Some (line, drop (length line + 1) stream))"

text \<open>The body of the reading loop on the stripped line; \<open>section\<close> is the iterator, \<open>None\<close> for \<open>end()\<close>.\<close>

definition read_line :: "(string \<Rightarrow> string option) \<Rightarrow> string \<Rightarrow> Settings \<times> nat option \<Rightarrow> (Settings \<times> nat option) result" where
  "read_line getenv line st =
     (case st of (s, section) \<Rightarrow>
        if isComment line then Ok (s, section)
        else if isSection line then
          Ok (s\<lparr>m_sections := m_sections s @ [new_Dictionary (splitSection line)]\<rparr>, Some (length (m_sections s)))
        else if isKeyValue line then
          let (key, value') = splitKeyValue line in
          (case section of
             None \<Rightarrow> Ok (s, section)
           | Some i \<Rightarrow>
               rbind (dict_setString key (if m_resolveEnvVars s then resolveEnvVars getenv value' else value') (m_sections s ! i))
                 (\<lambda>d. Ok (s\<lparr>m_sections := (m_sections s)[i := d]\<rparr>, section)))
        else Ok (s, section))"

function read_loop :: "(string \<Rightarrow> string option) \<Rightarrow> string \<Rightarrow> Settings \<times> nat option \<Rightarrow> (Settings \<times> nat option) result" where
  "read_loop getenv stream st =
     (case getline stream of
        None \<Rightarrow> Ok st
      | Some (buffer, stream') \<Rightarrow>
          rbind (read_line getenv (string_strip (c_str buffer)) st) (read_loop getenv stream'))"
  by auto
termination
  by (relation "measure (\<lambda>(g, stream, st). length stream)") (auto simp: getline_def Let_def split: if_splits)

declare read_loop.simps [simp del]

definition read_Settings :: "(string \<Rightarrow> string option) \<Rightarrow> string \<Rightarrow> Settings \<Rightarrow> Settings result" where
  "read_Settings getenv stream s = rbind (read_loop getenv stream (s, None)) (\<lambda>st. Ok (fst st))"

definition get_sections :: "string \<Rightarrow> Settings \<Rightarrow> Dictionary list" where
  "get_sections name s = filter (\<lambda>d. m_name d = name) (m_sections s)"

section \<open>SessionSettings\<close>

definition BEGINSTRING :: string where "BEGINSTRING = ''BeginString''"
definition SENDERCOMPID :: string where "SENDERCOMPID = ''SenderCompID''"
definition TARGETCOMPID :: string where "TARGETCOMPID = ''TargetCompID''"
definition SESSION_QUALIFIER :: string where "SESSION_QUALIFIER = ''SessionQualifier''"
definition CONNECTION_TYPE :: string where "CONNECTION_TYPE = ''ConnectionType''"

text \<open>\<open>m_settings\<close> is ordered by the text of the session id.\<close>

record SessionSettings =
  m_settings :: "(string, SessionID \<times> Dictionary) smap"
  m_defaults :: Dictionary
  ss_resolveEnvVars :: bool

definition new_SessionSettings :: "bool \<Rightarrow> SessionSettings" where
  "new_SessionSettings resolve = \<lparr>m_settings = [], m_defaults = new_Dictionary [], ss_resolveEnvVars = resolve\<rparr>"

definition settings_has :: "SessionID \<Rightarrow> SessionSettings \<Rightarrow> bool" where
  "settings_has sid s = (smap_find (m_settings s) (m_frozenString sid) \<noteq> None)"

definition settings_get :: "SessionID \<Rightarrow> SessionSettings \<Rightarrow> Dictionary result" where
  "settings_get sid s =
     (case smap_find (m_settings s) (m_frozenString sid) of None \<Rightarrow> Throw ConfigError | Some i \<Rightarrow> Ok (snd i))"

definition settings_validate :: "Dictionary \<Rightarrow> unit result" where
  "settings_validate d =
     rbind (dict_getString BEGINSTRING False d) (\<lambda>beginString.
       if beginString \<notin> {''FIX.4.0'', ''FIX.4.1'', ''FIX.4.2'', ''FIX.4.3'', ''FIX.4.4'', ''FIXT.1.1''} then Throw ConfigError
       else rbind (dict_getString CONNECTION_TYPE False d) (\<lambda>connectionType.
         if connectionType \<noteq> ''initiator'' \<and> connectionType \<noteq> ''acceptor'' then Throw ConfigError else Ok ()))"

definition settings_set :: "SessionID \<Rightarrow> Dictionary \<Rightarrow> (SessionSettings, unit) eff" where
  "settings_set sid settings s =
     (if settings_has sid s then (Throw ConfigError, s)
      else case
        rbind (dict_setString BEGINSTRING (getBeginString sid) settings) (\<lambda>settings.
        rbind (dict_setString SENDERCOMPID (getSenderCompID sid) settings) (\<lambda>settings.
        rbind (dict_setString TARGETCOMPID (getTargetCompID sid) settings) (\<lambda>settings.
        let settings = dict_merge (m_defaults s) settings in
        rbind (settings_validate settings) (\<lambda>_. Ok settings)))) of
        Inl e \<Rightarrow> (Throw e, s)
      | Inr settings \<Rightarrow>
          (Ok (), s\<lparr>m_settings := smap_put (m_frozenString sid) (sid, settings) (m_settings s)\<rparr>))"

definition settings_set_defaults :: "Dictionary \<Rightarrow> SessionSettings \<Rightarrow> SessionSettings" where
  "settings_set_defaults defaults s =
     s\<lparr>m_defaults := defaults,
       m_settings := map (\<lambda>(k, sid, d). (k, sid, dict_merge defaults d)) (m_settings s)\<rparr>"

definition getSessions :: "SessionSettings \<Rightarrow> SessionID list" where
  "getSessions s = map (\<lambda>(k, sid, d). sid) (m_settings s)"

text \<open>The loop over the session sections, and \<open>operator>>\<close>. What was set before an exception stays set.\<close>

definition section_SessionID :: "Dictionary \<Rightarrow> SessionID result" where
  "section_SessionID dict =
     rbind (dict_getString BEGINSTRING False dict) (\<lambda>beginString.
     rbind (dict_getString SENDERCOMPID False dict) (\<lambda>senderCompID.
     rbind (dict_getString TARGETCOMPID False dict) (\<lambda>targetCompID.
     rbind (if dict_has SESSION_QUALIFIER dict then dict_getString SESSION_QUALIFIER False dict else Ok []) (\<lambda>sessionQualifier.
     Ok (mk_SessionID beginString senderCompID targetCompID sessionQualifier)))))"

fun set_sections :: "Dictionary \<Rightarrow> Dictionary list \<Rightarrow> (SessionSettings, unit) eff" where
  "set_sections def [] = eret ()"
| "set_sections def (section # sections) =
     (let dict = dict_merge def section in
      ebind (elift (section_SessionID dict)) (\<lambda>sid.
      ebind (settings_set sid dict) (\<lambda>_. set_sections def sections)))"

definition read_SessionSettings :: "(string \<Rightarrow> string option) \<Rightarrow> string \<Rightarrow> (SessionSettings, unit) eff" where
  "read_SessionSettings getenv stream s =
     (case read_Settings getenv stream (new_Settings (ss_resolveEnvVars s)) of
        Inl e \<Rightarrow> (Throw e, s)
      | Inr settings \<Rightarrow>
          let section = get_sections ''DEFAULT'' settings;
              def = (if length section \<noteq> 0 then section ! 0 else new_Dictionary [])
          in set_sections def (get_sections ''SESSION'' settings) (settings_set_defaults def s))"

text \<open>The constructors, from a stream and from a file, whose content is \<open>None\<close> when it cannot be opened.\<close>

definition SessionSettings_stream :: "(string \<Rightarrow> string option) \<Rightarrow> bool \<Rightarrow> string \<Rightarrow> SessionSettings result" where
  "SessionSettings_stream getenv resolve stream =
     (case read_SessionSettings getenv stream (new_SessionSettings resolve) of (r, s) \<Rightarrow> rbind r (\<lambda>_. Ok s))"

definition SessionSettings_file :: "(string \<Rightarrow> string option) \<Rightarrow> bool \<Rightarrow> string option \<Rightarrow> SessionSettings result" where
  "SessionSettings_file getenv resolve content =
     (case content of None \<Rightarrow> Throw ConfigError | Some stream \<Rightarrow> SessionSettings_stream getenv resolve stream)"

subsection \<open>Printing\<close>

definition endl :: string where "endl = [CHR 0x0A]"

definition print_param :: "string \<times> string \<Rightarrow> string" where
  "print_param p = fst p @ ''='' @ snd p @ endl"

definition same_as_default :: "Dictionary \<Rightarrow> string \<times> string \<Rightarrow> bool" where
  "same_as_default defaults p = (dict_has (fst p) defaults \<and> dict_getString (fst p) False defaults = Ok (snd p))"

definition print_session :: "Dictionary \<Rightarrow> Dictionary \<Rightarrow> string" where
  "print_session defaults section =
     ''[SESSION]'' @ endl @
     (if m_data section = [] then []
      else concat (map print_param (filter (\<lambda>p. \<not> same_as_default defaults p) (m_data section))) @ endl)"

definition print_SessionSettings :: "SessionSettings \<Rightarrow> string" where
  "print_SessionSettings s =
     (let defaults = m_defaults s in
      (if m_data defaults \<noteq> [] then ''[DEFAULT]'' @ endl @ concat (map print_param (m_data defaults)) @ endl else []) @
      concat (map (\<lambda>sid. case settings_get sid s of Inl _ \<Rightarrow> [] | Inr section \<Rightarrow> print_session defaults section) (getSessions s)))"

end
