(* ===== verification/SettingsRoundTrip.thy ===== *)
theory SettingsRoundTrip
  imports SettingsFiles
begin

text \<open>
  What a settings file means: every session has the values of its own section and, where that is silent, those
  of the first default section; and printing what was read gives a text that reads back to it.
\<close>

section \<open>Entries that survive printing\<close>

definition entry_ok :: "string \<times> string \<Rightarrow> bool" where
  "entry_ok p =
     (string_toUpper (fst p) = fst p \<and> stripped (fst p) \<and> stripped (snd p) \<and> CHR ''='' \<notin> set (fst p) \<and>
      CHR 0x0A \<notin> set (fst p @ snd p) \<and> NUL \<notin> set (fst p @ snd p) \<and> length (fst p) + length (snd p) \<le> 1022 \<and>
      \<not> isComment (fst p @ ''='' @ snd p) \<and> \<not> isSection (fst p @ ''='' @ snd p) \<and>
      (fst p \<in> set numericKeys \<longrightarrow> list_all is_digit (snd p)))"

definition dict_wf :: "Dictionary \<Rightarrow> bool" where
  "dict_wf d = (dict_ok d \<and> list_all entry_ok (m_data d))"

lemma isComment_hd: "isComment s \<longleftrightarrow> s \<noteq> [] \<and> hd s = CHR ''#''"
  by (cases s) (auto simp: isComment_def)

lemma isSection_ends: "isSection s \<longleftrightarrow> s \<noteq> [] \<and> hd s = CHR ''['' \<and> last s = CHR '']''"
  by (cases s rule: rev_cases) (auto simp: isSection_def hd_conv_nth)

lemma byte_to_upper: "byte (to_upper c) = (if 97 \<le> byte c \<and> byte c \<le> 122 then byte c - 32 else byte c)"
  by (auto simp: to_upper_def intro!: byte_char_of)

lemma to_upper_other:
  assumes "byte x < 65 \<or> 90 < byte x \<and> byte x < 97 \<or> 122 < byte x"
  shows "to_upper c = x \<longleftrightarrow> c = x"
proof -
  have "byte (to_upper c) = byte x \<longleftrightarrow> byte c = byte x" using assms by (auto simp: byte_to_upper)
  then show ?thesis by simp
qed

lemma to_upper_idem [simp]: "to_upper (to_upper c) = to_upper c"
  unfolding to_upper_def [of "to_upper c"] by (auto simp: byte_to_upper)

lemma to_upper_special [simp]:
  "to_upper c = CHR ''='' \<longleftrightarrow> c = CHR ''=''" "to_upper c = NUL \<longleftrightarrow> c = NUL" "to_upper c = CHR 0x0A \<longleftrightarrow> c = CHR 0x0A"
  "to_upper c = CHR ''['' \<longleftrightarrow> c = CHR ''[''" "to_upper c = CHR ''#'' \<longleftrightarrow> c = CHR ''#''"
  "to_upper c = CHR '' '' \<longleftrightarrow> c = CHR '' ''" "to_upper c = CHR 0x09 \<longleftrightarrow> c = CHR 0x09" "to_upper c = CHR 0x0D \<longleftrightarrow> c = CHR 0x0D"
  by (rule to_upper_other, simp add: byte_def)+

lemma blank_to_upper [simp]: "blank (to_upper c) = blank c"
  by (simp add: blank_def)

lemma strip_keeps_hd:
  assumes "s \<noteq> []" "\<not> blank (hd s)"
  shows "string_strip s \<noteq> [] \<and> hd (string_strip s) = hd s"
proof -
  have some: "\<not> list_all blank s" using assms by (cases s) auto
  obtain a b t where ab: "s = a @ t @ b" "list_all blank a" and t: "t = trim blank s" using trim_sublist by blast
  have "t \<noteq> []" using some by (simp add: t)
  moreover have "a = []" using ab assms(2) by (cases a) auto
  moreover have "string_strip s = t" using some by (simp add: string_strip_trim t)
  ultimately show ?thesis using ab(1) by simp
qed

lemma strip_keeps_last:
  assumes "s \<noteq> []" "\<not> blank (last s)"
  shows "string_strip s \<noteq> [] \<and> last (string_strip s) = last s"
proof -
  have some: "\<not> list_all blank s" using assms by (cases s rule: rev_cases) auto
  obtain a b t where ab: "s = a @ t @ b" "list_all blank b" and t: "t = trim blank s" using trim_sublist by blast
  have "t \<noteq> []" using some by (simp add: t)
  moreover have "b = []" using ab assms(2) by (cases b rule: rev_cases) auto
  moreover have "string_strip s = t" using some by (simp add: string_strip_trim t)
  ultimately show ?thesis using ab(1) by simp
qed

lemma splitKeyValue_parts:
  assumes "CHR ''='' \<in> set line" "splitKeyValue line = (k, v)"
  shows "line = k @ ''='' @ v \<and> CHR ''='' \<notin> set k"
proof -
  obtain a b where ab: "line = a @ CHR ''='' # b" "CHR ''='' \<notin> set a" using assms(1) by (meson split_list_first)
  with assms(2) show ?thesis by (simp add: splitKeyValue_def Let_def)
qed

text \<open>A key and value taken from a line, as \<open>dict_setString\<close> stores them.\<close>

lemma entry_of_line:
  assumes line: "stripped line" "CHR 0x0A \<notin> set line" "NUL \<notin> set line" "length line \<le> 1023"
    "\<not> isComment line" "\<not> isSection line" "line = k @ ''='' @ v" "CHR ''='' \<notin> set k"
    and numeric: "string_strip (string_toUpper k) \<in> set numericKeys \<longrightarrow> list_all is_digit (string_strip v)"
  shows "entry_ok (string_strip (string_toUpper k), string_strip v)"
proof -
  let ?k = "string_strip (string_toUpper k)" and ?v = "string_strip v"
  have hk: "k = [] \<or> \<not> blank (hd k)" and lv: "v = [] \<or> \<not> blank (last v)"
    using line(1,7) by (auto simp: stripped_def)
  have hU: "string_toUpper k = [] \<or> \<not> blank (hd (string_toUpper k))"
    using hk by (cases k) (simp_all add: string_toUpper_def)
  have sk: "stripped ?k" using hU by (intro stripped_strip) (cases "string_toUpper k"; auto)
  have sv: "stripped ?v" using lv by (intro stripped_strip) (cases v rule: rev_cases; auto)
  have setk: "set ?k \<subseteq> to_upper ` set k" using set_string_strip [of "string_toUpper k"] by (simp add: string_toUpper_def)
  have upper: "string_toUpper ?k = ?k"
    unfolding string_toUpper_def by (rule map_idI) (use setk string_toUpper_def in force)
  have up: "x \<in> set k" if "x \<in> set ?k" "\<And>c. to_upper c = x \<longleftrightarrow> c = x" for x
    using that setk by (metis imageE subsetD)
  have chars: "CHR ''='' \<notin> set ?k" "CHR 0x0A \<notin> set (?k @ ?v)" "NUL \<notin> set (?k @ ?v)"
    using line(2,3,7,8) up [of "CHR ''=''"] up [of NUL] up [of "CHR 0x0A"] set_string_strip [of v] by auto
  have len: "length ?k + length ?v \<le> 1022"
    using length_string_strip [of "string_toUpper k"] length_string_strip [of v] line(4,7) by (simp add: string_toUpper_def)
  have hd: "?k = [] \<and> k = [] \<or> ?k \<noteq> [] \<and> k \<noteq> [] \<and> hd ?k = to_upper (hd k)"
    using hU strip_keeps_hd [of "string_toUpper k"] by (cases k) (auto simp: string_toUpper_def string_strip_def)
  have last': "?v = [] \<and> v = [] \<or> ?v \<noteq> [] \<and> v \<noteq> [] \<and> last ?v = last v"
    using lv strip_keeps_last [of v] by (cases "v = []") (auto simp: string_strip_def)
  have "\<not> isComment (?k @ ''='' @ ?v)" using line(5,7) hd by (auto simp: isComment_hd)
  moreover have "\<not> isSection (?k @ ''='' @ ?v)" using line(6,7) hd last' by (auto simp: isSection_ends)
  ultimately show ?thesis using sk sv upper chars len numeric by (simp add: entry_ok_def)
qed

section \<open>What reading gives\<close>

lemma dict_wf_new [simp]: "dict_wf (new_Dictionary name)"
  by (simp add: dict_wf_def new_Dictionary_def dict_ok_def)

lemma dict_wf_put: "dict_wf d \<Longrightarrow> entry_ok (k, v) \<Longrightarrow> dict_wf (d\<lparr>m_data := smap_put k v (m_data d)\<rparr>)"
  by (simp add: dict_wf_def dict_ok_def smap_put_all)

lemma dict_wf_merge: "dict_wf d \<Longrightarrow> dict_wf e \<Longrightarrow> dict_wf (dict_merge e d)"
proof -
  have "list_all entry_ok m \<Longrightarrow> list_all entry_ok es \<Longrightarrow> list_all entry_ok (foldl merge_entry m es)" for m es
    by (induction es arbitrary: m) (auto simp: merge_entry_def smap_put_all)
  then show "dict_wf d \<Longrightarrow> dict_wf e \<Longrightarrow> dict_wf (dict_merge e d)"
    using dict.ok_merge [of d e] by (simp add: dict_wf_def) (simp add: dict_merge_def)
qed

text \<open>The invariant of the reading loop: the sections hold well-formed entries and the iterator is in range.\<close>

definition read_ok :: "Settings \<times> nat option \<Rightarrow> bool" where
  "read_ok st =
     (\<not> m_resolveEnvVars (fst st) \<and> list_all dict_wf (m_sections (fst st)) \<and>
      (case snd st of None \<Rightarrow> True | Some i \<Rightarrow> i < length (m_sections (fst st))))"

lemma read_line_ok:
  assumes "read_ok st" "read_line getenv line st = Ok st'"
    and "CHR 0x0A \<notin> set line" "NUL \<notin> set line" "length line \<le> 1023" "string_strip line = line"
  shows "read_ok st'"
proof -
  obtain s i where st: "st = (s, i)" by (cases st)
  consider "isComment line" | "\<not> isComment line" "isSection line"
    | "\<not> isComment line" "\<not> isSection line" "isKeyValue line" | "\<not> isComment line" "\<not> isSection line" "\<not> isKeyValue line" by blast
  then show ?thesis
  proof cases
    case 3
    obtain k v where kv: "splitKeyValue line = (k, v)" by fastforce
    then have line: "line = k @ ''='' @ v" "CHR ''='' \<notin> set k" "\<not> list_all blank line"
      using splitKeyValue_parts [OF _ kv] 3(3) by (auto simp: isKeyValue_def blank_def)
    then have "stripped line" using stripped_strip [of line] assms(6) by simp
    note entry = entry_of_line [OF this assms(3,4,5) 3(1,2) line(1,2)]
    show ?thesis
    proof (cases i)
      case (Some j)
      then have "\<not> m_resolveEnvVars s" "j < length (m_sections s)" "list_all dict_wf (m_sections s)"
        using assms(1) st by (auto simp: read_ok_def)
      moreover from this assms(2) 3 obtain d where d: "dict_setString k v (m_sections s ! j) = Ok d"
        and st': "st' = (s\<lparr>m_sections := (m_sections s)[j := d]\<rparr>, i)"
        by (auto simp: read_line_def st Some kv)
      moreover have "dict_wf d"
        using d entry dict_wf_put [of "m_sections s ! j"] \<open>j < _\<close> \<open>list_all dict_wf _\<close>
        by (auto simp: dict_setString_Ok list_all_length)
      ultimately show ?thesis using Some
        by (auto simp: read_ok_def list_all_iff dest!: set_update_subset_insert [THEN subsetD])
    qed (use assms(1,2) 3 in \<open>auto simp: read_line_def st kv\<close>)
  qed (use assms(1,2) in \<open>auto simp: read_line_def st read_ok_def split: option.splits\<close>)
qed

lemma getline_chars:
  assumes "getline stream = Some (buffer, rest)"
  shows "CHR 0x0A \<notin> set (string_strip (c_str buffer)) \<and> NUL \<notin> set (string_strip (c_str buffer)) \<and> length (string_strip (c_str buffer)) \<le> 1023"
proof -
  have b: "buffer = takeWhile (\<lambda>c. c \<noteq> CHR 0x0A) stream" "length buffer \<le> 1023"
    using assms by (auto simp: getline_def Let_def split: if_splits)
  have "set (c_str buffer) \<subseteq> set buffer - {NUL}" unfolding c_str_def by (auto dest: set_takeWhileD)
  moreover have "CHR 0x0A \<notin> set buffer" unfolding b(1) by (auto dest: set_takeWhileD)
  moreover have "length (string_strip (c_str buffer)) \<le> length buffer"
    using length_string_strip [of "c_str buffer"] length_takeWhile_le [of "\<lambda>c. c \<noteq> NUL" buffer] unfolding c_str_def by simp
  ultimately show ?thesis using set_string_strip [of "c_str buffer"] b(2) by auto
qed

lemma read_loop_ok: "read_ok st \<Longrightarrow> read_loop getenv stream st = Ok st' \<Longrightarrow> read_ok st'"
proof (induction getenv stream st rule: read_loop.induct)
  case (1 getenv stream st)
  show ?case
  proof (cases "getline stream")
    case None
    with 1 show ?thesis by (simp add: read_loop.simps [of _ stream])
  next
    case (Some p)
    obtain buffer rest where p: "p = (buffer, rest)" by (cases p)
    with 1(3) Some obtain st1 where st1: "read_line getenv (string_strip (c_str buffer)) st = Ok st1"
      and rest: "read_loop getenv rest st1 = Ok st'"
      by (auto simp: read_loop.simps [of _ stream])
    have "read_ok st1" using read_line_ok [OF 1(2) st1] getline_chars [of stream buffer rest] Some p by simp
    with 1(1) Some p rest show ?thesis by blast
  qed
qed

lemma read_Settings_ok:
  "read_Settings getenv stream (new_Settings False) = Ok s \<Longrightarrow> list_all dict_wf (m_sections s)"
  using read_loop_ok [of "(new_Settings False, None)" getenv stream]
  by (auto simp: read_Settings_def read_ok_def new_Settings_def)

section \<open>Settings of every session\<close>

definition session_entry_ok :: "Dictionary \<Rightarrow> string \<times> SessionID \<times> Dictionary \<Rightarrow> bool" where
  "session_entry_ok defaults e =
     (case e of (k, sid, d) \<Rightarrow>
        k = m_frozenString sid \<and> dict_wf d \<and> m_name d = ''SESSION'' \<and> section_SessionID d = Ok sid \<and>
        settings_validate d = Ok () \<and> dom (dict_value defaults) \<subseteq> dom (dict_value d))"

definition settings_wf :: "SessionSettings \<Rightarrow> bool" where
  "settings_wf s =
     (dict_wf (m_defaults s) \<and> smap_ok (m_settings s) \<and> list_all (session_entry_ok (m_defaults s)) (m_settings s))"

lemma dict_wf_entry: "dict_wf d \<Longrightarrow> dict_value d k = Some v \<Longrightarrow> entry_ok (k, v)"
  by (auto simp: dict_wf_def list_all_iff dest: map_of_SomeD)

lemma dict_setString_same:
  assumes "dict_wf d" "dict_value d (string_toUpper key) = Some v"
  shows "dict_setString key v d = Ok d"
proof -
  note entry = dict_wf_entry [OF assms, unfolded entry_ok_def fst_conv snd_conv]
  have "smap_put (string_toUpper key) v (m_data d) = m_data d"
    using assms by (intro smap_ext) (auto simp: dict_wf_def dict_ok_def)
  with entry show ?thesis by (simp add: dict_setString_def Let_def)
qed

lemma section_SessionID_parts:
  "section_SessionID d = Ok sid \<Longrightarrow>
     dict_value d (string_toUpper BEGINSTRING) = Some (getBeginString sid) \<and>
     dict_value d (string_toUpper SENDERCOMPID) = Some (getSenderCompID sid) \<and>
     dict_value d (string_toUpper TARGETCOMPID) = Some (getTargetCompID sid)"
  by (auto simp: section_SessionID_def dict_getString_def getBeginString_def getSenderCompID_def getTargetCompID_def
      split: option.splits)

text \<open>Setting a session whose dictionary already has the parts of its id and the defaults only checks and adds it.\<close>

lemma settings_set_section:
  assumes "dict_wf d" "dict_wf (m_defaults s)" "section_SessionID d = Ok sid"
    "dom (dict_value (m_defaults s)) \<subseteq> dom (dict_value d)"
  shows "settings_set sid d s =
     (if settings_has sid s then (Throw ConfigError, s)
      else case settings_validate d of
        Inl e \<Rightarrow> (Throw e, s)
      | Inr _ \<Rightarrow> (Ok (), s\<lparr>m_settings := smap_put (m_frozenString sid) (sid, d) (m_settings s)\<rparr>))"
proof -
  note parts = section_SessionID_parts [OF assms(3)]
  have "dict_merge (m_defaults s) d = d"
    using assms by (intro dict_merge_covered) (simp_all add: dict_wf_def)
  with parts show ?thesis
    by (cases "settings_validate d") (simp_all add: settings_set_def dict_setString_same [OF assms(1)] Let_def)
qed

definition session_of :: "Dictionary \<Rightarrow> Dictionary \<Rightarrow> SessionID \<times> Dictionary \<Rightarrow> bool" where
  "session_of def section e = (snd e = dict_merge def section \<and> section_SessionID (snd e) = Ok (fst e))"

lemma merge_section_ok:
  assumes "dict_wf def" "dict_wf section"
  shows "dict_wf (dict_merge def section) \<and> dom (dict_value def) \<subseteq> dom (dict_value (dict_merge def section)) \<and>
    m_name (dict_merge def section) = m_name section"
  using assms dict_wf_merge [of "section" "def"] dict.dom_merge [of "section" "def"]
  by (auto simp: dict_wf_def) (simp add: dict_merge_def)+

lemma set_sections_Cons_Ok:
  assumes "dict_wf (m_defaults s)" "dict_wf section"
  shows "set_sections (m_defaults s) (section # sections) s = (Ok (), s') \<longleftrightarrow>
    (\<exists>sid. section_SessionID (dict_merge (m_defaults s) section) = Ok sid \<and> \<not> settings_has sid s \<and>
      settings_validate (dict_merge (m_defaults s) section) = Ok () \<and>
      set_sections (m_defaults s) sections
        (s\<lparr>m_settings := smap_put (m_frozenString sid) (sid, dict_merge (m_defaults s) section) (m_settings s)\<rparr>) = (Ok (), s'))"
proof (cases "section_SessionID (dict_merge (m_defaults s) section)")
  case (Inr sid)
  note set = settings_set_section [OF _ assms(1) Inr] merge_section_ok [OF assms]
  show ?thesis
    using set by (auto simp: Let_def Inr elift_def ebind_def split: sum.split)
qed (simp add: Let_def elift_def ebind_def)

lemma set_sections_wf:
  assumes "settings_wf s" "list_all (\<lambda>d. dict_wf d \<and> m_name d = ''SESSION'') sections"
    "set_sections (m_defaults s) sections s = (Ok (), s')"
  shows "settings_wf s' \<and> m_defaults s' = m_defaults s \<and> ss_resolveEnvVars s' = ss_resolveEnvVars s"
  using assms
proof (induction sections arbitrary: s)
  case (Cons sec sections)
  let ?d = "dict_merge (m_defaults s) sec"
  have wf: "dict_wf (m_defaults s)" "dict_wf sec" "m_name sec = ''SESSION''"
    using Cons.prems by (simp_all add: settings_wf_def)
  obtain sid where sid: "section_SessionID ?d = Ok sid" "settings_validate ?d = Ok ()"
    and rest: "set_sections (m_defaults s) sections (s\<lparr>m_settings := smap_put (m_frozenString sid) (sid, ?d) (m_settings s)\<rparr>) = (Ok (), s')"
    using Cons.prems(3) unfolding set_sections_Cons_Ok [OF wf(1,2)] by blast
  have "session_entry_ok (m_defaults s) (m_frozenString sid, sid, ?d)"
    using sid merge_section_ok [OF wf(1,2)] wf(3) by (simp add: session_entry_ok_def)
  then have "settings_wf (s\<lparr>m_settings := smap_put (m_frozenString sid) (sid, ?d) (m_settings s)\<rparr>)"
    using Cons.prems(1) smap_put_all [of "session_entry_ok (m_defaults s)" "m_settings s"] by (simp add: settings_wf_def)
  from Cons.IH [OF this] Cons.prems(2) rest show ?case by simp
qed (simp add: eret_def)

definition default_section :: "Settings \<Rightarrow> Dictionary" where
  "default_section r = (case get_sections ''DEFAULT'' r of [] \<Rightarrow> new_Dictionary [] | d # ds \<Rightarrow> d)"

lemma SessionSettings_stream_Ok:
  "SessionSettings_stream getenv resolve stream = Ok s \<longleftrightarrow>
     (\<exists>r. read_Settings getenv stream (new_Settings resolve) = Ok r \<and>
        set_sections (default_section r) (get_sections ''SESSION'' r)
          (settings_set_defaults (default_section r) (new_SessionSettings resolve)) = (Ok (), s))"
  by (auto simp: SessionSettings_stream_def read_SessionSettings_def new_SessionSettings_def Let_def default_section_def
      split: sum.splits prod.splits list.splits)

lemma default_section_wf:
  assumes "list_all dict_wf (m_sections r)"
  shows "dict_wf (default_section r) \<and> list_all (\<lambda>d. dict_wf d \<and> m_name d = name) (get_sections name r)"
proof -
  have named: "list_all (\<lambda>d. dict_wf d \<and> m_name d = name) (get_sections name r)" for name
    using assms by (auto simp: get_sections_def list_all_iff)
  have "dict_wf (default_section r)"
    using named [of "''DEFAULT''"] by (cases "get_sections ''DEFAULT'' r") (simp_all add: default_section_def)
  with named show ?thesis by blast
qed

lemma settings_stream_wf:
  assumes "SessionSettings_stream getenv False stream = Ok s"
  shows "settings_wf s \<and> \<not> ss_resolveEnvVars s"
proof -
  obtain r where r: "read_Settings getenv stream (new_Settings False) = Ok r"
    and set: "set_sections (default_section r) (get_sections ''SESSION'' r)
      (settings_set_defaults (default_section r) (new_SessionSettings False)) = (Ok (), s)"
    using assms unfolding SessionSettings_stream_Ok by blast
  let ?s = "settings_set_defaults (default_section r) (new_SessionSettings False)"
  note wf = default_section_wf [OF read_Settings_ok [OF r], of "''SESSION''"]
  have "settings_wf ?s" "m_defaults ?s = default_section r" "\<not> ss_resolveEnvVars ?s"
    using wf by (simp_all add: settings_wf_def settings_set_defaults_def new_SessionSettings_def)
  with set_sections_wf [of ?s "get_sections ''SESSION'' r" s] wf set show ?thesis by simp
qed

section \<open>Reading what was printed\<close>

lemma read_loop_line:
  assumes "CHR 0x0A \<notin> set line" "NUL \<notin> set line" "length line \<le> 1023" "stripped line"
  shows "read_loop getenv (line @ endl @ rest) st = rbind (read_line getenv line st) (read_loop getenv rest)"
proof -
  have "takeWhile (\<lambda>c. c \<noteq> CHR 0x0A) (line @ CHR 0x0A # rest) = line"
    using assms(1) by (induction line) auto
  then have "getline (line @ endl @ rest) = Some (line, rest)"
    using assms(3) by (simp add: getline_def Let_def endl_def)
  then show ?thesis using assms by (subst read_loop.simps) simp
qed

lemma read_loop_end: "read_loop getenv [] st = Ok st"
  by (subst read_loop.simps) (simp add: getline_def)

lemma read_loop_blank: "read_loop getenv (endl @ rest) st = read_loop getenv rest st"
  using read_loop_line [of "[]" getenv rest st]
  by (cases st) (simp add: stripped_def read_line_def isComment_def isSection_def isKeyValue_def)

lemma read_loop_section:
  assumes "name = ''DEFAULT'' \<or> name = ''SESSION''"
  shows "read_loop getenv (''['' @ name @ '']'' @ endl @ rest) (s, i) =
    read_loop getenv rest (s\<lparr>m_sections := m_sections s @ [new_Dictionary name]\<rparr>, Some (length (m_sections s)))"
proof -
  have "stripped name" using assms by (auto simp: stripped_def blank_def)
  then have "splitSection (''['' @ name @ '']'') = name" by (simp add: splitSection_def)
  moreover have "stripped (''['' @ name @ '']'')" by (simp add: stripped_def blank_def)
  moreover have "CHR 0x0A \<notin> set name" "NUL \<notin> set name" "length name \<le> 1021" using assms by auto
  ultimately show ?thesis
    using read_loop_line [of "''['' @ name @ '']''" getenv rest "(s, i)"]
    by (simp add: read_line_def isComment_hd isSection_ends)
qed

lemma stripped_param: "stripped k \<Longrightarrow> stripped v \<Longrightarrow> stripped (k @ ''='' @ v)"
  by (cases k; cases v rule: rev_cases) (auto simp: stripped_def blank_def)

text \<open>A printed parameter is read into the section at the end of the list.\<close>

lemma read_loop_param:
  assumes "entry_ok p" "\<not> m_resolveEnvVars s"
  shows "read_loop getenv (print_param p @ rest) (s\<lparr>m_sections := ds @ [d]\<rparr>, Some (length ds)) =
    read_loop getenv rest (s\<lparr>m_sections := ds @ [d\<lparr>m_data := smap_put (fst p) (snd p) (m_data d)\<rparr>]\<rparr>, Some (length ds))"
proof -
  obtain k v where p: "p = (k, v)" by (cases p)
  note ok = assms(1) [unfolded entry_ok_def p fst_conv snd_conv]
  have "stripped (k @ ''='' @ v)" using ok by (intro stripped_param) auto
  moreover have "splitKeyValue (k @ ''='' @ v) = (k, v)" using ok by (simp add: splitKeyValue_def Let_def)
  moreover have "dict_setString k v d = Ok (d\<lparr>m_data := smap_put k v (m_data d)\<rparr>)"
    using ok by (simp add: dict_setString_Ok)
  ultimately show ?thesis
    using read_loop_line [of "k @ ''='' @ v" getenv rest] ok assms(2)
    by (simp add: p print_param_def read_line_def isKeyValue_def)
qed

lemma read_loop_params:
  assumes "list_all entry_ok ps" "\<not> m_resolveEnvVars s"
  shows "read_loop getenv (concat (map print_param ps) @ rest) (s\<lparr>m_sections := ds @ [d]\<rparr>, Some (length ds)) =
    read_loop getenv rest
      (s\<lparr>m_sections := ds @ [d\<lparr>m_data := foldl (\<lambda>m p. smap_put (fst p) (snd p) m) (m_data d) ps\<rparr>]\<rparr>, Some (length ds))"
  using assms(1)
proof (induction ps arbitrary: d)
  case (Cons p ps)
  then show ?case using read_loop_param [OF _ assms(2)] by simp
qed simp

lemma read_block:
  assumes "list_all entry_ok ps" "smap_ok ps" "\<not> m_resolveEnvVars s" "name = ''DEFAULT'' \<or> name = ''SESSION''"
  shows "read_loop getenv (''['' @ name @ '']'' @ endl @ concat (map print_param ps) @ endl @ rest) (s, i) =
    read_loop getenv rest (s\<lparr>m_sections := m_sections s @ [\<lparr>m_data = ps, m_name = name\<rparr>]\<rparr>, Some (length (m_sections s)))"
  using read_loop_params [OF assms(1,3), of getenv "endl @ rest" "m_sections s" "new_Dictionary name"]
    smap_put_sorted [of "[]" ps] assms(2)
  by (simp add: read_loop_section [OF assms(4), simplified] read_loop_blank new_Dictionary_def)

definition own_params :: "Dictionary \<Rightarrow> Dictionary \<Rightarrow> (string, string) smap" where
  "own_params defaults d = filter (\<lambda>p. \<not> same_as_default defaults p) (m_data d)"

lemma own_params_ok: "dict_wf d \<Longrightarrow> list_all entry_ok (own_params defaults d) \<and> smap_ok (own_params defaults d)"
  by (auto simp: own_params_def dict_wf_def dict_ok_def list_all_iff)

lemma read_sessions:
  assumes "list_all (\<lambda>d. dict_wf d \<and> m_data d \<noteq> []) sections" "\<not> m_resolveEnvVars s"
  shows "\<exists>j. read_loop getenv (concat (map (print_session defaults) sections)) (s, i) =
    Ok (s\<lparr>m_sections := m_sections s @ map (\<lambda>d. \<lparr>m_data = own_params defaults d, m_name = ''SESSION''\<rparr>) sections\<rparr>, j)"
  using assms
proof (induction sections arbitrary: s i)
  case (Cons d sections)
  let ?s = "s\<lparr>m_sections := m_sections s @ [\<lparr>m_data = own_params defaults d, m_name = ''SESSION''\<rparr>]\<rparr>"
  have "read_loop getenv (concat (map (print_session defaults) (d # sections))) (s, i) =
      read_loop getenv (concat (map (print_session defaults) sections)) (?s, Some (length (m_sections s)))"
    using read_block [of "own_params defaults d" s "''SESSION''" getenv "concat (map (print_session defaults) sections)" i]
      own_params_ok [of d defaults] Cons.prems
    by (simp add: print_session_def own_params_def)
  with Cons.IH [of ?s "Some (length (m_sections s))"] Cons.prems show ?case by simp
qed (simp add: read_loop_end)

text \<open>Parameters equal to a default are not printed, and merging the defaults brings them back.\<close>

lemma merge_own_params:
  assumes "dict_wf defaults" "dict_wf d" "dom (dict_value defaults) \<subseteq> dom (dict_value d)" "m_name d = name"
  shows "dict_merge defaults \<lparr>m_data = own_params defaults d, m_name = name\<rparr> = d"
proof (rule dict_ext)
  let ?own = "\<lparr>m_data = own_params defaults d, m_name = name\<rparr>"
  have ok: "dict_ok ?own" "dict_ok defaults" "dict_ok d"
    using assms own_params_ok [OF assms(2), of defaults] by (simp_all add: dict_ok_def dict_wf_def)
  then show "dict_ok (dict_merge defaults ?own)" "dict_ok d" by (simp_all add: dict.ok_merge)
  have same: "same_as_default defaults (k, v) \<longleftrightarrow> dict_value defaults k = Some v" if "dict_value d k = Some v" for k v
    using dict_wf_entry [OF assms(2) that]
    by (auto simp: same_as_default_def entry_ok_def dict_has_def dict_getString_def split: option.splits)
  show "dict_value (dict_merge defaults ?own) = dict_value d"
  proof
    fix k
    show "dict_value (dict_merge defaults ?own) k = dict_value d k"
      using smap_find_filter [of "m_data d" "\<lambda>p. \<not> same_as_default defaults p" k] ok(3) same assms(3)
      unfolding dict.lookup_merge [OF ok(1,2)]
      by (cases "dict_value d k"; cases "dict_value defaults k")
        (auto simp: map_add_def dict_ok_def own_params_def split: if_splits)
  qed
  show "m_name (dict_merge defaults ?own) = m_name d" by (simp add: dict_merge_def assms(4))
qed

lemma set_sections_rebuild:
  assumes "list_all (session_entry_ok (m_defaults s)) es" "smap_ok (m_settings s @ es)" "dict_wf (m_defaults s)"
  shows "set_sections (m_defaults s) (map (\<lambda>(k, sid, d). \<lparr>m_data = own_params (m_defaults s) d, m_name = ''SESSION''\<rparr>) es) s =
    (Ok (), s\<lparr>m_settings := m_settings s @ es\<rparr>)"
  using assms
proof (induction es arbitrary: s)
  case (Cons e es)
  obtain k sid d where e: "e = (k, sid, d)" by (cases e)
  let ?own = "\<lparr>m_data = own_params (m_defaults s) d, m_name = ''SESSION''\<rparr>"
  have entry: "k = m_frozenString sid" "dict_wf d" "m_name d = ''SESSION''" "section_SessionID d = Ok sid"
    "settings_validate d = Ok ()" "dom (dict_value (m_defaults s)) \<subseteq> dom (dict_value d)"
    using Cons.prems(1) by (simp_all add: e session_entry_ok_def)
  have merge: "dict_merge (m_defaults s) ?own = d" by (rule merge_own_params [OF Cons.prems(3) entry(2,6,3)])
  have wf: "dict_wf ?own" using own_params_ok [OF entry(2)] by (simp add: dict_wf_def dict_ok_def)
  have below: "\<forall>q\<in>set (m_settings s). fst q < k"
    using Cons.prems(2) by (auto simp: e smap_ok_def sorted_wrt_append)
  then have "\<not> settings_has sid s"
    unfolding settings_has_def entry(1) [symmetric] by (auto dest!: map_of_SomeD)
  moreover have "smap_put k (sid, d) (m_settings s) = m_settings s @ [e]"
    using smap_put_above [OF below] by (simp add: e)
  ultimately have "set_sections (m_defaults s) (?own # map (\<lambda>(k, sid, d). \<lparr>m_data = own_params (m_defaults s) d, m_name = ''SESSION''\<rparr>) es) s =
      (Ok (), s\<lparr>m_settings := m_settings s @ e # es\<rparr>)"
    unfolding set_sections_Cons_Ok [OF Cons.prems(3) wf] merge
    using Cons.IH [of "s\<lparr>m_settings := m_settings s @ [e]\<rparr>"] Cons.prems entry(1,4,5) by simp
  then show ?case by (simp add: e)
qed (simp add: eret_def)

lemma print_sessions:
  assumes "settings_wf s"
  shows "concat (map (\<lambda>sid. case settings_get sid s of Inl _ \<Rightarrow> [] | Inr section \<Rightarrow> print_session (m_defaults s) section) (getSessions s)) =
    concat (map (print_session (m_defaults s)) (map (\<lambda>e. snd (snd e)) (m_settings s)))"
proof -
  have "settings_get (fst (snd e)) s = Ok (snd (snd e))" if e: "e \<in> set (m_settings s)" for e
  proof -
    have "distinct (map fst (m_settings s))"
      using assms by (simp add: settings_wf_def smap_ok_def strict_sorted_iff)
    then have "smap_find (m_settings s) (fst e) = Some (snd e)" using e by (metis map_of_eq_Some_iff prod.collapse)
    moreover have "fst e = m_frozenString (fst (snd e))"
      using assms e by (cases e) (auto simp: settings_wf_def list_all_iff session_entry_ok_def)
    ultimately show ?thesis by (simp add: settings_get_def)
  qed
  then show ?thesis by (auto simp: getSessions_def case_prod_unfold intro!: arg_cong [where f = concat])
qed

lemma session_entry_data: "session_entry_ok defaults (k, sid, d) \<Longrightarrow> dict_wf d \<and> m_data d \<noteq> []"
  by (auto simp: session_entry_ok_def dest!: section_SessionID_parts)

lemma same_data:
  assumes "m_data a = m_data b"
  shows "own_params a = own_params b" "session_entry_ok a = session_entry_ok b" "dict_wf a = dict_wf b"
  using assms
  by (simp_all add: fun_eq_iff own_params_def same_as_default_def dict_has_def dict_getString_def session_entry_ok_def
      dict_wf_def dict_ok_def)

text \<open>Well-formed settings are read back from their printing. Only the name of a default section without
  entries is lost: it is not printed.\<close>

lemma print_read_settings:
  assumes "settings_wf s" "\<not> ss_resolveEnvVars s"
  shows "\<exists>name. SessionSettings_stream getenv False (print_SessionSettings s) =
    Ok (s\<lparr>m_defaults := (m_defaults s)\<lparr>m_name := name\<rparr>\<rparr>)"
proof -
  let ?d = "m_defaults s" and ?own = "\<lambda>e. \<lparr>m_data = own_params (m_defaults s) (snd (snd e)), m_name = ''SESSION''\<rparr>"
  define def where "def = (if m_data ?d = [] then new_Dictionary [] else ?d\<lparr>m_name := ''DEFAULT''\<rparr>)"
  have wfd: "dict_wf ?d" and ok: "smap_ok (m_settings s)" and es: "list_all (session_entry_ok ?d) (m_settings s)"
    using assms(1) by (simp_all add: settings_wf_def)
  have data: "list_all (\<lambda>d. dict_wf d \<and> m_data d \<noteq> []) (map (\<lambda>e. snd (snd e)) (m_settings s))"
    using es session_entry_data by (fastforce simp: list_all_iff)
  define r where "r = (new_Settings False)\<lparr>m_sections :=
    (if m_data ?d = [] then [] else [\<lparr>m_data = m_data ?d, m_name = ''DEFAULT''\<rparr>]) @ map ?own (m_settings s)\<rparr>"
  have printed: "print_SessionSettings s =
      (if m_data ?d \<noteq> [] then ''['' @ ''DEFAULT'' @ '']'' @ endl @ concat (map print_param (m_data ?d)) @ endl else []) @
      concat (map (print_session ?d) (map (\<lambda>e. snd (snd e)) (m_settings s)))"
    unfolding print_SessionSettings_def Let_def print_sessions [OF assms(1)] by simp
  have read: "read_Settings getenv (print_SessionSettings s) (new_Settings False) = Ok r"
  proof (cases "m_data ?d = []")
    case True
    then show ?thesis using read_sessions [OF data, of "new_Settings False" getenv ?d None]
      by (auto simp: printed read_Settings_def r_def new_Settings_def comp_def)
  next
    case False
    then show ?thesis
      using read_sessions [OF data, of "(new_Settings False)\<lparr>m_sections := [\<lparr>m_data = m_data ?d, m_name = ''DEFAULT''\<rparr>]\<rparr>" getenv ?d "Some 0"]
        read_block [of "m_data ?d" "new_Settings False" "''DEFAULT''" getenv _ None] wfd
      by (auto simp: printed read_Settings_def r_def new_Settings_def comp_def dict_wf_def dict_ok_def)
  qed
  have sections: "default_section r = def" "get_sections ''SESSION'' r = map ?own (m_settings s)"
    by (simp_all add: r_def def_def default_section_def get_sections_def)
  let ?s = "settings_set_defaults def (new_SessionSettings False)"
  have s0: "m_defaults ?s = def" "m_settings ?s = []"
    by (simp_all add: settings_set_defaults_def new_SessionSettings_def)
  have eq: "m_data def = m_data ?d" by (simp add: def_def new_Dictionary_def)
  have own: "map ?own (m_settings s) = map (\<lambda>(k, sid, d). \<lparr>m_data = own_params def d, m_name = ''SESSION''\<rparr>) (m_settings s)"
    by (simp add: same_data(1) [OF eq] case_prod_unfold)
  have "set_sections def (map ?own (m_settings s)) ?s = (Ok (), ?s\<lparr>m_settings := m_settings s\<rparr>)"
    using set_sections_rebuild [of ?s "m_settings s"] es ok wfd unfolding s0 own same_data(2,3) [OF eq] by simp
  moreover have "?s\<lparr>m_settings := m_settings s\<rparr> = s\<lparr>m_defaults := ?d\<lparr>m_name := m_name def\<rparr>\<rparr>"
    using assms(2) eq by (cases s, cases "def", cases ?d) (simp add: settings_set_defaults_def new_SessionSettings_def)
  ultimately show ?thesis unfolding SessionSettings_stream_Ok using read sections by auto
qed

text \<open>Every section becomes a session of its own, with the defaults below it.\<close>

lemma set_sections_each:
  assumes "settings_wf s" "list_all (\<lambda>d. dict_wf d \<and> m_name d = ''SESSION'') sections"
    "set_sections (m_defaults s) sections s = (Ok (), s')"
  shows "length (m_settings s') = length (m_settings s) + length sections \<and>
    (\<forall>sid d. settings_get sid s = Ok d \<longrightarrow> settings_get sid s' = Ok d) \<and>
    list_all (\<lambda>d. \<exists>sid. section_SessionID (dict_merge (m_defaults s) d) = Ok sid \<and>
      settings_get sid s' = Ok (dict_merge (m_defaults s) d)) sections"
  using assms
proof (induction sections arbitrary: s)
  case (Cons sec sections)
  let ?d = "dict_merge (m_defaults s) sec"
  have wf: "dict_wf (m_defaults s)" "dict_wf sec" "m_name sec = ''SESSION''"
    using Cons.prems by (simp_all add: settings_wf_def)
  obtain sid where sid: "section_SessionID ?d = Ok sid" "\<not> settings_has sid s" "settings_validate ?d = Ok ()"
    and rest: "set_sections (m_defaults s) sections (s\<lparr>m_settings := smap_put (m_frozenString sid) (sid, ?d) (m_settings s)\<rparr>) = (Ok (), s')"
    using Cons.prems(3) unfolding set_sections_Cons_Ok [OF wf(1,2)] by blast
  let ?s = "s\<lparr>m_settings := smap_put (m_frozenString sid) (sid, ?d) (m_settings s)\<rparr>"
  have "set_sections (m_defaults s) [sec] s = (Ok (), ?s)"
    unfolding set_sections_Cons_Ok [OF wf(1,2)] using sid by (simp add: eret_def)
  from set_sections_wf [OF Cons.prems(1) _ this] Cons.prems(2) have "settings_wf ?s" by simp
  note IH = Cons.IH [OF this]
  have old: "settings_get sid' ?s = Ok d" if "settings_get sid' s = Ok d" for sid' d
    using that sid(2) Cons.prems(1) by (auto simp: settings_get_def settings_has_def settings_wf_def split: option.splits)
  have new: "settings_get sid ?s = Ok ?d"
    using Cons.prems(1) by (simp add: settings_get_def settings_wf_def)
  have "length (m_settings ?s) = Suc (length (m_settings s))"
  proof -
    have "smap_find (m_settings s) (m_frozenString sid) = None" using sid(2) unfolding settings_has_def by blast
    then show ?thesis by (simp add: length_smap_put_new)
  qed
  with IH Cons.prems(2) rest old new sid(1) show ?case by auto
qed (simp add: eret_def)

section \<open>Properties\<close>

text \<open>C17: settings survive printing. Whatever text was read, without substituting environment variables, printing
  the settings and reading the result gives the same sessions with the same values, although
  parameters equal to a default are not printed, keys were changed to upper case and blanks were stripped.
  Only the name of a default section without entries is lost.\<close>

theorem settings_round_trip:
  assumes "SessionSettings_stream getenv False stream = Ok s"
  shows "\<exists>name. SessionSettings_stream getenv' False (print_SessionSettings s) =
    Ok (s\<lparr>m_defaults := (m_defaults s)\<lparr>m_name := name\<rparr>\<rparr>)"
  using print_read_settings [of s getenv'] settings_stream_wf [OF assms] by blast

definition example_settings :: string where
  "example_settings =
     ''# comment'' @ endl @ ''[DEFAULT]'' @ endl @ ''ConnectionType=acceptor'' @ endl @ ''HeartBtInt = 30 '' @ endl @
     ''[SESSION]'' @ endl @ ''BeginString=FIX.4.2'' @ endl @ ''SenderCompID=A'' @ endl @ ''TargetCompID=B'' @ endl @
     ''heartbtint=20''"

definition example_values :: SessionSettings where
  "example_values =
     \<lparr>m_settings = [(''FIX.4.2:A->B'', mk_SessionID ''FIX.4.2'' ''A'' ''B'' [],
        \<lparr>m_data = [(''BEGINSTRING'', ''FIX.4.2''), (''CONNECTIONTYPE'', ''acceptor''), (''HEARTBTINT'', ''20''),
           (''SENDERCOMPID'', ''A''), (''TARGETCOMPID'', ''B'')], m_name = ''SESSION''\<rparr>)],
      m_defaults = \<lparr>m_data = [(''CONNECTIONTYPE'', ''acceptor''), (''HEARTBTINT'', ''30'')], m_name = ''DEFAULT''\<rparr>,
      ss_resolveEnvVars = False\<rparr>"

lemma example_settings_read: "SessionSettings_stream (\<lambda>_. None) False example_settings = Ok example_values"
  by code_simp

theorem settings_round_trip_witness:
  "\<exists>name. SessionSettings_stream (\<lambda>_. None) False (print_SessionSettings example_values) =
    Ok (example_values\<lparr>m_defaults := (m_defaults example_values)\<lparr>m_name := name\<rparr>\<rparr>)"
  by (rule settings_round_trip [OF example_settings_read])

text \<open>C18: what a settings file means. When it is accepted, every session section is a session of its own, found under
  the id its values spell, and a session sees the values of its own section and below them those of
  the first default section.\<close>

theorem session_values_over_defaults:
  assumes "SessionSettings_stream getenv False stream = Ok s"
  shows "\<exists>r. read_Settings getenv stream (new_Settings False) = Ok r \<and>
    length (getSessions s) = length (get_sections ''SESSION'' r) \<and>
    list_all (\<lambda>d. \<exists>sid d'. section_SessionID d' = Ok sid \<and> settings_get sid s = Ok d' \<and>
      dict_value d' = dict_value (default_section r) ++ dict_value d) (get_sections ''SESSION'' r)"
proof -
  obtain r where r: "read_Settings getenv stream (new_Settings False) = Ok r"
    and set: "set_sections (default_section r) (get_sections ''SESSION'' r)
      (settings_set_defaults (default_section r) (new_SessionSettings False)) = (Ok (), s)"
    using assms unfolding SessionSettings_stream_Ok by blast
  let ?s = "settings_set_defaults (default_section r) (new_SessionSettings False)"
  note wf = default_section_wf [OF read_Settings_ok [OF r], of "''SESSION''"]
  have "settings_wf ?s" and s0: "m_defaults ?s = default_section r" "m_settings ?s = []"
    using wf by (simp_all add: settings_wf_def settings_set_defaults_def new_SessionSettings_def)
  with set_sections_each [of ?s "get_sections ''SESSION'' r" s] wf set
  have each: "length (m_settings s) = length (get_sections ''SESSION'' r)"
    "list_all (\<lambda>d. \<exists>sid. section_SessionID (dict_merge (default_section r) d) = Ok sid \<and>
      settings_get sid s = Ok (dict_merge (default_section r) d)) (get_sections ''SESSION'' r)" by simp_all
  have "dict_value (dict_merge (default_section r) d) = dict_value (default_section r) ++ dict_value d"
    if "d \<in> set (get_sections ''SESSION'' r)" for d
    using wf that by (intro dict.lookup_merge) (auto simp: list_all_iff dict_wf_def)
  with each(2) have "list_all (\<lambda>d. \<exists>sid d'. section_SessionID d' = Ok sid \<and> settings_get sid s = Ok d' \<and>
      dict_value d' = dict_value (default_section r) ++ dict_value d) (get_sections ''SESSION'' r)"
    unfolding list_all_iff by blast
  with r each(1) show ?thesis by (auto simp: getSessions_def)
qed

theorem session_values_over_defaults_witness:
  "\<exists>r. read_Settings (\<lambda>_. None) example_settings (new_Settings False) = Ok r \<and>
    length (getSessions example_values) = length (get_sections ''SESSION'' r) \<and>
    list_all (\<lambda>d. \<exists>sid d'. section_SessionID d' = Ok sid \<and> settings_get sid example_values = Ok d' \<and>
      dict_value d' = dict_value (default_section r) ++ dict_value d) (get_sections ''SESSION'' r)"
  by (rule session_values_over_defaults [OF example_settings_read])

text \<open>A variable with a name of one character at the end of a value is not replaced but dropped, and a line of
  more than 1023 characters ends the reading without an error.\<close>

lemma one_letter_variable_dropped:
  "resolveEnvVars (\<lambda>_. Some ''x'') ''a$B'' = ''a'' \<and> resolveEnvVars (\<lambda>_. Some ''x'') ''a$B/'' = ''ax/'' \<and>
   resolveEnvVars (\<lambda>_. Some ''x'') ''a$BC'' = ''ax''"
  by code_simp

lemma long_line_stops_reading:
  "1023 < length (takeWhile (\<lambda>c. c \<noteq> CHR 0x0A) stream) \<Longrightarrow> read_Settings getenv stream s = Ok s"
  by (simp add: read_Settings_def read_loop.simps [of _ stream] getline_def)

end
