(* ===== verification/SessionRegistry.thy ===== *)
theory SessionRegistry
  imports SessionSending Dictionaries
begin

text \<open>
  The static members of Session: every session object by its id, the sessions an acceptor or initiator has
  registered, and sending through them. Session objects live at addresses; \<open>objects\<close> is the part of the heap that
  holds them. A constructor adds the object to the registry before it calls \<open>onCreate\<close> and takes it out again when that
  throws; a destructor removes it. One thread: the lock of the registry is not modelled.
\<close>

section \<open>State\<close>

text \<open>Maps and sets of session ids are ordered by the text of the id.\<close>

record Registry =
  s_sessions :: "(string, SessionID \<times> nat) smap"
  s_sessionIDs :: "(string, SessionID) smap"
  s_registered :: "(string, SessionID \<times> nat) smap"
  objects :: "nat \<rightharpoonup> Session"
  next_address :: nat

definition no_sessions :: Registry where
  "no_sessions = \<lparr>s_sessions = [], s_sessionIDs = [], s_registered = [], objects = Map.empty, next_address = 0\<rparr>"

section \<open>Operations\<close>

definition registry_getSessions :: "Registry \<Rightarrow> SessionID list" where
  "registry_getSessions r = map snd (s_sessionIDs r)"

definition doesSessionExist :: "SessionID \<Rightarrow> Registry \<Rightarrow> bool" where
  "doesSessionExist sid r = (smap_find (s_sessions r) (m_frozenString sid) \<noteq> None)"

definition lookupSession :: "SessionID \<Rightarrow> Registry \<Rightarrow> nat option" where
  "lookupSession sid r = map_option snd (smap_find (s_sessions r) (m_frozenString sid))"

definition string_of_header :: "Message \<Rightarrow> int \<Rightarrow> string result" where
  "string_of_header message = getField (m_header message)"

definition lookupSession_string :: "string \<Rightarrow> bool \<Rightarrow> Registry \<Rightarrow> nat option result" where
  "lookupSession_string text reverse r =
     rbind (decoded (setStringHeader text new_Message)) (\<lambda>(ok, message).
       if \<not> ok then Ok None
       else case
         rbind (string_of_header message TAG_BeginString) (\<lambda>beginString.
         rbind (string_of_header message TAG_SenderCompID) (\<lambda>senderCompID.
         rbind (string_of_header message TAG_TargetCompID) (\<lambda>targetCompID.
         Ok (if reverse then lookupSession (mk_SessionID beginString targetCompID senderCompID []) r
             else lookupSession (mk_SessionID beginString senderCompID targetCompID []) r)))) of
         Inl (FieldNotFound _) \<Rightarrow> Ok None
       | x \<Rightarrow> x)"

definition isSessionRegistered :: "SessionID \<Rightarrow> Registry \<Rightarrow> bool" where
  "isSessionRegistered sid r = (smap_find (s_registered r) (m_frozenString sid) \<noteq> None)"

definition registerSession :: "SessionID \<Rightarrow> Registry \<Rightarrow> nat option \<times> Registry" where
  "registerSession sid r =
     (case lookupSession sid r of
        None \<Rightarrow> (None, r)
      | Some pSession \<Rightarrow>
          if isSessionRegistered sid r then (None, r)
          else (Some pSession, r\<lparr>s_registered := smap_put (m_frozenString sid) (sid, pSession) (s_registered r)\<rparr>))"

definition unregisterSession :: "SessionID \<Rightarrow> Registry \<Rightarrow> Registry" where
  "unregisterSession sid r = r\<lparr>s_registered := smap_erase (m_frozenString sid) (s_registered r)\<rparr>"

definition numSessions :: "Registry \<Rightarrow> nat" where
  "numSessions r = length (s_sessions r)"

definition addSession :: "SessionID \<Rightarrow> nat \<Rightarrow> Registry \<Rightarrow> bool \<times> Registry" where
  "addSession sid p r =
     (case smap_find (s_sessions r) (m_frozenString sid) of
        None \<Rightarrow> (True, r\<lparr>s_sessions := smap_put (m_frozenString sid) (sid, p) (s_sessions r),
                         s_sessionIDs := (if smap_find (s_sessionIDs r) (m_frozenString sid) = None
                           then smap_put (m_frozenString sid) sid (s_sessionIDs r) else s_sessionIDs r)\<rparr>)
      | Some _ \<Rightarrow> (False, r))"

definition removeSession :: "SessionID \<Rightarrow> nat \<Rightarrow> Registry \<Rightarrow> Registry" where
  "removeSession sid p r =
     (let k = m_frozenString sid;
          r = (case smap_find (s_sessions r) k of
                 Some (_, q) \<Rightarrow> if q = p then r\<lparr>s_sessions := smap_erase k (s_sessions r), s_sessionIDs := smap_erase k (s_sessionIDs r)\<rparr> else r
               | None \<Rightarrow> r)
      in case smap_find (s_registered r) k of
           Some (_, q) \<Rightarrow> if q = p then r\<lparr>s_registered := smap_erase k (s_registered r)\<rparr> else r
         | None \<Rightarrow> r)"

text \<open>\<open>new Session(...)\<close>: what the constructor computes, the entry in the registry, the callback.\<close>

definition construct :: "unit result \<times> Session \<Rightarrow> (SessionID \<Rightarrow> unit result) \<Rightarrow> (Registry, nat) eff" where
  "construct built onCreate r =
     (case built of
        (Inl e, _) \<Rightarrow> (Throw e, r)
      | (Inr _, s) \<Rightarrow>
          let p = next_address r; sid = m_sessionID s in
          (case addSession sid p r of
             (False, r) \<Rightarrow> (Throw ConfigError, r)
           | (True, r) \<Rightarrow>
               (case onCreate sid of
                  Inl e \<Rightarrow> (Throw e, removeSession sid p r)
                | Inr _ \<Rightarrow> (Ok p, r\<lparr>objects := (objects r)(p \<mapsto> s), next_address := p + 1\<rparr>))))"

definition destroy :: "nat \<Rightarrow> Registry \<Rightarrow> Registry" where
  "destroy p r =
     (case objects r p of
        None \<Rightarrow> r
      | Some s \<Rightarrow> (removeSession (m_sessionID s) p r)\<lparr>objects := (objects r)(p := None)\<rparr>)"

text \<open>A call on the object at an address; a dangling pointer has no meaning.\<close>

definition on_session :: "nat \<Rightarrow> 'a action \<Rightarrow> Registry \<Rightarrow> ('a result \<times> Registry) option" where
  "on_session p action r =
     (case objects r p of
        None \<Rightarrow> None
      | Some s \<Rightarrow> (case action s of (x, s') \<Rightarrow> Some (x, r\<lparr>objects := (objects r)(p \<mapsto> s')\<rparr>)))"

definition Message_getSessionID :: "string \<Rightarrow> Message \<Rightarrow> SessionID result" where
  "Message_getSessionID qualifier message =
     rbind (string_of_header message TAG_BeginString) (\<lambda>beginString.
     rbind (string_of_header message TAG_SenderCompID) (\<lambda>senderCompID.
     rbind (string_of_header message TAG_TargetCompID) (\<lambda>targetCompID.
     Ok (mk_SessionID beginString senderCompID targetCompID qualifier))))"

definition Message_setSessionID :: "SessionID \<Rightarrow> Message \<Rightarrow> Message" where
  "Message_setSessionID sid message =
     set_header (mk_FieldBase TAG_TargetCompID (getTargetCompID sid))
       (set_header (mk_FieldBase TAG_SenderCompID (getSenderCompID sid))
         (set_header (mk_FieldBase TAG_BeginString (getBeginString sid)) message))"

definition sendToTarget :: "Message \<Rightarrow> SessionID \<Rightarrow> Registry \<Rightarrow> (bool result \<times> Registry) option" where
  "sendToTarget message sid r =
     (let message = Message_setSessionID sid message in
      case lookupSession sid r of
        None \<Rightarrow> Some (Throw SessionNotFound, r)
      | Some pSession \<Rightarrow> on_session pSession (Session_send message) r)"

text \<open>The overload that reads the session from the message. The try block spans the sending too.\<close>

definition sendToTarget_qualified :: "Message \<Rightarrow> string \<Rightarrow> Registry \<Rightarrow> (bool result \<times> Registry) option" where
  "sendToTarget_qualified message qualifier r =
     (case Message_getSessionID qualifier message of
        Inl (FieldNotFound _) \<Rightarrow> Some (Throw SessionNotFound, r)
      | Inl e \<Rightarrow> Some (Throw e, r)
      | Inr sid \<Rightarrow>
          (case sendToTarget message sid r of
             Some (Inl (FieldNotFound _), r') \<Rightarrow> Some (Throw SessionNotFound, r')
           | x \<Rightarrow> x))"

definition sendToTarget_between :: "Message \<Rightarrow> string \<Rightarrow> string \<Rightarrow> string \<Rightarrow> Registry \<Rightarrow> (bool result \<times> Registry) option" where
  "sendToTarget_between message sender target qualifier r =
     sendToTarget_qualified
       (set_header (mk_FieldBase TAG_TargetCompID target) (set_header (mk_FieldBase TAG_SenderCompID sender) message))
       qualifier r"

section \<open>The invariant of the registry\<close>

definition ids_of :: "(string, SessionID \<times> nat) smap \<Rightarrow> (string, SessionID) smap" where
  "ids_of m = map (\<lambda>e. (fst e, fst (snd e))) m"

definition registry_ok :: "Registry \<Rightarrow> bool" where
  "registry_ok r =
     (smap_ok (s_sessions r) \<and> smap_ok (s_registered r) \<and> s_sessionIDs r = ids_of (s_sessions r) \<and>
      (\<forall>k sid p. smap_find (s_sessions r) k = Some (sid, p) \<longrightarrow>
         (\<exists>s. objects r p = Some s \<and> m_sessionID s = sid \<and> k = m_frozenString sid)) \<and>
      (\<forall>p s. objects r p = Some s \<longrightarrow>
         p < next_address r \<and> smap_find (s_sessions r) (m_frozenString (m_sessionID s)) = Some (m_sessionID s, p)) \<and>
      (\<forall>k sid p. smap_find (s_registered r) k = Some (sid, p) \<longrightarrow> (\<exists>sid'. smap_find (s_sessions r) k = Some (sid', p))))"

lemma ids_of_put: "ids_of (smap_put k (sid, p) m) = smap_put k sid (ids_of m)"
  by (induction k "(sid, p)" m rule: smap_put.induct) (auto simp: ids_of_def)

lemma ids_of_erase: "ids_of (smap_erase k m) = smap_erase k (ids_of m)"
  by (simp add: ids_of_def smap_erase_def filter_map comp_def)

lemma ids_of_find: "smap_find (ids_of m) k = map_option fst (smap_find m k)"
  by (induction m) (auto simp: ids_of_def)

lemma registry_ok_empty: "registry_ok no_sessions"
  by (simp add: registry_ok_def no_sessions_def ids_of_def)

lemma registry_session:
  "registry_ok r \<Longrightarrow> smap_find (s_sessions r) k = Some (sid, p) \<Longrightarrow>
   (\<And>s. objects r p = Some s \<Longrightarrow> m_sessionID s = sid \<Longrightarrow> k = m_frozenString sid \<Longrightarrow> thesis) \<Longrightarrow> thesis"
  unfolding registry_ok_def by blast

lemma registry_object:
  "registry_ok r \<Longrightarrow> objects r p = Some s \<Longrightarrow>
   p < next_address r \<and> smap_find (s_sessions r) (m_frozenString (m_sessionID s)) = Some (m_sessionID s, p)"
  by (auto simp: registry_ok_def)

lemma registry_registered:
  "registry_ok r \<Longrightarrow> smap_find (s_registered r) k = Some (sid, p) \<Longrightarrow> \<exists>sid'. smap_find (s_sessions r) k = Some (sid', p)"
  by (auto simp: registry_ok_def)

lemma registry_okI:
  assumes "smap_ok (s_sessions r)" "smap_ok (s_registered r)" "s_sessionIDs r = ids_of (s_sessions r)"
    and "\<And>k sid p. smap_find (s_sessions r) k = Some (sid, p) \<Longrightarrow>
      \<exists>s. objects r p = Some s \<and> m_sessionID s = sid \<and> k = m_frozenString sid"
    and "\<And>p s. objects r p = Some s \<Longrightarrow>
      p < next_address r \<and> smap_find (s_sessions r) (m_frozenString (m_sessionID s)) = Some (m_sessionID s, p)"
    and "\<And>k sid p. smap_find (s_registered r) k = Some (sid, p) \<Longrightarrow> \<exists>sid'. smap_find (s_sessions r) k = Some (sid', p)"
  shows "registry_ok r"
  using assms by (auto simp: registry_ok_def)

lemma registry_maps: "registry_ok r \<Longrightarrow> smap_ok (s_sessions r) \<and> smap_ok (s_registered r) \<and> s_sessionIDs r = ids_of (s_sessions r)"
  by (simp add: registry_ok_def)

lemma addSession_True:
  assumes "registry_ok r" "addSession sid p r = (True, r')"
  shows "smap_find (s_sessions r) (m_frozenString sid) = None"
    and "r' = r\<lparr>s_sessions := smap_put (m_frozenString sid) (sid, p) (s_sessions r),
      s_sessionIDs := smap_put (m_frozenString sid) sid (s_sessionIDs r)\<rparr>"
  using assms registry_maps [OF assms(1)] by (auto simp: addSession_def ids_of_find split: option.splits if_splits)

lemma registry_ok_add:
  assumes r: "registry_ok r" and add: "addSession (m_sessionID s) (next_address r) r = (True, r')"
  shows "registry_ok (r'\<lparr>objects := (objects r')(next_address r \<mapsto> s), next_address := next_address r + 1\<rparr>)" (is "registry_ok ?r")
proof (rule registry_okI)
  note new = addSession_True(1) [OF r add] and r' = addSession_True(2) [OF r add] and ok = registry_maps [OF r]
  let ?k = "m_frozenString (m_sessionID s)" and ?p = "next_address r"
  have fresh: "objects r ?p = None" using registry_object [OF r] by (cases "objects r ?p") auto
  show "smap_ok (s_sessions ?r)" "smap_ok (s_registered ?r)" "s_sessionIDs ?r = ids_of (s_sessions ?r)"
    using ok by (simp_all add: r' ids_of_put)
  show "\<exists>t. objects ?r p = Some t \<and> m_sessionID t = sid \<and> k = m_frozenString sid"
    if "smap_find (s_sessions ?r) k = Some (sid, p)" for k sid p
  proof (cases "k = ?k")
    case True
    with that ok show ?thesis by (simp add: r')
  next
    case False
    with that ok have "smap_find (s_sessions r) k = Some (sid, p)" by (simp add: r')
    then show ?thesis by (rule registry_session [OF r]) (use fresh in \<open>auto simp: r'\<close>)
  qed
  show "p < next_address ?r \<and> smap_find (s_sessions ?r) (m_frozenString (m_sessionID t)) = Some (m_sessionID t, p)"
    if "objects ?r p = Some t" for p t
  proof (cases "p = ?p")
    case True
    with that ok show ?thesis by (simp add: r')
  next
    case False
    with that have "objects r p = Some t" by (simp add: r')
    from registry_object [OF r this] new ok show ?thesis by (auto simp: r')
  qed
  show "\<exists>sid'. smap_find (s_sessions ?r) k = Some (sid', p)" if "smap_find (s_registered ?r) k = Some (sid, p)" for k sid p
    using that registry_registered [OF r, of k sid p] new ok by (auto simp: r')
qed

lemma smap_erase_put: "smap_ok m \<Longrightarrow> smap_find m k = None \<Longrightarrow> smap_erase k (smap_put k v m) = m"
proof (rule smap_ext)
  assume ok: "smap_ok m" and new: "smap_find m k = None"
  then show "smap_ok (smap_erase k (smap_put k v m))" "smap_ok m" by simp_all
  show "smap_find (smap_erase k (smap_put k v m)) = smap_find m" using ok new by auto
qed

text \<open>A constructor that throws leaves the registry as it was.\<close>

lemma removeSession_added:
  assumes r: "registry_ok r" and add: "addSession sid p r = (True, r')"
  shows "removeSession sid p r' = r"
proof -
  note new = addSession_True(1) [OF r add] and r' = addSession_True(2) [OF r add] and ok = registry_maps [OF r]
  have "smap_find (s_registered r) (m_frozenString sid) = None"
    using registry_registered [OF r, of "m_frozenString sid"] new by (cases "smap_find (s_registered r) (m_frozenString sid)") auto
  moreover have "smap_ok (s_sessionIDs r)" "smap_find (s_sessionIDs r) (m_frozenString sid) = None"
    using ok new ids_of_find [of "s_sessions r" "m_frozenString sid"] by (simp_all add: smap_ok_def ids_of_def comp_def)
  ultimately show ?thesis
    using ok new by (simp add: removeSession_def r' smap_erase_put)
qed

lemma registry_ok_remove:
  assumes r: "registry_ok r" and p: "objects r p = Some s"
  shows "registry_ok ((removeSession (m_sessionID s) p r)\<lparr>objects := (objects r)(p := None)\<rparr>)" (is "registry_ok ?r")
proof -
  let ?k = "m_frozenString (m_sessionID s)"
  note ok = registry_maps [OF r]
  have at: "smap_find (s_sessions r) ?k = Some (m_sessionID s, p)" using registry_object [OF r p] by simp
  have reg: "smap_find (s_registered r) ?k = Some (sid, q) \<Longrightarrow> q = p" for sid q
    using registry_registered [OF r] at by fastforce
  have erase: "smap_erase ?k (s_registered r) = s_registered r" if "smap_find (s_registered r) ?k = None"
    using that ok by (intro smap_ext) auto
  have eq: "?r = r\<lparr>s_sessions := smap_erase ?k (s_sessions r), s_sessionIDs := smap_erase ?k (s_sessionIDs r),
      s_registered := smap_erase ?k (s_registered r), objects := (objects r)(p := None)\<rparr>"
    using at reg erase by (auto simp: removeSession_def Let_def split: option.split)
  show ?thesis unfolding eq
  proof (rule registry_okI, goal_cases)
    case (4 k sid q)
    then have q: "smap_find (s_sessions r) k = Some (sid, q)" "k \<noteq> ?k" by (auto split: if_splits)
    from q(1) show ?case
    proof (rule registry_session [OF r])
      fix t assume t: "objects r q = Some t" "m_sessionID t = sid" "k = m_frozenString sid"
      with q(2) p have "q \<noteq> p" by auto
      with t show ?thesis by simp
    qed
  next
    case (5 q t)
    then have q: "objects r q = Some t" "q \<noteq> p" by (auto split: if_splits)
    from registry_object [OF r q(1)] q(2) at show ?case by auto
  next
    case (6 k sid q)
    then show ?case using registry_registered [OF r] by (auto split: if_splits)
  qed (use ok in \<open>simp_all add: ids_of_erase\<close>)
qed

lemma registry_ok_act:
  assumes r: "registry_ok r" and p: "objects r p = Some s" "m_sessionID s' = m_sessionID s"
  shows "registry_ok (r\<lparr>objects := (objects r)(p \<mapsto> s')\<rparr>)"
proof (rule registry_okI, goal_cases)
  case (4 k sid q)
  then have "smap_find (s_sessions r) k = Some (sid, q)" by simp
  then show ?case by (rule registry_session [OF r]) (use p in auto)
next
  case (5 q t)
  then show ?case using registry_object [OF r p(1)] registry_object [OF r, of q] p(2) by (auto split: if_splits)
qed (use registry_maps [OF r] registry_registered [OF r] in simp_all)

lemma registry_ok_register:
  assumes r: "registry_ok r"
  shows "registry_ok (snd (registerSession sid r))"
proof -
  have "registry_ok (r\<lparr>s_registered := smap_put (m_frozenString sid) (sid, p) (s_registered r)\<rparr>)" if "lookupSession sid r = Some p" for p
  proof (rule registry_okI, goal_cases)
    case (4 k sid' q)
    then show ?case using r unfolding registry_ok_def by simp
  next
    case (5 q t)
    then show ?case using registry_object [OF r, of q t] by simp
  next
    case (6 k sid' q)
    then show ?case using that registry_maps [OF r] registry_registered [OF r, of k sid' q]
      by (auto simp: lookupSession_def split: if_splits)
  qed (use registry_maps [OF r] in simp_all)
  with r show ?thesis by (simp add: registerSession_def split: option.split)
qed

lemma registry_ok_unregister:
  assumes r: "registry_ok r"
  shows "registry_ok (unregisterSession sid r)"
  unfolding unregisterSession_def
proof (rule registry_okI, goal_cases)
  case (4 k sid' q)
  then show ?case using r unfolding registry_ok_def by simp
next
  case (5 q t)
  then show ?case using registry_object [OF r, of q t] by simp
next
  case (6 k sid' q)
  then show ?case using registry_registered [OF r, of k sid' q] by (auto split: if_splits)
qed (use registry_maps [OF r] in simp_all)

lemma construct_ok:
  assumes r: "registry_ok r" and c: "construct built onCreate r = (x, r')"
  shows "case x of Inl _ \<Rightarrow> r' = r
    | Inr p \<Rightarrow> registry_ok r' \<and> objects r p = None \<and> objects r' = (objects r)(p \<mapsto> snd built) \<and> \<not> doesSessionExist (m_sessionID (snd built)) r"
proof (cases "fst built")
  case (Inl e)
  then show ?thesis using c by (cases built) (auto simp: construct_def)
next
  case (Inr u)
  let ?s = "snd built" and ?p = "next_address r"
  obtain b r1 where add: "addSession (m_sessionID ?s) ?p r = (b, r1)" by fastforce
  show ?thesis
  proof (cases b)
    case True
    have added: "addSession (m_sessionID ?s) ?p r = (True, r1)" using add True by simp
    have fresh: "objects r ?p = None" using registry_object [OF r] by (cases "objects r ?p") auto
    have objs: "objects r1 = objects r" by (simp add: addSession_True(2) [OF r added])
    show ?thesis
      using c Inr added fresh registry_ok_add [OF r added] removeSession_added [OF r added] addSession_True(1) [OF r added] objs
      by (cases built; cases "onCreate (m_sessionID ?s)") (auto simp: construct_def Let_def doesSessionExist_def)
  next
    case False
    then have "r1 = r" using add by (auto simp: addSession_def split: option.splits)
    then show ?thesis using c Inr add False by (cases built) (auto simp: construct_def Let_def)
  qed
qed

section \<open>Runs of the program\<close>

text \<open>No operation of a session changes its id.\<close>

lemma keeps_id_reset: "keeps (\<lambda>s. m_sessionID s = sid) reset_state" "keeps (\<lambda>s. m_sessionID s = sid) refresh"
  by (auto simp: keeps_def reset_state_def refresh_def timestamper_def on_state_def eff_defs split: prod.split sum.split)

interpretation identity: session_invariant "\<lambda>s. m_sessionID s = sid" "\<lambda>_. True" for sid
proof (unfold_locales, goal_cases)
  case 12 show ?case by (rule keeps_id_reset)
next
  case 13 show ?case unfolding refresh_on_logon_def by (intro keeps_id_reset keeps_intros)
next
  case (16 n) show ?case by (auto simp: keeps_def on_state_def ezoom_def split: prod.split)
qed simp_all

inductive session_call :: "Session \<Rightarrow> Session \<Rightarrow> bool" where
  received: "next_string text now s = (x, s') \<Longrightarrow> session_call s s'"
| timer: "next_timer now s = (x, s') \<Longrightarrow> session_call s s'"
| sending: "Session_send message s = (b, s') \<Longrightarrow> session_call s s'"
| connect: "setResponder responder s = (x, s') \<Longrightarrow> session_call s s'"
| disconnect: "disconnect s = (x, s') \<Longrightarrow> session_call s s'"
| logon: "Session_logon s = (x, s') \<Longrightarrow> session_call s s'"
| logout: "Session_logout reason s = (x, s') \<Longrightarrow> session_call s s'"
| refresh: "refresh s = (x, s') \<Longrightarrow> session_call s s'"
| reset: "Session_reset s = (x, s') \<Longrightarrow> session_call s s'"
| sender: "Session_setNextSenderMsgSeqNum n s = (x, s') \<Longrightarrow> session_call s s'"
| target: "Session_setNextTargetMsgSeqNum n s = (x, s') \<Longrightarrow> session_call s s'"

lemma session_call_id: "session_call s s' \<Longrightarrow> m_sessionID s' = m_sessionID s"
proof -
  have string: "keeps (\<lambda>s. m_sessionID s = sid) (next_string w now)" for sid w now
  proof -
    have "keeps (\<lambda>s. m_sessionID s = sid) (next_message m now)" for m
      by (rule identity.keeps_next_message) (simp add: identity.allowed_msg_def)
    then show ?thesis unfolding next_string_def by (intro identity.keeps_disconnect keeps_intros)
  qed
  show "session_call s s' \<Longrightarrow> m_sessionID s' = m_sessionID s"
    by (induction rule: session_call.induct)
      (auto intro: keeps_run [OF string refl] keeps_run [OF identity.keeps_next_timer refl] keeps_run [OF identity.keeps_sendRaw(2) refl]
        keeps_run [OF identity.keeps_control(4) refl] keeps_run [OF identity.keeps_disconnect refl] keeps_run [OF identity.keeps_control(1) refl]
        keeps_run [OF identity.keeps_control(2) refl] keeps_run [OF identity.keeps_Session_reset refl] keeps_run [OF identity.keeps_control(3) refl]
        keeps_run [OF identity.keeps_renumber refl] keeps_run [OF keeps_id_reset(2) refl])
qed

text \<open>Everything a program can do with sessions: create them, with any settings and any outcome of the callback,
  destroy, register and unregister them, and call them.\<close>

inductive registry_reachable :: "Registry \<Rightarrow> bool" where
  start: "registry_reachable no_sessions"
| create: "registry_reachable r \<Longrightarrow>
    construct (new_Session clock application localtime create sid provider schedule hb) onCreate r = (x, r') \<Longrightarrow> registry_reachable r'"
| destroys: "registry_reachable r \<Longrightarrow> registry_reachable (destroy p r)"
| registers: "registry_reachable r \<Longrightarrow> registerSession sid r = (x, r') \<Longrightarrow> registry_reachable r'"
| unregisters: "registry_reachable r \<Longrightarrow> registry_reachable (unregisterSession sid r)"
| calls: "registry_reachable r \<Longrightarrow> objects r p = Some s \<Longrightarrow> session_call s s' \<Longrightarrow>
    registry_reachable (r\<lparr>objects := (objects r)(p \<mapsto> s')\<rparr>)"

lemma registry_reachable_ok: "registry_reachable r \<Longrightarrow> registry_ok r"
proof (induction rule: registry_reachable.induct)
  case (create r clock application localtime create sid provider schedule hb onCreate x r')
  then show ?case using construct_ok [OF create.IH create.hyps(2)] by (auto split: sum.splits)
next
  case (destroys r p)
  then show ?case by (auto simp: destroy_def registry_ok_remove split: option.split)
next
  case (registers r sid x r')
  then show ?case using registry_ok_register [of r sid] by simp
next
  case (calls r p s s')
  then show ?case by (intro registry_ok_act) (simp_all add: session_call_id)
qed (simp_all add: registry_ok_empty registry_ok_unregister)

lemma registry_addresses:
  assumes r: "registry_ok r"
  shows "distinct (map (\<lambda>e. snd (snd e)) (s_sessions r)) \<and> set (map (\<lambda>e. snd (snd e)) (s_sessions r)) = dom (objects r)"
proof -
  have keys: "distinct (map fst (s_sessions r))" using registry_maps [OF r] by (simp add: smap_ok_def strict_sorted_iff)
  have entry: "smap_find (s_sessions r) (fst e) = Some (snd e)" if "e \<in> set (s_sessions r)" for e
    using that keys by (metis map_of_eq_Some_iff prod.collapse)
  have owner: "\<exists>s. objects r (snd (snd e)) = Some s \<and> fst e = m_frozenString (m_sessionID s)" if "e \<in> set (s_sessions r)" for e
  proof -
    obtain k sid p where e: "e = (k, sid, p)" by (cases e)
    with entry [OF that] have "smap_find (s_sessions r) k = Some (sid, p)" by simp
    then show ?thesis by (rule registry_session [OF r]) (auto simp: e)
  qed
  have "inj_on (\<lambda>e. snd (snd e)) (set (s_sessions r))"
  proof (rule inj_onI)
    fix e f assume ef: "e \<in> set (s_sessions r)" "f \<in> set (s_sessions r)" "snd (snd e) = snd (snd f)"
    then have "fst e = fst f" using owner [OF ef(1)] owner [OF ef(2)] by auto
    with entry [OF ef(1)] entry [OF ef(2)] show "e = f" by (simp add: prod_eq_iff)
  qed
  then have 1: "distinct (map (\<lambda>e. snd (snd e)) (s_sessions r))"
    using keys by (simp add: distinct_map)
  have "p \<in> (\<lambda>e. snd (snd e)) ` set (s_sessions r)" if "objects r p = Some s" for p s
    using registry_object [OF r that] map_of_SomeD by force
  then have 2: "set (map (\<lambda>e. snd (snd e)) (s_sessions r)) = dom (objects r)"
    using owner unfolding dom_def set_map by blast
  from 1 2 show ?thesis ..
qed

lemma lookup_exact:
  assumes r: "registry_ok r"
  shows "lookupSession sid r = Some p \<longleftrightarrow> (\<exists>s. objects r p = Some s \<and> SessionID_eq (m_sessionID s) sid)"
proof
  assume "lookupSession sid r = Some p"
  then obtain sid' where "smap_find (s_sessions r) (m_frozenString sid) = Some (sid', p)" by (auto simp: lookupSession_def)
  then show "\<exists>s. objects r p = Some s \<and> SessionID_eq (m_sessionID s) sid"
    by (rule registry_session [OF r]) (simp add: SessionID_eq_def)
next
  assume "\<exists>s. objects r p = Some s \<and> SessionID_eq (m_sessionID s) sid"
  then show "lookupSession sid r = Some p"
    using registry_object [OF r, of p] by (fastforce simp: lookupSession_def SessionID_eq_def)
qed

section \<open>Properties\<close>


definition example_built :: "unit result \<times> Session" where
  "example_built = new_Session (\<lambda>_. epoch) example_application (\<lambda>_. epoch) (\<lambda>now. InMemory (new_MemoryStore now))
     (mk_SessionID ''FIX.4.2'' ''US'' ''THEM'' []) \<lparr>m_transportDictionaries = [], m_applicationDictionaries = []\<rparr>
     (mk_TimeRange midnight midnight (-1) (-1) False) 30"

definition example_registry :: Registry where
  "example_registry = snd (construct example_built (\<lambda>_. Ok ()) no_sessions)"

lemma example_built_Ok: "example_built = (Ok (), example_session)"
  unfolding example_built_def example_session_def prod_eq_iff fst_conv snd_conv
  by (simp add: new_Session_def new_SessionState_def timestamper_def reset_state_def state_reset_def
      on_state_def eff_defs ms_reset_def new_MemoryStore_def ms_defs)

lemma example_registry_objects: "objects example_registry = [0 \<mapsto> example_session]"
  by (simp add: example_registry_def construct_def example_built_Ok no_sessions_def addSession_def Let_def)


end
