(* ===== verification/SessionFactories.thy ===== *)
theory SessionFactories
  imports SessionRegistry SettingsFiles
begin

text \<open>
  SessionFactory.h and SessionFactory.cpp: making a session from its settings. The factory keeps the
  dictionaries it has parsed; the sessions it makes are entered in the registry. What it is given are the fields of
  \<open>factory_env\<close>: the application and its \<open>onCreate\<close>, the clock, the time zone, the store factory, and \<open>load\<close>, the
  constructor of DataDictionary on a file. Dictionaries are shared by pointer but never changed afterwards, so they are values here.
\<close>

section \<open>Settings of a session\<close>

definition DEFAULT_APPLVERID :: string where "DEFAULT_APPLVERID = ''DefaultApplVerID''"
definition USE_DATA_DICTIONARY :: string where "USE_DATA_DICTIONARY = ''UseDataDictionary''"
definition SEND_REDUNDANT_RESENDREQUESTS :: string where "SEND_REDUNDANT_RESENDREQUESTS = ''SendRedundantResendRequests''"
definition SEND_NEXT_EXPECTED_MSG_SEQ_NUM :: string where "SEND_NEXT_EXPECTED_MSG_SEQ_NUM = ''SendNextExpectedMsgSeqNum''"
definition DATA_DICTIONARY :: string where "DATA_DICTIONARY = ''DataDictionary''"
definition TRANSPORT_DATA_DICTIONARY :: string where "TRANSPORT_DATA_DICTIONARY = ''TransportDataDictionary''"
definition APP_DATA_DICTIONARY :: string where "APP_DATA_DICTIONARY = ''AppDataDictionary''"
definition USE_LOCAL_TIME :: string where "USE_LOCAL_TIME = ''UseLocalTime''"
definition START_TIME :: string where "START_TIME = ''StartTime''"
definition END_TIME :: string where "END_TIME = ''EndTime''"
definition START_DAY :: string where "START_DAY = ''StartDay''"
definition END_DAY :: string where "END_DAY = ''EndDay''"
definition NON_STOP_SESSION :: string where "NON_STOP_SESSION = ''NonStopSession''"
definition LOGON_TIME :: string where "LOGON_TIME = ''LogonTime''"
definition LOGOUT_TIME :: string where "LOGOUT_TIME = ''LogoutTime''"
definition LOGON_DAY :: string where "LOGON_DAY = ''LogonDay''"
definition LOGOUT_DAY :: string where "LOGOUT_DAY = ''LogoutDay''"
definition CHECK_COMPID :: string where "CHECK_COMPID = ''CheckCompID''"
definition CHECK_LATENCY :: string where "CHECK_LATENCY = ''CheckLatency''"
definition MAX_LATENCY :: string where "MAX_LATENCY = ''MaxLatency''"
definition HEARTBTINT :: string where "HEARTBTINT = ''HeartBtInt''"
definition VALIDATE_LENGTH_AND_CHECKSUM :: string where "VALIDATE_LENGTH_AND_CHECKSUM = ''ValidateLengthAndChecksum''"
definition VALIDATE_FIELDS_OUT_OF_ORDER :: string where "VALIDATE_FIELDS_OUT_OF_ORDER = ''ValidateFieldsOutOfOrder''"
definition VALIDATE_FIELDS_HAVE_VALUES :: string where "VALIDATE_FIELDS_HAVE_VALUES = ''ValidateFieldsHaveValues''"
definition VALIDATE_USER_DEFINED_FIELDS :: string where "VALIDATE_USER_DEFINED_FIELDS = ''ValidateUserDefinedFields''"
definition ALLOW_UNKNOWN_MSG_FIELDS :: string where "ALLOW_UNKNOWN_MSG_FIELDS = ''AllowUnknownMsgFields''"
definition PRESERVE_MESSAGE_FIELDS_ORDER :: string where "PRESERVE_MESSAGE_FIELDS_ORDER = ''PreserveMessageFieldsOrder''"
definition LOGON_TIMEOUT :: string where "LOGON_TIMEOUT = ''LogonTimeout''"
definition LOGOUT_TIMEOUT :: string where "LOGOUT_TIMEOUT = ''LogoutTimeout''"
definition RESET_ON_LOGON :: string where "RESET_ON_LOGON = ''ResetOnLogon''"
definition RESET_ON_LOGOUT :: string where "RESET_ON_LOGOUT = ''ResetOnLogout''"
definition RESET_ON_DISCONNECT :: string where "RESET_ON_DISCONNECT = ''ResetOnDisconnect''"
definition REFRESH_ON_LOGON :: string where "REFRESH_ON_LOGON = ''RefreshOnLogon''"
definition MILLISECONDS_IN_TIMESTAMP :: string where "MILLISECONDS_IN_TIMESTAMP = ''MillisecondsInTimeStamp''"
definition TIMESTAMP_PRECISION :: string where "TIMESTAMP_PRECISION = ''TimestampPrecision''"
definition PERSIST_MESSAGES :: string where "PERSIST_MESSAGES = ''PersistMessages''"
definition ALLOWED_REMOTE_ADDRESSES :: string where "ALLOWED_REMOTE_ADDRESSES = ''AllowedRemoteAddresses''"

text \<open>\<open>if (settings.has(name)) x = settings.getBool(name)\<close> with a default.\<close>

definition bool_or :: "bool \<Rightarrow> string \<Rightarrow> Dictionary \<Rightarrow> bool result" where
  "bool_or otherwise name settings = (if dict_has name settings then getBool name settings else Ok otherwise)"

section \<open>Dictionaries\<close>

definition dd_checkFieldsOutOfOrder :: "bool \<Rightarrow> DataDictionary \<Rightarrow> DataDictionary" where
  "dd_checkFieldsOutOfOrder value' = set_dd (\<lambda>d. d\<lparr>m_checkFieldsOutOfOrder := value'\<rparr>)"
definition dd_checkFieldsHaveValues :: "bool \<Rightarrow> DataDictionary \<Rightarrow> DataDictionary" where
  "dd_checkFieldsHaveValues value' = set_dd (\<lambda>d. d\<lparr>m_checkFieldsHaveValues := value'\<rparr>)"
definition dd_checkUserDefinedFields :: "bool \<Rightarrow> DataDictionary \<Rightarrow> DataDictionary" where
  "dd_checkUserDefinedFields value' = set_dd (\<lambda>d. d\<lparr>m_checkUserDefinedFields := value'\<rparr>)"
definition dd_allowUnknownMsgFields :: "bool \<Rightarrow> DataDictionary \<Rightarrow> DataDictionary" where
  "dd_allowUnknownMsgFields value' = set_dd (\<lambda>d. d\<lparr>m_allowUnknownMessageFields := value'\<rparr>)"

definition flag_char :: "Dictionary \<Rightarrow> string \<Rightarrow> char result" where
  "flag_char settings name =
     (if dict_has name settings then rbind (getBool name settings) (\<lambda>b. Ok (if b then CHR ''1'' else CHR ''0'')) else Ok CHR ''-'')"

definition set_flag :: "Dictionary \<Rightarrow> string \<Rightarrow> (bool \<Rightarrow> DataDictionary \<Rightarrow> DataDictionary) \<Rightarrow> DataDictionary \<Rightarrow> DataDictionary result" where
  "set_flag settings name setter d =
     (if dict_has name settings then rbind (getBool name settings) (\<lambda>b. Ok (setter b d)) else Ok d)"

definition set_flags :: "Dictionary \<Rightarrow> DataDictionary \<Rightarrow> DataDictionary result" where
  "set_flags settings d =
     rbind (set_flag settings VALIDATE_FIELDS_OUT_OF_ORDER dd_checkFieldsOutOfOrder d) (\<lambda>d.
     rbind (set_flag settings VALIDATE_FIELDS_HAVE_VALUES dd_checkFieldsHaveValues d) (\<lambda>d.
     rbind (set_flag settings VALIDATE_USER_DEFINED_FIELDS dd_checkUserDefinedFields d) (\<lambda>d.
     set_flag settings ALLOW_UNKNOWN_MSG_FIELDS dd_allowUnknownMsgFields d)))"

type_synonym loader = "string \<Rightarrow> bool \<Rightarrow> DataDictionary result"
type_synonym dictionaries = "(string, DataDictionary) smap"

definition dictionary_flags :: "Dictionary \<Rightarrow> string result" where
  "dictionary_flags settings =
     rbind (flag_char settings VALIDATE_FIELDS_OUT_OF_ORDER) (\<lambda>a.
     rbind (flag_char settings VALIDATE_FIELDS_HAVE_VALUES) (\<lambda>b.
     rbind (flag_char settings VALIDATE_USER_DEFINED_FIELDS) (\<lambda>c.
     rbind (flag_char settings ALLOW_UNKNOWN_MSG_FIELDS) (\<lambda>d. Ok [a, b, c, d]))))"

definition fileKey :: "string \<Rightarrow> bool \<Rightarrow> string" where
  "fileKey path preserve = path @ [CHR 0x0A] @ (if preserve then ''1'' else ''0'')"

definition sessionKey :: "string \<Rightarrow> bool \<Rightarrow> string \<Rightarrow> string" where
  "sessionKey path preserve flags = fileKey path preserve @ [CHR 0x0A] @ flags"

text \<open>The parsed dictionary of a file, from the map or loaded into it.\<close>

definition parsed_dictionary :: "loader \<Rightarrow> string \<Rightarrow> bool \<Rightarrow> (dictionaries, DataDictionary) eff" where
  "parsed_dictionary load path preserve c =
     (case smap_find c (fileKey path preserve) of
        Some d \<Rightarrow> (Ok d, c)
      | None \<Rightarrow>
          (case load path preserve of
             Inl e \<Rightarrow> (Throw e, c)
           | Inr d \<Rightarrow> (Ok d, smap_put (fileKey path preserve) d c)))"

definition createDataDictionary :: "loader \<Rightarrow> Dictionary \<Rightarrow> string \<Rightarrow> (dictionaries, DataDictionary) eff" where
  "createDataDictionary load settings settingsKey =
     ebind (elift (dict_getString settingsKey False settings)) (\<lambda>path.
     ebind (elift (bool_or False PRESERVE_MESSAGE_FIELDS_ORDER settings)) (\<lambda>preserve.
     ebind (elift (dictionary_flags settings)) (\<lambda>flags.
     ebind (egets (\<lambda>c. smap_find c (sessionKey path preserve flags))) (\<lambda>shared.
       case shared of
         Some d \<Rightarrow> eret d
       | None \<Rightarrow>
           ebind (parsed_dictionary load path preserve) (\<lambda>pDD.
             if flags = ''----'' then
               ebind (emodify (smap_put (sessionKey path preserve flags) pDD)) (\<lambda>_. eret pDD)
             else
               ebind (elift (set_flags settings pDD)) (\<lambda>pFlagged.
               ebind (emodify (smap_put (sessionKey path preserve flags) pFlagged)) (\<lambda>_. eret pFlagged)))))))"

text \<open>One entry of the settings in the loop of \<open>processFixtDataDictionaries\<close>.\<close>

definition application_dictionary ::
  "loader \<Rightarrow> Dictionary \<Rightarrow> string \<Rightarrow> DataDictionaryProvider \<Rightarrow> (dictionaries, DataDictionaryProvider) eff" where
  "application_dictionary load settings name provider =
     (if take (length APP_DATA_DICTIONARY) name \<noteq> string_toUpper APP_DATA_DICTIONARY then eret provider
      else if name = string_toUpper APP_DATA_DICTIONARY then
        ebind (elift (dict_getString DEFAULT_APPLVERID False settings)) (\<lambda>v.
        ebind (createDataDictionary load settings APP_DATA_DICTIONARY) (\<lambda>d.
        eret (addApplicationDataDictionary (toApplVerID v) d provider)))
      else case str_find ''.'' name 0 of
        None \<Rightarrow> ethrow ConfigError
      | Some offset \<Rightarrow>
          ebind (createDataDictionary load settings name) (\<lambda>d.
          eret (addApplicationDataDictionary (toApplVerID (drop (offset + 1) name)) d provider)))"

fun application_dictionaries ::
  "loader \<Rightarrow> Dictionary \<Rightarrow> (string \<times> string) list \<Rightarrow> DataDictionaryProvider \<Rightarrow> (dictionaries, DataDictionaryProvider) eff" where
  "application_dictionaries load settings [] provider = eret provider"
| "application_dictionaries load settings (data # ds) provider =
     ebind (application_dictionary load settings (fst data) provider) (application_dictionaries load settings ds)"

definition processFixtDataDictionaries ::
  "loader \<Rightarrow> SessionID \<Rightarrow> Dictionary \<Rightarrow> DataDictionaryProvider \<Rightarrow> (dictionaries, DataDictionaryProvider) eff" where
  "processFixtDataDictionaries load sid settings provider =
     ebind (createDataDictionary load settings TRANSPORT_DATA_DICTIONARY) (\<lambda>d.
     application_dictionaries load settings (m_data settings) (addTransportDataDictionary (getBeginString sid) d provider))"

definition processFixDataDictionary ::
  "loader \<Rightarrow> SessionID \<Rightarrow> Dictionary \<Rightarrow> DataDictionaryProvider \<Rightarrow> (dictionaries, DataDictionaryProvider) eff" where
  "processFixDataDictionary load sid settings provider =
     ebind (createDataDictionary load settings DATA_DICTIONARY) (\<lambda>d.
     eret (addApplicationDataDictionary (toApplVerID (getBeginString sid)) d
       (addTransportDataDictionary (getBeginString sid) d provider)))"

section \<open>Schedule\<close>

definition time_of_day :: "int \<Rightarrow> int \<Rightarrow> int \<Rightarrow> DateTime" where
  "time_of_day hour minute second = setHMS hour minute second 0 3 \<lparr>m_date = 0, m_time = 0\<rparr>"

text \<open>Two days read one after the other in a try block: the first missing or malformed one ends it.\<close>

definition days_of :: "string \<Rightarrow> string \<Rightarrow> Dictionary \<Rightarrow> int \<Rightarrow> int \<Rightarrow> int \<times> int" where
  "days_of first second settings startDay endDay =
     (case dict_getDay first settings of
        Inl _ \<Rightarrow> (startDay, endDay)
      | Inr startDay \<Rightarrow>
          (case dict_getDay second settings of Inl _ \<Rightarrow> (startDay, endDay) | Inr endDay \<Rightarrow> (startDay, endDay)))"

definition time_setting :: "string \<Rightarrow> Dictionary \<Rightarrow> DateTime option result" where
  "time_setting name settings =
     (case dict_getString name False settings of
        Inl _ \<Rightarrow> Ok None
      | Inr v \<Rightarrow> (case UtcTimeOnlyConvertor_convert v of None \<Rightarrow> Throw ConfigError | Some t \<Rightarrow> Ok (Some t)))"

definition session_times :: "bool \<Rightarrow> Dictionary \<Rightarrow> (DateTime \<times> DateTime) result" where
  "session_times isNonStopSession settings =
     (let zero = time_of_day 0 0 0 in
      rbind (time_setting START_TIME settings) (\<lambda>start.
        case start of
          None \<Rightarrow> if \<not> isNonStopSession then Throw ConfigError else Ok (zero, zero)
        | Some startTime \<Rightarrow>
            rbind (time_setting END_TIME settings) (\<lambda>end'.
              case end' of
                None \<Rightarrow> if \<not> isNonStopSession then Throw ConfigError else Ok (startTime, zero)
              | Some endTime \<Rightarrow> Ok (startTime, endTime))))"

definition local_range :: "DateTime \<Rightarrow> DateTime \<Rightarrow> int \<Rightarrow> int \<Rightarrow> TimeRange" where
  "local_range startTime endTime startDay endDay =
     mk_TimeRange (time_of_day (getHour startTime) (getMinute startTime) (getSecond startTime))
       (time_of_day (getHour endTime) (getMinute endTime) (getSecond endTime)) startDay endDay True"

definition range_of :: "bool \<Rightarrow> DateTime \<Rightarrow> DateTime \<Rightarrow> int \<Rightarrow> int \<Rightarrow> TimeRange" where
  "range_of useLocalTime startTime endTime startDay endDay =
     (if useLocalTime then local_range startTime endTime startDay endDay
      else mk_TimeRange startTime endTime startDay endDay False)"

record schedule =
  sc_useLocalTime :: bool
  sc_isNonStopSession :: bool
  sc_startTime :: DateTime
  sc_endTime :: DateTime
  sc_startDay :: int
  sc_endDay :: int

definition sc_sessionTimeRange :: "schedule \<Rightarrow> TimeRange" where
  "sc_sessionTimeRange sc = range_of (sc_useLocalTime sc) (sc_startTime sc) (sc_endTime sc) (sc_startDay sc) (sc_endDay sc)"

definition session_schedule :: "Dictionary \<Rightarrow> schedule result" where
  "session_schedule settings =
     rbind (bool_or False USE_LOCAL_TIME settings) (\<lambda>useLocalTime.
     rbind (bool_or False NON_STOP_SESSION settings) (\<lambda>isNonStopSession.
     let (startDay, endDay) = days_of START_DAY END_DAY settings (-1) (-1) in
     rbind (session_times isNonStopSession settings) (\<lambda>(startTime, endTime).
       if startDay \<ge> 0 \<and> endDay < 0 then Throw ConfigError
       else if endDay \<ge> 0 \<and> startDay < 0 then Throw ConfigError
       else if isNonStopSession \<and> (startDay \<ge> 0 \<or> endDay \<ge> 0 \<or> startTime \<noteq> time_of_day 0 0 0 \<or> endTime \<noteq> time_of_day 0 0 0)
       then Throw ConfigError
       else Ok \<lparr>sc_useLocalTime = useLocalTime, sc_isNonStopSession = isNonStopSession, sc_startTime = startTime,
                sc_endTime = endTime, sc_startDay = startDay, sc_endDay = endDay\<rparr>)))"

definition heartbeat_interval :: "string \<Rightarrow> Dictionary \<Rightarrow> int result" where
  "heartbeat_interval connectionType settings =
     (if connectionType = ''initiator'' then
        rbind (getInt HEARTBTINT settings) (\<lambda>heartBtInt. if heartBtInt \<le> 0 then Throw ConfigError else Ok heartBtInt)
      else Ok 0)"

section \<open>Options of a session\<close>

definition setLogonTime :: "TimeRange \<Rightarrow> Session \<Rightarrow> Session" where
  "setLogonTime value' s = s\<lparr>m_logonTime := value'\<rparr>"
definition setSenderDefaultApplVerID :: "string \<Rightarrow> Session \<Rightarrow> Session" where
  "setSenderDefaultApplVerID value' s = s\<lparr>m_senderDefaultApplVerID := value'\<rparr>"
definition setSendRedundantResendRequests :: "bool \<Rightarrow> Session \<Rightarrow> Session" where
  "setSendRedundantResendRequests value' s = s\<lparr>m_sendRedundantResendRequests := value'\<rparr>"
definition setCheckCompId :: "bool \<Rightarrow> Session \<Rightarrow> Session" where
  "setCheckCompId value' s = s\<lparr>m_checkCompId := value'\<rparr>"
definition setCheckLatency :: "bool \<Rightarrow> Session \<Rightarrow> Session" where
  "setCheckLatency value' s = s\<lparr>m_checkLatency := value'\<rparr>"
definition setMaxLatency :: "int \<Rightarrow> Session \<Rightarrow> Session" where
  "setMaxLatency value' s = s\<lparr>m_maxLatency := value'\<rparr>"
definition setLogonTimeout :: "int \<Rightarrow> Session \<Rightarrow> Session" where
  "setLogonTimeout value' s = s\<lparr>m_state := (m_state s)\<lparr>m_logonTimeout := value'\<rparr>\<rparr>"
definition setLogoutTimeout :: "int \<Rightarrow> Session \<Rightarrow> Session" where
  "setLogoutTimeout value' s = s\<lparr>m_state := (m_state s)\<lparr>m_logoutTimeout := value'\<rparr>\<rparr>"
definition setResetOnLogon :: "bool \<Rightarrow> Session \<Rightarrow> Session" where
  "setResetOnLogon value' s = s\<lparr>m_resetOnLogon := value'\<rparr>"
definition setResetOnLogout :: "bool \<Rightarrow> Session \<Rightarrow> Session" where
  "setResetOnLogout value' s = s\<lparr>m_resetOnLogout := value'\<rparr>"
definition setResetOnDisconnect :: "bool \<Rightarrow> Session \<Rightarrow> Session" where
  "setResetOnDisconnect value' s = s\<lparr>m_resetOnDisconnect := value'\<rparr>"
definition setRefreshOnLogon :: "bool \<Rightarrow> Session \<Rightarrow> Session" where
  "setRefreshOnLogon value' s = s\<lparr>m_refreshOnLogon := value'\<rparr>"
definition setPersistMessages :: "bool \<Rightarrow> Session \<Rightarrow> Session" where
  "setPersistMessages value' s = s\<lparr>m_persistMessages := value'\<rparr>"
definition setValidateLengthAndChecksum :: "bool \<Rightarrow> Session \<Rightarrow> Session" where
  "setValidateLengthAndChecksum value' s = s\<lparr>m_validateLengthAndChecksum := value'\<rparr>"
definition setSendNextExpectedMsgSeqNum :: "bool \<Rightarrow> Session \<Rightarrow> Session" where
  "setSendNextExpectedMsgSeqNum value' s = s\<lparr>m_sendNextExpectedMsgSeqNum := value'\<rparr>"
definition setIsNonStopSession :: "bool \<Rightarrow> Session \<Rightarrow> Session" where
  "setIsNonStopSession value' s = s\<lparr>m_isNonStopSession := value'\<rparr>"
definition setAllowedRemoteAddresses :: "string list \<Rightarrow> Session \<Rightarrow> Session" where
  "setAllowedRemoteAddresses value' s = s\<lparr>m_allowedRemoteAddresses := value'\<rparr>"
definition inAllowedRemoteAddresses :: "string \<Rightarrow> Session \<Rightarrow> bool" where
  "inAllowedRemoteAddresses value' s = (value' \<in> set (m_allowedRemoteAddresses s))"

definition when_has ::
  "Dictionary \<Rightarrow> string \<Rightarrow> (string \<Rightarrow> Dictionary \<Rightarrow> 'a result) \<Rightarrow> ('a \<Rightarrow> Session \<Rightarrow> Session) \<Rightarrow> Session \<Rightarrow> Session result" where
  "when_has settings name get setter s =
     (if dict_has name settings then rbind (get name settings) (\<lambda>v. Ok (setter v s)) else Ok s)"

primrec all_settings :: "(Session \<Rightarrow> Session result) list \<Rightarrow> Session \<Rightarrow> Session result" where
  "all_settings [] s = Ok s"
| "all_settings (f # fs) s = rbind (f s) (all_settings fs)"

definition session_options :: "Dictionary \<Rightarrow> (Session \<Rightarrow> Session result) list" where
  "session_options settings =
     [when_has settings SEND_REDUNDANT_RESENDREQUESTS getBool setSendRedundantResendRequests,
      when_has settings CHECK_COMPID getBool setCheckCompId,
      when_has settings CHECK_LATENCY getBool setCheckLatency,
      when_has settings MAX_LATENCY getInt setMaxLatency,
      when_has settings LOGON_TIMEOUT getInt setLogonTimeout,
      when_has settings LOGOUT_TIMEOUT getInt setLogoutTimeout,
      when_has settings RESET_ON_LOGON getBool setResetOnLogon,
      when_has settings RESET_ON_LOGOUT getBool setResetOnLogout,
      when_has settings RESET_ON_DISCONNECT getBool setResetOnDisconnect,
      when_has settings REFRESH_ON_LOGON getBool setRefreshOnLogon,
      when_has settings MILLISECONDS_IN_TIMESTAMP getBool setMillisecondsInTimeStamp,
      when_has settings TIMESTAMP_PRECISION getInt setTimestampPrecision,
      when_has settings PERSIST_MESSAGES getBool setPersistMessages,
      when_has settings VALIDATE_LENGTH_AND_CHECKSUM getBool setValidateLengthAndChecksum,
      when_has settings SEND_NEXT_EXPECTED_MSG_SEQ_NUM getBool setSendNextExpectedMsgSeqNum]"

text \<open>Everything \<open>create\<close> does to the session after its constructor.\<close>

definition configure_session :: "Dictionary \<Rightarrow> schedule \<Rightarrow> string \<Rightarrow> Session \<Rightarrow> Session result" where
  "configure_session settings sc defaultApplVerID s =
     (let s = setSenderDefaultApplVerID defaultApplVerID s;
          (logonDay, logoutDay) = days_of LOGON_DAY LOGOUT_DAY settings (sc_startDay sc) (sc_endDay sc) in
      rbind (time_setting LOGON_TIME settings) (\<lambda>logon.
      rbind (time_setting LOGOUT_TIME settings) (\<lambda>logout.
      let logonTime = (case logon of None \<Rightarrow> sc_startTime sc | Some t \<Rightarrow> t);
          logoutTime = (case logout of None \<Rightarrow> sc_endTime sc | Some t \<Rightarrow> t);
          logonTimeRange = range_of (sc_useLocalTime sc) logonTime logoutTime logonDay logoutDay in
      if \<not> isInRange_day (sc_sessionTimeRange sc) logonTime logonDay then Throw ConfigError
      else if \<not> isInRange_day (sc_sessionTimeRange sc) logoutTime logoutDay then Throw ConfigError
      else rbind (all_settings (session_options settings) (setLogonTime logonTimeRange s)) (\<lambda>s.
           let s = (if sc_isNonStopSession sc then setIsNonStopSession True s else s) in
           if dict_has ALLOWED_REMOTE_ADDRESSES settings then
             rbind (dict_getString ALLOWED_REMOTE_ADDRESSES False settings) (\<lambda>v.
               Ok (setAllowedRemoteAddresses (string_split v (CHR '','')) s))
           else Ok s))))"

section \<open>Creating a session\<close>

record factory_env =
  fe_application :: Application
  fe_onCreate :: "SessionID \<Rightarrow> unit result"
  fe_clock :: "nat \<Rightarrow> DateTime"
  fe_localtime :: "int \<Rightarrow> DateTime"
  fe_store :: "SessionID \<Rightarrow> DateTime \<Rightarrow> MessageStore"
  fe_load :: loader

record SessionFactory =
  m_dictionaries :: dictionaries
  f_registry :: Registry

definition on_dictionaries :: "(dictionaries, 'a) eff \<Rightarrow> (SessionFactory, 'a) eff" where
  "on_dictionaries = ezoom m_dictionaries (\<lambda>c f. f\<lparr>m_dictionaries := c\<rparr>)"

definition connection_type :: "Dictionary \<Rightarrow> string result" where
  "connection_type settings =
     rbind (dict_getString CONNECTION_TYPE False settings) (\<lambda>connectionType.
       if connectionType \<noteq> ''acceptor'' \<and> connectionType \<noteq> ''initiator'' then Throw ConfigError
       else if connectionType = ''acceptor'' \<and> dict_has SESSION_QUALIFIER settings then Throw ConfigError
       else Ok connectionType)"

definition default_version :: "SessionID \<Rightarrow> Dictionary \<Rightarrow> string result" where
  "default_version sid settings =
     (if isFIXT sid then
        if \<not> dict_has DEFAULT_APPLVERID settings then Throw ConfigError
        else rbind (dict_getString DEFAULT_APPLVERID False settings) (\<lambda>v. Ok (toApplVerID v))
      else Ok [])"

definition session_dictionaries :: "loader \<Rightarrow> bool \<Rightarrow> SessionID \<Rightarrow> Dictionary \<Rightarrow> (dictionaries, DataDictionaryProvider) eff" where
  "session_dictionaries load useDataDictionary sid settings =
     (let provider = \<lparr>m_transportDictionaries = [], m_applicationDictionaries = []\<rparr> in
      if useDataDictionary then
        if isFIXT sid then processFixtDataDictionaries load sid settings provider
        else processFixDataDictionary load sid settings provider
      else eret provider)"

text \<open>\<open>new Session(...)\<close>, the settings after it, and the release of the object when one of them throws.\<close>

definition create_session ::
  "factory_env \<Rightarrow> SessionID \<Rightarrow> Dictionary \<Rightarrow> DataDictionaryProvider \<Rightarrow> schedule \<Rightarrow> int \<Rightarrow> string \<Rightarrow> (Registry, nat) eff" where
  "create_session env sid settings provider sc heartBtInt defaultApplVerID =
     ebind (construct (new_Session (fe_clock env) (fe_application env) (fe_localtime env) (fe_store env sid) sid provider
              (sc_sessionTimeRange sc) heartBtInt) (fe_onCreate env)) (\<lambda>p r.
       case objects r p of
         None \<Rightarrow> (Throw RuntimeError, r)
       | Some s \<Rightarrow>
           (case configure_session settings sc defaultApplVerID s of
              Inl e \<Rightarrow> (Throw e, destroy p r)
            | Inr s \<Rightarrow> (Ok p, r\<lparr>objects := (objects r)(p \<mapsto> s)\<rparr>)))"

definition SessionFactory_create :: "factory_env \<Rightarrow> SessionID \<Rightarrow> Dictionary \<Rightarrow> (SessionFactory, nat) eff" where
  "SessionFactory_create env sid settings =
     ebind (elift (connection_type settings)) (\<lambda>connectionType.
     ebind (elift (bool_or True USE_DATA_DICTIONARY settings)) (\<lambda>useDataDictionary.
     ebind (elift (default_version sid settings)) (\<lambda>defaultApplVerID.
     ebind (on_dictionaries (session_dictionaries (fe_load env) useDataDictionary sid settings)) (\<lambda>provider.
     ebind (elift (session_schedule settings)) (\<lambda>sc.
     ebind (elift (heartbeat_interval connectionType settings)) (\<lambda>heartBtInt.
     ezoom f_registry (\<lambda>r f. f\<lparr>f_registry := r\<rparr>)
       (create_session env sid settings provider sc heartBtInt defaultApplVerID)))))))"

definition SessionFactory_destroy :: "nat \<Rightarrow> SessionFactory \<Rightarrow> SessionFactory" where
  "SessionFactory_destroy p f = f\<lparr>f_registry := destroy p (f_registry f)\<rparr>"

section \<open>The dictionaries are those of the files\<close>

text \<open>What \<open>createDataDictionary\<close> has to return: the file parsed, with the flags of the settings.\<close>

definition loaded_dictionary :: "loader \<Rightarrow> Dictionary \<Rightarrow> string \<Rightarrow> DataDictionary result" where
  "loaded_dictionary load settings settingsKey =
     rbind (dict_getString settingsKey False settings) (\<lambda>path.
     rbind (bool_or False PRESERVE_MESSAGE_FIELDS_ORDER settings) (\<lambda>preserve.
     rbind (dictionary_flags settings) (\<lambda>flags.
     rbind (load path preserve) (set_flags settings))))"

lemma dictionary_flags_length: "dictionary_flags settings = Ok flags \<Longrightarrow> length flags = 4"
  by (auto simp: dictionary_flags_def)

lemma set_flag_char: "flag_char s name = Ok c \<Longrightarrow> flag_char t name = Ok c \<Longrightarrow> set_flag s name f d = set_flag t name f d"
  by (auto simp: flag_char_def set_flag_def split: if_splits)

lemma set_flags_same: "dictionary_flags s = Ok flags \<Longrightarrow> dictionary_flags t = Ok flags \<Longrightarrow> set_flags s d = set_flags t d"
  by (auto simp: dictionary_flags_def set_flags_def intro!: arg_cong2 [where f = rbind] set_flag_char)

lemma set_flags_none: "dictionary_flags s = Ok ''----'' \<Longrightarrow> set_flags s d = Ok d"
  by (auto simp: dictionary_flags_def flag_char_def set_flags_def set_flag_def split: if_splits)

lemma fileKey_inject: "fileKey p b = fileKey p' b' \<longleftrightarrow> p = p' \<and> b = b'"
  by (auto simp: fileKey_def)

lemma sessionKey_inject:
  "length fl = 4 \<Longrightarrow> length fl' = 4 \<Longrightarrow> sessionKey p b fl = sessionKey p' b' fl' \<longleftrightarrow> p = p' \<and> b = b' \<and> fl = fl'"
  by (auto simp: sessionKey_def fileKey_inject)

lemma keys_apart: "dictionary_flags settings = Ok fl \<Longrightarrow> sessionKey p b fl \<noteq> fileKey p' b'"
proof
  assume fl: "dictionary_flags settings = Ok fl" and eq: "sessionKey p b fl = fileKey p' b'"
  obtain x y z w where w: "fl = [x, y, z, w]" "z \<in> {CHR ''-'', CHR ''0'', CHR ''1''}"
    using fl by (auto simp: dictionary_flags_def flag_char_def split: if_splits)
  from eq have "rev (sessionKey p b fl) ! 1 = rev (fileKey p' b') ! 1" by simp
  with w show False by (cases b') (auto simp: sessionKey_def fileKey_def)
qed

definition cache_ok :: "loader \<Rightarrow> dictionaries \<Rightarrow> bool" where
  "cache_ok load c =
     (smap_ok c \<and>
      (\<forall>p b d. smap_find c (fileKey p b) = Some d \<longrightarrow> load p b = Ok d) \<and>
      (\<forall>p b fl settings d. dictionary_flags settings = Ok fl \<longrightarrow> smap_find c (sessionKey p b fl) = Some d \<longrightarrow>
         rbind (load p b) (set_flags settings) = Ok d))"

lemma cache_ok_file:
  assumes "cache_ok load c" "load p b = Ok d"
  shows "cache_ok load (smap_put (fileKey p b) d c)"
  using assms keys_apart by (auto simp: cache_ok_def fileKey_inject)

lemma cache_ok_session:
  assumes "cache_ok load c" "dictionary_flags settings = Ok fl" "rbind (load p b) (set_flags settings) = Ok d"
  shows "cache_ok load (smap_put (sessionKey p b fl) d c)"
proof -
  have "rbind (load p' b') (set_flags settings') = Ok d'"
    if "dictionary_flags settings' = Ok fl'" "smap_find (smap_put (sessionKey p b fl) d c) (sessionKey p' b' fl') = Some d'"
    for p' b' fl' settings' d'
    using that assms set_flags_same [of settings fl settings']
      sessionKey_inject [OF dictionary_flags_length [OF that(1)] dictionary_flags_length [OF assms(2)], of p' b' p b]
    by (auto simp: cache_ok_def split: if_splits)
  moreover have "load p' b' = Ok d'" if "smap_find (smap_put (sessionKey p b fl) d c) (fileKey p' b') = Some d'" for p' b' d'
    using that assms(1) keys_apart [OF assms(2), of p b p' b'] by (auto simp: cache_ok_def split: if_splits)
  ultimately show ?thesis using assms(1) by (simp add: cache_ok_def)
qed

lemma parsed_dictionary_run:
  assumes "cache_ok load c"
  shows "\<exists>c'. parsed_dictionary load p b c = (load p b, c') \<and> cache_ok load c'"
proof (cases "smap_find c (fileKey p b)")
  case (Some d)
  then have "load p b = Ok d" using assms unfolding cache_ok_def by blast
  with Some assms show ?thesis by (simp add: parsed_dictionary_def)
next
  case None
  with assms cache_ok_file [OF assms, of p b] show ?thesis
    by (cases "load p b") (simp_all add: parsed_dictionary_def)
qed

lemma createDataDictionary_found:
  assumes c: "cache_ok load c"
    and ok: "dict_getString name False settings = Ok path"
      "bool_or False PRESERVE_MESSAGE_FIELDS_ORDER settings = Ok preserve" "dictionary_flags settings = Ok flags"
  shows "\<exists>c'. createDataDictionary load settings name c = (rbind (load path preserve) (set_flags settings), c') \<and> cache_ok load c'"
proof (cases "smap_find c (sessionKey path preserve flags)")
  case (Some d)
  then have "rbind (load path preserve) (set_flags settings) = Ok d" using c ok(3) unfolding cache_ok_def by blast
  with Some c show ?thesis
    by (auto simp: createDataDictionary_def ok ebind_def elift_def egets_def eret_def)
next
  case None
  obtain c1 where c1: "parsed_dictionary load path preserve c = (load path preserve, c1)" "cache_ok load c1"
    using parsed_dictionary_run [OF c] by blast
  note run = createDataDictionary_def ok ebind_def elift_def egets_def eret_def emodify_def None c1(1)
  show ?thesis
  proof (cases "load path preserve")
    case (Inl e)
    then show ?thesis using c1(2) by (simp add: run)
  next
    case (Inr d)
    show ?thesis
    proof (cases "set_flags settings d")
      case (Inl e)
      then show ?thesis using c1(2) Inr set_flags_none [of settings d] ok(3) by (auto simp: run)
    next
      case flagged: (Inr d')
      have "cache_ok load (smap_put (sessionKey path preserve flags) d' c1)"
        using cache_ok_session [OF c1(2) ok(3), of path preserve d'] Inr flagged by simp
      then show ?thesis using Inr flagged set_flags_none [of settings d] ok(3) by (auto simp: run)
    qed
  qed
qed

lemma createDataDictionary_run:
  assumes "cache_ok load c"
  shows "\<exists>c'. createDataDictionary load settings name c = (loaded_dictionary load settings name, c') \<and> cache_ok load c'"
proof (cases "dict_getString name False settings")
  case (Inl e)
  then show ?thesis using assms by (simp add: createDataDictionary_def loaded_dictionary_def ebind_def elift_def)
next
  case path: (Inr path)
  show ?thesis
  proof (cases "bool_or False PRESERVE_MESSAGE_FIELDS_ORDER settings")
    case (Inl e)
    then show ?thesis using assms by (simp add: createDataDictionary_def loaded_dictionary_def ebind_def elift_def path)
  next
    case preserve: (Inr preserve)
    show ?thesis
    proof (cases "dictionary_flags settings")
      case (Inl e)
      then show ?thesis using assms by (simp add: createDataDictionary_def loaded_dictionary_def ebind_def elift_def path preserve)
    next
      case (Inr flags)
      from createDataDictionary_found [OF assms path preserve Inr] show ?thesis
        by (simp add: loaded_dictionary_def path preserve Inr)
    qed
  qed
qed

primrec create_dictionaries :: "loader \<Rightarrow> (Dictionary \<times> string) list \<Rightarrow> dictionaries \<Rightarrow> DataDictionary result list" where
  "create_dictionaries load [] c = []"
| "create_dictionaries load (q # qs) c =
     (case createDataDictionary load (fst q) (snd q) c of (x, c') \<Rightarrow> x # create_dictionaries load qs c')"

lemma create_dictionaries_ok:
  "cache_ok load c \<Longrightarrow> create_dictionaries load qs c = map (\<lambda>q. loaded_dictionary load (fst q) (snd q)) qs"
proof (induction qs arbitrary: c)
  case (Cons q qs)
  obtain c' where "createDataDictionary load (fst q) (snd q) c = (loaded_dictionary load (fst q) (snd q), c')" "cache_ok load c'"
    using createDataDictionary_run [OF Cons.prems] by blast
  with Cons.IH show ?case by simp
qed simp

section \<open>What a created session is\<close>

text \<open>The parts of a session that its options leave alone.\<close>

definition fixed_parts :: "Session \<Rightarrow> SessionID \<times> TimeRange \<times> TimeRange \<times> bool \<times> bool \<times> DataDictionaryProvider" where
  "fixed_parts s =
     (m_sessionID s, m_sessionTime s, m_logonTime s, m_initiate (m_state s), m_isNonStopSession s, m_dataDictionaryProvider s)"

lemmas option_defs = setSendRedundantResendRequests_def setCheckCompId_def setCheckLatency_def setMaxLatency_def
  setLogonTimeout_def setLogoutTimeout_def setResetOnLogon_def setResetOnLogout_def setResetOnDisconnect_def
  setRefreshOnLogon_def setMillisecondsInTimeStamp_def setTimestampPrecision_def setPersistMessages_def
  setValidateLengthAndChecksum_def setSendNextExpectedMsgSeqNum_def

lemma all_settings_keep:
  "(\<And>f s s'. f \<in> set fs \<Longrightarrow> f s = Ok s' \<Longrightarrow> g s' = g s) \<Longrightarrow> all_settings fs s = Ok s' \<Longrightarrow> g s' = g s"
proof (induction fs arbitrary: s)
  case (Cons f fs)
  from Cons.prems(2) obtain t where t: "f s = Ok t" "all_settings fs t = Ok s'" by auto
  have "g v = g u" if "h \<in> set fs" "h u = Ok v" for h u v using Cons.prems(1) [of h u v] that by simp
  from Cons.IH [OF this t(2)] have "g s' = g t" .
  also have "\<dots> = g s" using Cons.prems(1) [of f s t] t(1) by simp
  finally show ?case .
qed simp

lemma options_keep: "all_settings (session_options settings) s = Ok s' \<Longrightarrow> fixed_parts s' = fixed_parts s"
proof (rule all_settings_keep)
  show "f \<in> set (session_options settings) \<Longrightarrow> f s = Ok s' \<Longrightarrow> fixed_parts s' = fixed_parts s" for f s s'
    unfolding session_options_def by (auto simp: option_defs fixed_parts_def when_has_def split: if_splits)
qed

lemma new_Session_parts:
  assumes "new_Session clock application localtime create sid provider times' hb = (x, s)"
  shows "fixed_parts s = (sid, times', times', hb \<noteq> 0, False, provider)"
proof -
  have "keeps (\<lambda>s. fixed_parts s = y) reset_state" for y
    by (auto simp: keeps_def fixed_parts_def reset_state_def timestamper_def on_state_def state_reset_def eff_defs split: prod.split sum.split)
  then have "keeps (\<lambda>s. fixed_parts s = y) (ebind timestamper (\<lambda>now. ebind (egets (\<lambda>s. checkSessionTime s now)) (\<lambda>inTime. ewhen (\<not> inTime) reset_state)))" for y
    by (intro keeps_intros) (auto simp: keeps_def timestamper_def fixed_parts_def)
  from keeps_run [OF this _ assms [unfolded new_Session_def]] show ?thesis by (simp add: fixed_parts_def)
qed

text \<open>The conditions on the times of a session, as its parts show them.\<close>

definition schedule_ok :: "Session \<Rightarrow> bool" where
  "schedule_ok s =
     ((m_startDay (m_sessionTime s) \<ge> 0 \<longleftrightarrow> m_endDay (m_sessionTime s) \<ge> 0) \<and>
      (m_isNonStopSession s \<longrightarrow> m_startDay (m_sessionTime s) < 0) \<and>
      (\<not> m_useLocalTime (m_sessionTime s) \<longrightarrow>
         isInRange_day (m_sessionTime s) (m_startTime (m_logonTime s)) (m_startDay (m_logonTime s)) \<and>
         isInRange_day (m_sessionTime s) (m_endTime (m_logonTime s)) (m_endDay (m_logonTime s))))"

lemma session_schedule_days:
  "session_schedule settings = Ok sc \<Longrightarrow>
   (sc_startDay sc \<ge> 0 \<longleftrightarrow> sc_endDay sc \<ge> 0) \<and> (sc_isNonStopSession sc \<longrightarrow> sc_startDay sc < 0)"
  by (cases "days_of START_DAY END_DAY settings (-1) (-1)")
    (auto simp: session_schedule_def Let_def split: prod.splits if_splits)

lemma range_of_parts:
  "m_startDay (range_of l st et sd ed) = sd" "m_endDay (range_of l st et sd ed) = ed" "m_useLocalTime (range_of l st et sd ed) = l"
  by (simp_all add: range_of_def local_range_def mk_TimeRange_def)

lemma configure_session_run:
  assumes "configure_session settings sc version s = Ok s'"
  obtains logonTime logoutTime logonDay logoutDay t where
    "isInRange_day (sc_sessionTimeRange sc) logonTime logonDay" "isInRange_day (sc_sessionTimeRange sc) logoutTime logoutDay"
    "all_settings (session_options settings)
       (setLogonTime (range_of (sc_useLocalTime sc) logonTime logoutTime logonDay logoutDay) (setSenderDefaultApplVerID version s)) = Ok t"
    "fixed_parts s' = (m_sessionID t, m_sessionTime t, m_logonTime t, m_initiate (m_state t),
       sc_isNonStopSession sc \<or> m_isNonStopSession t, m_dataDictionaryProvider t)"
proof -
  obtain logonDay logoutDay where days: "days_of LOGON_DAY LOGOUT_DAY settings (sc_startDay sc) (sc_endDay sc) = (logonDay, logoutDay)" by fastforce
  from assms obtain logon logout where times': "time_setting LOGON_TIME settings = Ok logon" "time_setting LOGOUT_TIME settings = Ok logout"
    by (auto simp: configure_session_def days)
  note run = assms [unfolded configure_session_def Let_def days times' prod.case rbind.simps]
  let ?logon = "case logon of None \<Rightarrow> sc_startTime sc | Some t \<Rightarrow> t" and ?logout = "case logout of None \<Rightarrow> sc_endTime sc | Some t \<Rightarrow> t"
  have ranges: "isInRange_day (sc_sessionTimeRange sc) ?logon logonDay" "isInRange_day (sc_sessionTimeRange sc) ?logout logoutDay"
    using run by (simp_all split: if_splits)
  with run obtain t where t: "all_settings (session_options settings)
       (setLogonTime (range_of (sc_useLocalTime sc) ?logon ?logout logonDay logoutDay) (setSenderDefaultApplVerID version s)) = Ok t"
    and s': "(if dict_has ALLOWED_REMOTE_ADDRESSES settings then
        rbind (dict_getString ALLOWED_REMOTE_ADDRESSES False settings) (\<lambda>v. Ok (setAllowedRemoteAddresses (string_split v (CHR '',''))
          (if sc_isNonStopSession sc then setIsNonStopSession True t else t)))
      else Ok (if sc_isNonStopSession sc then setIsNonStopSession True t else t)) = Ok s'" by auto
  show thesis
    by (rule that [OF ranges t]) (use s' in \<open>auto simp: fixed_parts_def setAllowedRemoteAddresses_def setIsNonStopSession_def split: if_splits\<close>)
qed

lemma configure_session_parts:
  assumes "configure_session settings sc version s = Ok s'" "session_schedule settings = Ok sc"
    and s: "fixed_parts s = (sid, sc_sessionTimeRange sc, sc_sessionTimeRange sc, i, False, provider)"
  shows "m_sessionID s' = sid \<and> m_initiate (m_state s') = i \<and> m_dataDictionaryProvider s' = provider \<and>
    m_sessionTime s' = sc_sessionTimeRange sc \<and> schedule_ok s'"
  using assms(1)
proof (rule configure_session_run)
  fix logonTime logoutTime logonDay logoutDay t
  let ?range = "range_of (sc_useLocalTime sc) logonTime logoutTime logonDay logoutDay"
  assume ranges: "isInRange_day (sc_sessionTimeRange sc) logonTime logonDay" "isInRange_day (sc_sessionTimeRange sc) logoutTime logoutDay"
    and t: "all_settings (session_options settings) (setLogonTime ?range (setSenderDefaultApplVerID version s)) = Ok t"
    and s': "fixed_parts s' = (m_sessionID t, m_sessionTime t, m_logonTime t, m_initiate (m_state t),
       sc_isNonStopSession sc \<or> m_isNonStopSession t, m_dataDictionaryProvider t)"
  have "fixed_parts t = (sid, sc_sessionTimeRange sc, ?range, i, False, provider)"
    using options_keep [OF t] s by (simp add: fixed_parts_def setLogonTime_def setSenderDefaultApplVerID_def)
  with s' have parts: "m_sessionID s' = sid" "m_sessionTime s' = sc_sessionTimeRange sc" "m_logonTime s' = ?range"
    "m_initiate (m_state s') = i" "m_isNonStopSession s' = sc_isNonStopSession sc" "m_dataDictionaryProvider s' = provider"
    by (simp_all add: fixed_parts_def)
  have "schedule_ok s'"
    unfolding schedule_ok_def parts using session_schedule_days [OF assms(2)] ranges
    by (auto simp: sc_sessionTimeRange_def range_of_parts) (auto simp: range_of_def mk_TimeRange_def)
  with parts show ?thesis by simp
qed

text \<open>Destroying what was just constructed brings the registry back.\<close>

lemma removeSession_frame:
  "removeSession sid p (r\<lparr>objects := objs, next_address := n\<rparr>) = (removeSession sid p r)\<lparr>objects := objs, next_address := n\<rparr>"
  by (simp add: removeSession_def Let_def split: option.split)

lemma destroy_constructed:
  assumes r: "registry_ok r" and c: "construct built onCreate r = (Ok p, r')"
  shows "destroy p r' = r\<lparr>next_address := next_address r'\<rparr>"
proof -
  obtain s where built: "built = (Ok (), s)" using c by (cases built) (auto simp: construct_def split: sum.splits)
  obtain b r1 where add: "addSession (m_sessionID s) (next_address r) r = (b, r1)" by fastforce
  have b: "b" and p: "p = next_address r" and r': "r' = r1\<lparr>objects := (objects r1)(p \<mapsto> s), next_address := p + 1\<rparr>"
    using c add by (auto simp: built construct_def Let_def split: bool.splits sum.splits)
  have added: "addSession (m_sessionID s) p r = (True, r1)" using add b p by simp
  have "objects r p = None" using registry_object [OF r] p by (cases "objects r p") auto
  then have "(objects r)(p := None) = objects r" by (simp add: fun_upd_idem)
  then show ?thesis
    using removeSession_added [OF r added] addSession_True(2) [OF r added]
    by (simp add: destroy_def r' removeSession_frame)
qed

text \<open>Creating the object: on an error the registry is as before.\<close>

lemma create_session_run:
  assumes r: "registry_ok r" and sc: "session_schedule settings = Ok sc"
    and run: "create_session env sid settings provider sc hb version r = (x, r')"
  shows "case x of Inl _ \<Rightarrow> r' = r\<lparr>next_address := next_address r'\<rparr>
    | Inr p \<Rightarrow> registry_ok r' \<and> \<not> doesSessionExist sid r \<and> objects r p = None \<and>
        (\<exists>s. objects r' = (objects r)(p \<mapsto> s) \<and> m_sessionID s = sid \<and> m_initiate (m_state s) = (hb \<noteq> 0) \<and>
          m_dataDictionaryProvider s = provider \<and> m_sessionTime s = sc_sessionTimeRange sc \<and> schedule_ok s)"
proof -
  let ?built = "new_Session (fe_clock env) (fe_application env) (fe_localtime env) (fe_store env sid) sid provider (sc_sessionTimeRange sc) hb"
  obtain y r1 where c: "construct ?built (fe_onCreate env) r = (y, r1)" by fastforce
  show ?thesis
  proof (cases y)
    case (Inl e)
    with construct_ok [OF r c] run c show ?thesis by (auto simp: create_session_def ebind_def)
  next
    case y: (Inr p)
    let ?s = "snd ?built"
    have parts: "fixed_parts ?s = (sid, sc_sessionTimeRange sc, sc_sessionTimeRange sc, hb \<noteq> 0, False, provider)"
      by (rule new_Session_parts [OF surjective_pairing])
    then have sid: "m_sessionID ?s = sid" by (simp add: fixed_parts_def)
    from construct_ok [OF r c] y sid have r1: "registry_ok r1" "objects r p = None" "objects r1 = (objects r)(p \<mapsto> ?s)"
      "\<not> doesSessionExist sid r" by simp_all
    note run' = run [unfolded create_session_def ebind_def c y prod.case sum.case r1(3) fun_upd_same option.case]
    show ?thesis
    proof (cases "configure_session settings sc version ?s")
      case (Inl e)
      with run' destroy_constructed [OF r] c y show ?thesis by auto
    next
      case conf: (Inr s)
      note s = configure_session_parts [OF conf sc parts]
      have "registry_ok (r1\<lparr>objects := (objects r1)(p \<mapsto> s)\<rparr>)"
        using registry_ok_act [OF r1(1), of p ?s s] r1(3) sid s by simp
      with run' conf r1 s show ?thesis by auto
    qed
  qed
qed

lemma ebind_elift: "ebind (elift r) k s = (case r of Inl e \<Rightarrow> (Throw e, s) | Inr v \<Rightarrow> k v s)"
  by (simp add: ebind_def elift_def split: sum.split)

lemma SessionFactory_create_run:
  assumes "SessionFactory_create env sid settings f = (x, f')"
  obtains (failed) e where "x = Throw e" "f_registry f' = f_registry f"
  | (built) connectionType use version provider c sc hb r' where
    "connection_type settings = Ok connectionType" "bool_or True USE_DATA_DICTIONARY settings = Ok use"
    "session_dictionaries (fe_load env) use sid settings (m_dictionaries f) = (Ok provider, c)"
    "session_schedule settings = Ok sc" "heartbeat_interval connectionType settings = Ok hb"
    "create_session env sid settings provider sc hb version (f_registry f) = (x, r')"
    "f' = f\<lparr>m_dictionaries := c, f_registry := r'\<rparr>"
proof -
  note run = assms [unfolded SessionFactory_create_def ebind_elift]
  show thesis
  proof (cases "connection_type settings")
    case ct: (Inr connectionType)
    show thesis
    proof (cases "bool_or True USE_DATA_DICTIONARY settings")
      case use: (Inr use)
      show thesis
      proof (cases "default_version sid settings")
        case version: (Inr version)
        obtain y c where dd: "session_dictionaries (fe_load env) use sid settings (m_dictionaries f) = (y, c)" by fastforce
        note run = run [unfolded ct use version sum.case ebind_def [of "on_dictionaries _"], unfolded on_dictionaries_def ezoom_def dd prod.case]
        show thesis
        proof (cases y)
          case provider: (Inr provider)
          show thesis
          proof (cases "session_schedule settings")
            case sc: (Inr sc)
            show thesis
            proof (cases "heartbeat_interval connectionType settings")
              case hb: (Inr hb)
              obtain r' where "create_session env sid settings provider sc hb version (f_registry f) = (x, r')" "f' = f\<lparr>m_dictionaries := c, f_registry := r'\<rparr>"
                using run provider sc hb by (auto split: prod.splits)
              then show thesis using built [OF ct use _ sc hb] dd provider by blast
            qed (use run provider sc failed in auto)
          qed (use run provider failed in auto)
        qed (use run failed in auto)
      qed (use run ct use failed in auto)
    qed (use run ct failed in auto)
  qed (use run failed in auto)
qed

lemma heartbeat_initiator:
  "connection_type settings = Ok connectionType \<Longrightarrow> heartbeat_interval connectionType settings = Ok hb \<Longrightarrow>
   (hb \<noteq> 0) = (dict_getString CONNECTION_TYPE False settings = Ok ''initiator'')"
  by (auto simp: connection_type_def heartbeat_interval_def split: if_splits)

lemma fix_dictionary:
  assumes "cache_ok load c" "\<not> isFIXT sid" "session_dictionaries load True sid settings c = (Ok provider, c')"
  shows "loaded_dictionary load settings DATA_DICTIONARY = Ok (getSessionDataDictionary provider (getBeginString sid)) \<and>
    getApplicationDataDictionary provider (toApplVerID (getBeginString sid)) = getSessionDataDictionary provider (getBeginString sid)"
proof -
  obtain c1 where c1: "createDataDictionary load settings DATA_DICTIONARY c = (loaded_dictionary load settings DATA_DICTIONARY, c1)"
    using createDataDictionary_run [OF assms(1)] by blast
  with assms(2,3) show ?thesis
    by (cases "loaded_dictionary load settings DATA_DICTIONARY")
      (auto simp: session_dictionaries_def processFixDataDictionary_def ebind_def eret_def addApplicationDataDictionary_def
        addTransportDataDictionary_def getSessionDataDictionary_def getApplicationDataDictionary_def)
qed

section \<open>Properties\<close>

text \<open>C19: sharing dictionaries cannot be noticed. Whatever sessions asked the factory for dictionaries before, each gets
  exactly what loading its file and applying its own flags gives, errors included: the keys under which parsed and
  flagged dictionaries are kept never confuse two files, orders or flag combinations.\<close>

theorem dictionary_cache_transparent:
  "create_dictionaries load qs [] = map (\<lambda>q. loaded_dictionary load (fst q) (snd q)) qs"
  by (rule create_dictionaries_ok) (simp add: cache_ok_def)


definition example_env :: factory_env where
  "example_env = \<lparr>fe_application = example_application, fe_onCreate = \<lambda>_. Ok (), fe_clock = \<lambda>_. epoch, fe_localtime = \<lambda>_. epoch,
     fe_store = \<lambda>_ now. InMemory (new_MemoryStore now), fe_load = \<lambda>_ _. Throw ConfigError\<rparr>"

definition example_factory :: SessionFactory where
  "example_factory = \<lparr>m_dictionaries = [], f_registry = no_sessions\<rparr>"

definition acceptor_settings :: Dictionary where
  "acceptor_settings = \<lparr>m_data = [(''CONNECTIONTYPE'', ''acceptor''), (''NONSTOPSESSION'', ''Y''),
     (''USEDATADICTIONARY'', ''N'')], m_name = ''SESSION''\<rparr>"

lemma example_created: "fst (SessionFactory_create example_env (mk_SessionID ''FIX.4.2'' ''US'' ''THEM'' []) acceptor_settings example_factory) = Ok 0"
  by code_simp


text \<open>An EndDay without a StartDay is not reported: the search for the days ends at the missing StartDay. A StartDay that is
  no day is taken for none.\<close>

lemma end_day_alone_ignored:
  "\<not> dict_has START_DAY settings \<Longrightarrow> days_of START_DAY END_DAY settings (-1) (-1) = (-1, -1)"
  by (simp add: days_of_def dict_getDay_def dict_getString_def dict_has_def)

end
