(* ===== verification/DictionaryLoading.thy ===== *)
theory DictionaryLoading
  imports DataDictionaries FileStores
begin

text \<open>
  The part of DataDictionary.cpp that fills a dictionary from an XML document, over
  DOMDocument.h and PUGIXML_DOMDocument.cpp. The parser is third-party code: the loading
  functions take the parsed document, its top level nodes with names, attributes and
  children (a node that is not an element has the empty name), or a function that yields it.

  \<open>addXMLComponentFields\<close> and \<open>addXMLGroup\<close> write to \<open>*this\<close> and to a dictionary \<open>DD\<close> that is
  either \<open>*this\<close> or the dictionary of a group under construction. Their state is the pair of
  \<open>*this\<close> and the group dictionary, \<open>None\<close> when \<open>DD\<close> is \<open>*this\<close>. A component may refer to
  itself and then the code recurses without end, so the two functions take fuel, one unit for
  each nested call, and return \<open>None\<close> when it runs out. The texts of the errors are not kept.
\<close>

section \<open>Definitions\<close>

subsection \<open>The document\<close>

datatype dom_node = Node
  (getName: string)
  (getAttributes: "(string \<times> string) list")
  (dom_children: "dom_node list")

definition dom_get :: "dom_node \<Rightarrow> string \<Rightarrow> string option" where
  "dom_get node name = map_of (getAttributes node) name"

text \<open>The nodes an absolute path of child steps selects, in document order, and the first.\<close>

fun select_nodes :: "dom_node list \<Rightarrow> string list \<Rightarrow> dom_node list" where
  "select_nodes nodes [] = []"
| "select_nodes nodes [name] = filter (\<lambda>x. getName x = name) nodes"
| "select_nodes nodes (name # path) =
     concat (map (\<lambda>x. select_nodes (dom_children x) path) (filter (\<lambda>x. getName x = name) nodes))"

definition getNode :: "dom_node list \<Rightarrow> string list \<Rightarrow> dom_node option" where
  "getNode doc path = (case select_nodes doc path of [] \<Rightarrow> None | x # _ \<Rightarrow> Some x)"

text \<open>\<open>atoi\<close>: zero when there are no digits.\<close>

definition atoi :: "string \<Rightarrow> int" where
  "atoi s = (case scan_int s of None \<Rightarrow> 0 | Some (v, _) \<Rightarrow> v)"

definition is_required :: "dom_node \<Rightarrow> bool" where
  "is_required node = (dom_get node ''required'' = Some ''Y'' \<or> dom_get node ''required'' = Some ''y'')"

subsection \<open>Computations on the dictionaries under construction\<close>

type_synonym load_state = "DataDictionary \<times> DataDictionary option"
type_synonym 'a load = "load_state \<Rightarrow> ('a \<times> load_state) result option"

definition lret :: "'a \<Rightarrow> 'a load" where
  "lret a st = Some (Ok (a, st))"

definition lthrow :: "exn \<Rightarrow> 'a load" where
  "lthrow e st = Some (Throw e)"

definition lbind :: "'a load \<Rightarrow> ('a \<Rightarrow> 'b load) \<Rightarrow> 'b load" where
  "lbind m f st = (case m st of
     None \<Rightarrow> None
   | Some (Inl e) \<Rightarrow> Some (Inl e)
   | Some (Inr (a, st')) \<Rightarrow> f a st')"

definition lwhen :: "bool \<Rightarrow> unit load \<Rightarrow> unit load" where
  "lwhen b m = (if b then m else lret ())"

definition on_this :: "(DataDictionary \<Rightarrow> DataDictionary) \<Rightarrow> unit load" where
  "on_this f = (\<lambda>(t, g). Some (Ok ((), (f t, g))))"

definition on_DD :: "(DataDictionary \<Rightarrow> DataDictionary) \<Rightarrow> unit load" where
  "on_DD f = (\<lambda>(t, g). Some (Ok ((), case g of None \<Rightarrow> (f t, None) | Some d \<Rightarrow> (t, Some (f d)))))"

definition from_this :: "(DataDictionary \<Rightarrow> 'a result) \<Rightarrow> 'a load" where
  "from_this f = (\<lambda>(t, g). Some (rbind (f t) (\<lambda>a. Ok (a, (t, g)))))"

definition update_this :: "(DataDictionary \<Rightarrow> DataDictionary result) \<Rightarrow> unit load" where
  "update_this f = (\<lambda>(t, g). Some (rbind (f t) (\<lambda>t'. Ok ((), (t', g)))))"

definition attribute :: "dom_node \<Rightarrow> string \<Rightarrow> string load" where
  "attribute node name =
     (case dom_get node name of None \<Rightarrow> lthrow ConfigError | Some v \<Rightarrow> lret v)"

text \<open>A loop over sibling nodes with its local variables.\<close>

primrec for_nodes :: "(dom_node \<Rightarrow> 'a \<Rightarrow> 'a load) \<Rightarrow> dom_node list \<Rightarrow> 'a \<Rightarrow> 'a load" where
  "for_nodes f [] a = lret a"
| "for_nodes f (x # xs) a = lbind (f x a) (for_nodes f xs)"

subsection \<open>Components and groups\<close>

definition lookupXMLFieldNumber :: "string \<Rightarrow> DataDictionary \<Rightarrow> int result" where
  "lookupXMLFieldNumber name d =
     (case smap_find (m_names (dd d)) name of None \<Rightarrow> Throw ConfigError | Some n \<Rightarrow> Ok n)"

definition lookupXMLFieldNumber_node :: "dom_node \<Rightarrow> int load" where
  "lookupXMLFieldNumber_node node =
     lbind (attribute node ''name'') (\<lambda>name. from_this (lookupXMLFieldNumber name))"

type_synonym components = "(string \<times> dom_node) list"

definition try_emplace :: "string \<Rightarrow> dom_node \<Rightarrow> components \<Rightarrow> components" where
  "try_emplace name node cs = (case map_of cs name of None \<Rightarrow> cs @ [(name, node)] | Some _ \<Rightarrow> cs)"

definition index_component :: "dom_node \<Rightarrow> components \<Rightarrow> components" where
  "index_component pComponent cs =
     (if getName pComponent = ''component'' then
        (case dom_get pComponent ''name'' of None \<Rightarrow> cs | Some name \<Rightarrow> try_emplace name pComponent cs)
      else cs)"

definition indexComponents :: "dom_node \<Rightarrow> components" where
  "indexComponents pFixNode =
     fold (\<lambda>pSection. if getName pSection \<noteq> ''components'' then id
                      else fold index_component (dom_children pSection))
       (dom_children pFixNode) []"

text \<open>The body of the loop over the children of a component; \<open>addComponent\<close> and \<open>addGrp\<close> are the
  recursive calls.\<close>

definition component_child :: "(dom_node \<Rightarrow> bool \<Rightarrow> int load) \<Rightarrow> (dom_node \<Rightarrow> bool \<Rightarrow> unit load) \<Rightarrow>
    string \<Rightarrow> bool \<Rightarrow> dom_node \<Rightarrow> int \<Rightarrow> int load" where
  "component_child addComponent addGrp msgtype componentRequired node firstField =
     lbind (if getName node = ''field'' \<or> getName node = ''group'' then
              lbind (lookupXMLFieldNumber_node node) (\<lambda>field.
              lbind (lwhen (is_required node \<and> componentRequired)
                       (on_this (addRequiredField msgtype field))) (\<lambda>_.
              lbind (on_DD (dd_addField field)) (\<lambda>_.
              lbind (on_DD (addMsgField msgtype field)) (\<lambda>_.
              lret (if firstField = 0 then field else firstField)))))
            else lret firstField) (\<lambda>firstField.
     lbind (if getName node = ''component'' then lbind (addComponent node (is_required node)) (\<lambda>_. lret ())
            else lret ()) (\<lambda>_.
     lbind (lwhen (getName node = ''group'') (addGrp node (is_required node))) (\<lambda>_.
     lret firstField)))"

text \<open>The body of the loop over the children of a group, with its variables \<open>delim\<close> and \<open>field\<close>.\<close>

definition group_child :: "(dom_node \<Rightarrow> bool \<Rightarrow> int load) \<Rightarrow> (dom_node \<Rightarrow> bool \<Rightarrow> unit load) \<Rightarrow>
    string \<Rightarrow> bool \<Rightarrow> dom_node \<Rightarrow> int \<times> int \<Rightarrow> (int \<times> int) load" where
  "group_child addComponent addGrp msgtype groupRequired node v =
     lbind (if getName node = ''field'' then
              lbind (lookupXMLFieldNumber_node node) (\<lambda>field.
              lbind (on_DD (dd_addField field)) (\<lambda>_.
              lbind (lwhen (is_required node \<and> groupRequired)
                       (on_DD (addRequiredField msgtype field))) (\<lambda>_.
              lret field)))
            else if getName node = ''component'' then addComponent node False
            else if getName node = ''group'' then
              lbind (lookupXMLFieldNumber_node node) (\<lambda>field.
              lbind (on_DD (dd_addField field)) (\<lambda>_.
              lbind (lwhen (is_required node \<and> groupRequired)
                       (on_DD (addRequiredField msgtype field))) (\<lambda>_.
              lbind (addGrp node (is_required node)) (\<lambda>_.
              lret field))))
            else lret (snd v)) (\<lambda>field.
     lret (if fst v = 0 then field else fst v, field))"

text \<open>Runs a computation with a fresh group dictionary as \<open>DD\<close>; afterwards \<open>DD\<close> is again what it was.\<close>

definition with_groupDD :: "'a load \<Rightarrow> ('a \<times> DataDictionary) load" where
  "with_groupDD m = (\<lambda>(t, g).
     (case m (t, Some new_DataDictionary) of
        None \<Rightarrow> None
      | Some (Inl e) \<Rightarrow> Some (Inl e)
      | Some (Inr (a, (t', g'))) \<Rightarrow> Some (Inr ((a, the g'), (t', g)))))"

fun addXMLComponentFields :: "nat \<Rightarrow> components \<Rightarrow> string \<Rightarrow> dom_node \<Rightarrow> bool \<Rightarrow> int load"
and addXMLGroup :: "nat \<Rightarrow> components \<Rightarrow> string \<Rightarrow> dom_node \<Rightarrow> bool \<Rightarrow> unit load" where
  "addXMLComponentFields 0 components msgtype pNode componentRequired = (\<lambda>st. None)"
| "addXMLComponentFields (Suc fuel) components msgtype pNode componentRequired =
     lbind (attribute pNode ''name'') (\<lambda>name.
     case map_of components name of
       None \<Rightarrow> lthrow ConfigError
     | Some pComponentNode \<Rightarrow>
         for_nodes (component_child (addXMLComponentFields fuel components msgtype)
             (addXMLGroup fuel components msgtype) msgtype componentRequired)
           (dom_children pComponentNode) 0)"
| "addXMLGroup 0 components msgtype pNode groupRequired = (\<lambda>st. None)"
| "addXMLGroup (Suc fuel) components msgtype pNode groupRequired =
     lbind (lookupXMLFieldNumber_node pNode) (\<lambda>group.
     lbind (with_groupDD (for_nodes (group_child (addXMLComponentFields fuel components msgtype)
             (addXMLGroup fuel components msgtype) msgtype groupRequired)
           (dom_children pNode) (0, 0))) (\<lambda>((delim, field), groupDD).
     lwhen (delim \<noteq> 0) (on_DD (adoptGroup msgtype group delim groupDD))))"

subsection \<open>Types\<close>

definition type_names :: "(string \<times> Type') list" where
  "type_names =
    [(''STRING'', TString), (''CHAR'', TChar), (''PRICE'', TPrice), (''INT'', TInt), (''AMT'', TAmt),
     (''QTY'', TQty), (''CURRENCY'', TCurrency), (''MULTIPLEVALUESTRING'', TMultipleValueString),
     (''MULTIPLESTRINGVALUE'', TMultipleStringValue), (''MULTIPLECHARVALUE'', TMultipleCharValue),
     (''EXCHANGE'', TExchange), (''UTCTIMESTAMP'', TUtcTimeStamp), (''BOOLEAN'', TBoolean),
     (''LOCALMKTDATE'', TLocalMktDate), (''DATA'', TData), (''FLOAT'', TFloat),
     (''PRICEOFFSET'', TPriceOffset), (''MONTHYEAR'', TMonthYear), (''DAYOFMONTH'', TDayOfMonth),
     (''UTCDATE'', TUtcDate), (''UTCDATEONLY'', TUtcDate), (''UTCTIMEONLY'', TUtcTimeOnly),
     (''NUMINGROUP'', TNumInGroup), (''PERCENTAGE'', TPercentage), (''SEQNUM'', TSeqNum),
     (''LENGTH'', TLength), (''COUNTRY'', TCountry), (''TIME'', TUtcTimeStamp)]"

definition XMLTypeToType :: "string \<Rightarrow> DataDictionary \<Rightarrow> Type'" where
  "XMLTypeToType type d =
     (if m_beginString (dd d) < ''FIX.4.2'' \<and> type = ''CHAR'' then TString
      else case map_of type_names type of None \<Rightarrow> TUnknown | Some t \<Rightarrow> t)"

subsection \<open>Sections of the document\<close>

definition read_value :: "int \<Rightarrow> dom_node \<Rightarrow> unit \<Rightarrow> unit load" where
  "read_value num node u =
     lwhen (getName node = ''value'')
       (lbind (attribute node ''enum'') (\<lambda>enumeration.
        lbind (on_this (addFieldValue num enumeration)) (\<lambda>_.
        case dom_get node ''description'' of
          None \<Rightarrow> lret ()
        | Some description \<Rightarrow> on_this (addValueName num enumeration description))))"

definition read_field :: "dom_node \<Rightarrow> unit \<Rightarrow> unit load" where
  "read_field node u =
     lwhen (getName node = ''field'')
       (lbind (attribute node ''name'') (\<lambda>name.
        lbind (attribute node ''number'') (\<lambda>number.
        lbind (attribute node ''type'') (\<lambda>type.
        lbind (on_this (dd_addField (atoi number))) (\<lambda>_.
        lbind (on_this (\<lambda>d. addFieldType (atoi number) (XMLTypeToType type d) d)) (\<lambda>_.
        lbind (update_this (addFieldName (atoi number) name)) (\<lambda>_.
        for_nodes (read_value (atoi number)) (dom_children node) ())))))))"

text \<open>A child of the header or the trailer; \<open>add\<close> is \<open>addHeaderField\<close> or \<open>addTrailerField\<close>.\<close>

definition read_frame_field :: "nat \<Rightarrow> components \<Rightarrow> (int \<Rightarrow> bool \<Rightarrow> DataDictionary \<Rightarrow> DataDictionary) \<Rightarrow>
    string \<Rightarrow> dom_node \<Rightarrow> unit \<Rightarrow> unit load" where
  "read_frame_field fuel components add msgtype node u =
     lbind (lwhen (getName node = ''field'' \<or> getName node = ''group'')
       (lbind (lookupXMLFieldNumber_node node) (\<lambda>num. on_this (add num (is_required node))))) (\<lambda>_.
     lwhen (getName node = ''group'') (addXMLGroup fuel components msgtype node (is_required node)))"

definition read_message_field :: "nat \<Rightarrow> components \<Rightarrow> string \<Rightarrow> dom_node \<Rightarrow> unit \<Rightarrow> unit load" where
  "read_message_field fuel components msgtype node u =
     lbind (if getName node = ''field'' \<or> getName node = ''group'' then
              lbind (lookupXMLFieldNumber_node node) (\<lambda>num.
              lbind (on_this (addMsgField msgtype num)) (\<lambda>_.
              lwhen (is_required node) (on_this (addRequiredField msgtype num))))
            else if getName node = ''component'' then
              lbind (addXMLComponentFields fuel components msgtype node (is_required node)) (\<lambda>_. lret ())
            else lret ()) (\<lambda>_.
     lwhen (getName node = ''group'') (addXMLGroup fuel components msgtype node (is_required node)))"

definition read_message :: "nat \<Rightarrow> components \<Rightarrow> dom_node \<Rightarrow> unit \<Rightarrow> unit load" where
  "read_message fuel components node u =
     lwhen (getName node = ''message'')
       (lbind (attribute node ''msgtype'') (\<lambda>msgtype.
        lbind (on_this (addMsgType msgtype)) (\<lambda>_.
        lbind (case dom_get node ''name'' of
                 None \<Rightarrow> lret ()
               | Some name \<Rightarrow> on_this (addValueName 35 msgtype name)) (\<lambda>_.
        for_nodes (read_message_field fuel components msgtype) (dom_children node) ()))))"

text \<open>A section that must exist and have at least one child.\<close>

definition read_section :: "dom_node list \<Rightarrow> string \<Rightarrow> (dom_node \<Rightarrow> unit \<Rightarrow> unit load) \<Rightarrow> unit load" where
  "read_section doc name body =
     (case getNode doc [''fix'', name] of
        None \<Rightarrow> lthrow ConfigError
      | Some node \<Rightarrow>
          if dom_children node = [] then lthrow ConfigError
          else for_nodes body (dom_children node) ())"

text \<open>Filling the cached orders at the end of a load changes nothing that is modelled.\<close>

definition readFromDocument :: "nat \<Rightarrow> dom_node list \<Rightarrow> unit load" where
  "readFromDocument fuel doc =
     (case getNode doc [''fix''] of
        None \<Rightarrow> lthrow ConfigError
      | Some pFixNode \<Rightarrow>
          let type = (case dom_get pFixNode ''type'' of None \<Rightarrow> ''FIX'' | Some t \<Rightarrow> t) in
          if type \<noteq> ''FIX'' \<and> type \<noteq> ''FIXT'' then lthrow ConfigError else
          lbind (attribute pFixNode ''major'') (\<lambda>major.
          lbind (attribute pFixNode ''minor'') (\<lambda>minor.
          lbind (on_this (setVersion (type @ ''.'' @ major @ ''.'' @ minor))) (\<lambda>_.
          lbind (read_section doc ''fields'' read_field) (\<lambda>_.
          let components = indexComponents pFixNode;
              framed = (type = ''FIXT'' \<or> type = ''FIX'' \<and> major < ''5'') in
          lbind (lwhen framed (read_section doc ''header''
                   (read_frame_field fuel components addHeaderField ''_header_''))) (\<lambda>_.
          lbind (lwhen framed (read_section doc ''trailer''
                   (read_frame_field fuel components addTrailerField ''_trailer_''))) (\<lambda>_.
          read_section doc ''messages'' (read_message fuel components))))))))"

text \<open>\<open>loaded\<close> is the document a stream parses to, if it does. Reading from a URL differs from reading a
  stream in the texts of its errors only.\<close>

definition readFromStream :: "nat \<Rightarrow> dom_node list option \<Rightarrow> unit load" where
  "readFromStream fuel loaded =
     (case loaded of None \<Rightarrow> lthrow ConfigError | Some doc \<Rightarrow> readFromDocument fuel doc)"

definition readFromURL :: "nat \<Rightarrow> (string \<Rightarrow> dom_node list option) \<Rightarrow> string \<Rightarrow> unit load" where
  "readFromURL fuel load_file url =
     (case load_file url of None \<Rightarrow> lthrow ConfigError | Some doc \<Rightarrow> readFromDocument fuel doc)"

text \<open>The constructors.\<close>

definition DataDictionary_of :: "unit load \<Rightarrow> bool \<Rightarrow> DataDictionary result option" where
  "DataDictionary_of m preserveMsgFldsOrder =
     map_option (\<lambda>r. rbind r (\<lambda>(u, st). Ok (fst st)))
       (m (set_dd (\<lambda>d. d\<lparr>m_storeMsgFieldsOrder := preserveMsgFldsOrder\<rparr>) new_DataDictionary, None))"

definition DataDictionary_load :: "nat \<Rightarrow> dom_node list option \<Rightarrow> bool \<Rightarrow> DataDictionary result option" where
  "DataDictionary_load fuel loaded preserveMsgFldsOrder =
     DataDictionary_of (readFromStream fuel loaded) preserveMsgFldsOrder"

definition DataDictionary_load_url :: "nat \<Rightarrow> (string \<Rightarrow> dom_node list option) \<Rightarrow> string \<Rightarrow> bool \<Rightarrow> DataDictionary result option" where
  "DataDictionary_load_url fuel load_file url preserveMsgFldsOrder =
     DataDictionary_of (readFromURL fuel load_file url) preserveMsgFldsOrder"

lemma load_url_is_load [simp]:
  "DataDictionary_load_url fuel load_file url preserve = DataDictionary_load fuel (load_file url) preserve"
  by (simp add: DataDictionary_load_url_def DataDictionary_load_def readFromURL_def readFromStream_def)

end
