(* ===== verification/DictionaryFuel.thy ===== *)
theory DictionaryFuel
  imports DictionaryLoading
begin

text \<open>
  Loading a dictionary ends when its components refer to each other without a cycle, and
  more fuel then changes nothing. A component that refers to itself is read without end.
\<close>

section \<open>More fuel changes nothing\<close>

definition extends :: "'a load \<Rightarrow> 'a load \<Rightarrow> bool" where
  "extends m m' \<longleftrightarrow> (\<forall>st. m st \<noteq> None \<longrightarrow> m' st = m st)"

named_theorems extends_intro

lemma extends_refl [extends_intro]: "extends m m"
  by (simp add: extends_def)

lemma extends_bottom [extends_intro]: "extends (\<lambda>st. None) m"
  by (simp add: extends_def)

lemma extends_lbind [extends_intro]:
  "extends m m' \<Longrightarrow> (\<And>a. extends (f a) (f' a)) \<Longrightarrow> extends (lbind m f) (lbind m' f')"
  by (fastforce simp: extends_def lbind_def split: option.splits sum.splits)

lemma extends_lwhen [extends_intro]: "extends m m' \<Longrightarrow> extends (lwhen b m) (lwhen b m')"
  by (simp add: extends_def lwhen_def)

lemma extends_if [extends_intro]:
  "extends m m' \<Longrightarrow> extends n n' \<Longrightarrow> extends (if b then m else n) (if b then m' else n')"
  by simp

lemma extends_option [extends_intro]:
  "extends m m' \<Longrightarrow> (\<And>a. extends (f a) (f' a)) \<Longrightarrow>
   extends (case x of None \<Rightarrow> m | Some a \<Rightarrow> f a) (case x of None \<Rightarrow> m' | Some a \<Rightarrow> f' a)"
  by (cases x) auto

lemma extends_for_nodes [extends_intro]:
  "(\<And>x a. extends (f x a) (f' x a)) \<Longrightarrow> extends (for_nodes f xs a) (for_nodes f' xs a)"
  by (induction xs arbitrary: a) (simp_all add: extends_intro)

lemma extends_with_groupDD [extends_intro]: "extends m m' \<Longrightarrow> extends (with_groupDD m) (with_groupDD m')"
  by (auto simp: extends_def with_groupDD_def split: option.splits sum.splits prod.splits)

lemma extends_component_child [extends_intro]:
  "(\<And>x b. extends (c x b) (c' x b)) \<Longrightarrow> (\<And>x b. extends (g x b) (g' x b)) \<Longrightarrow>
   extends (component_child c g msgtype r x a) (component_child c' g' msgtype r x a)"
  unfolding component_child_def by (intro extends_intro)

lemma extends_group_child [extends_intro]:
  "(\<And>x b. extends (c x b) (c' x b)) \<Longrightarrow> (\<And>x b. extends (g x b) (g' x b)) \<Longrightarrow>
   extends (group_child c g msgtype r x a) (group_child c' g' msgtype r x a)"
  unfolding group_child_def by (intro extends_intro)

lemma extends_Suc:
  "extends (addXMLComponentFields n cs msgtype x b) (addXMLComponentFields (Suc n) cs msgtype x b)"
  "extends (addXMLGroup n cs msgtype x b) (addXMLGroup (Suc n) cs msgtype x b)"
proof (induction n arbitrary: x b)
  case (Suc n)
  case 1
  show ?case
    by (subst addXMLComponentFields.simps(2) [of n], subst addXMLComponentFields.simps(2) [of "Suc n"])
      (intro extends_intro Suc.IH)
  case 2
  show ?case
    by (subst addXMLGroup.simps(2) [of n], subst addXMLGroup.simps(2) [of "Suc n"])
      (rule extends_lbind, rule extends_refl, rule extends_lbind, intro extends_intro Suc.IH,
       simp add: case_prod_beta extends_refl)
qed (simp_all add: extends_bottom)

lemma extends_trans: "extends m m' \<Longrightarrow> extends m' m'' \<Longrightarrow> extends m m''"
  by (auto simp: extends_def)

lemma extends_le [extends_intro]:
  assumes "n \<le> k"
  shows "extends (addXMLComponentFields n cs msgtype x b) (addXMLComponentFields k cs msgtype x b)"
    and "extends (addXMLGroup n cs msgtype x b) (addXMLGroup k cs msgtype x b)"
  using assms by (induction k rule: dec_induct) (blast intro: extends_refl extends_trans extends_Suc)+

lemma extends_readFromDocument: "n \<le> k \<Longrightarrow> extends (readFromDocument n doc) (readFromDocument k doc)"
  unfolding readFromDocument_def read_section_def read_frame_field_def read_message_def read_message_field_def Let_def
  by (intro extends_intro)

section \<open>Enough fuel gives a result\<close>

definition ends :: "'a load \<Rightarrow> bool" where
  "ends m \<longleftrightarrow> (\<forall>st. m st \<noteq> None)"

named_theorems ends_intro

lemma ends_basic [ends_intro]:
  "ends (lret a)" "ends (lthrow e)" "ends (on_this f)" "ends (on_DD f)" "ends (from_this h)"
  "ends (update_this k)" "ends (attribute x s)"
  by (simp_all add: ends_def lret_def lthrow_def on_this_def on_DD_def from_this_def update_this_def
        attribute_def split: prod.splits option.splits)

lemma ends_lbind [ends_intro]: "ends m \<Longrightarrow> (\<And>a. ends (f a)) \<Longrightarrow> ends (lbind m f)"
  by (auto simp: ends_def lbind_def split: option.splits sum.splits)

lemma ends_lwhen [ends_intro]: "(b \<Longrightarrow> ends m) \<Longrightarrow> ends (lwhen b m)"
  by (simp add: lwhen_def ends_intro)

lemma ends_if [ends_intro]: "(b \<Longrightarrow> ends m) \<Longrightarrow> (\<not> b \<Longrightarrow> ends n) \<Longrightarrow> ends (if b then m else n)"
  by simp

lemma ends_option [ends_intro]:
  "(x = None \<Longrightarrow> ends m) \<Longrightarrow> (\<And>a. x = Some a \<Longrightarrow> ends (f a)) \<Longrightarrow> ends (case x of None \<Rightarrow> m | Some a \<Rightarrow> f a)"
  by (cases x) auto

lemma ends_for_nodes [ends_intro]: "(\<And>x a. x \<in> set xs \<Longrightarrow> ends (f x a)) \<Longrightarrow> ends (for_nodes f xs a)"
  by (induction xs arbitrary: a) (simp_all add: ends_intro)

lemma ends_with_groupDD [ends_intro]: "ends m \<Longrightarrow> ends (with_groupDD m)"
  by (auto simp: ends_def with_groupDD_def split: option.splits sum.splits prod.splits)

lemma ends_attribute_bind:
  "(\<And>v. dom_get x s = Some v \<Longrightarrow> ends (f v)) \<Longrightarrow> ends (lbind (attribute x s) f)"
  by (cases "dom_get x s") (auto simp: ends_def attribute_def lbind_def lret_def lthrow_def)

lemma ends_lookup_node [ends_intro]: "ends (lookupXMLFieldNumber_node x)"
  unfolding lookupXMLFieldNumber_node_def by (intro ends_intro)

text \<open>How deep a node is, and the components it refers to; below a group they count, below
  any other node they are not read.\<close>

fun height :: "dom_node \<Rightarrow> nat" where
  "height (Node n as ch) = Suc (foldr (\<lambda>x. max (height x)) ch 0)"

fun component_refs :: "dom_node \<Rightarrow> string list" where
  "component_refs (Node n as ch) =
     (if n = ''component'' then (case map_of as ''name'' of None \<Rightarrow> [] | Some c \<Rightarrow> [c])
      else if n = ''group'' then concat (map component_refs ch) else [])"

definition refs_below :: "components \<Rightarrow> (string \<Rightarrow> nat) \<Rightarrow> nat \<Rightarrow> dom_node \<Rightarrow> bool" where
  "refs_below cs rank r x =
     list_all (\<lambda>c. map_of cs c \<noteq> None \<longrightarrow> rank c < r) (component_refs x)"

text \<open>Components refer to components of a lower rank only, and their ranks are below a bound.\<close>

definition acyclic_components :: "components \<Rightarrow> (string \<Rightarrow> nat) \<Rightarrow> nat \<Rightarrow> bool" where
  "acyclic_components cs rank bound =
     list_all (\<lambda>(c, x). rank c < bound \<and> list_all (refs_below cs rank (rank c)) (dom_children x)) cs"

lemma height_child:
  assumes "x \<in> set (dom_children y)"
  shows "height x < height y"
proof -
  have "height x \<le> foldr (\<lambda>x. max (height x)) ch 0" if "x \<in> set ch" for ch
    using that by (induction ch) auto
  with assms show ?thesis by (cases y) (auto simp: less_Suc_eq_le)
qed

lemma refs_below_component:
  "refs_below cs rank r x \<Longrightarrow> getName x = ''component'' \<Longrightarrow> dom_get x ''name'' = Some c \<Longrightarrow>
   map_of cs c = Some y \<Longrightarrow> rank c < r"
  by (cases x) (simp add: refs_below_def dom_get_def)

lemma refs_below_group:
  "refs_below cs rank r x \<Longrightarrow> getName x = ''group'' \<Longrightarrow> y \<in> set (dom_children x) \<Longrightarrow> refs_below cs rank r y"
  by (cases x) (auto simp: refs_below_def list_all_iff)

lemma refs_below_mono: "refs_below cs rank r x \<Longrightarrow> r \<le> s \<Longrightarrow> refs_below cs rank s x"
  unfolding refs_below_def by (erule list.pred_mono_strong) force

lemma loading_ends:
  assumes acyclic: "acyclic_components cs rank bound"
    and heights: "\<forall>(c, x)\<in>set cs. height x \<le> h"
  shows "refs_below cs rank r x \<Longrightarrow> getName x = ''component'' \<Longrightarrow> r * Suc h < n \<Longrightarrow>
           ends (addXMLComponentFields n cs msgtype x b)"
    and "refs_below cs rank r x \<Longrightarrow> getName x = ''group'' \<Longrightarrow> r * Suc h + height x < n \<Longrightarrow>
           ends (addXMLGroup n cs msgtype x b)"
proof (induction n arbitrary: r x b)
  case (Suc n)
  {
    case 1
    note r = 1(1) and x = 1(2) and n = 1(3)
    have children: "ends (component_child (addXMLComponentFields n cs msgtype) (addXMLGroup n cs msgtype) msgtype b y a)"
      if c: "dom_get x ''name'' = Some c" "map_of cs c = Some z" and y: "y \<in> set (dom_children z)" for c z y a
    proof -
      have mem: "(c, z) \<in> set cs" using c(2) by (rule map_of_SomeD)
      with acyclic y have below: "refs_below cs rank (rank c) y"
        by (auto simp: acyclic_components_def list_all_iff)
      have "rank c < r" using refs_below_component [OF r x c] .
      then have le: "rank c * Suc h + Suc h \<le> r * Suc h"
        by (metis Suc_leI mult_le_mono1 mult_Suc add.commute)
      have "height y < Suc h" using height_child [OF y] heights mem by auto
      with le n have fuel: "rank c * Suc h < n" "rank c * Suc h + height y < n" by linarith+
      show ?thesis
        unfolding component_child_def by (intro ends_intro Suc.IH [OF below] fuel; assumption)
    qed
    show ?case unfolding addXMLComponentFields.simps
      by (rule ends_attribute_bind, rule ends_option, rule ends_basic, rule ends_for_nodes, rule children)
  next
    case 2
    note r = 2(1) and x = 2(2) and n = 2(3)
    have "ends (group_child (addXMLComponentFields n cs msgtype) (addXMLGroup n cs msgtype) msgtype b y a)"
      if y: "y \<in> set (dom_children x)" for y a
    proof -
      have fuel: "r * Suc h < n" "r * Suc h + height y < n" using height_child [OF y] n by linarith+
      show ?thesis
        unfolding group_child_def
        by (intro ends_intro Suc.IH [OF refs_below_group [OF r x y]] fuel; assumption)
    qed
    then show ?case unfolding addXMLGroup.simps
      by (intro ends_intro) (simp_all add: case_prod_beta ends_intro)
  }
qed simp_all


definition doc_height :: "dom_node list \<Rightarrow> nat" where
  "doc_height doc = foldr (\<lambda>x. max (height x)) doc 0"

lemma doc_height_ge: "x \<in> set doc \<Longrightarrow> height x \<le> doc_height doc"
  unfolding doc_height_def by (induction doc) auto

lemma select_nodes_height:
  "(\<And>z. z \<in> set nodes \<Longrightarrow> height z \<le> h) \<Longrightarrow> x \<in> set (select_nodes nodes path) \<Longrightarrow> height x \<le> h"
proof (induction nodes path arbitrary: x rule: select_nodes.induct)
  case (3 nodes name p ps)
  from "3.prems"(2) obtain y where y: "y \<in> set nodes" "getName y = name"
    and x: "x \<in> set (select_nodes (dom_children y) (p # ps))" by auto
  have "height z \<le> h" if "z \<in> set (dom_children y)" for z
    using height_child [OF that] "3.prems"(1) [OF y(1)] by linarith
  with "3.IH" [of y x] y x show ?case by auto
qed auto

lemma getNode_mem: "getNode doc path = Some x \<Longrightarrow> x \<in> set (select_nodes doc path)"
  by (auto simp: getNode_def split: list.splits)

lemma getNode_height: "getNode doc path = Some x \<Longrightarrow> height x \<le> doc_height doc"
  using select_nodes_height [OF doc_height_ge getNode_mem] by blast

lemma index_component_mem:
  "(c, x) \<in> set (fold index_component nodes cs) \<Longrightarrow>
   (c, x) \<in> set cs \<or> x \<in> set nodes \<and> getName x = ''component'' \<and> dom_get x ''name'' = Some c"
proof (induction nodes arbitrary: cs)
  case (Cons y nodes)
  from Cons.IH [of "index_component y cs"] Cons.prems show ?case
    by (auto simp: index_component_def try_emplace_def split: if_splits option.splits)
qed simp

lemma indexComponents_mem:
  assumes "(c, x) \<in> set (indexComponents pFix)"
  shows "\<exists>s\<in>set (dom_children pFix). getName s = ''components'' \<and> x \<in> set (dom_children s) \<and>
    getName x = ''component'' \<and> dom_get x ''name'' = Some c"
proof -
  let ?f = "\<lambda>s. if getName s \<noteq> ''components'' then id else fold index_component (dom_children s)"
  have "(c, x) \<in> set cs \<or> (\<exists>s\<in>set ss. getName s = ''components'' \<and> x \<in> set (dom_children s) \<and>
      getName x = ''component'' \<and> dom_get x ''name'' = Some c)"
    if "(c, x) \<in> set (fold ?f ss cs)" for ss cs
    using that
  proof (induction ss arbitrary: cs)
    case (Cons s ss)
    show ?case using Cons.IH [of "?f s cs"] Cons.prems index_component_mem [of c x "dom_children s" cs]
      by (cases "getName s = ''components''") auto
  qed simp
  from this [of "dom_children pFix" "[]"] assms show ?thesis by (simp add: indexComponents_def)
qed

lemma component_height:
  assumes "(c, x) \<in> set (indexComponents pFix)"
  shows "height x \<le> height pFix"
proof -
  from indexComponents_mem [OF assms] obtain s where "s \<in> set (dom_children pFix)" "x \<in> set (dom_children s)"
    by blast
  from height_child [OF this(1)] height_child [OF this(2)] show ?thesis by linarith
qed

lemma refs_below_bound: "acyclic_components cs rank bound \<Longrightarrow> refs_below cs rank bound x"
  by (auto simp: acyclic_components_def refs_below_def list_all_iff dest!: map_of_SomeD)

lemma ends_read_section [ends_intro]:
  assumes "\<And>x u. height x \<le> doc_height doc \<Longrightarrow> ends (body x u)"
  shows "ends (read_section doc name body)"
proof -
  have "ends (body x u)" if "getNode doc [''fix'', name] = Some y" "x \<in> set (dom_children y)" for x y u
    using height_child [OF that(2)] getNode_height [OF that(1)] by (intro assms) linarith
  then show ?thesis unfolding read_section_def by (intro ends_intro)
qed

lemma readFromDocument_ends:
  assumes fix_node: "getNode doc [''fix''] = Some pFix"
    and acyclic: "acyclic_components (indexComponents pFix) rank bound"
    and fuel: "Suc bound * Suc (doc_height doc) \<le> n"
  shows "ends (readFromDocument n doc)"
proof -
  let ?cs = "indexComponents pFix" and ?h = "doc_height doc"
  have heights: "\<forall>(c, x)\<in>set ?cs. height x \<le> ?h"
    using component_height getNode_height [OF fix_node] by fastforce
  note loading = loading_ends [OF acyclic heights refs_below_bound [OF acyclic]]
  have comp: "ends (addXMLComponentFields n ?cs m x b)" if "getName x = ''component''" for m x b
    using fuel by (intro loading that) simp
  have grp: "ends (addXMLGroup n ?cs m x b)" if "getName x = ''group''" "height x \<le> ?h" for m x b
    using fuel that(2) by (intro loading that) simp
  have field: "ends (read_message_field n ?cs m x u)" if "height x \<le> ?h" for m x u
    unfolding read_message_field_def using that by (intro ends_intro comp grp)
  have "ends (read_message n ?cs x u)" if "height x \<le> ?h" for x u
  proof -
    have "height y \<le> ?h" if "y \<in> set (dom_children x)" for y
      using height_child [OF that] \<open>height x \<le> ?h\<close> by linarith
    then show ?thesis unfolding read_message_def by (intro ends_intro field)
  qed
  moreover have "ends (read_frame_field n ?cs add m x u)" if "height x \<le> ?h" for add m x u
    unfolding read_frame_field_def using that by (intro ends_intro grp)
  moreover have "ends (read_field x u)" for x u
    unfolding read_field_def read_value_def by (intro ends_intro)
  ultimately show ?thesis
    unfolding readFromDocument_def Let_def fix_node option.case by (intro ends_intro)
qed

section \<open>A small dictionary\<close>

text \<open>A message with a component and in it a group.\<close>

definition sample_field :: "string \<Rightarrow> string \<Rightarrow> string \<Rightarrow> dom_node list \<Rightarrow> dom_node" where
  "sample_field name number type values = Node ''field'' [(''number'', number), (''name'', name), (''type'', type)] values"

definition sample_ref :: "string \<Rightarrow> string \<Rightarrow> string \<Rightarrow> dom_node list \<Rightarrow> dom_node" where
  "sample_ref kind name required children = Node kind [(''name'', name), (''required'', required)] children"

definition sample_doc :: "dom_node list" where
  "sample_doc =
    [Node ''fix'' [(''major'', ''5''), (''minor'', ''0'')]
      [Node ''messages'' []
         [Node ''message'' [(''msgtype'', ''D'')] [sample_ref ''component'' ''Parties'' ''N'' []]],
       Node ''components'' []
         [Node ''component'' [(''name'', ''Parties'')]
            [sample_ref ''group'' ''NoPartyIDs'' ''N'' [sample_ref ''field'' ''PartyID'' ''N'' []]]],
       Node ''fields'' []
         [sample_field ''NoPartyIDs'' ''453'' ''INT'' [],
          sample_field ''PartyID'' ''448'' ''CHAR'' [Node ''value'' [(''enum'', ''1'')] []]]]]"

text \<open>The same with a component that refers to itself.\<close>

definition self_ref_doc :: "dom_node list" where
  "self_ref_doc =
    [Node ''fix'' [(''major'', ''5''), (''minor'', ''0'')]
      [Node ''messages'' []
         [Node ''message'' [(''msgtype'', ''D'')] [sample_ref ''component'' ''Parties'' ''N'' []]],
       Node ''components'' []
         [Node ''component'' [(''name'', ''Parties'')] [sample_ref ''component'' ''Parties'' ''N'' []]],
       Node ''fields'' [] [sample_field ''Side'' ''54'' ''CHAR'' []]]]"

section \<open>Properties\<close>

text \<open>C23: loading a dictionary ends when the components of its document refer to each other
  without a cycle (each to components of a lower rank): fuel for every rank times the
  depth of the document gives a result, a dictionary or an error, and more fuel the same.\<close>

theorem dictionary_load_terminates:
  assumes "getNode doc [''fix''] = Some pFix"
    and "acyclic_components (indexComponents pFix) rank bound"
    and "Suc bound * Suc (doc_height doc) \<le> n"
  shows "\<exists>r. \<forall>j. DataDictionary_load (n + j) (Some doc) preserve = Some r"
proof -
  let ?st = "(set_dd (\<lambda>d. d\<lparr>m_storeMsgFieldsOrder := preserve\<rparr>) new_DataDictionary, None)"
  from readFromDocument_ends [OF assms] obtain q where q: "readFromDocument n doc ?st = Some q"
    by (auto simp: ends_def)
  have "readFromDocument (n + j) doc ?st = Some q" for j
    using extends_readFromDocument [of n "n + j" doc] q by (simp add: extends_def)
  then show ?thesis by (simp add: DataDictionary_load_def DataDictionary_of_def readFromStream_def)
qed

theorem dictionary_load_terminates_witness:
  "\<exists>r. \<forall>j. DataDictionary_load (14 + j) (Some sample_doc) False = Some r"
proof (rule dictionary_load_terminates [of sample_doc "hd sample_doc" "\<lambda>_. 0" 1])
  show "getNode sample_doc [''fix''] = Some (hd sample_doc)" by code_simp
  show "acyclic_components (indexComponents (hd sample_doc)) (\<lambda>_. 0) 1" by code_simp
  show "Suc 1 * Suc (doc_height sample_doc) \<le> 14" by code_simp
qed

lemma self_ref_component:
  assumes "map_of cs c = Some y" "dom_children y = [x]" "getName x = ''component''" "dom_get x ''name'' = Some c"
  shows "addXMLComponentFields n cs m x b st = None"
proof (induction n arbitrary: b st)
  case (Suc n)
  with assms show ?case by (simp add: attribute_def component_child_def lbind_def lret_def)
qed simp

text \<open>Reading a message with a component that refers to itself never ends.\<close>

theorem self_reference_never_ends: "DataDictionary_load n (Some self_ref_doc) preserve = None"
proof -
  let ?x = "sample_ref ''component'' ''Parties'' ''N'' []"
  let ?y = "Node ''component'' [(''name'', ''Parties'')] [?x]"
  have never: "addXMLComponentFields n [(''Parties'', ?y)] m ?x b st = None" for m b st
    by (rule self_ref_component [of _ "''Parties''" ?y]) (simp_all add: sample_ref_def dom_get_def)
  have x: "getName ?x = ''component''" by (simp add: sample_ref_def)
  have message: "read_message n [(''Parties'', ?y)] (Node ''message'' [(''msgtype'', ''D'')] [?x]) () st = None" for st
    by (cases st) (simp add: read_message_def read_message_field_def attribute_def dom_get_def lwhen_def lbind_def lret_def
        on_this_def x never)
  have nodes: "getNode self_ref_doc [''fix''] = Some (hd self_ref_doc)"
    "getNode self_ref_doc [''fix'', ''messages''] =
       Some (Node ''messages'' [] [Node ''message'' [(''msgtype'', ''D'')] [?x]])"
    "getNode self_ref_doc [''fix'', ''fields''] = Some (Node ''fields'' [] [sample_field ''Side'' ''54'' ''CHAR'' []])"
    "indexComponents (hd self_ref_doc) = [(''Parties'', ?y)]"
    "dom_get (hd self_ref_doc) ''type'' = None" "dom_get (hd self_ref_doc) ''major'' = Some ''5''"
    "dom_get (hd self_ref_doc) ''minor'' = Some ''0''"
    by (code_simp, code_simp, code_simp, code_simp, code_simp, code_simp, code_simp)
  have field: "read_field (sample_field ''Side'' ''54'' ''CHAR'' []) () (t, None) =
      Some (rbind (addFieldName 54 ''Side'' (addFieldType 54 (XMLTypeToType ''CHAR'' (dd_addField 54 t)) (dd_addField 54 t)))
        (\<lambda>t. Ok ((), (t, None))))" for t
  proof -
    have "atoi ''54'' = 54" by code_simp
    then show ?thesis
      by (simp add: read_field_def sample_field_def attribute_def dom_get_def lwhen_def lbind_def lret_def on_this_def
          update_this_def split: sum.splits)
  qed
  let ?t = "setVersion ''FIX.5.0'' (set_dd (\<lambda>d. d\<lparr>m_storeMsgFieldsOrder := preserve\<rparr>) new_DataDictionary)"
  have "m_names (dd (addFieldType 54 type (dd_addField 54 ?t))) = []" for type
    by (simp add: addFieldType_def dd_addField_def setVersion_def set_dd_def Let_def new_DataDictionary_def)
  then have "\<exists>t. read_field (sample_field ''Side'' ''54'' ''CHAR'' []) () (?t, None) = Some (Ok ((), (t, None)))"
    by (simp add: field addFieldName_def)
  then show ?thesis
    by (auto simp: DataDictionary_load_def DataDictionary_of_def readFromStream_def readFromDocument_def read_section_def nodes attribute_def lbind_def lret_def
        lwhen_def on_this_def message Let_def)
qed

end
