(* ===== verification/DictionaryContents.thy ===== *)
theory DictionaryContents
  imports DictionaryFuel
begin

text \<open>
  What a loaded dictionary says: exactly what the document says. The document is read as a
  set of facts: a node of a message, component or group names fields, directly or
  through the components it refers to. A computation adds facts to \<open>*this\<close> and to the
  dictionary of a group under construction (\<open>adds\<close>); a section of the document fills \<open>*this\<close> (\<open>fills\<close>).
\<close>

section \<open>What a document says\<close>

text \<open>The number of the field a node names, \<open>N\<close> being the declared names.\<close>

definition node_number :: "(string \<rightharpoonup> int) \<Rightarrow> dom_node \<Rightarrow> int option" where
  "node_number N x = Option.bind (dom_get x ''name'') N"

definition names_field :: "dom_node \<Rightarrow> bool" where
  "names_field x = (getName x = ''field'' \<or> getName x = ''group'')"

text \<open>The component a node refers to, \<open>C\<close> being the components.\<close>

definition refers_to :: "(string \<rightharpoonup> dom_node) \<Rightarrow> dom_node \<Rightarrow> dom_node option" where
  "refers_to C x = (if getName x = ''component'' then Option.bind (dom_get x ''name'') C else None)"

text \<open>The fields and the groups a node stands for, directly or through components.\<close>

inductive says_field :: "(string \<rightharpoonup> int) \<Rightarrow> (string \<rightharpoonup> dom_node) \<Rightarrow> dom_node \<Rightarrow> int \<Rightarrow> bool" for N C where
  direct: "names_field x \<Longrightarrow> node_number N x = Some k \<Longrightarrow> says_field N C x k"
| through: "refers_to C x = Some c \<Longrightarrow> y \<in> set (dom_children c) \<Longrightarrow> says_field N C y k \<Longrightarrow> says_field N C x k"

inductive says_group :: "(string \<rightharpoonup> dom_node) \<Rightarrow> dom_node \<Rightarrow> dom_node \<Rightarrow> bool" for C where
  direct: "getName x = ''group'' \<Longrightarrow> says_group C x x"
| through: "refers_to C x = Some c \<Longrightarrow> y \<in> set (dom_children c) \<Longrightarrow> says_group C y z \<Longrightarrow> says_group C x z"

text \<open>The fields a node makes required for the whole message: a field only if it and the component
  it stands in are required. A component in a group is read as not required, but a required
  component inside that one is not.\<close>

inductive requires :: "(string \<rightharpoonup> int) \<Rightarrow> (string \<rightharpoonup> dom_node) \<Rightarrow> bool \<Rightarrow> dom_node \<Rightarrow> int \<Rightarrow> bool"
and group_requires :: "(string \<rightharpoonup> int) \<Rightarrow> (string \<rightharpoonup> dom_node) \<Rightarrow> dom_node \<Rightarrow> int \<Rightarrow> bool" for N C where
  requires_direct: "names_field x \<Longrightarrow> node_number N x = Some k \<Longrightarrow> is_required x \<Longrightarrow> requires N C True x k"
| requires_component: "refers_to C x = Some c \<Longrightarrow> y \<in> set (dom_children c) \<Longrightarrow>
    requires N C (is_required x) y k \<Longrightarrow> requires N C b x k"
| requires_group: "getName x = ''group'' \<Longrightarrow> y \<in> set (dom_children x) \<Longrightarrow> group_requires N C y k \<Longrightarrow>
    requires N C b x k"
| group_requires_component: "refers_to C x = Some c \<Longrightarrow> y \<in> set (dom_children c) \<Longrightarrow>
    requires N C False y k \<Longrightarrow> group_requires N C x k"
| group_requires_group: "getName x = ''group'' \<Longrightarrow> y \<in> set (dom_children x) \<Longrightarrow> group_requires N C y k \<Longrightarrow>
    group_requires N C x k"

text \<open>The delimiter of a group: the first number that is not zero, where a component
  contributes the first one of its own children.\<close>

definition first_nonzero :: "int list \<Rightarrow> int" where
  "first_nonzero ks = (case find (\<lambda>k. k \<noteq> 0) ks of None \<Rightarrow> 0 | Some k \<Rightarrow> k)"

definition own_number :: "(string \<rightharpoonup> int) \<Rightarrow> dom_node \<Rightarrow> int" where
  "own_number N x = (if names_field x then case node_number N x of None \<Rightarrow> 0 | Some k \<Rightarrow> k else 0)"

definition first_number :: "(string \<rightharpoonup> int) \<Rightarrow> (string \<rightharpoonup> dom_node) \<Rightarrow> dom_node \<Rightarrow> int" where
  "first_number N C x = (case refers_to C x of
     None \<Rightarrow> own_number N x
   | Some c \<Rightarrow> first_nonzero (map (own_number N) (dom_children c)))"

definition delimiter :: "(string \<rightharpoonup> int) \<Rightarrow> (string \<rightharpoonup> dom_node) \<Rightarrow> dom_node \<Rightarrow> int" where
  "delimiter N C x = first_nonzero (map (first_number N C) (dom_children x))"

section \<open>What a dictionary says\<close>

datatype fact =
    IsField int
  | IsMsgType string
  | IsMsgField string int
  | IsRequired string int
  | IsHeader int
  | IsTrailer int
  | HasValue int string

fun holds :: "DataDictionary \<Rightarrow> fact \<Rightarrow> bool" where
  "holds d (IsField k) = isField d k"
| "holds d (IsMsgType m) = isMsgType d m"
| "holds d (IsMsgField m k) = isMsgField d m k"
| "holds d (IsRequired m k) = isRequiredField d m k"
| "holds d (IsHeader k) = dd_isHeaderField d k"
| "holds d (IsTrailer k) = dd_isTrailerField d k"
| "holds d (HasValue k v) = (v \<in> set (at_or_empty (m_fieldValues (dd d)) k))"

definition facts :: "DataDictionary \<Rightarrow> fact set" where
  "facts d = {f. holds d f}"

definition dictionary_ok :: "DataDictionary \<Rightarrow> bool" where
  "dictionary_ok d \<longleftrightarrow> smap_ok (m_messageFields (dd d)) \<and> smap_ok (m_requiredFields (dd d)) \<and>
     smap_ok (m_headerFields (dd d)) \<and> smap_ok (m_trailerFields (dd d)) \<and> smap_ok (m_fieldValues (dd d)) \<and>
     smap_ok (m_names (dd d)) \<and> smap_ok (m_fieldTypes (dd d)) \<and> smap_ok (dd_groups d) \<and>
     (\<forall>k p. smap_find (dd_groups d) k = Some p \<longrightarrow> smap_ok p)"

lemmas dictionary_op_defs = set_dd_def dd_addField_def addMsgField_def addRequiredField_def addMsgType_def
  addHeaderField_def addTrailerField_def addFieldValue_def addFieldType_def addValueName_def setVersion_def Let_def

lemmas dictionary_query_defs = isField_def isMsgType_def isMsgField_def isRequiredField_def
  dd_isHeaderField_def dd_isTrailerField_def at_or_empty_def

lemma facts_eqI: "(\<And>f. holds d f \<longleftrightarrow> f \<in> F) \<Longrightarrow> facts d = F"
  by (auto simp: facts_def)

lemma in_facts [simp]: "f \<in> facts d \<longleftrightarrow> holds d f"
  by (simp add: facts_def)

lemma facts_ops [simp]:
  "facts (dd_addField k d) = insert (IsField k) (facts d)"
  "facts (addMsgType m d) = insert (IsMsgType m) (facts d)"
  "dictionary_ok d \<Longrightarrow> facts (addMsgField m k d) = insert (IsMsgField m k) (facts d)"
  "dictionary_ok d \<Longrightarrow> facts (addRequiredField m k d) = insert (IsRequired m k) (facts d)"
  "dictionary_ok d \<Longrightarrow> facts (addHeaderField k b d) = insert (IsHeader k) (facts d)"
  "dictionary_ok d \<Longrightarrow> facts (addTrailerField k b d) = insert (IsTrailer k) (facts d)"
  "dictionary_ok d \<Longrightarrow> facts (addFieldValue k v d) = insert (HasValue k v) (facts d)"
  "facts (addFieldType k t d) = facts d"
  "facts (addValueName k v n d) = facts d"
  "facts (setVersion v d) = facts d"
  by (rule facts_eqI, case_tac f;
      auto simp: dictionary_op_defs dictionary_query_defs dictionary_ok_def set_insort_insert split: option.splits)+

lemma groups_ops [simp]:
  "dd_groups (dd_addField k d) = dd_groups d"
  "dd_groups (addMsgType m d) = dd_groups d"
  "dd_groups (addMsgField m k d) = dd_groups d"
  "dd_groups (addRequiredField m k d) = dd_groups d"
  "dd_groups (addHeaderField k b d) = dd_groups d"
  "dd_groups (addTrailerField k b d) = dd_groups d"
  "dd_groups (addFieldValue k v d) = dd_groups d"
  "dd_groups (addFieldType k t d) = dd_groups d"
  "dd_groups (addValueName k v n d) = dd_groups d"
  "dd_groups (setVersion v d) = dd_groups d"
  by (simp_all add: dictionary_op_defs)

lemma names_ops [simp]:
  "m_names (dd (dd_addField k d)) = m_names (dd d)"
  "m_names (dd (addMsgType m d)) = m_names (dd d)"
  "m_names (dd (addMsgField m k d)) = m_names (dd d)"
  "m_names (dd (addRequiredField m k d)) = m_names (dd d)"
  "m_names (dd (addHeaderField k b d)) = m_names (dd d)"
  "m_names (dd (addTrailerField k b d)) = m_names (dd d)"
  "m_names (dd (addFieldValue k v d)) = m_names (dd d)"
  "m_names (dd (addFieldType k t d)) = m_names (dd d)"
  "m_names (dd (addValueName k v n d)) = m_names (dd d)"
  "m_names (dd (setVersion v d)) = m_names (dd d)"
  by (simp_all add: dictionary_op_defs)

lemma types_ops [simp]:
  "getFieldType (dd_addField k d) = getFieldType d"
  "getFieldType (addMsgType m d) = getFieldType d"
  "getFieldType (addMsgField m k d) = getFieldType d"
  "getFieldType (addRequiredField m k d) = getFieldType d"
  "getFieldType (addHeaderField k b d) = getFieldType d"
  "getFieldType (addTrailerField k b d) = getFieldType d"
  "getFieldType (addFieldValue k v d) = getFieldType d"
  "getFieldType (addValueName k v n d) = getFieldType d"
  "getFieldType (setVersion v d) = getFieldType d"
  by (simp_all add: dictionary_op_defs getFieldType_def fun_eq_iff)

lemma getVersion_ops [simp]:
  "getVersion (dd_addField k d) = getVersion d"
  "getVersion (addMsgType m d) = getVersion d"
  "getVersion (addMsgField m k d) = getVersion d"
  "getVersion (addRequiredField m k d) = getVersion d"
  "getVersion (addHeaderField k b d) = getVersion d"
  "getVersion (addTrailerField k b d) = getVersion d"
  "getVersion (addFieldValue k v d) = getVersion d"
  "getVersion (addFieldType k t d) = getVersion d"
  "getVersion (addValueName k v n d) = getVersion d"
  "getVersion (setVersion v d) = v"
  by (simp_all add: dictionary_op_defs getVersion_def)

lemma dictionary_ok_ops [simp]:
  assumes "dictionary_ok d"
  shows "dictionary_ok (dd_addField k d)" "dictionary_ok (addMsgType m d)"
    "dictionary_ok (addMsgField m k d)" "dictionary_ok (addRequiredField m k d)"
    "dictionary_ok (addHeaderField k b d)" "dictionary_ok (addTrailerField k b d)"
    "dictionary_ok (addFieldValue k v d)" "dictionary_ok (addFieldType k t d)"
    "dictionary_ok (addValueName k v n d)" "dictionary_ok (setVersion v d)"
  using assms by (simp_all add: dictionary_ok_def dictionary_op_defs)

lemma getGroup_cong:
  "dd_groups d' = dd_groups d \<Longrightarrow> getGroup d' m k = getGroup d m k"
  "dd_groups d' = dd_groups d \<Longrightarrow> isGroup d' m k = isGroup d m k"
  by (simp_all add: getGroup_def isGroup_def)

lemma getGroup_setVersion [simp]:
  "getGroup (setVersion v d) m k = getGroup d m k" "isGroup (setVersion v d) m k = isGroup d m k"
  by (rule getGroup_cong, simp)+

lemma isGroup_getGroup: "isGroup d m k \<longleftrightarrow> getGroup d m k \<noteq> None"
  by (simp add: isGroup_def getGroup_def split: option.splits)

lemma adoptGroup_simps [simp]:
  "dd (adoptGroup m k e g d) = dd d" "getFieldType (adoptGroup m k e g d) = getFieldType d"
  "getVersion (adoptGroup m k e g d) = getVersion d"
  "facts (adoptGroup m k e g d) = facts d"
  by (auto simp: getFieldType_def getVersion_def adoptGroup_def Let_def intro!: facts_eqI)
    (case_tac f; simp add: dictionary_query_defs)+

lemma adoptGroup_groups:
  assumes "dictionary_ok d"
  shows "getGroup (adoptGroup m k e g d) m' k' =
      (if m' = m \<and> k' = k then Some (e, setVersion (getVersion d) g) else getGroup d m' k')"
    and "dictionary_ok (adoptGroup m k e g d)"
  using assms by (auto simp: getGroup_def adoptGroup_def Let_def dictionary_ok_def split: option.splits)

text \<open>The dictionary of a group: its delimiter, what it says, and for each of its own groups a dictionary
  of a group node below it.\<close>

definition group_nodes :: "(string \<rightharpoonup> dom_node) \<Rightarrow> dom_node \<Rightarrow> dom_node set" where
  "group_nodes C x = {z. \<exists>y\<in>set (dom_children x). says_group C y z}"

definition group_facts :: "(string \<rightharpoonup> int) \<Rightarrow> (string \<rightharpoonup> dom_node) \<Rightarrow> string \<Rightarrow> dom_node \<Rightarrow> fact set" where
  "group_facts N C m x =
     {IsField k |k. \<exists>y\<in>set (dom_children x). says_field N C y k} \<union>
     {IsMsgField m k |k. \<exists>y\<in>set (dom_children x). getName y = ''component'' \<and> says_field N C y k} \<union>
     {IsRequired m k |k. \<exists>y\<in>set (dom_children x). is_required x \<and> names_field y \<and> is_required y \<and> node_number N y = Some k}"

inductive group_dictionary :: "(string \<rightharpoonup> int) \<Rightarrow> (string \<rightharpoonup> dom_node) \<Rightarrow> string \<Rightarrow> dom_node \<Rightarrow> int \<Rightarrow> DataDictionary \<Rightarrow> bool"
  for N C m where
  "e = delimiter N C x \<Longrightarrow> facts g = group_facts N C m x \<Longrightarrow>
   (\<forall>m' k. isGroup g m' k \<longleftrightarrow> m' = m \<and> (\<exists>z\<in>group_nodes C x. node_number N z = Some k \<and> delimiter N C z \<noteq> 0)) \<Longrightarrow>
   (\<forall>k e' g'. getGroup g m k = Some (e', g') \<longrightarrow>
      (\<exists>z\<in>group_nodes C x. node_number N z = Some k \<and> group_dictionary N C m z e' g')) \<Longrightarrow>
   group_dictionary N C m x e g"

lemma group_dictionary_setVersion:
  "group_dictionary N C m x e g \<Longrightarrow> group_dictionary N C m x e (setVersion v g)"
  by (erule group_dictionary.cases, rule group_dictionary.intros) simp_all

section \<open>What a computation adds\<close>

definition grows :: "(string \<rightharpoonup> int) \<Rightarrow> (string \<rightharpoonup> dom_node) \<Rightarrow> fact set \<Rightarrow> (string \<times> dom_node) set \<Rightarrow>
    DataDictionary \<Rightarrow> DataDictionary \<Rightarrow> bool" where
  "grows N C F G d d' \<longleftrightarrow> dictionary_ok d' \<and> m_names (dd d') = m_names (dd d) \<and>
     getFieldType d' = getFieldType d \<and> getVersion d' = getVersion d \<and> facts d' = facts d \<union> F \<and>
     (\<forall>m k. isGroup d' m k \<longleftrightarrow> isGroup d m k \<or>
        (\<exists>z. (m, z) \<in> G \<and> node_number N z = Some k \<and> delimiter N C z \<noteq> 0)) \<and>
     (\<forall>m k e g. getGroup d' m k = Some (e, g) \<longrightarrow> getGroup d m k = Some (e, g) \<or>
        (\<exists>z. (m, z) \<in> G \<and> node_number N z = Some k \<and> group_dictionary N C m z e g))"

lemma grows_getGroup:
  assumes "grows N C F G d d'" "getGroup d' m k = Some (e, g)"
  shows "getGroup d m k = Some (e, g) \<or> (\<exists>z. (m, z) \<in> G \<and> node_number N z = Some k \<and> group_dictionary N C m z e g)"
proof -
  from assms(1) have "\<forall>m k e g. getGroup d' m k = Some (e, g) \<longrightarrow> getGroup d m k = Some (e, g) \<or>
      (\<exists>z. (m, z) \<in> G \<and> node_number N z = Some k \<and> group_dictionary N C m z e g)"
    unfolding grows_def by (elim conjE)
  from this [rule_format, OF assms(2)] show ?thesis .
qed

lemma grows_refl: "dictionary_ok d \<Longrightarrow> grows N C {} {} d d"
  by (simp add: grows_def)

lemma growsD:
  assumes "grows N C F G d d'"
  shows "dictionary_ok d'" "m_names (dd d') = m_names (dd d)" "getFieldType d' = getFieldType d"
    "getVersion d' = getVersion d" "facts d' = facts d \<union> F"
    "isGroup d' m k \<longleftrightarrow> isGroup d m k \<or> (\<exists>z. (m, z) \<in> G \<and> node_number N z = Some k \<and> delimiter N C z \<noteq> 0)"
  using assms unfolding grows_def by simp_all

lemma grows_trans:
  assumes "grows N C F G d d'" "grows N C F' G' d' d''"
  shows "grows N C (F \<union> F') (G \<union> G') d d''"
  unfolding grows_def
proof (intro conjI allI impI)
  show "isGroup d'' m k \<longleftrightarrow> isGroup d m k \<or>
      (\<exists>z. (m, z) \<in> G \<union> G' \<and> node_number N z = Some k \<and> delimiter N C z \<noteq> 0)" for m k
    using growsD(6) [OF assms(1)] growsD(6) [OF assms(2)] by blast
  show "getGroup d m k = Some (e, g) \<or>
      (\<exists>z. (m, z) \<in> G \<union> G' \<and> node_number N z = Some k \<and> group_dictionary N C m z e g)"
    if "getGroup d'' m k = Some (e, g)" for m k e g
    using grows_getGroup [OF assms(2) that] grows_getGroup [OF assms(1)] by blast
qed (use growsD [OF assms(1)] growsD [OF assms(2)] in auto)

lemma growsI:
  "dictionary_ok d' \<Longrightarrow> m_names (dd d') = m_names (dd d) \<Longrightarrow> getFieldType d' = getFieldType d \<Longrightarrow> getVersion d' = getVersion d \<Longrightarrow> dd_groups d' = dd_groups d \<Longrightarrow> facts d' = facts d \<union> F \<Longrightarrow>
   grows N C F {} d d'"
  using getGroup_cong [of d' d] by (simp add: grows_def)

text \<open>A computation that ends well returns a value with \<open>P\<close>, adds \<open>T\<close> to \<open>*this\<close>, and \<open>D\<close> and the groups \<open>G\<close> to \<open>DD\<close>.\<close>

definition adds :: "(string \<rightharpoonup> int) \<Rightarrow> (string \<rightharpoonup> dom_node) \<Rightarrow> 'a load \<Rightarrow> ('a \<Rightarrow> bool) \<Rightarrow> fact set \<Rightarrow> fact set \<Rightarrow>
    (string \<times> dom_node) set \<Rightarrow> bool" where
  "adds N C m P T D G \<longleftrightarrow> (\<forall>t g a st'. m (t, g) = Some (Ok (a, st')) \<longrightarrow>
     dictionary_ok t \<longrightarrow> smap_find (m_names (dd t)) = N \<longrightarrow> pred_option dictionary_ok g \<longrightarrow>
     P a \<and> (case g of
       None \<Rightarrow> \<exists>t'. st' = (t', None) \<and> grows N C (T \<union> D) G t t'
     | Some d \<Rightarrow> \<exists>t' d'. st' = (t', Some d') \<and> grows N C T {} t t' \<and> grows N C D G d d'))"

lemma adds_conseq:
  "adds N C m Q T D G \<Longrightarrow> (\<And>a. Q a \<Longrightarrow> P a) \<Longrightarrow> T = T' \<Longrightarrow> D = D' \<Longrightarrow> G = G' \<Longrightarrow> adds N C m P T' D' G'"
  unfolding adds_def by blast

lemma adds_lret: "P a \<Longrightarrow> adds N C (lret a) P {} {} {}"
  by (auto simp: adds_def lret_def grows_refl split: option.splits)

lemma adds_lthrow: "adds N C (lthrow e) P T D G"
  by (simp add: adds_def lthrow_def)

lemma adds_bottom: "adds N C (\<lambda>st. None) P T D G"
  by (simp add: adds_def)

lemma adds_lbind:
  assumes m: "adds N C m Q T D G" and f: "\<And>a. Q a \<Longrightarrow> adds N C (f a) P T' D' G'"
  shows "adds N C (lbind m f) P (T \<union> T') (D \<union> D') (G \<union> G')"
proof -
  have "P b \<and> (case g of
       None \<Rightarrow> \<exists>t'. st' = (t', None) \<and> grows N C ((T \<union> T') \<union> (D \<union> D')) (G \<union> G') t t'
     | Some d \<Rightarrow> \<exists>t' d'. st' = (t', Some d') \<and> grows N C (T \<union> T') {} t t' \<and> grows N C (D \<union> D') (G \<union> G') d d')"
    if run: "lbind m f (t, g) = Some (Ok (b, st'))" and ok: "dictionary_ok t" "smap_find (m_names (dd t)) = N" "pred_option dictionary_ok g"
    for t g b st'
  proof -
    from run obtain a s where a: "m (t, g) = Some (Ok (a, s))" and b: "f a s = Some (Ok (b, st'))"
      by (auto simp: lbind_def split: option.splits sum.splits)
    obtain t1 g1 where s: "s = (t1, g1)" by (cases s)
    have Q: "Q a" and step: "case g of
        None \<Rightarrow> \<exists>t'. s = (t', None) \<and> grows N C (T \<union> D) G t t'
      | Some d \<Rightarrow> \<exists>t' d'. s = (t', Some d') \<and> grows N C T {} t t' \<and> grows N C D G d d'"
      using m [unfolded adds_def, rule_format, OF a ok] by auto
    from step s have ok1: "dictionary_ok t1" "smap_find (m_names (dd t1)) = N" "pred_option dictionary_ok g1"
      using ok by (auto simp: grows_def split: option.splits)
    have "P b" and step': "case g1 of
        None \<Rightarrow> \<exists>t'. st' = (t', None) \<and> grows N C (T' \<union> D') G' t1 t'
      | Some d \<Rightarrow> \<exists>t' d'. st' = (t', Some d') \<and> grows N C T' {} t1 t' \<and> grows N C D' G' d d'"
      using f [OF Q, unfolded adds_def, rule_format, OF b [unfolded s] ok1] by auto
    show ?thesis
    proof (cases g)
      case None
      with step s have "g1 = None" "grows N C (T \<union> D) G t t1" by auto
      with step' None \<open>P b\<close> show ?thesis using grows_trans by (fastforce simp: Un_ac)
    next
      case (Some d)
      with step s obtain d1 where "g1 = Some d1" "grows N C T {} t t1" "grows N C D G d d1" by auto
      with step' Some \<open>P b\<close> show ?thesis using grows_trans [of N C T "{}"] grows_trans [of N C D G] by fastforce
    qed
  qed
  then show ?thesis unfolding adds_def by blast
qed

lemma adds_on_this:
  "(\<And>d. dictionary_ok d \<Longrightarrow> grows N C F {} d (f d)) \<Longrightarrow> adds N C (on_this f) (\<lambda>_. True) F {} {}"
  by (auto simp: adds_def on_this_def grows_refl split: option.splits)

lemma adds_on_DD:
  "(\<And>d. dictionary_ok d \<Longrightarrow> grows N C F G d (f d)) \<Longrightarrow> adds N C (on_DD f) (\<lambda>_. True) {} F G"
  by (auto simp: adds_def on_DD_def grows_refl split: option.splits)

lemma adds_lwhen:
  "adds N C m (\<lambda>_. True) T D G \<Longrightarrow>
   adds N C (lwhen b m) (\<lambda>_. True) (if b then T else {}) (if b then D else {}) (if b then G else {})"
  by (simp add: lwhen_def adds_lret)

lemma adds_lookup_node:
  "adds N C (lookupXMLFieldNumber_node x) (\<lambda>k. node_number N x = Some k) {} {} {}"
  by (auto simp: adds_def lookupXMLFieldNumber_node_def attribute_def lookupXMLFieldNumber_def from_this_def
      lbind_def lret_def lthrow_def node_number_def grows_refl split: option.splits)

lemma adds_for_nodes:
  "(\<And>x a. x \<in> set xs \<Longrightarrow> adds N C (f x a) (\<lambda>b. b = step x a) (T x) (D x) (G x)) \<Longrightarrow>
   adds N C (for_nodes f xs a) (\<lambda>b. b = fold step xs a) (\<Union>x\<in>set xs. T x) (\<Union>x\<in>set xs. D x) (\<Union>x\<in>set xs. G x)"
proof (induction xs arbitrary: a)
  case (Cons x xs)
  have "adds N C (for_nodes f xs b) (\<lambda>c. c = fold step (x # xs) a)
      (\<Union>x\<in>set xs. T x) (\<Union>x\<in>set xs. D x) (\<Union>x\<in>set xs. G x)" if "b = step x a" for b
    using Cons.IH [of b] Cons.prems that by simp
  from adds_lbind [OF Cons.prems [of x a] this] show ?case by simp
qed (simp add: adds_lret)

lemma adds_with_groupDD:
  assumes "adds N C m P T D G"
  shows "adds N C (with_groupDD m) (\<lambda>(a, g). P a \<and> grows N C D G new_DataDictionary g) T {} {}"
proof -
  have new: "dictionary_ok new_DataDictionary" by (simp add: dictionary_ok_def new_DataDictionary_def)
  have "(case r of (a, d) \<Rightarrow> P a \<and> grows N C D G new_DataDictionary d) \<and> (\<exists>t'. st' = (t', g) \<and> grows N C T {} t t')"
    if run: "with_groupDD m (t, g) = Some (Ok (r, st'))" and ok: "dictionary_ok t" "smap_find (m_names (dd t)) = N"
    for t g r st'
  proof -
    from run obtain a t1 g1 where a: "m (t, Some new_DataDictionary) = Some (Ok (a, (t1, g1)))"
      and r: "r = (a, the g1)" "st' = (t1, g)"
      by (auto simp: with_groupDD_def split: option.splits sum.splits prod.splits)
    from assms [unfolded adds_def, rule_format, OF a ok] new r show ?thesis by auto
  qed
  then show ?thesis unfolding adds_def
    by (auto simp: grows_refl split: option.splits) (blast intro: grows_refl)+
qed

section \<open>Components and groups\<close>

inductive_simps says_field_iff: "says_field N C x k"
inductive_simps says_group_iff: "says_group C x z"
inductive_simps requires_iff: "requires N C b x k"
inductive_simps group_requires_iff: "group_requires N C x k"

lemma first_nonzero_Cons: "first_nonzero (k # ks) = (if k = 0 then first_nonzero ks else k)"
  by (simp add: first_nonzero_def)

lemma fold_first_nonzero:
  "fold (\<lambda>x a. if a = 0 then f x else a) xs a = (if a = 0 then first_nonzero (map f xs) else a)"
  by (induction xs arbitrary: a) (auto simp: first_nonzero_Cons, simp add: first_nonzero_def)

lemma fold_delimiter:
  assumes "\<And>x. \<not> P x \<Longrightarrow> f x = 0" and "fst v = 0 \<Longrightarrow> snd v = (0 :: int)"
  shows "fst (fold (\<lambda>x v. let k = (if P x then f x else snd v) in (if fst v = 0 then k else fst v, k)) xs v) =
    (if fst v = 0 then first_nonzero (map f xs) else fst v)"
  using assms(2) by (induction xs arbitrary: v) (auto simp: first_nonzero_Cons Let_def assms(1), simp add: first_nonzero_def)

lemma grows_ops:
  assumes "dictionary_ok d"
  shows "grows N C {IsField k} {} d (dd_addField k d)"
    "grows N C {IsMsgField m k} {} d (addMsgField m k d)"
    "grows N C {IsRequired m k} {} d (addRequiredField m k d)"
    "grows N C {IsMsgType m} {} d (addMsgType m d)"
    "grows N C {IsHeader k} {} d (addHeaderField k b d)"
    "grows N C {IsTrailer k} {} d (addTrailerField k b d)"
    "grows N C {} {} d (addValueName k v n d)"
  using assms by (auto intro!: growsI)

definition component_facts :: "(string \<rightharpoonup> int) \<Rightarrow> (string \<rightharpoonup> dom_node) \<Rightarrow> string \<Rightarrow> dom_node \<Rightarrow> fact set" where
  "component_facts N C m x = {IsField k |k. says_field N C x k} \<union> {IsMsgField m k |k. says_field N C x k}"

definition component_call :: "(string \<rightharpoonup> int) \<Rightarrow> (string \<rightharpoonup> dom_node) \<Rightarrow> string \<Rightarrow> (dom_node \<Rightarrow> bool \<Rightarrow> int load) \<Rightarrow> bool" where
  "component_call N C m f \<longleftrightarrow> (\<forall>x b. getName x = ''component'' \<longrightarrow>
     adds N C (f x b) (\<lambda>k. k = first_number N C x)
       {IsRequired m k |k. \<exists>c. refers_to C x = Some c \<and> (\<exists>y\<in>set (dom_children c). requires N C b y k)}
       (component_facts N C m x) {(m, z) |z. says_group C x z})"

definition group_call :: "(string \<rightharpoonup> int) \<Rightarrow> (string \<rightharpoonup> dom_node) \<Rightarrow> string \<Rightarrow> (dom_node \<Rightarrow> bool \<Rightarrow> unit load) \<Rightarrow> bool" where
  "group_call N C m f \<longleftrightarrow> (\<forall>x. getName x = ''group'' \<longrightarrow>
     adds N C (f x (is_required x)) (\<lambda>_. True)
       {IsRequired m k |k. \<exists>y\<in>set (dom_children x). group_requires N C y k} {} {(m, x)})"

lemma names_not_component [simp]:
  "getName x = ''field'' \<Longrightarrow> refers_to C x = None" "getName x = ''group'' \<Longrightarrow> refers_to C x = None"
  by (simp_all add: refers_to_def)

lemma lbind_simps [simp]:
  "lbind (lret a) f = f a" "lbind (lbind m g) h = lbind m (\<lambda>a. lbind (g a) h)"
  "lwhen True u = u" "lwhen False u = lret ()"
  by (auto simp: lbind_def lret_def lwhen_def fun_eq_iff split: option.splits sum.splits)

text \<open>Reading the number of a node, and then a computation that depends on it.\<close>

lemma adds_lookup_bind:
  assumes "\<And>k. node_number N x = Some k \<Longrightarrow> adds N C (f k) P T D G"
  shows "adds N C (lbind (lookupXMLFieldNumber_node x) f) P T D G"
  using adds_lbind [OF adds_lookup_node assms] by simp

lemma adds_then_value:
  assumes "adds N C m Q T D G" and "\<And>a. Q a \<Longrightarrow> P (v a)"
  shows "adds N C (lbind m (\<lambda>a. lret (v a))) P T D G"
  using adds_lbind [OF assms(1) adds_lret [of P, OF assms(2)]] by simp

lemma component_field_adds:
  assumes "names_field x"
  shows "adds N C
      (lbind (lookupXMLFieldNumber_node x) (\<lambda>field.
       lbind (lwhen (is_required x \<and> b) (on_this (addRequiredField m field))) (\<lambda>_.
       lbind (on_DD (dd_addField field)) (\<lambda>_.
       lbind (on_DD (addMsgField m field)) (\<lambda>_.
       lret (if a = 0 then field else a))))))
      (\<lambda>r. r = (if a = 0 then own_number N x else a))
      {IsRequired m k |k. is_required x \<and> b \<and> node_number N x = Some k}
      ({IsField k |k. node_number N x = Some k} \<union> {IsMsgField m k |k. node_number N x = Some k}) {}"
proof (rule adds_lookup_bind, goal_cases)
  case (1 k)
  show ?case
    by (rule adds_conseq, rule adds_lbind, rule adds_lwhen, rule adds_on_this, erule grows_ops,
        rule adds_lbind, rule adds_on_DD, erule grows_ops,
        rule adds_then_value, rule adds_on_DD, erule grows_ops)
      (use 1 assms in \<open>auto simp: own_number_def\<close>)
qed

lemma group_field_adds:
  assumes "adds N C f P T D G"
  shows "adds N C
      (lbind (on_DD (dd_addField k)) (\<lambda>_.
       lbind (lwhen b (on_DD (addRequiredField m k))) (\<lambda>_. f)))
      P T ({IsField k} \<union> (if b then {IsRequired m k} else {}) \<union> D) G"
  by (rule adds_conseq, rule adds_lbind, rule adds_on_DD, erule grows_ops,
      rule adds_lbind, rule adds_lwhen, rule adds_on_DD, erule grows_ops, rule assms) auto

lemma component_child_adds:
  assumes comp: "component_call N C m f" and grp: "group_call N C m g"
  shows "adds N C (component_child f g m b x a) (\<lambda>r. r = (if a = 0 then own_number N x else a))
    {IsRequired m k |k. requires N C b x k} (component_facts N C m x) {(m, z) |z. says_group C x z}"
proof -
  consider "getName x = ''component''" | "getName x = ''field''" | "getName x = ''group''"
    | "getName x \<noteq> ''component''" "\<not> names_field x" unfolding names_field_def by blast
  then show ?thesis
  proof cases
    case 1
    then have "\<not> names_field x" "own_number N x = 0" by (simp_all add: names_field_def own_number_def)
    with 1 show ?thesis unfolding component_child_def
      by (simp split del: if_split, intro adds_conseq [OF adds_then_value [OF comp [unfolded component_call_def, rule_format, OF 1]]])
        (auto simp: requires_iff [of N C b x])
  next
    case 2
    then have names: "names_field x" by (simp add: names_field_def)
    from 2 component_field_adds [OF names, of N C b m a] show ?thesis unfolding component_child_def
      by (simp split del: if_split, elim adds_conseq)
        (auto simp: requires_iff [of N C b x] component_facts_def says_field_iff [of N C x] says_group_iff [of C x] names_field_def)
  next
    case 3
    then have names: "names_field x" by (simp add: names_field_def)
    have "adds N C (lbind (g x (is_required x)) (\<lambda>_. lret r)) (\<lambda>q. q = (if a = 0 then own_number N x else a))
        {IsRequired m k |k. \<exists>y\<in>set (dom_children x). group_requires N C y k} {} {(m, x)}"
      if "r = (if a = 0 then own_number N x else a)" for r
      by (rule adds_then_value [OF grp [unfolded group_call_def, rule_format, OF 3]]) (rule that)
    from adds_lbind [OF component_field_adds [OF names, of N C b m a],
        where f = "\<lambda>r. lbind (g x (is_required x)) (\<lambda>_. lret r)", OF this] 3 show ?thesis unfolding component_child_def
      by (simp split del: if_split, elim adds_conseq)
        (auto simp: requires_iff [of N C b x] component_facts_def says_field_iff [of N C x] says_group_iff [of C x] names)
  next
    case 4
    then have "refers_to C x = None" "own_number N x = 0" by (simp_all add: refers_to_def own_number_def)
    with 4 show ?thesis unfolding component_child_def
      by (simp add: names_field_def split del: if_split, intro adds_conseq [OF adds_lret])
        (auto simp: requires_iff [of N C b x] component_facts_def says_field_iff [of N C x] says_group_iff [of C x] names_field_def)
  qed
qed

text \<open>What a child of a group adds to the group's dictionary.\<close>

definition group_child_facts :: "(string \<rightharpoonup> int) \<Rightarrow> (string \<rightharpoonup> dom_node) \<Rightarrow> string \<Rightarrow> bool \<Rightarrow> dom_node \<Rightarrow> fact set" where
  "group_child_facts N C m b y = {IsField k |k. says_field N C y k} \<union>
     {IsMsgField m k |k. getName y = ''component'' \<and> says_field N C y k} \<union>
     {IsRequired m k |k. b \<and> names_field y \<and> is_required y \<and> node_number N y = Some k}"

definition group_step :: "(string \<rightharpoonup> int) \<Rightarrow> (string \<rightharpoonup> dom_node) \<Rightarrow> dom_node \<Rightarrow> int \<times> int \<Rightarrow> int \<times> int" where
  "group_step N C x v =
     (let k = (if names_field x \<or> getName x = ''component'' then first_number N C x else snd v)
      in (if fst v = 0 then k else fst v, k))"

lemma group_child_adds:
  assumes comp: "component_call N C m f" and grp: "group_call N C m g"
  shows "adds N C (group_child f g m b x v) (\<lambda>r. r = group_step N C x v)
    {IsRequired m k |k. group_requires N C x k} (group_child_facts N C m b x) {(m, z) |z. says_group C x z}"
proof -
  consider "getName x = ''component''" | "getName x = ''field''" | "getName x = ''group''"
    | "getName x \<noteq> ''component''" "\<not> names_field x" unfolding names_field_def by blast
  then show ?thesis
  proof cases
    case 1
    then have "\<not> names_field x" by (simp add: names_field_def)
    with 1 show ?thesis unfolding group_child_def
      by (simp split del: if_split, intro adds_conseq [OF adds_then_value [OF comp [unfolded component_call_def, rule_format, OF 1]]])
        (auto simp: group_requires_iff [of N C x] group_step_def Let_def component_facts_def group_child_facts_def)
  next
    case 2
    then have names: "names_field x" by (simp add: names_field_def)
    have "adds N C (lbind (lookupXMLFieldNumber_node x) (\<lambda>field.
        lbind (on_DD (dd_addField field)) (\<lambda>_.
        lbind (lwhen (is_required x \<and> b) (on_DD (addRequiredField m field))) (\<lambda>_.
        lret (if fst v = 0 then field else fst v, field)))))
        (\<lambda>r. r = group_step N C x v)
        {IsRequired m k |k. group_requires N C x k} (group_child_facts N C m b x) {(m, z) |z. says_group C x z}"
    proof (rule adds_lookup_bind, goal_cases)
      case (1 k)
      show ?case by (intro adds_conseq [OF group_field_adds [OF adds_lret]])
        (use 1 2 names in \<open>auto simp: group_step_def Let_def group_requires_iff [of N C x] says_field_iff [of N C x]
          says_group_iff [of C x] group_child_facts_def first_number_def own_number_def\<close>)
    qed
    with 2 show ?thesis unfolding group_child_def by (simp split del: if_split)
  next
    case 3
    then have names: "names_field x" by (simp add: names_field_def)
    have "adds N C (lbind (lookupXMLFieldNumber_node x) (\<lambda>field.
        lbind (on_DD (dd_addField field)) (\<lambda>_.
        lbind (lwhen (is_required x \<and> b) (on_DD (addRequiredField m field))) (\<lambda>_.
        lbind (g x (is_required x)) (\<lambda>_.
        lret (if fst v = 0 then field else fst v, field))))))
        (\<lambda>r. r = group_step N C x v)
        {IsRequired m k |k. group_requires N C x k} (group_child_facts N C m b x) {(m, z) |z. says_group C x z}"
    proof (rule adds_lookup_bind, goal_cases)
      case (1 k)
      show ?case by (intro adds_conseq [OF group_field_adds [OF adds_then_value [OF grp [unfolded group_call_def, rule_format, OF 3]]]])
        (use 1 3 names in \<open>auto simp: group_step_def Let_def group_requires_iff [of N C x] says_field_iff [of N C x]
          says_group_iff [of C x] group_child_facts_def first_number_def own_number_def\<close>)
    qed
    with 3 show ?thesis unfolding group_child_def by (simp split del: if_split)
  next
    case 4
    then have "refers_to C x = None" by (simp add: refers_to_def)
    with 4 show ?thesis unfolding group_child_def
      by (simp add: names_field_def split del: if_split, intro adds_conseq [OF adds_lret])
        (auto simp: group_step_def Let_def group_requires_iff [of N C x] group_child_facts_def says_field_iff [of N C x] says_group_iff [of C x] names_field_def)
  qed
qed

lemma group_steps:
  "fst (fold (group_step N C) xs (0, 0)) = first_nonzero (map (first_number N C) xs)"
proof -
  have "first_number N C x = 0" if "\<not> (names_field x \<or> getName x = ''component'')" for x
    using that by (simp add: first_number_def refers_to_def own_number_def)
  from fold_delimiter [of "\<lambda>x. names_field x \<or> getName x = ''component''" "first_number N C" "(0, 0)" xs, OF this]
  show ?thesis unfolding group_step_def [abs_def] by simp
qed

lemma new_DataDictionary_empty [simp]:
  "facts new_DataDictionary = {}" "getGroup new_DataDictionary m k = None" "\<not> isGroup new_DataDictionary m k"
  by (rule facts_eqI, case_tac f)
    (simp_all add: new_DataDictionary_def getGroup_def isGroup_def dictionary_query_defs)

lemma group_dictionary_grown:
  assumes "grows N C (group_facts N C m x) {(m, z) |z. z \<in> group_nodes C x} new_DataDictionary g"
  shows "group_dictionary N C m x (delimiter N C x) g"
proof (rule group_dictionary.intros)
  have groups: "getGroup new_DataDictionary m k = Some (e, d) \<or>
      (\<exists>z. (m, z) \<in> {(m, z) |z. z \<in> group_nodes C x} \<and> node_number N z = Some k \<and> group_dictionary N C m z e d)"
    if "getGroup g m k = Some (e, d)" for k e d
    using grows_getGroup [OF assms that] .
  show "facts g = group_facts N C m x" using assms by (simp add: grows_def)
  show "\<forall>m' k. isGroup g m' k \<longleftrightarrow> m' = m \<and> (\<exists>z\<in>group_nodes C x. node_number N z = Some k \<and> delimiter N C z \<noteq> 0)"
    using assms [unfolded grows_def] by (simp add: Bex_def)
  show "\<forall>k e' g'. getGroup g m k = Some (e', g') \<longrightarrow>
      (\<exists>z\<in>group_nodes C x. node_number N z = Some k \<and> group_dictionary N C m z e' g')"
  proof (intro allI impI)
    fix k e d
    assume "getGroup g m k = Some (e, d)"
    from groups [OF this] show "\<exists>z\<in>group_nodes C x. node_number N z = Some k \<and> group_dictionary N C m z e d"
      by auto
  qed
qed simp

lemma grows_adopt:
  assumes "dictionary_ok d" "group_dictionary N C m x e g" "node_number N x = Some k" "e \<noteq> 0"
  shows "grows N C {} {(m, x)} d (adoptGroup m k e g d)"
proof -
  have "e = delimiter N C x" using assms(2) by (auto elim: group_dictionary.cases)
  then show ?thesis
    using assms adoptGroup_groups [OF assms(1), of m k e g] group_dictionary_setVersion [OF assms(2)]
    by (auto simp: grows_def isGroup_getGroup)
qed

lemma grows_no_group:
  "dictionary_ok d \<Longrightarrow> delimiter N C x = 0 \<Longrightarrow> grows N C {} {(m, x)} d d"
  by (simp add: grows_def)

lemma adds_adopt:
  assumes k: "node_number N x = Some k"
    and d: "grows N C (group_facts N C m x) {(m, z) |z. z \<in> group_nodes C x} new_DataDictionary d"
  shows "adds N C (lwhen (delimiter N C x \<noteq> 0) (on_DD (adoptGroup m k (delimiter N C x) d))) (\<lambda>_. True) {} {} {(m, x)}"
proof (cases "delimiter N C x = 0")
  case True
  then show ?thesis by (auto simp: adds_def lret_def grows_no_group grows_refl split: option.splits)
next
  case False
  have "adds N C (on_DD (adoptGroup m k (delimiter N C x) d)) (\<lambda>_. True) {} {} {(m, x)}"
    by (intro adds_on_DD grows_adopt group_dictionary_grown k d False)
  with False show ?thesis by simp
qed

lemma addXML_adds:
  fixes N :: "string \<rightharpoonup> int"
  shows "component_call N (map_of cs) m (addXMLComponentFields n cs m)"
    and "group_call N (map_of cs) m (addXMLGroup n cs m)"
proof (induction n)
  let ?C = "map_of cs"
  case (Suc n)
  note calls = Suc.IH
  {
    case 1
    show ?case unfolding component_call_def addXMLComponentFields.simps
    proof (intro allI impI)
      fix x b
      assume x: "getName x = ''component''"
      show "adds N ?C (lbind (attribute x ''name'') (\<lambda>name. case map_of cs name of None \<Rightarrow> lthrow ConfigError
            | Some c \<Rightarrow> for_nodes (component_child (addXMLComponentFields n cs m) (addXMLGroup n cs m) m b) (dom_children c) 0))
          (\<lambda>k. k = first_number N ?C x)
          {IsRequired m k |k. \<exists>c. refers_to ?C x = Some c \<and> (\<exists>y\<in>set (dom_children c). requires N ?C b y k)}
          (component_facts N ?C m x) {(m, z) |z. says_group ?C x z}"
      proof (cases "refers_to ?C x")
        case None
        with x show ?thesis
          by (cases "dom_get x ''name''") (auto simp: attribute_def refers_to_def lbind_def lthrow_def adds_def lret_def)
      next
        case (Some c)
        then obtain s where s: "dom_get x ''name'' = Some s" "map_of cs s = Some c"
          using x by (auto simp: refers_to_def bind_eq_Some_conv)
        have "\<not> names_field x" using x by (simp add: names_field_def)
        with Some x show ?thesis
          unfolding attribute_def s option.case lbind_simps
          by (intro adds_conseq [OF adds_for_nodes [OF component_child_adds [OF calls]]])
            (auto simp: fold_first_nonzero first_number_def component_facts_def
              says_field_iff [of N ?C x] says_group_iff [of ?C x])
      qed
    qed
  next
    case 2
    show ?case unfolding group_call_def addXMLGroup.simps
    proof (intro allI impI adds_lookup_bind)
      fix x k
      assume x: "getName x = ''group''" and k: "node_number N x = Some k"
      let ?loop = "for_nodes (group_child (addXMLComponentFields n cs m) (addXMLGroup n cs m) m (is_required x)) (dom_children x) (0, 0)"
      have "adds N ?C ?loop (\<lambda>v. fst v = delimiter N ?C x)
          {IsRequired m k |k. \<exists>y\<in>set (dom_children x). group_requires N ?C y k}
          (group_facts N ?C m x) {(m, z) |z. z \<in> group_nodes ?C x}"
        by (rule adds_conseq [OF adds_for_nodes [OF group_child_adds [OF calls]]])
          (auto simp: group_steps delimiter_def group_facts_def group_child_facts_def group_nodes_def)
      note loop = adds_with_groupDD [OF this]
      let ?adopt = "\<lambda>((delim, field), d). lwhen (delim \<noteq> 0) (on_DD (adoptGroup m k delim d))"
      have "adds N ?C (?adopt r)
          (\<lambda>_. True) {} {} {(m, x)}"
        if "case r of (v, d) \<Rightarrow> fst v = delimiter N ?C x \<and>
          grows N ?C (group_facts N ?C m x) {(m, z) |z. z \<in> group_nodes ?C x} new_DataDictionary d" for r
        using that adds_adopt [OF k] by (auto split: prod.splits)
      from adds_lbind [OF loop, where f = ?adopt, OF this]
      show "adds N ?C (lbind (with_groupDD ?loop) (\<lambda>((delim, field), groupDD).
            lwhen (delim \<noteq> 0) (on_DD (adoptGroup m k delim groupDD)))) (\<lambda>_. True)
          {IsRequired m k |k. \<exists>y\<in>set (dom_children x). group_requires N ?C y k} {} {(m, x)}"
        by simp
    qed
  }
qed (simp_all add: component_call_def group_call_def adds_bottom)

section \<open>Sections of the document\<close>

definition section_nodes :: "dom_node list \<Rightarrow> string \<Rightarrow> dom_node list" where
  "section_nodes doc name = (case getNode doc [''fix'', name] of None \<Rightarrow> [] | Some x \<Rightarrow> dom_children x)"

text \<open>A field of the fields section, with its name and number.\<close>

definition declares :: "dom_node \<Rightarrow> string \<Rightarrow> int \<Rightarrow> bool" where
  "declares x s k \<longleftrightarrow> getName x = ''field'' \<and> dom_get x ''name'' = Some s \<and> map_option atoi (dom_get x ''number'') = Some k"

definition field_facts :: "dom_node \<Rightarrow> fact set" where
  "field_facts x = {IsField k |k. \<exists>s. declares x s k} \<union>
     {HasValue k v |k v. (\<exists>s. declares x s k) \<and>
       (\<exists>y\<in>set (dom_children x). getName y = ''value'' \<and> dom_get y ''enum'' = Some v)}"

text \<open>The type of a number is that of the last field declared with it.\<close>

definition declared_type :: "DataDictionary \<Rightarrow> dom_node \<Rightarrow> (int \<rightharpoonup> Type') \<Rightarrow> (int \<rightharpoonup> Type')" where
  "declared_type d x ts =
     (case (dom_get x ''number'', dom_get x ''type'') of
        (Some number, Some type) \<Rightarrow> if getName x = ''field'' then ts(atoi number \<mapsto> XMLTypeToType type d) else ts
      | _ \<Rightarrow> ts)"

lemma adds_read_value:
  "adds N C (read_value k x u) (\<lambda>b. b = ()) {HasValue k v |v. getName x = ''value'' \<and> dom_get x ''enum'' = Some v} {} {}"
proof (cases "getName x = ''value''")
  case True
  show ?thesis
  proof (cases "dom_get x ''enum''")
    case None
    with True show ?thesis by (simp add: read_value_def attribute_def adds_def lbind_def lthrow_def)
  next
    case (Some v)
    have "grows N C {HasValue k v} {} d (addFieldValue k v d)" if "dictionary_ok d" for d
      using that by (auto intro!: growsI)
    then have val: "adds N C (on_this (addFieldValue k v)) (\<lambda>_. True) {HasValue k v} {} {}" by (rule adds_on_this)
    have "adds N C (case dom_get x ''description'' of None \<Rightarrow> lret () | Some n \<Rightarrow> on_this (addValueName k v n)) (\<lambda>_. True) {} {} {}"
      by (auto intro!: adds_lret adds_on_this grows_ops split: option.splits)
    from adds_lbind [OF val this] True Some show ?thesis
      by (auto simp: read_value_def attribute_def elim!: adds_conseq)
  qed
qed (auto simp: read_value_def intro!: adds_conseq [OF adds_lret])

lemma run_simps:
  "lbind (attribute x s) f st = Some (Ok r) \<longleftrightarrow> (\<exists>v. dom_get x s = Some v \<and> f v st = Some (Ok r))"
  "lbind (on_this g) h (t, d) = h () (g t, d)"
  "lbind (update_this e) h (t, d) = Some (Ok r) \<longleftrightarrow> (\<exists>t'. e t = Ok t' \<and> h () (t', d) = Some (Ok r))"
  by (auto simp: lbind_def attribute_def lret_def lthrow_def on_this_def update_this_def split: option.splits sum.splits)

lemma lbind_Ok:
  "lbind m f st = Some (Ok r) \<longleftrightarrow> (\<exists>a st'. m st = Some (Ok (a, st')) \<and> f a st' = Some (Ok r))"
  by (auto simp: lbind_def split: option.splits sum.splits)

text \<open>One field of the fields section, and all of them.\<close>

definition fields_added :: "dom_node set \<Rightarrow> DataDictionary \<Rightarrow> DataDictionary \<Rightarrow> bool" where
  "fields_added xs t t' \<longleftrightarrow> dictionary_ok t' \<and> (\<forall>m k. isGroup t' m k \<longleftrightarrow> isGroup t m k) \<and> getVersion t' = getVersion t \<and>
    facts t' = facts t \<union> (\<Union>x\<in>xs. field_facts x) \<and>
    (\<forall>s k. getFieldTag t' s = Some k \<longleftrightarrow> getFieldTag t s = Some k \<or> (\<exists>x\<in>xs. declares x s k))"

lemma addFieldName_Ok:
  assumes "addFieldName k s d = Ok d'" "dictionary_ok d"
  shows "dictionary_ok d'" "facts d' = facts d" "dd_groups d' = dd_groups d" "getFieldType d' = getFieldType d"
    "getVersion d' = getVersion d"
    "getFieldTag d' s' = Some j \<longleftrightarrow> getFieldTag d s' = Some j \<or> s' = s \<and> j = k"
  using assms
  by (auto simp: addFieldName_def set_dd_def dictionary_ok_def getFieldType_def getVersion_def getFieldTag_def fun_eq_iff
      split: if_splits intro!: facts_eqI) (case_tac f; simp add: dictionary_query_defs)+

lemma XMLTypeToType_cong: "getVersion d' = getVersion d \<Longrightarrow> XMLTypeToType type d' = XMLTypeToType type d"
  by (simp add: XMLTypeToType_def getVersion_def)

lemma getFieldTag_cong: "m_names (dd d') = m_names (dd d) \<Longrightarrow> getFieldTag d' s = getFieldTag d s"
  by (simp add: getFieldTag_def)

lemma addFieldType_types:
  "dictionary_ok d \<Longrightarrow> getFieldType (addFieldType k type d) = (getFieldType d)(k \<mapsto> type)"
  by (auto simp: fun_eq_iff getFieldType_def addFieldType_def set_dd_def Let_def dictionary_ok_def)

lemma read_field_step:
  assumes run: "read_field x u (t, None) = Some (Ok (u', st'))" and ok: "dictionary_ok t"
  shows "\<exists>t'. st' = (t', None) \<and> fields_added {x} t t' \<and> getFieldType t' = declared_type t x (getFieldType t)"
proof (cases "getName x = ''field''")
  case False
  with run ok show ?thesis
    by (cases u) (auto simp: read_field_def lret_def declares_def field_facts_def declared_type_def fields_added_def split: option.splits)
next
  case True
  from run True obtain s num type t2 where attrs: "dom_get x ''name'' = Some s" "dom_get x ''number'' = Some num" "dom_get x ''type'' = Some type"
    and t2: "addFieldName (atoi num) s (addFieldType (atoi num) (XMLTypeToType type (dd_addField (atoi num) t)) (dd_addField (atoi num) t)) = Ok t2"
    and loop: "for_nodes (read_value (atoi num)) (dom_children x) () (t2, None) = Some (Ok (u', st'))"
    by (auto simp: read_field_def run_simps)
  let ?k = "atoi num"
  let ?t1 = "addFieldType ?k (XMLTypeToType type t) (dd_addField ?k t)"
  have type: "XMLTypeToType type (dd_addField ?k t) = XMLTypeToType type t" by (rule XMLTypeToType_cong) simp
  have "dictionary_ok ?t1" using ok by simp
  note t2 = addFieldName_Ok [OF t2 [unfolded type] this]
  have names: "smap_find (m_names (dd t2)) = getFieldTag t2" by (simp add: getFieldTag_def fun_eq_iff)
  have step: "adds (getFieldTag t2) Map.empty (read_value ?k y v) (\<lambda>b. b = (\<lambda>_ _. ()) y v)
      {HasValue ?k w |w. getName y = ''value'' \<and> dom_get y ''enum'' = Some w} {} {}" for y v
    using adds_read_value [of "getFieldTag t2" Map.empty ?k y v] by simp
  from adds_for_nodes [where f = "read_value ?k" and xs = "dom_children x" and a = "()", OF step,
      unfolded adds_def, rule_format, OF loop t2(1) names]
  obtain t' where t': "st' = (t', None)" and grown: "grows (getFieldTag t2) Map.empty
      (\<Union>y\<in>set (dom_children x). {HasValue ?k w |w. getName y = ''value'' \<and> dom_get y ''enum'' = Some w}) {} t2 t'"
    by auto
  from True attrs have declares: "declares x s' j \<longleftrightarrow> s' = s \<and> j = ?k" for s' j by (auto simp: declares_def)
  have "fields_added {x} t t'"
    unfolding fields_added_def
  proof (intro conjI allI)
    show "facts t' = facts t \<union> (\<Union>x\<in>{x}. field_facts x)"
      using growsD(5) [OF grown] t2(2) by (auto simp: field_facts_def declares)
    show "isGroup t' m k = isGroup t m k" for m k
      using growsD(6) [OF grown] getGroup_cong(2) [OF t2(3)] getGroup_cong(2) [of ?t1 t] by simp
    show "getFieldTag t' s = Some k \<longleftrightarrow> getFieldTag t s = Some k \<or> (\<exists>x\<in>{x}. declares x s k)" for s k
      using getFieldTag_cong [OF growsD(2) [OF grown]] t2(6) getFieldTag_cong [of ?t1 t] by (simp add: declares)
  qed (use growsD [OF grown] t2(5) in simp_all)
  moreover have "getFieldType t' = declared_type t x (getFieldType t)"
    using grown t2(4) True attrs ok by (auto simp: grows_def declared_type_def addFieldType_types)
  ultimately show ?thesis using t' by blast
qed

lemma declared_type_cong: "getVersion d' = getVersion d \<Longrightarrow> declared_type d' = declared_type d"
  using XMLTypeToType_cong [of d' d] by (auto simp: fun_eq_iff declared_type_def split: option.splits)

lemma read_fields:
  assumes "for_nodes read_field xs u (t, None) = Some (Ok (u', st'))" "dictionary_ok t"
  shows "\<exists>t'. st' = (t', None) \<and> fields_added (set xs) t t' \<and> getFieldType t' = fold (declared_type t) xs (getFieldType t)"
  using assms
proof (induction xs arbitrary: u t)
  case (Cons x xs)
  from Cons.prems(1) obtain a st1 where step: "read_field x u (t, None) = Some (Ok (a, st1))"
    and rest: "for_nodes read_field xs a st1 = Some (Ok (u', st'))" by (auto simp: lbind_Ok)
  from read_field_step [OF step Cons.prems(2)] obtain t1 where t1: "st1 = (t1, None)" "fields_added {x} t t1"
    "getFieldType t1 = declared_type t x (getFieldType t)" by blast
  then have "dictionary_ok t1" "getVersion t1 = getVersion t" by (simp_all add: fields_added_def)
  with Cons.IH [OF rest [unfolded t1(1)]] t1 declared_type_cong [of t1 t] show ?case
    by (auto simp: fields_added_def)
qed (auto simp: lret_def fields_added_def)

text \<open>A field of the header or the trailer; \<open>H\<close> says which.\<close>

definition frame_facts :: "(string \<rightharpoonup> int) \<Rightarrow> (string \<rightharpoonup> dom_node) \<Rightarrow> (int \<Rightarrow> fact) \<Rightarrow> string \<Rightarrow> dom_node \<Rightarrow> fact set" where
  "frame_facts N C H m x = {H k |k. names_field x \<and> node_number N x = Some k} \<union>
     {IsRequired m k |k. getName x = ''group'' \<and> (\<exists>y\<in>set (dom_children x). group_requires N C y k)}"

lemma adds_frame_field:
  assumes add: "\<And>k b d. dictionary_ok d \<Longrightarrow> grows N (map_of cs) {H k} {} d (add k b d)"
  shows "adds N (map_of cs) (read_frame_field n cs add m x u) (\<lambda>b. b = ())
    (frame_facts N (map_of cs) H m x) {} (if getName x = ''group'' then {(m, x)} else {})"
proof -
  have number: "adds N (map_of cs) (lbind (lookupXMLFieldNumber_node x) (\<lambda>num. on_this (add num (is_required x))))
      (\<lambda>_. True) {H k |k. node_number N x = Some k} {} {}"
  proof (rule adds_lookup_bind, goal_cases)
    case (1 k)
    then show ?case by (intro adds_conseq [OF adds_on_this [OF add]]) auto
  qed
  have grp: "adds N (map_of cs) (addXMLGroup n cs m x (is_required x)) (\<lambda>_. True)
      {IsRequired m k |k. \<exists>y\<in>set (dom_children x). group_requires N (map_of cs) y k} {} {(m, x)}"
    if "getName x = ''group''" using addXML_adds(2) [of N cs m n] that by (simp add: group_call_def)
  consider "getName x = ''group''" | "getName x = ''field''" | "\<not> names_field x" by (auto simp: names_field_def)
  then show ?thesis
  proof cases
    case 1
    with adds_lbind [OF number grp [OF 1]] show ?thesis unfolding read_frame_field_def
      by (simp, elim adds_conseq) (auto simp: frame_facts_def names_field_def)
  next
    case 2
    with adds_then_value [OF number, of "\<lambda>_. True" "\<lambda>_. ()"] show ?thesis unfolding read_frame_field_def
      by (simp, elim adds_conseq) (auto simp: frame_facts_def names_field_def)
  next
    case 3
    then show ?thesis unfolding read_frame_field_def names_field_def
      by (simp, intro adds_conseq [OF adds_lret]) (auto simp: frame_facts_def names_field_def)
  qed
qed

text \<open>A child of a message, and a message.\<close>

definition message_field_facts :: "(string \<rightharpoonup> int) \<Rightarrow> (string \<rightharpoonup> dom_node) \<Rightarrow> string \<Rightarrow> dom_node \<Rightarrow> fact set" where
  "message_field_facts N C m x = {IsMsgField m k |k. says_field N C x k} \<union> {IsRequired m k |k. requires N C True x k} \<union>
     {IsField k |k. getName x = ''component'' \<and> says_field N C x k}"

text \<open>A computation with \<open>DD\<close> the same as \<open>*this\<close>.\<close>

definition fills :: "(string \<rightharpoonup> int) \<Rightarrow> (string \<rightharpoonup> dom_node) \<Rightarrow> 'a load \<Rightarrow> fact set \<Rightarrow> (string \<times> dom_node) set \<Rightarrow> bool" where
  "fills N C m F G \<longleftrightarrow> (\<forall>t a st'. m (t, None) = Some (Ok (a, st')) \<longrightarrow> dictionary_ok t \<longrightarrow>
     smap_find (m_names (dd t)) = N \<longrightarrow> (\<exists>t'. st' = (t', None) \<and> grows N C F G t t'))"

lemma fills_adds: "adds N C m P T D G \<Longrightarrow> T \<union> D = F \<Longrightarrow> G = G' \<Longrightarrow> fills N C m F G'"
  unfolding adds_def fills_def by fastforce

lemma fills_lret: "fills N C (lret a) {} {}"
  by (simp add: fills_def lret_def grows_refl)

lemma fills_lthrow: "fills N C (lthrow e) F G"
  by (simp add: fills_def lthrow_def)

lemma fills_lbind:
  assumes m: "fills N C m F G" and f: "\<And>a. fills N C (f a) F' G'"
  shows "fills N C (lbind m f) (F \<union> F') (G \<union> G')"
  unfolding fills_def
proof (intro allI impI)
  fix t b st'
  assume run: "lbind m f (t, None) = Some (Ok (b, st'))" and ok: "dictionary_ok t" "smap_find (m_names (dd t)) = N"
  from run obtain a s where a: "m (t, None) = Some (Ok (a, s))" and b: "f a s = Some (Ok (b, st'))" by (auto simp: lbind_Ok)
  from m [unfolded fills_def, rule_format, OF a ok] obtain t1 where t1: "s = (t1, None)" "grows N C F G t t1" by blast
  then have ok1: "dictionary_ok t1" "smap_find (m_names (dd t1)) = N" using ok growsD by auto
  from f [unfolded fills_def, rule_format, OF b [unfolded t1(1)] ok1] grows_trans [OF t1(2)]
  show "\<exists>t'. st' = (t', None) \<and> grows N C (F \<union> F') (G \<union> G') t t'" by blast
qed

lemma fills_for_nodes:
  "(\<And>x a. x \<in> set xs \<Longrightarrow> fills N C (f x a) (F x) (G x)) \<Longrightarrow>
   fills N C (for_nodes f xs a) (\<Union>x\<in>set xs. F x) (\<Union>x\<in>set xs. G x)"
proof (induction xs arbitrary: a)
  case (Cons x xs)
  from fills_lbind [OF Cons.prems [of x a] Cons.IH] Cons.prems show ?case by simp
qed (simp add: fills_lret)

lemma fills_message_field:
  "fills N (map_of cs) (read_message_field n cs m x u) (message_field_facts N (map_of cs) m x)
     {(m, z) |z. says_group (map_of cs) x z}"
proof -
  let ?C = "map_of cs"
  have number: "adds N ?C (lbind (lookupXMLFieldNumber_node x) (\<lambda>num. lbind (on_this (addMsgField m num)) (\<lambda>_.
       lwhen (is_required x) (on_this (addRequiredField m num)))))
      (\<lambda>_. True) ({IsMsgField m k |k. node_number N x = Some k} \<union> {IsRequired m k |k. is_required x \<and> node_number N x = Some k}) {} {}"
  proof (rule adds_lookup_bind, goal_cases)
    case (1 k)
    show ?case
      by (rule adds_conseq, rule adds_lbind, rule adds_on_this, erule grows_ops, rule adds_lwhen, rule adds_on_this,
          erule grows_ops) (use 1 in auto)
  qed
  have grp: "adds N ?C (addXMLGroup n cs m x (is_required x)) (\<lambda>_. True)
      {IsRequired m k |k. \<exists>y\<in>set (dom_children x). group_requires N ?C y k} {} {(m, x)}"
    if "getName x = ''group''" using addXML_adds(2) [of N cs m n] that by (simp add: group_call_def)
  note iffs = message_field_facts_def requires_iff [of N ?C True x] says_field_iff [of N ?C x] says_group_iff [of ?C x]
  consider "getName x = ''component''" | "getName x = ''group''" | "getName x = ''field''"
    | "\<not> names_field x" "getName x \<noteq> ''component''" by (auto simp: names_field_def)
  then show ?thesis
  proof cases
    case 1
    with adds_then_value [OF addXML_adds(1) [of N cs m n, unfolded component_call_def, rule_format, OF 1, of "is_required x"],
        of "\<lambda>_. True" "\<lambda>_. ()"]
    show ?thesis unfolding read_message_field_def
      by (simp, elim fills_adds) (auto simp: message_field_facts_def requires_iff [of N ?C True x] component_facts_def names_field_def)
  next
    case 2
    with adds_lbind [OF number grp [OF 2]] show ?thesis unfolding read_message_field_def
      by (simp, elim fills_adds) (auto simp: iffs names_field_def)
  next
    case 3
    with adds_then_value [OF number, of "\<lambda>_. True" "\<lambda>_. ()"] show ?thesis unfolding read_message_field_def
      by (simp, elim fills_adds) (auto simp: iffs names_field_def)
  next
    case 4
    then have "refers_to ?C x = None" by (simp add: refers_to_def)
    with 4 have "message_field_facts N ?C m x = {}" "{(m, z) |z. says_group ?C x z} = {}"
      by (auto simp: iffs names_field_def)
    with 4 show ?thesis unfolding read_message_field_def by (simp add: names_field_def fills_lret)
  qed
qed

definition is_message :: "dom_node \<Rightarrow> string \<Rightarrow> bool" where
  "is_message x m \<longleftrightarrow> getName x = ''message'' \<and> dom_get x ''msgtype'' = Some m"

definition message_facts :: "(string \<rightharpoonup> int) \<Rightarrow> (string \<rightharpoonup> dom_node) \<Rightarrow> dom_node \<Rightarrow> fact set" where
  "message_facts N C x = {f. \<exists>m. is_message x m \<and>
     (f = IsMsgType m \<or> (\<exists>y\<in>set (dom_children x). f \<in> message_field_facts N C m y))}"

definition message_groups :: "(string \<rightharpoonup> dom_node) \<Rightarrow> dom_node \<Rightarrow> (string \<times> dom_node) set" where
  "message_groups C x = {(m, z) |m z. is_message x m \<and> z \<in> group_nodes C x}"

lemma fills_message:
  "fills N (map_of cs) (read_message n cs x u) (message_facts N (map_of cs) x) (message_groups (map_of cs) x)"
proof -
  let ?C = "map_of cs"
  consider "getName x \<noteq> ''message''" | "getName x = ''message''" "dom_get x ''msgtype'' = None"
    | m where "getName x = ''message''" "dom_get x ''msgtype'' = Some m" by fastforce
  then show ?thesis
  proof cases
    case 1
    then have "message_facts N ?C x = {}" "message_groups ?C x = {}"
      by (auto simp: message_facts_def message_groups_def is_message_def)
    with 1 show ?thesis by (simp add: read_message_def fills_lret)
  next
    case 2
    then show ?thesis by (simp add: read_message_def attribute_def fills_def lbind_def lthrow_def)
  next
    case (3 m)
    have type: "fills N ?C (on_this (addMsgType m)) {IsMsgType m} {}"
      by (rule fills_adds, rule adds_on_this, erule grows_ops) simp_all
    have name: "fills N ?C (case dom_get x ''name'' of None \<Rightarrow> lret () | Some name \<Rightarrow> on_this (addValueName 35 m name)) {} {}"
      by (auto intro!: fills_adds adds_lret [where P = "\<lambda>_. True"] adds_on_this grows_ops split: option.splits)
    have "fills N ?C (for_nodes (read_message_field n cs m) (dom_children x) ())
        (\<Union>y\<in>set (dom_children x). message_field_facts N ?C m y) (\<Union>y\<in>set (dom_children x). {(m, z) |z. says_group ?C y z})"
      by (rule fills_for_nodes, rule fills_message_field)
    from fills_lbind [OF type fills_lbind [OF name this]]
    have "fills N ?C (read_message n cs x u)
        ({IsMsgType m} \<union> (\<Union>y\<in>set (dom_children x). message_field_facts N ?C m y))
        (\<Union>y\<in>set (dom_children x). {(m, z) |z. says_group ?C y z})"
      using 3 by (simp add: read_message_def attribute_def)
    moreover have "{IsMsgType m} \<union> (\<Union>y\<in>set (dom_children x). message_field_facts N ?C m y) = message_facts N ?C x"
      "(\<Union>y\<in>set (dom_children x). {(m, z) |z. says_group ?C y z}) = message_groups ?C x"
      using 3 by (auto simp: message_facts_def message_groups_def is_message_def group_nodes_def)
    ultimately show ?thesis by simp
  qed
qed

lemma read_section_Ok:
  "read_section doc name body st = Some (Ok r) \<longleftrightarrow>
     section_nodes doc name \<noteq> [] \<and> for_nodes body (section_nodes doc name) () st = Some (Ok r)"
  by (auto simp: read_section_def section_nodes_def lthrow_def split: option.splits)

lemma fills_read_section:
  assumes "\<And>x a. fills N C (body x a) (F x) (G x)"
  shows "fills N C (read_section doc name body) (\<Union>x\<in>set (section_nodes doc name). F x) (\<Union>x\<in>set (section_nodes doc name). G x)"
  using fills_for_nodes [of "section_nodes doc name" N C body F G "()"] assms unfolding fills_def read_section_Ok by blast

section \<open>The whole document\<close>

definition doc_type :: "dom_node \<Rightarrow> string" where
  "doc_type pFix = (case dom_get pFix ''type'' of None \<Rightarrow> ''FIX'' | Some t \<Rightarrow> t)"

definition doc_version :: "dom_node \<Rightarrow> string" where
  "doc_version pFix = doc_type pFix @ ''.'' @ the (dom_get pFix ''major'') @ ''.'' @ the (dom_get pFix ''minor'')"

text \<open>Whether the document describes the header and the trailer.\<close>

definition framed :: "dom_node \<Rightarrow> bool" where
  "framed pFix \<longleftrightarrow> doc_type pFix = ''FIXT'' \<or> doc_type pFix = ''FIX'' \<and> the (dom_get pFix ''major'') < ''5''"

definition frame_nodes :: "dom_node list \<Rightarrow> dom_node \<Rightarrow> string \<Rightarrow> dom_node list" where
  "frame_nodes doc pFix name = (if framed pFix then section_nodes doc name else [])"

definition doc_facts :: "(string \<rightharpoonup> int) \<Rightarrow> (string \<rightharpoonup> dom_node) \<Rightarrow> dom_node list \<Rightarrow> dom_node \<Rightarrow> fact set" where
  "doc_facts N C doc pFix =
     (\<Union>x\<in>set (frame_nodes doc pFix ''header''). frame_facts N C IsHeader ''_header_'' x) \<union>
     (\<Union>x\<in>set (frame_nodes doc pFix ''trailer''). frame_facts N C IsTrailer ''_trailer_'' x) \<union>
     (\<Union>x\<in>set (section_nodes doc ''messages''). message_facts N C x)"

definition doc_groups :: "(string \<rightharpoonup> dom_node) \<Rightarrow> dom_node list \<Rightarrow> dom_node \<Rightarrow> (string \<times> dom_node) set" where
  "doc_groups C doc pFix =
     {(''_header_'', x) |x. x \<in> set (frame_nodes doc pFix ''header'') \<and> getName x = ''group''} \<union>
     {(''_trailer_'', x) |x. x \<in> set (frame_nodes doc pFix ''trailer'') \<and> getName x = ''group''} \<union>
     (\<Union>x\<in>set (section_nodes doc ''messages''). message_groups C x)"

lemma fills_frame:
  assumes "\<And>k b d. dictionary_ok d \<Longrightarrow> grows N (map_of cs) {H k} {} d (add k b d)"
  shows "fills N (map_of cs) (lwhen (framed pFix) (read_section doc name (read_frame_field n cs add m)))
    (\<Union>x\<in>set (frame_nodes doc pFix name). frame_facts N (map_of cs) H m x)
    {(m, x) |x. x \<in> set (frame_nodes doc pFix name) \<and> getName x = ''group''}"
proof (cases "framed pFix")
  case True
  have "fills N (map_of cs) (read_section doc name (read_frame_field n cs add m))
      (\<Union>x\<in>set (section_nodes doc name). frame_facts N (map_of cs) H m x)
      (\<Union>x\<in>set (section_nodes doc name). if getName x = ''group'' then {(m, x)} else {})"
    by (rule fills_read_section, rule fills_adds [OF adds_frame_field [OF assms]]) simp_all
  moreover have "(\<Union>x\<in>set (section_nodes doc name). if getName x = ''group'' then {(m, x)} else {}) =
      {(m, x) |x. x \<in> set (section_nodes doc name) \<and> getName x = ''group''}" by auto
  ultimately show ?thesis using True by (simp only: frame_nodes_def lbind_simps if_True)
next
  case False
  then show ?thesis by (simp add: frame_nodes_def fills_lret)
qed

lemma fills_sections:
  "fills N (map_of cs)
    (lbind (lwhen (framed pFix) (read_section doc ''header'' (read_frame_field n cs addHeaderField ''_header_''))) (\<lambda>_.
     lbind (lwhen (framed pFix) (read_section doc ''trailer'' (read_frame_field n cs addTrailerField ''_trailer_''))) (\<lambda>_.
     read_section doc ''messages'' (read_message n cs))))
    (doc_facts N (map_of cs) doc pFix) (doc_groups (map_of cs) doc pFix)"
proof -
  have messages: "fills N (map_of cs) (read_section doc ''messages'' (read_message n cs))
      (\<Union>x\<in>set (section_nodes doc ''messages''). message_facts N (map_of cs) x)
      (\<Union>x\<in>set (section_nodes doc ''messages''). message_groups (map_of cs) x)"
    by (rule fills_read_section, rule fills_message)
  show ?thesis unfolding doc_facts_def doc_groups_def Un_assoc
    by (intro fills_lbind fills_frame messages grows_ops)
qed

lemma readFromDocument_Ok:
  assumes run: "readFromDocument n doc (t, None) = Some (Ok (u, st'))"
    and pFix: "getNode doc [''fix''] = Some pFix"
  obtains t1 where
    "for_nodes read_field (section_nodes doc ''fields'') () (setVersion (doc_version pFix) t, None) = Some (Ok ((), t1))"
    "(lbind (lwhen (framed pFix) (read_section doc ''header'' (read_frame_field n (indexComponents pFix) addHeaderField ''_header_''))) (\<lambda>_.
      lbind (lwhen (framed pFix) (read_section doc ''trailer'' (read_frame_field n (indexComponents pFix) addTrailerField ''_trailer_''))) (\<lambda>_.
      read_section doc ''messages'' (read_message n (indexComponents pFix))))) t1 = Some (Ok (u, st'))"
proof -
  from run pFix obtain major minor where attrs: "dom_get pFix ''major'' = Some major" "dom_get pFix ''minor'' = Some minor"
    by (auto simp: readFromDocument_def Let_def run_simps lthrow_def split: if_splits option.splits)
  show ?thesis
    using run pFix attrs that
    by (auto simp: readFromDocument_def Let_def run_simps lthrow_def doc_type_def doc_version_def framed_def
        lbind_Ok [of "read_section doc ''fields'' read_field"] read_section_Ok [of doc "''fields''"] split: if_splits)
qed

lemma load_contents:
  assumes load: "DataDictionary_load n (Some doc) preserve = Some (Ok d)"
    and root: "getNode doc [''fix''] = Some pFix"
  obtains t1 where "getVersion d = doc_version pFix"
    "\<forall>s k. getFieldTag d s = Some k \<longleftrightarrow> (\<exists>x\<in>set (section_nodes doc ''fields''). declares x s k)"
    "getFieldType d = fold (declared_type d) (section_nodes doc ''fields'') Map.empty"
    "facts t1 = (\<Union>x\<in>set (section_nodes doc ''fields''). field_facts x)" "\<forall>m k. \<not> isGroup t1 m k"
    "grows (getFieldTag d) (map_of (indexComponents pFix))
       (doc_facts (getFieldTag d) (map_of (indexComponents pFix)) doc pFix)
       (doc_groups (map_of (indexComponents pFix)) doc pFix) t1 d"
proof -
  let ?t = "set_dd (\<lambda>d. d\<lparr>m_storeMsgFieldsOrder := preserve\<rparr>) new_DataDictionary"
  have new: "dictionary_ok ?t" "facts ?t = {}" "\<And>m k. \<not> isGroup ?t m k" "\<And>s. getFieldTag ?t s = None"
    "getFieldType ?t = Map.empty"
    using new_DataDictionary_empty(1)
    by (auto simp: set_dd_def new_DataDictionary_def dictionary_ok_def isGroup_def getFieldTag_def getFieldType_def fun_eq_iff
        intro!: facts_eqI) (case_tac f; simp add: dictionary_query_defs)
  from load obtain u st' where run: "readFromDocument n doc (?t, None) = Some (Ok (u, st'))" and d: "d = fst st'"
    by (auto simp: DataDictionary_load_def DataDictionary_of_def readFromStream_def)
  obtain st1 where
    fields: "for_nodes read_field (section_nodes doc ''fields'') () (setVersion (doc_version pFix) ?t, None) = Some (Ok ((), st1))"
    and rest: "(lbind (lwhen (framed pFix) (read_section doc ''header'' (read_frame_field n (indexComponents pFix) addHeaderField ''_header_''))) (\<lambda>_.
      lbind (lwhen (framed pFix) (read_section doc ''trailer'' (read_frame_field n (indexComponents pFix) addTrailerField ''_trailer_''))) (\<lambda>_.
      read_section doc ''messages'' (read_message n (indexComponents pFix))))) st1 = Some (Ok (u, st'))" by (rule readFromDocument_Ok [OF run root])
  let ?v = "setVersion (doc_version pFix) ?t"
  from read_fields [OF fields] new(1) obtain t1 where t1: "st1 = (t1, None)"
    and added: "fields_added (set (section_nodes doc ''fields'')) ?v t1"
    and types: "getFieldType t1 = fold (declared_type ?v) (section_nodes doc ''fields'') (getFieldType ?v)" by auto
  have ok1: "dictionary_ok t1" using added by (simp add: fields_added_def)
  have names: "smap_find (m_names (dd t1)) = getFieldTag t1" by (simp add: fun_eq_iff getFieldTag_def)
  from fills_sections [of "getFieldTag t1" "indexComponents pFix" pFix doc n, unfolded fills_def, rule_format, OF rest [unfolded t1] ok1 names]
  obtain t' where t': "st' = (t', None)" and grown: "grows (getFieldTag t1) (map_of (indexComponents pFix))
      (doc_facts (getFieldTag t1) (map_of (indexComponents pFix)) doc pFix) (doc_groups (map_of (indexComponents pFix)) doc pFix) t1 t'"
    by blast
  have dt': "d = t'" using d t' by simp
  have tags: "getFieldTag d = getFieldTag t1" using getFieldTag_cong [OF growsD(2) [OF grown]] dt' by auto
  have tag_v: "getFieldTag ?v s = None" for s using new(4) getFieldTag_cong [of ?v ?t s] by simp
  have version: "getVersion d = doc_version pFix" using growsD(4) [OF grown] added dt' by (simp add: fields_added_def)
  show ?thesis
  proof (rule that [OF version])
    show "\<forall>s k. getFieldTag d s = Some k \<longleftrightarrow> (\<exists>x\<in>set (section_nodes doc ''fields''). declares x s k)"
      using added tag_v tags by (simp add: fields_added_def)
    have "declared_type ?v = declared_type d" by (rule declared_type_cong) (simp add: version)
    then show "getFieldType d = fold (declared_type d) (section_nodes doc ''fields'') Map.empty"
      using types growsD(3) [OF grown] new(5) dt' by simp
    show "facts t1 = (\<Union>x\<in>set (section_nodes doc ''fields''). field_facts x)" "\<forall>m k. \<not> isGroup t1 m k"
      using added new by (simp_all add: fields_added_def)
    show "grows (getFieldTag d) (map_of (indexComponents pFix))
       (doc_facts (getFieldTag d) (map_of (indexComponents pFix)) doc pFix)
       (doc_groups (map_of (indexComponents pFix)) doc pFix) t1 d"
      using grown dt' tags by simp
  qed
qed

lemma node_number_declared:
  "node_number (getFieldTag d) x = Some k \<Longrightarrow> \<exists>s. getFieldTag d s = Some k"
  by (auto simp: node_number_def bind_eq_Some_conv)

lemma says_field_declared: "says_field (getFieldTag d) C x k \<Longrightarrow> \<exists>s. getFieldTag d s = Some k"
  by (induction rule: says_field.induct) (auto dest: node_number_declared)

text \<open>A component inside a component inside a group: required there, it makes its
  required fields required for the whole message, not for the group.\<close>

theorem nested_component_required_outside_group:
  assumes "getName x = ''group''" "y \<in> set (dom_children x)" "refers_to C y = Some c"
    and "z \<in> set (dom_children c)" "refers_to C z = Some c'" "is_required z"
    and "f \<in> set (dom_children c')" "names_field f" "is_required f" "node_number N f = Some k"
  shows "requires N C b x k"
proof -
  have "requires N C (is_required z) f k" using assms by (simp add: requires_direct)
  then have "requires N C False z k" by (rule requires_component [OF assms(5,7)])
  then have "group_requires N C y k" by (rule group_requires_component [OF assms(3,4)])
  then show ?thesis by (rule requires_group [OF assms(1,2)])
qed

text \<open>A component that starts with a component: a group takes a later field as its delimiter.\<close>

theorem delimiter_skips_nested_component:
  assumes "refers_to C x = Some c" "dom_children c = y # f # ys" "refers_to C y = Some c'"
    and "names_field f" "node_number N f = Some k" "k \<noteq> 0"
  shows "first_number N C x = k"
proof -
  have "\<not> names_field y" using assms(3) by (auto simp: refers_to_def names_field_def split: if_splits)
  with assms show ?thesis by (simp add: first_number_def own_number_def first_nonzero_def)
qed

section \<open>Properties\<close>

text \<open>C21: a dictionary that was loaded says exactly what its document says. Its version is that of the
  fix element. A name stands for a number exactly when the fields section declares it so (and never for two);
  a number is a field exactly when some name stands for it; its values are those listed, its type the
  last one declared. The message types are those declared; the fields of a message are those its element names, directly
  or through components at any depth; the fields it requires are those marked required whose
  component is required too. The header and trailer fields are those of their sections, where the version has them.\<close>

theorem loaded_dictionary_exact:
  assumes load: "DataDictionary_load n (Some doc) preserve = Some (Ok d)"
    and root: "getNode doc [''fix''] = Some pFix"
  shows "getVersion d = doc_version pFix \<and>
    (getFieldTag d s = Some k \<longleftrightarrow> (\<exists>x\<in>set (section_nodes doc ''fields''). declares x s k)) \<and>
    (isField d k \<longleftrightarrow> (\<exists>s. getFieldTag d s = Some k)) \<and>
    (v \<in> set (at_or_empty (m_fieldValues (dd d)) k) \<longleftrightarrow> (\<exists>x\<in>set (section_nodes doc ''fields''). (\<exists>s. declares x s k) \<and>
       (\<exists>y\<in>set (dom_children x). getName y = ''value'' \<and> dom_get y ''enum'' = Some v))) \<and>
    getFieldType d = fold (declared_type d) (section_nodes doc ''fields'') Map.empty \<and>
    (isMsgType d m \<longleftrightarrow> (\<exists>x\<in>set (section_nodes doc ''messages''). is_message x m)) \<and>
    (isMsgField d m k \<longleftrightarrow> (\<exists>x\<in>set (section_nodes doc ''messages''). is_message x m \<and>
       (\<exists>y\<in>set (dom_children x). says_field (getFieldTag d) (map_of (indexComponents pFix)) y k))) \<and>
    (isRequiredField d m k \<longleftrightarrow>
       (\<exists>x\<in>set (section_nodes doc ''messages''). is_message x m \<and>
         (\<exists>y\<in>set (dom_children x). requires (getFieldTag d) (map_of (indexComponents pFix)) True y k)) \<or>
       m = ''_header_'' \<and> (\<exists>x\<in>set (frame_nodes doc pFix ''header''). getName x = ''group'' \<and>
         (\<exists>y\<in>set (dom_children x). group_requires (getFieldTag d) (map_of (indexComponents pFix)) y k)) \<or>
       m = ''_trailer_'' \<and> (\<exists>x\<in>set (frame_nodes doc pFix ''trailer''). getName x = ''group'' \<and>
         (\<exists>y\<in>set (dom_children x). group_requires (getFieldTag d) (map_of (indexComponents pFix)) y k))) \<and>
    (dd_isHeaderField d k \<longleftrightarrow> (\<exists>x\<in>set (frame_nodes doc pFix ''header''). names_field x \<and> node_number (getFieldTag d) x = Some k)) \<and>
    (dd_isTrailerField d k \<longleftrightarrow> (\<exists>x\<in>set (frame_nodes doc pFix ''trailer''). names_field x \<and> node_number (getFieldTag d) x = Some k))"
proof -
  let ?N = "getFieldTag d" and ?C = "map_of (indexComponents pFix)"
  obtain t1 where version: "getVersion d = doc_version pFix"
    and tags: "\<forall>s k. ?N s = Some k \<longleftrightarrow> (\<exists>x\<in>set (section_nodes doc ''fields''). declares x s k)"
    and types: "getFieldType d = fold (declared_type d) (section_nodes doc ''fields'') Map.empty"
    and t1: "facts t1 = (\<Union>x\<in>set (section_nodes doc ''fields''). field_facts x)"
    and "\<forall>m k. \<not> isGroup t1 m k"
    and grown: "grows ?N ?C (doc_facts ?N ?C doc pFix) (doc_groups ?C doc pFix) t1 d" by (rule load_contents [OF load root])
  have all: "holds d f \<longleftrightarrow> (\<exists>x\<in>set (section_nodes doc ''fields''). f \<in> field_facts x) \<or> f \<in> doc_facts ?N ?C doc pFix" for f
    using arg_cong [OF growsD(5) [OF grown], of "\<lambda>S. f \<in> S"] t1 by simp
  note defs = doc_facts_def field_facts_def frame_facts_def message_facts_def message_field_facts_def
  have "isField d k \<longleftrightarrow> (\<exists>s. ?N s = Some k)"
    using all [of "IsField k"] tags says_field_declared [of d ?C _ k] by (auto simp: defs)
  moreover have "v \<in> set (at_or_empty (m_fieldValues (dd d)) k) \<longleftrightarrow> (\<exists>x\<in>set (section_nodes doc ''fields''). (\<exists>s. declares x s k) \<and>
       (\<exists>y\<in>set (dom_children x). getName y = ''value'' \<and> dom_get y ''enum'' = Some v))"
    using all [of "HasValue k v"] by (auto simp: defs)
  moreover have "isMsgType d m \<longleftrightarrow> (\<exists>x\<in>set (section_nodes doc ''messages''). is_message x m)"
    using all [of "IsMsgType m"] by (auto simp: defs)
  moreover have "isMsgField d m k \<longleftrightarrow> (\<exists>x\<in>set (section_nodes doc ''messages''). is_message x m \<and>
       (\<exists>y\<in>set (dom_children x). says_field ?N ?C y k))"
    using all [of "IsMsgField m k"] by (auto simp: defs)
  moreover have "isRequiredField d m k \<longleftrightarrow>
       (\<exists>x\<in>set (section_nodes doc ''messages''). is_message x m \<and> (\<exists>y\<in>set (dom_children x). requires ?N ?C True y k)) \<or>
       m = ''_header_'' \<and> (\<exists>x\<in>set (frame_nodes doc pFix ''header''). getName x = ''group'' \<and>
         (\<exists>y\<in>set (dom_children x). group_requires ?N ?C y k)) \<or>
       m = ''_trailer_'' \<and> (\<exists>x\<in>set (frame_nodes doc pFix ''trailer''). getName x = ''group'' \<and>
         (\<exists>y\<in>set (dom_children x). group_requires ?N ?C y k))"
    using all [of "IsRequired m k"] by (auto simp: defs)
  moreover have "dd_isHeaderField d k \<longleftrightarrow> (\<exists>x\<in>set (frame_nodes doc pFix ''header''). names_field x \<and> node_number ?N x = Some k)"
    "dd_isTrailerField d k \<longleftrightarrow> (\<exists>x\<in>set (frame_nodes doc pFix ''trailer''). names_field x \<and> node_number ?N x = Some k)"
    using all [of "IsHeader k"] all [of "IsTrailer k"] by (auto simp: defs)
  ultimately show ?thesis using version tags [rule_format] types by (intro conjI)
qed

lemma sample_loads:
  "\<exists>d g. DataDictionary_load 14 (Some sample_doc) False = Some (Ok d) \<and> getGroup d ''D'' 453 = Some (448, g)"
proof -
  have "(case DataDictionary_load 14 (Some sample_doc) False of
      Some (Inr d) \<Rightarrow> map_option fst (getGroup d ''D'' 453) = Some 448 | _ \<Rightarrow> False)" by code_simp
  then show ?thesis by (auto split: option.splits sum.splits)
qed

theorem loaded_dictionary_exact_witness:
  "\<exists>d. DataDictionary_load 14 (Some sample_doc) False = Some (Ok d) \<and> getVersion d = ''FIX.5.0'' \<and>
     isMsgType d ''D'' \<and> \<not> isMsgType d ''8'' \<and> getFieldTag d ''NoPartyIDs'' = Some 453 \<and> isMsgField d ''D'' 453"
proof -
  from sample_loads obtain d where d: "DataDictionary_load 14 (Some sample_doc) False = Some (Ok d)" by blast
  have root: "getNode sample_doc [''fix''] = Some (hd sample_doc)" by code_simp
  note exact = loaded_dictionary_exact [OF d root]
  have version: "getVersion d = ''FIX.5.0''"
  proof -
    have "doc_version (hd sample_doc) = ''FIX.5.0''" by code_simp
    moreover have "getVersion d = doc_version (hd sample_doc)" by (rule exact [THEN conjunct1])
    ultimately show ?thesis by simp
  qed
  have msg: "isMsgType d m \<longleftrightarrow> (\<exists>x\<in>set (section_nodes sample_doc ''messages''). is_message x m)" for m
    using exact [where m = m and s = "[]" and k = 0 and v = "[]"] by (elim conjE)
  have tag: "getFieldTag d s = Some k \<longleftrightarrow> (\<exists>x\<in>set (section_nodes sample_doc ''fields''). declares x s k)" for s k
    using exact [where m = "[]" and s = s and k = k and v = "[]"] by (elim conjE)
  have "\<exists>x\<in>set (section_nodes sample_doc ''messages''). is_message x ''D''"
    "\<not> (\<exists>x\<in>set (section_nodes sample_doc ''messages''). is_message x ''8'')"
    "\<exists>x\<in>set (section_nodes sample_doc ''fields''). declares x ''NoPartyIDs'' 453"
    by (code_simp, code_simp, code_simp)
  then have facts: "isMsgType d ''D''" "\<not> isMsgType d ''8''" "getFieldTag d ''NoPartyIDs'' = Some 453"
    by (simp_all only: msg tag not_False_eq_True)
  let ?C = "map_of (indexComponents (hd sample_doc))"
  let ?grp = "sample_ref ''group'' ''NoPartyIDs'' ''N'' [sample_ref ''field'' ''PartyID'' ''N'' []]"
  let ?ref = "sample_ref ''component'' ''Parties'' ''N'' []"
  have "says_field (getFieldTag d) ?C ?grp 453"
    by (rule says_field.direct) (simp_all add: names_field_def node_number_def dom_get_def sample_ref_def facts)
  moreover have "refers_to ?C ?ref = Some (Node ''component'' [(''name'', ''Parties'')] [?grp])" by code_simp
  ultimately have "says_field (getFieldTag d) ?C ?ref 453" by (auto intro: says_field.through)
  moreover have "\<exists>x\<in>set (section_nodes sample_doc ''messages''). is_message x ''D'' \<and> ?ref \<in> set (dom_children x)" by code_simp
  moreover have "isMsgField d ''D'' 453 \<longleftrightarrow> (\<exists>x\<in>set (section_nodes sample_doc ''messages''). is_message x ''D'' \<and>
      (\<exists>y\<in>set (dom_children x). says_field (getFieldTag d) ?C y 453))"
    using exact [where m = "''D''" and s = "[]" and k = 453 and v = "[]"] by (elim conjE)
  ultimately have "isMsgField d ''D'' 453" by blast
  with d version facts show ?thesis by blast
qed



end
