(* ===== verification/SocketMonitors.thy ===== *)
theory SocketMonitors
  imports Effects
begin

text \<open>
  The socket monitor of the single-threaded transports: the sets of sockets it polls, the queue of dropped sockets
  whose drop has not been reported, and one pass of the reactor over them. A socket is a number. The answers of
  \<open>poll\<close> and of the clock are arguments of the operations; the wake-up pair is the list of handles written to one end
  and not yet read from the other; the calls to \<open>shutdown\<close> and \<open>close\<close> are recorded in order. Socket options are not
  modelled.
\<close>

section \<open>State\<close>

type_synonym socket_handle = int

abbreviation INVALID_SOCKET_HANDLE :: socket_handle where
  "INVALID_SOCKET_HANDLE \<equiv> - 1"

text \<open>\<open>m_owner\<close> is the thread that blocks on the monitor, none before the first pass.\<close>

record SocketMonitor =
  m_timeout :: int
  m_signal :: socket_handle
  m_interrupt :: socket_handle
  m_connectSockets :: "socket_handle set"
  m_readSockets :: "socket_handle set"
  m_writeSockets :: "socket_handle set"
  m_dropped :: "socket_handle list"
  m_ticks :: int
  m_owner :: "nat option"
  wakeups :: "socket_handle list"
  shutdowns :: "socket_handle list"
  closes :: "socket_handle list"

definition new_SocketMonitor :: "int \<Rightarrow> socket_handle \<times> socket_handle \<Rightarrow> int \<Rightarrow> SocketMonitor" where
  "new_SocketMonitor timeout sockets now =
     \<lparr>m_timeout = timeout, m_signal = fst sockets, m_interrupt = snd sockets, m_connectSockets = {},
      m_readSockets = {snd sockets}, m_writeSockets = {}, m_dropped = [], m_ticks = now, m_owner = None,
      wakeups = [], shutdowns = [], closes = []\<rparr>"

text \<open>The destructor: what it closes, in order.\<close>

definition delete_SocketMonitor :: "SocketMonitor \<Rightarrow> socket_handle list" where
  "delete_SocketMonitor m =
     sorted_list_of_set (m_readSockets m) @
     filter (\<lambda>s. s \<notin> m_readSockets m) (sorted_list_of_set (m_connectSockets m)) @
     m_dropped m @ [m_signal m]"

section \<open>Operations\<close>

definition addConnect :: "socket_handle \<Rightarrow> SocketMonitor \<Rightarrow> bool \<times> SocketMonitor" where
  "addConnect s m =
     (if s \<in> m_connectSockets m then (False, m)
      else (True, m\<lparr>m_connectSockets := insert s (m_connectSockets m)\<rparr>))"

definition addRead :: "socket_handle \<Rightarrow> SocketMonitor \<Rightarrow> bool \<times> SocketMonitor" where
  "addRead s m =
     (if s \<in> m_readSockets m then (False, m)
      else (True, m\<lparr>m_readSockets := insert s (m_readSockets m)\<rparr>))"

definition addWrite :: "socket_handle \<Rightarrow> SocketMonitor \<Rightarrow> bool \<times> SocketMonitor" where
  "addWrite s m =
     (if s \<notin> m_readSockets m then (False, m)
      else if s \<in> m_writeSockets m then (False, m)
      else (True, m\<lparr>m_writeSockets := insert s (m_writeSockets m)\<rparr>))"

text \<open>The first argument is the calling thread.\<close>

definition drop_socket :: "nat \<Rightarrow> socket_handle \<Rightarrow> SocketMonitor \<Rightarrow> bool \<times> SocketMonitor" where
  "drop_socket self s m =
     (if m_owner m \<noteq> None \<and> m_owner m \<noteq> Some self then (True, m\<lparr>shutdowns := shutdowns m @ [s]\<rparr>)
      else if s \<in> m_readSockets m \<or> s \<in> m_writeSockets m \<or> s \<in> m_connectSockets m then
        (True, m\<lparr>shutdowns := shutdowns m @ [s],
                m_readSockets := m_readSockets m - {s},
                m_writeSockets := m_writeSockets m - {s},
                m_connectSockets := m_connectSockets m - {s},
                m_dropped := m_dropped m @ [s]\<rparr>)
      else (False, m))"

text \<open>How long to poll, in milliseconds; \<open>now\<close> is the monotonic clock.\<close>

definition getTimeval :: "bool \<Rightarrow> int \<Rightarrow> SocketMonitor \<Rightarrow> int \<times> SocketMonitor" where
  "getTimeval should_poll now m =
     (if should_poll then (0, m)
      else if m_timeout m = 0 then (0, m)
      else let period = m_timeout m * 1000; elapsed = now - m_ticks m in
        if elapsed \<ge> period \<or> elapsed < 0 then (period, m\<lparr>m_ticks := now\<rparr>)
        else (period - elapsed, m))"

definition sleepIfEmpty :: "bool \<Rightarrow> SocketMonitor \<Rightarrow> bool" where
  "sleepIfEmpty should_poll m =
     (if should_poll then False
      else m_readSockets m = {} \<and> m_writeSockets m = {} \<and> m_connectSockets m = {})"

definition signal_monitor :: "socket_handle \<Rightarrow> SocketMonitor \<Rightarrow> SocketMonitor" where
  "signal_monitor s m = m\<lparr>wakeups := wakeups m @ [s]\<rparr>"

definition unsignal_monitor :: "socket_handle \<Rightarrow> SocketMonitor \<Rightarrow> SocketMonitor" where
  "unsignal_monitor s m =
     (if s \<notin> m_writeSockets m then m else m\<lparr>m_writeSockets := m_writeSockets m - {s}\<rparr>)"

section \<open>One pass of the reactor\<close>

datatype poll_event = POLLIN | POLLPRI | POLLOUT | POLLERR | POLLHUP | POLLNVAL

text \<open>What \<open>poll\<close> answers: a signal interrupted it, it failed, nothing was ready in time, or the events of each entry
  of the array.\<close>

datatype poll_answer = Interrupted | Failed | TimedOut | Ready "poll_event set list"

text \<open>The strategy of a transport. A callback sees and changes the transport and the monitor, and may throw.\<close>

type_synonym 'st reactor = "('st \<times> SocketMonitor, unit) eff"

record 'st Strategy =
  onConnect :: "socket_handle \<Rightarrow> 'st reactor"
  onWrite :: "socket_handle \<Rightarrow> 'st reactor"
  onEvent :: "socket_handle \<Rightarrow> 'st reactor"
  onError :: "socket_handle \<Rightarrow> 'st reactor"
  onErrorAll :: "'st reactor"
  onTimeout :: "'st reactor"

text \<open>The wake-up pair is read one handle at a time; when there is none, the handle stays 0.\<close>

definition read_wakeup :: "SocketMonitor \<Rightarrow> SocketMonitor" where
  "read_wakeup m =
     (let socket = (case wakeups m of [] \<Rightarrow> 0 | x # _ \<Rightarrow> x)
      in snd (addWrite socket (m\<lparr>wakeups := tl (wakeups m)\<rparr>)))"

definition processRead :: "'st Strategy \<Rightarrow> socket_handle \<Rightarrow> 'st reactor" where
  "processRead strategy s w =
     (if s = m_interrupt (snd w) then (Ok (), fst w, read_wakeup (snd w)) else onEvent strategy s w)"

definition connected_socket :: "socket_handle \<Rightarrow> SocketMonitor \<Rightarrow> SocketMonitor" where
  "connected_socket s m =
     m\<lparr>m_connectSockets := m_connectSockets m - {s}, m_readSockets := insert s (m_readSockets m)\<rparr>"

definition processWrite :: "'st Strategy \<Rightarrow> socket_handle \<Rightarrow> 'st reactor" where
  "processWrite strategy s w =
     (if s \<in> m_connectSockets (snd w) then onConnect strategy s (fst w, connected_socket s (snd w))
      else onWrite strategy s w)"

definition processError :: "'st Strategy \<Rightarrow> socket_handle \<Rightarrow> 'st reactor" where
  "processError strategy s = onError strategy s"

definition process_entry :: "'st Strategy \<Rightarrow> socket_handle \<times> poll_event set \<Rightarrow> 'st reactor" where
  "process_entry strategy entry =
     (let s = fst entry; revents = snd entry in eseq [
       ewhen (POLLIN \<in> revents \<or> POLLPRI \<in> revents) (processRead strategy s),
       ewhen (POLLOUT \<in> revents) (processWrite strategy s),
       ewhen (POLLERR \<in> revents) (processError strategy s)])"

definition processPollList :: "'st Strategy \<Rightarrow> (socket_handle \<times> poll_event set) list \<Rightarrow> 'st reactor" where
  "processPollList strategy pfds = eseq (map (process_entry strategy) pfds)"

text \<open>The array given to \<open>poll\<close>: the sockets in the order of the sets.\<close>

definition buildSets :: "SocketMonitor \<Rightarrow> socket_handle list" where
  "buildSets m =
     sorted_list_of_set (m_readSockets m) @ sorted_list_of_set (m_connectSockets m) @ sorted_list_of_set (m_writeSockets m)"

text \<open>The loop that calls \<open>poll\<close> again after an interruption: each answer comes with the clock reading before it.
  None: the answers ran out, the call has not returned.\<close>

fun poll_loop :: "bool \<Rightarrow> (int \<times> poll_answer) list \<Rightarrow> SocketMonitor \<Rightarrow> (poll_answer \<times> SocketMonitor) option" where
  "poll_loop should_poll [] m = None"
| "poll_loop should_poll ((now, answer) # answers) m =
     (let m = snd (getTimeval should_poll now m)
      in if answer = Interrupted then poll_loop should_poll answers m else Some (answer, m))"

text \<open>The loop that reports the dropped sockets. The front of the queue stays there during its report and is
  closed after it. True: the queue was emptied here and the pass is over.\<close>

definition close_reported :: "socket_handle \<Rightarrow> SocketMonitor \<Rightarrow> SocketMonitor" where
  "close_reported s m = m\<lparr>m_dropped := tl (m_dropped m), closes := closes m @ [s]\<rparr>"

partial_function (option) report_dropped :: "'st Strategy \<Rightarrow> 'st \<times> SocketMonitor \<Rightarrow> (bool result \<times> 'st \<times> SocketMonitor) option" where
  "report_dropped strategy w =
     (case m_dropped (snd w) of
        [] \<Rightarrow> Some (Ok False, w)
      | dropped # _ \<Rightarrow>
          (case onError strategy dropped w of
             (Inl e, w) \<Rightarrow> Some (Throw e, w)
           | (Inr _, w) \<Rightarrow>
               let m = close_reported dropped (snd w)
               in if m_dropped m = [] then Some (Ok True, fst w, m) else report_dropped strategy (fst w, m)))"

definition block :: "nat \<Rightarrow> 'st Strategy \<Rightarrow> bool \<Rightarrow> (int \<times> poll_answer) list \<Rightarrow> 'st \<times> SocketMonitor \<Rightarrow> (unit result \<times> 'st \<times> SocketMonitor) option" where
  "block self strategy should_poll answers w =
     (case report_dropped strategy (fst w, (snd w)\<lparr>m_owner := Some self\<rparr>) of
        None \<Rightarrow> None
      | Some (Inl e, w) \<Rightarrow> Some (Throw e, w)
      | Some (Inr True, w) \<Rightarrow> Some (Ok (), w)
      | Some (Inr False, w) \<Rightarrow>
          let pfds = buildSets (snd w) in
          if sleepIfEmpty should_poll (snd w) then Some (onTimeout strategy w)
          else
            (case poll_loop should_poll answers (snd w) of
               None \<Rightarrow> None
             | Some (answer, m) \<Rightarrow>
                 Some (case answer of
                         TimedOut \<Rightarrow> onTimeout strategy (fst w, m)
                       | Ready revents \<Rightarrow> processPollList strategy (zip pfds revents) (fst w, m)
                       | _ \<Rightarrow> onErrorAll strategy (fst w, m))))"

section \<open>The invariant of the monitor\<close>

text \<open>The descriptors that are open because of the monitor: a number among them cannot be that of a new socket.\<close>

definition held :: "SocketMonitor \<Rightarrow> socket_handle set" where
  "held m = m_readSockets m \<union> m_connectSockets m \<union> set (m_dropped m) \<union> {m_signal m}"

definition monitor_ok :: "SocketMonitor \<Rightarrow> bool" where
  "monitor_ok m =
     (finite (m_readSockets m) \<and> finite (m_connectSockets m) \<and> m_writeSockets m \<subseteq> m_readSockets m \<and>
      m_readSockets m \<inter> m_connectSockets m = {} \<and> distinct (m_dropped m) \<and>
      set (m_dropped m) \<inter> (m_readSockets m \<union> m_connectSockets m) = {} \<and>
      m_signal m \<notin> m_readSockets m \<union> m_connectSockets m \<union> set (m_dropped m))"

text \<open>What a thread may do to the monitor without a new descriptor, and with one.\<close>

inductive shrinks :: "SocketMonitor \<Rightarrow> SocketMonitor \<Rightarrow> bool" where
  stays: "shrinks m m"
| writes: "shrinks m m' \<Longrightarrow> shrinks m (snd (addWrite s m'))"
| drops: "shrinks m m' \<Longrightarrow> shrinks m (snd (drop_socket self s m'))"
| signals: "shrinks m m' \<Longrightarrow> shrinks m (signal_monitor s m')"
| unsignals: "shrinks m m' \<Longrightarrow> shrinks m (unsignal_monitor s m')"

inductive serves :: "SocketMonitor \<Rightarrow> SocketMonitor \<Rightarrow> bool" where
  shrunk: "shrinks m m' \<Longrightarrow> serves m m'"
| connects: "serves m m' \<Longrightarrow> s \<notin> held m' \<Longrightarrow> shrinks (snd (addConnect s m')) m'' \<Longrightarrow> serves m m''"
| reads: "serves m m' \<Longrightarrow> s \<notin> held m' \<Longrightarrow> shrinks (snd (addRead s m')) m'' \<Longrightarrow> serves m m''"

lemmas monitor_ops = addConnect_def addRead_def addWrite_def drop_socket_def signal_monitor_def unsignal_monitor_def

lemma shrinks_trans: "shrinks m' m'' \<Longrightarrow> shrinks m m' \<Longrightarrow> shrinks m m''"
  by (induction rule: shrinks.induct) (auto intro: shrinks.intros)

lemma serves_shrinks: "serves m m' \<Longrightarrow> shrinks m' m'' \<Longrightarrow> serves m m''"
  by (cases rule: serves.cases) (auto intro: serves.intros shrinks_trans)

lemma serves_trans: "serves m' m'' \<Longrightarrow> serves m m' \<Longrightarrow> serves m m''"
  by (induction rule: serves.induct) (auto intro: serves.intros serves_shrinks)

lemma shrinks_ok: "shrinks m m' \<Longrightarrow> monitor_ok m \<Longrightarrow> monitor_ok m'"
  by (induction rule: shrinks.induct) (auto simp: monitor_ok_def monitor_ops)

text \<open>Nothing is closed, the queue grows by registered sockets only, and every descriptor stays accounted for.\<close>

lemma shrinks_moves:
  "shrinks m m' \<Longrightarrow> monitor_ok m \<Longrightarrow>
   closes m' = closes m \<and> m_signal m' = m_signal m \<and> m_interrupt m' = m_interrupt m \<and> m_owner m' = m_owner m \<and>
   (\<exists>ys. m_dropped m' = m_dropped m @ ys \<and> distinct ys \<and> set ys \<subseteq> m_readSockets m \<union> m_connectSockets m \<and>
     m_readSockets m' = m_readSockets m - set ys \<and> m_connectSockets m' = m_connectSockets m - set ys)"
proof (induction rule: shrinks.induct)
  case (drops m m' self s)
  then obtain ys where ys: "m_dropped m' = m_dropped m @ ys" "distinct ys" "set ys \<subseteq> m_readSockets m \<union> m_connectSockets m"
    "m_readSockets m' = m_readSockets m - set ys" "m_connectSockets m' = m_connectSockets m - set ys"
    by blast
  have ok: "m_writeSockets m' \<subseteq> m_readSockets m'" using shrinks_ok [OF drops.hyps drops.prems] by (simp add: monitor_ok_def)
  show ?case
  proof (cases "(m_owner m' = None \<or> m_owner m' = Some self) \<and> (s \<in> m_readSockets m' \<or> s \<in> m_connectSockets m')")
    case True
    then show ?thesis using drops ys by (intro conjI exI [of _ "ys @ [s]"]) (auto simp: drop_socket_def)
  next
    case False
    then show ?thesis using drops ys ok by (intro conjI exI [of _ ys]) (auto simp: drop_socket_def)
  qed
qed (auto simp: monitor_ops)

lemma serves_ok: "serves m m' \<Longrightarrow> monitor_ok m \<Longrightarrow> monitor_ok m'"
proof (induction rule: serves.induct)
  case (connects m m' s m'')
  have "monitor_ok (snd (addConnect s m'))" using connects by (auto simp: monitor_ok_def addConnect_def held_def)
  then show ?case by (rule shrinks_ok [OF connects.hyps(3)])
next
  case (reads m m' s m'')
  have "monitor_ok (snd (addRead s m'))" using reads by (auto simp: monitor_ok_def addRead_def held_def)
  then show ?case by (rule shrinks_ok [OF reads.hyps(3)])
qed (rule shrinks_ok)

lemma new_monitor_ok: "fst sockets \<noteq> snd sockets \<Longrightarrow> monitor_ok (new_SocketMonitor timeout sockets now)"
  by (simp add: monitor_ok_def new_SocketMonitor_def)

lemma delete_closes_once:
  "monitor_ok m \<Longrightarrow> distinct (delete_SocketMonitor m) \<and> set (delete_SocketMonitor m) = held m"
  by (auto simp: monitor_ok_def delete_SocketMonitor_def held_def)

section \<open>The contract between the monitor and a transport\<close>

text \<open>A computation that returns keeps \<open>P\<close>; nothing is said of one that throws.\<close>

definition settles :: "('s \<Rightarrow> bool) \<Rightarrow> ('s, 'a) eff \<Rightarrow> bool" where
  "settles P m = (\<forall>s x s'. P s \<longrightarrow> m s = (Ok x, s') \<longrightarrow> P s')"

named_theorems settles_intros

lemma settlesD: "settles P m \<Longrightarrow> P s \<Longrightarrow> m s = (Ok x, s') \<Longrightarrow> P s'"
  by (auto simp: settles_def)

lemma settles_keeps [settles_intros]: "keeps P m \<Longrightarrow> settles P m"
  by (metis keepsD settles_def snd_conv)

lemma settles_bind [settles_intros]: "settles P m \<Longrightarrow> (\<And>x. settles P (f x)) \<Longrightarrow> settles P (ebind m f)"
proof (unfold settles_def, intro allI impI)
  fix s y s'
  assume m: "\<forall>s x s'. P s \<longrightarrow> m s = (Ok x, s') \<longrightarrow> P s'" and f: "\<And>x. \<forall>s y s'. P s \<longrightarrow> f x s = (Ok y, s') \<longrightarrow> P s'"
    and s: "P s" and run: "ebind m f s = (Ok y, s')"
  obtain r s1 where step: "m s = (r, s1)" by (cases "m s")
  then obtain x where "r = Ok x" "f x s1 = (Ok y, s')" using run by (cases r) (auto simp: ebind_def)
  then show "P s'" using m f s step by blast
qed

lemma settles_when [settles_intros]: "(b \<Longrightarrow> settles P m) \<Longrightarrow> settles P (ewhen b m)"
  by (cases b) (auto simp: ewhen_def settles_def eret_def)

lemma settles_seq [settles_intros]: "settles P (eseq [])" "settles P m \<Longrightarrow> settles P (eseq ms) \<Longrightarrow> settles P (eseq (m # ms))"
  by (simp_all add: settles_keeps keeps_basic settles_bind)

lemma settles_seq_map: "(\<And>x. x \<in> set xs \<Longrightarrow> settles P (f x)) \<Longrightarrow> settles P (eseq (map f xs))"
  by (induction xs) (simp_all add: settles_keeps keeps_basic settles_bind)

text \<open>What the reports of dropped sockets need: a report opens nothing, even when it throws, and one that returns keeps the
  invariant of the transport once the socket is closed.\<close>

locale drop_reports =
  fixes self :: nat
    and strategy :: "'st Strategy"
    and good :: "'st \<times> SocketMonitor \<Rightarrow> bool"
  assumes good_ok: "good w \<Longrightarrow> monitor_ok (snd w)"
    and onError_shrinks: "good w \<Longrightarrow> shrinks (snd w) (snd (snd (onError strategy s w)))"
    and reported_good: "good w \<Longrightarrow> m_dropped (snd w) = s # rest \<Longrightarrow> onError strategy s w = (Ok (), w') \<Longrightarrow>
      good (fst w', close_reported s (snd w'))"

text \<open>What a pass needs: every callback that returns keeps the invariant. An exception leaves the reactor and ends it.\<close>

locale transport_strategy = drop_reports +
  assumes onConnect_good: "good w \<Longrightarrow> s \<in> m_connectSockets (snd w) \<Longrightarrow>
      onConnect strategy s (fst w, connected_socket s (snd w)) = (Ok (), w') \<Longrightarrow> good w'"
    and callbacks_good: "settles good (onError strategy s)" "settles good (onWrite strategy s)" "settles good (onEvent strategy s)"
      "settles good (onErrorAll strategy)" "settles good (onTimeout strategy)"
    and owner_good: "good (st, m) \<Longrightarrow> good (st, m\<lparr>m_owner := Some self\<rparr>)"
    and ticks_good: "good (st, m) \<Longrightarrow> good (st, m\<lparr>m_ticks := t\<rparr>)"
    and wakeup_good: "good (st, m) \<Longrightarrow> good (st, read_wakeup m)"

text \<open>The loop over the dropped sockets ends: it reports and closes, in order and each socket once, the whole queue and
  what its own reports drop. When a report throws, the socket it was about is still at the front of the queue.\<close>

definition reported :: "SocketMonitor \<Rightarrow> SocketMonitor \<Rightarrow> socket_handle list \<Rightarrow> bool" where
  "reported m m' ys =
     (closes m' @ m_dropped m' = closes m @ m_dropped m @ ys \<and> distinct (m_dropped m @ ys) \<and>
      set ys \<subseteq> m_readSockets m \<union> m_connectSockets m \<and>
      m_readSockets m' = m_readSockets m - set ys \<and> m_connectSockets m' = m_connectSockets m - set ys)"

lemma reported_trans: "reported m m' ys \<Longrightarrow> reported m' m'' zs \<Longrightarrow> m_dropped m' = ds \<Longrightarrow> monitor_ok m \<Longrightarrow> reported m m'' (ys @ zs)"
  by (auto simp: reported_def monitor_ok_def)

lemma shrinks_reported: "shrinks m m' \<Longrightarrow> monitor_ok m \<Longrightarrow> \<exists>ys. reported m m' ys"
  using shrinks_moves [of m m'] by (fastforce simp: reported_def monitor_ok_def)

lemma reported_close: "reported m m' ys \<Longrightarrow> m_dropped m' = s # rest \<Longrightarrow> reported m (close_reported s m') ys"
  by (auto simp: reported_def close_reported_def)

lemma reported_card:
  assumes "reported m m' ys" "monitor_ok m"
  shows "card (m_readSockets m' \<union> m_connectSockets m') + length ys = card (m_readSockets m \<union> m_connectSockets m)"
proof -
  let ?open = "m_readSockets m \<union> m_connectSockets m"
  have fin: "finite ?open" and ys: "set ys \<subseteq> ?open" "distinct ys" using assms by (auto simp: monitor_ok_def reported_def)
  have "m_readSockets m' \<union> m_connectSockets m' = ?open - set ys" using assms(1) by (auto simp: reported_def)
  then show ?thesis using ys card_mono [OF fin ys(1)] by (simp add: card_Diff_subset distinct_card)
qed

context drop_reports
begin

lemma report_dropped_ends:
  assumes "good w"
  shows "\<exists>x w' ys. report_dropped strategy w = Some (x, w') \<and> reported (snd w) (snd w') ys \<and>
    (\<forall>b. x = Ok b \<longrightarrow> good w' \<and> m_dropped (snd w') = [] \<and> (b \<longleftrightarrow> m_dropped (snd w) \<noteq> [])) \<and> (m_dropped (snd w) = [] \<longrightarrow> w' = w)"
  using assms
proof (induction "card (m_readSockets (snd w) \<union> m_connectSockets (snd w)) + length (m_dropped (snd w))" arbitrary: w rule: less_induct)
  case less
  have ok: "monitor_ok (snd w)" by (rule good_ok [OF less.prems])
  show ?case
  proof (cases "m_dropped (snd w)")
    case Nil
    then show ?thesis using less.prems
      by (intro exI [of _ "Ok False"] exI [of _ w] exI [of _ "[]"]) (simp add: report_dropped.simps [of strategy w] reported_def)
  next
    case (Cons s rest)
    obtain x w1 where run: "onError strategy s w = (x, w1)" by (cases "onError strategy s w")
    obtain ys where ys: "reported (snd w) (snd w1) ys" "m_dropped (snd w1) = s # rest @ ys"
      using shrinks_moves [OF onError_shrinks [OF less.prems, of s] ok] shrinks_reported [OF onError_shrinks [OF less.prems, of s] ok] Cons run
      by (auto simp: reported_def)
    show ?thesis
    proof (cases x)
      case (Inl e)
      then have "report_dropped strategy w = Some (Throw e, w1)" by (subst report_dropped.simps) (simp add: Cons run)
      then show ?thesis using ys Cons by (intro exI [of _ "Throw e"] exI [of _ w1] exI [of _ ys]) simp
    next
      case (Inr u)
      define m where "m = close_reported s (snd w1)"
      have good: "good (fst w1, m)" unfolding m_def using reported_good [OF less.prems Cons, of w1] run Inr by simp
      have m: "reported (snd w) m ys" "m_dropped m = rest @ ys"
        using reported_close [OF ys] ys(2) by (simp_all add: m_def close_reported_def)
      have step: "report_dropped strategy w = (if m_dropped m = [] then Some (Ok True, fst w1, m) else report_dropped strategy (fst w1, m))"
        by (subst report_dropped.simps) (simp add: Cons run Inr m_def Let_def)
      show ?thesis
      proof (cases "m_dropped m = []")
        case True
        then show ?thesis using step Cons m good by (intro exI [of _ "Ok True"] exI [of _ "(fst w1, m)"] exI [of _ ys]) simp
      next
        case False
        have "card (m_readSockets (snd (fst w1, m)) \<union> m_connectSockets (snd (fst w1, m))) + length (m_dropped (snd (fst w1, m))) <
            card (m_readSockets (snd w) \<union> m_connectSockets (snd w)) + length (m_dropped (snd w))"
          using reported_card [OF m(1) ok] Cons m(2) by simp
        from less.hyps [OF this good] obtain y w' zs where
          rec: "report_dropped strategy (fst w1, m) = Some (y, w')" "reported m (snd w') zs"
            "\<And>b. y = Ok b \<Longrightarrow> good w' \<and> m_dropped (snd w') = [] \<and> b" using False by fastforce
        have "reported (snd w) (snd w') (ys @ zs)" by (rule reported_trans [OF m(1) rec(2) refl ok])
        then show ?thesis using step Cons False rec by (intro exI [of _ y] exI [of _ w'] exI [of _ "ys @ zs"]) auto
      qed
    qed
  qed
qed

text \<open>Reporting throws only where a report of a state on the way throws.\<close>

lemma report_dropped_throws:
  assumes "report_dropped strategy w = Some (Throw e, w')" "good w"
  shows "\<exists>w1 s. good w1 \<and> s \<in> set (m_dropped (snd w1)) \<and> fst (onError strategy s w1) = Throw e"
proof -
  let ?throws = "\<exists>w1 s. good w1 \<and> s \<in> set (m_dropped (snd w1)) \<and> fst (onError strategy s w1) = Throw e"
  have "strategy = strategy \<longrightarrow> good w \<longrightarrow> fst (Throw e :: bool result, w') = Throw e \<longrightarrow> ?throws"
  proof (rule report_dropped.raw_induct [where P = "\<lambda>S w r. S = strategy \<longrightarrow> good w \<longrightarrow> fst r = Throw e \<longrightarrow> ?throws", OF _ assms(1)], intro impI)
    fix f S w r
    assume rec: "\<And>S w r. f S w = Some r \<Longrightarrow> S = strategy \<longrightarrow> good w \<longrightarrow> fst r = Throw e \<longrightarrow> ?throws"
      and body: "(case m_dropped (snd w) of [] \<Rightarrow> Some (Ok False, w) | dropped # _ \<Rightarrow>
          (case onError S dropped w of (Inl e, w) \<Rightarrow> Some (Throw e, w) | (Inr _, w) \<Rightarrow>
             let m = close_reported dropped (snd w) in if m_dropped m = [] then Some (Ok True, fst w, m) else f S (fst w, m))) = Some r"
      and S: "S = strategy" and w: "good w" and r: "fst r = Throw e"
    from body r obtain s rest where s: "m_dropped (snd w) = s # rest" by (auto split: list.splits)
    obtain x w1 where run: "onError strategy s w = (x, w1)" by (cases "onError strategy s w")
    show ?throws
    proof (cases x)
      case (Inl e')
      then have "fst (onError strategy s w) = Throw e" "s \<in> set (m_dropped (snd w))" using body S r s run by auto
      then show ?throws using w by blast
    next
      case (Inr u)
      have "good (fst w1, close_reported s (snd w1))" using reported_good [OF w s, of w1] run Inr by simp
      moreover have "f strategy (fst w1, close_reported s (snd w1)) = Some r" using body S r s run Inr by (auto simp: Let_def split: if_splits)
      ultimately show ?throws using rec r by blast
    qed
  qed
  then show ?thesis using assms(2) by simp
qed

end

context transport_strategy
begin

lemma settles_process_entry: "settles good (process_entry strategy entry)"
proof -
  have "settles good (processRead strategy s)" for s
    unfolding settles_def
  proof (intro allI impI)
    fix w x w' assume "good w" "processRead strategy s w = (Ok x, w')"
    then show "good w'" using wakeup_good [of "fst w" "snd w"] settlesD [OF callbacks_good(3)] by (auto simp: processRead_def split: if_splits)
  qed
  moreover have "settles good (processWrite strategy s)" for s
    unfolding settles_def
  proof (intro allI impI)
    fix w x w' assume "good w" "processWrite strategy s w = (Ok x, w')"
    then show "good w'" using onConnect_good [of w s w'] settlesD [OF callbacks_good(2)] by (auto simp: processWrite_def split: if_splits)
  qed
  ultimately show ?thesis
    unfolding process_entry_def Let_def processError_def by (intro settles_seq settles_when callbacks_good)
qed

lemma settles_processPollList: "settles good (processPollList strategy pfds)"
  unfolding processPollList_def by (rule settles_seq_map) (rule settles_process_entry)

lemma poll_loop_good: "good (st, m) \<Longrightarrow> poll_loop should_poll answers m = Some (answer, m') \<Longrightarrow> good (st, m')"
proof (induction should_poll answers m rule: poll_loop.induct)
  case (2 should_poll now a answers m)
  have "snd (getTimeval should_poll now m) \<in> {m, m\<lparr>m_ticks := now\<rparr>}" by (auto simp: getTimeval_def Let_def)
  then have "good (st, snd (getTimeval should_poll now m))" using 2(2) ticks_good [of st m] by auto
  then show ?case using 2 by (auto simp: Let_def split: if_splits)
qed simp

lemma poll_loop_answered: "\<exists>e\<in>set answers. snd e \<noteq> Interrupted \<Longrightarrow> \<exists>x. poll_loop should_poll answers m = Some x"
  by (induction should_poll answers m rule: poll_loop.induct) (auto simp: Let_def)

text \<open>A pass keeps the contract, and one that \<open>poll\<close> answers ends.\<close>

lemma block_good:
  assumes "good w" "block self strategy should_poll answers w = Some (Ok (), w')"
  shows "good w'"
proof -
  have "good (fst w, (snd w)\<lparr>m_owner := Some self\<rparr>)" using assms(1) owner_good [of "fst w" "snd w"] by simp
  from report_dropped_ends [OF this] obtain x w1 where
    r: "report_dropped strategy (fst w, (snd w)\<lparr>m_owner := Some self\<rparr>) = Some (x, w1)" "\<And>b. x = Ok b \<Longrightarrow> good w1" by blast
  have "good (fst w1, m)" if "x = Ok b" "poll_loop should_poll answers (snd w1) = Some (a, m)" for a m b
    using poll_loop_good [of "fst w1" "snd w1" should_poll answers a m] r(2) [OF that(1)] that(2) by simp
  note after = settlesD [OF callbacks_good(5) this] settlesD [OF callbacks_good(4) this] settlesD [OF settles_processPollList this]
    settlesD [OF callbacks_good(5) r(2)]
  show ?thesis
    using assms(2) r after
    by (auto simp: block_def Let_def split: sum.splits bool.splits if_splits option.splits poll_answer.splits prod.splits)
qed

lemma block_returns:
  assumes "good w" "\<exists>e\<in>set answers. snd e \<noteq> Interrupted"
  shows "\<exists>x w'. block self strategy should_poll answers w = Some (x, w') \<and> (x = Ok () \<longrightarrow> good w')"
proof -
  have "good (fst w, (snd w)\<lparr>m_owner := Some self\<rparr>)" using assms(1) owner_good [of "fst w" "snd w"] by simp
  from report_dropped_ends [OF this] obtain b w1 where "report_dropped strategy (fst w, (snd w)\<lparr>m_owner := Some self\<rparr>) = Some (b, w1)"
    by blast
  moreover obtain a m where "poll_loop should_poll answers (snd w1) = Some (a, m)" using poll_loop_answered [OF assms(2)] by fastforce
  ultimately have "block self strategy should_poll answers w \<noteq> None" by (simp add: block_def Let_def del: not_None_eq split: sum.split bool.split)
  with block_good [OF assms(1)] show ?thesis by fastforce
qed

end

end
