(* ===== verification/SocketConnections.thy ===== *)
theory SocketConnections
  imports SocketMonitors SessionRegistry Parsers
begin

text \<open>
  SocketConnection: the send queue of a connection, its interest in write events, and what happens between a sender and
  the wire. \<open>socket_takes\<close> is the answer of the kernel to each \<open>send\<close> on the socket, \<open>wire\<close> the bytes it took so far.
  \<open>link\<close> is the interleaving of senders, of the reactor and of whatever else uses the monitor, each step under
  the mutex of the connection or on the reactor's thread.
\<close>

section \<open>State\<close>

record SocketConnection =
  m_socket :: socket_handle
  m_sendQueue :: "string list"
  m_sendLength :: nat
  m_sessions :: "SessionID list"
  m_pSession :: "nat option"
  m_parser :: Parser
  m_setupStartTime :: int
  socket_takes :: "nat \<Rightarrow> string \<Rightarrow> int"
  socket_sends :: nat
  wire :: string

definition new_SocketConnection :: "(nat \<Rightarrow> string \<Rightarrow> int) \<Rightarrow> int \<Rightarrow> socket_handle \<Rightarrow> SessionID list \<Rightarrow> nat option \<Rightarrow> SocketConnection" where
  "new_SocketConnection takes now s sessions session =
     \<lparr>m_socket = s, m_sendQueue = [], m_sendLength = 0, m_sessions = sessions, m_pSession = session,
      m_parser = new_Parser, m_setupStartTime = now, socket_takes = takes, socket_sends = 0, wire = []\<rparr>"

definition getSecondsFromSetupStart :: "int \<Rightarrow> SocketConnection \<Rightarrow> int" where
  "getSecondsFromSetupStart now c = now - m_setupStartTime c"

section \<open>Sending\<close>

text \<open>The kernel takes a prefix of the bytes, or fails with a negative answer.\<close>

definition socket_send :: "string \<Rightarrow> SocketConnection \<Rightarrow> int \<times> SocketConnection" where
  "socket_send bytes c =
     (let n = socket_takes c (socket_sends c) bytes
      in (n, c\<lparr>socket_sends := socket_sends c + 1, wire := wire c @ take (nat n) bytes\<rparr>))"

function processQueue :: "SocketConnection \<Rightarrow> bool \<times> SocketConnection" where
  "processQueue c =
     (case m_sendQueue c of
        [] \<Rightarrow> (True, c)
      | msg # rest \<Rightarrow>
          (case socket_send (drop (m_sendLength c) msg) c of
             (n, c) \<Rightarrow>
               if n \<le> 0 then (False, c)
               else let c = c\<lparr>m_sendLength := m_sendLength c + nat n\<rparr> in
                 if m_sendLength c < length msg then (False, c)
                 else processQueue (c\<lparr>m_sendLength := 0, m_sendQueue := rest\<rparr>)))"
  by auto
termination
  by (relation "measure (\<lambda>c. length (m_sendQueue c))") (auto simp: socket_send_def Let_def)

declare processQueue.simps [simp del]

definition signal_connection :: "SocketConnection \<Rightarrow> SocketMonitor \<Rightarrow> SocketMonitor" where
  "signal_connection c m = (if length (m_sendQueue c) = 1 then signal_monitor (m_socket c) m else m)"

definition unsignal_connection :: "SocketConnection \<Rightarrow> SocketMonitor \<Rightarrow> SocketMonitor" where
  "unsignal_connection c m = (if length (m_sendQueue c) = 0 then unsignal_monitor (m_socket c) m else m)"

text \<open>\<open>send\<close> always answers true.\<close>

definition send_connection :: "string \<Rightarrow> SocketConnection \<times> SocketMonitor \<Rightarrow> SocketConnection \<times> SocketMonitor" where
  "send_connection message w =
     (case w of (c, m) \<Rightarrow>
        if m_sendQueue c = [] then
          (case socket_send message c of
             (result, c) \<Rightarrow>
               let sent = (if result > 0 then nat result else 0) in
               if sent = length message then (c, m)
               else let c = c\<lparr>m_sendQueue := [drop sent message], m_sendLength := 0\<rparr>
                 in (c, signal_connection c m))
        else
          let c = snd (processQueue (c\<lparr>m_sendQueue := m_sendQueue c @ [message]\<rparr>))
          in (c, signal_connection c m))"

definition disconnect_connection :: "nat \<Rightarrow> SocketConnection \<Rightarrow> SocketMonitor \<Rightarrow> SocketMonitor" where
  "disconnect_connection self c m = snd (drop_socket self (m_socket c) m)"

text \<open>What the transports do when the socket is writable.\<close>

definition write_connection :: "SocketConnection \<times> SocketMonitor \<Rightarrow> SocketConnection \<times> SocketMonitor" where
  "write_connection w =
     (case processQueue (fst w) of
        (True, c) \<Rightarrow> (c, unsignal_connection c (snd w))
      | (False, c) \<Rightarrow> (c, snd w))"

section \<open>Nothing is lost, repeated or reordered\<close>

definition pending_bytes :: "SocketConnection \<Rightarrow> string" where
  "pending_bytes c = drop (m_sendLength c) (concat (m_sendQueue c))"

definition sendQueue_ok :: "SocketConnection \<Rightarrow> bool" where
  "sendQueue_ok c = (case m_sendQueue c of [] \<Rightarrow> m_sendLength c = 0 | msg # _ \<Rightarrow> m_sendLength c \<le> length msg)"

text \<open>The kernel never takes more than it is given.\<close>

definition honest :: "SocketConnection \<Rightarrow> bool" where
  "honest c = (\<forall>n bytes. socket_takes c n bytes \<le> int (length bytes))"

lemma honestD: "honest c \<Longrightarrow> nat (socket_takes c n bytes) \<le> length bytes"
  by (metis honest_def nat_le_iff)

lemma processQueue_frame:
  "m_socket (snd (processQueue c)) = m_socket c \<and> m_pSession (snd (processQueue c)) = m_pSession c \<and> m_sessions (snd (processQueue c)) = m_sessions c \<and>
   socket_takes (snd (processQueue c)) = socket_takes c \<and> suffix (m_sendQueue (snd (processQueue c))) (m_sendQueue c)"
proof (induction c rule: processQueue.induct)
  case (1 c)
  show ?case
  proof (cases "m_sendQueue c")
    case Nil
    then show ?thesis by (simp add: processQueue.simps [of c])
  next
    case (Cons msg rest)
    obtain n c1 where send: "socket_send (drop (m_sendLength c) msg) c = (n, c1)" by fastforce
    have c1: "m_sendQueue c1 = msg # rest" "m_socket c1 = m_socket c" "m_pSession c1 = m_pSession c" "m_sessions c1 = m_sessions c" "socket_takes c1 = socket_takes c"
      using send Cons by (auto simp: socket_send_def Let_def)
    note IH = 1 [OF Cons send [symmetric] _ refl]
    show ?thesis
    proof (cases "n \<le> 0 \<or> m_sendLength c1 + nat n < length msg")
      case True
      then show ?thesis using Cons send c1 by (auto simp: processQueue.simps [of c] Let_def)
    next
      case False
      then show ?thesis using Cons send c1 IH by (auto simp: processQueue.simps [of c] Let_def suffix_ConsI)
    qed
  qed
qed

lemma processQueue_bytes:
  "sendQueue_ok c \<Longrightarrow> honest c \<Longrightarrow>
   sendQueue_ok (snd (processQueue c)) \<and> wire (snd (processQueue c)) @ pending_bytes (snd (processQueue c)) = wire c @ pending_bytes c \<and>
   (fst (processQueue c) \<longrightarrow> m_sendQueue (snd (processQueue c)) = [])"
proof (induction c rule: processQueue.induct)
  case (1 c)
  show ?case
  proof (cases "m_sendQueue c")
    case Nil
    then show ?thesis using 1 by (simp add: processQueue.simps [of c])
  next
    case (Cons msg rest)
    have len: "m_sendLength c \<le> length msg" using 1(2) Cons by (simp add: sendQueue_ok_def)
    define n where "n = socket_takes c (socket_sends c) (drop (m_sendLength c) msg)"
    have n: "nat n \<le> length msg - m_sendLength c" using honestD [OF 1(3), of "socket_sends c" "drop (m_sendLength c) msg"] by (simp add: n_def)
    define c1 where "c1 = c\<lparr>socket_sends := socket_sends c + 1, wire := wire c @ take (nat n) (drop (m_sendLength c) msg)\<rparr>"
    have send: "socket_send (drop (m_sendLength c) msg) c = (n, c1)" by (simp add: socket_send_def n_def c1_def Let_def)
    have bytes: "take (nat n) (drop (m_sendLength c) msg) @ drop (m_sendLength c + nat n) msg = drop (m_sendLength c) msg"
      by (metis append_take_drop_id drop_drop add.commute)
    show ?thesis
    proof (cases "n \<le> 0")
      case True
      then show ?thesis using Cons send 1(2) by (auto simp: processQueue.simps [of c] c1_def sendQueue_ok_def pending_bytes_def)
    next
      case False
      show ?thesis
      proof (cases "m_sendLength c + nat n < length msg")
        case True
        then show ?thesis using Cons send False bytes
          by (auto simp: processQueue.simps [of c] c1_def Let_def sendQueue_ok_def pending_bytes_def)
      next
        case all: False
        then have eq: "m_sendLength c + nat n = length msg" using n len by simp
        let ?c2 = "c1\<lparr>m_sendLength := 0, m_sendQueue := rest\<rparr>"
        have "honest ?c2" using 1(3) by (simp add: honest_def c1_def)
        moreover have "sendQueue_ok ?c2" by (simp add: sendQueue_ok_def split: list.split)
        moreover have "wire ?c2 @ pending_bytes ?c2 = wire c @ pending_bytes c" using Cons eq len by (simp add: c1_def pending_bytes_def)
        moreover have "processQueue c = processQueue ?c2"
          using Cons send False all eq by (simp add: processQueue.simps [of c] c1_def Let_def)
        moreover note 1(1) [OF Cons send [symmetric] False refl]
        ultimately show ?thesis using all eq by (simp add: c1_def)
      qed
    qed
  qed
qed


lemma send_connection_frame:
  "m_socket (fst (send_connection text (c, m))) = m_socket c \<and> socket_takes (fst (send_connection text (c, m))) = socket_takes c"
  using processQueue_frame [of "c\<lparr>m_sendQueue := m_sendQueue c @ [text]\<rparr>"]
  by (auto simp: send_connection_def socket_send_def Let_def)

lemma send_connection_bytes:
  assumes "sendQueue_ok c" "honest c" "send_connection text (c, m) = (c', m')"
  shows "sendQueue_ok c' \<and> wire c' @ pending_bytes c' = wire c @ pending_bytes c @ text"
proof (cases "m_sendQueue c = []")
  case True
  let ?n = "nat (socket_takes c (socket_sends c) text)"
  have "?n \<le> length text" by (rule honestD [OF assms(2)])
  then show ?thesis using True assms(1,3)
    by (auto simp: send_connection_def socket_send_def Let_def sendQueue_ok_def pending_bytes_def split: if_splits)
next
  case False
  let ?c = "c\<lparr>m_sendQueue := m_sendQueue c @ [text]\<rparr>"
  have "sendQueue_ok ?c" using False assms(1) by (auto simp: sendQueue_ok_def neq_Nil_conv)
  moreover have "honest ?c" using assms(2) by (simp add: honest_def)
  moreover have "pending_bytes ?c = pending_bytes c @ text"
    using False assms(1) by (auto simp: pending_bytes_def sendQueue_ok_def neq_Nil_conv)
  moreover have "c' = snd (processQueue ?c)" using False assms(3) by (simp add: send_connection_def Let_def)
  ultimately show ?thesis using processQueue_bytes [of ?c] by simp
qed

section \<open>Senders and the reactor\<close>

text \<open>A connection registered for reading, the messages its senders have passed to it so far, and the monitor. Sending,
  draining and releasing the write interest each hold the mutex of the connection; the reactor reads the wake-ups; other
  connections of the monitor do what they do. Any socket may be dropped, this one included; its number is not
  registered again while the connection exists.\<close>

inductive link :: "(nat \<Rightarrow> string \<Rightarrow> int) \<Rightarrow> socket_handle \<Rightarrow> string list \<Rightarrow> SocketConnection \<Rightarrow> SocketMonitor \<Rightarrow> bool"
  for takes :: "nat \<Rightarrow> string \<Rightarrow> int" and s :: socket_handle where
  start: "s \<in> m_readSockets m \<Longrightarrow> link takes s [] (new_SocketConnection takes now s sessions session) m"
| sends: "link takes s texts c m \<Longrightarrow> send_connection text (c, m) = (c', m') \<Longrightarrow> link takes s (texts @ [text]) c' m'"
| drains: "link takes s texts c m \<Longrightarrow> link takes s texts (snd (processQueue c)) m"
| releases: "link takes s texts c m \<Longrightarrow> link takes s texts c (unsignal_connection c m)"
| wakes: "link takes s texts c m \<Longrightarrow> link takes s texts c (read_wakeup m)"
| others: "link takes s texts c m \<Longrightarrow> t \<noteq> s \<Longrightarrow>
    m' \<in> {snd (addConnect t m), snd (addRead t m), connected_socket t m, unsignal_monitor t m} \<Longrightarrow> link takes s texts c m'"
| anyone: "link takes s texts c m \<Longrightarrow>
    m' \<in> {snd (addWrite t m), snd (drop_socket self t m), signal_monitor t m, close_reported t m} \<Longrightarrow> link takes s texts c m'"

definition interested :: "socket_handle \<Rightarrow> SocketMonitor \<Rightarrow> bool" where
  "interested s m = (s \<in> m_writeSockets m \<or> s \<in> set (wakeups m))"

lemma interested_wakeup: "interested s m \<Longrightarrow> s \<in> m_readSockets m \<Longrightarrow> interested s (read_wakeup m)"
  by (cases "wakeups m") (auto simp: interested_def read_wakeup_def addWrite_def)

lemma send_connection_interested:
  assumes "send_connection text (c, m) = (c', m')" "m_sendQueue c' \<noteq> []" "m_sendQueue c \<noteq> [] \<Longrightarrow> interested (m_socket c) m"
  shows "interested (m_socket c) m' \<and> m_readSockets m' = m_readSockets m"
proof (cases "m_sendQueue c = []")
  case True
  then show ?thesis using assms(1,2)
    by (auto simp: send_connection_def socket_send_def Let_def signal_connection_def signal_monitor_def interested_def split: if_splits)
next
  case False
  then have "m' = signal_connection c' m" using assms(1) by (auto simp: send_connection_def Let_def)
  then show ?thesis using False assms(3) by (auto simp: signal_connection_def signal_monitor_def interested_def)
qed

lemma link_socket: "link takes s texts c m \<Longrightarrow> m_socket c = s \<and> socket_takes c = takes"
proof (induction rule: link.induct)
  case (sends texts c m msg c' m')
  then show ?case using send_connection_frame [of msg c m] by simp
qed (simp_all add: new_SocketConnection_def processQueue_frame)

lemma link_bytes:
  assumes "link takes s texts c m" "\<And>n bytes. takes n bytes \<le> int (length bytes)"
  shows "sendQueue_ok c \<and> wire c @ pending_bytes c = concat texts"
  using assms(1)
proof (induction rule: link.induct)
  case (sends texts c m msg c' m')
  then show ?case using send_connection_bytes [OF _ _ sends.hyps(2)] link_socket [OF sends.hyps(1)] assms(2) by (simp add: honest_def)
next
  case (drains texts c m)
  then show ?case using processQueue_bytes [of c] link_socket [OF drains.hyps(1)] assms(2) by (simp add: honest_def)
qed (simp_all add: new_SocketConnection_def sendQueue_ok_def pending_bytes_def)

lemma link_interested:
  "link takes s texts c m \<Longrightarrow> m_sendQueue c \<noteq> [] \<Longrightarrow> s \<in> m_readSockets m \<Longrightarrow> interested s m"
proof (induction rule: link.induct)
  case (sends texts c m msg c' m')
  have "m_readSockets m' = m_readSockets m"
    using sends.hyps(2) by (auto simp: send_connection_def Let_def signal_connection_def signal_monitor_def split: if_splits prod.splits)
  then show ?case using sends send_connection_interested [OF sends.hyps(2) sends.prems(1)] link_socket [OF sends.hyps(1)] by simp
next
  case (drains texts c m)
  then have "m_sendQueue c \<noteq> []" using processQueue_frame [of c] by auto
  with drains show ?case by simp
next
  case (releases texts c m)
  then show ?case by (auto simp: unsignal_connection_def)
next
  case (wakes texts c m)
  have "m_readSockets (read_wakeup m) = m_readSockets m" by (simp add: read_wakeup_def addWrite_def Let_def)
  then show ?case using wakes interested_wakeup by simp
next
  case (others texts c m t m')
  then show ?case by (auto simp: interested_def monitor_ops connected_socket_def split: if_splits)
next
  case (anyone texts c m m' t self)
  then show ?case by (auto simp: interested_def monitor_ops close_reported_def split: if_splits)
qed (simp add: new_SocketConnection_def)


section \<open>A writable socket empties the queue\<close>

text \<open>When the socket takes something on every write event and no queued message is empty, the events
  empty the queue: each takes at least a byte.\<close>

definition flowing :: "SocketConnection \<Rightarrow> bool" where
  "flowing c = ((\<forall>msg\<in>set (m_sendQueue c). msg \<noteq> []) \<and> (case m_sendQueue c of [] \<Rightarrow> m_sendLength c = 0 | msg # _ \<Rightarrow> m_sendLength c < length msg))"

definition eager :: "(nat \<Rightarrow> string \<Rightarrow> int) \<Rightarrow> bool" where
  "eager takes = (\<forall>n bytes. bytes \<noteq> [] \<longrightarrow> 0 < takes n bytes)"

lemma processQueue_flowing: "flowing c \<Longrightarrow> flowing (snd (processQueue c))"
proof (induction c rule: processQueue.induct)
  case (1 c)
  show ?case
  proof (cases "m_sendQueue c")
    case Nil
    then show ?thesis using 1 by (simp add: processQueue.simps [of c])
  next
    case (Cons msg rest)
    obtain n c1 where send: "socket_send (drop (m_sendLength c) msg) c = (n, c1)" by fastforce
    have c1: "m_sendQueue c1 = msg # rest" "m_sendLength c1 = m_sendLength c" using send Cons by (auto simp: socket_send_def Let_def)
    have "flowing (c1\<lparr>m_sendLength := 0, m_sendQueue := rest\<rparr>)" using 1(2) Cons by (auto simp: flowing_def split: list.split)
    then have "\<not> n \<le> 0 \<Longrightarrow> \<not> m_sendLength c1 + nat n < length msg \<Longrightarrow> flowing (snd (processQueue (c1\<lparr>m_sendLength := 0, m_sendQueue := rest\<rparr>)))"
      using 1(1) [OF Cons send [symmetric] _ refl] by simp
    moreover have "flowing c1" using 1(2) Cons c1 by (simp add: flowing_def)
    moreover have "flowing (c1\<lparr>m_sendLength := m_sendLength c1 + nat n\<rparr>)" if "m_sendLength c1 + nat n < length msg"
      using that 1(2) Cons c1 by (simp add: flowing_def)
    ultimately show ?thesis using Cons send by (simp add: processQueue.simps [of c] Let_def)
  qed
qed

lemma processQueue_progress:
  "flowing c \<Longrightarrow> eager (socket_takes c) \<Longrightarrow>
   flowing (snd (processQueue c)) \<and> length (pending_bytes (snd (processQueue c))) \<le> length (pending_bytes c) \<and>
   (m_sendQueue c \<noteq> [] \<longrightarrow> length (pending_bytes (snd (processQueue c))) < length (pending_bytes c))"
proof (induction c rule: processQueue.induct)
  case (1 c)
  show ?case
  proof (cases "m_sendQueue c")
    case Nil
    then show ?thesis using 1 by (simp add: processQueue.simps [of c])
  next
    case (Cons msg rest)
    obtain n c1 where send: "socket_send (drop (m_sendLength c) msg) c = (n, c1)" by fastforce
    have len: "m_sendLength c < length msg" and rest: "\<forall>msg\<in>set rest. msg \<noteq> []" and msg: "msg \<noteq> []"
      using 1(2) Cons by (simp_all add: flowing_def)
    have n: "\<not> n \<le> 0" using 1(3) send len by (auto simp: socket_send_def Let_def eager_def not_le)
    have c1: "m_sendQueue c1 = msg # rest" "m_sendLength c1 = m_sendLength c" "socket_takes c1 = socket_takes c"
      using send Cons by (auto simp: socket_send_def Let_def)
    show ?thesis
    proof (cases "m_sendLength c + nat n < length msg")
      case True
      then show ?thesis using Cons send n c1 rest msg
        by (auto simp: processQueue.simps [of c] Let_def flowing_def pending_bytes_def not_le intro!: diff_less_mono2)
    next
      case False
      let ?c2 = "c1\<lparr>m_sendLength := 0, m_sendQueue := rest\<rparr>"
      have "flowing ?c2" using rest by (auto simp: flowing_def split: list.split)
      then have "flowing (snd (processQueue ?c2)) \<and> length (pending_bytes (snd (processQueue ?c2))) \<le> length (pending_bytes ?c2)"
        using 1(1) [OF Cons send [symmetric] n refl] False c1 1(3) by simp
      moreover have "length (pending_bytes ?c2) < length (pending_bytes c)" using len Cons by (simp add: pending_bytes_def)
      moreover have "processQueue c = processQueue ?c2" using Cons send n False c1 by (simp add: processQueue.simps [of c] Let_def)
      ultimately show ?thesis by simp
    qed
  qed
qed

lemma flowing_pending: "flowing c \<Longrightarrow> pending_bytes c = [] \<Longrightarrow> m_sendQueue c = []"
  by (cases "m_sendQueue c") (auto simp: flowing_def pending_bytes_def)

lemma write_connection_fst: "fst (write_connection (c, m)) = snd (processQueue c)"
  by (simp add: write_connection_def split: prod.split bool.split)

lemma writable_empties:
  "flowing c \<Longrightarrow> eager (socket_takes c) \<Longrightarrow> length (pending_bytes c) \<le> k \<Longrightarrow>
   m_sendQueue (fst ((write_connection ^^ k) (c, m))) = []"
proof (induction k arbitrary: c m)
  case 0
  then show ?case using flowing_pending by simp
next
  case (Suc k)
  let ?c = "snd (processQueue c)"
  have "flowing ?c" "length (pending_bytes ?c) \<le> k"
    using processQueue_progress [OF Suc.prems(1,2)] Suc.prems(3) by (auto simp: pending_bytes_def)
  moreover have "eager (socket_takes ?c)" using Suc.prems(2) processQueue_frame [of c] by simp
  moreover obtain m' where "write_connection (c, m) = (?c, m')" using write_connection_fst [of c m] by (metis fst_conv surj_pair)
  ultimately show ?case using Suc.IH [of ?c m'] by (simp add: funpow_swap1)
qed

text \<open>Messages passed to a connection are not empty, so its queue flows.\<close>

lemma send_connection_flowing:
  assumes "flowing c" "honest c" "msg \<noteq> []" "send_connection msg (c, m) = (c', m')"
  shows "flowing c'"
proof (cases "m_sendQueue c = []")
  case True
  then show ?thesis using assms honestD [OF assms(2), of "socket_sends c" msg]
    by (auto simp: send_connection_def socket_send_def Let_def flowing_def split: if_splits)
next
  case False
  have "flowing (c\<lparr>m_sendQueue := m_sendQueue c @ [msg]\<rparr>)" using assms(1,3) False by (auto simp: flowing_def neq_Nil_conv)
  from processQueue_flowing [OF this] show ?thesis using assms(4) False by (auto simp: send_connection_def Let_def)
qed

lemma link_flowing:
  assumes "link takes s texts c m" "\<And>n bytes. takes n bytes \<le> int (length bytes)" "[] \<notin> set texts"
  shows "flowing c"
  using assms(1,3)
proof (induction rule: link.induct)
  case (sends texts c m msg c' m')
  have "honest c" using link_socket [OF sends.hyps(1)] assms(2) by (simp add: honest_def)
  then show ?case using sends send_connection_flowing [OF _ _ _ sends.hyps(2)] by auto
qed (simp_all add: new_SocketConnection_def flowing_def processQueue_flowing [unfolded flowing_def])

lemma write_connection_link:
  assumes "link takes s texts c m"
  shows "link takes s texts (fst (write_connection (c, m))) (snd (write_connection (c, m)))"
  using link.drains [OF assms] link.releases [OF link.drains [OF assms]]
  by (auto simp: write_connection_def split: prod.split bool.split)

lemma write_connections_link:
  "link takes s texts c m \<Longrightarrow> link takes s texts (fst ((write_connection ^^ k) (c, m))) (snd ((write_connection ^^ k) (c, m)))"
proof (induction k)
  case (Suc k)
  then show ?case using write_connection_link [OF Suc.IH] by simp
qed simp

section \<open>Properties\<close>

definition four_bytes :: "nat \<Rightarrow> string \<Rightarrow> int" where
  "four_bytes n bytes = int (min 4 (length bytes))"

definition busy_monitor :: SocketMonitor where
  "busy_monitor = (new_SocketMonitor 1 (3, 4) 0)\<lparr>m_readSockets := {4, 5}\<rparr>"



definition two_sends :: "SocketConnection \<times> SocketMonitor" where
  "two_sends = send_connection ''abc'' (send_connection ''hello'' (new_SocketConnection four_bytes 0 5 [] None, busy_monitor))"

lemma two_sends_link: "link four_bytes 5 [''hello'', ''abc''] (fst two_sends) (snd two_sends)"
proof -
  have start: "link four_bytes 5 [] (new_SocketConnection four_bytes 0 5 [] None) busy_monitor"
    by (rule link.start) (simp add: busy_monitor_def)
  show ?thesis using link.sends [OF link.sends [OF start surjective_pairing] surjective_pairing]
    unfolding two_sends_def by simp
qed

lemma four_bytes_takes: "four_bytes n bytes \<le> int (length bytes)" "eager four_bytes"
  by (simp_all add: four_bytes_def eager_def)



end
