(* ===== verification/TransportSettings.thy ===== *)
theory TransportSettings
  imports SessionFactories
begin

text \<open>
  PortSetting.h and HostDetailsProvider.cpp: the settings of the transports, their checks, and which of a session's
  hosts an initiator tries next. The clock is an argument. Pinning a thread to its processors is not modelled, the parsing of
  the list of processors is.
\<close>

section \<open>Names of settings\<close>

definition SOCKET_ACCEPT_PORT :: string where "SOCKET_ACCEPT_PORT = ''SocketAcceptPort''"
definition SOCKET_REUSE_ADDRESS :: string where "SOCKET_REUSE_ADDRESS = ''SocketReuseAddress''"
definition SOCKET_CONNECT_HOST :: string where "SOCKET_CONNECT_HOST = ''SocketConnectHost''"
definition SOCKET_CONNECT_PORT :: string where "SOCKET_CONNECT_PORT = ''SocketConnectPort''"
definition SOCKET_CONNECT_SOURCE_HOST :: string where "SOCKET_CONNECT_SOURCE_HOST = ''SocketConnectSourceHost''"
definition SOCKET_CONNECT_SOURCE_PORT :: string where "SOCKET_CONNECT_SOURCE_PORT = ''SocketConnectSourcePort''"
definition SOCKET_NODELAY :: string where "SOCKET_NODELAY = ''SocketNodelay''"
definition SOCKET_THREAD_AFFINITY :: string where "SOCKET_THREAD_AFFINITY = ''SocketThreadAffinity''"
definition SOCKET_QUEUED_WRITES :: string where "SOCKET_QUEUED_WRITES = ''SocketQueuedWrites''"
definition SOCKET_BUSY_POLL :: string where "SOCKET_BUSY_POLL = ''SocketBusyPoll''"
definition SOCKET_SEND_BUFFER_SIZE :: string where "SOCKET_SEND_BUFFER_SIZE = ''SocketSendBufferSize''"
definition SOCKET_RECEIVE_BUFFER_SIZE :: string where "SOCKET_RECEIVE_BUFFER_SIZE = ''SocketReceiveBufferSize''"
definition HOST_SELECTION_POLICY :: string where "HOST_SELECTION_POLICY = ''HostSelectionPolicy''"
definition HOST_SELECTION_POLICY_PRIORITY_START_OVER_INTERVAL :: string where
  "HOST_SELECTION_POLICY_PRIORITY_START_OVER_INTERVAL = ''HostSelectionPolicyPriorityStartOverInterval''"
definition RECONNECT_INTERVAL :: string where "RECONNECT_INTERVAL = ''ReconnectInterval''"
definition HOST_SELECTION_POLICY_PRIORITY :: string where "HOST_SELECTION_POLICY_PRIORITY = ''PRIORITY''"

section \<open>PortSetting.h\<close>

definition getPortSetting :: "Dictionary \<Rightarrow> string \<Rightarrow> bool \<Rightarrow> 16 word result" where
  "getPortSetting settings name allowAny =
     rbind (getInt name settings) (\<lambda>port.
       if port < (if allowAny then 0 else 1) \<or> port > 65535 then Throw ConfigError else Ok (word_of_int port))"

definition getSocketNoDelay :: "Dictionary \<Rightarrow> bool result" where
  "getSocketNoDelay = bool_or True SOCKET_NODELAY"

definition getSocketBufferSize :: "Dictionary \<Rightarrow> string \<Rightarrow> int result" where
  "getSocketBufferSize settings name = (if dict_has name settings then getInt name settings else Ok 0)"

definition getSocketQueuedWrites :: "Dictionary \<Rightarrow> bool result" where
  "getSocketQueuedWrites = bool_or False SOCKET_QUEUED_WRITES"

definition getSocketBusyPoll :: "Dictionary \<Rightarrow> bool result" where
  "getSocketBusyPoll = bool_or False SOCKET_BUSY_POLL"

definition checkBusyPollWithQueuedWrites :: "Dictionary \<Rightarrow> unit result" where
  "checkBusyPollWithQueuedWrites settings =
     rbind (getSocketBusyPoll settings) (\<lambda>busy.
       if \<not> busy then Ok ()
       else rbind (getSocketQueuedWrites settings) (\<lambda>queued. if queued then Throw ConfigError else Ok ()))"

text \<open>A loop whose body may throw.\<close>

fun each :: "('a \<Rightarrow> unit result) \<Rightarrow> 'a list \<Rightarrow> unit result" where
  "each f [] = Ok ()"
| "each f (x # xs) = rbind (f x) (\<lambda>_. each f xs)"

definition rejectSocketQueuedWrites :: "SessionSettings \<Rightarrow> unit result" where
  "rejectSocketQueuedWrites sessionSettings =
     each (\<lambda>sessionID. each (\<lambda>name.
       rbind (settings_get sessionID sessionSettings) (\<lambda>settings.
         if \<not> dict_has name settings then Ok ()
         else rbind (getBool name settings) (\<lambda>b. if b then Throw ConfigError else Ok ())))
       [SOCKET_QUEUED_WRITES, SOCKET_BUSY_POLL]) (getSessions sessionSettings)"

text \<open>\<open>CPU_SETSIZE\<close> of the C library.\<close>

definition CPU_SETSIZE :: nat where "CPU_SETSIZE = 1024"

definition cpu_number :: "string \<Rightarrow> nat result" where
  "cpu_number text =
     (if text = [] \<or> \<not> list_all is_digit text \<or> length text > 5 then Throw ConfigError
      else let cpu = undec text in if cpu \<ge> CPU_SETSIZE then Throw ConfigError else Ok cpu)"

definition cpu_item :: "string \<Rightarrow> nat list result" where
  "cpu_item item =
     (case str_find ''-'' item 0 of
        None \<Rightarrow> rbind (cpu_number item) (\<lambda>cpu. Ok [cpu])
      | Some dash \<Rightarrow>
          rbind (cpu_number (take dash item)) (\<lambda>first.
          rbind (cpu_number (drop (dash + 1) item)) (\<lambda>last'.
            if last' < first then Throw ConfigError else Ok [first..<last' + 1])))"

function cpu_items :: "string \<Rightarrow> nat \<Rightarrow> nat list result" where
  "cpu_items value' start =
     (if start \<le> length value' then
        (case str_find '','' value' start of
           None \<Rightarrow> cpu_item (drop start value')
         | Some comma \<Rightarrow>
             rbind (cpu_item (substr value' start comma)) (\<lambda>cpus.
             rbind (cpu_items value' (comma + 1)) (\<lambda>more_cpus. Ok (cpus @ more_cpus))))
      else Ok [])"
  by auto
termination
  by (relation "measure (\<lambda>(v, start). Suc (length v) - start)") (auto dest: str_find_bound)

declare cpu_items.simps [simp del]

definition getSocketThreadAffinity :: "Dictionary \<Rightarrow> nat list result" where
  "getSocketThreadAffinity settings =
     (if \<not> dict_has SOCKET_THREAD_AFFINITY settings then Ok []
      else rbind (dict_getString SOCKET_THREAD_AFFINITY False settings) (\<lambda>value'. cpu_items value' 0))"

record PortOptions =
  first_session :: SessionID
  noDelay :: bool
  sendBufferSize :: int
  receiveBufferSize :: int
  queuedWrites :: bool
  busyPoll :: bool

text \<open>The options are compared as texts; the texts of two booleans or integers are equal when these are.\<close>

definition port_options :: "SessionID \<Rightarrow> Dictionary \<Rightarrow> PortOptions result" where
  "port_options sessionID settings =
     rbind (getSocketNoDelay settings) (\<lambda>nd.
     rbind (getSocketBufferSize settings SOCKET_SEND_BUFFER_SIZE) (\<lambda>sb.
     rbind (getSocketBufferSize settings SOCKET_RECEIVE_BUFFER_SIZE) (\<lambda>rb.
     rbind (getSocketQueuedWrites settings) (\<lambda>qw.
     rbind (getSocketBusyPoll settings) (\<lambda>bp.
       Ok \<lparr>first_session = sessionID, noDelay = nd, sendBufferSize = sb, receiveBufferSize = rb, queuedWrites = qw, busyPoll = bp\<rparr>)))))"

definition options_agree :: "PortOptions \<Rightarrow> PortOptions \<Rightarrow> bool" where
  "options_agree mine theirs =
     (noDelay mine = noDelay theirs \<and> sendBufferSize mine = sendBufferSize theirs \<and>
      receiveBufferSize mine = receiveBufferSize theirs \<and> queuedWrites mine = queuedWrites theirs \<and>
      busyPoll mine = busyPoll theirs)"

definition check_port_options :: "SessionSettings \<Rightarrow> SessionID \<Rightarrow> (16 word, PortOptions) smap \<Rightarrow> (16 word, PortOptions) smap result" where
  "check_port_options sessionSettings sessionID byPort =
     rbind (settings_get sessionID sessionSettings) (\<lambda>settings.
     rbind (getPortSetting settings SOCKET_ACCEPT_PORT True) (\<lambda>port.
     rbind (getSocketThreadAffinity settings) (\<lambda>_.
     rbind (port_options sessionID settings) (\<lambda>options.
     rbind (checkBusyPollWithQueuedWrites settings) (\<lambda>_.
       case smap_find byPort port of
         None \<Rightarrow> Ok (smap_put port options byPort)
       | Some first \<Rightarrow> if options_agree options first then Ok byPort else Throw ConfigError)))))"

fun check_ports :: "SessionSettings \<Rightarrow> SessionID list \<Rightarrow> (16 word, PortOptions) smap \<Rightarrow> (16 word, PortOptions) smap result" where
  "check_ports sessionSettings [] byPort = Ok byPort"
| "check_ports sessionSettings (sessionID # ids) byPort =
     rbind (check_port_options sessionSettings sessionID byPort) (check_ports sessionSettings ids)"

definition checkSocketOptionsPerPort :: "SessionSettings \<Rightarrow> unit result" where
  "checkSocketOptionsPerPort sessionSettings =
     rbind (check_ports sessionSettings (getSessions sessionSettings) []) (\<lambda>_. Ok ())"

section \<open>HostDetailsProvider.cpp\<close>

record HostDetails =
  address :: string
  port :: "16 word"
  sourceAddress :: string
  sourcePort :: "16 word"

record LastConnectionAttempt =
  hostNumber :: int
  attempt_time :: int

type_synonym HostDetailsProvider = "(string, LastConnectionAttempt) smap"

definition no_host :: HostDetails where
  "no_host = \<lparr>address = [], port = 0, sourceAddress = [], sourcePort = 0\<rparr>"

definition host_suffix :: "int \<Rightarrow> string" where
  "host_suffix n = (if n > 0 then dec (nat n) else [])"

text \<open>None: the host is not defined in the settings.\<close>

definition populateHostDetails :: "int \<Rightarrow> Dictionary \<Rightarrow> HostDetails option result" where
  "populateHostDetails n d =
     (let host = SOCKET_CONNECT_HOST @ host_suffix n; port_key = SOCKET_CONNECT_PORT @ host_suffix n;
          sourceHost = SOCKET_CONNECT_SOURCE_HOST @ host_suffix n; sourcePort_key = SOCKET_CONNECT_SOURCE_PORT @ host_suffix n in
      if dict_has host d \<and> dict_has port_key d then
        rbind (dict_getString host False d) (\<lambda>a.
        rbind (getPortSetting d port_key False) (\<lambda>p.
        rbind (if dict_has sourceHost d then dict_getString sourceHost False d else Ok []) (\<lambda>sa.
        rbind (if dict_has sourcePort_key d then getPortSetting d sourcePort_key True else Ok 0) (\<lambda>sp.
          Ok (Some \<lparr>address = a, port = p, sourceAddress = sa, sourcePort = sp\<rparr>)))))
      else Ok None)"

text \<open>The number to try, after the last attempt; \<open>now\<close> is the clock.\<close>

definition next_attempt :: "int \<Rightarrow> Dictionary \<Rightarrow> string \<Rightarrow> LastConnectionAttempt option \<Rightarrow> LastConnectionAttempt result" where
  "next_attempt now d hostSelectionPolicy last_attempt =
     (case last_attempt of
        None \<Rightarrow> Ok \<lparr>hostNumber = 0, attempt_time = now\<rparr>
      | Some a \<Rightarrow>
          if hostSelectionPolicy = HOST_SELECTION_POLICY_PRIORITY then
            rbind (if dict_has HOST_SELECTION_POLICY_PRIORITY_START_OVER_INTERVAL d
                   then getInt HOST_SELECTION_POLICY_PRIORITY_START_OVER_INTERVAL d else Ok 120) (\<lambda>startOverInterval.
              if now - attempt_time a \<ge> startOverInterval then Ok \<lparr>hostNumber = 0, attempt_time = now\<rparr>
              else Ok \<lparr>hostNumber = hostNumber a + 1, attempt_time = now\<rparr>)
          else Ok \<lparr>hostNumber = hostNumber a + 1, attempt_time = now\<rparr>)"

definition getHost :: "int \<Rightarrow> SessionID \<Rightarrow> Dictionary \<Rightarrow> (HostDetailsProvider, HostDetails) eff" where
  "getHost now sid d provider =
     (case (if dict_has HOST_SELECTION_POLICY d then dict_getString HOST_SELECTION_POLICY False d else Ok []) of
        Inl e \<Rightarrow> (Throw e, provider)
      | Inr policy \<Rightarrow>
          (case next_attempt now d policy (smap_find provider (m_frozenString sid)) of
             Inl e \<Rightarrow> (Throw e, provider)
           | Inr a \<Rightarrow>
               let provider = smap_put (m_frozenString sid) a provider in
               (case populateHostDetails (hostNumber a) d of
                  Inl e \<Rightarrow> (Throw e, provider)
                | Inr (Some details) \<Rightarrow> (Ok details, provider)
                | Inr None \<Rightarrow>
                    (case populateHostDetails 0 d of
                       Inl e \<Rightarrow> (Throw e, provider)
                     | Inr details \<Rightarrow>
                         (Ok (case details of Some h \<Rightarrow> h | None \<Rightarrow> no_host),
                          smap_put (m_frozenString sid) (a\<lparr>hostNumber := 0\<rparr>) provider)))))"

section \<open>Ports and processors\<close>

lemma getPortSetting_bounds:
  "getPortSetting settings name allowAny = Ok p \<Longrightarrow>
   \<exists>n. getInt name settings = Ok n \<and> uint p = n \<and> (if allowAny then 0 else 1) \<le> n \<and> n \<le> 65535"
  by (auto simp: getPortSetting_def uint_word_of_int split: if_splits)

lemma cpu_item_bounds: "cpu_item item = Ok cpus \<Longrightarrow> \<forall>cpu\<in>set cpus. cpu < CPU_SETSIZE"
  by (auto simp: cpu_item_def cpu_number_def Let_def split: option.splits if_splits)

lemma cpu_items_bounds: "cpu_items value' start = Ok cpus \<Longrightarrow> \<forall>cpu\<in>set cpus. cpu < CPU_SETSIZE"
proof (induction value' start arbitrary: cpus rule: cpu_items.induct)
  case (1 value' start)
  show ?case
  proof (cases "start \<le> length value'")
    case True
    show ?thesis
    proof (cases "str_find '','' value' start")
      case None
      then show ?thesis using 1(2) True cpu_item_bounds by (simp add: cpu_items.simps [of value' start])
    next
      case (Some comma)
      then obtain xs ys where "cpu_item (substr value' start comma) = Ok xs" "cpu_items value' (comma + 1) = Ok ys" "cpus = xs @ ys"
        using 1(2) True by (auto simp: cpu_items.simps [of value' start])
      then show ?thesis using 1(1) [OF True Some] cpu_item_bounds by fastforce
    qed
  qed (use 1(2) in \<open>simp add: cpu_items.simps [of value' start]\<close>)
qed

text \<open>Settings that pass the check agree on every option that the sessions of a port share.\<close>

definition port_filed :: "SessionSettings \<Rightarrow> (16 word, PortOptions) smap \<Rightarrow> SessionID \<Rightarrow> bool" where
  "port_filed sessionSettings byPort sid =
     (\<exists>settings p options theirs. settings_get sid sessionSettings = Ok settings \<and> getPortSetting settings SOCKET_ACCEPT_PORT True = Ok p \<and>
        port_options sid settings = Ok options \<and> smap_find byPort p = Some theirs \<and> options_agree options theirs)"

lemma check_port_options_filed:
  assumes "check_port_options sessionSettings sid byPort = Ok byPort'" "smap_ok byPort"
  shows "smap_ok byPort' \<and> port_filed sessionSettings byPort' sid \<and> (\<forall>p v. smap_find byPort p = Some v \<longrightarrow> smap_find byPort' p = Some v)"
  using assms by (auto simp: check_port_options_def port_filed_def options_agree_def split: option.splits if_splits)

lemma check_ports_filed:
  "check_ports sessionSettings ids byPort = Ok byPort' \<Longrightarrow> smap_ok byPort \<Longrightarrow>
   (\<forall>sid\<in>set ids. port_filed sessionSettings byPort' sid) \<and> (\<forall>p v. smap_find byPort p = Some v \<longrightarrow> smap_find byPort' p = Some v)"
proof (induction sessionSettings ids byPort rule: check_ports.induct)
  case (2 sessionSettings sid ids byPort)
  then obtain b where b: "check_port_options sessionSettings sid byPort = Ok b" "check_ports sessionSettings ids b = Ok byPort'" by auto
  note filed = check_port_options_filed [OF b(1) 2(3)]
  note rest = 2(1) [OF b]
  have "port_filed sessionSettings byPort' sid" using filed rest unfolding port_filed_def by metis
  then show ?case using filed rest by auto
qed simp


text \<open>Settings that an acceptor's check admits name a port from 0 to 65535 for every session, and two sessions with the
  same port have the same delay, buffer, queueing and polling options.\<close>

theorem sessions_of_a_port_agree:
  assumes "checkSocketOptionsPerPort sessionSettings = Ok ()"
    and "sid1 \<in> set (getSessions sessionSettings)" "sid2 \<in> set (getSessions sessionSettings)"
  shows "\<exists>d1 d2 p1 p2 o1 o2. settings_get sid1 sessionSettings = Ok d1 \<and> settings_get sid2 sessionSettings = Ok d2 \<and>
    getInt SOCKET_ACCEPT_PORT d1 = Ok p1 \<and> getInt SOCKET_ACCEPT_PORT d2 = Ok p2 \<and> 0 \<le> p1 \<and> p1 \<le> 65535 \<and>
    port_options sid1 d1 = Ok o1 \<and> port_options sid2 d2 = Ok o2 \<and> (p1 = p2 \<longrightarrow> options_agree o1 o2)"
proof -
  obtain byPort where "check_ports sessionSettings (getSessions sessionSettings) [] = Ok byPort"
    using assms(1) by (auto simp: checkSocketOptionsPerPort_def)
  from check_ports_filed [OF this] have filed: "port_filed sessionSettings byPort sid1" "port_filed sessionSettings byPort sid2"
    using assms(2,3) by auto
  from filed obtain d1 p1 o1 t1 d2 p2 o2 t2 where
    1: "settings_get sid1 sessionSettings = Ok d1" "getPortSetting d1 SOCKET_ACCEPT_PORT True = Ok p1" "port_options sid1 d1 = Ok o1"
      "smap_find byPort p1 = Some t1" "options_agree o1 t1" and
    2: "settings_get sid2 sessionSettings = Ok d2" "getPortSetting d2 SOCKET_ACCEPT_PORT True = Ok p2" "port_options sid2 d2 = Ok o2"
      "smap_find byPort p2 = Some t2" "options_agree o2 t2"
    unfolding port_filed_def by blast
  have same: "options_agree o1 o2" if "uint p1 = uint p2"
  proof -
    have "p1 = p2" using that by (simp add: word_uint_eq_iff)
    then show ?thesis using 1(4,5) 2(4,5) by (simp add: options_agree_def)
  qed
  obtain n1 n2 where "getInt SOCKET_ACCEPT_PORT d1 = Ok n1" "uint p1 = n1" "0 \<le> n1" "n1 \<le> 65535"
      "getInt SOCKET_ACCEPT_PORT d2 = Ok n2" "uint p2 = n2"
    using getPortSetting_bounds [OF 1(2)] getPortSetting_bounds [OF 2(2)] by auto
  with same 1(1,3) 2(1,3) show ?thesis by blast
qed

section \<open>Trying the hosts of a session in turn\<close>

text \<open>The hosts of the next \<open>n\<close> attempts to connect a session; the clock reads \<open>clock i\<close> at the \<open>i\<close>th.\<close>

fun host_attempts :: "(nat \<Rightarrow> int) \<Rightarrow> SessionID \<Rightarrow> Dictionary \<Rightarrow> nat \<Rightarrow> HostDetailsProvider \<Rightarrow> HostDetails result list" where
  "host_attempts clock sid d 0 provider = []"
| "host_attempts clock sid d (Suc n) provider =
     (case getHost (clock 0) sid d provider of
        (host, provider') \<Rightarrow> host # host_attempts (\<lambda>i. clock (Suc i)) sid d n provider')"

definition by_turns :: "Dictionary \<Rightarrow> bool" where
  "by_turns d = (dict_has HOST_SELECTION_POLICY d \<longrightarrow>
     dict_getString HOST_SELECTION_POLICY False d \<noteq> Ok HOST_SELECTION_POLICY_PRIORITY)"

definition host_list :: "Dictionary \<Rightarrow> HostDetails list \<Rightarrow> bool" where
  "host_list d hosts = (hosts \<noteq> [] \<and>
     (\<forall>i. populateHostDetails (int i) d = Ok (if i < length hosts then Some (hosts ! i) else None)))"

lemma dict_has_getString: "dict_has name d \<Longrightarrow> \<exists>v. dict_getString name b d = Ok v"
  by (auto simp: dict_has_def dict_getString_def)

lemma getHost_turn:
  assumes "by_turns d" "host_list d hosts" "smap_ok provider"
    and "case smap_find provider (m_frozenString sid) of None \<Rightarrow> n = 0 | Some a \<Rightarrow> hostNumber a + 1 = int n"
    and "n \<le> length hosts"
  shows "\<exists>provider'. getHost now sid d provider = (Ok (hosts ! (n mod length hosts)), provider') \<and> smap_ok provider' \<and>
    (\<exists>a. smap_find provider' (m_frozenString sid) = Some a \<and> hostNumber a = int (n mod length hosts))"
proof -
  obtain policy where policy: "(if dict_has HOST_SELECTION_POLICY d then dict_getString HOST_SELECTION_POLICY False d else Ok []) = Ok policy"
      "policy \<noteq> HOST_SELECTION_POLICY_PRIORITY"
  proof (cases "dict_has HOST_SELECTION_POLICY d")
    case True
    then obtain v where "dict_getString HOST_SELECTION_POLICY False d = Ok v" using dict_has_getString by blast
    with True assms(1) show ?thesis by (intro that [of v]) (auto simp: by_turns_def)
  qed (intro that [of "[]"], simp_all add: HOST_SELECTION_POLICY_PRIORITY_def)
  have a: "next_attempt now d policy (smap_find provider (m_frozenString sid)) = Ok \<lparr>hostNumber = int n, attempt_time = now\<rparr>"
    using assms(4) policy(2) by (auto simp: next_attempt_def split: option.splits)
  have hosts: "populateHostDetails (int i) d = Ok (if i < length hosts then Some (hosts ! i) else None)" "hosts \<noteq> []" for i
    using assms(2) by (simp_all add: host_list_def)
  show ?thesis
  proof (cases "n < length hosts")
    case True
    then show ?thesis using assms(3) a hosts(1) [of n] by (simp add: getHost_def policy Let_def)
  next
    case False
    then have n: "n = length hosts" using assms(5) by simp
    show ?thesis using assms(3) a n hosts(1) [of n] hosts(1) [of 0] hosts(2) by (simp add: getHost_def policy Let_def)
  qed
qed

lemma host_attempts_from:
  assumes "by_turns d" "host_list d hosts"
  shows "smap_ok provider \<Longrightarrow> (case smap_find provider (m_frozenString sid) of None \<Rightarrow> j = 0 | Some a \<Rightarrow> hostNumber a + 1 = int j) \<Longrightarrow>
   j \<le> length hosts \<Longrightarrow> host_attempts clock sid d n provider = map (\<lambda>i. Ok (hosts ! ((j + i) mod length hosts))) [0..<n]"
proof (induction n arbitrary: clock provider j)
  case (Suc n)
  from getHost_turn [OF assms Suc.prems] obtain provider' a where
    step: "getHost (clock 0) sid d provider = (Ok (hosts ! (j mod length hosts)), provider')" "smap_ok provider'"
      "smap_find provider' (m_frozenString sid) = Some a" "hostNumber a = int (j mod length hosts)" by blast
  have "hosts \<noteq> []" using assms(2) by (simp add: host_list_def)
  then have "j mod length hosts + 1 \<le> length hosts" by (simp add: Suc_le_eq)
  from Suc.IH [OF step(2) _ this] step(3,4)
  have "host_attempts (\<lambda>i. clock (Suc i)) sid d n provider' = map (\<lambda>i. Ok (hosts ! ((j mod length hosts + 1 + i) mod length hosts))) [0..<n]"
    by simp
  also have "\<dots> = map (\<lambda>i. Ok (hosts ! ((j + i) mod length hosts))) [1..<Suc n]"
    by (rule nth_equalityI) (simp_all add: mod_add_left_eq mod_Suc_eq del: upt_Suc flip: mod_Suc_eq [of "j mod length hosts + _"])
  finally show ?case using step(1) by (simp add: upt_conv_Cons del: upt_Suc)
qed simp



definition two_hosts :: Dictionary where
  "two_hosts = \<lparr>m_data = [(''SOCKETCONNECTHOST'', ''a''), (''SOCKETCONNECTHOST1'', ''b''), (''SOCKETCONNECTPORT'', ''80''), (''SOCKETCONNECTPORT1'', ''81'')],
     m_name = []\<rparr>"

lemma upper_dec: "string_toUpper (dec n) = dec n"
proof -
  have "to_upper c = c" if "c \<in> set (dec n)" for c
    using set_dec [OF that] by (auto simp: is_digit_def to_upper_def)
  then show ?thesis by (simp add: string_toUpper_def map_idI)
qed

lemma two_hosts_further: "2 \<le> i \<Longrightarrow> populateHostDetails (int i) two_hosts = Ok None"
proof -
  assume i: "2 \<le> i"
  have up: "string_toUpper (SOCKET_CONNECT_HOST @ dec i) = ''SOCKETCONNECTHOST'' @ dec i"
  proof -
    have "map to_upper SOCKET_CONNECT_HOST = ''SOCKETCONNECTHOST''" by code_simp
    then show ?thesis using upper_dec [of i] by (simp add: string_toUpper_def)
  qed
  have "undec ''1'' = 1" by code_simp
  then have "dec i \<noteq> ''1''" using i by (metis undec_dec le_numeral_extra(4) not_less_eq_eq numeral_2_eq_2 One_nat_def)
  then have "\<not> dict_has (SOCKET_CONNECT_HOST @ dec i) two_hosts"
    using dec_nonempty [of i] by (simp add: dict_has_def up two_hosts_def)
  then show ?thesis using i by (simp add: populateHostDetails_def host_suffix_def Let_def)
qed

lemma two_hosts_list:
  "host_list two_hosts [\<lparr>address = ''a'', port = 80, sourceAddress = [], sourcePort = 0\<rparr>, \<lparr>address = ''b'', port = 81, sourceAddress = [], sourcePort = 0\<rparr>]"
proof -
  have suffixes: "host_suffix 0 = []" "host_suffix 1 = ''1''" by code_simp+
  have settings: "dict_has SOCKET_CONNECT_HOST two_hosts" "dict_has SOCKET_CONNECT_PORT two_hosts"
    "dict_has (SOCKET_CONNECT_HOST @ ''1'') two_hosts" "dict_has (SOCKET_CONNECT_PORT @ ''1'') two_hosts"
    "\<not> dict_has SOCKET_CONNECT_SOURCE_HOST two_hosts" "\<not> dict_has SOCKET_CONNECT_SOURCE_PORT two_hosts"
    "\<not> dict_has (SOCKET_CONNECT_SOURCE_HOST @ ''1'') two_hosts" "\<not> dict_has (SOCKET_CONNECT_SOURCE_PORT @ ''1'') two_hosts"
    "dict_getString SOCKET_CONNECT_HOST False two_hosts = Ok ''a''" "dict_getString (SOCKET_CONNECT_HOST @ ''1'') False two_hosts = Ok ''b''"
    "dict_getString SOCKET_CONNECT_PORT False two_hosts = Ok ''80''" "dict_getString (SOCKET_CONNECT_PORT @ ''1'') False two_hosts = Ok ''81''"
    by code_simp+
  have "decimal 80 = ''80''" "decimal 81 = ''81''" by code_simp+
  then have "getInt SOCKET_CONNECT_PORT two_hosts = Ok 80" "getInt (SOCKET_CONNECT_PORT @ ''1'') two_hosts = Ok 81"
    using int_convert_decimal [of signed_int 80] int_convert_decimal [of signed_int 81] settings(11,12)
    by (simp_all add: getInt_def signed_int_def int_type_ok_def)
  note settings = settings this
  have "populateHostDetails 0 two_hosts = Ok (Some \<lparr>address = ''a'', port = 80, sourceAddress = [], sourcePort = 0\<rparr>)"
    "populateHostDetails 1 two_hosts = Ok (Some \<lparr>address = ''b'', port = 81, sourceAddress = [], sourcePort = 0\<rparr>)"
    using settings suffixes by (simp_all add: populateHostDetails_def getPortSetting_def)
  moreover have "i = 0 \<or> i = 1 \<or> 2 \<le> i" for i :: nat by linarith
  ultimately show ?thesis using two_hosts_further by (auto simp: host_list_def nth_Cons' less_Suc_eq)
qed


end
