(* ===== verification/Transports.thy ===== *)
theory Transports
  imports SocketConnections TransportSettings
begin

text \<open>
  What the initiator and the acceptor have in common: their sessions and settings, the connections filed under their sockets, and how a
  connection and its session speak to each other. Sessions are those of the registry. A session speaks to its responder while it runs; as
  \<open>send\<close> always answers true, its calls are performed here after the session's own step, in the order it made them. \<open>responders\<close>
  says which connection a session has been given. What the program asks of its surroundings (clocks, new sockets, bytes received) is
  answered by \<open>world\<close>, one answer per question. Logging and mutexes are not modelled.
\<close>

section \<open>State\<close>

text \<open>\<open>new_socket used\<close> is the answer of \<open>socket()\<close> or \<open>accept()\<close> when the numbers \<open>used\<close> are open; \<open>received\<close> is None when \<open>recv\<close>
  answers 0 or fails; \<open>peername\<close> is the address of the other side.\<close>

record Answers =
  new_socket :: "socket_handle set \<Rightarrow> socket_handle"
  steady_now :: int
  wall_now :: int
  utc_now :: DateTime
  received :: "string option"
  takes :: "nat \<Rightarrow> string \<Rightarrow> int"
  peername :: string

text \<open>Connections whose \<open>connect()\<close> is under way are filed apart; only an initiator has them.\<close>

record Transport =
  registry :: Registry
  t_settings :: SessionSettings
  t_sessions :: "(string, nat) smap"
  m_pendingConnections :: "(socket_handle, SocketConnection) smap"
  m_connections :: "(socket_handle, SocketConnection) smap"
  responders :: "nat \<rightharpoonup> socket_handle"
  world :: "nat \<Rightarrow> Answers"
  asked :: nat

type_synonym ('t, 'a) transport = "('t Transport_scheme \<times> SocketMonitor, 'a) eff"

definition ask :: "(Answers \<Rightarrow> 'a) \<Rightarrow> ('t, 'a) transport" where
  "ask f w = (Ok (f (world (fst w) (asked (fst w)))), (fst w)\<lparr>asked := asked (fst w) + 1\<rparr>, snd w)"

definition modify_transport :: "('t Transport_scheme \<Rightarrow> 't Transport_scheme) \<Rightarrow> ('t, unit) transport" where
  "modify_transport f = emodify (\<lambda>w. (f (fst w), snd w))"

definition gets_transport :: "('t Transport_scheme \<Rightarrow> 'a) \<Rightarrow> ('t, 'a) transport" where
  "gets_transport f = egets (\<lambda>w. f (fst w))"

section \<open>Sessions and their responders\<close>

definition on_connection :: "socket_handle \<Rightarrow> (SocketConnection \<times> SocketMonitor \<Rightarrow> SocketConnection \<times> SocketMonitor) \<Rightarrow>
    't Transport_scheme \<times> SocketMonitor \<Rightarrow> 't Transport_scheme \<times> SocketMonitor" where
  "on_connection h f w =
     (case w of (t, m) \<Rightarrow>
        (case smap_find (m_connections t) h of
           Some c \<Rightarrow> (case f (c, m) of (c', m') \<Rightarrow> (t\<lparr>m_connections := smap_put h c' (m_connections t)\<rparr>, m'))
         | None \<Rightarrow>
             (case smap_find (m_pendingConnections t) h of
                Some c \<Rightarrow> (case f (c, m) of (c', m') \<Rightarrow> (t\<lparr>m_pendingConnections := smap_put h c' (m_pendingConnections t)\<rparr>, m'))
              | None \<Rightarrow> w)))"

definition respond :: "nat \<Rightarrow> nat \<Rightarrow> event \<Rightarrow> 't Transport_scheme \<times> SocketMonitor \<Rightarrow> 't Transport_scheme \<times> SocketMonitor" where
  "respond self p e w =
     (case responders (fst w) p of
        None \<Rightarrow> w
      | Some h \<Rightarrow>
          (case e of
             Sent text \<Rightarrow> on_connection h (send_connection text) w
           | Closed \<Rightarrow>
               (case on_connection h (\<lambda>(c, m). (c, disconnect_connection self c m)) w of
                  (t, m) \<Rightarrow> (t\<lparr>responders := (responders t)(p := None)\<rparr>, m))
           | _ \<Rightarrow> w))"

text \<open>A call on the session at an address. A pointer to no object has no meaning; here the call throws.\<close>

definition run_session :: "nat \<Rightarrow> nat \<Rightarrow> 'a action \<Rightarrow> ('t, 'a) transport" where
  "run_session self p act w =
     (case w of (t, m) \<Rightarrow>
        (case objects (registry t) p of
           None \<Rightarrow> (Throw StdException, t, m)
         | Some s \<Rightarrow>
             (case act s of
                (x, s') \<Rightarrow>
                  (x, fold (respond self p) (drop (length (s_out s)) (s_out s'))
                        (t\<lparr>registry := (registry t)\<lparr>objects := (objects (registry t))(p \<mapsto> s')\<rparr>\<rparr>, m)))))"

definition session_at :: "nat \<Rightarrow> 't Transport_scheme \<Rightarrow> Session option" where
  "session_at p t = objects (registry t) p"

definition looked_up :: "SessionID \<Rightarrow> 't Transport_scheme \<Rightarrow> Session option" where
  "looked_up sid t = (case lookupSession sid (registry t) of None \<Rightarrow> None | Some p \<Rightarrow> session_at p t)"

text \<open>\<open>SocketConnection::onTimeout\<close>.\<close>

definition connection_timeout :: "nat \<Rightarrow> SocketConnection \<Rightarrow> ('t, unit) transport" where
  "connection_timeout self c =
     (case m_pSession c of
        None \<Rightarrow> eret ()
      | Some p \<Rightarrow> ebind (ask utc_now) (\<lambda>now. run_session self p (next_timer now)))"

text \<open>The session of a connection, which the code dereferences unasked.\<close>

definition session_of :: "SocketConnection \<Rightarrow> 't Transport_scheme \<Rightarrow> (nat \<times> SessionID) option" where
  "session_of c t =
     (case m_pSession c of
        None \<Rightarrow> None
      | Some p \<Rightarrow> (case session_at p t of None \<Rightarrow> None | Some s \<Rightarrow> Some (p, m_sessionID s)))"

section \<open>Reading from a connection\<close>

definition set_parser :: "socket_handle \<Rightarrow> Parser \<Rightarrow> ('t, unit) transport" where
  "set_parser h p = emodify (on_connection h (\<lambda>(c, m). (c\<lparr>m_parser := p\<rparr>, m)))"

text \<open>One message of the stream, handed to the session.\<close>

definition next_message_at :: "nat \<Rightarrow> socket_handle \<Rightarrow> nat \<Rightarrow> string \<Rightarrow> ('t, unit) transport" where
  "next_message_at self h p msg =
     ebind (ask utc_now) (\<lambda>now.
     ecatch (run_session self p (next_string msg now))
       (\<lambda>e. if e \<noteq> InvalidMessage then ethrow e
            else ebind (gets_transport (session_at p)) (\<lambda>session.
              if (case session of None \<Rightarrow> True | Some s \<Rightarrow> isLoggedOn s) then eret ()
              else emodify (\<lambda>w. (fst w, snd (drop_socket self h (snd w)))))))"

function readMessages :: "nat \<Rightarrow> socket_handle \<Rightarrow> nat \<Rightarrow> string \<Rightarrow> Parser \<Rightarrow> ('t, unit) transport" where
  "readMessages self h p msg parser =
     (case readMessage msg parser of
        (False, msg', parser') \<Rightarrow> set_parser h parser'
      | (True, msg', parser') \<Rightarrow>
          ebind (set_parser h parser') (\<lambda>_.
          ebind (next_message_at self h p msg') (\<lambda>_.
          readMessages self h p msg' parser')))"
  by auto
termination
  by (relation "measure (\<lambda>(self, h, p, msg, parser). length (m_buffer parser))") (auto dest!: readMessage_shrinks [OF sym])

declare readMessages.simps [simp del]

section \<open>Deleting the sessions\<close>

text \<open>What the handler of \<open>initialize\<close> and the destructor do to the sessions.\<close>

definition delete_sessions :: "'t Transport_scheme \<Rightarrow> 't Transport_scheme" where
  "delete_sessions t = t\<lparr>registry := fold (\<lambda>e r. destroy (snd e) r) (t_sessions t) (registry t), t_sessions := []\<rparr>"

end
