(* ===== verification/Initiators.thy ===== *)
theory Initiators
  imports Transports
begin

text \<open>
  Initiator.cpp, SocketInitiator.cpp and the part of SocketConnector.cpp between them and the monitor: which sessions are
  pending, connected or disconnected, the connections that carry them, and the callbacks of the reactor. Starting and stopping its thread are
  not modelled.
\<close>

section \<open>State\<close>

record SocketInitiator = Transport +
  m_pending :: "(string, SessionID) smap"
  m_connected :: "(string, SessionID) smap"
  m_disconnected :: "(string, SessionID) smap"
  m_lastConnectAttempt :: "(string, int) smap"
  m_hostDetailsProvider :: HostDetailsProvider
  m_lastConnect :: int

type_synonym 'a ini = "(SocketInitiator \<times> SocketMonitor, 'a) eff"

section \<open>Initiator.cpp\<close>

definition setPending :: "SessionID \<Rightarrow> SocketInitiator \<Rightarrow> SocketInitiator" where
  "setPending sid ini =
     ini\<lparr>m_pending := smap_put (m_frozenString sid) sid (m_pending ini),
         m_connected := smap_erase (m_frozenString sid) (m_connected ini),
         m_disconnected := smap_erase (m_frozenString sid) (m_disconnected ini)\<rparr>"

definition setConnected :: "SessionID \<Rightarrow> SocketInitiator \<Rightarrow> SocketInitiator" where
  "setConnected sid ini =
     ini\<lparr>m_pending := smap_erase (m_frozenString sid) (m_pending ini),
         m_connected := smap_put (m_frozenString sid) sid (m_connected ini),
         m_disconnected := smap_erase (m_frozenString sid) (m_disconnected ini)\<rparr>"

definition setDisconnected :: "SessionID \<Rightarrow> SocketInitiator \<Rightarrow> SocketInitiator" where
  "setDisconnected sid ini =
     ini\<lparr>m_pending := smap_erase (m_frozenString sid) (m_pending ini),
         m_connected := smap_erase (m_frozenString sid) (m_connected ini),
         m_disconnected := smap_put (m_frozenString sid) sid (m_disconnected ini)\<rparr>"

definition isPending :: "SessionID \<Rightarrow> SocketInitiator \<Rightarrow> bool" where
  "isPending sid ini = (smap_find (m_pending ini) (m_frozenString sid) \<noteq> None)"

definition isConnected :: "SessionID \<Rightarrow> SocketInitiator \<Rightarrow> bool" where
  "isConnected sid ini = (smap_find (m_connected ini) (m_frozenString sid) \<noteq> None)"

definition isDisconnected :: "SessionID \<Rightarrow> SocketInitiator \<Rightarrow> bool" where
  "isDisconnected sid ini = (smap_find (m_disconnected ini) (m_frozenString sid) \<noteq> None)"

definition reconnectInterval :: "Dictionary \<Rightarrow> int result" where
  "reconnectInterval d = (if dict_has RECONNECT_INTERVAL d then getInt RECONNECT_INTERVAL d else Ok 30)"

text \<open>\<open>getSession(sessionID, responder)\<close>: the connection under \<open>h\<close> becomes the responder of the session.\<close>

definition getSession_initiator :: "nat \<Rightarrow> SessionID \<Rightarrow> socket_handle \<Rightarrow> nat option ini" where
  "getSession_initiator self sid h =
     ebind (gets_transport (\<lambda>ini. smap_find (t_sessions ini) (m_frozenString sid))) (\<lambda>found.
       case found of
         None \<Rightarrow> eret None
       | Some p \<Rightarrow>
           ebind (run_session self p (setResponder True)) (\<lambda>_.
           ebind (modify_transport (\<lambda>ini. ini\<lparr>responders := (responders ini)(p \<mapsto> h)\<rparr>)) (\<lambda>_. eret (Some p))))"

text \<open>The constructor, before \<open>initialize\<close>. \<open>m_sessionIDs\<close> is the set of the keys of \<open>m_sessions\<close> and is left out.\<close>

definition new_SocketInitiator :: "Registry \<Rightarrow> SessionSettings \<Rightarrow> (nat \<Rightarrow> Answers) \<Rightarrow> SocketInitiator" where
  "new_SocketInitiator r settings answers =
     \<lparr>registry = r, t_settings = settings, t_sessions = [], m_pendingConnections = [], m_connections = [],
      responders = Map.empty, world = answers, asked = 0, m_pending = [], m_connected = [], m_disconnected = [],
      m_lastConnectAttempt = [], m_hostDetailsProvider = [], m_lastConnect = 0\<rparr>"

text \<open>One turn of the loop of \<open>initialize\<close>; the dictionaries are those of the session factory.\<close>

definition initialize_session :: "factory_env \<Rightarrow> SessionID \<Rightarrow> (dictionaries \<times> SocketInitiator, unit) eff" where
  "initialize_session env sid st =
     (case st of (c, ini) \<Rightarrow>
        (case rbind (settings_get sid (t_settings ini)) (\<lambda>d. rbind (dict_getString ''ConnectionType'' False d) (\<lambda>t. Ok (d, t))) of
           Inl e \<Rightarrow> (Throw e, st)
         | Inr (d, t) \<Rightarrow>
             if t \<noteq> ''initiator'' then (Ok (), st)
             else (case reconnectInterval d of
                 Inl e \<Rightarrow> (Throw e, st)
               | Inr _ \<Rightarrow>
                   (case SessionFactory_create env sid d \<lparr>m_dictionaries = c, f_registry = registry ini\<rparr> of
                      (Inl e, f) \<Rightarrow> (Throw e, m_dictionaries f, ini\<lparr>registry := f_registry f\<rparr>)
                    | (Inr p, f) \<Rightarrow>
                        (Ok (), m_dictionaries f, setDisconnected sid
                          (ini\<lparr>registry := f_registry f, t_sessions := smap_put (m_frozenString sid) p (t_sessions ini)\<rparr>))))))"

definition initialize :: "factory_env \<Rightarrow> (dictionaries \<times> SocketInitiator, unit) eff" where
  "initialize env st =
     (let sessions = getSessions (t_settings (snd st)) in
      if sessions = [] then (Throw ConfigError, fst st, delete_sessions (snd st))
      else (case eseq (map (initialize_session env) sessions) st of
          (Inl e, c, ini) \<Rightarrow> (Throw e, c, delete_sessions ini)
        | (Inr _, c, ini) \<Rightarrow>
            if t_sessions ini = [] then (Throw ConfigError, c, delete_sessions ini) else (Ok (), c, ini)))"

text \<open>\<open>isLoggedOn\<close> looks at the connected sessions only. A session that is not found is dereferenced by the code.\<close>

definition initiator_isLoggedOn :: "SocketInitiator \<Rightarrow> bool" where
  "initiator_isLoggedOn ini =
     list_ex (\<lambda>e. case looked_up (snd e) ini of None \<Rightarrow> False | Some s \<Rightarrow> isLoggedOn s) (m_connected ini)"

section \<open>SocketInitiator.cpp\<close>

text \<open>\<open>SocketConnector::connect\<close>: the answer of \<open>connect()\<close> on the socket is not looked at.\<close>

definition connector_connect :: "socket_handle ini" where
  "connector_connect w =
     (let s = new_socket (world (fst w) (asked (fst w))) (held (snd w));
          ini = (fst w)\<lparr>asked := asked (fst w) + 1\<rparr> in
      if s \<noteq> INVALID_SOCKET_HANDLE then (Ok s, ini, snd (addConnect s (snd w))) else (Ok s, ini, snd w))"

definition getHost_initiator :: "SessionID \<Rightarrow> Dictionary \<Rightarrow> HostDetails ini" where
  "getHost_initiator sid d =
     ebind (ask wall_now) (\<lambda>now w.
       case getHost now sid d (m_hostDetailsProvider (fst w)) of
         (x, provider) \<Rightarrow> (x, (fst w)\<lparr>m_hostDetailsProvider := provider\<rparr>, snd w))"

text \<open>The try block of \<open>doConnect\<close> after the session is known to be in its time: the settings, all of which may throw, then the
  socket and the connection, whose constructor makes it the responder of the session.\<close>

definition connection_options :: "SessionID \<Rightarrow> Dictionary \<Rightarrow> unit ini" where
  "connection_options sid d =
     ebind (getHost_initiator sid d) (\<lambda>host.
     ebind (elift (reconnectInterval d)) (\<lambda>_.
     ebind (elift (getSocketNoDelay d)) (\<lambda>_.
     ebind (elift (getSocketBufferSize d SOCKET_SEND_BUFFER_SIZE)) (\<lambda>_.
     ebind (elift (getSocketBufferSize d SOCKET_RECEIVE_BUFFER_SIZE)) (\<lambda>_. eret ())))))"

definition file_connection :: "SessionID \<Rightarrow> socket_handle \<Rightarrow> nat option \<Rightarrow> unit ini" where
  "file_connection sid h session =
     ebind (ask (\<lambda>a. (wall_now a, takes a))) (\<lambda>(now, takes').
     modify_transport (\<lambda>ini. ini\<lparr>m_pendingConnections :=
       smap_put h (new_SocketConnection takes' now h [sid] session) (m_pendingConnections ini)\<rparr>))"

definition start_connection :: "nat \<Rightarrow> SessionID \<Rightarrow> unit ini" where
  "start_connection self sid =
     ebind connector_connect (\<lambda>result.
     ebind (modify_transport (setPending sid)) (\<lambda>_.
     ebind (getSession_initiator self sid result) (\<lambda>session. file_connection sid result session)))"

definition open_connection :: "nat \<Rightarrow> SessionID \<Rightarrow> Dictionary \<Rightarrow> unit ini" where
  "open_connection self sid d = ebind (connection_options sid d) (\<lambda>_. start_connection self sid)"

text \<open>\<open>catch (std::exception &)\<close> swallows every exception.\<close>

definition doConnect :: "nat \<Rightarrow> SessionID \<Rightarrow> Dictionary \<Rightarrow> unit ini" where
  "doConnect self sid d =
     ecatch
       (ebind (gets_transport (looked_up sid)) (\<lambda>session.
        case session of
          None \<Rightarrow> eret ()
        | Some s \<Rightarrow>
            ebind (ask utc_now) (\<lambda>now.
              if \<not> isSessionTime s now then eret () else open_connection self sid d)))
       (\<lambda>_. eret ())"

definition connect_session :: "nat \<Rightarrow> int \<Rightarrow> SessionID \<Rightarrow> unit ini" where
  "connect_session self now sid =
     ebind (gets_transport (looked_up sid)) (\<lambda>session.
       case session of
         None \<Rightarrow> eret ()
       | Some s \<Rightarrow>
           if \<not> isEnabled s then eret ()
           else ebind (ask utc_now) (\<lambda>utc.
             if \<not> isSessionTime s utc then eret ()
             else ebind (gets_transport (\<lambda>ini. settings_get sid (t_settings ini))) (\<lambda>found.
                  ebind (elift found) (\<lambda>settings.
                  ebind (gets_transport (\<lambda>ini. smap_find (m_lastConnectAttempt ini) (m_frozenString sid))) (\<lambda>last_attempt.
                  ebind (case last_attempt of
                           None \<Rightarrow> eret False
                         | Some t \<Rightarrow> elift (rbind (reconnectInterval settings) (\<lambda>interval. Ok (now - t < interval)))) (\<lambda>wait.
                    if wait then eret ()
                    else ebind (modify_transport (\<lambda>ini. ini\<lparr>m_lastConnectAttempt := smap_put (m_frozenString sid) now (m_lastConnectAttempt ini)\<rparr>)) (\<lambda>_.
                         doConnect self sid settings)))))))"

text \<open>\<open>Initiator::connect\<close>, over a copy of the set.\<close>

definition connect :: "nat \<Rightarrow> unit ini" where
  "connect self =
     ebind (ask steady_now) (\<lambda>now.
     ebind (gets_transport m_disconnected) (\<lambda>disconnected.
     eseq (map (\<lambda>e. connect_session self now (snd e)) disconnected)))"

definition initiator_onConnect :: "nat \<Rightarrow> socket_handle \<Rightarrow> unit ini" where
  "initiator_onConnect self h =
     ebind (gets_transport (\<lambda>ini. smap_find (m_pendingConnections ini) h)) (\<lambda>found.
       case found of
         None \<Rightarrow> eret ()
       | Some c \<Rightarrow>
           ebind (modify_transport (\<lambda>ini. ini\<lparr>m_connections := smap_put h c (m_connections ini),
             m_pendingConnections := smap_erase h (m_pendingConnections ini)\<rparr>)) (\<lambda>_.
           ebind (gets_transport (session_of c)) (\<lambda>session.
             case session of
               None \<Rightarrow> ethrow StdException
             | Some (p, sid) \<Rightarrow>
                 ebind (modify_transport (setConnected sid)) (\<lambda>_. connection_timeout self c))))"

definition initiator_onWrite :: "socket_handle \<Rightarrow> unit ini" where
  "initiator_onWrite h w =
     (case smap_find (m_connections (fst w)) h of
        None \<Rightarrow> (Ok (), w)
      | Some _ \<Rightarrow> (Ok (), on_connection h write_connection w))"

section \<open>Reading from a connection\<close>

text \<open>\<open>read(SocketConnector &)\<close>. A failed \<open>recv\<close> and a parse error both end the connection.\<close>

definition read_connection :: "nat \<Rightarrow> socket_handle \<Rightarrow> SocketConnection \<Rightarrow> bool ini" where
  "read_connection self h c =
     (case m_pSession c of
        None \<Rightarrow> eret False
      | Some p \<Rightarrow>
          ebind (ask received) (\<lambda>bytes.
            case bytes of
              None \<Rightarrow> eret False
            | Some bytes \<Rightarrow>
                ecatch
                  (ebind (elift (addToStream bytes (m_parser c))) (\<lambda>parser.
                   ebind (set_parser h parser) (\<lambda>_.
                   ebind (readMessages self h p [] parser) (\<lambda>_. eret True))))
                  (\<lambda>e. if e = MessageParseError then eret False else ethrow e)))"

definition initiator_onData :: "nat \<Rightarrow> socket_handle \<Rightarrow> bool ini" where
  "initiator_onData self h =
     ebind (gets_transport (\<lambda>ini. smap_find (m_connections ini) h)) (\<lambda>found.
       case found of None \<Rightarrow> eret False | Some c \<Rightarrow> read_connection self h c)"

definition filed_connection :: "socket_handle \<Rightarrow> SocketInitiator \<Rightarrow> SocketConnection option" where
  "filed_connection h ini =
     (case smap_find (m_pendingConnections ini) h of Some c \<Rightarrow> Some c | None \<Rightarrow> smap_find (m_connections ini) h)"

text \<open>The rest of \<open>onDisconnect\<close>, with the destructor of the connection.\<close>

definition remove_connection :: "nat \<Rightarrow> socket_handle \<Rightarrow> nat \<Rightarrow> SessionID \<Rightarrow> unit ini" where
  "remove_connection self h p sid =
     ebind (modify_transport (setDisconnected sid)) (\<lambda>_.
     ebind (run_session self p disconnect) (\<lambda>_.
     ebind (modify_transport (setDisconnected sid)) (\<lambda>_.
     modify_transport (\<lambda>ini. ini\<lparr>registry := unregisterSession sid (registry ini),
       m_connections := smap_erase h (m_connections ini),
       m_pendingConnections := smap_erase h (m_pendingConnections ini)\<rparr>))))"

definition initiator_onDisconnect :: "nat \<Rightarrow> socket_handle \<Rightarrow> unit ini" where
  "initiator_onDisconnect self h w =
     (case filed_connection h (fst w) of
        None \<Rightarrow> (Ok (), w)
      | Some c \<Rightarrow>
          (case session_of c (fst w) of
             None \<Rightarrow> (Throw StdException, w)
           | Some (p, sid) \<Rightarrow> remove_connection self h p sid w))"

definition initiator_onTimeout :: "nat \<Rightarrow> unit ini" where
  "initiator_onTimeout self =
     ebind (connect self) (\<lambda>_.
     ebind (gets_transport m_connections) (\<lambda>connections.
     eseq (map (\<lambda>e. connection_timeout self (snd e)) connections)))"

section \<open>The strategy of the connector\<close>

text \<open>\<open>ConnectorWrapper\<close> on top of \<open>SocketInitiator\<close>.\<close>

definition connector_onEvent :: "nat \<Rightarrow> socket_handle \<Rightarrow> unit ini" where
  "connector_onEvent self s =
     ebind (initiator_onData self s) (\<lambda>ok. ewhen (\<not> ok) (initiator_onDisconnect self s))"

definition connector_onError :: "nat \<Rightarrow> socket_handle \<Rightarrow> unit ini" where
  "connector_onError self s w =
     (case drop_socket self s (snd w) of
        (dropped, m) \<Rightarrow> if \<not> dropped then initiator_onDisconnect self s (fst w, m) else (Ok (), fst w, m))"

definition connector_strategy :: "nat \<Rightarrow> SocketInitiator Strategy" where
  "connector_strategy self =
     \<lparr>onConnect = initiator_onConnect self, onWrite = initiator_onWrite, onEvent = connector_onEvent self,
      onError = connector_onError self, onErrorAll = initiator_onTimeout self, onTimeout = initiator_onTimeout self\<rparr>"

text \<open>One turn of the loop of \<open>onStart\<close> (\<open>should_poll\<close> false) or a call of \<open>onPoll\<close> (true) while the initiator runs: a
  pass of the reactor and, once in a second, a sweep.\<close>

definition initiator_turn :: "nat \<Rightarrow> bool \<Rightarrow> (int \<times> poll_answer) list \<Rightarrow> SocketInitiator \<times> SocketMonitor \<Rightarrow>
    (unit result \<times> SocketInitiator \<times> SocketMonitor) option" where
  "initiator_turn self should_poll answers w =
     (case block self (connector_strategy self) should_poll answers w of
        None \<Rightarrow> None
      | Some (Inl e, w) \<Rightarrow> Some (Throw e, w)
      | Some (Inr _, w) \<Rightarrow>
          Some (ebind (ask wall_now) (\<lambda>now.
                ebind (gets_transport m_lastConnect) (\<lambda>lastConnect.
                  if now = lastConnect then eret ()
                  else ebind (modify_transport (\<lambda>ini. ini\<lparr>m_lastConnect := now\<rparr>)) (\<lambda>_. initiator_onTimeout self))) w))"

end
