(* ===== verification/TransportFrames.thy ===== *)
theory TransportFrames
  imports Transports SessionTimers
begin

text \<open>
  What the steps of sessions and connections leave alone, whatever the transport. The locale \<open>transport_invariant\<close> carries a
  property of a transport through everything that a session does when it is called.
\<close>

section \<open>Sockets\<close>

text \<open>The kernel does not hand out a number that is open. Open sockets do not include the invalid handle, which is its answer when it
  has none to give.\<close>

definition fresh_sockets :: "(nat \<Rightarrow> Answers) \<Rightarrow> bool" where
  "fresh_sockets answers = (\<forall>n used. INVALID_SOCKET_HANDLE \<notin> used \<longrightarrow> new_socket (answers n) used \<notin> used)"

lemma shrinks_held: "shrinks m m' \<Longrightarrow> monitor_ok m \<Longrightarrow> held m' = held m \<and> m_owner m' = m_owner m \<and>
    m_readSockets m \<union> set (m_dropped m) \<subseteq> m_readSockets m' \<union> set (m_dropped m') \<and>
    m_connectSockets m \<union> set (m_dropped m) \<subseteq> m_connectSockets m' \<union> set (m_dropped m')"
  using shrinks_moves [of m m'] by (auto simp: held_def)

section \<open>Creating sessions\<close>

lemma create_outcome:
  assumes "registry_ok (f_registry f)" "SessionFactory_create env sid d f = (Ok p, f')"
  shows "registry_ok (f_registry f') \<and> objects (f_registry f) p = None \<and>
    (\<exists>s. objects (f_registry f') = (objects (f_registry f))(p \<mapsto> s) \<and> m_sessionID s = sid)"
  using assms(2)
proof (cases rule: SessionFactory_create_run)
  case (built connectionType use version provider c sc hb r')
  then show ?thesis using create_session_run [OF assms(1) built(4,6)] by auto
qed simp

section \<open>Operations on one connection\<close>

text \<open>An operation that keeps the identity of the connection and opens nothing.\<close>

definition harmless :: "(SocketConnection \<times> SocketMonitor \<Rightarrow> SocketConnection \<times> SocketMonitor) \<Rightarrow> bool" where
  "harmless f = (\<forall>c m. m_socket (fst (f (c, m))) = m_socket c \<and> m_pSession (fst (f (c, m))) = m_pSession c \<and>
     m_sessions (fst (f (c, m))) = m_sessions c \<and> shrinks m (snd (f (c, m))))"

lemma signal_shrinks: "shrinks m (signal_connection c m)" "shrinks m (unsignal_connection c m)" "shrinks m (disconnect_connection self c m)"
  using shrinks.intros(1,3-5) by (auto simp: signal_connection_def unsignal_connection_def disconnect_connection_def)

lemma harmless_ops:
  "harmless (send_connection msg)" "harmless write_connection" "harmless (\<lambda>(c, m). (c, disconnect_connection self c m))"
  "harmless (\<lambda>(c, m). (c\<lparr>m_parser := parser\<rparr>, m))"
proof -
  show "harmless (send_connection msg)"
    unfolding harmless_def
  proof (intro allI)
    fix c m
    show "m_socket (fst (send_connection msg (c, m))) = m_socket c \<and> m_pSession (fst (send_connection msg (c, m))) = m_pSession c \<and>
        m_sessions (fst (send_connection msg (c, m))) = m_sessions c \<and> shrinks m (snd (send_connection msg (c, m)))"
      using processQueue_frame [of "c\<lparr>m_sendQueue := m_sendQueue c @ [msg]\<rparr>"]
      by (auto simp: send_connection_def socket_send_def Let_def signal_shrinks shrinks.stays)
  qed
  show "harmless write_connection"
    using processQueue_frame signal_shrinks(2) shrinks.stays unfolding harmless_def write_connection_def
    by (auto split: prod.split bool.split) (metis snd_conv)+
qed (auto simp: harmless_def signal_shrinks shrinks.stays)

section \<open>Transports that resemble each other\<close>

text \<open>What is known of the connection under a socket, and of the sessions of a registry.\<close>

definition known :: "(socket_handle, SocketConnection) smap \<Rightarrow> socket_handle \<rightharpoonup> socket_handle \<times> nat option \<times> SessionID list" where
  "known cs h = map_option (\<lambda>c. (m_socket c, m_pSession c, m_sessions c)) (smap_find cs h)"

definition id_of :: "Registry \<Rightarrow> nat \<rightharpoonup> SessionID" where
  "id_of r p = map_option m_sessionID (objects r p)"

definition same_registry :: "Registry \<Rightarrow> Registry \<Rightarrow> bool" where
  "same_registry r r' = (r' = r\<lparr>objects := objects r'\<rparr> \<and> id_of r' = id_of r)"

definition smaps_ok :: "'t Transport_scheme \<Rightarrow> bool" where
  "smaps_ok t = (smap_ok (m_connections t) \<and> smap_ok (m_pendingConnections t))"

definition resembles :: "'t Transport_scheme \<times> SocketMonitor \<Rightarrow> 't Transport_scheme \<times> SocketMonitor \<Rightarrow> bool" where
  "resembles w w' =
     (case (w, w') of ((t, m), (t', m')) \<Rightarrow>
        Transport.more t' = Transport.more t \<and> t_settings t' = t_settings t \<and> t_sessions t' = t_sessions t \<and> world t' = world t \<and>
        same_registry (registry t) (registry t') \<and> known (m_connections t') = known (m_connections t) \<and>
        known (m_pendingConnections t') = known (m_pendingConnections t) \<and> smaps_ok t' \<and> shrinks m m')"

lemma resembles_refl: "smaps_ok (fst w) \<Longrightarrow> resembles w w"
  by (cases w) (simp add: resembles_def same_registry_def shrinks.stays)

lemma resembles_trans: "resembles w w' \<Longrightarrow> resembles w' w'' \<Longrightarrow> resembles w w''"
  by (cases w; cases w'; cases w'') (auto simp: resembles_def same_registry_def intro: shrinks_trans; metis Registry.surjective Registry.update_convs(4))

lemma resembles_ok: "resembles w w' \<Longrightarrow> smaps_ok (fst w')"
  by (cases w; cases w') (simp add: resembles_def)

lemma known_put:
  "smap_ok cs \<Longrightarrow> smap_find cs h = Some c \<Longrightarrow> m_socket c' = m_socket c \<Longrightarrow> m_pSession c' = m_pSession c \<Longrightarrow> m_sessions c' = m_sessions c \<Longrightarrow>
   known (smap_put h c' cs) = known cs"
  by (auto simp: known_def fun_eq_iff)

lemma on_connection_resembles:
  assumes "harmless f" "smaps_ok (fst w)"
  shows "resembles w (on_connection h f w)"
proof -
  obtain t m where w: "w = (t, m)" by (cases w)
  have f: "m_socket c' = m_socket c \<and> m_pSession c' = m_pSession c \<and> m_sessions c' = m_sessions c \<and> shrinks m m'" if "f (c, m) = (c', m')" for c c' m'
    using assms(1) that unfolding harmless_def by (metis fst_conv snd_conv)
  have ok: "smap_ok (m_connections t)" "smap_ok (m_pendingConnections t)" using assms(2) by (simp_all add: w smaps_ok_def)
  show ?thesis
  proof (cases "smap_find (m_connections t) h")
    case (Some c)
    obtain c' m' where run: "f (c, m) = (c', m')" by (cases "f (c, m)")
    show ?thesis using f [OF run] ok known_put [OF ok(1) Some, of c']
      by (simp add: w on_connection_def resembles_def same_registry_def smaps_ok_def Some run)
  next
    case None
    show ?thesis
    proof (cases "smap_find (m_pendingConnections t) h")
      case pending: (Some c)
      obtain c' m' where run: "f (c, m) = (c', m')" by (cases "f (c, m)")
      show ?thesis using f [OF run] ok known_put [OF ok(2) pending, of c']
        by (simp add: w on_connection_def resembles_def same_registry_def smaps_ok_def None pending run)
    qed (use None assms(2) in \<open>simp add: w on_connection_def resembles_refl\<close>)
  qed
qed

lemma respond_resembles: "smaps_ok (fst w) \<Longrightarrow> resembles w (respond self p e w)"
proof (cases "responders (fst w) p")
  case (Some h)
  assume w: "smaps_ok (fst w)"
  have sent: "resembles w (on_connection h (send_connection msg) w)" for msg
    by (rule on_connection_resembles [OF harmless_ops(1) w])
  have closed: "resembles w (on_connection h (\<lambda>(c, m). (c, disconnect_connection self c m)) w)"
    by (rule on_connection_resembles [OF harmless_ops(3) w])
  have responders: "resembles w (t\<lparr>responders := x\<rparr>, m)" if "resembles w (t, m)" for t m x
    using that by (cases w) (simp add: resembles_def smaps_ok_def)
  show ?thesis using Some sent closed responders resembles_refl [OF w] by (cases e) (auto simp: respond_def split: prod.split)
qed (simp add: respond_def resembles_refl)

lemma responds_resembles: "smaps_ok (fst w) \<Longrightarrow> resembles w (fold (respond self p) es w)"
proof (induction es arbitrary: w)
  case (Cons e es)
  have "resembles w (respond self p e w)" by (rule respond_resembles [OF Cons.prems])
  moreover have "resembles (respond self p e w) (fold (respond self p) es (respond self p e w))"
    by (rule Cons.IH [OF resembles_ok [OF calculation]])
  ultimately show ?case by (simp add: resembles_trans [of w])
qed (simp add: resembles_refl)

lemma on_connection_registry: "registry (fst (on_connection h f w)) = registry (fst w)"
  by (auto simp: on_connection_def split: prod.split option.split)

lemma respond_registry: "registry (fst (respond self p e w)) = registry (fst w)"
  using on_connection_registry [of _ _ w] by (auto simp: respond_def split: option.split event.split prod.splits) (metis fst_conv)+

lemma responds_registry: "registry (fst (fold (respond self p) es w)) = registry (fst w)"
  by (induction es arbitrary: w) (simp_all add: respond_registry)

text \<open>A step of a session that does not change its id.\<close>

definition keeps_id :: "'a action \<Rightarrow> bool" where
  "keeps_id act = (\<forall>s. m_sessionID (snd (act s)) = m_sessionID s)"

lemma keeps_idI: "(\<And>s x s'. act s = (x, s') \<Longrightarrow> session_call s s') \<Longrightarrow> keeps_id act"
  by (metis keeps_id_def session_call_id surjective_pairing)

lemma keeps_id_calls:
  "keeps_id (next_timer now)" "keeps_id (next_string msg now)" "keeps_id (setResponder b)" "keeps_id disconnect"
  by (rule keeps_idI, erule session_call.intros)+

lemma run_session_resembles:
  assumes "keeps_id act" "smaps_ok (fst w)"
  shows "resembles w (snd (run_session self p act w))"
proof -
  obtain t m where w: "w = (t, m)" by (cases w)
  show ?thesis
  proof (cases "objects (registry t) p")
    case None
    then show ?thesis using resembles_refl [OF assms(2)] by (simp add: w run_session_def)
  next
    case (Some s)
    obtain x s' where act: "act s = (x, s')" by (cases "act s")
    let ?t = "t\<lparr>registry := (registry t)\<lparr>objects := (objects (registry t))(p \<mapsto> s')\<rparr>\<rparr>"
    have "m_sessionID s' = m_sessionID s" using assms(1) act unfolding keeps_id_def by (metis snd_conv)
    then have "resembles w (?t, m)" using Some assms(2)
      by (auto simp: w resembles_def same_registry_def id_of_def fun_eq_iff smaps_ok_def shrinks.stays)
    then have "resembles w (fold (respond self p) (drop (length (s_out s)) (s_out s')) (?t, m))"
      using responds_resembles [OF resembles_ok] resembles_trans by blast
    then show ?thesis using act Some by (simp add: w run_session_def)
  qed
qed

section \<open>Sessions in their invariant\<close>

definition sound_sessions :: "'t Transport_scheme \<Rightarrow> bool" where
  "sound_sessions t = (\<forall>p s. objects (registry t) p = Some s \<longrightarrow> session_ok s)"

lemma run_session_sound:
  assumes "sound_sessions (fst w)" "keeps session_ok act"
  shows "sound_sessions (fst (snd (run_session self p act w)))"
proof -
  obtain t m where w: "w = (t, m)" by (cases w)
  show ?thesis
  proof (cases "objects (registry t) p")
    case (Some s)
    obtain x s' where act: "act s = (x, s')" by (cases "act s")
    have "session_ok s" using assms(1) Some by (simp add: w sound_sessions_def)
    from keeps_run [OF assms(2) this act] show ?thesis using assms(1) Some act
      by (simp add: w run_session_def sound_sessions_def responds_registry)
  qed (use assms(1) in \<open>simp add: w run_session_def\<close>)
qed

text \<open>Such sessions disconnect without an exception.\<close>

lemma run_disconnect:
  assumes "sound_sessions (fst w)" "objects (registry (fst w)) p \<noteq> None"
  shows "\<exists>w'. run_session self p disconnect w = (Ok (), w') \<and> sound_sessions (fst w')"
proof -
  obtain s where s: "objects (registry (fst w)) p = Some s" using assms(2) by blast
  then have "session_ok s" using assms(1) by (simp add: sound_sessions_def)
  then obtain s' where "disconnect s = (Ok (), s')" by (rule disconnect_run)
  then have "fst (run_session self p disconnect w) = Ok ()" using s by (cases w) (simp add: run_session_def)
  then show ?thesis using run_session_sound [OF assms(1) ok.keeps_disconnect, of self p] by (metis prod.collapse)
qed

section \<open>Invariants of a transport\<close>

locale transport_invariant =
  fixes P :: "'t Transport_scheme \<times> SocketMonitor \<Rightarrow> bool"
  assumes maps_ok: "P w \<Longrightarrow> smaps_ok (fst w)"
    and resembling: "P w \<Longrightarrow> resembles w w' \<Longrightarrow> P w'"
begin

lemma keeps_resembling: "(\<And>w. smaps_ok (fst w) \<Longrightarrow> resembles w (snd (m w))) \<Longrightarrow> keeps P m"
  by (rule keepsI) (rule resembling [OF _ _], assumption, simp add: maps_ok)

lemma keeps_gets [keeps_intros]: "keeps P (gets_transport f)"
  unfolding gets_transport_def by (intro keeps_intros)

lemma keeps_ask [keeps_intros]: "keeps P (ask f)"
  by (rule keeps_resembling) (auto simp: ask_def resembles_def same_registry_def smaps_ok_def shrinks.stays split: prod.split)

lemma keeps_run_session [keeps_intros]: "keeps_id act \<Longrightarrow> keeps P (run_session self p act)"
  by (rule keeps_resembling) (rule run_session_resembles)

lemma keeps_on_connection [keeps_intros]: "harmless f \<Longrightarrow> keeps P (emodify (on_connection h f))"
  by (rule keeps_resembling) (simp add: emodify_def on_connection_resembles)

lemma keeps_drop [keeps_intros]: "keeps P (emodify (\<lambda>w. (fst w, snd (drop_socket self s (snd w)))))"
  by (rule keeps_resembling) (auto simp: emodify_def resembles_def same_registry_def intro: shrinks.intros split: prod.split)

lemma keeps_set_parser [keeps_intros]: "keeps P (set_parser h parser)"
  unfolding set_parser_def by (intro keeps_on_connection harmless_ops)

lemma keeps_connection_timeout [keeps_intros]: "keeps P (connection_timeout self c)"
  unfolding connection_timeout_def by (intro keeps_intros keeps_id_calls)

lemma keeps_next_message_at [keeps_intros]: "keeps P (next_message_at self h p msg)"
  unfolding next_message_at_def by (intro keeps_intros keeps_drop keeps_id_calls)

lemma keeps_readMessages [keeps_intros]: "keeps P (readMessages self h p msg parser)"
proof (induction self h p msg parser rule: readMessages.induct)
  case (1 self h p msg parser)
  show ?case
    by (subst readMessages.simps) (auto split: prod.split bool.split intro!: keeps_intros dest: 1 [OF sym])
qed

end

end
