(* ===== verification/InitiatorInvariants.thy ===== *)
theory InitiatorInvariants
  imports Initiators TransportFrames
begin

text \<open>
  The invariant of an initiator: each of its sessions is in exactly one of the three sets, the connections are those of
  the pending and connected sessions, and the socket of a connection is polled or its drop is about to be reported. Every
  callback keeps it, so the contract of the monitor holds of the initiator.
\<close>

section \<open>What an initiator keeps track of\<close>

text \<open>The abstract initiator: its sessions by their addresses, those that are pending, up or down, and the session a socket
  connects (\<open>up_at\<close>) or is being connected for (\<open>pend_at\<close>).\<close>

record links =
  up_at :: "socket_handle \<rightharpoonup> nat"
  pend_at :: "socket_handle \<rightharpoonup> nat"
  pend :: "nat set"
  up :: "nat set"
  down :: "nat set"
  owned :: "nat set"

text \<open>Each session is in one of the sets; the connections are those of the sessions that are up, one for each, and of
  pending ones; and a connection's socket is polled or on its way out.\<close>

definition links_ok :: "links \<Rightarrow> socket_handle set \<Rightarrow> socket_handle set \<Rightarrow> socket_handle set \<Rightarrow> bool" where
  "links_ok l reads connects drops =
     (pend l \<inter> up l = {} \<and> pend l \<inter> down l = {} \<and> up l \<inter> down l = {} \<and> pend l \<union> up l \<union> down l = owned l \<and>
      ran (up_at l) = up l \<and> ran (pend_at l) \<subseteq> pend l \<and>
      inj_on (up_at l) (dom (up_at l)) \<and> inj_on (pend_at l) (dom (pend_at l)) \<and> dom (up_at l) \<inter> dom (pend_at l) = {} \<and>
      dom (up_at l) \<subseteq> reads \<union> drops \<and> dom (pend_at l) \<subseteq> {INVALID_SOCKET_HANDLE} \<union> connects \<union> drops)"

definition link_pending :: "nat \<Rightarrow> links \<Rightarrow> links" where
  "link_pending p l = l\<lparr>pend := insert p (pend l), up := up l - {p}, down := down l - {p}\<rparr>"

definition link_opened :: "socket_handle \<Rightarrow> nat \<Rightarrow> links \<Rightarrow> links" where
  "link_opened h p l = l\<lparr>pend_at := (pend_at l)(h \<mapsto> p)\<rparr>"

definition link_connected :: "socket_handle \<Rightarrow> nat \<Rightarrow> links \<Rightarrow> links" where
  "link_connected h p l =
     l\<lparr>up_at := (up_at l)(h \<mapsto> p), pend_at := (pend_at l)(h := None), pend := pend l - {p}, up := insert p (up l), down := down l - {p}\<rparr>"

definition link_removed :: "socket_handle \<Rightarrow> nat \<Rightarrow> links \<Rightarrow> links" where
  "link_removed h p l =
     l\<lparr>up_at := (up_at l)(h := None), pend_at := (pend_at l)(h := None), pend := pend l - {p}, up := up l - {p}, down := insert p (down l)\<rparr>"

lemma links_ok_sets: "links_ok l reads connects drops \<Longrightarrow> reads \<union> drops \<subseteq> reads' \<union> drops' \<Longrightarrow> connects \<union> drops \<subseteq> connects' \<union> drops' \<Longrightarrow>
    links_ok l reads' connects' drops'"
  unfolding links_ok_def by blast

lemma inj_map_upd: "inj_on f (dom f) \<Longrightarrow> p \<notin> ran f \<Longrightarrow> inj_on (f(h \<mapsto> p)) (dom (f(h \<mapsto> p)))"
  by (auto simp: inj_on_def ran_def)

lemma inj_map_del: "inj_on f (dom f) \<Longrightarrow> inj_on (f(h := None)) (dom (f(h := None)))"
  by (auto simp: inj_on_def)

lemma ran_map_del: "inj_on f (dom f) \<Longrightarrow> f h = Some p \<Longrightarrow> ran (f(h := None)) = ran f - {p}"
  by (auto simp: inj_on_def ran_def) (metis domI, metis option.inject)

lemma ran_map_none: "f h = None \<Longrightarrow> f(h := None) = f"
  by auto

lemma link_pending_ok: "links_ok l reads connects drops \<Longrightarrow> p \<in> down l \<Longrightarrow> links_ok (link_pending p l) reads connects drops"
  unfolding links_ok_def link_pending_def by auto

lemma link_opened_ok:
  assumes l: "links_ok l reads connects drops" and p: "p \<in> pend l" "p \<notin> ran (pend_at l)"
    and h: "h = INVALID_SOCKET_HANDLE \<or> h \<in> connects \<union> drops" "up_at l h = None"
  shows "links_ok (link_opened h p l) reads connects drops"
proof -
  have "ran ((pend_at l)(h \<mapsto> p)) \<subseteq> insert p (ran (pend_at l))" by (auto simp: ran_def)
  then show ?thesis using l p h inj_map_upd [of "pend_at l" p h] unfolding links_ok_def link_opened_def by auto
qed

lemma link_connected_ok:
  assumes l: "links_ok l reads connects drops" and h: "pend_at l h = Some p" and s: "h \<in> connects" "connects \<inter> drops = {}"
  shows "links_ok (link_connected h p l) (insert h reads) (connects - {h}) drops"
proof -
  have p: "p \<in> pend l" using l h by (auto simp: links_ok_def ran_def)
  have none: "up_at l h = None" using l h unfolding links_ok_def by (metis disjoint_iff domIff option.distinct(1))
  have "inj_on ((up_at l)(h \<mapsto> p)) (dom ((up_at l)(h \<mapsto> p)))" "ran ((up_at l)(h \<mapsto> p)) = insert p (up l)"
    using l p none inj_map_upd [of "up_at l" p h] by (auto simp: links_ok_def)
  moreover have "inj_on ((pend_at l)(h := None)) (dom ((pend_at l)(h := None)))" "ran ((pend_at l)(h := None)) \<subseteq> pend l - {p}"
    using l h inj_map_del ran_map_del [of "pend_at l" h p] by (auto simp: links_ok_def)
  ultimately show ?thesis using l p s unfolding links_ok_def link_connected_def by auto
qed

lemma link_removed_ok:
  assumes l: "links_ok l reads connects drops" and h: "up_at l h = Some p \<or> pend_at l h = Some p"
  shows "links_ok (link_removed h p l) reads connects (drops - {h})"
proof -
  have inj: "inj_on ((up_at l)(h := None)) (dom ((up_at l)(h := None)))" "inj_on ((pend_at l)(h := None)) (dom ((pend_at l)(h := None)))"
    using l inj_map_del by (auto simp: links_ok_def)
  have "ran ((up_at l)(h := None)) = up l - {p} \<and> ran ((pend_at l)(h := None)) \<subseteq> pend l - {p} \<and> p \<in> owned l"
    using h
  proof
    assume u: "up_at l h = Some p"
    then have "pend_at l h = None" "p \<in> up l" using l by (auto simp: links_ok_def ran_def)
    then show ?thesis using l u ran_map_del [of "up_at l" h p] ran_map_none [of "pend_at l" h] by (auto simp: links_ok_def)
  next
    assume u: "pend_at l h = Some p"
    then have "up_at l h = None" "p \<in> pend l" using l by (auto simp: links_ok_def ran_def)
    then show ?thesis using l u ran_map_del [of "pend_at l" h p] ran_map_none [of "up_at l" h] by (auto simp: links_ok_def)
  qed
  then show ?thesis using l inj unfolding links_ok_def link_removed_def by auto
qed


section \<open>The invariant\<close>

text \<open>The abstract initiator that a concrete one implements.\<close>

definition addresses :: "SocketInitiator \<Rightarrow> (string, SessionID) smap \<Rightarrow> nat set" where
  "addresses ini ids = {p. \<exists>k. smap_find (t_sessions ini) k = Some p \<and> smap_find ids k \<noteq> None}"

definition session_under :: "(socket_handle, SocketConnection) smap \<Rightarrow> socket_handle \<rightharpoonup> nat" where
  "session_under cs h = Option.bind (smap_find cs h) m_pSession"

definition links_of :: "SocketInitiator \<Rightarrow> links" where
  "links_of ini =
     \<lparr>up_at = session_under (m_connections ini), pend_at = session_under (m_pendingConnections ini),
      pend = addresses ini (m_pending ini), up = addresses ini (m_connected ini), down = addresses ini (m_disconnected ini),
      owned = ran (smap_find (t_sessions ini))\<rparr>"

text \<open>Connections know their socket and have a session; the sets hold sessions of the initiator; the session at an address has
  the id under which it is filed.\<close>

definition id_at :: "SocketInitiator \<Rightarrow> nat \<Rightarrow> SessionID option" where
  "id_at ini p = map_option m_sessionID (objects (registry ini) p)"

lemma id_at_fun: "id_at ini = (\<lambda>p. map_option m_sessionID (objects (registry ini) p))"
  by (simp add: fun_eq_iff id_at_def)

definition conns_ok :: "(socket_handle, SocketConnection) smap \<Rightarrow> bool" where
  "conns_ok cs = (smap_ok cs \<and> (\<forall>h c. smap_find cs h = Some c \<longrightarrow> m_socket c = h \<and> m_pSession c \<noteq> None))"

definition ids_ok :: "SocketInitiator \<Rightarrow> (string, SessionID) smap \<Rightarrow> bool" where
  "ids_ok ini ids = (smap_ok ids \<and> (\<forall>k sid. smap_find ids k = Some sid \<longrightarrow> m_frozenString sid = k \<and> smap_find (t_sessions ini) k \<noteq> None))"

definition sessions_ok :: "SocketInitiator \<Rightarrow> bool" where
  "sessions_ok ini = (\<forall>k p. smap_find (t_sessions ini) k = Some p \<longrightarrow> (\<exists>sid. id_at ini p = Some sid \<and> m_frozenString sid = k))"

definition filing_ok :: "SocketInitiator \<Rightarrow> bool" where
  "filing_ok ini =
     (conns_ok (m_connections ini) \<and> conns_ok (m_pendingConnections ini) \<and>
      ids_ok ini (m_pending ini) \<and> ids_ok ini (m_connected ini) \<and> ids_ok ini (m_disconnected ini) \<and> sessions_ok ini)"

definition initiator_ok :: "nat \<Rightarrow> SocketInitiator \<times> SocketMonitor \<Rightarrow> bool" where
  "initiator_ok self w =
     (case w of (ini, m) \<Rightarrow>
        monitor_ok m \<and> INVALID_SOCKET_HANDLE \<notin> held m \<and> m_owner m \<in> {None, Some self} \<and> fresh_sockets (world ini) \<and>
        filing_ok ini \<and> links_ok (links_of ini) (m_readSockets m) (m_connectSockets m) (set (m_dropped m)))"

section \<open>What a session's step leaves alone\<close>

text \<open>Two states with the same sets, the same connections under the same sockets, and a monitor that opened nothing.\<close>

definition same_conns :: "(socket_handle, SocketConnection) smap \<Rightarrow> (socket_handle, SocketConnection) smap \<Rightarrow> bool" where
  "same_conns cs cs' = (conns_ok cs' \<and> session_under cs' = session_under cs)"

definition alike :: "SocketInitiator \<times> SocketMonitor \<Rightarrow> SocketInitiator \<times> SocketMonitor \<Rightarrow> bool" where
  "alike w w' =
     (case (w, w') of ((ini, m), (ini', m')) \<Rightarrow>
        m_pending ini' = m_pending ini \<and> m_connected ini' = m_connected ini \<and> m_disconnected ini' = m_disconnected ini \<and>
        t_sessions ini' = t_sessions ini \<and> id_at ini' = id_at ini \<and> world ini' = world ini \<and>
        same_conns (m_connections ini) (m_connections ini') \<and> same_conns (m_pendingConnections ini) (m_pendingConnections ini') \<and>
        shrinks m m')"

definition filed :: "SocketInitiator \<times> SocketMonitor \<Rightarrow> bool" where
  "filed w = (conns_ok (m_connections (fst w)) \<and> conns_ok (m_pendingConnections (fst w)))"

lemma alike_refl: "filed w \<Longrightarrow> alike w w"
  by (cases w) (simp add: alike_def filed_def same_conns_def shrinks.stays)

lemma alike_trans: "alike w w' \<Longrightarrow> alike w' w'' \<Longrightarrow> alike w w''"
  by (cases w; cases w'; cases w'') (auto simp: alike_def same_conns_def intro: shrinks_trans)

lemma alike_filed: "alike w w' \<Longrightarrow> filed w'"
  by (cases w; cases w') (simp add: alike_def filed_def same_conns_def)

lemma initiator_ok_filed: "initiator_ok self w \<Longrightarrow> filed w"
  by (cases w) (simp add: initiator_ok_def filing_ok_def filed_def)

lemma alike_links: "alike (ini, m) (ini', m') \<Longrightarrow> links_of ini' = links_of ini"
  by (simp add: alike_def links_of_def addresses_def same_conns_def)

lemma alike_ok:
  assumes "alike w w'" "initiator_ok self w"
  shows "initiator_ok self w'"
proof -
  obtain ini m ini' m' where w: "w = (ini, m)" "w' = (ini', m')" by (cases w; cases w')
  have shr: "shrinks m m'" and ok: "monitor_ok m" using assms by (auto simp: w alike_def initiator_ok_def)
  note moved = shrinks_held [OF shr ok] and ok' = shrinks_ok [OF shr ok]
  have "links_ok (links_of ini') (m_readSockets m') (m_connectSockets m') (set (m_dropped m'))"
    using assms links_ok_sets alike_links [of ini m ini' m'] moved by (auto simp: w initiator_ok_def)
  moreover have "filing_ok ini'"
    using assms by (auto simp: w alike_def initiator_ok_def filing_ok_def ids_ok_def sessions_ok_def same_conns_def)
  ultimately show ?thesis using assms(1,2) ok' moved by (auto simp: w alike_def initiator_ok_def)
qed

text \<open>A transport that resembles an initiator has its sets.\<close>

lemma same_sets:
  assumes "Transport.more ini' = Transport.more ini"
  shows "m_pending ini' = m_pending ini" "m_connected ini' = m_connected ini" "m_disconnected ini' = m_disconnected ini"
  using assms by (cases ini; cases ini'; simp)+

lemma known_same_conns:
  assumes "conns_ok cs" "smap_ok cs'" "known cs' = known cs"
  shows "same_conns cs cs'"
proof -
  have k: "known cs' h = known cs h" for h using assms(3) by simp
  have "m_socket c' = h \<and> m_pSession c' \<noteq> None" if "smap_find cs' h = Some c'" for h c'
    using k [of h] that assms(1) by (cases "smap_find cs h") (auto simp: known_def conns_ok_def)
  moreover have "session_under cs' h = session_under cs h" for h
    using k [of h] by (cases "smap_find cs h"; cases "smap_find cs' h") (auto simp: known_def session_under_def)
  ultimately show ?thesis using assms(2) by (simp add: same_conns_def conns_ok_def fun_eq_iff)
qed

lemma resembles_alike:
  assumes "resembles w w'" "filed w"
  shows "alike w w'"
proof -
  obtain ini m ini' m' where w: "w = (ini, m)" "w' = (ini', m')" by (cases w; cases w')
  have "id_of (registry ini') = id_of (registry ini)" using assms(1) by (simp add: w resembles_def same_registry_def)
  then have "id_at ini' = id_at ini" by (simp add: id_at_fun id_of_def fun_eq_iff)
  then show ?thesis using assms known_same_conns [of "m_connections ini" "m_connections ini'"] same_sets [of ini' ini]
      known_same_conns [of "m_pendingConnections ini" "m_pendingConnections ini'"]
    by (auto simp: w resembles_def alike_def filed_def smaps_ok_def)
qed

lemma filed_maps: "filed w \<Longrightarrow> smaps_ok (fst w)"
  by (simp add: filed_def smaps_ok_def conns_ok_def)

lemma run_session_alike: "keeps_id act \<Longrightarrow> filed w \<Longrightarrow> alike w (snd (run_session self p act w))"
  by (rule resembles_alike [OF run_session_resembles]) (simp_all add: filed_maps)

lemma on_connection_alike: "harmless f \<Longrightarrow> filed w \<Longrightarrow> alike w (on_connection h f w)"
  by (rule resembles_alike [OF on_connection_resembles]) (simp_all add: filed_maps)

section \<open>Computations that leave the connections as they are\<close>

definition mild :: "'a ini \<Rightarrow> bool" where
  "mild m = (\<forall>w. filed w \<longrightarrow> alike w (snd (m w)))"

named_theorems mild_intros

lemma mildD: "mild m \<Longrightarrow> filed w \<Longrightarrow> alike w (snd (m w))"
  unfolding mild_def by blast

lemma mild_basic [mild_intros]: "mild (eret x)" "mild (ethrow e)" "mild (gets_transport f)" "mild (elift y)"
  by (simp_all add: mild_def eff_defs gets_transport_def alike_refl)

lemma mild_bind [mild_intros]:
  assumes "mild m" "\<And>x. mild (f x)"
  shows "mild (ebind m f)"
  unfolding mild_def
proof (intro allI impI)
  fix w assume w: "filed w"
  obtain x w1 where m: "m w = (x, w1)" by (cases "m w")
  then have 1: "alike w w1" "filed w1" using mildD [OF assms(1) w] alike_filed w by auto
  show "alike w (snd (ebind m f w))" using 1 mildD [OF assms(2) 1(2)] m alike_trans by (cases x) (auto simp: ebind_def)
qed

lemma mild_catch [mild_intros]:
  assumes "mild m" "\<And>e. mild (f e)"
  shows "mild (ecatch m f)"
  unfolding mild_def
proof (intro allI impI)
  fix w assume w: "filed w"
  obtain x w1 where m: "m w = (x, w1)" by (cases "m w")
  then have 1: "alike w w1" "filed w1" using mildD [OF assms(1) w] alike_filed w by auto
  show "alike w (snd (ecatch m f w))" using 1 mildD [OF assms(2) 1(2)] m alike_trans by (cases x) (auto simp: ecatch_def)
qed

lemma mild_if [mild_intros]: "(b \<Longrightarrow> mild m) \<Longrightarrow> (\<not> b \<Longrightarrow> mild n) \<Longrightarrow> mild (if b then m else n)"
  by simp

lemma mild_option [mild_intros]:
  "(x = None \<Longrightarrow> mild m) \<Longrightarrow> (\<And>y. x = Some y \<Longrightarrow> mild (f y)) \<Longrightarrow> mild (case x of None \<Rightarrow> m | Some y \<Rightarrow> f y)"
  by (simp split: option.split)

lemma mild_seq_map: "(\<And>x. x \<in> set xs \<Longrightarrow> mild (f x)) \<Longrightarrow> mild (eseq (map f xs))"
  by (induction xs) (auto intro: mild_intros)

lemma mild_ask [mild_intros]: "mild (ask f)"
  by (auto simp: mild_def ask_def alike_def id_at_fun shrinks.stays same_conns_def filed_def)

lemma mild_emodify [mild_intros]: "harmless f \<Longrightarrow> mild (emodify (on_connection h f))"
  by (simp add: mild_def emodify_def on_connection_alike)

lemma mild_drop [mild_intros]: "mild (emodify (\<lambda>w. (fst w, snd (drop_socket self s (snd w)))))"
  by (auto simp: mild_def emodify_def alike_def same_conns_def filed_def intro: shrinks.intros)

lemma mild_run_session [mild_intros]: "keeps_id act \<Longrightarrow> mild (run_session self p act)"
  by (simp add: mild_def run_session_alike)

lemma mild_set_parser [mild_intros]: "mild (set_parser h p)"
  unfolding set_parser_def by (intro mild_intros harmless_ops)

lemma mild_connection_timeout [mild_intros]: "mild (connection_timeout self c)"
  unfolding connection_timeout_def by (intro mild_intros keeps_id_calls)

lemma mild_next_message_at [mild_intros]: "mild (next_message_at self h p msg)"
  unfolding next_message_at_def by (intro mild_intros keeps_id_calls)

lemma mild_readMessages [mild_intros]: "mild (readMessages self h p msg parser)"
proof (induction self h p msg parser rule: readMessages.induct)
  case (1 self h p msg parser)
  show ?case
    by (subst readMessages.simps) (auto split: prod.split bool.split intro!: mild_intros dest: 1 [OF sym])
qed

lemma mild_read_connection [mild_intros]: "mild (read_connection self h c)"
  unfolding read_connection_def by (intro mild_intros)

lemma mild_onData [mild_intros]: "mild (initiator_onData self h)"
  unfolding initiator_onData_def by (intro mild_intros)

lemma mild_onWrite: "mild (initiator_onWrite h)"
  using on_connection_alike [OF harmless_ops(2)] by (auto simp: mild_def initiator_onWrite_def alike_refl split: option.split)

lemma mild_getHost [mild_intros]: "mild (getHost_initiator sid d)"
  unfolding getHost_initiator_def
  by (intro mild_intros) (auto simp: mild_def alike_def id_at_fun shrinks.stays same_conns_def filed_def split: prod.split)

lemma mild_keeps: "mild m \<Longrightarrow> keeps (initiator_ok self) m"
  by (rule keepsI) (rule alike_ok [OF mildD [OF _ initiator_ok_filed]], assumption+)




section \<open>The concrete operations implement the abstract ones\<close>

lemma sessions_distinct:
  "sessions_ok ini \<Longrightarrow> smap_find (t_sessions ini) k = Some p \<Longrightarrow> smap_find (t_sessions ini) k' = Some p \<Longrightarrow> k = k'"
  unfolding sessions_ok_def by (metis option.inject)

lemma addresses_dom: "addresses ini ids = {p. \<exists>k\<in>dom (smap_find ids). smap_find (t_sessions ini) k = Some p}"
  by (auto simp: addresses_def)

lemma smap_dom: "smap_ok ids \<Longrightarrow> dom (smap_find (smap_put k v ids)) = insert k (dom (smap_find ids))"
  "dom (smap_find (smap_erase k ids)) = dom (smap_find ids) - {k}"
  by (auto simp: dom_def)

lemma addresses_put:
  assumes "smap_ok ids" "smap_find (t_sessions ini) k = Some p"
  shows "addresses ini (smap_put k sid ids) = insert p (addresses ini ids)"
  unfolding addresses_dom smap_dom(1) [OF assms(1)] using assms(2) by auto

lemma addresses_erase:
  assumes "sessions_ok ini" "smap_find (t_sessions ini) k = Some p"
  shows "addresses ini (smap_erase k ids) = addresses ini ids - {p}"
proof (rule set_eqI)
  fix q
  have "(\<exists>k'\<in>dom (smap_find ids) - {k}. smap_find (t_sessions ini) k' = Some q) \<longleftrightarrow>
      (\<exists>k'\<in>dom (smap_find ids). smap_find (t_sessions ini) k' = Some q) \<and> q \<noteq> p"
    using sessions_distinct [OF assms] assms(2) by (metis Diff_iff insertE insertI1 empty_iff option.inject)
  then show "q \<in> addresses ini (smap_erase k ids) \<longleftrightarrow> q \<in> addresses ini ids - {p}" unfolding addresses_dom smap_dom(2) by simp
qed

lemma session_under_put: "smap_ok cs \<Longrightarrow> m_pSession c = Some p \<Longrightarrow> session_under (smap_put h c cs) = (session_under cs)(h \<mapsto> p)"
  by (auto simp: session_under_def fun_eq_iff)

lemma session_under_erase: "session_under (smap_erase h cs) = (session_under cs)(h := None)"
  by (auto simp: session_under_def fun_eq_iff)

lemma addresses_cong: "t_sessions ini' = t_sessions ini \<Longrightarrow> addresses ini' = addresses ini"
  by (simp add: addresses_def fun_eq_iff)

lemma conns_ok_put: "conns_ok cs \<Longrightarrow> m_socket c = h \<Longrightarrow> m_pSession c \<noteq> None \<Longrightarrow> conns_ok (smap_put h c cs)"
  by (auto simp: conns_ok_def split: if_splits)

lemma conns_ok_erase: "conns_ok cs \<Longrightarrow> conns_ok (smap_erase h cs)"
  by (auto simp: conns_ok_def split: if_splits)

lemma ids_ok_put: "ids_ok ini ids \<Longrightarrow> smap_find (t_sessions ini) (m_frozenString sid) \<noteq> None \<Longrightarrow> ids_ok ini (smap_put (m_frozenString sid) sid ids)"
  by (auto simp: ids_ok_def split: if_splits)

lemma ids_ok_erase: "ids_ok ini ids \<Longrightarrow> ids_ok ini (smap_erase k ids)"
  by (auto simp: ids_ok_def split: if_splits)

lemma ids_ok_cong: "t_sessions ini' = t_sessions ini \<Longrightarrow> ids_ok ini' = ids_ok ini"
  by (simp add: ids_ok_def fun_eq_iff)

lemma sessions_ok_cong: "t_sessions ini' = t_sessions ini \<Longrightarrow> id_at ini' = id_at ini \<Longrightarrow> sessions_ok ini' = sessions_ok ini"
  by (simp add: sessions_ok_def)

lemmas filing = conns_ok_put conns_ok_erase ids_ok_put ids_ok_erase

lemma pending_links:
  assumes ok: "filing_ok ini" and p: "smap_find (t_sessions ini) (m_frozenString sid) = Some p"
  shows "filing_ok (setPending sid ini)" "links_of (setPending sid ini) = link_pending p (links_of ini)"
proof -
  have same: "t_sessions (setPending sid ini) = t_sessions ini" "id_at (setPending sid ini) = id_at ini" by (simp_all add: setPending_def id_at_fun)
  show "filing_ok (setPending sid ini)"
    using ok p unfolding filing_ok_def ids_ok_cong [OF same(1)] sessions_ok_cong [OF same] by (simp add: setPending_def filing)
  show "links_of (setPending sid ini) = link_pending p (links_of ini)"
    using ok p unfolding filing_ok_def links_of_def addresses_cong [OF same(1)]
    by (simp add: setPending_def link_pending_def addresses_put addresses_erase ids_ok_def)
qed

lemma connected_links:
  assumes ok: "filing_ok ini" and p: "smap_find (t_sessions ini) (m_frozenString sid) = Some p"
    and c: "m_socket c = h" "m_pSession c = Some p"
    and ini': "ini' = setConnected sid (ini\<lparr>m_connections := smap_put h c (m_connections ini), m_pendingConnections := smap_erase h (m_pendingConnections ini)\<rparr>)"
  shows "filing_ok ini'" "links_of ini' = link_connected h p (links_of ini)"
proof -
  have same: "t_sessions ini' = t_sessions ini" "id_at ini' = id_at ini" by (simp_all add: ini' setConnected_def id_at_fun)
  show "filing_ok ini'"
    using ok p c unfolding filing_ok_def ids_ok_cong [OF same(1)] sessions_ok_cong [OF same] by (simp add: ini' setConnected_def filing)
  have "smap_ok (m_connections ini)" using ok by (simp add: filing_ok_def conns_ok_def)
  then show "links_of ini' = link_connected h p (links_of ini)"
    using ok p c unfolding filing_ok_def links_of_def addresses_cong [OF same(1)]
    by (simp add: ini' setConnected_def link_connected_def addresses_put addresses_erase ids_ok_def session_under_put session_under_erase)
qed

lemma removed_links:
  assumes ok: "filing_ok ini" and p: "smap_find (t_sessions ini) (m_frozenString sid) = Some p"
    and ini': "ini' = (setDisconnected sid ini)\<lparr>registry := r, m_connections := smap_erase h (m_connections ini), m_pendingConnections := smap_erase h (m_pendingConnections ini)\<rparr>"
    and r: "objects r = objects (registry ini)"
  shows "filing_ok ini'" "links_of ini' = link_removed h p (links_of ini)"
proof -
  have same: "t_sessions ini' = t_sessions ini" "id_at ini' = id_at ini" by (simp_all add: ini' setDisconnected_def id_at_fun r)
  show "filing_ok ini'"
    using ok p unfolding filing_ok_def ids_ok_cong [OF same(1)] sessions_ok_cong [OF same] by (simp add: ini' setDisconnected_def filing)
  show "links_of ini' = link_removed h p (links_of ini)"
    using ok p unfolding filing_ok_def links_of_def addresses_cong [OF same(1)]
    by (simp add: ini' setDisconnected_def link_removed_def addresses_put addresses_erase ids_ok_def session_under_erase)
qed

lemma session_of_under:
  assumes "filing_ok ini" "links_ok (links_of ini) R C D" "session_of c ini = Some (p, sid)"
    and "smap_find (m_connections ini) h = Some c \<or> smap_find (m_pendingConnections ini) h = Some c"
  shows "smap_find (t_sessions ini) (m_frozenString sid) = Some p" "m_socket c = h" "m_pSession c = Some p"
    "up_at (links_of ini) h = Some p \<or> pend_at (links_of ini) h = Some p"
proof -
  have c: "m_pSession c = Some p" "id_at ini p = Some sid"
    using assms(3) by (auto simp: session_of_def session_at_def id_at_def split: option.splits)
  then show "m_pSession c = Some p" by simp
  show at: "up_at (links_of ini) h = Some p \<or> pend_at (links_of ini) h = Some p"
    using assms(4) c by (auto simp: links_of_def session_under_def)
  show "m_socket c = h" using assms(1,4) by (auto simp: filing_ok_def conns_ok_def)
  have "p \<in> owned (links_of ini)" using assms(2) at by (auto simp: links_ok_def ran_def)
  then obtain k where k: "smap_find (t_sessions ini) k = Some p" by (auto simp: links_of_def ran_def)
  then have "m_frozenString sid = k" using assms(1) c(2) unfolding filing_ok_def sessions_ok_def by (metis option.inject)
  with k show "smap_find (t_sessions ini) (m_frozenString sid) = Some p" by simp
qed


section \<open>The callbacks\<close>

lemma initiator_okI:
  assumes "initiator_ok self (ini, m)" "filing_ok ini'" "world ini' = world ini" "monitor_ok m'" "held m' \<subseteq> held m" "m_owner m' = m_owner m"
    and "links_ok (links_of ini') (m_readSockets m') (m_connectSockets m') (set (m_dropped m'))"
  shows "initiator_ok self (ini', m')"
  using assms by (auto simp: initiator_ok_def)

lemma sets_world [simp]:
  "world (setPending sid ini) = world ini" "world (setConnected sid ini) = world ini" "world (setDisconnected sid ini) = world ini"
  by (simp_all add: setPending_def setConnected_def setDisconnected_def)

lemma initiator_okD:
  assumes "initiator_ok self (ini, m)"
  shows "monitor_ok m" "filing_ok ini" "links_ok (links_of ini) (m_readSockets m) (m_connectSockets m) (set (m_dropped m))"
    "fresh_sockets (world ini)" "INVALID_SOCKET_HANDLE \<notin> held m" "m_owner m = None \<or> m_owner m = Some self"
  using assms by (auto simp: initiator_ok_def)

lemma connected_socket_ok:
  "monitor_ok m \<Longrightarrow> s \<in> m_connectSockets m \<Longrightarrow> monitor_ok (connected_socket s m) \<and> held (connected_socket s m) = held m"
  by (auto simp: monitor_ok_def connected_socket_def held_def)

lemma onConnect_ok:
  assumes ok: "initiator_ok self (ini, m)" and s: "s \<in> m_connectSockets m"
    and run: "initiator_onConnect self s (ini, connected_socket s m) = (Ok (), w')"
  shows "initiator_ok self w'"
proof -
  note d = initiator_okD [OF ok]
  have sock: "monitor_ok (connected_socket s m)" "held (connected_socket s m) \<subseteq> held m" "m_owner (connected_socket s m) = m_owner m"
    using connected_socket_ok [OF d(1) s] by (simp_all add: connected_socket_def)
  have sets: "m_readSockets (connected_socket s m) = insert s (m_readSockets m)" "m_connectSockets (connected_socket s m) = m_connectSockets m - {s}"
      "set (m_dropped (connected_socket s m)) = set (m_dropped m)" by (simp_all add: connected_socket_def)
  have disj: "m_connectSockets m \<inter> set (m_dropped m) = {}" using d(1) by (auto simp: monitor_ok_def)
  show ?thesis
  proof (cases "smap_find (m_pendingConnections ini) s")
    case None
    then have "pend_at (links_of ini) s = None" by (simp add: links_of_def session_under_def)
    then have "links_ok (links_of ini) (insert s (m_readSockets m)) (m_connectSockets m - {s}) (set (m_dropped m))"
      using d(3) by (auto simp: links_ok_def)
    then have "initiator_ok self (ini, connected_socket s m)" by (intro initiator_okI [OF ok d(2) refl sock]) (simp add: sets)
    moreover have "w' = (ini, connected_socket s m)"
      using run None by (simp add: initiator_onConnect_def gets_transport_def ebind_def egets_def eret_def)
    ultimately show ?thesis by simp
  next
    case (Some c)
    let ?ini = "ini\<lparr>m_connections := smap_put s c (m_connections ini), m_pendingConnections := smap_erase s (m_pendingConnections ini)\<rparr>"
    have same: "session_of c ?ini = session_of c ini" by (simp add: session_of_def session_at_def split: option.split)
    obtain p sid where p: "session_of c ini = Some (p, sid)" and
      run': "connection_timeout self c (setConnected sid ?ini, connected_socket s m) = (Ok (), w')"
      using run Some same
      by (auto simp: initiator_onConnect_def gets_transport_def modify_transport_def ebind_def egets_def emodify_def ethrow_def split: option.splits)
    note c = session_of_under [OF d(2,3) p, of s] and conn = connected_links [OF d(2) _ _ _ refl, of sid p c s]
    have filed: "filing_ok (setConnected sid ?ini)" "links_of (setConnected sid ?ini) = link_connected s p (links_of ini)"
      using conn c Some by simp_all
    have "pend_at (links_of ini) s = Some p" using Some c(3) by (simp add: links_of_def session_under_def)
    from link_connected_ok [OF d(3) this s disj]
    have "initiator_ok self (setConnected sid ?ini, connected_socket s m)"
      by (intro initiator_okI [OF ok filed(1) _ sock]) (simp_all add: filed(2) sets)
    then show ?thesis using keepsD [OF mild_keeps [OF mild_connection_timeout]] run' by (metis snd_conv)
  qed
qed


lemma smap_put_twice: "smap_ok ids \<Longrightarrow> smap_put k v (smap_put k v ids) = smap_put k v ids"
  by (rule smap_ext) (auto simp: fun_eq_iff)

lemma smap_erase_twice: "smap_erase k (smap_erase k ids) = smap_erase k ids"
  by (simp add: smap_erase_def)

text \<open>Removing a connection is the abstract removal, whatever the session does while it is disconnected.\<close>

lemma remove_connection_ok:
  assumes ok: "initiator_ok self (ini, m)" and found: "filed_connection h ini = Some c" and p: "session_of c ini = Some (p, sid)"
    and rem: "remove_connection self h p sid (ini, m) = (Ok (), (ini', m'))"
  shows "initiator_ok self (ini', m')" "shrinks m m'" "links_of ini' = link_removed h p (links_of ini)"
    "links_ok (links_of ini') (m_readSockets m') (m_connectSockets m') (set (m_dropped m') - {h})"
    "up_at (links_of ini) h = Some p \<or> pend_at (links_of ini) h = Some p" "t_sessions ini' = t_sessions ini"
proof -
  note d = initiator_okD [OF ok]
  have at: "smap_find (m_connections ini) h = Some c \<or> smap_find (m_pendingConnections ini) h = Some c"
    using found by (auto simp: filed_connection_def split: option.splits)
  obtain x ini2 m2 where step: "run_session self p disconnect (setDisconnected sid ini, m) = (x, ini2, m2)"
    by (cases "run_session self p disconnect (setDisconnected sid ini, m)") auto
  then have fini: "ini' = (setDisconnected sid ini2)\<lparr>registry := unregisterSession sid (registry ini2), m_connections := smap_erase h (m_connections ini2),
      m_pendingConnections := smap_erase h (m_pendingConnections ini2)\<rparr>" "m' = m2"
    using rem by (cases x; simp add: remove_connection_def modify_transport_def ebind_def emodify_def setDisconnected_def)+
  note c = session_of_under [OF d(2,3) p at]
  have filed1: "filed (setDisconnected sid ini, m)" using d(2) by (simp add: filed_def filing_ok_def setDisconnected_def)
  have alike: "alike (setDisconnected sid ini, m) (ini2, m2)" using run_session_alike [OF keeps_id_calls(4) filed1, of self p] step by simp
  let ?r = "ini2\<lparr>m_pending := m_pending ini, m_connected := m_connected ini, m_disconnected := m_disconnected ini\<rparr>"
  have undone: "alike (ini, m) (?r, m2)" using alike by (simp add: alike_def setDisconnected_def id_at_fun)
  have ok2: "initiator_ok self (?r, m2)" by (rule alike_ok [OF undone ok])
  note d2 = initiator_okD [OF ok2]
  have ids: "smap_ok (m_disconnected ini)" using d(2) by (simp add: filing_ok_def ids_ok_def)
  have eq: "ini' = (setDisconnected sid ?r)\<lparr>registry := unregisterSession sid (registry ini2), m_connections := smap_erase h (m_connections ?r),
      m_pendingConnections := smap_erase h (m_pendingConnections ?r)\<rparr>"
    using alike by (simp add: fini setDisconnected_def alike_def smap_put_twice [OF ids] smap_erase_twice)
  have mine: "smap_find (t_sessions ?r) (m_frozenString sid) = Some p" using c(1) undone by (simp add: alike_def)
  have r: "objects (unregisterSession sid (registry ini2)) = objects (registry ?r)" by (simp add: unregisterSession_def)
  note fin = removed_links [OF d2(2) mine eq r]
  have same: "links_of ?r = links_of ini" by (rule alike_links [OF undone])
  show at': "up_at (links_of ini) h = Some p \<or> pend_at (links_of ini) h = Some p" by (rule c(4))
  show "links_of ini' = link_removed h p (links_of ini)" using fin(2) same by simp
  from link_removed_ok [OF d2(3) at' [folded same]]
  show links: "links_ok (links_of ini') (m_readSockets m') (m_connectSockets m') (set (m_dropped m') - {h})" by (simp add: fin(2) fini(2))
  then have "links_ok (links_of ini') (m_readSockets m') (m_connectSockets m') (set (m_dropped m'))" by (rule links_ok_sets) auto
  then show "initiator_ok self (ini', m')" using d2(1) by (intro initiator_okI [OF ok2 fin(1)]) (simp_all add: fini)
  show "shrinks m m'" using undone by (simp add: alike_def fini(2))
  show "t_sessions ini' = t_sessions ini" using alike by (simp add: alike_def fini setDisconnected_def)
qed

text \<open>After a disconnect no connection is filed under the socket.\<close>

lemma onDisconnect_ok:
  assumes ok: "initiator_ok self (ini, m)" and run: "initiator_onDisconnect self h (ini, m) = (Ok (), (ini', m'))"
  shows "initiator_ok self (ini', m') \<and> shrinks m m' \<and>
    links_ok (links_of ini') (m_readSockets m') (m_connectSockets m') (set (m_dropped m') - {h})"
proof (cases "filed_connection h ini")
  case None
  note d = initiator_okD [OF ok]
  have none: "smap_find (m_pendingConnections ini) h = None" "smap_find (m_connections ini) h = None"
    using None by (auto simp: filed_connection_def split: option.splits)
  then have "h \<notin> dom (up_at (links_of ini))" "h \<notin> dom (pend_at (links_of ini))" by (auto simp: links_of_def session_under_def)
  then have "links_ok (links_of ini) (m_readSockets m) (m_connectSockets m) (set (m_dropped m) - {h})" using d(3) by (auto simp: links_ok_def)
  then show ?thesis using ok run None by (simp add: initiator_onDisconnect_def shrinks.stays)
next
  case (Some c)
  then obtain p sid where p: "session_of c ini = Some (p, sid)" and rem: "remove_connection self h p sid (ini, m) = (Ok (), (ini', m'))"
    using run by (auto simp: initiator_onDisconnect_def split: option.splits)
  from remove_connection_ok [OF ok Some p rem] show ?thesis by simp
qed

section \<open>Connecting\<close>

lemma connector_connect_ok:
  assumes ok: "initiator_ok self (ini, m)" and run: "connector_connect (ini, m) = (x, ini1, m1)"
  shows "\<exists>s. x = Ok s \<and> ini1 = ini\<lparr>asked := asked ini + 1\<rparr> \<and> initiator_ok self (ini1, m1) \<and>
    up_at (links_of ini) s = None \<and> (s = INVALID_SOCKET_HANDLE \<or> s \<in> m_connectSockets m1)"
proof -
  note d = initiator_okD [OF ok]
  define s where "s = new_socket (world ini (asked ini)) (held m)"
  have new: "s \<notin> held m" using d(4,5) by (simp add: s_def fresh_sockets_def)
  have none: "up_at (links_of ini) s = None"
    using d(3) new by (auto simp: links_ok_def held_def)
  have same: "links_of (ini\<lparr>asked := n\<rparr>) = links_of ini" "filing_ok (ini\<lparr>asked := n\<rparr>) = filing_ok ini" for n
    by (simp_all add: links_of_def addresses_def filing_ok_def ids_ok_def sessions_ok_def id_at_def)
  show ?thesis
  proof (cases "s = INVALID_SOCKET_HANDLE")
    case True
    then have "x = Ok s" "ini1 = ini\<lparr>asked := asked ini + 1\<rparr>" "m1 = m" using run by (auto simp: connector_connect_def Let_def s_def)
    moreover have "initiator_ok self (ini\<lparr>asked := asked ini + 1\<rparr>, m)" using ok by (simp add: initiator_ok_def same)
    ultimately show ?thesis using none True by simp
  next
    case False
    then have "x = Ok s" "ini1 = ini\<lparr>asked := asked ini + 1\<rparr>" "m1 = snd (addConnect s m)" using run by (auto simp: connector_connect_def Let_def s_def)
    moreover have m1: "monitor_ok (snd (addConnect s m))" "held (snd (addConnect s m)) = insert s (held m)" "m_owner (snd (addConnect s m)) = m_owner m"
        "m_readSockets (snd (addConnect s m)) = m_readSockets m" "m_connectSockets (snd (addConnect s m)) = insert s (m_connectSockets m)"
        "m_dropped (snd (addConnect s m)) = m_dropped m"
      using d(1) new by (auto simp: addConnect_def monitor_ok_def held_def)
    moreover have "links_ok (links_of ini) (m_readSockets m) (insert s (m_connectSockets m)) (set (m_dropped m))"
      by (rule links_ok_sets [OF d(3)]) auto
    ultimately show ?thesis using none False d by (auto simp: initiator_ok_def same)
  qed
qed

lemma getSession_outcome:
  assumes "smap_find (t_sessions ini) (m_frozenString sid) = Some p" "filed (ini, m)"
    and run: "getSession_initiator self sid h (ini, m) = (x, ini', m')"
  shows "alike (ini, m) (ini', m')" "\<And>y. x = Ok y \<Longrightarrow> y = Some p"
proof -
  obtain y ini1 m1 where step: "run_session self p (setResponder True) (ini, m) = (y, ini1, m1)"
    by (cases "run_session self p (setResponder True) (ini, m)") auto
  have 1: "alike (ini, m) (ini1, m1)" using run_session_alike [OF keeps_id_calls(3) assms(2), where self = self and p = p] step by (metis snd_conv)
  have out: "(x, ini', m') = (case y of Inl e \<Rightarrow> (Throw e, ini1, m1) | Inr _ \<Rightarrow> (Ok (Some p), ini1\<lparr>responders := (responders ini1)(p \<mapsto> h)\<rparr>, m1))"
    using run step assms(1) by (cases y) (simp_all add: getSession_initiator_def gets_transport_def modify_transport_def ebind_def egets_def emodify_def eret_def)
  have "alike (ini, m) (ini1\<lparr>responders := (responders ini1)(p \<mapsto> h)\<rparr>, m1)" using 1 by (simp add: alike_def id_at_fun)
  then show "alike (ini, m) (ini', m')" using out 1 by (auto split: sum.splits)
  show "\<And>y. x = Ok y \<Longrightarrow> y = Some p" using out by (auto split: sum.splits)
qed

lemma file_connection_ok:
  assumes ok: "initiator_ok self (ini, m)" and p: "p \<in> pend (links_of ini)" "p \<notin> ran (pend_at (links_of ini))"
    and h: "h = INVALID_SOCKET_HANDLE \<or> h \<in> m_connectSockets m \<union> set (m_dropped m)" "up_at (links_of ini) h = None"
    and run: "file_connection sid h (Some p) (ini, m) = (x, ini', m')"
  shows "initiator_ok self (ini', m') \<and> m_disconnected ini' = m_disconnected ini"
proof -
  note d = initiator_okD [OF ok]
  define c where "c = new_SocketConnection (takes (world ini (asked ini))) (wall_now (world ini (asked ini))) h [sid] (Some p)"
  have c: "m_socket c = h" "m_pSession c = Some p" by (simp_all add: c_def new_SocketConnection_def)
  have out: "ini' = ini\<lparr>asked := asked ini + 1, m_pendingConnections := smap_put h c (m_pendingConnections ini)\<rparr>" "m' = m"
    using run by (auto simp: file_connection_def ask_def modify_transport_def ebind_def emodify_def c_def)
  have same: "t_sessions ini' = t_sessions ini" "id_at ini' = id_at ini" by (simp_all add: out id_at_fun)
  have "filing_ok ini'" using d(2) c unfolding filing_ok_def ids_ok_cong [OF same(1)] sessions_ok_cong [OF same] by (simp add: out conns_ok_put)
  moreover have "links_of ini' = link_opened h p (links_of ini)"
    using d(2) c unfolding links_of_def addresses_cong [OF same(1)]
    by (simp add: out link_opened_def session_under_put filing_ok_def conns_ok_def)
  ultimately show ?thesis using link_opened_ok [OF d(3) p h] d out by (simp add: initiator_ok_def)
qed

lemma start_connection_ok:
  assumes ok: "initiator_ok self w" and k: "smap_find (m_disconnected (fst w)) (m_frozenString sid) \<noteq> None"
  shows "initiator_ok self (snd (start_connection self sid w)) \<and>
    m_disconnected (fst (snd (start_connection self sid w))) = smap_erase (m_frozenString sid) (m_disconnected (fst w))"
proof -
  obtain ini m where w: "w = (ini, m)" by (cases w)
  obtain x ini1 m1 where conn: "connector_connect (ini, m) = (x, ini1, m1)" by (cases "connector_connect (ini, m)") auto
  from connector_connect_ok [OF ok [unfolded w] conn] obtain s where
    s: "x = Ok s" "ini1 = ini\<lparr>asked := asked ini + 1\<rparr>" "initiator_ok self (ini1, m1)" "up_at (links_of ini) s = None"
      "s = INVALID_SOCKET_HANDLE \<or> s \<in> m_connectSockets m1" by blast
  note d = initiator_okD [OF s(3)]
  obtain p where p: "smap_find (t_sessions ini1) (m_frozenString sid) = Some p"
  proof -
    obtain sid' where sid': "smap_find (m_disconnected ini1) (m_frozenString sid) = Some sid'" using k s(2) by (auto simp: w)
    have "ids_ok ini1 (m_disconnected ini1)" using d(2) by (simp add: filing_ok_def)
    then have "smap_find (t_sessions ini1) (m_frozenString sid) \<noteq> None" using sid' unfolding ids_ok_def by blast
    then show ?thesis using that by blast
  qed
  then have down: "p \<in> down (links_of ini1)" using k s(2) by (auto simp: w links_of_def addresses_def)
  note pend = pending_links [OF d(2) p] and pok = link_pending_ok [OF d(3) down]
  let ?ini2 = "setPending sid ini1"
  have ok2: "initiator_ok self (?ini2, m1)" using d pend pok by (simp add: initiator_ok_def)
  obtain y ini3 m3 where sess: "getSession_initiator self sid s (?ini2, m1) = (y, ini3, m3)"
    by (cases "getSession_initiator self sid s (?ini2, m1)") auto
  have p2: "smap_find (t_sessions ?ini2) (m_frozenString sid) = Some p" using p by (simp add: setPending_def)
  note got = getSession_outcome [OF p2 initiator_ok_filed [OF ok2] sess]
  have ok3: "initiator_ok self (ini3, m3)" by (rule alike_ok [OF got(1) ok2])
  have dis: "m_disconnected ini3 = smap_erase (m_frozenString sid) (m_disconnected ini)"
    using got(1) s(2) by (simp add: alike_def setPending_def)
  have links3: "links_of ini3 = link_pending p (links_of ini1)" using alike_links [OF got(1)] pend(2) by simp
  show ?thesis
  proof (cases y)
    case (Inl e)
    then have "start_connection self sid w = (Throw e, ini3, m3)"
      using conn s(1) sess by (simp add: w start_connection_def ebind_def modify_transport_def emodify_def)
    then show ?thesis using ok3 dis by (simp add: w)
  next
    case (Inr found)
    then have run: "start_connection self sid w = file_connection sid s (Some p) (ini3, m3)"
      using conn s(1) sess got(2) by (simp add: w start_connection_def ebind_def modify_transport_def emodify_def)
    have "p \<notin> pend (links_of ini1)" using d(3) down by (auto simp: links_ok_def)
    then have fresh: "p \<in> pend (links_of ini3)" "p \<notin> ran (pend_at (links_of ini3))" using d(3) by (auto simp: links3 link_pending_def links_ok_def)
    have "shrinks m1 m3" using got(1) by (simp add: alike_def)
    from shrinks_held [OF this d(1)] s(5) have h: "s = INVALID_SOCKET_HANDLE \<or> s \<in> m_connectSockets m3 \<union> set (m_dropped m3)" by blast
    have "up_at (links_of ini1) s = None" using s(2,4) by (simp add: links_of_def)
    then have "up_at (links_of ini3) s = None" by (simp add: links3 link_pending_def)
    from file_connection_ok [OF ok3 fresh h this] dis show ?thesis
      unfolding w run [unfolded w] by (cases "file_connection sid s (Some p) (ini3, m3)") auto
  qed
qed


text \<open>An attempt to connect a session keeps the invariant and leaves the other disconnected sessions disconnected.\<close>

definition attempted :: "nat \<Rightarrow> string \<Rightarrow> SocketInitiator \<times> SocketMonitor \<Rightarrow> SocketInitiator \<times> SocketMonitor \<Rightarrow> bool" where
  "attempted self k w w' = (initiator_ok self w' \<and> (\<forall>k'. k' \<noteq> k \<longrightarrow> smap_find (m_disconnected (fst w')) k' = smap_find (m_disconnected (fst w)) k'))"

definition attempts :: "nat \<Rightarrow> string \<Rightarrow> 'a ini \<Rightarrow> bool" where
  "attempts self k m = (\<forall>w. initiator_ok self w \<longrightarrow> smap_find (m_disconnected (fst w)) k \<noteq> None \<longrightarrow> attempted self k w (snd (m w)))"

lemma attempts_start: "attempts self (m_frozenString sid) (start_connection self sid)"
  unfolding attempts_def attempted_def
proof (intro allI impI)
  fix w assume "initiator_ok self w" "smap_find (m_disconnected (fst w)) (m_frozenString sid) \<noteq> None"
  from start_connection_ok [OF this] show "initiator_ok self (snd (start_connection self sid w)) \<and>
      (\<forall>k'. k' \<noteq> m_frozenString sid \<longrightarrow> smap_find (m_disconnected (fst (snd (start_connection self sid w)))) k' = smap_find (m_disconnected (fst w)) k')" by simp
qed

lemma mild_attempted: "mild m \<Longrightarrow> initiator_ok self w \<Longrightarrow> attempted self k w (snd (m w)) \<and> m_disconnected (fst (snd (m w))) = m_disconnected (fst w)"
proof -
  assume "mild m" and ok: "initiator_ok self w"
  then have a: "alike w (snd (m w))" by (intro mildD initiator_ok_filed)
  then have "m_disconnected (fst (snd (m w))) = m_disconnected (fst w)" by (cases w; cases "snd (m w)") (simp add: alike_def)
  with alike_ok [OF a ok] show ?thesis by (simp add: attempted_def)
qed

lemma attempts_mild: "mild m \<Longrightarrow> attempts self k m"
  by (simp add: attempts_def mild_attempted)

lemma attempts_eret: "attempts self k (eret x)"
  by (rule attempts_mild) (rule mild_basic)

lemma attempts_bind:
  assumes m: "mild m" and f: "\<And>x. attempts self k (f x)"
  shows "attempts self k (ebind m f)"
  unfolding attempts_def
proof (intro allI impI)
  fix w assume ok: "initiator_ok self w" and k: "smap_find (m_disconnected (fst w)) k \<noteq> None"
  obtain x w1 where run: "m w = (x, w1)" by (cases "m w")
  have 1: "attempted self k w w1" "m_disconnected (fst w1) = m_disconnected (fst w)" using mild_attempted [OF m ok, where k = k] run by auto
  then have "attempted self k w1 (snd (f y w1))" for y using f k unfolding attempts_def attempted_def by (metis (no_types))
  then show "attempted self k w (snd (ebind m f w))" using 1 run by (cases x) (auto simp: ebind_def attempted_def)
qed

lemma attempts_catch: "attempts self k m \<Longrightarrow> attempts self k (ecatch m (\<lambda>_. eret ()))"
  unfolding attempts_def ecatch_def eret_def by (auto split: prod.splits sum.splits) (metis snd_conv)+

lemma mild_connection_options: "mild (connection_options sid d)"
  unfolding connection_options_def by (intro mild_intros)

lemma attempts_doConnect: "attempts self (m_frozenString sid) (doConnect self sid d)"
  unfolding doConnect_def open_connection_def
  by (auto intro!: attempts_catch attempts_bind mild_intros mild_connection_options attempts_start attempts_eret split: option.split)

lemma mild_lastConnectAttempt: "mild (modify_transport (\<lambda>ini. ini\<lparr>m_lastConnectAttempt := f ini\<rparr>))"
  by (auto simp: mild_def modify_transport_def emodify_def alike_def id_at_fun same_conns_def filed_def shrinks.stays)

lemma attempts_connect_session: "attempts self (m_frozenString sid) (connect_session self now sid)"
  unfolding connect_session_def
  by (auto intro!: attempts_bind mild_intros mild_lastConnectAttempt attempts_doConnect attempts_eret split: option.split)


lemma connect_loop_ok:
  "initiator_ok self w \<Longrightarrow> distinct (map fst es) \<Longrightarrow> (\<And>e. e \<in> set es \<Longrightarrow> m_frozenString (snd e) = fst e \<and> smap_find (m_disconnected (fst w)) (fst e) \<noteq> None) \<Longrightarrow>
   initiator_ok self (snd (eseq (map (\<lambda>e. connect_session self now (snd e)) es) w))"
proof (induction es arbitrary: w)
  case (Cons e es)
  obtain x w1 where run: "connect_session self now (snd e) w = (x, w1)" by (cases "connect_session self now (snd e) w")
  have "smap_find (m_disconnected (fst w)) (m_frozenString (snd e)) \<noteq> None" using Cons.prems(3) [of e] by simp
  then have 1: "attempted self (fst e) w w1"
    using attempts_connect_session [of self "snd e" now] Cons.prems(1) Cons.prems(3) [of e] run unfolding attempts_def by (metis list.set_intros(1) snd_conv)
  have "m_frozenString (snd e') = fst e' \<and> smap_find (m_disconnected (fst w1)) (fst e') \<noteq> None" if "e' \<in> set es" for e'
  proof -
    have "fst e' \<noteq> fst e" using Cons.prems(2) that by (metis distinct.simps(2) imageI list.set_map list.simps(9))
    then show ?thesis using 1 Cons.prems(3) [of e'] that unfolding attempted_def by (metis list.set_intros(2))
  qed
  with Cons.IH [of w1] Cons.prems(2) 1 run show ?case by (cases x) (auto simp: ebind_def attempted_def)
qed (simp add: eret_def)

lemma keeps_connect: "keeps (initiator_ok self) (connect self)"
proof (rule keepsI)
  fix w assume ok: "initiator_ok self w"
  obtain now w1 where run: "ask steady_now w = (Ok now, w1)" by (simp add: ask_def)
  then have ok1: "initiator_ok self w1" using keepsD [OF mild_keeps [OF mild_ask] ok] by (metis snd_conv)
  obtain ini m where w1: "w1 = (ini, m)" by (cases w1)
  have ids: "ids_ok ini (m_disconnected ini)" using initiator_okD(2) [OF ok1 [unfolded w1]] by (simp add: filing_ok_def)
  then have d: "distinct (map fst (m_disconnected ini))" by (auto simp: ids_ok_def smap_ok_def strict_sorted_iff)
  have "initiator_ok self (snd (eseq (map (\<lambda>e. connect_session self now (snd e)) (m_disconnected ini)) w1))"
  proof (rule connect_loop_ok [OF ok1 d])
    fix e assume "e \<in> set (m_disconnected ini)"
    then have "smap_find (m_disconnected ini) (fst e) = Some (snd e)" using d by (simp add: map_of_eq_Some_iff)
    then show "m_frozenString (snd e) = fst e \<and> smap_find (m_disconnected (fst w1)) (fst e) \<noteq> None" using ids by (auto simp: w1 ids_ok_def)
  qed
  then show "initiator_ok self (snd (connect self w))" using run by (simp add: connect_def ebind_def gets_transport_def egets_def w1)
qed

lemma keeps_onTimeout: "keeps (initiator_ok self) (initiator_onTimeout self)"
proof -
  have "mild (eseq (map (\<lambda>e. connection_timeout self (snd e)) cs))" for cs by (rule mild_seq_map) (rule mild_connection_timeout)
  then show ?thesis unfolding initiator_onTimeout_def
    by (intro keeps_bind keeps_connect mild_keeps mild_basic)
qed

section \<open>The contract of the monitor\<close>

lemma settles_onDisconnect: "settles (initiator_ok self) (initiator_onDisconnect self h)"
  unfolding settles_def
proof (intro allI impI)
  fix w x w' assume "initiator_ok self w" "initiator_onDisconnect self h w = (Ok x, w')"
  then show "initiator_ok self w'" using onDisconnect_ok [of self "fst w" "snd w" h "fst w'" "snd w'"] by simp
qed

lemma onDisconnect_shrinks: "filed w \<Longrightarrow> shrinks (snd w) (snd (snd (initiator_onDisconnect self h w)))"
proof -
  assume w: "filed w"
  have "shrinks m (snd (snd (remove_connection self h p sid (ini, m))))" if "filed (ini, m)" for p sid ini m
  proof -
    have f: "filed (setDisconnected sid ini, m)" using that by (simp add: filed_def setDisconnected_def)
    obtain x ini2 m2 where step: "run_session self p disconnect (setDisconnected sid ini, m) = (x, ini2, m2)"
      by (cases "run_session self p disconnect (setDisconnected sid ini, m)") auto
    have "alike (setDisconnected sid ini, m) (ini2, m2)" using run_session_alike [OF keeps_id_calls(4) f, of self p] step by simp
    then have "shrinks m m2" by (simp add: alike_def)
    then show ?thesis using step by (cases x) (simp_all add: remove_connection_def modify_transport_def ebind_def emodify_def)
  qed
  then show ?thesis using w by (cases w) (auto simp: initiator_onDisconnect_def shrinks.stays split: option.split)
qed

lemma drop_ok: "initiator_ok self w \<Longrightarrow> initiator_ok self (fst w, snd (drop_socket self s (snd w)))"
  using keepsD [OF mild_keeps [OF mild_drop], of self w self s] by (simp add: emodify_def)

lemma settles_onError: "settles (initiator_ok self) (connector_onError self s)"
  unfolding settles_def
proof (intro allI impI)
  fix w x w' assume ok: "initiator_ok self w" and run: "connector_onError self s w = (Ok x, w')"
  obtain b m where drop: "drop_socket self s (snd w) = (b, m)" by (cases "drop_socket self s (snd w)")
  then have "initiator_ok self (fst w, m)" using drop_ok [OF ok, of s] by simp
  then show "initiator_ok self w'" using run drop settlesD [OF settles_onDisconnect] by (auto simp: connector_onError_def split: if_splits)
qed

lemma connector_onError_shrinks: "initiator_ok self w \<Longrightarrow> shrinks (snd w) (snd (snd (connector_onError self s w)))"
proof -
  assume ok: "initiator_ok self w"
  obtain b m where drop: "drop_socket self s (snd w) = (b, m)" by (cases "drop_socket self s (snd w)")
  have 1: "shrinks (snd w) m" using shrinks.drops [OF shrinks.stays, of "snd w" self s] drop by simp
  have "filed (fst w, m)" using initiator_ok_filed [OF ok] by (simp add: filed_def)
  from onDisconnect_shrinks [OF this] have "shrinks m (snd (snd (initiator_onDisconnect self s (fst w, m))))" by simp
  from shrinks_trans [OF this 1] 1 show ?thesis by (simp add: connector_onError_def drop)
qed

lemma reported_ok:
  assumes ok: "initiator_ok self w" and front: "m_dropped (snd w) = s # rest" and run: "connector_onError self s w = (Ok (), w')"
  shows "initiator_ok self (fst w', close_reported s (snd w'))"
proof -
  obtain ini m ini' m' where w: "w = (ini, m)" "w' = (ini', m')" by (cases w; cases w')
  note d = initiator_okD [OF ok [unfolded w]]
  have "s \<notin> m_readSockets m \<union> m_connectSockets m" using d(1) front by (auto simp: w monitor_ok_def)
  then have "drop_socket self s m = (False, m)" using d(1,6) by (auto simp: drop_socket_def monitor_ok_def)
  then have "initiator_onDisconnect self s (ini, m) = (Ok (), (ini', m'))" using run by (simp add: w connector_onError_def)
  from onDisconnect_ok [OF ok [unfolded w] this] have
    1: "initiator_ok self (ini', m')" "shrinks m m'" "links_ok (links_of ini') (m_readSockets m') (m_connectSockets m') (set (m_dropped m') - {s})" by auto
  note d' = initiator_okD [OF 1(1)]
  obtain ys where ys: "m_dropped m' = s # rest @ ys" using shrinks_moves [OF 1(2) d(1)] front by (auto simp: w)
  have "distinct (m_dropped m')" using d'(1) by (simp add: monitor_ok_def)
  then have "set (m_dropped (close_reported s m')) = set (m_dropped m') - {s}" using ys by (auto simp: close_reported_def)
  moreover have "monitor_ok (close_reported s m')" using d'(1) ys by (auto simp: monitor_ok_def close_reported_def)
  moreover have "held (close_reported s m') \<subseteq> held m'" using ys by (auto simp: held_def close_reported_def)
  ultimately show ?thesis unfolding w fst_conv snd_conv
    by (intro initiator_okI [OF 1(1) d'(2) refl]) (use 1(3) in \<open>auto simp: close_reported_def\<close>)
qed

interpretation initiators: transport_strategy self "connector_strategy self" "initiator_ok self" for self
proof (unfold_locales, goal_cases)
  case (1 w)
  then show ?case by (cases w) (simp add: initiator_ok_def)
next
  case (2 w s)
  then show ?case by (simp add: connector_strategy_def connector_onError_shrinks)
next
  case (3 w s rest w')
  then show ?case using reported_ok by (simp add: connector_strategy_def)
next
  case (4 w s w')
  then show ?case using onConnect_ok [of self "fst w" "snd w" s w'] by (simp add: connector_strategy_def)
next
  case (5 s)
  then show ?case by (simp add: connector_strategy_def settles_onError)
next
  case (6 s)
  then show ?case by (simp add: connector_strategy_def settles_keeps mild_keeps mild_onWrite)
next
  case (7 s)
  then show ?case unfolding connector_strategy_def connector_onEvent_def
    by (simp add: settles_bind settles_when settles_keeps mild_keeps mild_onData settles_onDisconnect)
next
  case 8
  then show ?case by (simp add: connector_strategy_def settles_keeps keeps_onTimeout)
next
  case 9
  then show ?case by (simp add: connector_strategy_def settles_keeps keeps_onTimeout)
next
  case (10 st m)
  then show ?case by (auto simp: initiator_ok_def monitor_ok_def held_def)
next
  case (11 st m t)
  then show ?case by (auto simp: initiator_ok_def monitor_ok_def held_def)
next
  case (12 st m)
  then show ?case by (auto simp: initiator_ok_def monitor_ok_def held_def read_wakeup_def addWrite_def Let_def)
qed

end
