(* ===== verification/InitiatorRuns.thy ===== *)
theory InitiatorRuns
  imports InitiatorInvariants
begin

text \<open>
  Runs of an initiator: from its construction on, the turns of its reactor and the calls that other threads make on its
  sessions. The properties of the initiator are stated here, with an attempt to connect that goes wrong.
\<close>

section \<open>Construction\<close>

text \<open>Every session made so far is disconnected, and nothing else is there.\<close>

definition fresh_initiator :: "SocketInitiator \<Rightarrow> bool" where
  "fresh_initiator ini =
     (registry_ok (registry ini) \<and> filing_ok ini \<and> m_pending ini = [] \<and> m_connected ini = [] \<and> m_connections ini = [] \<and>
      m_pendingConnections ini = [] \<and> dom (smap_find (m_disconnected ini)) = dom (smap_find (t_sessions ini)) \<and> smap_ok (t_sessions ini))"

lemma new_initiator_fresh: "registry_ok r \<Longrightarrow> fresh_initiator (new_SocketInitiator r settings answers)"
  by (simp add: fresh_initiator_def new_SocketInitiator_def filing_ok_def conns_ok_def ids_ok_def sessions_ok_def)

lemma initialize_session_cases:
  assumes "initialize_session env sid st = (Ok (), st')"
  shows "st' = st \<or> (\<exists>d p f. SessionFactory_create env sid d \<lparr>m_dictionaries = fst st, f_registry = registry (snd st)\<rparr> = (Ok p, f) \<and>
    snd st' = setDisconnected sid ((snd st)\<lparr>registry := f_registry f, t_sessions := smap_put (m_frozenString sid) p (t_sessions (snd st))\<rparr>))"
  using assms by (cases st) (auto simp: initialize_session_def split: sum.splits if_splits prod.splits; blast)

lemma initialize_session_fresh:
  assumes fresh: "fresh_initiator (snd st)" and run: "initialize_session env sid st = (Ok (), st')"
  shows "fresh_initiator (snd st') \<and> world (snd st') = world (snd st)"
proof -
  obtain c ini where st: "st = (c, ini)" by (cases st)
  show ?thesis
  proof (cases "st' = st")
    case False
    then obtain d p f where create: "SessionFactory_create env sid d \<lparr>m_dictionaries = c, f_registry = registry ini\<rparr> = (Ok p, f)"
      and ini': "snd st' = setDisconnected sid (ini\<lparr>registry := f_registry f, t_sessions := smap_put (m_frozenString sid) p (t_sessions ini)\<rparr>)"
      using initialize_session_cases [OF run] by (auto simp: st)
    from fresh have old: "registry_ok (registry ini)" "filing_ok ini" "smap_ok (t_sessions ini)" "m_pending ini = []" "m_connected ini = []"
        "m_connections ini = []" "m_pendingConnections ini = []" "dom (smap_find (m_disconnected ini)) = dom (smap_find (t_sessions ini))"
      by (simp_all add: st fresh_initiator_def)
    from create_outcome [OF _ create] old(1) obtain s where s: "registry_ok (f_registry f)" "objects (registry ini) p = None"
        "objects (f_registry f) = (objects (registry ini))(p \<mapsto> s)" "m_sessionID s = sid" by auto
    let ?ini = "setDisconnected sid (ini\<lparr>registry := f_registry f, t_sessions := smap_put (m_frozenString sid) p (t_sessions ini)\<rparr>)"
    have i: "t_sessions ?ini = smap_put (m_frozenString sid) p (t_sessions ini)" "registry ?ini = f_registry f"
        "m_disconnected ?ini = smap_put (m_frozenString sid) sid (m_disconnected ini)" by (simp_all add: setDisconnected_def)
    have dis: "ids_ok ini (m_disconnected ini)" "sessions_ok ini" using old(2) by (simp_all add: filing_ok_def)
    have "sessions_ok ?ini"
      using dis(2) old(3) s unfolding sessions_ok_def id_at_def i by (auto split: if_splits) (metis option.distinct(1) option.map_disc_iff)
    moreover have "ids_ok ?ini (m_disconnected ?ini)" using dis(1) old(3) unfolding ids_ok_def i by auto
    moreover have "dom (smap_find (m_disconnected ?ini)) = dom (smap_find (t_sessions ?ini))"
      using old(3,8) dis(1) unfolding i by (simp add: ids_ok_def smap_dom(1) del: smap_find_put)
    moreover have rest: "m_pending ?ini = []" "m_connected ?ini = []" "m_connections ?ini = []" "m_pendingConnections ?ini = []" "world ?ini = world ini"
      using old by (simp_all add: setDisconnected_def smap_erase_def)
    moreover have "ids_ok ?ini []" "conns_ok []" by (simp_all add: ids_ok_def conns_ok_def)
    moreover have "smap_ok (t_sessions ?ini)" using old(3) by (simp add: i)
    ultimately have "fresh_initiator ?ini" using s(1) unfolding fresh_initiator_def filing_ok_def rest by (simp add: i)
    then show ?thesis using rest(5) unfolding ini' by (simp add: st)
  qed (use fresh in simp)
qed


lemma initialize_sessions_fresh:
  "fresh_initiator (snd st) \<Longrightarrow> eseq (map (initialize_session env) sids) st = (Ok (), st') \<Longrightarrow>
   fresh_initiator (snd st') \<and> world (snd st') = world (snd st)"
proof (induction sids arbitrary: st)
  case (Cons sid sids)
  obtain x st1 where run: "initialize_session env sid st = (x, st1)" by (cases "initialize_session env sid st")
  with Cons.prems(2) have "x = Ok ()" "eseq (map (initialize_session env) sids) st1 = (Ok (), st')" by (cases x; simp add: ebind_def)+
  with Cons.IH [of st1] initialize_session_fresh [OF Cons.prems(1)] run show ?case by auto
qed (simp add: eret_def)

lemma fresh_initiator_ok:
  assumes "fresh_initiator ini" "fresh_sockets (world ini)" "monitor_ok m" "INVALID_SOCKET_HANDLE \<notin> held m" "m_owner m = None"
  shows "initiator_ok self (ini, m)"
proof -
  have "smap_find (t_sessions ini) k = Some p \<Longrightarrow> \<exists>sid. smap_find (m_disconnected ini) k = Some sid" for k p
    using assms(1) unfolding fresh_initiator_def by (metis domD domI)
  then have "links_ok (links_of ini) (m_readSockets m) (m_connectSockets m) (set (m_dropped m))"
    using assms(1) by (auto simp: fresh_initiator_def links_ok_def links_of_def addresses_def session_under_def ran_def inj_on_def dom_def)
  then show ?thesis using assms by (simp add: initiator_ok_def fresh_initiator_def)
qed

lemma initialize_ok:
  assumes run: "initialize env (c, new_SocketInitiator r settings answers) = (Ok (), c', ini)" and r: "registry_ok r"
    and w: "fresh_sockets answers" and m: "monitor_ok m" "INVALID_SOCKET_HANDLE \<notin> held m" "m_owner m = None"
  shows "initiator_ok self (ini, m)"
proof -
  have "eseq (map (initialize_session env) (getSessions settings)) (c, new_SocketInitiator r settings answers) = (Ok (), c', ini)"
    using run by (auto simp: initialize_def Let_def new_SocketInitiator_def split: if_splits prod.splits sum.splits)
  from initialize_sessions_fresh [OF _ this] new_initiator_fresh [OF r, of settings answers]
  have "fresh_initiator ini" "world ini = answers" by (simp_all add: new_SocketInitiator_def)
  then show ?thesis using fresh_initiator_ok w m by simp
qed

section \<open>Runs\<close>

text \<open>Turns of the reactor's thread \<open>self\<close>, and calls on sessions from any thread. The result of a
  call is dropped. The reactor goes on after a turn that returns.\<close>

inductive initiator_runs :: "nat \<Rightarrow> SocketInitiator \<times> SocketMonitor \<Rightarrow> SocketInitiator \<times> SocketMonitor \<Rightarrow> bool"
  for self :: nat and w0 :: "SocketInitiator \<times> SocketMonitor" where
  start: "initiator_runs self w0 w0"
| turns: "initiator_runs self w0 w \<Longrightarrow> initiator_turn self should_poll answers w = Some (Ok (), w') \<Longrightarrow> initiator_runs self w0 w'"
| calls: "initiator_runs self w0 w \<Longrightarrow> (\<And>s. session_call s (snd (act s))) \<Longrightarrow> run_session thread p (act :: unit action) w = (x, w') \<Longrightarrow> initiator_runs self w0 w'"

lemma mild_modify_lastConnect: "mild (modify_transport (\<lambda>ini. ini\<lparr>m_lastConnect := now\<rparr>))"
  by (auto simp: mild_def modify_transport_def emodify_def alike_def id_at_fun same_conns_def filed_def shrinks.stays)

lemma keeps_sweep:
  "keeps (initiator_ok self) (ebind (ask wall_now) (\<lambda>now. ebind (gets_transport m_lastConnect) (\<lambda>lastConnect.
     if now = lastConnect then eret () else ebind (modify_transport (\<lambda>ini. ini\<lparr>m_lastConnect := now\<rparr>)) (\<lambda>_. initiator_onTimeout self))))"
  by (intro keeps_bind keeps_if keeps_onTimeout mild_keeps mild_intros mild_modify_lastConnect)

lemma initiator_turn_ok:
  assumes ok: "initiator_ok self w" and run: "initiator_turn self should_poll answers w = Some (Ok (), w')"
  shows "initiator_ok self w'"
proof -
  obtain w1 where b: "block self (connector_strategy self) should_poll answers w = Some (Ok (), w1)"
    using run by (auto simp: initiator_turn_def split: option.splits sum.splits prod.splits)
  have "initiator_ok self w1" by (rule initiators.block_good [OF ok b])
  from keepsD [OF keeps_sweep this] show ?thesis using run b by (simp add: initiator_turn_def)
qed

lemma initiator_runs_ok: "initiator_runs self w0 w \<Longrightarrow> initiator_ok self w0 \<Longrightarrow> initiator_ok self w"
proof (induction rule: initiator_runs.induct)
  case (turns w should_poll answers w')
  then show ?case using initiator_turn_ok by blast
next
  case (calls w act thread p x w')
  have "keeps_id act" using session_call_id [OF calls.hyps(2)] by (simp add: keeps_id_def)
  from run_session_alike [OF this initiator_ok_filed [OF calls.IH [OF calls.prems]], where self = thread and p = p]
  show ?case using calls alike_ok by (metis snd_conv)
qed


section \<open>Reports of dropped sockets\<close>

text \<open>Between two states sessions only lost their connections; a pending session that is still pending kept its connection.\<close>

definition removes :: "links \<Rightarrow> links \<Rightarrow> bool" where
  "removes l l' =
     (up_at l' \<subseteq>\<^sub>m up_at l \<and> pend l' \<subseteq> pend l \<and> owned l' = owned l \<and>
      (\<forall>h p. pend_at l h = Some p \<longrightarrow> p \<in> pend l' \<longrightarrow> pend_at l' h = Some p))"

lemma removes_refl: "removes l l"
  by (simp add: removes_def)

lemma removes_trans:
  assumes "removes l l'" "removes l' l''"
  shows "removes l l''"
  using assms map_le_trans [of "up_at l''" "up_at l'" "up_at l"] unfolding removes_def by auto

lemma link_removed_removes:
  assumes l: "links_ok l reads connects drops" and h: "up_at l h = Some p \<or> pend_at l h = Some p"
  shows "removes l (link_removed h p l)"
proof -
  have "q = p" if "pend_at l h = Some q" for q using l h that by (auto simp: links_ok_def)
  then show ?thesis unfolding removes_def link_removed_def map_le_def by auto
qed

lemma onDisconnect_removes:
  assumes ok: "initiator_ok self (ini, m)" and run: "initiator_onDisconnect self h (ini, m) = (Ok (), (ini', m'))"
  shows "removes (links_of ini) (links_of ini') \<and> t_sessions ini' = t_sessions ini"
proof (cases "filed_connection h ini")
  case None
  then show ?thesis using run by (simp add: initiator_onDisconnect_def removes_refl)
next
  case (Some c)
  then obtain p sid where p: "session_of c ini = Some (p, sid)" and rem: "remove_connection self h p sid (ini, m) = (Ok (), (ini', m'))"
    using run by (auto simp: initiator_onDisconnect_def split: option.splits)
  note out = remove_connection_ok [OF ok Some p rem]
  show ?thesis unfolding out(3) using out(6) link_removed_removes [OF initiator_okD(3) [OF ok] out(5)] by simp
qed

lemma links_at:
  assumes "links_ok l reads connects drops"
  shows "up_at l h = Some p \<Longrightarrow> p \<in> up l" "pend_at l h = Some p \<Longrightarrow> p \<in> pend l" "p \<in> up l \<Longrightarrow> p \<notin> pend l"
    "up l \<subseteq> owned l" "pend l \<subseteq> owned l" "p \<in> up l \<Longrightarrow> \<exists>h. up_at l h = Some p"
  using assms by (auto simp: links_ok_def ran_def)

lemma filed_session:
  assumes ok: "initiator_ok self (ini, m)" and c: "filed_connection h ini = Some c"
  shows "\<exists>p sid. session_of c ini = Some (p, sid)"
proof -
  note d = initiator_okD [OF ok]
  have at: "smap_find (m_connections ini) h = Some c \<or> smap_find (m_pendingConnections ini) h = Some c"
    using c by (auto simp: filed_connection_def split: option.splits)
  then have "m_pSession c \<noteq> None" using d(2) unfolding filing_ok_def conns_ok_def by blast
  then obtain p where p: "m_pSession c = Some p" by blast
  then have "up_at (links_of ini) h = Some p \<or> pend_at (links_of ini) h = Some p" using at by (auto simp: links_of_def session_under_def)
  then have "p \<in> owned (links_of ini)" using links_at [OF d(3)] by blast
  then obtain k where "smap_find (t_sessions ini) k = Some p" by (auto simp: links_of_def ran_def)
  then obtain sid where "id_at ini p = Some sid" using d(2) unfolding filing_ok_def sessions_ok_def by blast
  then show ?thesis using p by (auto simp: session_of_def session_at_def id_at_def)
qed

lemma onDisconnect_returns:
  assumes ok: "initiator_ok self (ini, m)" and sound: "sound_sessions ini"
  shows "\<exists>ini' m'. initiator_onDisconnect self h (ini, m) = (Ok (), ini', m') \<and> sound_sessions ini'"
proof (cases "filed_connection h ini")
  case None
  then show ?thesis using sound by (simp add: initiator_onDisconnect_def)
next
  case (Some c)
  then obtain p sid where p: "session_of c ini = Some (p, sid)" using filed_session [OF ok] by blast
  then have "objects (registry (setDisconnected sid ini)) p \<noteq> None" "sound_sessions (setDisconnected sid ini)"
    using sound by (auto simp: session_of_def session_at_def setDisconnected_def sound_sessions_def split: option.splits)
  then obtain ini2 m2 where "run_session self p disconnect (setDisconnected sid ini, m) = (Ok (), ini2, m2)" "sound_sessions ini2"
    using run_disconnect [of "(setDisconnected sid ini, m)" p self] by auto
  then show ?thesis using Some p
    by (simp add: initiator_onDisconnect_def remove_connection_def modify_transport_def ebind_def emodify_def setDisconnected_def sound_sessions_def unregisterSession_def)
qed

text \<open>The reports of one pass, as the monitor makes them.\<close>

definition reporting :: "nat \<Rightarrow> links \<Rightarrow> (string, nat) smap \<Rightarrow> SocketInitiator \<times> SocketMonitor \<Rightarrow> bool" where
  "reporting self l ss w =
     (initiator_ok self w \<and> sound_sessions (fst w) \<and> removes l (links_of (fst w)) \<and> t_sessions (fst w) = ss)"

lemma dropped_onError:
  assumes "initiator_ok self (ini, m)" "s \<in> set (m_dropped m)"
  shows "connector_onError self s (ini, m) = initiator_onDisconnect self s (ini, m)"
proof -
  have "drop_socket self s m = (False, m)" using initiator_okD(1,6) [OF assms(1)] assms(2) by (auto simp: monitor_ok_def drop_socket_def)
  then show ?thesis by (simp add: connector_onError_def)
qed

interpretation reports: drop_reports self "connector_strategy self" "reporting self l ss" for self l ss
proof (unfold_locales, goal_cases)
  case (1 w)
  then show ?case using initiators.good_ok unfolding reporting_def by blast
next
  case (2 w s)
  then show ?case using initiators.onError_shrinks unfolding reporting_def by blast
next
  case (3 w s rest w')
  obtain ini m ini' m' where w: "w = (ini, m)" "w' = (ini', m')" by (cases w; cases w')
  have ok: "initiator_ok self (ini, m)" "sound_sessions ini" using 3(1) by (simp_all add: w reporting_def)
  have run: "initiator_onDisconnect self s (ini, m) = (Ok (), (ini', m'))"
    using 3(3) dropped_onError [OF ok(1), of s] 3(2) by (simp add: w connector_strategy_def)
  have "removes l (links_of ini')" "t_sessions ini' = ss"
    using onDisconnect_removes [OF ok(1) run] 3(1) removes_trans by (auto simp: w reporting_def)
  moreover have "sound_sessions ini'" using onDisconnect_returns [OF ok, of s] run by auto
  ultimately show ?case using reported_ok [of self w s rest w'] 3 by (simp add: connector_strategy_def w reporting_def)
qed

lemma address_iff:
  assumes "sessions_ok ini" "smap_find (t_sessions ini) k = Some p"
  shows "p \<in> addresses ini ids \<longleftrightarrow> smap_find ids k \<noteq> None"
  unfolding addresses_def using assms(2) sessions_distinct [OF assms] by blast

text \<open>A session whose socket is in the queue of dropped sockets is disconnected once the queue has been reported.\<close>

lemma reported_session_down:
  assumes ok: "initiator_ok self (ini, m)" and h: "h \<in> set (m_dropped m)" "up_at (links_of ini) h = Some p \<or> pend_at (links_of ini) h = Some p"
    and ok': "initiator_ok self (ini', m')" and r: "removes (links_of ini) (links_of ini')" and m: "reported m m' ys" "m_dropped m' = []"
  shows "p \<in> down (links_of ini')"
proof -
  note d = initiator_okD [OF ok] and d' = initiator_okD [OF ok']
  have gone: "h \<notin> m_readSockets m' \<union> m_connectSockets m'" using d(1) h(1) m(1) by (auto simp: monitor_ok_def reported_def)
  have "h \<noteq> INVALID_SOCKET_HANDLE" using d(5) h(1) by (auto simp: held_def)
  then have none: "up_at (links_of ini') h = None" "pend_at (links_of ini') h = None"
    using d'(3) gone m(2) by (auto simp: links_ok_def dom_def)
  have "p \<notin> pend (links_of ini')"
  proof
    assume p: "p \<in> pend (links_of ini')"
    then have "p \<in> pend (links_of ini)" using r by (auto simp: removes_def)
    then have "pend_at (links_of ini) h = Some p" using h(2) d(3) by (auto simp: links_ok_def ran_def)
    with p r none show False by (auto simp: removes_def)
  qed
  moreover have "p \<notin> up (links_of ini')"
  proof
    assume "p \<in> up (links_of ini')"
    then have "p \<in> ran (up_at (links_of ini'))" using d'(3) by (simp add: links_ok_def)
    then obtain h' where h': "up_at (links_of ini') h' = Some p" by (auto simp: ran_def)
    then have before: "up_at (links_of ini) h' = Some p" using r by (auto simp: removes_def map_le_def dom_def)
    then have "p \<in> up (links_of ini)" using links_at(1) [OF d(3)] by blast
    then have "pend_at (links_of ini) h \<noteq> Some p" using links_at [OF d(3)] by blast
    then have "up_at (links_of ini) h = Some p" using h(2) by simp
    then have "h' = h" using before d(3) by (auto simp: links_ok_def inj_on_def dom_def)
    with h' none show False by simp
  qed
  moreover have "p \<in> owned (links_of ini')" using h(2) d(3) r by (auto simp: links_ok_def ran_def removes_def)
  ultimately show ?thesis using d'(3) by (auto simp: links_ok_def)
qed


lemma block_reports:
  assumes ok: "initiator_ok self (ini, m)" "sound_sessions ini" and front: "m_dropped m \<noteq> []"
  shows "\<exists>ini' m' ys. block self (connector_strategy self) should_poll answers (ini, m) = Some (Ok (), ini', m') \<and> reported m m' ys \<and>
    reporting self (links_of ini) (t_sessions ini) (ini', m') \<and> m_dropped m' = []"
proof -
  let ?m = "m\<lparr>m_owner := Some self\<rparr>"
  have "initiator_ok self (ini, ?m)" by (rule initiators.owner_good [OF ok(1)])
  then have start: "reporting self (links_of ini) (t_sessions ini) (ini, ?m)" using ok(2) by (simp add: reporting_def removes_refl)
  from reports.report_dropped_ends [OF this] obtain x ini' m' ys where
    r: "report_dropped (connector_strategy self) (ini, ?m) = Some (x, ini', m')" "reported ?m m' ys"
      "\<And>b. x = Ok b \<Longrightarrow> reporting self (links_of ini) (t_sessions ini) (ini', m') \<and> m_dropped m' = [] \<and> b"
    using front by auto
  have "x \<noteq> Throw e" for e
  proof
    assume "x = Throw e"
    from reports.report_dropped_throws [OF r(1) [unfolded this] start] obtain ini1 m1 s where
      w1: "initiator_ok self (ini1, m1)" "sound_sessions ini1" "s \<in> set (m_dropped m1)" "fst (connector_onError self s (ini1, m1)) = Throw e"
      by (auto simp: reporting_def connector_strategy_def)
    show False using onDisconnect_returns [OF w1(1,2), of s] w1(4) by (auto simp: dropped_onError [OF w1(1,3)])
  qed
  then obtain b where x: "x = Ok b" by (cases x) auto
  have "reported m m' ys" using r(2) by (simp add: reported_def)
  moreover have "block self (connector_strategy self) should_poll answers (ini, m) = Some (Ok (), ini', m')"
    using r(1) r(3) [OF x] by (auto simp: x block_def split: bool.splits)
  ultimately show ?thesis using r(3) [OF x] by blast
qed

lemma down_disconnected:
  assumes "filing_ok ini" "smap_find (t_sessions ini) (m_frozenString sid) = Some p" "p \<in> down (links_of ini)"
  shows "isDisconnected sid ini"
proof -
  have "sessions_ok ini" using assms(1) by (simp add: filing_ok_def)
  from address_iff [OF this assms(2)] show ?thesis using assms(3) by (simp add: isDisconnected_def links_of_def)
qed

lemma connection_session:
  assumes ok: "initiator_ok self (ini, m)" and c: "smap_find (m_connections ini) h = Some c"
  shows "\<exists>p sid. session_of c ini = Some (p, sid) \<and> smap_find (t_sessions ini) (m_frozenString sid) = Some p \<and>
    up_at (links_of ini) h = Some p \<and> isConnected sid ini"
proof -
  note d = initiator_okD [OF ok]
  have "m_pSession c \<noteq> None" using d(2) c unfolding filing_ok_def conns_ok_def by blast
  then obtain p where p: "m_pSession c = Some p" by blast
  then have at: "up_at (links_of ini) h = Some p" using c by (simp add: links_of_def session_under_def)
  have "p \<in> addresses ini (m_connected ini)" using links_at(1) [OF d(3) at] by (simp add: links_of_def)
  then obtain k where k: "smap_find (t_sessions ini) k = Some p" "smap_find (m_connected ini) k \<noteq> None" by (auto simp: addresses_def)
  then obtain sid where "id_at ini p = Some sid" "m_frozenString sid = k" using d(2) unfolding filing_ok_def sessions_ok_def by blast
  then have "session_of c ini = Some (p, sid)" "isConnected sid ini" using p k by (auto simp: session_of_def session_at_def id_at_def isConnected_def)
  with k at \<open>m_frozenString sid = k\<close> show ?thesis by blast
qed

text \<open>A filed connection has a session, so a handle without one has no connection.\<close>

lemma not_filed:
  assumes "filing_ok ini" "up_at (links_of ini) h = None" "pend_at (links_of ini) h = None"
  shows "filed_connection h ini = None"
proof -
  have none: "smap_find cs h = None" if "conns_ok cs" "session_under cs h = None" for cs
  proof (cases "smap_find cs h")
    case (Some c)
    then have "m_pSession c \<noteq> None" using that(1) unfolding conns_ok_def by blast
    then show ?thesis using that(2) Some by (auto simp: session_under_def)
  qed simp
  from none [of "m_connections ini"] none [of "m_pendingConnections ini"] assms
  show ?thesis by (simp add: filed_connection_def filing_ok_def links_of_def)
qed

lemma one_set:
  assumes ok: "initiator_ok self (ini, m)"
  shows "of_bool (isPending sid ini) + of_bool (isConnected sid ini) + of_bool (isDisconnected sid ini) =
    (of_bool (smap_find (t_sessions ini) (m_frozenString sid) \<noteq> None) :: nat)"
proof (cases "smap_find (t_sessions ini) (m_frozenString sid)")
  case None
  then have "smap_find ids (m_frozenString sid) = None" if "ids_ok ini ids" for ids
    using that unfolding ids_ok_def by (metis option.exhaust)
  then show ?thesis using initiator_okD(2) [OF ok] None by (simp add: filing_ok_def isPending_def isConnected_def isDisconnected_def)
next
  case (Some p)
  note d = initiator_okD [OF ok]
  have "sessions_ok ini" using d(2) by (simp add: filing_ok_def)
  note iff = address_iff [OF this Some]
  have "p \<in> owned (links_of ini)" using Some by (auto simp: links_of_def ran_def)
  then have "p \<in> pend (links_of ini) \<union> up (links_of ini) \<union> down (links_of ini)" using d(3) by (simp add: links_ok_def)
  moreover have "pend (links_of ini) \<inter> up (links_of ini) = {}" "pend (links_of ini) \<inter> down (links_of ini) = {}" "up (links_of ini) \<inter> down (links_of ini) = {}"
    using d(3) by (simp_all add: links_ok_def)
  moreover have "p \<in> pend (links_of ini) \<longleftrightarrow> isPending sid ini" "p \<in> up (links_of ini) \<longleftrightarrow> isConnected sid ini" "p \<in> down (links_of ini) \<longleftrightarrow> isDisconnected sid ini"
    by (simp_all add: links_of_def iff isPending_def isConnected_def isDisconnected_def)
  ultimately show ?thesis using Some by auto
qed

lemma one_connection:
  assumes ok: "initiator_ok self (ini, m)" and sid: "isConnected sid ini"
  shows "\<exists>!h. \<exists>k p sid'. smap_find (m_connections ini) h = Some k \<and> session_of k ini = Some (p, sid') \<and> m_frozenString sid' = m_frozenString sid"
proof -
  note d = initiator_okD [OF ok]
  have so: "sessions_ok ini" using d(2) by (simp add: filing_ok_def)
  have "smap_find (t_sessions ini) (m_frozenString sid) \<noteq> None"
    using sid d(2) unfolding isConnected_def filing_ok_def ids_ok_def by blast
  then obtain p where p: "smap_find (t_sessions ini) (m_frozenString sid) = Some p" by blast
  have "p \<in> up (links_of ini)" using sid address_iff [OF so p] by (simp add: links_of_def isConnected_def)
  then obtain h where h: "up_at (links_of ini) h = Some p" using links_at(6) [OF d(3)] by blast
  then obtain c where c: "smap_find (m_connections ini) h = Some c" by (auto simp: links_of_def session_under_def bind_eq_Some_conv)
  from connection_session [OF ok c] h obtain sid' where "session_of c ini = Some (p, sid')" "smap_find (t_sessions ini) (m_frozenString sid') = Some p" by auto
  moreover from this(2) have "m_frozenString sid' = m_frozenString sid" using sessions_distinct [OF so] p by blast
  moreover have "h' = h" if "smap_find (m_connections ini) h' = Some c'" "session_of c' ini = Some (p', sid'')" "m_frozenString sid'' = m_frozenString sid" for h' c' p' sid''
  proof -
    from connection_session [OF ok that(1)] that(2,3) p have "up_at (links_of ini) h' = Some p" by auto
    then show ?thesis using h d(3) by (auto simp: links_ok_def inj_on_def dom_def)
  qed
  ultimately show ?thesis using c by blast
qed

section \<open>An attempt without a socket\<close>

text \<open>When no socket can be made, the attempt goes on with the invalid handle: the session becomes pending, nothing is added to the
  monitor, and so no event will ever move the session on. It is not disconnected, so \<open>connect\<close> does not try it again.\<close>

lemma failed_socket_stays_pending:
  assumes ok: "initiator_ok self (ini, m)" and down: "isDisconnected sid ini"
    and none: "new_socket (world ini (asked ini)) (held m) = INVALID_SOCKET_HANDLE"
    and run: "start_connection self sid (ini, m) = (x, ini', m')"
  shows "isPending sid ini' \<and> \<not> isDisconnected sid ini' \<and> held m' = held m \<and> INVALID_SOCKET_HANDLE \<notin> held m'"
proof -
  note d = initiator_okD [OF ok]
  let ?ini = "ini\<lparr>asked := asked ini + 1\<rparr>"
  have conn: "connector_connect (ini, m) = (Ok INVALID_SOCKET_HANDLE, ?ini, m)" using none by (simp add: connector_connect_def Let_def)
  have "smap_find (t_sessions ini) (m_frozenString sid) \<noteq> None"
    using down d(2) unfolding isDisconnected_def filing_ok_def ids_ok_def by blast
  then obtain p where p: "smap_find (t_sessions (setPending sid ?ini)) (m_frozenString sid) = Some p" by (auto simp: setPending_def)
  obtain y ini3 m3 where sess: "getSession_initiator self sid INVALID_SOCKET_HANDLE (setPending sid ?ini, m) = (y, ini3, m3)"
    by (cases "getSession_initiator self sid INVALID_SOCKET_HANDLE (setPending sid ?ini, m)") auto
  have "filed (setPending sid ?ini, m)" using initiator_ok_filed [OF ok] by (simp add: filed_def setPending_def)
  from getSession_outcome(1) [OF p this sess] have alike: "alike (setPending sid ?ini, m) (ini3, m3)" .
  have out: "m' = m3" "m_pending ini' = m_pending ini3" "m_disconnected ini' = m_disconnected ini3"
    using run sess by (cases y; auto simp: start_connection_def file_connection_def ebind_def conn modify_transport_def emodify_def ask_def split: prod.splits)+
  have "shrinks m m3" using alike by (simp add: alike_def)
  then have "held m' = held m" using shrinks_held [OF _ d(1)] out(1) by simp
  moreover have "smap_ok (m_pending ini)" "smap_ok (m_disconnected ini)" using d(2) by (simp_all add: filing_ok_def ids_ok_def)
  ultimately show ?thesis using alike d(5) out by (simp add: alike_def setPending_def isPending_def isDisconnected_def)
qed

section \<open>Properties\<close>

text \<open>C12: From its construction on, through any turns of its reactor and any calls on its sessions by any thread, each session of
  an initiator is in exactly one of the sets pending, connected and disconnected and no other session is in any; every connection
  belongs to a connected session and its socket is being read or its drop is about to be reported; and every connected
  session has exactly one connection.\<close>

theorem initiator_tracks_sessions:
  assumes "initialize env (c, new_SocketInitiator r settings answers) = (Ok (), c', ini0)" and "registry_ok r"
    and "fresh_sockets answers" and "s \<noteq> t" "s \<noteq> INVALID_SOCKET_HANDLE" "t \<noteq> INVALID_SOCKET_HANDLE"
    and "initiator_runs self (ini0, new_SocketMonitor timeout (s, t) now) (ini, m)"
  shows "of_bool (isPending sid ini) + of_bool (isConnected sid ini) + of_bool (isDisconnected sid ini) =
      (of_bool (smap_find (t_sessions ini) (m_frozenString sid) \<noteq> None) :: nat) \<and>
    (\<forall>h k. smap_find (m_connections ini) h = Some k \<longrightarrow> h \<in> m_readSockets m \<union> set (m_dropped m) \<and>
       (\<exists>p sid. session_of k ini = Some (p, sid) \<and> isConnected sid ini)) \<and>
    (isConnected sid ini \<longrightarrow>
       (\<exists>!h. \<exists>k p sid'. smap_find (m_connections ini) h = Some k \<and> session_of k ini = Some (p, sid') \<and> m_frozenString sid' = m_frozenString sid))"
proof -
  have m: "monitor_ok (new_SocketMonitor timeout (s, t) now)" "INVALID_SOCKET_HANDLE \<notin> held (new_SocketMonitor timeout (s, t) now)"
      "m_owner (new_SocketMonitor timeout (s, t) now) = None"
    using assms(4-6) by (auto simp: new_SocketMonitor_def monitor_ok_def held_def)
  have ok: "initiator_ok self (ini, m)" using initiator_runs_ok [OF assms(7)] initialize_ok [OF assms(1-3) m] by blast
  note d = initiator_okD [OF ok]
  have "h \<in> m_readSockets m \<union> set (m_dropped m)" if "up_at (links_of ini) h = Some p" for h p
    using d(3) that by (auto simp: links_ok_def)
  then show ?thesis using one_set [OF ok, of sid] connection_session [OF ok] one_connection [OF ok, of sid] by blast
qed


text \<open>C13: When a pass of the reactor begins with dropped sockets and the sessions are in their invariant, the pass returns, and it has
  reported and closed every one of them and those dropped meanwhile, each exactly once and in order; the session of each
  is then disconnected and has no connection, so that the initiator tries to connect it again.\<close>

theorem dropped_sockets_reported_once:
  assumes "initiator_ok self (ini, m)" and "sound_sessions ini" and "h \<in> set (m_dropped m)"
    and "filed_connection h ini = Some k" and "session_of k ini = Some (p, sid)"
  shows "\<exists>ini' m' ys. block self (connector_strategy self) should_poll answers (ini, m) = Some (Ok (), ini', m') \<and>
    isDisconnected sid ini' \<and> filed_connection h ini' = None \<and> m_dropped m' = [] \<and>
    closes m' = closes m @ m_dropped m @ ys \<and> distinct (m_dropped m @ ys)"
proof -
  note d = initiator_okD [OF assms(1)]
  have "smap_find (m_connections ini) h = Some k \<or> smap_find (m_pendingConnections ini) h = Some k"
    using assms(4) by (auto simp: filed_connection_def split: option.splits)
  note at = session_of_under [OF d(2,3) assms(5) this]
  have "m_dropped m \<noteq> []" using assms(3) by auto
  from block_reports [OF assms(1,2) this] obtain ini' m' ys where
    r: "block self (connector_strategy self) should_poll answers (ini, m) = Some (Ok (), ini', m')" "reported m m' ys"
      "reporting self (links_of ini) (t_sessions ini) (ini', m')" "m_dropped m' = []" by blast
  then have o: "initiator_ok self (ini', m')" "removes (links_of ini) (links_of ini')" "t_sessions ini' = t_sessions ini" "m_dropped m' = []"
    by (simp_all add: reporting_def)
  note d' = initiator_okD [OF o(1)]
  have "p \<in> down (links_of ini')" by (rule reported_session_down [OF assms(1,3) at(4) o(1,2) r(2) o(4)])
  then have "isDisconnected sid ini'" using down_disconnected [OF d'(2)] at(1) o(3) by simp
  moreover have gone: "h \<notin> m_readSockets m' \<union> m_connectSockets m'" using d(1) assms(3) r(2) by (auto simp: monitor_ok_def reported_def)
  have "h \<noteq> INVALID_SOCKET_HANDLE" using d(5) assms(3) by (auto simp: held_def)
  then have "up_at (links_of ini') h = None" "pend_at (links_of ini') h = None" using d'(3) gone o(4) by (auto simp: links_ok_def dom_def)
  then have "filed_connection h ini' = None" by (rule not_filed [OF d'(2)])
  moreover have "closes m' = closes m @ m_dropped m @ ys" "distinct (m_dropped m @ ys)" using r(2) o(4) by (auto simp: reported_def)
  ultimately show ?thesis using r(1) o(4) by blast
qed

text \<open>An initiator with one session, and a world that always finds a new socket.\<close>

definition example_id :: SessionID where
  "example_id = mk_SessionID ''FIX.4.2'' ''US'' ''THEM'' []"

definition initiator_settings :: Dictionary where
  "initiator_settings = \<lparr>m_data = [(''CONNECTIONTYPE'', ''initiator''), (''HEARTBTINT'', ''30''), (''NONSTOPSESSION'', ''Y''),
     (''USEDATADICTIONARY'', ''N'')], m_name = ''SESSION''\<rparr>"

definition one_session :: SessionSettings where
  "one_session = \<lparr>m_settings = [(m_frozenString example_id, example_id, initiator_settings)], m_defaults = new_Dictionary [], ss_resolveEnvVars = False\<rparr>"

definition example_answers :: Answers where
  "example_answers = \<lparr>new_socket = \<lambda>used. if 5 \<in> used then INVALID_SOCKET_HANDLE else 5,
     steady_now = 0, wall_now = 0, utc_now = epoch, received = None, takes = \<lambda>_ _. 0, peername = []\<rparr>"

definition example_schedule :: schedule where
  "example_schedule = \<lparr>sc_useLocalTime = False, sc_isNonStopSession = True, sc_startTime = time_of_day 0 0 0,
     sc_endTime = time_of_day 0 0 0, sc_startDay = -1, sc_endDay = -1\<rparr>"

lemma example_heartbeat: "heartbeat_interval ''initiator'' initiator_settings = Ok 30"
proof -
  have "decimal 30 = ''30''" by code_simp
  moreover have "dict_has HEARTBTINT initiator_settings" "dict_getString HEARTBTINT False initiator_settings = Ok ''30''" by code_simp+
  ultimately show ?thesis
    using int_convert_decimal [of signed_int 30] by (simp add: heartbeat_interval_def getInt_def signed_int_def int_type_ok_def)
qed

lemma example_factory_settings:
  "connection_type initiator_settings = Ok ''initiator''" "bool_or True USE_DATA_DICTIONARY initiator_settings = Ok False"
  "default_version example_id initiator_settings = Ok []" 
  "session_dictionaries (fe_load example_env) False example_id initiator_settings [] =
     (Ok \<lparr>m_transportDictionaries = [], m_applicationDictionaries = []\<rparr>, [])"
  "session_schedule initiator_settings = Ok example_schedule"
  "settings_get example_id one_session = Ok initiator_settings" "dict_getString ''ConnectionType'' False initiator_settings = Ok ''initiator''"
  "reconnectInterval initiator_settings = Ok 30" "getSessions one_session = [example_id]"
  by (simp add: session_dictionaries_def eret_def | code_simp)+

lemma example_options:
  "days_of LOGON_DAY LOGOUT_DAY initiator_settings (-1) (-1) = (-1, -1)" "time_setting LOGON_TIME initiator_settings = Ok None"
  "time_setting LOGOUT_TIME initiator_settings = Ok None"
  "isInRange_day (sc_sessionTimeRange example_schedule) (time_of_day 0 0 0) (-1)"
  "\<not> dict_has ALLOWED_REMOTE_ADDRESSES initiator_settings"
  "\<not> list_ex (\<lambda>name. dict_has name initiator_settings) [SEND_REDUNDANT_RESENDREQUESTS, CHECK_COMPID, CHECK_LATENCY, MAX_LATENCY,
     LOGON_TIMEOUT, LOGOUT_TIMEOUT, RESET_ON_LOGON, RESET_ON_LOGOUT, RESET_ON_DISCONNECT, REFRESH_ON_LOGON, MILLISECONDS_IN_TIMESTAMP,
     TIMESTAMP_PRECISION, PERSIST_MESSAGES, VALIDATE_LENGTH_AND_CHECKSUM, SEND_NEXT_EXPECTED_MSG_SEQ_NUM]"
  by code_simp+

lemma example_configured: "\<exists>s'. configure_session initiator_settings example_schedule v s = Ok s'"
proof -
  have "sc_startDay example_schedule = -1" "sc_endDay example_schedule = -1" "sc_startTime example_schedule = time_of_day 0 0 0"
      "sc_endTime example_schedule = time_of_day 0 0 0" by (simp_all add: example_schedule_def)
  then show ?thesis using example_options by (simp add: configure_session_def session_options_def when_has_def Let_def)
qed

lemma example_built:
  "\<exists>s. new_Session (fe_clock example_env) (fe_application example_env) (fe_localtime example_env) (fe_store example_env example_id) example_id provider
              (sc_sessionTimeRange example_schedule) 30 = (Ok (), s) \<and> m_sessionID s = example_id"
proof -
  have "isInSameRange (\<lambda>_. epoch) (sc_sessionTimeRange example_schedule) epoch epoch" by code_simp
  then have "checkSessionTime s epoch" if "m_localtime s = (\<lambda>_. epoch)" "m_sessionTime s = sc_sessionTimeRange example_schedule"
      "state_creationTime (m_state s) = epoch" for s using that by (simp add: checkSessionTime_def)
  then show ?thesis
    by (simp add: new_Session_def example_env_def timestamper_def eff_defs new_SessionState_def state_creationTime_def new_MemoryStore_def)
qed

lemma example_create:
  "fst (create_session example_env example_id initiator_settings provider example_schedule 30 v no_sessions) = Ok 0"
proof -
  from example_built [of provider] obtain s where s: "new_Session (fe_clock example_env) (fe_application example_env) (fe_localtime example_env) (fe_store example_env example_id) example_id provider
              (sc_sessionTimeRange example_schedule) 30 = (Ok (), s)" "m_sessionID s = example_id" by blast
  show ?thesis using example_configured [of v s]
    by (auto simp: create_session_def construct_def s ebind_def no_sessions_def addSession_def Let_def example_env_def [THEN arg_cong [where f = fe_onCreate]])
qed

lemma example_initialized:
  "\<exists>ini. initialize example_env ([], new_SocketInitiator no_sessions one_session (\<lambda>_. example_answers)) = (Ok (), [], ini) \<and>
     smap_find (t_sessions ini) (m_frozenString example_id) = Some 0 \<and> isDisconnected example_id ini"
proof -
  obtain r where r: "create_session example_env example_id initiator_settings \<lparr>m_transportDictionaries = [], m_applicationDictionaries = []\<rparr>
     example_schedule 30 [] no_sessions = (Ok 0, r)" using example_create by (metis prod.collapse)
  have "SessionFactory_create example_env example_id initiator_settings \<lparr>m_dictionaries = [], f_registry = no_sessions\<rparr> =
      (Ok 0, \<lparr>m_dictionaries = [], f_registry = r\<rparr>)"
    by (simp add: SessionFactory_create_def example_factory_settings example_heartbeat r ebind_def elift_def on_dictionaries_def ezoom_def)
  then show ?thesis
    by (simp add: initialize_def new_SocketInitiator_def example_factory_settings initialize_session_def Let_def isDisconnected_def setDisconnected_def ebind_def eret_def)
qed

theorem initiator_tracks_sessions_witness:
  "\<exists>ini. initialize example_env ([], new_SocketInitiator no_sessions one_session (\<lambda>_. example_answers)) = (Ok (), [], ini) \<and>
     isDisconnected example_id ini \<and> \<not> isPending example_id ini \<and> \<not> isConnected example_id ini"
proof -
  from example_initialized obtain ini where ini:
    "initialize example_env ([], new_SocketInitiator no_sessions one_session (\<lambda>_. example_answers)) = (Ok (), [], ini)"
    "smap_find (t_sessions ini) (m_frozenString example_id) = Some 0" "isDisconnected example_id ini" by blast
  have "registry_ok no_sessions" by (rule registry_reachable_ok [OF registry_reachable.start])
  moreover have "fresh_sockets (\<lambda>_. example_answers)" by (simp add: fresh_sockets_def example_answers_def)
  moreover have "(3 :: int) \<noteq> 4" "3 \<noteq> INVALID_SOCKET_HANDLE" "4 \<noteq> INVALID_SOCKET_HANDLE" by (simp_all add:)
  ultimately have "of_bool (isPending example_id ini) + of_bool (isConnected example_id ini) + of_bool (isDisconnected example_id ini) =
      (of_bool (smap_find (t_sessions ini) (m_frozenString example_id) \<noteq> None) :: nat)"
    using initiator_tracks_sessions [OF ini(1) _ _ _ _ _ initiator_runs.start] by blast
  then show ?thesis using ini by (cases "isPending example_id ini"; cases "isConnected example_id ini") simp_all
qed

text \<open>The session is connected over socket 5, which has just been dropped.\<close>

definition example_connection :: SocketConnection where
  "example_connection = new_SocketConnection (\<lambda>_ _. 0) 0 5 [m_sessionID example_session] (Some 0)"

definition example_connected :: SocketInitiator where
  "example_connected = (new_SocketInitiator (no_sessions\<lparr>objects := [0 \<mapsto> example_session], next_address := 1\<rparr>) one_session (\<lambda>_. example_answers))
     \<lparr>t_sessions := [(m_frozenString (m_sessionID example_session), 0)],
      m_connected := [(m_frozenString (m_sessionID example_session), m_sessionID example_session)], m_connections := [(5, example_connection)]\<rparr>"

definition example_monitor :: SocketMonitor where
  "example_monitor = (new_SocketMonitor 0 (3, 4) 0)\<lparr>m_dropped := [5]\<rparr>"

theorem dropped_sockets_reported_once_witness:
  "\<exists>ini' m'. block 7 (connector_strategy 7) False [] (example_connected, example_monitor) = Some (Ok (), ini', m') \<and>
     isDisconnected (m_sessionID example_session) ini' \<and> 5 \<in> set (closes m')"
proof -
  have ini: "t_sessions example_connected = [(m_frozenString (m_sessionID example_session), 0)]" "m_pending example_connected = []"
      "m_connected example_connected = [(m_frozenString (m_sessionID example_session), m_sessionID example_session)]"
      "m_disconnected example_connected = []" "m_connections example_connected = [(5, example_connection)]"
      "m_pendingConnections example_connected = []" "world example_connected = (\<lambda>_. example_answers)"
      "objects (registry example_connected) = [0 \<mapsto> example_session]"
    by (simp_all add: example_connected_def new_SocketInitiator_def)
  have c: "m_socket example_connection = 5" "m_pSession example_connection = Some 0" by (simp_all add: example_connection_def new_SocketConnection_def)
  have m: "m_readSockets example_monitor = {4}" "m_connectSockets example_monitor = {}" "m_dropped example_monitor = [5]"
    by (simp_all add: example_monitor_def new_SocketMonitor_def)
  have "monitor_ok example_monitor" "INVALID_SOCKET_HANDLE \<notin> held example_monitor" "m_owner example_monitor = None"
    by (simp_all add: example_monitor_def new_SocketMonitor_def monitor_ok_def held_def)
  moreover have "fresh_sockets (world example_connected)" by (simp add: ini fresh_sockets_def example_answers_def)
  moreover have "filing_ok example_connected"
    by (simp add: filing_ok_def conns_ok_def ids_ok_def sessions_ok_def id_at_def ini c smap_ok_def)
  moreover have "links_ok (links_of example_connected) {4} {} {5}"
    by (auto simp: links_ok_def links_of_def addresses_def session_under_def ini c ran_def inj_on_def dom_def)
  ultimately have "initiator_ok 7 (example_connected, example_monitor)" by (simp add: initiator_ok_def m)
  moreover have "sound_sessions example_connected"
    using session_reachable_ok [OF example_reachable] by (simp add: sound_sessions_def example_connected_def new_SocketInitiator_def)
  moreover have "5 \<in> set (m_dropped example_monitor)" "filed_connection 5 example_connected = Some example_connection"
      "session_of example_connection example_connected = Some (0, m_sessionID example_session)"
    by (simp_all add: example_monitor_def example_connected_def filed_connection_def new_SocketInitiator_def session_of_def
        example_connection_def new_SocketConnection_def session_at_def)
  ultimately obtain ini' m' ys where "block 7 (connector_strategy 7) False [] (example_connected, example_monitor) = Some (Ok (), ini', m')"
      "isDisconnected (m_sessionID example_session) ini'" "closes m' = closes example_monitor @ m_dropped example_monitor @ ys"
    using dropped_sockets_reported_once [of 7 example_connected example_monitor 5 example_connection 0 "m_sessionID example_session" False "[]"] by blast
  then show ?thesis by (simp add: m)
qed

end
