(* ===== verification/Acceptors.thy ===== *)
theory Acceptors
  imports Transports
begin

text \<open>
  Acceptor.cpp, SocketAcceptor.cpp, SocketServer.cpp and the part of SocketConnection.cpp that serves them: listening sockets, accepted
  connections that wait for their first message, the binding of a connection to the session its Logon names, and the callbacks of the
  reactor. The port a listening socket is bound to is the kernel's answer \<open>bound_port\<close>. Starting and stopping the thread are not modelled.
\<close>

section \<open>State\<close>

definition MAX_PENDING_CONNECTIONS :: string where "MAX_PENDING_CONNECTIONS = ''MaxPendingConnections''"

record SocketInfo =
  i_socket :: socket_handle
  i_port :: "16 word"
  i_noDelay :: bool
  i_sendBufSize :: int
  i_rcvBufSize :: int

record SocketAcceptor = Transport +
  m_maxPendingConnections :: int
  m_lastPreSessionSweep :: int
  m_portToSessions :: "(16 word, (string, SessionID) smap) smap"
  m_sessionToPort :: "(string, 16 word) smap"
  m_socketToInfo :: "(socket_handle, SocketInfo) smap"
  m_portToInfo :: "(int, SocketInfo) smap"
  bound_port :: "socket_handle \<Rightarrow> 16 word"

type_synonym 'a acc = "(SocketAcceptor \<times> SocketMonitor, 'a) eff"

definition drop_in :: "nat \<Rightarrow> socket_handle \<Rightarrow> unit acc" where
  "drop_in self s = emodify (\<lambda>w. (fst w, snd (drop_socket self s (snd w))))"

section \<open>Acceptor.cpp\<close>

definition new_SocketAcceptor :: "Registry \<Rightarrow> SessionSettings \<Rightarrow> (socket_handle \<Rightarrow> 16 word) \<Rightarrow> (nat \<Rightarrow> Answers) \<Rightarrow> SocketAcceptor" where
  "new_SocketAcceptor r settings ports answers =
     \<lparr>registry = r, t_settings = settings, t_sessions = [], m_pendingConnections = [], m_connections = [],
      responders = Map.empty, world = answers, asked = 0, m_maxPendingConnections = 0, m_lastPreSessionSweep = 0,
      m_portToSessions = [], m_sessionToPort = [], m_socketToInfo = [], m_portToInfo = [], bound_port = ports\<rparr>"

definition max_pending :: "SessionSettings \<Rightarrow> int result" where
  "max_pending settings =
     (if dict_has MAX_PENDING_CONNECTIONS (m_defaults settings) then
        rbind (getInt MAX_PENDING_CONNECTIONS (m_defaults settings)) (\<lambda>n. if n < 0 then Throw ConfigError else Ok n)
      else Ok 0)"

definition accept_session :: "factory_env \<Rightarrow> SessionID \<Rightarrow> (dictionaries \<times> SocketAcceptor, unit) eff" where
  "accept_session env sid st =
     (case st of (c, acc) \<Rightarrow>
        (case rbind (settings_get sid (t_settings acc)) (\<lambda>d. rbind (dict_getString CONNECTION_TYPE False d) (\<lambda>t. Ok (d, t))) of
           Inl e \<Rightarrow> (Throw e, st)
         | Inr (d, t) \<Rightarrow>
             if t \<noteq> ''acceptor'' then (Ok (), st)
             else (case SessionFactory_create env sid d \<lparr>m_dictionaries = c, f_registry = registry acc\<rparr> of
                 (Inl e, f) \<Rightarrow> (Throw e, m_dictionaries f, acc\<lparr>registry := f_registry f\<rparr>)
               | (Inr p, f) \<Rightarrow>
                   (Ok (), m_dictionaries f,
                    acc\<lparr>registry := f_registry f, t_sessions := smap_put (m_frozenString sid) p (t_sessions acc)\<rparr>))))"

definition initialize_acceptor :: "factory_env \<Rightarrow> (dictionaries \<times> SocketAcceptor, unit) eff" where
  "initialize_acceptor env st =
     (let sessions = getSessions (t_settings (snd st)) in
      if sessions = [] then (Throw ConfigError, fst st, delete_sessions (snd st))
      else (case max_pending (t_settings (snd st)) of
          Inl e \<Rightarrow> (Throw e, fst st, delete_sessions (snd st))
        | Inr n \<Rightarrow>
            (case eseq (map (accept_session env) sessions) (fst st, (snd st)\<lparr>m_maxPendingConnections := n\<rparr>) of
               (Inl e, c, acc) \<Rightarrow> (Throw e, c, delete_sessions acc)
             | (Inr _, c, acc) \<Rightarrow>
                 if t_sessions acc = [] then (Throw ConfigError, c, delete_sessions acc) else (Ok (), c, acc))))"

text \<open>\<open>getSession(msg, responder)\<close>: the id a Logon is meant for, and the session with this id, whose responder becomes the
  connection under \<open>h\<close>.\<close>

definition logon_id :: "Message \<Rightarrow> SessionID option result" where
  "logon_id message =
     rbind (string_of_header message TAG_BeginString) (\<lambda>beginString.
     rbind (string_of_header message TAG_SenderCompID) (\<lambda>clSenderCompID.
     rbind (string_of_header message TAG_TargetCompID) (\<lambda>clTargetCompID.
     rbind (string_of_header message TAG_MsgType) (\<lambda>msgType.
     if msgType \<noteq> ''A'' then Ok None else Ok (Some (mk_SessionID beginString clTargetCompID clSenderCompID []))))))"

definition logon_session :: "string \<Rightarrow> SessionID option result" where
  "logon_session msg =
     rbind (decoded (setStringHeader msg new_Message)) (\<lambda>(ok, message).
       if \<not> ok then Ok None
       else case logon_id message of Inl (FieldNotFound _) \<Rightarrow> Ok None | x \<Rightarrow> x)"

definition acceptor_getSession :: "nat \<Rightarrow> string \<Rightarrow> socket_handle \<Rightarrow> nat option acc" where
  "acceptor_getSession self msg h =
     ebind (elift (logon_session msg)) (\<lambda>named.
       case named of
         None \<Rightarrow> eret None
       | Some sid \<Rightarrow>
           ebind (gets_transport (\<lambda>acc. smap_find (t_sessions acc) (m_frozenString sid))) (\<lambda>found.
             case found of
               None \<Rightarrow> eret None
             | Some p \<Rightarrow>
                 ebind (run_session self p (setResponder True)) (\<lambda>_.
                 ebind (modify_transport (\<lambda>acc. acc\<lparr>responders := (responders acc)(p \<mapsto> h)\<rparr>)) (\<lambda>_. eret (Some p)))))"

definition acceptor_isLoggedOn :: "SocketAcceptor \<Rightarrow> bool" where
  "acceptor_isLoggedOn acc =
     list_ex (\<lambda>e. case session_at (snd e) acc of None \<Rightarrow> False | Some s \<Rightarrow> isLoggedOn s) (t_sessions acc)"

section \<open>SocketServer.cpp\<close>

text \<open>\<open>add\<close>: a port that is already listened on is shared. The \<open>SocketException\<close> of a socket that cannot be made is turned into a
  \<open>RuntimeError\<close> by its only caller, \<open>onInitialize\<close>.\<close>

definition server_add :: "16 word \<Rightarrow> bool \<Rightarrow> int \<Rightarrow> int \<Rightarrow> socket_handle acc" where
  "server_add portNumber nodelay sendBufSize rcvBufSize w =
     (case w of (acc, m) \<Rightarrow>
        (case smap_find (m_portToInfo acc) (uint portNumber) of
           Some info \<Rightarrow> (Ok (i_socket info), w)
         | None \<Rightarrow>
             let s = new_socket (world acc (asked acc)) (held m);
                 acc = acc\<lparr>asked := asked acc + 1\<rparr>;
                 info = \<lparr>i_socket = s, i_port = portNumber, i_noDelay = nodelay, i_sendBufSize = sendBufSize, i_rcvBufSize = rcvBufSize\<rparr> in
             if s = INVALID_SOCKET_HANDLE then (Throw RuntimeError, acc, m)
             else (Ok s, acc\<lparr>m_socketToInfo := smap_put s info (m_socketToInfo acc), m_portToInfo := smap_put (uint portNumber) info (m_portToInfo acc)\<rparr>,
                   snd (addRead s m))))"

definition server_accept :: "socket_handle acc" where
  "server_accept w =
     (case w of (acc, m) \<Rightarrow>
        let s = new_socket (world acc (asked acc)) (held m);
            acc = acc\<lparr>asked := asked acc + 1\<rparr> in
        if s \<noteq> INVALID_SOCKET_HANDLE then (Ok s, acc, snd (addConnect s m)) else (Ok s, acc, m))"

definition isListener :: "socket_handle \<Rightarrow> SocketAcceptor \<Rightarrow> bool" where
  "isListener s acc = (smap_find (m_socketToInfo acc) s \<noteq> None)"

definition server_close :: "nat \<Rightarrow> unit acc" where
  "server_close self =
     ebind (gets_transport m_socketToInfo) (\<lambda>listeners.
     ebind (eseq (map (\<lambda>e. drop_in self (fst e)) listeners)) (\<lambda>_.
     modify_transport (\<lambda>acc. acc\<lparr>m_socketToInfo := [], m_portToInfo := []\<rparr>)))"

definition socketToPort :: "socket_handle \<Rightarrow> SocketAcceptor \<Rightarrow> int" where
  "socketToPort s acc = (case smap_find (m_socketToInfo acc) s of None \<Rightarrow> 0 | Some info \<Rightarrow> uint (i_port info))"

definition portToSocket :: "int \<Rightarrow> SocketAcceptor \<Rightarrow> socket_handle" where
  "portToSocket portNumber acc = (case smap_find (m_portToInfo acc) portNumber of None \<Rightarrow> 0 | Some info \<Rightarrow> i_socket info)"

definition socket_isValid :: "socket_handle \<Rightarrow> bool" where
  "socket_isValid s = (0 \<le> s)"

section \<open>SocketAcceptor.cpp\<close>

definition acceptor_onConfigure :: "SessionSettings \<Rightarrow> unit result" where
  "acceptor_onConfigure settings =
     rbind (each (\<lambda>sid. rbind (settings_get sid settings) (\<lambda>d. rbind (getPortSetting d SOCKET_ACCEPT_PORT True) (\<lambda>_.
              if dict_has SOCKET_REUSE_ADDRESS d then rbind (getBool SOCKET_REUSE_ADDRESS d) (\<lambda>_. Ok ()) else Ok ()))) (getSessions settings)) (\<lambda>_.
     rbind (rejectSocketQueuedWrites settings) (\<lambda>_. checkSocketOptionsPerPort settings))"

definition listen_for :: "SessionID \<Rightarrow> unit acc" where
  "listen_for sid =
     ebind (gets_transport (\<lambda>acc. settings_get sid (t_settings acc))) (\<lambda>found.
     ebind (elift found) (\<lambda>d.
     ebind (elift (getPortSetting d SOCKET_ACCEPT_PORT True)) (\<lambda>portNumber.
     ebind (elift (if dict_has SOCKET_REUSE_ADDRESS d then getBool SOCKET_REUSE_ADDRESS d else Ok True)) (\<lambda>_.
     ebind (elift (getSocketNoDelay d)) (\<lambda>nodelay.
     ebind (elift (getSocketBufferSize d SOCKET_SEND_BUFFER_SIZE)) (\<lambda>sendBufSize.
     ebind (elift (getSocketBufferSize d SOCKET_RECEIVE_BUFFER_SIZE)) (\<lambda>rcvBufSize.
     ebind (server_add portNumber nodelay sendBufSize rcvBufSize) (\<lambda>s.
     modify_transport (\<lambda>acc.
       let portNumber = bound_port acc s;
           sids = (case smap_find (m_portToSessions acc) portNumber of None \<Rightarrow> [] | Some sids \<Rightarrow> sids) in
       acc\<lparr>m_portToSessions := smap_put portNumber (smap_put (m_frozenString sid) sid sids) (m_portToSessions acc),
           m_sessionToPort := smap_put (m_frozenString sid) portNumber (m_sessionToPort acc)\<rparr>)))))))))"

text \<open>The state begins with the monitor of a new server. When a socket cannot be made the server is deleted, and its tables with it.\<close>

definition acceptor_onInitialize :: "unit acc" where
  "acceptor_onInitialize =
     ebind (gets_transport (\<lambda>acc. getSessions (t_settings acc))) (\<lambda>sessions.
     ecatch (eseq (map listen_for sessions))
       (\<lambda>e. if e = RuntimeError
            then ebind (modify_transport (\<lambda>acc. acc\<lparr>m_socketToInfo := [], m_portToInfo := []\<rparr>)) (\<lambda>_. ethrow e)
            else ethrow e))"

definition receivedLogon :: "Session \<Rightarrow> bool" where
  "receivedLogon s = m_receivedLogon (m_state s)"

definition waiting :: "SocketAcceptor \<Rightarrow> SocketConnection \<Rightarrow> bool" where
  "waiting acc c =
     (case m_pSession c of
        None \<Rightarrow> True
      | Some p \<Rightarrow> (case session_at p acc of None \<Rightarrow> True | Some s \<Rightarrow> \<not> receivedLogon s))"

definition pendingConnections :: "SocketAcceptor \<Rightarrow> nat" where
  "pendingConnections acc = length (filter (\<lambda>e. waiting acc (snd e)) (m_connections acc))"

definition file_accepted :: "socket_handle \<Rightarrow> socket_handle \<Rightarrow> unit acc" where
  "file_accepted a s =
     ebind (ask (\<lambda>an. (wall_now an, takes an))) (\<lambda>(now, takes').
     modify_transport (\<lambda>acc.
       let portNumber = bound_port acc a;
           sids = (case smap_find (m_portToSessions acc) portNumber of None \<Rightarrow> [] | Some sids \<Rightarrow> sids) in
       acc\<lparr>m_portToSessions := smap_put portNumber sids (m_portToSessions acc),
           m_connections := smap_put s (new_SocketConnection takes' now s (map snd sids) None) (m_connections acc)\<rparr>))"

definition acceptor_onConnect :: "nat \<Rightarrow> socket_handle \<Rightarrow> socket_handle \<Rightarrow> unit acc" where
  "acceptor_onConnect self a s =
     (if \<not> socket_isValid s then eret ()
      else ebind (gets_transport (\<lambda>acc. smap_find (m_connections acc) s)) (\<lambda>found.
        if found \<noteq> None then eret ()
        else ebind (gets_transport (\<lambda>acc. 0 < m_maxPendingConnections acc \<and> m_maxPendingConnections acc \<le> int (pendingConnections acc))) (\<lambda>full.
          if full then drop_in self s else file_accepted a s)))"

definition acceptor_onWrite :: "socket_handle \<Rightarrow> unit acc" where
  "acceptor_onWrite h w =
     (case smap_find (m_connections (fst w)) h of
        None \<Rightarrow> (Ok (), w)
      | Some _ \<Rightarrow> (Ok (), on_connection h write_connection w))"

text \<open>The body of \<open>onDisconnect\<close>, and the destructor of the connection.\<close>

definition disconnect_bound :: "nat \<Rightarrow> SocketConnection \<Rightarrow> unit acc" where
  "disconnect_bound self c = (case m_pSession c of None \<Rightarrow> eret () | Some p \<Rightarrow> run_session self p disconnect)"

definition delete_connection :: "SocketConnection \<Rightarrow> unit acc" where
  "delete_connection c =
     modify_transport (\<lambda>acc. case session_of c acc of None \<Rightarrow> acc | Some (p, sid) \<Rightarrow> acc\<lparr>registry := unregisterSession sid (registry acc)\<rparr>)"

definition acceptor_onDisconnect :: "nat \<Rightarrow> socket_handle \<Rightarrow> unit acc" where
  "acceptor_onDisconnect self s =
     ebind (gets_transport (\<lambda>acc. smap_find (m_connections acc) s)) (\<lambda>found.
       case found of
         None \<Rightarrow> eret ()
       | Some c \<Rightarrow>
           ebind (disconnect_bound self c) (\<lambda>_.
           ebind (delete_connection c) (\<lambda>_.
           modify_transport (\<lambda>acc. acc\<lparr>m_connections := smap_erase s (m_connections acc)\<rparr>))))"

definition acceptor_onTimeout :: "nat \<Rightarrow> unit acc" where
  "acceptor_onTimeout self =
     ebind (gets_transport m_connections) (\<lambda>connections. eseq (map (\<lambda>e. connection_timeout self (snd e)) connections))"

text \<open>Once in a second the timers run, and what has not logged on within ten seconds is dropped.\<close>

definition overdue :: "int \<Rightarrow> SocketAcceptor \<Rightarrow> SocketConnection \<Rightarrow> bool" where
  "overdue now acc c = (waiting acc c \<and> getSecondsFromSetupStart now c > 10)"

definition drop_overdue :: "nat \<Rightarrow> int \<Rightarrow> unit acc" where
  "drop_overdue self now =
     ebind (gets_transport (\<lambda>acc. filter (\<lambda>e. overdue now acc (snd e)) (m_connections acc))) (\<lambda>entries.
     eseq (map (\<lambda>e. drop_in self (fst e)) entries))"

definition expirePendingReads :: "nat \<Rightarrow> unit acc" where
  "expirePendingReads self =
     ebind (gets_transport m_connections) (\<lambda>connections.
       if connections = [] then eret ()
       else ebind (ask wall_now) (\<lambda>now.
            ebind (gets_transport m_lastPreSessionSweep) (\<lambda>lastSweep.
              if now = lastSweep then eret ()
              else ebind (modify_transport (\<lambda>acc. acc\<lparr>m_lastPreSessionSweep := now\<rparr>)) (\<lambda>_.
                   ebind (acceptor_onTimeout self) (\<lambda>_. drop_overdue self now)))))"

definition disconnectRemaining :: "nat \<Rightarrow> unit acc" where
  "disconnectRemaining self =
     ebind (gets_transport m_connections) (\<lambda>connections.
     ebind (eseq (map (\<lambda>e. ebind (disconnect_bound self (snd e)) (\<lambda>_. delete_connection (snd e))) connections)) (\<lambda>_.
     modify_transport (\<lambda>acc. acc\<lparr>m_connections := []\<rparr>)))"

section \<open>The first message of a connection\<close>

definition set_session :: "socket_handle \<Rightarrow> nat option \<Rightarrow> unit acc" where
  "set_session h session = emodify (on_connection h (\<lambda>(c, m). (c\<lparr>m_pSession := session\<rparr>, m)))"

definition isValidSession :: "SocketConnection \<Rightarrow> SocketAcceptor \<Rightarrow> bool" where
  "isValidSession c acc =
     (case session_of c acc of
        None \<Rightarrow> False
      | Some (p, sid) \<Rightarrow>
          \<not> isSessionRegistered sid (registry acc) \<and> list_ex (\<lambda>sid'. m_frozenString sid' = m_frozenString sid) (m_sessions c))"

definition isAcceptor :: "Session \<Rightarrow> bool" where
  "isAcceptor s = (\<not> m_initiate (m_state s))"

text \<open>The list of allowed addresses, read before the session sees anything of the peer.\<close>

definition peer_denied :: "nat \<Rightarrow> bool acc" where
  "peer_denied p =
     ebind (gets_transport (session_at p)) (\<lambda>session.
       case session of
         None \<Rightarrow> ethrow StdException
       | Some s \<Rightarrow>
           if \<not> isAcceptor s then eret False
           else ebind (ask peername) (\<lambda>remote_address.
                eret (m_allowedRemoteAddresses s \<noteq> [] \<and> \<not> inAllowedRemoteAddresses remote_address s)))"

definition register_bound :: "nat \<Rightarrow> unit acc" where
  "register_bound p =
     modify_transport (\<lambda>acc. case session_at p acc of None \<Rightarrow> acc
       | Some s \<Rightarrow> acc\<lparr>registry := snd (registerSession (m_sessionID s) (registry acc))\<rparr>)"

definition bind_session :: "nat \<Rightarrow> socket_handle \<Rightarrow> SocketConnection \<Rightarrow> string \<Rightarrow> nat option acc" where
  "bind_session self h c msg =
     ebind (gets_transport (\<lambda>acc. lookupSession_string msg True (registry acc))) (\<lambda>looked.
     ebind (elift looked) (\<lambda>found.
     ebind (set_session h found) (\<lambda>_.
     ebind (gets_transport (isValidSession (c\<lparr>m_pSession := found\<rparr>))) (\<lambda>valid.
     ebind (if valid then acceptor_getSession self msg h else eret None) (\<lambda>session.
     ebind (set_session h session) (\<lambda>_. eret session))))))"

text \<open>The rest of the first message: the check of the address, the session's turn, and the registration.\<close>

definition greet :: "nat \<Rightarrow> socket_handle \<Rightarrow> nat \<Rightarrow> string \<Rightarrow> bool acc" where
  "greet self h p msg =
     ebind (peer_denied p) (\<lambda>denied.
       if denied then ebind (drop_in self h) (\<lambda>_. eret False)
       else ebind (ask utc_now) (\<lambda>now.
            ebind (run_session self p (next_string msg now)) (\<lambda>_.
            ebind (register_bound p) (\<lambda>_. eret True))))"

definition first_message :: "nat \<Rightarrow> socket_handle \<Rightarrow> SocketConnection \<Rightarrow> string \<Rightarrow> bool acc" where
  "first_message self h c msg =
     ebind (bind_session self h c msg) (\<lambda>session.
       case session of
         None \<Rightarrow> ebind (drop_in self h) (\<lambda>_. eret False)
       | Some p \<Rightarrow> greet self h p msg)"

text \<open>\<open>read(SocketAcceptor &, SocketServer &)\<close>.\<close>

definition read_stream :: "nat \<Rightarrow> socket_handle \<Rightarrow> SocketConnection \<Rightarrow> Parser \<Rightarrow> bool acc" where
  "read_stream self h c parser =
     (case m_pSession c of
        Some p \<Rightarrow> ebind (readMessages self h p [] parser) (\<lambda>_. eret True)
      | None \<Rightarrow>
          (case readMessage [] parser of
             (complete, msg, parser) \<Rightarrow>
               ebind (set_parser h parser) (\<lambda>_. if \<not> complete then eret True else first_message self h c msg)))"

definition read_accepted :: "nat \<Rightarrow> socket_handle \<Rightarrow> SocketConnection \<Rightarrow> bool acc" where
  "read_accepted self h c =
     ebind (ask received) (\<lambda>bytes.
       case bytes of
         None \<Rightarrow> ebind (drop_in self h) (\<lambda>_. eret False)
       | Some bytes \<Rightarrow>
           ecatch
             (ebind (elift (addToStream bytes (m_parser c))) (\<lambda>parser.
              ebind (set_parser h parser) (\<lambda>_. read_stream self h c parser)))
             (\<lambda>e. if e = InvalidMessage \<or> e = MessageParseError then ebind (drop_in self h) (\<lambda>_. eret False) else ethrow e))"

definition acceptor_onData :: "nat \<Rightarrow> socket_handle \<Rightarrow> bool acc" where
  "acceptor_onData self h =
     ebind (gets_transport (\<lambda>acc. smap_find (m_connections acc) h)) (\<lambda>found.
       case found of None \<Rightarrow> eret False | Some c \<Rightarrow> read_accepted self h c)"

section \<open>The strategy of the server\<close>

text \<open>\<open>ServerWrapper\<close> on top of \<open>SocketAcceptor\<close>.\<close>

definition server_onError :: "nat \<Rightarrow> socket_handle \<Rightarrow> unit acc" where
  "server_onError self s = ebind (acceptor_onDisconnect self s) (\<lambda>_. drop_in self s)"

definition server_onEvent :: "nat \<Rightarrow> socket_handle \<Rightarrow> unit acc" where
  "server_onEvent self s =
     ebind (gets_transport (isListener s)) (\<lambda>listener.
       if listener then ebind server_accept (\<lambda>accepted. acceptor_onConnect self s accepted)
       else ebind (acceptor_onData self s) (\<lambda>ok. ewhen (\<not> ok) (server_onError self s)))"

definition server_strategy :: "nat \<Rightarrow> SocketAcceptor Strategy" where
  "server_strategy self =
     \<lparr>onConnect = \<lambda>_. eret (), onWrite = acceptor_onWrite, onEvent = server_onEvent self, onError = server_onError self,
      onErrorAll = eret (), onTimeout = acceptor_onTimeout self\<rparr>"

text \<open>\<open>SocketServer::block\<close>: false when a listening socket is no valid number.\<close>

definition server_block :: "nat \<Rightarrow> bool \<Rightarrow> (int \<times> poll_answer) list \<Rightarrow> SocketAcceptor \<times> SocketMonitor \<Rightarrow>
    (bool result \<times> SocketAcceptor \<times> SocketMonitor) option" where
  "server_block self should_poll answers w =
     (if list_ex (\<lambda>e. \<not> socket_isValid (fst e)) (m_socketToInfo (fst w)) then Some (Ok False, w)
      else map_option (\<lambda>(x, w). (map_sum id (\<lambda>_. True) x, w)) (block self (server_strategy self) should_poll answers w))"

text \<open>One turn of the loop of \<open>onStart\<close> (\<open>should_poll\<close> false) or a call of \<open>onPoll\<close> (true) while the acceptor runs. It answers
  whether the loop goes on; \<open>onPoll\<close> does not look at the answer of \<open>block\<close>.\<close>

definition acceptor_turn :: "nat \<Rightarrow> bool \<Rightarrow> (int \<times> poll_answer) list \<Rightarrow> SocketAcceptor \<times> SocketMonitor \<Rightarrow>
    (bool result \<times> SocketAcceptor \<times> SocketMonitor) option" where
  "acceptor_turn self should_poll answers w =
     (case server_block self should_poll answers w of
        None \<Rightarrow> None
      | Some (Inl e, w) \<Rightarrow> Some (Throw e, w)
      | Some (Inr goes_on, w) \<Rightarrow>
          Some (if should_poll \<or> goes_on then ebind (expirePendingReads self) (\<lambda>_. eret True) w else (Ok False, w)))"

end
