(* ===== verification/AcceptorInvariants.thy ===== *)
theory AcceptorInvariants
  imports Acceptors TransportFrames
begin

text \<open>
  The invariant of an acceptor: no two connections are bound to one session, a bound session is registered and was
  meant for the port of its connection, and every connection has a socket that the monitor watches or is about to report. While a
  connection reads its first message it is exempt: its session is not registered yet.
\<close>

section \<open>The invariant\<close>

definition open_sockets :: "SocketMonitor \<Rightarrow> socket_handle set" where
  "open_sockets m = m_readSockets m \<union> m_connectSockets m \<union> set (m_dropped m)"

definition listed :: "SessionID \<Rightarrow> SessionID list \<Rightarrow> bool" where
  "listed sid sids = list_ex (\<lambda>sid'. m_frozenString sid' = m_frozenString sid) sids"

definition bound_ok :: "bool \<Rightarrow> Registry \<Rightarrow> nat \<Rightarrow> SessionID list \<Rightarrow> bool" where
  "bound_ok exempt r p sids =
     (case id_of r p of
        None \<Rightarrow> False
      | Some sid \<Rightarrow> if exempt then \<not> isSessionRegistered sid r else isSessionRegistered sid r \<and> listed sid sids)"

definition binds_ok :: "socket_handle set \<Rightarrow> (socket_handle \<rightharpoonup> socket_handle \<times> nat option \<times> SessionID list) \<Rightarrow> Registry \<Rightarrow> socket_handle set \<Rightarrow> bool" where
  "binds_ok E K r os =
     ((\<forall>h s q sids. K h = Some (s, q, sids) \<longrightarrow> s = h \<and> h \<in> os) \<and>
      (\<forall>h s p sids. K h = Some (s, Some p, sids) \<longrightarrow> bound_ok (h \<in> E) r p sids) \<and>
      (\<forall>h h' s s' p sids sids'. K h = Some (s, Some p, sids) \<longrightarrow> K h' = Some (s', Some p, sids') \<longrightarrow> h = h'))"

lemma binds_okI:
  assumes "\<And>h s q sids. K h = Some (s, q, sids) \<Longrightarrow> s = h \<and> h \<in> os"
    and "\<And>h s p sids. K h = Some (s, Some p, sids) \<Longrightarrow> bound_ok (h \<in> E) r p sids"
    and "\<And>h h' s s' p sids sids'. K h = Some (s, Some p, sids) \<Longrightarrow> K h' = Some (s', Some p, sids') \<Longrightarrow> h = h'"
  shows "binds_ok E K r os"
  unfolding binds_ok_def using assms by blast

lemma binds_okD:
  assumes "binds_ok E K r os"
  shows "K h = Some (s, q, sids) \<Longrightarrow> s = h \<and> h \<in> os" "K h = Some (s, Some p, sids) \<Longrightarrow> bound_ok (h \<in> E) r p sids"
    "K h = Some (s, Some p, sids) \<Longrightarrow> K h' = Some (s', Some p, sids') \<Longrightarrow> h = h'"
  using assms unfolding binds_ok_def by blast+

definition sessions_filed :: "'t Transport_scheme \<Rightarrow> bool" where
  "sessions_filed t = (\<forall>k p. smap_find (t_sessions t) k = Some p \<longrightarrow> (\<exists>sid. id_of (registry t) p = Some sid \<and> m_frozenString sid = k))"

definition acceptor_but :: "socket_handle set \<Rightarrow> nat \<Rightarrow> SocketAcceptor \<times> SocketMonitor \<Rightarrow> bool" where
  "acceptor_but E self w =
     (case w of (acc, m) \<Rightarrow>
        monitor_ok m \<and> INVALID_SOCKET_HANDLE \<notin> held m \<and> m_owner m \<in> {None, Some self} \<and> fresh_sockets (world acc) \<and>
        registry_ok (registry acc) \<and> smaps_ok acc \<and> sessions_filed acc \<and>
        binds_ok E (known (m_connections acc)) (registry acc) (open_sockets m))"

abbreviation acceptor_ok :: "nat \<Rightarrow> SocketAcceptor \<times> SocketMonitor \<Rightarrow> bool" where
  "acceptor_ok \<equiv> acceptor_but {}"

lemma acceptor_butD:
  assumes "acceptor_but E self (acc, m)"
  shows "monitor_ok m" "INVALID_SOCKET_HANDLE \<notin> held m" "m_owner m = None \<or> m_owner m = Some self" "fresh_sockets (world acc)"
    "registry_ok (registry acc)" "smaps_ok acc" "sessions_filed acc" "binds_ok E (known (m_connections acc)) (registry acc) (open_sockets m)"
  using assms by (auto simp: acceptor_but_def)

lemma shrinks_open: "shrinks m m' \<Longrightarrow> monitor_ok m \<Longrightarrow> open_sockets m' = open_sockets m"
  using shrinks_moves [of m m'] by (auto simp: open_sockets_def)

lemma same_registry_fields:
  assumes "same_registry r r'"
  shows "s_sessions r' = s_sessions r" "s_registered r' = s_registered r" "s_sessionIDs r' = s_sessionIDs r" "next_address r' = next_address r"
    "id_of r' = id_of r" "isSessionRegistered sid r' = isSessionRegistered sid r" "lookupSession sid r' = lookupSession sid r"
proof -
  obtain os where "r' = r\<lparr>objects := os\<rparr>" using assms by (auto simp: same_registry_def)
  then show "s_sessions r' = s_sessions r" "s_registered r' = s_registered r" "s_sessionIDs r' = s_sessionIDs r" "next_address r' = next_address r"
    "isSessionRegistered sid r' = isSessionRegistered sid r" "lookupSession sid r' = lookupSession sid r"
    by (simp_all add: isSessionRegistered_def lookupSession_def)
  show "id_of r' = id_of r" using assms by (simp add: same_registry_def)
qed

lemma id_of_Some: "id_of r p = Some sid \<longleftrightarrow> (\<exists>s. objects r p = Some s \<and> m_sessionID s = sid)"
  by (auto simp: id_of_def)

lemma same_registry_ok:
  assumes "same_registry r r'" "registry_ok r"
  shows "registry_ok r'"
proof -
  note f = same_registry_fields [OF assms(1)]
  have ids: "(\<exists>s. objects r' p = Some s \<and> m_sessionID s = sid) \<longleftrightarrow> (\<exists>s. objects r p = Some s \<and> m_sessionID s = sid)" for p sid
    using f(5) id_of_Some by metis
  show ?thesis
  proof (rule registry_okI, goal_cases)
    case (4 k sid p)
    then obtain s where "objects r p = Some s" "m_sessionID s = sid" "k = m_frozenString sid" using registry_session [OF assms(2)] f(1) by metis
    then show ?case using ids by blast
  next
    case (5 p s)
    then obtain s0 where "objects r p = Some s0" "m_sessionID s0 = m_sessionID s" using ids by blast
    then show ?case using registry_object [OF assms(2)] f(1,4) by metis
  next
    case (6 k sid p)
    then show ?case using registry_registered [OF assms(2)] f(1,2) by metis
  qed (use registry_maps [OF assms(2)] f in simp_all)
qed

lemma acceptor_resembles:
  assumes "acceptor_but E self w" "resembles w w'"
  shows "acceptor_but E self w'"
proof -
  obtain acc m acc' m' where w: "w = (acc, m)" "w' = (acc', m')" by (cases w; cases w')
  note d = acceptor_butD [OF assms(1) [unfolded w]]
  have r: "same_registry (registry acc) (registry acc')" "t_sessions acc' = t_sessions acc" "world acc' = world acc"
    "known (m_connections acc') = known (m_connections acc)" "smaps_ok acc'" "shrinks m m'"
    using assms(2) by (simp_all add: w resembles_def)
  note f = same_registry_fields [OF r(1)]
  have "binds_ok E (known (m_connections acc')) (registry acc') (open_sockets m')"
    using d(8) unfolding binds_ok_def bound_ok_def r(4) f shrinks_open [OF r(6) d(1)] by blast
  moreover have "sessions_filed acc'" using d(7) unfolding sessions_filed_def r(2) f(5) .
  ultimately show ?thesis
    using d shrinks_held [OF r(6) d(1)] shrinks_ok [OF r(6) d(1)] same_registry_ok [OF r(1) d(5)] r by (simp add: w acceptor_but_def)
qed

text \<open>The connection under \<open>h\<close> has just been bound to the session at \<open>p\<close>.\<close>

definition binding :: "socket_handle \<Rightarrow> nat \<Rightarrow> SessionID list \<Rightarrow> nat \<Rightarrow> SocketAcceptor \<times> SocketMonitor \<Rightarrow> bool" where
  "binding h p sids self w =
     (acceptor_but {h} self w \<and> known (m_connections (fst w)) h = Some (h, Some p, sids) \<and>
      (\<exists>sid. id_of (registry (fst w)) p = Some sid \<and> listed sid sids))"

interpretation accepting: transport_invariant "acceptor_but E self" for E self
proof unfold_locales
  show "acceptor_but E self w \<Longrightarrow> smaps_ok (fst w)" for w by (cases w) (simp add: acceptor_but_def)
qed (rule acceptor_resembles)

interpretation binding: transport_invariant "binding h p sids self" for h p sids self
proof unfold_locales
  show "binding h p sids self w \<Longrightarrow> smaps_ok (fst w)" for w unfolding binding_def using accepting.maps_ok by blast
  show "binding h p sids self w \<Longrightarrow> resembles w w' \<Longrightarrow> binding h p sids self w'" for w w'
    using acceptor_resembles [of "{h}" self w w'] same_registry_fields(5) by (cases w; cases w') (auto simp: binding_def resembles_def)
qed

section \<open>Ending a connection\<close>

lemma known_put_at: "smap_ok cs \<Longrightarrow> known (smap_put h c cs) = (known cs)(h \<mapsto> (m_socket c, m_pSession c, m_sessions c))"
  by (auto simp: known_def fun_eq_iff)

lemma known_erase: "known (smap_erase h cs) = (known cs)(h := None)"
  by (auto simp: known_def fun_eq_iff)

text \<open>The ids of two live sessions differ.\<close>

lemma ids_differ:
  assumes "registry_ok r" "id_of r p = Some sid" "id_of r q = Some sid'" "m_frozenString sid = m_frozenString sid'"
  shows "p = q"
proof -
  obtain s s' where "objects r p = Some s" "objects r q = Some s'" "m_sessionID s = sid" "m_sessionID s' = sid'"
    using assms(2,3) by (auto simp: id_of_def)
  then show ?thesis using registry_object [OF assms(1), of p s] registry_object [OF assms(1), of q s'] assms(4) by auto
qed

lemma unregister_fields:
  "id_of (unregisterSession sid r) = id_of r"
  "isSessionRegistered sid' (unregisterSession sid r) \<longleftrightarrow> isSessionRegistered sid' r \<and> m_frozenString sid' \<noteq> m_frozenString sid"
  by (auto simp: unregisterSession_def id_of_def isSessionRegistered_def fun_eq_iff)

lemma binds_ok_erase:
  assumes b: "binds_ok E K r os" and E: "E \<subseteq> {h}"
  shows "binds_ok {} (K(h := None)) r os"
proof (rule binds_okI)
  fix h' s p sids
  assume "(K(h := None)) h' = Some (s, Some p, sids)"
  then have "K h' = Some (s, Some p, sids)" "h' \<notin> E" using E by (auto split: if_splits)
  then show "bound_ok (h' \<in> {}) r p sids" using binds_okD(2) [OF b, of h' s p sids] by simp
qed (auto dest: binds_okD [OF b] split: if_splits)

lemma binds_ok_unregister:
  assumes b: "binds_ok E K r os" and r: "registry_ok r" and E: "E \<subseteq> {h}" and K: "K h = Some (s, Some p, sids)" and sid: "id_of r p = Some sid"
  shows "binds_ok {} (K(h := None)) (unregisterSession sid r) os"
proof (rule binds_okI)
  note b' = binds_ok_erase [OF b E]
  fix h' s' q sids'
  assume q: "(K(h := None)) h' = Some (s', Some q, sids')"
  then obtain sid' where sid': "id_of r q = Some sid'" "isSessionRegistered sid' r" "listed sid' sids'"
    using binds_okD(2) [OF b' q] by (auto simp: bound_ok_def split: option.splits)
  have "q \<noteq> p" using binds_okD(3) [OF b K, of h' s' sids'] q by (auto split: if_splits)
  then have "m_frozenString sid' \<noteq> m_frozenString sid" using ids_differ [OF r sid'(1) sid] by blast
  then show "bound_ok (h' \<in> {}) (unregisterSession sid r) q sids'" using sid' by (simp add: bound_ok_def unregister_fields)
next
  note b' = binds_ok_erase [OF b E]
  show "(K(h := None)) h' = Some (s', q, sids') \<Longrightarrow> s' = h' \<and> h' \<in> os" for h' s' q sids' by (rule binds_okD(1) [OF b'])
  show "(K(h := None)) h1 = Some (s1, Some q, sids1) \<Longrightarrow> (K(h := None)) h2 = Some (s2, Some q, sids2) \<Longrightarrow> h1 = h2" for h1 s1 q sids1 h2 s2 sids2
    by (rule binds_okD(3) [OF b'])
qed

lemma delete_outcome:
  assumes ok: "acceptor_but E self (acc, m)" and E: "E \<subseteq> {h}" and h: "known (m_connections acc) h = Some (h, m_pSession c, sids)"
  shows "\<exists>acc'. ebind (delete_connection c) (\<lambda>_. modify_transport (\<lambda>acc. acc\<lparr>m_connections := smap_erase h (m_connections acc)\<rparr>)) (acc, m) = (Ok (), acc', m) \<and>
    acceptor_ok self (acc', m) \<and> known (m_connections acc') = (known (m_connections acc))(h := None)"
proof -
  note d = acceptor_butD [OF ok]
  let ?r = "case session_of c acc of None \<Rightarrow> registry acc | Some (p, sid) \<Rightarrow> unregisterSession sid (registry acc)"
  let ?acc = "acc\<lparr>registry := ?r, m_connections := smap_erase h (m_connections acc)\<rparr>"
  have run: "ebind (delete_connection c) (\<lambda>_. modify_transport (\<lambda>acc. acc\<lparr>m_connections := smap_erase h (m_connections acc)\<rparr>)) (acc, m) = (Ok (), ?acc, m)"
    by (simp add: delete_connection_def modify_transport_def ebind_def emodify_def split: option.split prod.split)
  have K: "known (m_connections ?acc) = (known (m_connections acc))(h := None)" by (simp add: known_erase)
  have ids: "id_of ?r = id_of (registry acc)" by (auto simp: unregister_fields split: option.split prod.split)
  have "registry_ok ?r" using d(5) registry_ok_unregister by (auto split: option.split prod.split)
  moreover have "binds_ok {} (known (m_connections ?acc)) ?r (open_sockets m)"
  proof (cases "session_of c acc")
    case None
    then show ?thesis using binds_ok_erase [OF d(8) E] K by simp
  next
    case (Some e)
    obtain p sid where p: "session_of c acc = Some (p, sid)" using Some by (cases e) simp
    then have p: "session_of c acc = Some (p, sid)" "m_pSession c = Some p" "id_of (registry acc) p = Some sid"
      by (auto simp: session_of_def session_at_def id_of_def split: option.splits)
    then show ?thesis using binds_ok_unregister [OF d(8,5) E _ p(3)] h K by simp
  qed
  moreover have "sessions_filed ?acc" using d(7) ids by (simp add: sessions_filed_def)
  moreover have "smaps_ok ?acc" using d(6) by (simp add: smaps_ok_def)
  ultimately have "acceptor_ok self (?acc, m)" using d by (simp add: acceptor_but_def)
  then show ?thesis using run K by blast
qed

lemma disconnect_bound_resembles: "smaps_ok (fst w) \<Longrightarrow> resembles w (snd (disconnect_bound self c w))"
  by (cases "m_pSession c") (simp_all add: disconnect_bound_def eret_def resembles_refl run_session_resembles keeps_id_calls)

lemma acceptor_onDisconnect_ok:
  assumes ok: "acceptor_but E self (acc, m)" and E: "E \<subseteq> {s}" and run: "acceptor_onDisconnect self s (acc, m) = (x, acc', m')"
  shows "shrinks m m'" "x = Ok () \<Longrightarrow> acceptor_ok self (acc', m') \<and> known (m_connections acc') = (known (m_connections acc))(s := None)"
proof -
  note d = acceptor_butD [OF ok]
  have "shrinks m m' \<and> (x = Ok () \<longrightarrow> acceptor_ok self (acc', m') \<and> known (m_connections acc') = (known (m_connections acc))(s := None))"
  proof (cases "smap_find (m_connections acc) s")
    case None
    then have K: "known (m_connections acc) s = None" by (simp add: known_def)
    then have "(known (m_connections acc))(s := None) = known (m_connections acc)" by auto
    then have "acceptor_ok self (acc, m)" using d binds_ok_erase [OF d(8) E] by (simp add: acceptor_but_def)
    then show ?thesis using run None K by (auto simp: acceptor_onDisconnect_def gets_transport_def ebind_def egets_def eret_def shrinks.stays)
  next
    case (Some c)
    obtain y acc1 m1 where dis: "disconnect_bound self c (acc, m) = (y, acc1, m1)" by (cases "disconnect_bound self c (acc, m)") auto
    have r: "resembles (acc, m) (acc1, m1)" using disconnect_bound_resembles [of "(acc, m)" self c] d(6) dis by simp
    have ok1: "acceptor_but E self (acc1, m1)" by (rule acceptor_resembles [OF ok r])
    have K: "known (m_connections acc1) = known (m_connections acc)" and shr: "shrinks m m1" using r by (simp_all add: resembles_def)
    have "m_socket c = s" using binds_okD(1) [OF d(8), of s] Some by (simp add: known_def)
    then have "known (m_connections acc1) s = Some (s, m_pSession c, m_sessions c)" using Some K by (simp add: known_def)
    from delete_outcome [OF ok1 E this] obtain acc2 where
      del: "ebind (delete_connection c) (\<lambda>_. modify_transport (\<lambda>acc. acc\<lparr>m_connections := smap_erase s (m_connections acc)\<rparr>)) (acc1, m1) = (Ok (), acc2, m1)"
        "acceptor_ok self (acc2, m1)" "known (m_connections acc2) = (known (m_connections acc1))(s := None)" by blast
    show ?thesis
    proof (cases y)
      case (Inl e)
      then show ?thesis using run Some dis shr by (auto simp: acceptor_onDisconnect_def gets_transport_def ebind_def egets_def)
    next
      case (Inr u)
      then have "(x, acc', m') = (Ok (), acc2, m1)"
        using run Some dis del(1) by (simp add: acceptor_onDisconnect_def gets_transport_def ebind_def [of "egets _"] ebind_def [of "disconnect_bound _ _"] egets_def)
      then show ?thesis using del shr K by simp
    qed
  qed
  then show "shrinks m m'" "x = Ok () \<Longrightarrow> acceptor_ok self (acc', m') \<and> known (m_connections acc') = (known (m_connections acc))(s := None)" by auto
qed

section \<open>Binding a connection to its session\<close>

lemma set_session_outcome:
  assumes ok: "smaps_ok acc" and h: "known (m_connections acc) h = Some (h, q0, sids)"
  shows "\<exists>acc'. set_session h q (acc, m) = (Ok (), acc', m) \<and> registry acc' = registry acc \<and> t_sessions acc' = t_sessions acc \<and>
    world acc' = world acc \<and> smaps_ok acc' \<and> known (m_connections acc') = (known (m_connections acc))(h \<mapsto> (h, q, sids))"
proof -
  obtain c where c: "smap_find (m_connections acc) h = Some c" "m_socket c = h" "m_sessions c = sids" using h by (auto simp: known_def)
  then show ?thesis using ok
    by (auto simp: set_session_def emodify_def on_connection_def smaps_ok_def known_put_at intro!: exI [of _ "acc\<lparr>m_connections := smap_put h (c\<lparr>m_pSession := q\<rparr>) (m_connections acc)\<rparr>"])
qed

text \<open>A connection that reads its first message may be bound to a session that is not registered, or to none.\<close>

lemma set_session_ok:
  assumes ok: "acceptor_but E self (acc, m)" and E: "E \<subseteq> {h}" and h: "known (m_connections acc) h = Some (h, q0, sids)"
    and q: "\<And>p. q = Some p \<Longrightarrow> bound_ok True (registry acc) p sids"
    and acc': "registry acc' = registry acc" "t_sessions acc' = t_sessions acc" "world acc' = world acc" "smaps_ok acc'"
      "known (m_connections acc') = (known (m_connections acc))(h \<mapsto> (h, q, sids))"
  shows "acceptor_but {h} self (acc', m)"
proof -
  note d = acceptor_butD [OF ok]
  let ?K = "(known (m_connections acc))(h \<mapsto> (h, q, sids))"
  have others: "bound_ok False (registry acc) p sids'" if "?K h' = Some (s, Some p, sids')" "h' \<noteq> h" for h' s p sids'
  proof -
    have "h' \<notin> E" using that(2) E by blast
    then show ?thesis using binds_okD(2) [OF d(8), of h' s p sids'] that by (simp split: if_splits)
  qed
  have apart: "q \<noteq> Some p" if "?K h' = Some (s, Some p, sids')" "h' \<noteq> h" for h' s p sids'
    using others [OF that] q [of p] by (auto simp: bound_ok_def split: option.splits)
  have "binds_ok {h} ?K (registry acc) (open_sockets m)"
  proof (rule binds_okI)
    fix h' s p sids' assume "?K h' = Some (s, Some p, sids')"
    then show "bound_ok (h' \<in> {h}) (registry acc) p sids'" using others q [of p] by (cases "h' = h") auto
  next
    fix h1 h2 s1 s2 p sids1 sids2
    assume "?K h1 = Some (s1, Some p, sids1)" "?K h2 = Some (s2, Some p, sids2)"
    then show "h1 = h2" using apart binds_okD(3) [OF d(8), of h1 s1 p sids1 h2 s2 sids2] by (cases "h1 = h"; cases "h2 = h") auto
  qed (use binds_okD(1) [OF d(8)] h in \<open>auto split: if_splits\<close>)
  then show ?thesis using d acc' by (simp add: acceptor_but_def sessions_filed_def)
qed

lemma getSession_resembles:
  assumes "smaps_ok (fst w)"
  shows "resembles w (snd (acceptor_getSession self msg h w))"
proof -
  have "resembles w (t\<lparr>responders := x\<rparr>, m)" if "resembles w (t, m)" for t m x
    using that by (cases w) (simp add: resembles_def smaps_ok_def)
  then show ?thesis using run_session_resembles [OF keeps_id_calls(3) assms, of self _ True] resembles_refl [OF assms]
    by (auto simp: acceptor_getSession_def ebind_def elift_def gets_transport_def egets_def eret_def modify_transport_def emodify_def
        split: sum.split option.split prod.split) (metis snd_conv)+
qed

text \<open>The id a Logon names is the one by which its session is looked up.\<close>

lemma logon_lookup:
  assumes "logon_session msg = Ok (Some sid)"
  shows "lookupSession_string msg True r = Ok (lookupSession sid r)"
proof (cases "decoded (setStringHeader msg new_Message)")
  case (Inr res)
  obtain ok message where res: "res = (ok, message)" by (cases res)
  have run: "(if \<not> ok then Ok None else case logon_id message of Inl (FieldNotFound _) \<Rightarrow> Ok None | x \<Rightarrow> x) = Ok (Some sid)"
    using assms unfolding logon_session_def Inr res by simp
  then have ok: "ok" by (cases ok) simp_all
  then have "logon_id message = Ok (Some sid)" using run by (cases "logon_id message") (auto split: exn.splits)
  then obtain b c d where "string_of_header message TAG_BeginString = Ok b" "string_of_header message TAG_SenderCompID = Ok c"
      "string_of_header message TAG_TargetCompID = Ok d" "sid = mk_SessionID b d c []"
    by (auto simp: logon_id_def split: if_splits)
  then show ?thesis using ok by (simp add: lookupSession_string_def Inr res)
qed (use assms in \<open>simp add: logon_session_def\<close>)

lemma getSession_found:
  assumes ok: "acceptor_but E self' (acc, m)" and look: "lookupSession_string msg True (registry acc) = Ok found"
    and run: "acceptor_getSession self msg h (acc, m) = (Ok (Some p), w')"
  shows "found = Some p"
proof -
  note d = acceptor_butD [OF ok]
  obtain sid where sid: "logon_session msg = Ok (Some sid)" "smap_find (t_sessions acc) (m_frozenString sid) = Some p"
    using run by (auto simp: acceptor_getSession_def ebind_def elift_def gets_transport_def egets_def eret_def split: sum.splits option.splits prod.splits)
  then obtain sid' where id: "id_of (registry acc) p = Some sid'" "m_frozenString sid' = m_frozenString sid"
    using d(7) unfolding sessions_filed_def by blast
  then obtain s where "objects (registry acc) p = Some s" "m_sessionID s = sid'" by (auto simp: id_of_def)
  then have "lookupSession sid (registry acc) = Some p" using registry_object [OF d(5)] id(2) by (fastforce simp: lookupSession_def)
  then show ?thesis using logon_lookup [OF sid(1)] look by simp
qed

lemma valid_session:
  assumes "isValidSession c acc"
  shows "\<exists>p sid. m_pSession c = Some p \<and> id_of (registry acc) p = Some sid \<and> \<not> isSessionRegistered sid (registry acc) \<and> listed sid (m_sessions c)"
  using assms by (auto simp: isValidSession_def session_of_def session_at_def id_of_def listed_def split: option.splits)

lemma bind_session_ok:
  assumes ok: "acceptor_ok self (acc, m)" and h: "known (m_connections acc) h = Some (h, None, m_sessions c)"
    and run: "bind_session self h c msg (acc, m) = (x, w')"
  shows "acceptor_but {h} self w' \<and> (\<forall>p. x = Ok (Some p) \<longrightarrow> binding h p (m_sessions c) self w')"
proof (cases "lookupSession_string msg True (registry acc)")
  case (Inl e)
  have "acceptor_but {h} self (acc, m)" by (rule set_session_ok [OF ok _ h, where q = None]) (use h acceptor_butD(6) [OF ok] in \<open>auto simp: fun_eq_iff\<close>)
  then show ?thesis using run Inl by (auto simp: bind_session_def ebind_def gets_transport_def egets_def elift_def)
next
  case (Inr found)
  let ?K = "known (m_connections acc)" and ?sids = "m_sessions c"
  obtain acc1 where s1: "set_session h found (acc, m) = (Ok (), acc1, m)" and f1: "registry acc1 = registry acc" "t_sessions acc1 = t_sessions acc"
    "world acc1 = world acc" "smaps_ok acc1" "known (m_connections acc1) = ?K(h \<mapsto> (h, found, ?sids))"
    using set_session_outcome [OF acceptor_butD(6) [OF ok] h, of found m] by blast
  let ?valid = "isValidSession (c\<lparr>m_pSession := found\<rparr>) acc1"
  obtain y acc2 m2 where got: "(if ?valid then acceptor_getSession self msg h else eret None) (acc1, m) = (y, acc2, m2)"
    by (cases "(if ?valid then acceptor_getSession self msg h else eret None) (acc1, m)") auto
  have out: "(x, w') = (case y of Inl e \<Rightarrow> (Throw e, acc2, m2) | Inr session \<Rightarrow> ebind (set_session h session) (\<lambda>_. eret session) (acc2, m2))"
    using run got s1 by (auto simp: bind_session_def ebind_def gets_transport_def egets_def elift_def Inr split: sum.split prod.split)
  show ?thesis
  proof (cases ?valid)
    case False
    then have y: "y = Ok None" "acc2 = acc1" "m2 = m" using got by (simp_all add: eret_def)
    have k1: "known (m_connections acc1) h = Some (h, found, ?sids)" by (simp add: f1)
    obtain acc3 where s3: "set_session h None (acc1, m) = (Ok (), acc3, m)" "registry acc3 = registry acc" "t_sessions acc3 = t_sessions acc"
      "world acc3 = world acc" "smaps_ok acc3" "known (m_connections acc3) = ?K(h \<mapsto> (h, None, ?sids))"
      using set_session_outcome [OF f1(4) k1, of None m] f1 by auto
    have "acceptor_but {h} self (acc3, m)" by (rule set_session_ok [OF ok _ h _ s3(2-6)]) simp_all
    then show ?thesis using out y s3(1) by (simp add: ebind_def eret_def)
  next
    case True
    from valid_session [OF True] obtain p sid where p: "found = Some p" "id_of (registry acc) p = Some sid"
      "\<not> isSessionRegistered sid (registry acc)" "listed sid ?sids" by (auto simp: f1)
    have "acceptor_but {h} self (acc1, m)" by (rule set_session_ok [OF ok _ h _ f1]) (use p in \<open>simp_all add: bound_ok_def\<close>)
    moreover have "known (m_connections acc1) h = Some (h, Some p, ?sids)" by (simp add: f1(5) p(1))
    ultimately have b1: "binding h p ?sids self (acc1, m)" using p by (simp add: binding_def f1)
    have "resembles (acc1, m) (acc2, m2)" using getSession_resembles [of "(acc1, m)" self msg h] f1(4) got True by simp
    then have b2: "binding h p ?sids self (acc2, m2)" by (rule binding.resembling [OF b1])
    then have ok2: "acceptor_but {h} self (acc2, m2)" and k2: "known (m_connections acc2) h = Some (h, Some p, ?sids)" by (simp_all add: binding_def)
    show ?thesis
    proof (cases y)
      case (Inl e)
      then show ?thesis using out ok2 by simp
    next
      case session: (Inr session)
      obtain acc3 where s3: "set_session h session (acc2, m2) = (Ok (), acc3, m2)" and f3: "registry acc3 = registry acc2" "t_sessions acc3 = t_sessions acc2"
        "world acc3 = world acc2" "smaps_ok acc3" "known (m_connections acc3) = (known (m_connections acc2))(h \<mapsto> (h, session, ?sids))"
        using set_session_outcome [OF acceptor_butD(6) [OF ok2] k2, of session m2] by blast
      have same: "q = p" if "session = Some q" for q
        using getSession_found [of "{h}" self acc1 m msg found self h q "(acc2, m2)"] b1 Inr got session that True p(1) by (simp add: binding_def f1)
      have bnd: "bound_ok True (registry acc2) q ?sids" if "session = Some q" for q
        using same [OF that] ok2 k2 binds_okD(2) [OF acceptor_butD(8) [OF ok2] k2] by simp
      have ok3: "acceptor_but {h} self (acc3, m2)" by (rule set_session_ok [OF ok2 _ k2 bnd f3]) simp
      have "binding h q ?sids self (acc3, m2)" if "session = Some q" for q
        using ok3 b2 same [OF that] that by (simp add: binding_def f3)
      then show ?thesis using out session s3 ok3 by (simp add: ebind_def eret_def)
    qed
  qed
qed

lemma registers:
  assumes b: "binding h p sids self (acc, m)" and run: "register_bound p (acc, m) = (x, acc', m')"
  shows "acceptor_ok self (acc', m')"
proof -
  have ok: "acceptor_but {h} self (acc, m)" and k: "known (m_connections acc) h = Some (h, Some p, sids)" using b by (simp_all add: binding_def)
  note d = acceptor_butD [OF ok]
  obtain s where s: "objects (registry acc) p = Some s" "listed (m_sessionID s) sids" using b by (auto simp: binding_def id_of_def)
  let ?sid = "m_sessionID s" and ?r = "registry acc"
  have id: "id_of ?r p = Some ?sid" by (simp add: id_of_def s)
  have "\<not> isSessionRegistered ?sid ?r" using binds_okD(2) [OF d(8) k] id by (simp add: bound_ok_def)
  moreover have "lookupSession ?sid ?r = Some p" using registry_object [OF d(5) s(1)] by (simp add: lookupSession_def)
  moreover define r' where "r' = ?r\<lparr>s_registered := smap_put (m_frozenString ?sid) (?sid, p) (s_registered ?r)\<rparr>"
  ultimately have reg: "snd (registerSession ?sid ?r) = r'" by (simp add: registerSession_def)
  have acc': "acc' = acc\<lparr>registry := r'\<rparr>" "m' = m" using run s(1) reg by (simp_all add: register_bound_def modify_transport_def emodify_def session_at_def)
  have r': "id_of r' = id_of ?r" "isSessionRegistered sid' r' \<longleftrightarrow> isSessionRegistered sid' ?r \<or> m_frozenString sid' = m_frozenString ?sid" for sid'
    using registry_maps [OF d(5)] by (auto simp: r'_def id_of_def isSessionRegistered_def fun_eq_iff)
  have "binds_ok {} (known (m_connections acc)) r' (open_sockets m)"
  proof (rule binds_okI)
    fix h' s' q sids' assume q: "known (m_connections acc) h' = Some (s', Some q, sids')"
    show "bound_ok (h' \<in> {}) r' q sids'"
    proof (cases "h' = h")
      case True
      then show ?thesis using q k id s(2) by (simp add: bound_ok_def r')
    next
      case False
      then show ?thesis using binds_okD(2) [OF d(8) q] by (auto simp: bound_ok_def r' split: option.splits)
    qed
  qed (auto dest: binds_okD(1,3) [OF d(8)])
  moreover have "registry_ok r'" using registry_ok_register [OF d(5), of ?sid] by (simp add: reg)
  moreover have "sessions_filed acc'" using d(7) by (simp add: sessions_filed_def acc' r')
  ultimately show ?thesis using d by (simp add: acceptor_but_def acc' smaps_ok_def)
qed

text \<open>What reading leaves: a connection that may be exempt, and the whole invariant where reading goes on.\<close>

definition after_read :: "nat \<Rightarrow> socket_handle \<Rightarrow> bool result \<times> SocketAcceptor \<times> SocketMonitor \<Rightarrow> bool" where
  "after_read self h res = ((acceptor_but {h} self (snd res) \<or> acceptor_ok self (snd res)) \<and> (fst res = Ok True \<longrightarrow> acceptor_ok self (snd res)))"

lemma dropped_after_read:
  assumes "acceptor_but E self w" "E \<subseteq> {h}"
  shows "after_read self h (ebind (drop_in self h) (\<lambda>_. eret False) w)"
proof -
  have "acceptor_but E self (snd (ebind (drop_in self h) (\<lambda>_. eret False) w))"
    unfolding drop_in_def by (rule keepsD [where P = "acceptor_but E self"]) (intro keeps_intros accepting.keeps_drop, rule assms(1))
  moreover have "E = {} \<or> E = {h}" using assms(2) by blast
  ultimately show ?thesis by (auto simp: after_read_def drop_in_def ebind_def emodify_def eret_def)
qed

lemma greet_ok:
  assumes b: "binding h p sids self w"
  shows "after_read self h (greet self h p msg w)"
proof -
  let ?go = "ebind (ask utc_now) (\<lambda>now. run_session self p (next_string msg now))"
  have "keeps (binding h p sids self) (peer_denied p)"
    unfolding peer_denied_def by (intro keeps_intros binding.keeps_gets binding.keeps_ask)
  then obtain z w2 where den: "peer_denied p w = (z, w2)" "binding h p sids self w2" using keepsD [where P = "binding h p sids self", OF _ b] by (metis prod.collapse)
  have "keeps (binding h p sids self) ?go" by (intro keeps_bind binding.keeps_ask binding.keeps_run_session keeps_id_calls)
  then obtain u acc3 m3 where go: "?go w2 = (u, acc3, m3)" "binding h p sids self (acc3, m3)" using keepsD [where P = "binding h p sids self", OF _ den(2)] by (metis prod.collapse)
  obtain acc4 m4 where reg: "register_bound p (acc3, m3) = (Ok (), acc4, m4)" by (simp add: register_bound_def modify_transport_def emodify_def)
  have ok4: "acceptor_ok self (acc4, m4)" by (rule registers [OF go(2) reg])
  have but: "acceptor_but {h} self w2" "acceptor_but {h} self (acc3, m3)" using den(2) go(2) by (simp_all add: binding_def)
  show ?thesis
  proof (cases z)
    case (Inl e)
    then show ?thesis using den(1) but(1) by (simp add: greet_def ebind_def after_read_def)
  next
    case (Inr denied)
    show ?thesis
    proof (cases denied)
      case True
      then show ?thesis using den(1) Inr dropped_after_read [OF but(1)] by (simp add: greet_def ebind_def [of "peer_denied p"])
    next
      case False
      have "greet self h p msg w = (case u of Inl e \<Rightarrow> (Throw e, acc3, m3) | Inr _ \<Rightarrow> (Ok True, acc4, m4))"
        using den(1) Inr False go(1) reg by (auto simp: greet_def ebind_def ask_def eret_def split: sum.splits prod.splits)
      then show ?thesis using but(2) ok4 by (auto simp: after_read_def split: sum.split)
    qed
  qed
qed

lemma first_message_ok:
  assumes ok: "acceptor_ok self (acc, m)" and h: "known (m_connections acc) h = Some (h, None, m_sessions c)"
  shows "after_read self h (first_message self h c msg (acc, m))"
proof -
  obtain y w1 where bind: "bind_session self h c msg (acc, m) = (y, w1)" by (cases "bind_session self h c msg (acc, m)")
  note b = bind_session_ok [OF ok h bind]
  show ?thesis
  proof (cases y)
    case (Inl e)
    then show ?thesis using bind b by (simp add: first_message_def ebind_def after_read_def)
  next
    case (Inr session)
    then show ?thesis using bind b dropped_after_read [of "{h}" self w1 h] greet_ok [of h _ "m_sessions c" self w1 msg]
      by (cases session) (auto simp: first_message_def ebind_def [of "bind_session _ _ _ _"])
  qed
qed

section \<open>Reading\<close>

definition unbound :: "socket_handle \<Rightarrow> SessionID list \<Rightarrow> nat \<Rightarrow> SocketAcceptor \<times> SocketMonitor \<Rightarrow> bool" where
  "unbound h sids self w = (acceptor_ok self w \<and> known (m_connections (fst w)) h = Some (h, None, sids))"

interpretation unbound: transport_invariant "unbound h sids self" for h sids self
proof unfold_locales
  show "unbound h sids self w \<Longrightarrow> smaps_ok (fst w)" for w unfolding unbound_def using accepting.maps_ok by blast
  show "unbound h sids self w \<Longrightarrow> resembles w w' \<Longrightarrow> unbound h sids self w'" for w w'
    using acceptor_resembles [of "{}" self w w'] by (cases w; cases w') (auto simp: unbound_def resembles_def)
qed

lemma read_stream_ok:
  assumes "m_pSession c = None" "unbound h (m_sessions c) self w"
  shows "after_read self h (read_stream self h c parser w)"
proof -
  obtain complete msg parser' where msg: "readMessage [] parser = (complete, msg, parser')" by (cases "readMessage [] parser") auto
  obtain x acc1 m1 where set: "set_parser h parser' w = (x, acc1, m1)" by (cases "set_parser h parser' w") auto
  have x: "x = Ok ()" using set by (simp add: set_parser_def emodify_def)
  have "unbound h (m_sessions c) self (snd (set_parser h parser' w))" by (rule keepsD [OF unbound.keeps_set_parser assms(2)])
  then have "unbound h (m_sessions c) self (acc1, m1)" by (simp add: set)
  then have ok: "acceptor_ok self (acc1, m1)" "known (m_connections acc1) h = Some (h, None, m_sessions c)" by (simp_all add: unbound_def)
  show ?thesis using first_message_ok [OF ok, of msg] ok(1) assms(1) set x
    by (simp add: read_stream_def msg ebind_def [of "set_parser _ _"] eret_def after_read_def)
qed

lemma caught_after_read:
  assumes "after_read self h (m w)"
  shows "after_read self h (ecatch m (\<lambda>e. if e = InvalidMessage \<or> e = MessageParseError then ebind (drop_in self h) (\<lambda>_. eret False) else ethrow e) w)"
proof -
  obtain x w' where Pair: "m w = (x, w')" by (cases "m w")
  then have "acceptor_but {h} self w' \<or> acceptor_ok self w'" using assms by (simp add: after_read_def)
  then have "after_read self h (ebind (drop_in self h) (\<lambda>_. eret False) w')" using dropped_after_read [of "{h}" self w' h] dropped_after_read [of "{}" self w' h] by auto
  then show ?thesis using assms Pair by (cases x) (auto simp: ecatch_def ethrow_def after_read_def)
qed

lemma read_accepted_ok:
  assumes ok: "acceptor_ok self w" and c: "smap_find (m_connections (fst w)) h = Some c"
  shows "after_read self h (read_accepted self h c w)"
proof (cases "m_pSession c")
  case None
  have "m_socket c = h" using binds_okD(1) [OF acceptor_butD(8), of "{}" self "fst w" "snd w" h] ok c by (simp add: known_def)
  then have u: "unbound h (m_sessions c) self w" using ok c None by (simp add: unbound_def known_def)
  obtain bytes w1 where a: "ask received w = (Ok bytes, w1)" by (simp add: ask_def)
  have "unbound h (m_sessions c) self (snd (ask received w))" by (rule keepsD [OF unbound.keeps_ask u])
  then have u1: "unbound h (m_sessions c) self w1" by (simp add: a)
  then have ok1: "acceptor_ok self w1" by (simp add: unbound_def)
  have body: "after_read self h (ebind (elift (addToStream b (m_parser c))) (\<lambda>parser. ebind (set_parser h parser) (\<lambda>_. read_stream self h c parser)) w1)" for b
  proof (cases "addToStream b (m_parser c)")
    case (Inl e)
    then show ?thesis using ok1 by (simp add: ebind_def elift_def after_read_def)
  next
    case (Inr parser)
    have "unbound h (m_sessions c) self (snd (set_parser h parser w1))" by (rule keepsD [OF unbound.keeps_set_parser u1])
    then show ?thesis using read_stream_ok [OF None] Inr by (simp add: ebind_def elift_def set_parser_def emodify_def)
  qed
  let ?body = "\<lambda>b. ebind (elift (addToStream b (m_parser c))) (\<lambda>parser. ebind (set_parser h parser) (\<lambda>_. read_stream self h c parser))"
  show ?thesis unfolding read_accepted_def ebind_def [of "ask received"] a
    using caught_after_read [of self h "?body _" w1, OF body] dropped_after_read [OF ok1] by (cases bytes) simp_all
next
  case (Some p)
  have "keeps (acceptor_ok self) (read_accepted self h c)"
    unfolding read_accepted_def read_stream_def Some drop_in_def option.case
    by (intro keeps_intros accepting.keeps_ask accepting.keeps_drop accepting.keeps_set_parser accepting.keeps_readMessages)
  then have "acceptor_ok self (snd (read_accepted self h c w))" by (rule keepsD [where P = "acceptor_ok self", OF _ ok])
  then show ?thesis by (simp add: after_read_def)
qed

section \<open>The strategy of the server keeps the invariant\<close>

lemma drop_in_keeps: "keeps (acceptor_but E self) (drop_in self s)"
  unfolding drop_in_def by (rule accepting.keeps_drop)

lemma server_onError_ok:
  assumes ok: "acceptor_but E self w" and E: "E \<subseteq> {s}" and run: "server_onError self s w = (x, w')"
  shows "shrinks (snd w) (snd w')" "x = Ok () \<Longrightarrow> acceptor_ok self w' \<and> known (m_connections (fst w')) = (known (m_connections (fst w)))(s := None)"
proof -
  obtain acc m where w: "w = (acc, m)" by (cases w)
  obtain y acc1 m1 where dis: "acceptor_onDisconnect self s (acc, m) = (y, acc1, m1)" by (cases "acceptor_onDisconnect self s (acc, m)") auto
  note 1 = acceptor_onDisconnect_ok [OF ok [unfolded w] E dis]
  have "(x, w') = (case y of Inl e \<Rightarrow> (Throw e, acc1, m1) | Inr _ \<Rightarrow> (Ok (), acc1, snd (drop_socket self s m1)))"
    unfolding run [symmetric] w server_onError_def ebind_def [of "acceptor_onDisconnect self s"] dis
    by (cases y) (simp_all add: drop_in_def emodify_def)
  then have out: "w' = (case y of Inl e \<Rightarrow> (acc1, m1) | Inr _ \<Rightarrow> (acc1, snd (drop_socket self s m1)))" "x = y"
    by (cases y; simp)+
  have shr: "shrinks m (snd (drop_socket self s m1))" using 1(1) by (rule shrinks.drops)
  show "shrinks (snd w) (snd w')" using out(1) shr 1(1) by (simp add: w split: sum.splits)
  assume "x = Ok ()"
  then have y: "y = Ok ()" "w' = (acc1, snd (drop_socket self s m1))" using out by simp_all
  note 2 = 1(2) [OF y(1)]
  have "acceptor_ok self (snd (drop_in self s (acc1, m1)))" by (rule keepsD [OF drop_in_keeps conjunct1 [OF 2]])
  then show "acceptor_ok self w' \<and> known (m_connections (fst w')) = (known (m_connections (fst w)))(s := None)"
    using 2 y(2) by (simp add: w drop_in_def emodify_def)
qed

lemma server_data_ok:
  assumes ok: "acceptor_ok self w" and run: "ebind (acceptor_onData self s) (\<lambda>ok. ewhen (\<not> ok) (server_onError self s)) w = (Ok (), w')"
  shows "acceptor_ok self w'"
proof -
  obtain x w1 where d: "acceptor_onData self s w = (x, w1)" by (cases "acceptor_onData self s w")
  have "after_read self s (acceptor_onData self s w)"
    using ok read_accepted_ok [OF ok, of s]
    by (cases "smap_find (m_connections (fst w)) s") (auto simp: acceptor_onData_def gets_transport_def ebind_def egets_def eret_def after_read_def)
  then have r: "acceptor_but {s} self w1 \<or> acceptor_ok self w1" "x = Ok True \<Longrightarrow> acceptor_ok self w1" by (simp_all add: after_read_def d)
  show ?thesis
  proof (cases x)
    case (Inr b)
    then have "if b then w' = w1 else server_onError self s w1 = (Ok (), w')" using run d by (auto simp: ebind_def ewhen_def eret_def split: if_splits)
    then show ?thesis using r Inr server_onError_ok(2) [of "{s}" self w1 s "Ok ()" w'] server_onError_ok(2) [of "{}" self w1 s "Ok ()" w']
      by (auto split: if_splits)
  qed (use run d in \<open>simp add: ebind_def\<close>)
qed

lemma server_accept_ok:
  assumes ok: "acceptor_ok self (acc, m)" and run: "server_accept (acc, m) = (x, acc1, m1)"
  shows "\<exists>s. x = Ok s \<and> acceptor_ok self (acc1, m1) \<and> (s \<noteq> INVALID_SOCKET_HANDLE \<longrightarrow> s \<in> open_sockets m1)"
proof -
  note d = acceptor_butD [OF ok]
  define s where "s = new_socket (world acc (asked acc)) (held m)"
  have new: "s \<notin> held m" using d(2,4) by (simp add: s_def fresh_sockets_def)
  have acc1: "acc1 = acc\<lparr>asked := asked acc + 1\<rparr>" "x = Ok s" "m1 = (if s \<noteq> INVALID_SOCKET_HANDLE then snd (addConnect s m) else m)"
    using run by (auto simp: server_accept_def Let_def s_def split: if_splits)
  have m1: "monitor_ok m1" "INVALID_SOCKET_HANDLE \<notin> held m1" "m_owner m1 = m_owner m" "open_sockets m \<subseteq> open_sockets m1"
      "s \<noteq> INVALID_SOCKET_HANDLE \<longrightarrow> s \<in> open_sockets m1"
    using d(1,2) new by (auto simp: acc1(3) addConnect_def monitor_ok_def held_def open_sockets_def)
  have "binds_ok {} (known (m_connections acc)) (registry acc) (open_sockets m1)"
    by (rule binds_okI) (use binds_okD [OF d(8)] m1(4) in blast)+
  then have "acceptor_ok self (acc1, m1)" using d m1 by (auto simp: acceptor_but_def acc1(1) smaps_ok_def sessions_filed_def)
  then show ?thesis using acc1(2) m1(5) by blast
qed

lemma file_accepted_ok:
  assumes ok: "acceptor_ok self (acc, m)" and s: "s \<in> open_sockets m" and run: "file_accepted a s (acc, m) = (x, acc', m')"
  shows "acceptor_ok self (acc', m')"
proof -
  note d = acceptor_butD [OF ok]
  obtain now takes' ports sids where acc': "acc' = acc\<lparr>asked := asked acc + 1, m_portToSessions := ports,
      m_connections := smap_put s (new_SocketConnection takes' now s sids None) (m_connections acc)\<rparr>" "m' = m"
    using run by (auto simp: file_accepted_def ebind_def ask_def modify_transport_def emodify_def Let_def)
  have ks: "known (m_connections acc') = (known (m_connections acc))(s \<mapsto> (s, None, sids))"
    using d(6) by (simp add: acc' known_put_at smaps_ok_def new_SocketConnection_def)
  have "binds_ok {} (known (m_connections acc')) (registry acc) (open_sockets m)"
    unfolding ks by (rule binds_okI) (use s binds_okD [OF d(8)] in \<open>auto split: if_splits\<close>)
  then show ?thesis using d by (simp add: acceptor_but_def acc' smaps_ok_def sessions_filed_def)
qed

lemma acceptor_onConnect_ok:
  assumes ok: "acceptor_ok self (acc, m)" and s: "s \<noteq> INVALID_SOCKET_HANDLE \<longrightarrow> s \<in> open_sockets m"
  shows "acceptor_ok self (snd (acceptor_onConnect self a s (acc, m)))"
proof (cases "socket_isValid s")
  case True
  then have "s \<in> open_sockets m" using s by (auto simp: socket_isValid_def)
  then have filed: "acceptor_ok self (snd (file_accepted a s (acc, m)))"
    using file_accepted_ok [OF ok] by (metis prod.collapse)
  have dropped: "acceptor_ok self (snd (drop_in self s (acc, m)))" by (rule keepsD [OF drop_in_keeps ok])
  show ?thesis using True ok filed dropped
    by (auto simp: acceptor_onConnect_def gets_transport_def ebind_def egets_def eret_def)
qed (use ok in \<open>simp add: acceptor_onConnect_def eret_def\<close>)

lemma settles_onEvent: "settles (acceptor_ok self) (server_onEvent self s)"
  unfolding settles_def
proof (intro allI impI)
  fix w x w' assume ok: "acceptor_ok self w" and run: "server_onEvent self s w = (Ok x, w')"
  obtain acc m where w: "w = (acc, m)" by (cases w)
  show "acceptor_ok self w'"
  proof (cases "isListener s acc")
    case True
    obtain y acc1 m1 where acc: "server_accept (acc, m) = (y, acc1, m1)" by (cases "server_accept (acc, m)") auto
    from server_accept_ok [OF ok [unfolded w] acc] obtain s' where
      s': "y = Ok s'" "acceptor_ok self (acc1, m1)" "s' \<noteq> INVALID_SOCKET_HANDLE \<longrightarrow> s' \<in> open_sockets m1" by blast
    have "acceptor_onConnect self s s' (acc1, m1) = (Ok x, w')"
      using run True acc s'(1) by (simp add: w server_onEvent_def gets_transport_def ebind_def egets_def)
    then show ?thesis using acceptor_onConnect_ok [OF s'(2,3), of s] by simp
  next
    case False
    then have "ebind (acceptor_onData self s) (\<lambda>ok. ewhen (\<not> ok) (server_onError self s)) w = (Ok x, w')"
      using run by (simp add: w server_onEvent_def gets_transport_def ebind_def [of "egets _"] egets_def)
    then show ?thesis using server_data_ok [OF ok] by simp
  qed
qed

lemma keeps_acceptor_timeout: "keeps (acceptor_but E self) (acceptor_onTimeout self)"
  unfolding acceptor_onTimeout_def by (intro keeps_bind accepting.keeps_gets keeps_seq_map accepting.keeps_connection_timeout)

lemma keeps_acceptor_write: "keeps (acceptor_but E self) (acceptor_onWrite s)"
proof (rule keepsI)
  fix w assume "acceptor_but E self w"
  from keepsD [OF accepting.keeps_on_connection [OF harmless_ops(2)] this, of s] this
  show "acceptor_but E self (snd (acceptor_onWrite s w))" by (simp add: acceptor_onWrite_def emodify_def split: option.split)
qed

lemma server_reported_ok:
  assumes ok: "acceptor_ok self w" and front: "m_dropped (snd w) = s # rest" and run: "server_onError self s w = (Ok (), w')"
  shows "acceptor_ok self (fst w', close_reported s (snd w'))"
proof -
  obtain acc m acc' m' where w: "w = (acc, m)" "w' = (acc', m')" by (cases w; cases w')
  note d = acceptor_butD [OF ok [unfolded w]]
  from server_onError_ok [OF ok _ run] have 1: "shrinks m m'" "acceptor_ok self (acc', m')" "known (m_connections acc') s = None" by (auto simp: w)
  note d' = acceptor_butD [OF 1(2)]
  obtain ys where ys: "m_dropped m' = s # rest @ ys" using shrinks_moves [OF 1(1) d(1)] front by (auto simp: w)
  have m: "monitor_ok (close_reported s m')" "INVALID_SOCKET_HANDLE \<notin> held (close_reported s m')" "m_owner (close_reported s m') = m_owner m'"
    using d'(1,2) ys by (auto simp: monitor_ok_def close_reported_def held_def)
  have "binds_ok {} (known (m_connections acc')) (registry acc') (open_sockets (close_reported s m'))"
  proof (rule binds_okI)
    fix h s' q sids assume k: "known (m_connections acc') h = Some (s', q, sids)"
    then have "h \<noteq> s" using 1(3) by auto
    then show "s' = h \<and> h \<in> open_sockets (close_reported s m')" using binds_okD(1) [OF d'(8) k] ys by (auto simp: open_sockets_def close_reported_def)
  qed (use binds_okD(2,3) [OF d'(8)] in blast)+
  then show ?thesis using d' m by (simp add: w acceptor_but_def)
qed

interpretation acceptors: transport_strategy self "server_strategy self" "acceptor_ok self" for self
proof (unfold_locales, goal_cases)
  case (1 w)
  then show ?case by (cases w) (simp add: acceptor_but_def)
next
  case (2 w s)
  then show ?case using server_onError_ok(1) [of "{}" self w s] by (cases "server_onError self s w") (simp add: server_strategy_def)
next
  case (3 w s rest w')
  then show ?case using server_reported_ok by (simp add: server_strategy_def)
next
  case (4 w s w')
  then have "w' = (fst w, connected_socket s (snd w))" by (simp add: server_strategy_def eret_def)
  moreover have "open_sockets (connected_socket s (snd w)) = open_sockets (snd w)" using 4(2) by (auto simp: connected_socket_def open_sockets_def)
  ultimately show ?case using 4(1,2) by (cases w) (auto simp: acceptor_but_def connected_socket_def monitor_ok_def held_def)
next
  case (5 s)
  then show ?case unfolding settles_def server_strategy_def using server_onError_ok(2) [of "{}" self _ s] by fastforce
next
  case (6 s)
  then show ?case by (simp add: server_strategy_def settles_keeps keeps_acceptor_write)
next
  case (7 s)
  then show ?case by (simp add: server_strategy_def settles_onEvent)
next
  case 8
  then show ?case by (simp add: server_strategy_def settles_keeps keeps_basic)
next
  case 9
  then show ?case by (simp add: server_strategy_def settles_keeps keeps_acceptor_timeout)
next
  case (10 st m)
  then show ?case by (auto simp: acceptor_but_def monitor_ok_def held_def open_sockets_def)
next
  case (11 st m t)
  then show ?case by (auto simp: acceptor_but_def monitor_ok_def held_def open_sockets_def)
next
  case (12 st m)
  then show ?case by (auto simp: acceptor_but_def monitor_ok_def held_def open_sockets_def read_wakeup_def addWrite_def Let_def)
qed

end
