(* ===== verification/AcceptorRuns.thy ===== *)
theory AcceptorRuns
  imports AcceptorInvariants
begin

text \<open>
  Runs of an acceptor: construction, listening, then the turns of its reactor and the calls that other threads make on its
  sessions. The properties of the acceptor are stated here.
\<close>

section \<open>Construction\<close>

text \<open>Sessions have been made, nothing has been accepted.\<close>

definition fresh_acceptor :: "SocketAcceptor \<Rightarrow> bool" where
  "fresh_acceptor acc =
     (registry_ok (registry acc) \<and> sessions_filed acc \<and> smap_ok (t_sessions acc) \<and> m_connections acc = [] \<and> m_pendingConnections acc = [])"

lemma new_acceptor_fresh: "registry_ok r \<Longrightarrow> fresh_acceptor (new_SocketAcceptor r settings ports answers)"
  by (simp add: fresh_acceptor_def new_SocketAcceptor_def sessions_filed_def)

lemma accept_session_cases:
  assumes "accept_session env sid st = (Ok (), st')"
  shows "st' = st \<or> (\<exists>d p f. SessionFactory_create env sid d \<lparr>m_dictionaries = fst st, f_registry = registry (snd st)\<rparr> = (Ok p, f) \<and>
    snd st' = (snd st)\<lparr>registry := f_registry f, t_sessions := smap_put (m_frozenString sid) p (t_sessions (snd st))\<rparr>)"
  using assms by (cases st) (auto simp: accept_session_def split: sum.splits if_splits prod.splits; blast)

lemma accept_session_fresh:
  assumes fresh: "fresh_acceptor (snd st)" and run: "accept_session env sid st = (Ok (), st')"
  shows "fresh_acceptor (snd st') \<and> world (snd st') = world (snd st)"
proof -
  obtain c acc where st: "st = (c, acc)" by (cases st)
  show ?thesis
  proof (cases "st' = st")
    case False
    then obtain d p f where create: "SessionFactory_create env sid d \<lparr>m_dictionaries = c, f_registry = registry acc\<rparr> = (Ok p, f)"
      and acc': "snd st' = acc\<lparr>registry := f_registry f, t_sessions := smap_put (m_frozenString sid) p (t_sessions acc)\<rparr>"
      using accept_session_cases [OF run] by (auto simp: st)
    have old: "registry_ok (registry acc)" "sessions_filed acc" "smap_ok (t_sessions acc)" "m_connections acc = []" "m_pendingConnections acc = []"
      using fresh by (simp_all add: st fresh_acceptor_def)
    from create_outcome [OF _ create] old(1) obtain s where s: "registry_ok (f_registry f)" "objects (registry acc) p = None"
        "objects (f_registry f) = (objects (registry acc))(p \<mapsto> s)" "m_sessionID s = sid" by auto
    have new: "smap_find (t_sessions acc) k \<noteq> Some p" for k using old(2) s(2) unfolding sessions_filed_def id_of_def by fastforce
    have "sessions_filed (snd st')"
      unfolding sessions_filed_def acc'
    proof (intro allI impI)
      fix k q assume "smap_find (t_sessions (acc\<lparr>registry := f_registry f, t_sessions := smap_put (m_frozenString sid) p (t_sessions acc)\<rparr>)) k = Some q"
      then have q: "(k = m_frozenString sid \<and> q = p) \<or> (smap_find (t_sessions acc) k = Some q)" using old(3) by (auto split: if_splits)
      then show "\<exists>sid'. id_of (registry (acc\<lparr>registry := f_registry f, t_sessions := smap_put (m_frozenString sid) p (t_sessions acc)\<rparr>)) q = Some sid' \<and> m_frozenString sid' = k"
        using old(2) s new unfolding sessions_filed_def id_of_def by (cases "q = p") auto
    qed
    then show ?thesis using s(1) old(3-5) by (simp add: fresh_acceptor_def acc' st)
  qed (use fresh in simp)
qed

lemma accept_sessions_fresh:
  "fresh_acceptor (snd st) \<Longrightarrow> eseq (map (accept_session env) sids) st = (Ok (), st') \<Longrightarrow>
   fresh_acceptor (snd st') \<and> world (snd st') = world (snd st)"
proof (induction sids arbitrary: st)
  case (Cons sid sids)
  obtain x st1 where run: "accept_session env sid st = (x, st1)" by (cases "accept_session env sid st")
  with Cons.prems(2) have "x = Ok ()" "eseq (map (accept_session env) sids) st1 = (Ok (), st')" by (cases x; simp add: ebind_def)+
  with Cons.IH [of st1] accept_session_fresh [OF Cons.prems(1)] run show ?case by auto
qed (simp add: eret_def)

lemma initialize_acceptor_fresh:
  assumes run: "initialize_acceptor env (c, new_SocketAcceptor r settings ports answers) = (Ok (), c', acc)" and r: "registry_ok r"
  shows "fresh_acceptor acc \<and> world acc = answers"
proof -
  obtain n where "eseq (map (accept_session env) (getSessions settings))
      (c, (new_SocketAcceptor r settings ports answers)\<lparr>m_maxPendingConnections := n\<rparr>) = (Ok (), c', acc)"
    using run by (auto simp: initialize_acceptor_def Let_def new_SocketAcceptor_def split: if_splits prod.splits sum.splits)
  from accept_sessions_fresh [OF _ this] new_acceptor_fresh [OF r, of settings ports answers]
  show ?thesis by (simp add: new_SocketAcceptor_def fresh_acceptor_def sessions_filed_def)
qed

lemma fresh_acceptor_ok:
  assumes "fresh_acceptor acc" "fresh_sockets (world acc)" "monitor_ok m" "INVALID_SOCKET_HANDLE \<notin> held m" "m_owner m = None"
  shows "acceptor_ok self (acc, m)"
proof -
  have "known (m_connections acc) = Map.empty" using assms(1) by (simp add: fresh_acceptor_def known_def fun_eq_iff)
  then show ?thesis using assms by (simp add: acceptor_but_def fresh_acceptor_def smaps_ok_def binds_ok_def)
qed

section \<open>Listening\<close>

lemma server_add_ok:
  assumes ok: "acceptor_ok self w"
  shows "acceptor_ok self (snd (server_add port' nodelay sendBuf rcvBuf w))"
proof -
  obtain acc m where w: "w = (acc, m)" by (cases w)
  note d = acceptor_butD [OF ok [unfolded w]]
  define s where "s = new_socket (world acc (asked acc)) (held m)"
  have new: "s \<notin> held m" using d(2,4) by (simp add: s_def fresh_sockets_def)
  let ?m = "snd (addRead s m)"
  have m: "monitor_ok ?m" "s \<noteq> INVALID_SOCKET_HANDLE \<Longrightarrow> INVALID_SOCKET_HANDLE \<notin> held ?m" "m_owner ?m = m_owner m" "open_sockets m \<subseteq> open_sockets ?m"
    using d(1,2) new by (auto simp: addRead_def monitor_ok_def held_def open_sockets_def)
  have "binds_ok {} (known (m_connections acc)) (registry acc) (open_sockets ?m)"
    by (rule binds_okI) (use binds_okD [OF d(8)] m(4) in blast)+
  then show ?thesis using d m
    by (auto simp: w server_add_def Let_def s_def [symmetric] acceptor_but_def smaps_ok_def sessions_filed_def split: option.split)
qed

lemma keeps_listen: "keeps (acceptor_ok self) (listen_for sid)"
  unfolding listen_for_def modify_transport_def
  by (intro keeps_intros accepting.keeps_gets keepsI [where m = "server_add _ _ _ _"] server_add_ok)
    (auto simp: acceptor_but_def Let_def smaps_ok_def sessions_filed_def)

lemma keeps_acceptor_onInitialize: "keeps (acceptor_ok self) acceptor_onInitialize"
  unfolding acceptor_onInitialize_def modify_transport_def
  by (intro keeps_intros accepting.keeps_gets keeps_seq_map keeps_listen) (auto simp: acceptor_but_def smaps_ok_def sessions_filed_def)

section \<open>Runs\<close>

text \<open>Turns of the reactor's thread \<open>self\<close>, and calls on sessions from any thread, whatever their result.\<close>

inductive acceptor_runs :: "nat \<Rightarrow> SocketAcceptor \<times> SocketMonitor \<Rightarrow> SocketAcceptor \<times> SocketMonitor \<Rightarrow> bool"
  for self :: nat and w0 :: "SocketAcceptor \<times> SocketMonitor" where
  listening: "acceptor_runs self w0 w0"
| serves: "acceptor_runs self w0 w \<Longrightarrow> acceptor_turn self should_poll answers w = Some (Ok b, w') \<Longrightarrow> acceptor_runs self w0 w'"
| called: "acceptor_runs self w0 w \<Longrightarrow> (\<And>s. session_call s (snd (act s))) \<Longrightarrow> run_session thread p (act :: unit action) w = (x, w') \<Longrightarrow> acceptor_runs self w0 w'"

lemma keeps_drop_overdue: "keeps (acceptor_ok self) (drop_overdue self now)"
  unfolding drop_overdue_def by (intro keeps_bind accepting.keeps_gets keeps_seq_map drop_in_keeps)

lemma keeps_expire: "keeps (acceptor_ok self) (expirePendingReads self)"
  unfolding expirePendingReads_def modify_transport_def
  by (intro keeps_intros accepting.keeps_gets accepting.keeps_ask keeps_acceptor_timeout keeps_drop_overdue)
    (auto simp: acceptor_but_def smaps_ok_def sessions_filed_def)

lemma server_block_ok:
  assumes ok: "acceptor_ok self w" and run: "server_block self should_poll answers w = Some (Ok b, w')"
  shows "acceptor_ok self w'"
proof (cases "list_ex (\<lambda>e. \<not> socket_isValid (fst e)) (m_socketToInfo (fst w))")
  case False
  then obtain x where "block self (server_strategy self) should_poll answers w = Some (x, w')" "map_sum id (\<lambda>_. True) x = Ok b"
    using run by (auto simp: server_block_def)
  then have "block self (server_strategy self) should_poll answers w = Some (Ok (), w')" by (cases x) simp_all
  then show ?thesis by (rule acceptors.block_good [OF ok])
qed (use ok run in \<open>simp add: server_block_def\<close>)

lemma acceptor_turn_ok:
  assumes ok: "acceptor_ok self w" and run: "acceptor_turn self should_poll answers w = Some (Ok b, w')"
  shows "acceptor_ok self w'"
proof -
  obtain goes_on w1 where b: "server_block self should_poll answers w = Some (Ok goes_on, w1)"
    using run by (auto simp: acceptor_turn_def split: option.splits sum.splits prod.splits)
  have ok1: "acceptor_ok self w1" by (rule server_block_ok [OF ok b])
  have "keeps (acceptor_ok self) (ebind (expirePendingReads self) (\<lambda>_. eret True))" by (intro keeps_bind keeps_expire keeps_basic)
  from keepsD [OF this ok1] show ?thesis using run b ok1 by (auto simp: acceptor_turn_def split: if_splits)
qed

lemma acceptor_runs_ok: "acceptor_runs self w0 w \<Longrightarrow> acceptor_ok self w0 \<Longrightarrow> acceptor_ok self w"
proof (induction rule: acceptor_runs.induct)
  case (serves w should_poll answers b w')
  then show ?case using acceptor_turn_ok by blast
next
  case (called w act thread p x w')
  have "keeps_id act" using session_call_id [OF called.hyps(2)] by (simp add: keeps_id_def)
  from keepsD [OF accepting.keeps_run_session [OF this] called.IH [OF called.prems], of thread p] show ?case using called.hyps(3) by simp
qed

lemma connection_known:
  assumes ok: "acceptor_ok self (acc, m)" and c: "smap_find (m_connections acc) h = Some c"
  shows "m_socket c = h \<and> h \<in> open_sockets m"
    and "m_pSession c = Some p \<Longrightarrow> \<exists>sid. session_of c acc = Some (p, sid) \<and> isSessionRegistered sid (registry acc) \<and> listed sid (m_sessions c)"
    and "m_pSession c = Some p \<Longrightarrow> smap_find (m_connections acc) h' = Some c' \<Longrightarrow> m_pSession c' = Some p \<Longrightarrow> h' = h"
proof -
  note b = binds_okD [OF acceptor_butD(8) [OF ok]]
  have K: "known (m_connections acc) h = Some (m_socket c, m_pSession c, m_sessions c)" using c by (simp add: known_def)
  show "m_socket c = h \<and> h \<in> open_sockets m" using b(1) [OF K] by simp
  show "\<exists>sid. session_of c acc = Some (p, sid) \<and> isSessionRegistered sid (registry acc) \<and> listed sid (m_sessions c)" if "m_pSession c = Some p"
    using b(2) [OF K [unfolded that]] that by (auto simp: bound_ok_def session_of_def session_at_def id_of_def split: option.splits)
  show "h' = h" if "m_pSession c = Some p" "smap_find (m_connections acc) h' = Some c'" "m_pSession c' = Some p"
    using b(3) [OF K [unfolded that(1)], of h' "m_socket c'" "m_sessions c'"] that(2,3) by (simp add: known_def)
qed

section \<open>Connections that stay silent\<close>

abbreviation sound :: "SocketAcceptor \<times> SocketMonitor \<Rightarrow> bool" where
  "sound w \<equiv> sound_sessions (fst w)"

lemma sound_modify: "(\<And>acc. objects (registry (f acc)) = objects (registry acc)) \<Longrightarrow> keeps sound (modify_transport f)"
  by (auto simp: modify_transport_def sound_sessions_def intro!: keeps_modify)

lemma sound_ask: "keeps sound (ask g)"
  by (rule keepsI) (auto simp: ask_def sound_sessions_def split: prod.split)

lemma sound_basic: "keeps sound (gets_transport f)" "keeps sound (drop_in self s)" "keeps sound (connection_timeout self c)"
proof -
  show "keeps sound (gets_transport f)" unfolding gets_transport_def by (rule keeps_basic)
  show "keeps sound (drop_in self s)" by (rule keepsI) (simp add: drop_in_def emodify_def)
  have "keeps sound (run_session self p (next_timer now))" for p now by (rule keepsI) (rule run_session_sound [OF _ ok.keeps_next_timer])
  then show "keeps sound (connection_timeout self c)" unfolding connection_timeout_def by (intro keeps_intros sound_ask)
qed

lemma sound_expire: "keeps sound (expirePendingReads self)"
  unfolding expirePendingReads_def acceptor_onTimeout_def drop_overdue_def
  by (intro keeps_intros keeps_seq_map sound_ask sound_basic sound_modify) simp

lemma acceptor_onDisconnect_returns:
  assumes ok: "acceptor_ok self w" and sound: "sound w"
  shows "\<exists>w'. acceptor_onDisconnect self h w = (Ok (), w') \<and> sound w'"
proof (cases "smap_find (m_connections (fst w)) h")
  case None
  then show ?thesis using sound by (simp add: acceptor_onDisconnect_def gets_transport_def eff_defs)
next
  case (Some c)
  obtain acc m where w: "w = (acc, m)" by (cases w)
  have bound: "objects (registry acc) p \<noteq> None" if "m_pSession c = Some p" for p
    using connection_known(2) [OF ok [unfolded w] Some [unfolded w fst_conv] that] by (auto simp: session_of_def session_at_def split: option.splits)
  obtain w1 where w1: "disconnect_bound self c w = (Ok (), w1)" "sound w1"
  proof (cases "m_pSession c")
    case (Some p)
    then show ?thesis using run_disconnect [OF sound, of p self] bound [OF Some] that by (auto simp: disconnect_bound_def w)
  qed (use that [of w] sound in \<open>simp add: disconnect_bound_def eret_def\<close>)
  have "keeps sound (delete_connection c)" unfolding delete_connection_def
    by (rule sound_modify) (auto simp: unregisterSession_def split: option.split prod.split)
  then obtain w2 where w2: "delete_connection c w1 = (Ok (), w2)" "sound w2"
    using w1(2) keepsD [of sound "delete_connection c" w1] by (simp add: delete_connection_def modify_transport_def emodify_def)
  then show ?thesis using Some w1(1)
    by (auto simp: acceptor_onDisconnect_def gets_transport_def modify_transport_def eff_defs sound_sessions_def)
qed

lemma server_onError_returns:
  assumes "acceptor_ok self w" "sound w"
  shows "\<exists>w'. server_onError self s w = (Ok (), w') \<and> sound w'"
  using acceptor_onDisconnect_returns [OF assms, of s] by (auto simp: server_onError_def drop_in_def eff_defs)

interpretation drops: drop_reports self "server_strategy self" "\<lambda>w. acceptor_ok self w \<and> sound w" for self
proof (unfold_locales, goal_cases)
  case (1 w)
  then show ?case using acceptors.good_ok by blast
next
  case (2 w s)
  then show ?case using acceptors.onError_shrinks by blast
next
  case (3 w s rest w')
  then have "acceptor_ok self (fst w', close_reported s (snd w'))" using acceptors.reported_good by blast
  then show ?case using server_onError_returns [of self w s] 3 by (auto simp: server_strategy_def)
qed

lemma server_block_reports:
  assumes ok: "acceptor_ok self (acc, m)" "sound_sessions acc" and front: "m_dropped m \<noteq> []"
  shows "\<exists>acc' m' ys. block self (server_strategy self) should_poll answers (acc, m) = Some (Ok (), acc', m') \<and> reported m m' ys \<and>
    acceptor_ok self (acc', m') \<and> m_dropped m' = []"
proof -
  let ?m = "m\<lparr>m_owner := Some self\<rparr>"
  have start: "acceptor_ok self (acc, ?m) \<and> sound (acc, ?m)" using acceptors.owner_good [OF ok(1)] ok(2) by simp
  from drops.report_dropped_ends [OF this] obtain x w' ys where
    r: "report_dropped (server_strategy self) (acc, ?m) = Some (x, w')" "reported ?m (snd w') ys"
      "\<And>b. x = Ok b \<Longrightarrow> acceptor_ok self w' \<and> m_dropped (snd w') = [] \<and> b"
    using front by fastforce
  have "x \<noteq> Throw e" for e
  proof
    assume "x = Throw e"
    from drops.report_dropped_throws [OF r(1) [unfolded this] start] obtain w1 s where
      "acceptor_ok self w1" "sound w1" "fst (server_onError self s w1) = Throw e" by (auto simp: server_strategy_def)
    then show False using server_onError_returns [of self w1 s] by auto
  qed
  then obtain b where x: "x = Ok b" by (cases x) auto
  have "reported m (snd w') ys" using r(2) by (simp add: reported_def)
  moreover have "block self (server_strategy self) should_poll answers (acc, m) = Some (Ok (), w')"
    using r(1) r(3) [OF x] by (auto simp: x block_def split: bool.splits)
  ultimately show ?thesis using r(3) [OF x] by (metis prod.collapse)
qed

text \<open>What the sweep drops.\<close>

lemma drop_all_dropped:
  assumes "m_owner m = None \<or> m_owner m = Some self" "set ss \<subseteq> open_sockets m"
  shows "\<exists>m'. eseq (map (drop_in self) ss) (acc, m) = (Ok (), acc, m') \<and> set (m_dropped m') = set (m_dropped m) \<union> set ss"
  using assms
proof (induction ss arbitrary: m)
  case (Cons s ss)
  let ?m = "snd (drop_socket self s m)"
  have m: "m_owner ?m = m_owner m" "open_sockets ?m = open_sockets m" "set (m_dropped ?m) = insert s (set (m_dropped m))"
    using Cons.prems by (auto simp: drop_socket_def open_sockets_def)
  then show ?case using Cons.IH [of ?m] Cons.prems by (auto simp: drop_in_def eff_defs)
qed (simp add: eret_def)

lemma overdue_dropped:
  assumes ok: "acceptor_ok self (acc, m)" and run: "expirePendingReads self (acc, m) = (Ok (), acc1, m1)"
    and now: "now = wall_now (world acc (asked acc))" "now \<noteq> m_lastPreSessionSweep acc"
    and k: "smap_find (m_connections acc1) h = Some k" "overdue now acc1 k"
  shows "h \<in> set (m_dropped m1)"
proof -
  have none: "m_connections acc \<noteq> []" using run k by (auto simp: expirePendingReads_def gets_transport_def eff_defs)
  define acc0 where "acc0 = acc\<lparr>asked := asked acc + 1, m_lastPreSessionSweep := now\<rparr>"
  obtain x acc2 m2 where timers: "acceptor_onTimeout self (acc0, m) = (x, acc2, m2)" by (cases "acceptor_onTimeout self (acc0, m)") auto
  have "ebind (acceptor_onTimeout self) (\<lambda>_. drop_overdue self now) (acc0, m) = (Ok (), acc1, m1)"
    using run none now by (simp add: expirePendingReads_def gets_transport_def modify_transport_def ask_def acc0_def ebind_def [of "egets _"]
        ebind_def [of "emodify _"] ebind_def [of "ask _"] egets_def emodify_def)
  then have drop: "drop_overdue self now (acc2, m2) = (Ok (), acc1, m1)" using timers by (cases x) (auto simp: ebind_def)
  have "acceptor_ok self (acc0, m)" using ok by (simp add: acc0_def acceptor_but_def smaps_ok_def sessions_filed_def)
  from keepsD [OF keeps_acceptor_timeout this] have ok2: "acceptor_ok self (acc2, m2)" using timers by simp
  let ?hs = "map fst (filter (\<lambda>e. overdue now acc2 (snd e)) (m_connections acc2))"
  have "smap_ok (m_connections acc2)" using acceptor_butD(6) [OF ok2] by (simp add: smaps_ok_def)
  then have found: "smap_find (m_connections acc2) i = Some k' \<longleftrightarrow> (i, k') \<in> set (m_connections acc2)" for i k'
    using smap_ok_find [of "m_connections acc2" "(i, k')"] by (auto dest: map_of_SomeD)
  have "set ?hs \<subseteq> open_sockets m2" using connection_known(1) [OF ok2] found by auto
  from drop_all_dropped [OF acceptor_butD(3) [OF ok2] this, of acc2] drop
  have "acc1 = acc2" "set ?hs \<subseteq> set (m_dropped m1)" by (auto simp: drop_overdue_def gets_transport_def eff_defs comp_def)
  then show ?thesis using k found by force
qed

section \<open>Properties\<close>


lemma initialized_ok:
  assumes "initialize_acceptor env (c, new_SocketAcceptor r settings ports answers) = (Ok (), c', acc0)" "registry_ok r" "fresh_sockets answers"
    and "s \<noteq> t" "s \<noteq> INVALID_SOCKET_HANDLE" "t \<noteq> INVALID_SOCKET_HANDLE"
    and listen: "acceptor_onInitialize (acc0, new_SocketMonitor timeout (s, t) now) = (x, w0)"
  shows "acceptor_ok self w0"
proof -
  have m: "monitor_ok (new_SocketMonitor timeout (s, t) now)" "INVALID_SOCKET_HANDLE \<notin> held (new_SocketMonitor timeout (s, t) now)"
      "m_owner (new_SocketMonitor timeout (s, t) now) = None"
    using assms(4-6) by (auto simp: new_SocketMonitor_def monitor_ok_def held_def)
  have "acceptor_ok self (acc0, new_SocketMonitor timeout (s, t) now)"
    using initialize_acceptor_fresh [OF assms(1,2)] assms(3) m by (intro fresh_acceptor_ok) simp_all
  from keepsD [OF keeps_acceptor_onInitialize this] show ?thesis using listen by simp
qed

text \<open>C14: From the moment an acceptor listens and until it is stopped, through any turns of its reactor and any calls on its sessions by any thread, each of its
  connections has a socket that is being watched or is about to be reported; a connection that is bound to a session is bound to one
  that exists, is registered and belongs to the port the connection came in by; and no two connections are bound to the same session.\<close>

theorem acceptor_binds_once:
  assumes "initialize_acceptor env (c, new_SocketAcceptor r settings ports answers) = (Ok (), c', acc0)" and "registry_ok r"
    and "fresh_sockets answers" and "s \<noteq> t" "s \<noteq> INVALID_SOCKET_HANDLE" "t \<noteq> INVALID_SOCKET_HANDLE"
    and "acceptor_onInitialize (acc0, new_SocketMonitor timeout (s, t) now) = (Ok (), w0)" and "acceptor_runs self w0 (acc, m)"
    and "smap_find (m_connections acc) h = Some k"
  shows "m_socket k = h \<and> h \<in> m_readSockets m \<union> m_connectSockets m \<union> set (m_dropped m) \<and>
    (\<forall>p. m_pSession k = Some p \<longrightarrow>
       (\<exists>sid. session_of k acc = Some (p, sid) \<and> isSessionRegistered sid (registry acc) \<and>
         (\<exists>sid'\<in>set (m_sessions k). m_frozenString sid' = m_frozenString sid)) \<and>
       (\<forall>h' k'. smap_find (m_connections acc) h' = Some k' \<longrightarrow> m_pSession k' = Some p \<longrightarrow> h' = h))"
proof -
  have ok: "acceptor_ok self (acc, m)" using acceptor_runs_ok [OF assms(8)] initialized_ok [OF assms(1-7)] by blast
  note known = connection_known [OF ok assms(9)]
  have "\<exists>sid'\<in>set (m_sessions k). m_frozenString sid' = m_frozenString sid" if "listed sid (m_sessions k)" for sid
    using that by (auto simp: listed_def list_ex_iff)
  then show ?thesis using known unfolding open_sockets_def by blast
qed

text \<open>An acceptor with one session that listens on port 80, and a world in which a connection comes in at once.\<close>

definition served_id :: SessionID where
  "served_id = mk_SessionID ''FIX.4.2'' ''US'' ''THEM'' []"

definition served_settings :: Dictionary where
  "served_settings = \<lparr>m_data = [(''CONNECTIONTYPE'', ''acceptor''), (''NONSTOPSESSION'', ''Y''), (''SOCKETACCEPTPORT'', ''80''),
     (''USEDATADICTIONARY'', ''N'')], m_name = ''SESSION''\<rparr>"

definition served :: SessionSettings where
  "served = \<lparr>m_settings = [(m_frozenString served_id, served_id, served_settings)], m_defaults = new_Dictionary [], ss_resolveEnvVars = False\<rparr>"

definition served_world :: "nat \<Rightarrow> Answers" where
  "served_world _ = \<lparr>new_socket = \<lambda>used. if 5 \<notin> used then 5 else if 6 \<notin> used then 6 else INVALID_SOCKET_HANDLE,
     steady_now = 0, wall_now = 0, utc_now = epoch, received = None, takes = \<lambda>_ _. 0, peername = []\<rparr>"

abbreviation served_acceptor :: SocketAcceptor where
  "served_acceptor \<equiv> new_SocketAcceptor no_sessions served (\<lambda>_. 80) served_world"

lemma served_port: "getPortSetting served_settings SOCKET_ACCEPT_PORT True = Ok 80"
proof -
  have "decimal 80 = ''80''" "dict_has SOCKET_ACCEPT_PORT served_settings" "dict_getString SOCKET_ACCEPT_PORT False served_settings = Ok ''80''" by code_simp+
  then show ?thesis using int_convert_decimal [of signed_int 80] by (simp add: getPortSetting_def getInt_def signed_int_def int_type_ok_def)
qed

lemma served_options:
  "settings_get served_id served = Ok served_settings" "getSessions served = [served_id]" "max_pending served = Ok 0"
  "dict_getString CONNECTION_TYPE False served_settings = Ok ''acceptor''" "\<not> dict_has SOCKET_REUSE_ADDRESS served_settings"
  "getSocketNoDelay served_settings = Ok True" "getSocketBufferSize served_settings SOCKET_SEND_BUFFER_SIZE = Ok 0"
  "getSocketBufferSize served_settings SOCKET_RECEIVE_BUFFER_SIZE = Ok 0"
  by code_simp+

lemma served_created:
  "fst (SessionFactory_create example_env served_id served_settings \<lparr>m_dictionaries = [], f_registry = no_sessions\<rparr>) = Ok 0"
  by code_simp

text \<open>It is initialized, listens on socket 5, and accepts socket 6.\<close>

lemma served_initialized:
  "\<exists>c acc. initialize_acceptor example_env ([], served_acceptor) = (Ok (), c, acc) \<and> t_settings acc = served \<and> world acc = served_world \<and>
     asked acc = 0 \<and> m_connections acc = [] \<and> m_socketToInfo acc = [] \<and> m_portToInfo acc = [] \<and> m_maxPendingConnections acc = 0 \<and>
     m_lastPreSessionSweep acc = 0 \<and> m_portToSessions acc = [] \<and> bound_port acc = (\<lambda>_. 80)"
proof -
  obtain f where "SessionFactory_create example_env served_id served_settings \<lparr>m_dictionaries = [], f_registry = no_sessions\<rparr> = (Ok 0, f)"
    using served_created by (metis prod.collapse)
  then show ?thesis
    by (simp add: initialize_acceptor_def new_SocketAcceptor_def served_options accept_session_def ebind_def eret_def Let_def)
qed

lemma served_listens:
  assumes "t_settings acc = served" "world acc = served_world" "m_portToInfo acc = []" "m_socketToInfo acc = []" "m_connections acc = []"
    "asked acc = 0" "m_maxPendingConnections acc = 0" "m_lastPreSessionSweep acc = 0"
  shows "\<exists>acc'. acceptor_onInitialize (acc, new_SocketMonitor 0 (3, 4) 0) = (Ok (), acc', (new_SocketMonitor 0 (3, 4) 0)\<lparr>m_readSockets := {4, 5}\<rparr>) \<and>
     isListener 5 acc' \<and> map fst (m_socketToInfo acc') = [5] \<and> world acc' = served_world \<and> m_connections acc' = [] \<and>
     m_maxPendingConnections acc' = 0 \<and> m_lastPreSessionSweep acc' = 0"
proof -
  have "insert 5 {4} = {4, 5 :: int}" by auto
  then show ?thesis using assms
    by (simp add: acceptor_onInitialize_def listen_for_def served_options served_port gets_transport_def modify_transport_def server_add_def served_world_def
      held_def new_SocketMonitor_def addRead_def isListener_def eff_defs elift_def Let_def)
qed

lemma served_accepts:
  assumes "isListener 5 acc" "map fst (m_socketToInfo acc) = [5]" "world acc = served_world" "m_connections acc = []"
    "m_maxPendingConnections acc = 0" "m_lastPreSessionSweep acc = 0"
  shows "\<exists>acc' m' k. acceptor_turn 7 False [(0, Ready [{}, {POLLIN}])] (acc, (new_SocketMonitor 0 (3, 4) 0)\<lparr>m_readSockets := {4, 5}\<rparr>) = Some (Ok True, acc', m') \<and>
     smap_find (m_connections acc') 6 = Some k \<and> m_connectSockets m' = {6}"
proof -
  let ?m = "(new_SocketMonitor 0 (3, 4) 0)\<lparr>m_readSockets := {4, 5}, m_owner := Some 7\<rparr>"
  have valid: "\<not> list_ex (\<lambda>e. \<not> socket_isValid (fst e)) (m_socketToInfo acc)" using assms(2) by (auto simp: socket_isValid_def)
  have sets: "buildSets ?m = [4, 5]" by (simp add: buildSets_def new_SocketMonitor_def)
  have m: "m_dropped ?m = []" "m_interrupt ?m = 4" "m_readSockets ?m = {4, 5}" "m_timeout ?m = 0" "m_connectSockets ?m = {}" "held ?m = {3, 4, 5}"
    by (auto simp: new_SocketMonitor_def held_def)
  obtain acc1 k where event: "server_onEvent 7 5 (acc, ?m) = (Ok (), acc1, ?m\<lparr>m_connectSockets := {6}\<rparr>)" "m_connections acc1 = [(6, k)]"
      "world acc1 = served_world" "m_lastPreSessionSweep acc1 = 0"
    using assms by (simp add: server_onEvent_def gets_transport_def modify_transport_def server_accept_def acceptor_onConnect_def file_accepted_def ask_def
        socket_isValid_def served_world_def addConnect_def m eff_defs Let_def split: prod.splits)
  have "block 7 (server_strategy 7) False [(0, Ready [{}, {POLLIN}])] (acc, (new_SocketMonitor 0 (3, 4) 0)\<lparr>m_readSockets := {4, 5}\<rparr>) =
      Some (Ok (), acc1, ?m\<lparr>m_connectSockets := {6}\<rparr>)"
    by (simp add: block_def report_dropped.simps m sets sleepIfEmpty_def getTimeval_def processPollList_def process_entry_def processRead_def
        server_strategy_def event(1) eff_defs Let_def)
  then show ?thesis using valid event
    by (simp add: acceptor_turn_def server_block_def expirePendingReads_def gets_transport_def ask_def served_world_def eff_defs)
qed

theorem acceptor_binds_once_witness:
  "\<exists>c acc0 w0 acc m k. initialize_acceptor example_env ([], served_acceptor) = (Ok (), c, acc0) \<and>
     acceptor_onInitialize (acc0, new_SocketMonitor 0 (3, 4) 0) = (Ok (), w0) \<and> acceptor_runs 7 w0 (acc, m) \<and>
     smap_find (m_connections acc) 6 = Some k \<and> m_socket k = 6 \<and> 6 \<in> m_readSockets m \<union> m_connectSockets m \<union> set (m_dropped m)"
proof -
  from served_initialized obtain c acc0 where acc0: "initialize_acceptor example_env ([], served_acceptor) = (Ok (), c, acc0)"
      "t_settings acc0 = served" "world acc0 = served_world" "m_portToInfo acc0 = []" "m_socketToInfo acc0 = []" "m_connections acc0 = []"
      "asked acc0 = 0" "m_maxPendingConnections acc0 = 0" "m_lastPreSessionSweep acc0 = 0" by (elim exE conjE) (rule that)
  define m1 where "m1 = (new_SocketMonitor 0 (3, 4) 0)\<lparr>m_readSockets := {4, 5}\<rparr>"
  from served_listens [OF acc0(2-9), folded m1_def] obtain acc1 where
    w1: "acceptor_onInitialize (acc0, new_SocketMonitor 0 (3, 4) 0) = (Ok (), acc1, m1)" "isListener 5 acc1" "map fst (m_socketToInfo acc1) = [5]" "world acc1 = served_world" "m_connections acc1 = []"
      "m_maxPendingConnections acc1 = 0" "m_lastPreSessionSweep acc1 = 0" by (elim exE conjE) (rule that)
  from served_accepts [OF w1(2-7), folded m1_def] obtain acc m k where
    turn: "acceptor_turn 7 False [(0, Ready [{}, {POLLIN}])] (acc1, m1) = Some (Ok True, acc, m)" and k: "smap_find (m_connections acc) 6 = Some k"
    by blast
  have runs: "acceptor_runs 7 (acc1, m1) (acc, m)" by (rule acceptor_runs.serves [OF acceptor_runs.listening turn])
  have "registry_ok no_sessions" by (rule registry_reachable_ok [OF registry_reachable.start])
  moreover have "fresh_sockets served_world" by (simp add: fresh_sockets_def served_world_def)
  moreover have "(3 :: int) \<noteq> 4" "3 \<noteq> INVALID_SOCKET_HANDLE" "4 \<noteq> INVALID_SOCKET_HANDLE" by simp_all
  ultimately have "m_socket k = 6" "6 \<in> m_readSockets m \<union> m_connectSockets m \<union> set (m_dropped m)"
    using acceptor_binds_once [OF acc0(1) _ _ _ _ _ w1(1) runs k] by blast+
  then show ?thesis using acc0(1) w1(1) runs k by blast
qed

text \<open>C15: Once in a second, after the timers of the sessions have run, the acceptor drops every connection whose session has not received a
  Logon, or that has no session, more than ten seconds after it came in. When the sessions are in their invariant, the next pass of the
  reactor returns, has closed the socket of each of them, and has forgotten the connection.\<close>

theorem silent_connection_closed:
  assumes "acceptor_ok self (acc, m)" and "sound_sessions acc" and "expirePendingReads self (acc, m) = (Ok (), acc1, m1)"
    and "now = wall_now (world acc (asked acc))" "now \<noteq> m_lastPreSessionSweep acc"
    and "smap_find (m_connections acc1) h = Some k" and "overdue now acc1 k"
  shows "\<exists>acc2 m2. block self (server_strategy self) should_poll answers (acc1, m1) = Some (Ok (), acc2, m2) \<and>
    h \<in> set (closes m2) \<and> smap_find (m_connections acc2) h = None"
proof -
  have ok1: "acceptor_ok self (acc1, m1)" "sound_sessions acc1"
    using keepsD [OF keeps_expire assms(1)] keepsD [OF sound_expire, of "(acc, m)" self] assms(2,3) by simp_all
  have h: "h \<in> set (m_dropped m1)" by (rule overdue_dropped [OF assms(1,3-7)])
  then have "m_dropped m1 \<noteq> []" by auto
  from server_block_reports [OF ok1 this] obtain acc2 m2 ys where
    b: "block self (server_strategy self) should_poll answers (acc1, m1) = Some (Ok (), acc2, m2)" "reported m1 m2 ys"
      "acceptor_ok self (acc2, m2)" "m_dropped m2 = []" by blast
  have "h \<in> set (closes m2)" using b(2,4) h by (auto simp: reported_def)
  moreover have "h \<notin> open_sockets m2" using b(2,4) h acceptor_butD(1) [OF ok1(1)] by (auto simp: reported_def monitor_ok_def open_sockets_def)
  then have "smap_find (m_connections acc2) h = None" using connection_known(1) [OF b(3), of h] by (cases "smap_find (m_connections acc2) h") auto
  ultimately show ?thesis using b(1) by blast
qed

text \<open>A connection on socket 6 that has been silent for eleven seconds.\<close>

definition silent_connection :: SocketConnection where
  "silent_connection = new_SocketConnection (\<lambda>_ _. 0) 0 6 [] None"

definition silent_acceptor :: SocketAcceptor where
  "silent_acceptor = (new_SocketAcceptor no_sessions served (\<lambda>_. 80) (\<lambda>n. (served_world n)\<lparr>wall_now := 11\<rparr>))\<lparr>m_connections := [(6, silent_connection)]\<rparr>"

definition silent_monitor :: SocketMonitor where
  "silent_monitor = (new_SocketMonitor 0 (3, 4) 0)\<lparr>m_readSockets := {4, 6}\<rparr>"

theorem silent_connection_closed_witness:
  "\<exists>acc1 m1 acc2 m2. expirePendingReads 7 (silent_acceptor, silent_monitor) = (Ok (), acc1, m1) \<and>
     block 7 (server_strategy 7) False [] (acc1, m1) = Some (Ok (), acc2, m2) \<and> 6 \<in> set (closes m2) \<and> smap_find (m_connections acc2) 6 = None"
proof -
  let ?acc = "silent_acceptor\<lparr>asked := 1, m_lastPreSessionSweep := 11\<rparr>" and ?m = "snd (drop_socket 7 6 silent_monitor)"
  have fields: "m_connections silent_acceptor = [(6, silent_connection)]" "registry silent_acceptor = no_sessions" "t_sessions silent_acceptor = []"
      "m_pendingConnections silent_acceptor = []" "asked silent_acceptor = 0" "m_lastPreSessionSweep silent_acceptor = 0"
      "world silent_acceptor = (\<lambda>n. (served_world n)\<lparr>wall_now := 11\<rparr>)" "m_pSession silent_connection = None" "m_socket silent_connection = 6"
    by (simp_all add: silent_acceptor_def silent_connection_def new_SocketAcceptor_def new_SocketConnection_def)
  have late: "overdue 11 acc silent_connection" for acc
    by (simp add: overdue_def waiting_def fields getSecondsFromSetupStart_def silent_connection_def new_SocketConnection_def)
  have registry: "registry_ok no_sessions" by (rule registry_reachable_ok [OF registry_reachable.start])
  have "binds_ok {} (known (m_connections silent_acceptor)) no_sessions (open_sockets silent_monitor)"
    by (rule binds_okI) (auto simp: known_def fields open_sockets_def silent_monitor_def split: if_splits)
  then have ok: "acceptor_ok 7 (silent_acceptor, silent_monitor)" using registry
    by (auto simp: acceptor_but_def fields smaps_ok_def sessions_filed_def smap_ok_def fresh_sockets_def served_world_def
        silent_monitor_def new_SocketMonitor_def monitor_ok_def held_def)
  have sound: "sound_sessions silent_acceptor" by (simp add: sound_sessions_def fields no_sessions_def)
  have run: "expirePendingReads 7 (silent_acceptor, silent_monitor) = (Ok (), ?acc, ?m)"
    using late by (simp add: expirePendingReads_def acceptor_onTimeout_def connection_timeout_def drop_overdue_def drop_in_def gets_transport_def
        modify_transport_def ask_def fields eff_defs)
  have "11 = wall_now (world silent_acceptor (asked silent_acceptor))" "11 \<noteq> m_lastPreSessionSweep silent_acceptor"
      "smap_find (m_connections ?acc) 6 = Some silent_connection" by (simp_all add: fields)
  from silent_connection_closed [OF ok sound run this late, of False "[]"] show ?thesis using run by blast
qed

end
