(* ===== verification/Spec2Isabelle.thy ===== *)
theory Spec2Isabelle
  imports TimeRanges MessageRouting Validation Parsers SessionIDs MessageStores SessionDelivery SettingsRoundTrip SessionFactories DictionaryContents InitiatorRuns AcceptorRuns
begin

text \<open>
  A verification of the core of QuickFIX, the C++ FIX protocol engine under src/src/C++.

  The engine turns typed fields into text and back (FieldConvertors, FieldTypes), keeps the fields of
  a message in sorted maps with repeating groups (Field, FieldMap, MessageSorters), encodes and decodes whole
  messages (Message), checks them against a dictionary that was read from a document (DataDictionary), and decides when a
  session is open (TimeRange). Settings files (Settings, Dictionary, SessionSettings) tell a factory (SessionFactory) which sessions
  to create; a registry finds them by their ids.
  A connection cuts the incoming bytes into messages (Parser, SocketConnection) and hands each to its session (Session,
  SessionState), which checks the sequence number, delivers to the application, queues what came too early, asks for
  what is missing, numbers and stores what it sends (MessageStore, FileStore) and keeps the heartbeat timers. A reactor
  (SocketMonitor) watches the sockets of all connections and calls the initiator (Initiator, SocketInitiator, SocketConnector), which
  connects its sessions, or the acceptor (Acceptor, SocketAcceptor, SocketServer), which listens and binds each connection to the
  session its Logon names; both write what the sessions send and read what arrives.

  Theories and what they model:
  \<^item> \<open>FixPrelude\<close>: shared lists, strings, sorted association lists (\<open>std::map\<close>), C++ integer ranges.
  \<^item> \<open>Convertors\<close>: FieldConvertors.h and .cpp, integers, checksums, characters, booleans, the
    syntax of decimal numbers. Shown: the integer parser accepts exactly the literals of its type; printing and
    parsing are inverse.
  \<^item> \<open>DateTimes\<close>, \<open>DateTimeConvertors\<close>: FieldTypes.h and .cpp and the time convertors. Shown: the calendar
    arithmetic is the Gregorian calendar, adding seconds moves the instant, time stamps survive a round trip.
  \<^item> \<open>TimeRanges\<close>: TimeRange.h and .cpp. Shown: two times are in the same session exactly when they are
    in the same interval of the schedule.
  \<^item> \<open>Sorters\<close>: MessageSorters.h and .cpp. Shown: group orders find every position in array and hash
    table form; every order is total (locale \<open>tag_order\<close>, interpreted for each order).
  \<^item> \<open>FixFields\<close>, \<open>FieldMaps\<close>: Exceptions.h, Field.h, FieldMap.h and .cpp. Shown: a field map is a finite map
    from tags to values (locale \<open>tag_map\<close>), sorting restores it, count fields follow their groups.
  \<^item> \<open>DataDictionaries\<close>, \<open>Validation\<close>: DataDictionary.h and .cpp. Shown: exactly which messages pass.
  \<^item> \<open>DictionaryLoading\<close>, \<open>DictionaryFuel\<close>, \<open>DictionaryContents\<close>: the part of DataDictionary.cpp that walks a parsed document,
    over DOMDocument.h. Shown: loading ends when components refer to each other without a cycle; a loaded dictionary and the
    dictionaries of its groups say exactly what the document says.
  \<^item> \<open>Messages\<close>: Message.h and .cpp, with \<open>MessageEncoding\<close> (the frame of an encoded message),
    \<open>MessageDecoding\<close> (the decoder ends on every input), \<open>MessageRoundTrip\<close> (decoding undoes encoding, accepted
    texts have the length and checksum they claim) and \<open>MessageRouting\<close> (replies are routed back).
  \<^item> \<open>Parsers\<close>: Parser.h and .cpp and the read loop of SocketConnection.cpp. Shown: however the stream is cut, the
    encoded messages come out whole and in order; resuming a search equals starting over; what an unreadable length does.
  \<^item> \<open>SessionIDs\<close>: SessionID.h. Shown: the text of an id reads back to it.
  \<^item> \<open>Effects\<close>: stateful code that throws, as functions from a state to a result and a state, with the rules
    for invariants (\<open>keeps\<close>, \<open>leads\<close>) and for computations that agree below a bound (\<open>same\<close>).
  \<^item> \<open>Stores\<close>, \<open>FileStores\<close>, \<open>MessageStores\<close>: MessageStore.h and .cpp, FileStore.h and .cpp, the files as byte
    strings. Shown: both stores keep the contract \<open>message_store\<close>, the file store survives a restart, a run of sends
    reads back; where the two stores differ.
  \<^item> \<open>SessionStates\<close>, \<open>Sessions\<close>, \<open>SessionMessages\<close>, \<open>SessionHandlers\<close>: SessionState.h, DataDictionaryProvider.h and
    .cpp, Session.h and .cpp: state and environment, sending, the generated messages, the handlers and the timer.
  \<^item> \<open>SessionInvariants\<close>: the locales \<open>session_frame\<close> and \<open>session_invariant\<close>, which carry a property through every
    operation, and the invariant of every reachable session.
  \<^item> \<open>SessionTermination\<close>: processing a message ends. \<open>SessionTimers\<close>: when the timers fire, and what disconnecting leaves.
    \<open>SessionSending\<close>: what sending stores and numbers. \<open>SessionDelivery\<close>: what the application sees, in which order.
  \<^item> \<open>Dictionaries\<close>, \<open>SettingsFiles\<close>, \<open>SettingsRoundTrip\<close>: Dictionary.h and .cpp, the strings of Utility.cpp, Settings.h and .cpp,
    SessionSettings.h and .cpp. Shown: values over defaults (locale \<open>layered_settings\<close>), printing settings and reading them gives them back,
    what happens to long lines and to variables of one letter.
  \<^item> \<open>SessionRegistry\<close>: the static maps of Session.cpp over a heap of session objects. Shown: the registry finds exactly the live
    sessions, in every state a program can come to.
  \<^item> \<open>SessionFactories\<close>: SessionFactory.h and .cpp. Shown: a session is created as configured or not at all; shared dictionaries are
    what loading would give.
  \<^item> \<open>SocketMonitors\<close>: SocketMonitor_UNIX.cpp, the sets of sockets, the queue of dropped ones and a pass over what \<open>poll\<close> answers.
    The locales \<open>drop_reports\<close> and \<open>transport_strategy\<close> state what the monitor needs of a transport and give it: a pass ends, every drop
    is reported and closed exactly once, the invariant of the transport is kept.
  \<^item> \<open>SocketConnections\<close>: the sending half of SocketConnection.h and .cpp. Shown: bytes leave in order and none is lost, a queue
    that is not empty always has somebody who will write it, and a socket that takes bytes empties it.
  \<^item> \<open>TransportSettings\<close>: PortSetting.h and HostDetailsProvider.cpp. Shown: hosts are tried in turn, sessions of a port agree.
  \<^item> \<open>Transports\<close>: what both transports share: the record \<open>Transport\<close> over the registry and the connections, the turn of a session and
    the effects of its calls on its responder, and the reading half of SocketConnection.cpp. \<open>TransportFrames\<close>: what these
    operations leave unchanged, in the locale \<open>transport_invariant\<close>, which is interpreted for each invariant of the acceptor.
  \<^item> \<open>Initiators\<close>: Initiator.cpp, SocketInitiator.cpp and SocketConnector.cpp.
    \<open>InitiatorInvariants\<close>: an abstract view of the initiator (\<open>links\<close>) that its operations implement, and the interpretation of
    \<open>transport_strategy\<close>. \<open>InitiatorRuns\<close>: from construction on, every session is pending, connected or disconnected, with the
    connection that belongs to it; a dropped socket always leads to a disconnected session; what happens when no socket is to be had.
  \<^item> \<open>Acceptors\<close>: Acceptor.cpp, SocketAcceptor.cpp, SocketServer.cpp and the first message of a connection in SocketConnection.cpp.
    \<open>AcceptorInvariants\<close>: the invariant of the acceptor, kept by every callback, with the exempt connection that is reading its first
    message, and the interpretation of \<open>transport_strategy\<close>. \<open>AcceptorRuns\<close>: as long as an acceptor serves, a session is
    bound to at most one connection; a connection that stays silent is closed.

  Conventions. Exceptions are the datatype \<open>exn\<close>, fallible functions return \<open>exn + 'a\<close>. Tags are
  \<open>int\<close>s in the range of C++ \<open>int\<close> (\<open>int32\<close>), sequence numbers 64-bit words. The environment of a session (clock,
  application callbacks, local time) is an argument of its constructor: any functions, the clock read by the number of the
  call. What a session does to it is a list of events. Reading settings takes the environment variables as a function, the factory takes the
  function that loads a dictionary and the callback of the application. A document is the tree of nodes the XML parser yields.
  Answers of the kernel (new sockets, bound ports, addresses of peers, bytes received, what \<open>send\<close> takes and \<open>poll\<close> reports) and clock readings of a transport are functions of the number of the
  question; of the kernel only this is assumed, that a new socket has a number that is not open (\<open>fresh_sockets\<close>).

  Fuel. The nested loops of the decoder take fuel twice the length of the text; \<open>setString_total\<close> shows that this is
  always enough, because every step consumes at least one byte. The loop over the queue of a session takes fuel two above
  the length of the queue; \<open>next_message_terminates\<close> shows that more changes nothing, because a message taken
  from the queue has the expected number and is never put back. Reading the components and groups of a document takes fuel for the
  depth of its calls; \<open>dictionary_load_terminates\<close> gives a bound that is enough when no component contains itself, and
  \<open>self_reference_never_ends\<close> shows that none is enough otherwise.

  Not modelled: the value of floating point fields (vendored double-conversion), the XML parser (vendored pugixml), the transports with
  a thread per connection and those over SSL (the calls of the operating system and of OpenSSL around the sessions modelled here), starting and
  stopping the thread of an initiator or an acceptor, HTTP administration, logs, databases, locks, callbacks that call the session again, XML output of messages, and
  the generated message classes. System calls on files are assumed to succeed.
\<close>

end
